(* ===== verification/Prelude.thy ===== *)
theory Prelude
  imports Main "HOL-Library.Word" "HOL-Library.Char_ord" "HOL-Library.List_Lexorder"
begin

text \<open>
  Shared ground of the development: the outcome types with which every program of
  the repository is modelled (an \<open>exit\<close> code, a memory fault, a return), the machine
  integers of the C sources, and the generic list lemmas the components use.
\<close>

subsection \<open>Collections of facts\<close>

named_theorems heap_simps \<open>updates and dereferences of explicit heaps\<close>
named_theorems clib_simps \<open>unfolding of the C library functions\<close>

subsection \<open>Machine integers\<close>

type_synonym u8 = "8 word"
type_synonym u16 = "16 word"
type_synonym u32 = "32 word"
type_synonym u64 = "64 word"

text \<open>
  Conversion to a C \<open>int\<close> (32 bits, two's complement) and to an
  \<open>unsigned int\<close>, as the assignments of the sources perform it.
\<close>

definition to_int32 :: "int \<Rightarrow> int" where
  "to_int32 x = signed_take_bit 31 x"

definition to_uint32 :: "int \<Rightarrow> int" where
  "to_uint32 x = take_bit 32 x"

definition to_int64 :: "int \<Rightarrow> int" where
  "to_int64 x = signed_take_bit 63 x"

definition to_uint64 :: "int \<Rightarrow> int" where
  "to_uint64 x = take_bit 64 x"

text \<open>Integer division of C truncates towards zero.\<close>

definition c_div :: "int \<Rightarrow> int \<Rightarrow> int" where
  "c_div a b = sgn a * sgn b * (\<bar>a\<bar> div \<bar>b\<bar>)"

definition c_mod :: "int \<Rightarrow> int \<Rightarrow> int" where
  "c_mod a b = a - c_div a b * b"

subsection \<open>Outcomes\<close>

text \<open>
  The way a piece of C code can end: it returns a value, it calls \<open>exit\<close> with a
  code, it dereferences an invalid pointer (the process then receives
  \<open>SIGSEGV\<close>), it divides an integer by zero (\<open>SIGFPE\<close>), an \<open>assert\<close> fails,
  a signal ends it, or a loop or a blocking call of it never ends (\<open>Hang\<close>).
\<close>

datatype 'a outcome = Ret 'a | Exit int | SegFault | DivFault | Abort | Killed int | Hang

fun obind :: "'a outcome \<Rightarrow> ('a \<Rightarrow> 'b outcome) \<Rightarrow> 'b outcome" where
  "obind (Ret x) f = f x"
| "obind (Exit c) f = Exit c"
| "obind SegFault f = SegFault"
| "obind DivFault f = DivFault"
| "obind Abort f = Abort"
| "obind (Killed n) f = Killed n"
| "obind Hang f = Hang"

text \<open>Sequencing of calls that may not end.\<close>

abbreviation obind2 :: "'a outcome option \<Rightarrow> ('a \<Rightarrow> 'b outcome option) \<Rightarrow> 'b outcome option" where
  "obind2 r f \<equiv> Option.bind r (\<lambda>x. case x of Ret y \<Rightarrow> f y | Exit c \<Rightarrow> Some (Exit c) | SegFault \<Rightarrow> Some SegFault
     | DivFault \<Rightarrow> Some DivFault | Abort \<Rightarrow> Some Abort | Killed k \<Rightarrow> Some (Killed k) | Hang \<Rightarrow> Some Hang)"

lemma obind_Ret_iff: "obind m f = Ret y \<longleftrightarrow> (\<exists>x. m = Ret x \<and> f x = Ret y)"
  by (cases m) auto

definition c_assert :: "bool \<Rightarrow> unit outcome" where
  "c_assert b = (if b then Ret () else Abort)"

lemma obind_cong: "m = m' \<Longrightarrow> (\<And>x. m' = Ret x \<Longrightarrow> f x = f' x) \<Longrightarrow> obind m f = obind m' f'"
  by (cases m') auto

lemma obind_assoc: "obind (obind m f) g = obind m (\<lambda>x. obind (f x) g)"
  by (cases m) auto

lemma to_int32_id [simp]: "- (2 ^ 31) \<le> x \<Longrightarrow> x < 2 ^ 31 \<Longrightarrow> to_int32 x = x"
  by (simp add: to_int32_def signed_take_bit_int_eq_self)

lemma to_int32_eq: "to_int32 x = (x + 2 ^ 31) mod 2 ^ 32 - 2 ^ 31"
  by (simp add: to_int32_def signed_take_bit_eq_take_bit_shift take_bit_eq_mod)

lemma to_int32_add: "to_int32 (to_int32 a + b) = to_int32 (a + b)"
proof -
  have "((a + 2 ^ 31) mod 2 ^ 32 + b) mod 2 ^ 32 = (a + 2 ^ 31 + b) mod (2 ^ 32 :: int)" by (rule mod_add_left_eq)
  then show ?thesis by (simp add: to_int32_eq algebra_simps)
qed

lemma nat_mult_less_int32: "a * b < 2 ^ 31 \<Longrightarrow> nat a * nat b < 2 ^ 31"
  by (cases "0 \<le> a"; cases "0 \<le> b") (simp_all flip: nat_mult_distrib)

lemma mod_shift: "0 \<le> a + k * m \<Longrightarrow> a + k * m < m \<Longrightarrow> a mod m = a + k * (m :: int)"
  by (metis mod_mult_self1 mod_pos_pos_trivial)

lemma to_int32_double:
  assumes "0 < to_int32 (x * 2)"
  shows "to_int32 x < to_int32 (x * 2)"
proof -
  define y where "y = (x + 2 ^ 31) mod 2 ^ 32"
  define q where "q = (x + 2 ^ 31) div 2 ^ 32"
  have x: "x = 2 ^ 32 * q + y - 2 ^ 31" unfolding y_def q_def by (simp add: algebra_simps)
  have y: "0 \<le> y" "y < 2 ^ 32" by (simp_all add: y_def)
  have "(x * 2 + 2 ^ 31) mod 2 ^ 32 = (2 * y - 2 ^ 31 + 2 * q * 2 ^ 32) mod 2 ^ 32" unfolding x by (simp add: algebra_simps)
  also have "\<dots> = (2 * y - 2 ^ 31) mod 2 ^ 32" by (rule mod_mult_self1)
  finally have m: "to_int32 (x * 2) = (2 * y - 2 ^ 31) mod 2 ^ 32 - 2 ^ 31" by (simp add: to_int32_eq)
  have "(2 * y - 2 ^ 31) mod 2 ^ 32 = (if 2 * y < 2 ^ 31 then 2 * y + 2 ^ 31 else if 2 * y < 2 ^ 31 + 2 ^ 32 then 2 * y - 2 ^ 31
    else 2 * y - 2 ^ 31 - 2 ^ 32)"
    using y mod_shift [of "2 * y - 2 ^ 31" 1 "2 ^ 32"] mod_shift [of "2 * y - 2 ^ 31" 0 "2 ^ 32"]
      mod_shift [of "2 * y - 2 ^ 31" "- 1" "2 ^ 32"] by auto
  moreover have "to_int32 x = y - 2 ^ 31" by (simp only: to_int32_eq y_def)
  ultimately show ?thesis using assms y unfolding m by (auto split: if_splits)
qed
lemma to_int32_bounds: "- (2 ^ 31) \<le> to_int32 x \<and> to_int32 x < 2 ^ 31"
  using signed_take_bit_int_greater_eq_minus_exp [of 31 x] signed_take_bit_int_less_exp [of 31 x]
  by (simp add: to_int32_def)

lemma to_uint32_id [simp]: "0 \<le> x \<Longrightarrow> x < 2 ^ 32 \<Longrightarrow> to_uint32 x = x"
  by (simp add: to_uint32_def take_bit_int_eq_self)

lemma to_uint32_bounds: "0 \<le> to_uint32 x \<and> to_uint32 x < 2 ^ 32"
  unfolding to_uint32_def by (metis take_bit_int_less_exp take_bit_nonnegative)

lemma to_int64_id [simp]: "- (2 ^ 63) \<le> x \<Longrightarrow> x < 2 ^ 63 \<Longrightarrow> to_int64 x = x"
  by (simp add: to_int64_def signed_take_bit_int_eq_self)

lemma to_uint64_id [simp]: "0 \<le> x \<Longrightarrow> x < 2 ^ 64 \<Longrightarrow> to_uint64 x = x"
  by (simp add: to_uint64_def take_bit_int_eq_self)

lemma c_div_nonneg: "0 \<le> a \<Longrightarrow> 0 < b \<Longrightarrow> c_div a b = a div b"
  by (cases "a = 0") (simp_all add: c_div_def)

lemma c_mod_nonneg: "0 \<le> a \<Longrightarrow> 0 < b \<Longrightarrow> c_mod a b = a mod b"
  by (simp add: c_mod_def c_div_nonneg minus_div_mult_eq_mod)

subsection \<open>Lists\<close>

lemma takeWhile_dropWhile_sorted:
  assumes "sorted_wrt R xs" and "\<And>x y. R x y \<Longrightarrow> P y \<Longrightarrow> P x" and "y \<in> set (dropWhile P xs)"
  shows "\<not> P y"
proof -
  have "\<forall>y \<in> set (dropWhile P xs). \<not> P y"
    using assms(1)
  proof (induction xs)
    case (Cons x xs)
    show ?case
    proof (cases "P x")
      case True
      from Cons.prems have "sorted_wrt R xs" by simp
      then have "\<forall>y \<in> set (dropWhile P xs). \<not> P y" by (rule Cons.IH)
      moreover from True have "dropWhile P (x # xs) = dropWhile P xs" by simp
      ultimately show ?thesis by (simp only:)
    next
      case False
      from Cons.prems have "\<forall>y \<in> set xs. R x y" by simp
      with False have "\<forall>y \<in> set xs. \<not> P y" using assms(2) by blast
      with False have "\<forall>y \<in> set (x # xs). \<not> P y" by (metis set_ConsD)
      moreover from False have "dropWhile P (x # xs) = x # xs" by simp
      ultimately show ?thesis by (simp only:)
    qed
  qed simp
  with assms(3) show ?thesis by blast
qed

subsection \<open>Sums over threads\<close>

lemma sum_fun_upd:
  fixes f :: "'a \<Rightarrow> int" and N :: nat
  assumes "t < N"
  shows "(\<Sum>u<N. f ((g(t := x)) u)) = (\<Sum>u<N. f (g u)) - f (g t) + f x"
proof -
  have "(\<Sum>u<N. f ((g(t := x)) u)) = f x + (\<Sum>u \<in> {..<N} - {t}. f (g u))"
    using assms by (subst sum.remove [of _ t]) auto
  moreover have "(\<Sum>u<N. f (g u)) = f (g t) + (\<Sum>u \<in> {..<N} - {t}. f (g u))"
    using assms by (subst sum.remove [of _ t]) auto
  ultimately show ?thesis by simp
qed

end
