(* ===== verification/CLib.thy ===== *)
theory CLib
  imports Prelude
begin

text \<open>
  The part of the C library that the programs call: comparison of strings,
  \<open>strtol\<close> with base 0, and the \<open>printf\<close> conversions of integers. A C string
  is the list of its characters before the terminating NUL.
\<close>

subsection \<open>Strings\<close>

definition cstr :: "string \<Rightarrow> bool" where
  "cstr s \<longleftrightarrow> CHR 0x00 \<notin> set s"

text \<open>
  \<open>strcmp\<close> compares as \<open>unsigned char\<close>; its callers look at the sign of the result only.
\<close>

fun strcmp :: "string \<Rightarrow> string \<Rightarrow> int" where
  "strcmp [] [] = 0"
| "strcmp [] (y # ys) = - int (of_char y)"
| "strcmp (x # xs) [] = int (of_char x)"
| "strcmp (x # xs) (y # ys) = (if x = y then strcmp xs ys else int (of_char x) - int (of_char y))"

definition strncmp :: "string \<Rightarrow> string \<Rightarrow> nat \<Rightarrow> int" where
  "strncmp s t n = strcmp (take n s) (take n t)"

subsection \<open>strtol with base 0\<close>

definition isspace :: "char \<Rightarrow> bool" where
  "isspace c \<longleftrightarrow> c \<in> {CHR '' '', CHR 0x09, CHR 0x0A, CHR 0x0B, CHR 0x0C, CHR 0x0D}"

definition digit_val :: "char \<Rightarrow> nat option" where
  "digit_val c =
     (let n = of_char c :: nat in
      if 48 \<le> n \<and> n \<le> 57 then Some (n - 48)
      else if 97 \<le> n \<and> n \<le> 122 then Some (n - 87)
      else if 65 \<le> n \<and> n \<le> 90 then Some (n - 55)
      else None)"

fun strtol_digits :: "nat \<Rightarrow> nat \<Rightarrow> string \<Rightarrow> nat" where
  "strtol_digits base acc [] = acc"
| "strtol_digits base acc (c # cs) =
     (case digit_val c of
        None \<Rightarrow> acc
      | Some d \<Rightarrow> if d < base then strtol_digits base (acc * base + d) cs else acc)"

definition strtol_magnitude :: "string \<Rightarrow> nat" where
  "strtol_magnitude s =
     (case s of
        c # cs \<Rightarrow>
          if c = CHR ''0''
          then (case cs of
                  x # xs \<Rightarrow> if x = CHR ''x'' \<or> x = CHR ''X'' then strtol_digits 16 0 xs
                            else strtol_digits 8 0 cs
                | [] \<Rightarrow> 0)
          else strtol_digits 10 0 s
      | [] \<Rightarrow> 0)"

definition strtol0 :: "string \<Rightarrow> int" where
  "strtol0 s =
     (let t = dropWhile isspace s in
      case t of
        [] \<Rightarrow> 0
      | c # cs \<Rightarrow>
          if c = CHR ''-'' then max (- (2 ^ 63)) (- int (strtol_magnitude cs))
          else if c = CHR ''+'' then min (2 ^ 63 - 1) (int (strtol_magnitude cs))
          else min (2 ^ 63 - 1) (int (strtol_magnitude t)))"

subsection \<open>Conversions of printf\<close>

definition digit_char :: "nat \<Rightarrow> char" where
  "digit_char n = char_of (48 + n)"

fun show_base :: "nat \<Rightarrow> nat \<Rightarrow> string" where
  "show_base b n =
     (if b < 2 \<or> n < b then [digit_char n] else show_base b (n div b) @ [digit_char (n mod b)])"

declare show_base.simps [simp del]

text \<open>\<open>%d\<close>, \<open>%0wd\<close> and \<open>%0wo\<close>.\<close>

definition fmt_d :: "int \<Rightarrow> string" where
  "fmt_d x = (if x < 0 then CHR ''-'' # show_base 10 (nat (- x)) else show_base 10 (nat x))"

definition fmt_0d :: "nat \<Rightarrow> int \<Rightarrow> string" where
  "fmt_0d w x =
     (if x < 0
      then (let s = show_base 10 (nat (- x)) in CHR ''-'' # replicate (w - 1 - length s) (CHR ''0'') @ s)
      else (let s = show_base 10 (nat x) in replicate (w - length s) (CHR ''0'') @ s))"

definition fmt_0o :: "nat \<Rightarrow> nat \<Rightarrow> string" where
  "fmt_0o w n = (let s = show_base 8 n in replicate (w - length s) (CHR ''0'') @ s)"

subsection \<open>Facts on strcmp\<close>

lemma cstr_Nil [simp]: "cstr []"
  by (simp add: cstr_def)

lemma cstr_Cons [simp]: "cstr (c # cs) \<longleftrightarrow> c \<noteq> CHR 0x00 \<and> cstr cs"
  by (auto simp: cstr_def)

lemma cstr_take: "cstr s \<Longrightarrow> cstr (take n s)"
  by (auto simp: cstr_def dest: in_set_takeD)

lemma of_char_0_iff [simp]: "(of_char c :: nat) = 0 \<longleftrightarrow> c = CHR 0x00"
proof
  assume "(of_char c :: nat) = 0"
  then have "(of_char c :: nat) = of_char (CHR 0x00)" by simp
  then show "c = CHR 0x00" by (simp only: of_char_eq_iff)
qed simp

lemma strcmp_eq_0_iff: "cstr s \<Longrightarrow> cstr t \<Longrightarrow> strcmp s t = 0 \<longleftrightarrow> s = t"
  by (induction s t rule: strcmp.induct) auto

lemma strcmp_self [simp]: "strcmp s s = 0"
  by (induction s) auto

lemma strcmp_less_iff: "cstr s \<Longrightarrow> cstr t \<Longrightarrow> strcmp s t < 0 \<longleftrightarrow> s < t"
  by (induction s t rule: strcmp.induct) (auto simp: less_char_def neq0_conv [symmetric] simp del: neq0_conv)

lemma strcmp_less_1_iff:
  assumes "cstr s" and "cstr t"
  shows "strcmp s t < 1 \<longleftrightarrow> s \<le> t"
proof -
  have "strcmp s t < 1 \<longleftrightarrow> strcmp s t < 0 \<or> strcmp s t = 0" by linarith
  with assms show ?thesis by (auto simp: strcmp_less_iff strcmp_eq_0_iff)
qed

lemmas strcmp_iffs = strcmp_eq_0_iff strcmp_less_iff strcmp_less_1_iff

subsection \<open>Printing and reading of numbers\<close>

lemma of_char_digit_char [simp]: "n < 10 \<Longrightarrow> (of_char (digit_char n) :: nat) = 48 + n"
  by (simp add: digit_char_def)

lemma digit_val_digit_char [simp]: "n < 10 \<Longrightarrow> digit_val (digit_char n) = Some n"
  by (simp add: digit_val_def Let_def)

lemma digit_char_eq_iff: "d < 10 \<Longrightarrow> digit_char d = c \<longleftrightarrow> of_char c = 48 + d"
  by (metis of_char_digit_char of_char_eq_iff)

lemma show_base_nonempty [simp]: "show_base b n \<noteq> []"
  by (subst show_base.simps) simp

lemma set_show_base:
  assumes "2 \<le> b" and "b \<le> 10" and "c \<in> set (show_base b n)"
  shows "\<exists>d < b. c = digit_char d"
  using assms
proof (induction b n rule: show_base.induct)
  case (1 b n)
  show ?case
  proof (cases "n < b")
    case True
    with 1 show ?thesis by (simp add: show_base.simps [of b n]) blast
  next
    case False
    with 1 show ?thesis
      by (auto simp: show_base.simps [of b n] intro: exI [of _ "n mod b"])
  qed
qed

lemma strtol_digits_append:
  assumes "\<forall>c \<in> set xs. \<exists>d < b. d < 10 \<and> c = digit_char d"
  shows "strtol_digits b acc (xs @ ys) = strtol_digits b (strtol_digits b acc xs) ys"
  using assms by (induction xs arbitrary: acc) auto

lemma strtol_digits_show_base:
  assumes "2 \<le> b" and "b \<le> 10"
  shows "strtol_digits b 0 (show_base b n) = n"
  using assms
proof (induction b n rule: show_base.induct)
  case (1 b n)
  show ?case
  proof (cases "n < b")
    case True
    with 1 show ?thesis by (simp add: show_base.simps [of b n])
  next
    case False
    with 1 have ih: "strtol_digits b 0 (show_base b (n div b)) = n div b" by simp
    have "n mod b < b" using 1(2) by simp
    with 1(3) have "n mod b < 10" and "n mod b < b" by linarith+
    moreover have "\<forall>c \<in> set (show_base b (n div b)). \<exists>d < b. d < 10 \<and> c = digit_char d"
      using set_show_base [OF 1(2,3)] 1(3) less_le_trans by blast
    ultimately show ?thesis
      using False 1(2) by (simp add: show_base.simps [of b n] strtol_digits_append ih)
  qed
qed

lemma hd_show_base:
  assumes "2 \<le> b" and "b \<le> 10" and "0 < n"
  shows "\<exists>d cs. 0 < d \<and> d < b \<and> show_base b n = digit_char d # cs"
  using assms
proof (induction b n rule: show_base.induct)
  case (1 b n)
  show ?case
  proof (cases "n < b")
    case True
    with 1 show ?thesis by (simp add: show_base.simps [of b n]) blast
  next
    case False
    with 1 have "0 < n div b" by (simp add: div_greater_zero_iff)
    with False 1 show ?thesis by (fastforce simp: show_base.simps [of b n])
  qed
qed

lemma length_show_base_less:
  "2 \<le> b \<Longrightarrow> n < b ^ k \<Longrightarrow> 0 < k \<Longrightarrow> length (show_base b n) \<le> k"
proof (induction k arbitrary: n)
  case (Suc k)
  show ?case
  proof (cases "n < b")
    case True
    then show ?thesis by (simp add: show_base.simps [of b n])
  next
    case False
    with Suc.prems have "0 < k" by (cases k) auto
    moreover from Suc.prems have "n div b < b ^ k"
      by (simp add: less_mult_imp_div_less mult.commute)
    ultimately have "length (show_base b (n div b)) \<le> k" using Suc by blast
    with False show ?thesis by (simp add: show_base.simps [of b n])
  qed
qed simp

text \<open>Reading back what \<open>%d\<close> printed.\<close>

lemma strtol_magnitude_show: "0 < n \<Longrightarrow> strtol_magnitude (show_base 10 n) = n"
proof -
  assume "0 < n"
  then obtain d cs where d: "0 < d" "d < 10" and s: "show_base 10 n = digit_char d # cs"
    using hd_show_base [of 10 n] by auto
  from d have "digit_char d \<noteq> CHR ''0''"
    by (simp add: digit_char_eq_iff)
  with s have "strtol_magnitude (show_base 10 n) = strtol_digits 10 0 (show_base 10 n)"
    by (simp add: strtol_magnitude_def)
  then show ?thesis by (simp add: strtol_digits_show_base)
qed

lemma strtol0_fmt_d:
  assumes "0 < n" and "n < 2 ^ 63"
  shows "strtol0 (fmt_d n) = n"
proof -
  obtain d cs where d: "0 < d" "d < 10" and s: "show_base 10 (nat n) = digit_char d # cs"
    using hd_show_base [of 10 "nat n"] assms(1) by auto
  from d have "\<not> isspace (digit_char d)" and "digit_char d \<noteq> CHR ''-''" and "digit_char d \<noteq> CHR ''+''"
    by (auto simp: isspace_def digit_char_eq_iff)
  with assms s have "strtol0 (fmt_d n) = min (2 ^ 63 - 1) (int (strtol_magnitude (show_base 10 (nat n))))"
    by (simp add: strtol0_def fmt_d_def Let_def)
  with assms show ?thesis by (simp add: strtol_magnitude_show)
qed

subsection \<open>Classes of characters (C locale)\<close>

definition isdigit :: "char \<Rightarrow> bool" where
  "isdigit c \<longleftrightarrow> CHR ''0'' \<le> c \<and> c \<le> CHR ''9''"

definition isalpha :: "char \<Rightarrow> bool" where
  "isalpha c \<longleftrightarrow> CHR ''A'' \<le> c \<and> c \<le> CHR ''Z'' \<or> CHR ''a'' \<le> c \<and> c \<le> CHR ''z''"

definition toupper :: "char \<Rightarrow> char" where
  "toupper c = (if CHR ''a'' \<le> c \<and> c \<le> CHR ''z'' then char_of (of_char c - 32 :: nat) else c)"

definition tolower :: "char \<Rightarrow> char" where
  "tolower c = (if CHR ''A'' \<le> c \<and> c \<le> CHR ''Z'' then char_of (of_char c + 32 :: nat) else c)"

end
