(* ===== verification/Getopt.thy ===== *)
theory Getopt
  imports CLib
begin

text \<open>
  The C library's \<open>getopt_long\<close> as the programs use it: a table of long options, a
  string of short options, arguments permuted so that operands are skipped. Every
  program calls it in a loop that never changes \<open>argv\<close>, so the calls together
  return a sequence of events, which \<open>getopt_long_all\<close> computes; each program's
  loop is then a fold over these events that may stop early with \<open>exit\<close>.
\<close>

datatype has_arg = no_argument | required_argument

text \<open>
  \<open>lo_flag\<close> numbers the variable behind a non-NULL \<open>flag\<close> pointer; the call
  then stores \<open>lo_val\<close> there and returns 0.
\<close>

record longopt =
  lo_name :: string
  lo_arg :: has_arg
  lo_flag :: "nat option"
  lo_val :: char

text \<open>
  One returned call: the returned character (NUL for an option with a flag, \<open>?\<close> for
  an error), \<open>optarg\<close> (NULL is \<open>None\<close>) and the index written to
  \<open>option_index\<close>, which every caller initialises to 0 before the call.
\<close>

record opt_event =
  oe_ret :: char
  oe_arg :: "string option"
  oe_idx :: nat

definition opt_error :: opt_event where
  "opt_error = \<lparr>oe_ret = CHR ''?'', oe_arg = None, oe_idx = 0\<rparr>"

definition long_event :: "longopt list \<Rightarrow> nat \<Rightarrow> string option \<Rightarrow> opt_event" where
  "long_event lo i a =
     \<lparr>oe_ret = (if lo_flag (lo ! i) = None then lo_val (lo ! i) else CHR 0x00), oe_arg = a, oe_idx = i\<rparr>"

definition short_event :: "char \<Rightarrow> string option \<Rightarrow> opt_event" where
  "short_event c a = \<lparr>oe_ret = c, oe_arg = a, oe_idx = 0\<rparr>"

text \<open>
  The long option a name stands for: an exact match first, otherwise the only option
  of which it is an abbreviation. Options that agree in everything but their name do
  not make an abbreviation ambiguous.
\<close>

definition is_prefix_of :: "string \<Rightarrow> string \<Rightarrow> bool" where
  "is_prefix_of p s \<longleftrightarrow> take (length p) s = p"

definition find_long :: "longopt list \<Rightarrow> string \<Rightarrow> nat option" where
  "find_long lo name =
     (case filter (\<lambda>i. lo_name (lo ! i) = name) [0..<length lo] of
        i # _ \<Rightarrow> Some i
      | [] \<Rightarrow>
        (case filter (\<lambda>i. is_prefix_of name (lo_name (lo ! i))) [0..<length lo] of
           [] \<Rightarrow> None
         | i # js \<Rightarrow>
             if list_all (\<lambda>j. lo_arg (lo ! j) = lo_arg (lo ! i) \<and> lo_flag (lo ! j) = lo_flag (lo ! i) \<and>
                               lo_val (lo ! j) = lo_val (lo ! i)) js
             then Some i else None))"

definition split_eq :: "string \<Rightarrow> string \<times> string option" where
  "split_eq s =
     (let name = takeWhile (\<lambda>c. c \<noteq> CHR ''='') s; rest = dropWhile (\<lambda>c. c \<noteq> CHR ''='') s in
      (name, case rest of [] \<Rightarrow> None | _ # v \<Rightarrow> Some v))"

definition is_long :: "string \<Rightarrow> bool" where
  "is_long a \<longleftrightarrow> take 2 a = ''--''"

definition is_short :: "string \<Rightarrow> bool" where
  "is_short a \<longleftrightarrow> take 1 a = ''-'' \<and> 1 < length a"

text \<open>One long option: its event and the arguments that are left.\<close>

definition getopt_one_long :: "longopt list \<Rightarrow> string \<Rightarrow> string list \<Rightarrow> opt_event \<times> string list" where
  "getopt_one_long lo body args =
     (case split_eq body of (name, val) \<Rightarrow>
      (case find_long lo name of
         None \<Rightarrow> (opt_error, args)
       | Some i \<Rightarrow>
          (case lo_arg (lo ! i) of
             no_argument \<Rightarrow>
               (case val of None \<Rightarrow> (long_event lo i None, args) | Some _ \<Rightarrow> (opt_error, args))
           | required_argument \<Rightarrow>
               (case val of
                  Some v \<Rightarrow> (long_event lo i (Some v), args)
                | None \<Rightarrow> (case args of [] \<Rightarrow> (opt_error, []) | a # as \<Rightarrow> (long_event lo i (Some a), as))))))"

text \<open>
  \<open>getopt_scan sh lo nextchar args\<close>: \<open>nextchar\<close> is the rest of a cluster of short
  options, \<open>sh\<close> lists the short options and whether they take an argument.
\<close>

lemma length_getopt_one_long: "length (snd (getopt_one_long lo b args)) \<le> length args"
  by (auto simp: getopt_one_long_def split: prod.splits option.splits has_arg.splits list.splits)

lemma getopt_one_long_size:
  "sum_list (map (Suc \<circ> length) (snd (getopt_one_long lo b args))) \<le> sum_list (map (Suc \<circ> length) args)"
  by (auto simp: getopt_one_long_def split: prod.splits option.splits has_arg.splits list.splits)

function getopt_scan :: "(char \<times> bool) list \<Rightarrow> longopt list \<Rightarrow> string \<Rightarrow> string list \<Rightarrow> opt_event list" where
  "getopt_scan sh lo [] [] = []"
| "getopt_scan sh lo (c # cs) args =
     (case map_of sh c of
        None \<Rightarrow> opt_error # getopt_scan sh lo cs args
      | Some False \<Rightarrow> short_event c None # getopt_scan sh lo cs args
      | Some True \<Rightarrow>
          (if cs \<noteq> [] then short_event c (Some cs) # getopt_scan sh lo [] args
           else case args of
                  [] \<Rightarrow> [opt_error]
                | a # as \<Rightarrow> short_event c (Some a) # getopt_scan sh lo [] as))"
| "getopt_scan sh lo [] (a # as) =
     (if a = ''--'' then []
      else if is_long a
      then fst (getopt_one_long lo (drop 2 a) as) #
           getopt_scan sh lo [] (snd (getopt_one_long lo (drop 2 a) as))
      else if is_short a then getopt_scan sh lo (tl a) as
      else getopt_scan sh lo [] as)"
  by pat_completeness auto
termination
proof (relation "measure (\<lambda>(sh, lo, nc, args). length nc + sum_list (map (Suc \<circ> length) args))")
  show "((sh, lo, [], snd (getopt_one_long lo (drop 2 a) as)), sh, lo, [], a # as)
      \<in> measure (\<lambda>(sh, lo, nc, args). length nc + sum_list (map (Suc \<circ> length) args))"
    for sh :: "(char \<times> bool) list" and lo a as
    using getopt_one_long_size [of lo "drop 2 a" as] by simp
qed (auto simp: is_short_def)

definition getopt_long_all :: "(char \<times> bool) list \<Rightarrow> longopt list \<Rightarrow> string list \<Rightarrow> opt_event list" where
  "getopt_long_all sh lo argv = getopt_scan sh lo [] (tl argv)"

text \<open>For the evaluation of a concrete command line.\<close>

lemmas getopt_eval =
  getopt_long_all_def is_long_def is_short_def getopt_one_long_def find_long_def split_eq_def is_prefix_of_def
  long_event_def short_event_def opt_error_def

subsection \<open>Rendered options are read back\<close>

text \<open>\<open>--name=value\<close> for an option that takes an argument, \<open>--name\<close> for one that does not.\<close>

definition render :: "longopt \<Rightarrow> string \<Rightarrow> string" where
  "render op v = ''--'' @ lo_name op @
     (case lo_arg op of required_argument \<Rightarrow> CHR ''='' # v | no_argument \<Rightarrow> [])"

definition good_table :: "longopt list \<Rightarrow> bool" where
  "good_table lo \<longleftrightarrow> distinct (map lo_name lo) \<and>
     list_all (\<lambda>op. lo_name op \<noteq> [] \<and> CHR ''='' \<notin> set (lo_name op)) lo"

lemma find_long_exact:
  assumes "distinct (map lo_name lo)" and "i < length lo"
  shows "find_long lo (lo_name (lo ! i)) = Some i"
proof -
  let ?f = "filter (\<lambda>j. lo_name (lo ! j) = lo_name (lo ! i)) [0..<length lo]"
  have only: "j = i" if "j \<in> set ?f" for j
    using that assms by (auto simp: distinct_conv_nth)
  have "i \<in> set ?f" using assms(2) by simp
  then obtain j js where js: "?f = j # js" by (cases ?f) (simp_all only: empty_iff list.set)
  then have "j = i" by (intro only) (simp only: list.set_intros)
  with js have "?f = i # js" by (simp only:)
  then show ?thesis by (simp add: find_long_def)
qed

lemma split_eq_plain: "CHR ''='' \<notin> set s \<Longrightarrow> split_eq s = (s, None)"
proof -
  assume "CHR ''='' \<notin> set s"
  then have all: "\<forall>c \<in> set s. c \<noteq> CHR ''=''" by blast
  then have "takeWhile (\<lambda>c. c \<noteq> CHR ''='') s = s" and "dropWhile (\<lambda>c. c \<noteq> CHR ''='') s = []"
    by (simp_all add: takeWhile_eq_all_conv dropWhile_eq_Nil_conv)
  then show ?thesis unfolding split_eq_def Let_def by (simp only: list.case)
qed

lemma split_eq_val: "CHR ''='' \<notin> set s \<Longrightarrow> split_eq (s @ CHR ''='' # v) = (s, Some v)"
proof -
  assume "CHR ''='' \<notin> set s"
  then have all: "\<And>c. c \<in> set s \<Longrightarrow> c \<noteq> CHR ''=''" by blast
  then have "takeWhile (\<lambda>c. c \<noteq> CHR ''='') (s @ CHR ''='' # v) = s"
    and "dropWhile (\<lambda>c. c \<noteq> CHR ''='') (s @ CHR ''='' # v) = CHR ''='' # v"
    by (simp_all add: takeWhile_append2 dropWhile_append2)
  then show ?thesis by (simp add: split_eq_def Let_def)
qed

lemma getopt_one_long_render:
  assumes "good_table lo" and "i < length lo"
  shows "getopt_one_long lo (drop 2 (render (lo ! i) v)) args =
    (long_event lo i (case lo_arg (lo ! i) of required_argument \<Rightarrow> Some v | no_argument \<Rightarrow> None), args)"
proof -
  have "lo ! i \<in> set lo" using assms(2) by simp
  with assms(1) have n: "CHR ''='' \<notin> set (lo_name (lo ! i))" by (simp add: good_table_def list_all_iff)
  have f: "find_long lo (lo_name (lo ! i)) = Some i"
    using assms by (simp add: find_long_exact good_table_def)
  show ?thesis
    using n f by (cases "lo_arg (lo ! i)")
      (simp_all add: getopt_one_long_def render_def split_eq_plain split_eq_val)
qed

lemma getopt_scan_render:
  assumes "good_table lo" and "\<forall>(i, v) \<in> set opts. i < length lo"
  shows "getopt_scan sh lo [] (map (\<lambda>(i, v). render (lo ! i) v) opts) =
    map (\<lambda>(i, v). long_event lo i (case lo_arg (lo ! i) of required_argument \<Rightarrow> Some v | no_argument \<Rightarrow> None)) opts"
  using assms(2)
proof (induction opts)
  case (Cons op os)
  obtain i v where op: "op = (i, v)" by force
  with Cons.prems have i: "i < length lo" by auto
  then have "lo_name (lo ! i) \<noteq> []" using assms(1) by (simp add: good_table_def list_all_length)
  then have "is_long (render (lo ! i) v)" and "render (lo ! i) v \<noteq> ''--''"
    by (simp_all add: is_long_def render_def split: has_arg.splits)
  with Cons i show ?case by (simp add: op getopt_one_long_render [OF assms(1)])
qed simp

end
