(* ===== verification/Lab0.thy ===== *)
theory Lab0
  imports Getopt
begin

text \<open>
  \<open>CS111/project0/lab0.c\<close>: copies standard input to standard output after redirecting
  them with \<open>--input\<close> and \<open>--output\<close>, or provokes and catches a segmentation fault. The
  model has the files, the two redirected streams and the results of the system calls.
\<close>

subsection \<open>Files and streams\<close>

text \<open>The streams: inherited, or a file with the position of its descriptor.\<close>

datatype l0_src = Inherited string | FromFile string nat
datatype l0_dst = Terminal | ToFile string nat

record l0_sys =
  files :: "string \<Rightarrow> string option"
  l0_in :: l0_src
  l0_out :: l0_dst
  l0_tty :: string
  segfault_flag :: bool
  catch_flag :: bool

text \<open>
  The environment: which files may be opened for reading and created, whether \<open>dup2\<close>
  works, and for the \<open>k\<close>-th \<open>read\<close> and \<open>write\<close> how many bytes they move at most
  (\<open>None\<close> is the result -1; a \<open>read\<close> moves at least one byte when there is one).
\<close>

record l0_env =
  may_read :: "string \<Rightarrow> bool"
  may_creat :: "string \<Rightarrow> bool"
  dup_ok :: bool
  rd :: "nat \<Rightarrow> nat option"
  wr :: "nat \<Rightarrow> nat option"

definition L0_BUF_SIZE :: nat where "L0_BUF_SIZE = 256"

definition avail :: "l0_sys \<Rightarrow> string" where
  "avail s = (case l0_in s of
       Inherited r \<Rightarrow> r
     | FromFile p pos \<Rightarrow> (case files s p of None \<Rightarrow> [] | Some c \<Rightarrow> drop pos c))"

definition advance :: "nat \<Rightarrow> l0_sys \<Rightarrow> l0_sys" where
  "advance n s = (case l0_in s of
       Inherited r \<Rightarrow> s\<lparr>l0_in := Inherited (drop n r)\<rparr>
     | FromFile p pos \<Rightarrow> s\<lparr>l0_in := FromFile p (pos + n)\<rparr>)"

definition overwrite :: "string \<Rightarrow> nat \<Rightarrow> string \<Rightarrow> string" where
  "overwrite c pos bs = take pos c @ bs @ drop (pos + length bs) c"

definition emit :: "string \<Rightarrow> l0_sys \<Rightarrow> l0_sys" where
  "emit bs s = (case l0_out s of
       Terminal \<Rightarrow> s\<lparr>l0_tty := l0_tty s @ bs\<rparr>
     | ToFile p pos \<Rightarrow>
         s\<lparr>files := (files s)(p \<mapsto> overwrite (case files s p of None \<Rightarrow> [] | Some c \<Rightarrow> c) pos bs),
           l0_out := ToFile p (pos + length bs)\<rparr>)"

subsection \<open>The program\<close>

text \<open>\<open>segfault\<close> stores through a NULL pointer; \<open>segfault_handler\<close> exits with 4.\<close>

definition l0_segfault_handler :: "'a outcome" where
  "l0_segfault_handler = Exit 4"

definition l0_segfault :: "l0_sys \<Rightarrow> unit outcome" where
  "l0_segfault s = (if catch_flag s then l0_segfault_handler else SegFault)"

definition l0_long_options :: "longopt list" where
  "l0_long_options =
     [\<lparr>lo_name = ''input'', lo_arg = required_argument, lo_flag = None, lo_val = CHR ''i''\<rparr>,
      \<lparr>lo_name = ''output'', lo_arg = required_argument, lo_flag = None, lo_val = CHR ''o''\<rparr>,
      \<lparr>lo_name = ''segfault'', lo_arg = no_argument, lo_flag = None, lo_val = CHR ''s''\<rparr>,
      \<lparr>lo_name = ''catch'', lo_arg = no_argument, lo_flag = None, lo_val = CHR ''c''\<rparr>]"

definition l0_short_options :: "(char \<times> bool) list" where
  "l0_short_options = [(CHR ''i'', True), (CHR ''o'', True), (CHR ''s'', False), (CHR ''c'', False)]"

definition l0_open :: "l0_env \<Rightarrow> string \<Rightarrow> l0_sys \<Rightarrow> l0_sys \<times> unit outcome" where
  "l0_open env p s =
     (if files s p = None \<or> \<not> may_read env p then (s, Exit 2)
      else if \<not> dup_ok env then (s, Exit 1)
      else (s\<lparr>l0_in := FromFile p 0\<rparr>, Ret ()))"

definition l0_creat :: "l0_env \<Rightarrow> string \<Rightarrow> l0_sys \<Rightarrow> l0_sys \<times> unit outcome" where
  "l0_creat env p s =
     (if \<not> may_creat env p then (s, Exit 3)
      else (let s' = s\<lparr>files := (files s)(p \<mapsto> [])\<rparr> in
            if \<not> dup_ok env then (s', Exit 1) else (s'\<lparr>l0_out := ToFile p 0\<rparr>, Ret ())))"

definition l0_opt :: "l0_env \<Rightarrow> opt_event \<Rightarrow> l0_sys \<Rightarrow> l0_sys \<times> unit outcome" where
  "l0_opt env e s =
     (if oe_ret e = CHR ''i'' then (case oe_arg e of None \<Rightarrow> (s, Exit 2) | Some p \<Rightarrow> l0_open env p s)
      else if oe_ret e = CHR ''o'' then (case oe_arg e of None \<Rightarrow> (s, Exit 3) | Some p \<Rightarrow> l0_creat env p s)
      else if oe_ret e = CHR ''s'' then (s\<lparr>segfault_flag := True\<rparr>, Ret ())
      else if oe_ret e = CHR ''c'' then (s\<lparr>catch_flag := True\<rparr>, Ret ())
      else (s, Exit 1))"

fun l0_opts :: "l0_env \<Rightarrow> opt_event list \<Rightarrow> l0_sys \<Rightarrow> l0_sys \<times> unit outcome" where
  "l0_opts env [] s = (s, Ret ())"
| "l0_opts env (e # es) s =
     (case l0_opt env e s of (s', Ret _) \<Rightarrow> l0_opts env es s' | (s', r) \<Rightarrow> (s', r))"

text \<open>
  The copy loop. A \<open>read\<close> that returns -1 makes the loop condition false, so the test
  for -1 inside it is never true.
\<close>

partial_function (option) copy_loop :: "l0_env \<Rightarrow> nat \<Rightarrow> l0_sys \<Rightarrow> (l0_sys \<times> unit outcome) option" where
  "copy_loop env k s =
     (case rd env k of
        None \<Rightarrow> Some (s, Ret ())
      | Some m \<Rightarrow>
          (let read_buf = take (min L0_BUF_SIZE (Suc m)) (avail s); read_len = length read_buf;
               s1 = advance read_len s in
           if read_len = 0 then Some (s, Ret ())
           else case wr env k of
             None \<Rightarrow> Some (s1, Exit 1)
           | Some w \<Rightarrow> copy_loop env (Suc k) (emit (take w read_buf) s1)))"

definition l0_main :: "l0_env \<Rightarrow> string list \<Rightarrow> l0_sys \<Rightarrow> (l0_sys \<times> unit outcome) option" where
  "l0_main env argv s =
     (case l0_opts env (getopt_long_all l0_short_options l0_long_options argv) s of
        (s1, Ret _) \<Rightarrow>
          if segfault_flag s1 then Some (s1, l0_segfault s1)
          else (case copy_loop env 0 s1 of
                  Some (s2, Ret _) \<Rightarrow> Some (s2, Exit 0)
                | r \<Rightarrow> r)
      | (s1, r) \<Rightarrow> Some (s1, r))"

subsection \<open>Copying\<close>

definition out_path :: "l0_sys \<Rightarrow> string option" where
  "out_path s = (case l0_out s of Terminal \<Rightarrow> None | ToFile p _ \<Rightarrow> Some p)"

definition in_path :: "l0_sys \<Rightarrow> string option" where
  "in_path s = (case l0_in s of Inherited _ \<Rightarrow> None | FromFile p _ \<Rightarrow> Some p)"

text \<open>Input and output are different files (or not files).\<close>

definition apart :: "l0_sys \<Rightarrow> bool" where
  "apart s \<longleftrightarrow> in_path s = None \<or> in_path s \<noteq> out_path s"

lemma avail_advance [simp]: "avail (advance n s) = drop n (avail s)"
  by (auto simp: avail_def advance_def add.commute split: l0_src.splits option.splits)

lemma advance_frame [simp]: "files (advance n s) = files s" "l0_out (advance n s) = l0_out s" "l0_tty (advance n s) = l0_tty s"
  "in_path (advance n s) = in_path s" "out_path (advance n s) = out_path s"
  by (auto simp: advance_def in_path_def out_path_def split: l0_src.splits)

lemma emit_frame [simp]: "l0_in (emit bs s) = l0_in s" "in_path (emit bs s) = in_path s" "out_path (emit bs s) = out_path s"
  by (auto simp: emit_def in_path_def out_path_def split: l0_dst.splits)

lemma avail_emit [simp]: "apart s \<Longrightarrow> avail (emit bs s) = avail s"
  by (auto simp: apart_def avail_def emit_def in_path_def out_path_def split: l0_src.splits l0_dst.splits)

lemma apart_frame [simp]: "apart (advance n s) = apart s" "apart (emit bs s) = apart s"
  by (simp_all add: apart_def)

text \<open>The loop ends: every round takes at least one byte from the input.\<close>

lemma copy_loop_ends:
  assumes "apart s"
  shows "\<exists>r. copy_loop env k s = Some r"
  using assms
proof (induction "length (avail s)" arbitrary: k s rule: less_induct)
  case less
  show ?case
  proof (cases "rd env k")
    case None
    then show ?thesis by (subst copy_loop.simps) simp
  next
    case (Some m)
    let ?n = "length (take (min L0_BUF_SIZE (Suc m)) (avail s))"
    show ?thesis
    proof (cases "?n = 0 \<or> wr env k = None")
      case True
      then show ?thesis using Some by (subst copy_loop.simps) (auto simp: Let_def simp del: length_take)
    next
      case False
      then obtain w where w: "wr env k = Some w" by auto
      let ?s = "emit (take w (take (min L0_BUF_SIZE (Suc m)) (avail s))) (advance ?n s)"
      have "length (avail ?s) < length (avail s)" using False less.prems by auto
      then have "\<exists>r. copy_loop env (Suc k) ?s = Some r" using less by (intro less.hyps) auto
      then show ?thesis using Some w False by (subst copy_loop.simps) (simp add: Let_def)
    qed
  qed
qed


definition out_content :: "l0_sys \<Rightarrow> string" where
  "out_content s = (case l0_out s of
       Terminal \<Rightarrow> l0_tty s | ToFile p _ \<Rightarrow> (case files s p of None \<Rightarrow> [] | Some c \<Rightarrow> c))"

definition at_end :: "l0_sys \<Rightarrow> bool" where
  "at_end s \<longleftrightarrow> (case l0_out s of Terminal \<Rightarrow> True | ToFile p pos \<Rightarrow> (\<exists>c. files s p = Some c \<and> length c = pos))"

lemma out_content_advance [simp]: "out_content (advance n s) = out_content s" "at_end (advance n s) = at_end s"
  by (simp_all add: out_content_def at_end_def split: l0_dst.splits)

lemma out_content_emit:
  assumes "at_end s"
  shows "out_content (emit bs s) = out_content s @ bs" and "at_end (emit bs s)"
  using assms by (auto simp: at_end_def out_content_def emit_def overwrite_def split: l0_dst.splits)

text \<open>No \<open>read\<close> fails and every \<open>write\<close> takes the whole buffer.\<close>

definition no_io_errors :: "l0_env \<Rightarrow> bool" where
  "no_io_errors env \<longleftrightarrow> (\<forall>k. rd env k \<noteq> None \<and> (\<exists>w \<ge> L0_BUF_SIZE. wr env k = Some w))"

lemma copy_loop_copies:
  assumes "apart s" and "at_end s" and ok: "no_io_errors env"
  shows "\<exists>s'. copy_loop env k s = Some (s', Ret ()) \<and> avail s' = [] \<and> out_content s' = out_content s @ avail s \<and>
    out_path s' = out_path s \<and> at_end s' \<and> l0_tty s' = (if out_path s = None then l0_tty s @ avail s else l0_tty s)"
  using assms(1,2)
proof (induction "length (avail s)" arbitrary: k s rule: less_induct)
  case less
  obtain m w where io: "rd env k = Some m" "wr env k = Some w" "L0_BUF_SIZE \<le> w"
    using ok unfolding no_io_errors_def by (metis option.exhaust)
  define buf where "buf = take (min L0_BUF_SIZE (Suc m)) (avail s)"
  show ?case
  proof (cases "avail s = []")
    case True
    then show ?thesis using io less.prems(2) by (subst copy_loop.simps) (auto simp: Let_def)
  next
    case False
    let ?s = "emit buf (advance (length buf) s)"
    have ne: "buf \<noteq> []" and w: "take w buf = buf" using False io(3) by (auto simp: buf_def L0_BUF_SIZE_def)
    have rest: "buf @ drop (length buf) (avail s) = avail s" unfolding buf_def
      by (metis append_take_drop_id length_take min.commute min_def take_all_iff linear)
    have "length (avail ?s) < length (avail s)" using ne rest less.prems(1) by (simp add: False)
    then obtain s' where "copy_loop env (Suc k) ?s = Some (s', Ret ())" "avail s' = []"
      "out_content s' = out_content ?s @ avail ?s" "out_path s' = out_path ?s" "at_end s'"
      "l0_tty s' = (if out_path ?s = None then l0_tty ?s @ avail ?s else l0_tty ?s)"
      using less.hyps [of ?s "Suc k"] less.prems by (auto simp: out_content_emit)
    moreover have "copy_loop env k s = copy_loop env (Suc k) ?s"
      using io ne w by (subst copy_loop.simps) (simp add: Let_def buf_def [symmetric])
    moreover have "l0_tty ?s = (if out_path s = None then l0_tty s @ buf else l0_tty s)"
      by (auto simp: emit_def out_path_def split: l0_dst.splits)
    ultimately show ?thesis using rest less.prems by (auto simp: out_content_emit) 
  qed
qed

text \<open>The redirections: \<open>creat\<close> empties the output file, also when it is the input file.\<close>

lemma l0_redirect:
  assumes "files s p \<noteq> None" and "may_read env p" and "may_creat env q" and "dup_ok env"
  shows "l0_opts env [\<lparr>oe_ret = CHR ''i'', oe_arg = Some p, oe_idx = 0\<rparr>, \<lparr>oe_ret = CHR ''o'', oe_arg = Some q, oe_idx = 1\<rparr>] s =
    (s\<lparr>files := (files s)(q \<mapsto> []), l0_in := FromFile p 0, l0_out := ToFile q 0\<rparr>, Ret ())"
  using assms by (simp add: l0_opt_def l0_open_def l0_creat_def Let_def)

lemma copy_loop_nothing: "avail s = [] \<Longrightarrow> copy_loop env k s = Some (s, Ret ())"
  by (subst copy_loop.simps) (auto simp: Let_def split: option.splits)

text \<open>Only the output file changes.\<close>

lemma emit_files: "Some p \<noteq> out_path s \<Longrightarrow> files (emit bs s) p = files s p"
  by (auto simp: emit_def out_path_def split: l0_dst.splits)

lemma copy_loop_frame:
  assumes "copy_loop env k s = Some (s', r)" and "Some p \<noteq> out_path s"
  shows "files s' p = files s p"
proof -
  have "\<forall>p. Some p \<noteq> out_path s \<longrightarrow> files (fst x) p = files s p" if "copy_loop env k s = Some x" for env k s x
  proof (rule copy_loop.raw_induct [OF _ that], goal_cases)
    case (1 f env k s x)
    show ?case
    proof (cases "rd env k = None \<or> avail s = [] \<or> wr env k = None")
      case True
      then show ?thesis using 1(2) by (auto simp: Let_def split: option.splits if_splits)
    next
      case False
      then obtain m w where mw: "rd env k = Some m" "wr env k = Some w" and "avail s \<noteq> []" by auto
      let ?buf = "take (min L0_BUF_SIZE (Suc m)) (avail s)"
      have "f env (Suc k) (emit (take w ?buf) (advance (length ?buf) s)) = Some x"
        using 1(2) mw \<open>avail s \<noteq> []\<close> by (simp add: Let_def L0_BUF_SIZE_def)
      from 1(1) [OF this] show ?thesis by (simp add: emit_files)
    qed
  qed
  from this [OF assms(1)] assms(2) show ?thesis by simp
qed

subsection \<open>Running the program on files\<close>

lemma l0_options:
  "getopt_long_all l0_short_options l0_long_options [prog, ''--input='' @ p, ''--output='' @ q] =
     [\<lparr>oe_ret = CHR ''i'', oe_arg = Some p, oe_idx = 0\<rparr>, \<lparr>oe_ret = CHR ''o'', oe_arg = Some q, oe_idx = 1\<rparr>]"
proof -
  have "getopt_scan l0_short_options l0_long_options [] (map (\<lambda>(i, v). render (l0_long_options ! i) v) [(0, p), (1, q)]) =
    map (\<lambda>(i, v). long_event l0_long_options i (case lo_arg (l0_long_options ! i) of required_argument \<Rightarrow> Some v | no_argument \<Rightarrow> None))
      [(0, p), (1, q)]"
    by (rule getopt_scan_render) (auto simp: good_table_def l0_long_options_def)
  then show ?thesis by (simp add: getopt_long_all_def render_def long_event_def l0_long_options_def)
qed

lemma l0_main_files:
  assumes "files s p \<noteq> None" and "may_read env p" and "may_creat env q" and "dup_ok env" and "\<not> segfault_flag s"
  shows "l0_main env [prog, ''--input='' @ p, ''--output='' @ q] s =
    (case copy_loop env 0 (s\<lparr>files := (files s)(q \<mapsto> []), l0_in := FromFile p 0, l0_out := ToFile q 0\<rparr>) of
       Some (s2, Ret _) \<Rightarrow> Some (s2, Exit 0) | r \<Rightarrow> r)"
  using assms(5) unfolding l0_main_def l0_options l0_redirect [OF assms(1-4)] by simp

end
