(* ===== verification/Fds.thy ===== *)
theory Fds
  imports Prelude
begin

text \<open>
  File descriptors and pipes, as the programs that start a shell use them
  (\<open>lab1a.c\<close>, \<open>lab1b-server.c\<close>): \<open>pipe\<close>, \<open>close\<close> and \<open>dup2\<close> on the descriptor table of a
  process. The locale \<open>shell_starter\<close> states what starting a shell promises; its lemmas
  say when the shell and the terminal process see the end of their input.
\<close>

subsection \<open>Descriptor tables\<close>

datatype chan = Tty | Sock | PipeRead nat | PipeWrite nat

type_synonym fdtab = "int \<Rightarrow> chan option"

definition OPEN_MAX :: nat where "OPEN_MAX = 1024"

text \<open>The lowest unused descriptor from \<open>n\<close> on, among \<open>fuel\<close> many.\<close>

fun find_free :: "fdtab \<Rightarrow> int \<Rightarrow> nat \<Rightarrow> int option" where
  "find_free t n 0 = None"
| "find_free t n (Suc fuel) = (if t n = None then Some n else find_free t (n + 1) fuel)"

definition free_fd :: "fdtab \<Rightarrow> int option" where
  "free_fd t = find_free t 0 OPEN_MAX"

text \<open>\<open>pipe\<close> creates pipe number \<open>k\<close>; it fails when the table is full.\<close>

definition pipe_fd :: "nat \<Rightarrow> fdtab \<Rightarrow> (int \<times> int \<times> fdtab) option" where
  "pipe_fd k t =
     (case free_fd t of
        None \<Rightarrow> None
      | Some r \<Rightarrow>
          (let t1 = t(r \<mapsto> PipeRead k) in
           case free_fd t1 of
             None \<Rightarrow> None
           | Some w \<Rightarrow> Some (r, w, t1(w \<mapsto> PipeWrite k))))"

definition close_fd :: "int \<Rightarrow> fdtab \<Rightarrow> fdtab option" where
  "close_fd n t = (if t n = None then None else Some (t(n := None)))"

definition dup2_fd :: "int \<Rightarrow> int \<Rightarrow> fdtab \<Rightarrow> fdtab option" where
  "dup2_fd old new t = (case t old of None \<Rightarrow> None | Some c \<Rightarrow> Some (t(new \<mapsto> c)))"

lemma find_free_Some: "find_free t n fuel = Some r \<Longrightarrow> t r = None \<and> n \<le> r"
  by (induction t n fuel rule: find_free.induct) (auto split: if_splits)

lemma free_fd_Some: "free_fd t = Some r \<Longrightarrow> t r = None \<and> 0 \<le> r"
  unfolding free_fd_def by (rule find_free_Some)

lemma pipe_fd_Some:
  assumes "pipe_fd k t = Some (r, w, t')"
  shows "t r = None" and "t w = None" and "r \<noteq> w" and "0 \<le> r" and "0 \<le> w"
    and "t' = t(r \<mapsto> PipeRead k, w \<mapsto> PipeWrite k)"
  using assms by (auto simp: pipe_fd_def Let_def split: option.splits if_splits dest!: free_fd_Some)

subsection \<open>A started shell\<close>

text \<open>
  The tables of the two processes after \<open>fork\<close> and the descriptors the parent keeps:
  \<open>sh_write\<close> leads to the shell's input, \<open>sh_read\<close> from its output.
\<close>

record shell_fds =
  sh_parent :: fdtab
  sh_child :: fdtab
  sh_write :: int
  sh_read :: int
  sh_in :: nat
  sh_out :: nat

definition holds :: "chan \<Rightarrow> fdtab \<Rightarrow> bool" where
  "holds c t \<longleftrightarrow> (\<exists>n. t n = Some c)"

text \<open>The standard streams are open and the pipes of the shell are new.\<close>

definition std_open :: "fdtab \<Rightarrow> bool" where
  "std_open t \<longleftrightarrow> t 0 \<noteq> None \<and> t 1 \<noteq> None \<and> t 2 \<noteq> None"

definition no_pipe :: "nat \<Rightarrow> fdtab \<Rightarrow> bool" where
  "no_pipe k t \<longleftrightarrow> \<not> holds (PipeRead k) t \<and> \<not> holds (PipeWrite k) t"

definition wired :: "shell_fds \<Rightarrow> bool" where
  "wired s \<longleftrightarrow>
     sh_child s 0 = Some (PipeRead (sh_in s)) \<and> sh_child s 1 = Some (PipeWrite (sh_out s)) \<and>
     sh_child s 2 = Some (PipeWrite (sh_out s)) \<and>
     sh_parent s (sh_write s) = Some (PipeWrite (sh_in s)) \<and> sh_parent s (sh_read s) = Some (PipeRead (sh_out s)) \<and>
     \<not> holds (PipeWrite (sh_in s)) (sh_child s) \<and> \<not> holds (PipeRead (sh_out s)) (sh_child s) \<and>
     \<not> holds (PipeRead (sh_in s)) (sh_parent s) \<and> \<not> holds (PipeWrite (sh_out s)) (sh_parent s) \<and>
     (\<forall>n. sh_parent s n = Some (PipeWrite (sh_in s)) \<longrightarrow> n = sh_write s)"

text \<open>A reader of pipe \<open>k\<close> meets the end of file when no process can write to it.\<close>

definition at_eof :: "nat \<Rightarrow> fdtab list \<Rightarrow> bool" where
  "at_eof k procs \<longleftrightarrow> (\<forall>t \<in> set procs. \<not> holds (PipeWrite k) t)"

locale shell_starter =
  fixes start :: "fdtab \<Rightarrow> shell_fds outcome"
  assumes start_wired: "std_open t \<Longrightarrow> no_pipe 0 t \<Longrightarrow> no_pipe 1 t \<Longrightarrow> start t = Ret s \<Longrightarrow> wired s"
begin

lemma shell_sees_eof:
  assumes "std_open t" and "no_pipe 0 t" and "no_pipe 1 t" and "start t = Ret s" and "close_fd (sh_write s) (sh_parent s) = Some t'"
  shows "at_eof (sh_in s) [t', sh_child s]"
proof -
  have w: "wired s" using assms(1-4) by (rule start_wired)
  have "t' = (sh_parent s)(sh_write s := None)" using assms(5) by (simp add: close_fd_def split: if_splits)
  moreover have "\<And>n. sh_parent s n = Some (PipeWrite (sh_in s)) \<Longrightarrow> n = sh_write s"
    using w by (simp add: wired_def)
  ultimately have "\<not> holds (PipeWrite (sh_in s)) t'" unfolding holds_def by (metis fun_upd_apply option.distinct(1))
  moreover have "\<not> holds (PipeWrite (sh_in s)) (sh_child s)" using w by (simp add: wired_def)
  ultimately show ?thesis by (simp add: at_eof_def)
qed

lemma shell_not_eof_before:
  assumes "std_open t" and "no_pipe 0 t" and "no_pipe 1 t" and "start t = Ret s"
  shows "\<not> at_eof (sh_in s) [sh_parent s, sh_child s]"
proof -
  have "holds (PipeWrite (sh_in s)) (sh_parent s)"
    using start_wired [OF assms] unfolding wired_def holds_def by blast
  then show ?thesis by (simp add: at_eof_def)
qed

text \<open>When the shell has ended, the terminal process reads the end of file.\<close>

lemma parent_sees_eof:
  assumes "std_open t" and "no_pipe 0 t" and "no_pipe 1 t" and "start t = Ret s"
  shows "at_eof (sh_out s) [sh_parent s]"
  using start_wired [OF assms] by (simp add: wired_def at_eof_def)

end


subsection \<open>Wiring a shell\<close>

text \<open>
  The calls that both programs make after creating the pipes \<open>(cr, pw)\<close> and \<open>(pr, cw)\<close>:
  the child closes the parent's ends and redirects its standard streams, the parent
  closes the child's ends.
\<close>

definition child_table :: "int \<Rightarrow> int \<Rightarrow> int \<Rightarrow> int \<Rightarrow> fdtab \<Rightarrow> fdtab" where
  "child_table cr pw pr cw t = (t(pw := None, pr := None))(0 := t cr, 1 := t cw, 2 := t cw)"

definition parent_table :: "int \<Rightarrow> int \<Rightarrow> fdtab \<Rightarrow> fdtab" where
  "parent_table cr cw t = t(cr := None, cw := None)"

lemma wired_tables:
  assumes std: "std_open t" and np: "no_pipe 0 t" "no_pipe 1 t"
    and p0: "pipe_fd 0 t = Some (cr, pw, t1)" and p1: "pipe_fd 1 t1 = Some (pr, cw, t2)"
  shows "wired \<lparr>sh_parent = parent_table cr cw t2, sh_child = child_table cr pw pr cw t2, sh_write = pw, sh_read = pr,
    sh_in = 0, sh_out = 1\<rparr>"
    and "t2 pw \<noteq> None" "pr \<noteq> pw" "t2 pr \<noteq> None" "t2 cr = Some (PipeRead 0)" "t2 cw = Some (PipeWrite 1)"
    and "cr \<noteq> pw" "cr \<noteq> pr" "cw \<noteq> pw" "cw \<noteq> pr" "cr \<noteq> cw" and "{cr, pw, pr, cw} \<inter> {0, 1, 2} = {}"
proof -
  note P0 = pipe_fd_Some [OF p0] and P1 = pipe_fd_Some [OF p1]
  have t2: "t2 = t(cr \<mapsto> PipeRead 0, pw \<mapsto> PipeWrite 0, pr \<mapsto> PipeRead 1, cw \<mapsto> PipeWrite 1)"
    using P0(6) P1(6) by simp
  have d: "cr \<noteq> pw" "cr \<noteq> pr" "cw \<noteq> pw" "cw \<noteq> pr" "cr \<noteq> cw" "pr \<noteq> pw"
    using P0(3) P1(3) P1(1,2) unfolding P0(6) by (metis fun_upd_apply option.distinct(1))+
  have n: "{cr, pw, pr, cw} \<inter> {0, 1, 2} = {}"
  proof -
    have "t cr = None" "t pw = None" "t pr = None" "t cw = None"
      using P0(1,2) P1(1,2) d unfolding P0(6) by (simp_all split: if_splits)
    then show ?thesis using std by (auto simp: std_open_def)
  qed
  have old: "t a \<noteq> Some (PipeRead 0)" "t a \<noteq> Some (PipeWrite 0)" "t a \<noteq> Some (PipeRead 1)" "t a \<noteq> Some (PipeWrite 1)" for a
    using np by (auto simp: no_pipe_def holds_def)
  have c0: "child_table cr pw pr cw t2 a \<noteq> Some (PipeWrite 0)" "child_table cr pw pr cw t2 a \<noteq> Some (PipeRead 1)" for a
    using d n old by (auto simp: child_table_def t2)
  have q0: "parent_table cr cw t2 a \<noteq> Some (PipeRead 0)" "parent_table cr cw t2 a \<noteq> Some (PipeWrite 1)"
    "parent_table cr cw t2 a = Some (PipeWrite 0) \<Longrightarrow> a = pw" for a
    using d old by (auto simp: parent_table_def t2 split: if_splits)
  show "wired \<lparr>sh_parent = parent_table cr cw t2, sh_child = child_table cr pw pr cw t2, sh_write = pw, sh_read = pr,
    sh_in = 0, sh_out = 1\<rparr>"
  proof -
    have "parent_table cr cw t2 pw = Some (PipeWrite 0)" "parent_table cr cw t2 pr = Some (PipeRead 1)"
      using d by (auto simp: parent_table_def t2)
    moreover have "child_table cr pw pr cw t2 0 = Some (PipeRead 0)" "child_table cr pw pr cw t2 1 = Some (PipeWrite 1)"
      "child_table cr pw pr cw t2 2 = Some (PipeWrite 1)"
      using d by (auto simp: child_table_def t2)
    ultimately show ?thesis using c0 q0 unfolding wired_def holds_def shell_fds.simps by blast
  qed
  show "t2 pw \<noteq> None" "pr \<noteq> pw" "t2 pr \<noteq> None" "t2 cr = Some (PipeRead 0)" "t2 cw = Some (PipeWrite 1)"
    "cr \<noteq> pw" "cr \<noteq> pr" "cw \<noteq> pw" "cw \<noteq> pr" "cr \<noteq> cw" "{cr, pw, pr, cw} \<inter> {0, 1, 2} = {}"
    using d n by (auto simp: t2)
qed

end
