(* ===== verification/Lab1a.thy ===== *)
theory Lab1a
  imports Getopt Fds
begin

text \<open>
  \<open>CS111/project1/project1a/lab1a.c\<close>: a terminal in character mode that echoes its input
  and, with \<open>--shell\<close>, passes it to a shell through pipes and shows the shell's output.
\<close>

subsection \<open>Terminal settings\<close>

record termios =
  c_iflag :: u32
  c_oflag :: u32
  c_lflag :: u32

definition ISTRIP :: u32 where "ISTRIP = 0x20"

definition set_term_attr :: "termios \<Rightarrow> termios" where
  "set_term_attr t = t\<lparr>c_iflag := ISTRIP, c_oflag := 0, c_lflag := 0\<rparr>"

definition ctrl_C :: char where "ctrl_C = CHR 0x03"
definition ctrl_D :: char where "ctrl_D = CHR 0x04"
definition cr_char :: char where "cr_char = CHR 0x0D"
definition lf_char :: char where "lf_char = CHR 0x0A"
definition SIGINT :: int where "SIGINT = 2"

subsection \<open>State\<close>

text \<open>
  \<open>a_pw\<close> is \<open>PARENT_WRITE\<close> (-1 without a shell), \<open>a_cpid\<close> the shell's process (0 without
  one), \<open>a_tty\<close> the settings in force and \<open>a_saved\<close> the original ones. \<open>a_out\<close> is what the
  terminal shows, \<open>a_to_shell\<close> what went into the pipe, \<open>a_kills\<close> the signals sent.
\<close>

record a_sys =
  a_shell :: bool
  a_prgm :: string
  a_fds :: fdtab
  a_pw :: int
  a_pr :: int
  a_cpid :: int
  a_tty :: termios
  a_saved :: termios
  a_out :: string
  a_err :: string
  a_to_shell :: string
  a_kills :: "(int \<times> int) list"

text \<open>
  The environment: results of \<open>fork\<close> and the terminal calls, whether the shell still has
  its standard input open, whether \<open>kill\<close> and \<open>malloc\<close> work, what \<open>waitpid\<close> reports.
\<close>

record a_env =
  e_fork :: "int option"
  e_isatty :: bool
  e_tcget :: bool
  e_tcset :: bool
  e_reads :: bool
  e_kill :: bool
  e_malloc :: bool
  e_wait :: "nat option"

subsection \<open>Options and set-up\<close>

definition a_long_options :: "longopt list" where
  "a_long_options = [\<lparr>lo_name = ''shell'', lo_arg = required_argument, lo_flag = None, lo_val = CHR ''s''\<rparr>]"

definition a_short_options :: "(char \<times> bool) list" where
  "a_short_options = [(CHR ''s'', True)]"

definition a_opt :: "opt_event \<Rightarrow> bool \<times> string \<Rightarrow> (bool \<times> string) outcome" where
  "a_opt e c =
     (if oe_ret e = CHR ''s'' then (case oe_arg e of None \<Rightarrow> SegFault | Some a \<Rightarrow> Ret (True, a)) else Exit 1)"

fun a_opts :: "opt_event list \<Rightarrow> bool \<times> string \<Rightarrow> (bool \<times> string) outcome" where
  "a_opts [] c = Ret c"
| "a_opts (e # es) c = obind (a_opt e c) (a_opts es)"

definition a_get_opts :: "string list \<Rightarrow> (bool \<times> string) outcome" where
  "a_get_opts argv = a_opts (getopt_long_all a_short_options a_long_options argv) (False, ''/bin/bash'')"

text \<open>Each call that fails makes the process exit with 1.\<close>

definition or_exit :: "'a option \<Rightarrow> ('a \<Rightarrow> 'b outcome) \<Rightarrow> 'b outcome" where
  "or_exit x f = (case x of None \<Rightarrow> Exit 1 | Some y \<Rightarrow> f y)"

definition setstdstreams :: "int \<times> int \<Rightarrow> int \<times> int \<Rightarrow> fdtab \<Rightarrow> fdtab outcome" where
  "setstdstreams pipe_to_chld pipe_to_par t =
     (case (pipe_to_chld, pipe_to_par) of ((CHILD_READ, PARENT_WRITE), (PARENT_READ, CHILD_WRITE)) \<Rightarrow>
        or_exit (close_fd PARENT_WRITE t) (\<lambda>t.
        or_exit (close_fd PARENT_READ t) (\<lambda>t.
        or_exit (dup2_fd CHILD_READ 0 t) (\<lambda>t.
        or_exit (dup2_fd CHILD_WRITE 1 t) (\<lambda>t.
        or_exit (dup2_fd CHILD_WRITE 2 t) Ret)))))"

text \<open>
  \<open>start_shell\<close> up to \<open>execvp\<close> in the child: pipe 0 leads to the shell, pipe 1 from it.
  The child works on its own copy of the table.
\<close>

definition start_shell :: "fdtab \<Rightarrow> shell_fds outcome" where
  "start_shell t =
     or_exit (pipe_fd 0 t) (\<lambda>(CHILD_READ, PARENT_WRITE, t).
     or_exit (pipe_fd 1 t) (\<lambda>(PARENT_READ, CHILD_WRITE, t).
       obind (setstdstreams (CHILD_READ, PARENT_WRITE) (PARENT_READ, CHILD_WRITE) t) (\<lambda>child.
       or_exit (close_fd CHILD_READ t) (\<lambda>p.
       or_exit (close_fd CHILD_WRITE p) (\<lambda>parent.
         Ret \<lparr>sh_parent = parent, sh_child = child, sh_write = PARENT_WRITE, sh_read = PARENT_READ,
              sh_in = 0, sh_out = 1\<rparr>)))))"

definition tty_config :: "a_env \<Rightarrow> a_sys \<Rightarrow> a_sys outcome" where
  "tty_config env s =
     (if \<not> e_isatty env then Exit 1
      else if \<not> e_tcget env then Exit 1
      else if \<not> e_tcset env then Exit 1
      else Ret (s\<lparr>a_saved := a_tty s, a_tty := set_term_attr (a_tty s),
                  a_err := a_err s @ ''(ICANON unset)'' @ [cr_char, lf_char]\<rparr>))"

definition restore_tty :: "a_env \<Rightarrow> a_sys \<Rightarrow> a_sys" where
  "restore_tty env s =
     (if \<not> e_tcset env then s
      else s\<lparr>a_tty := a_saved s, a_err := a_err s @ [cr_char, lf_char] @ ''(ICANON set)'' @ [lf_char]\<rparr>)"

text \<open>
  \<open>shutdown\<close>, the exit handler, run by an \<open>exit\<close> with the code \<open>code\<close>. When \<open>waitpid\<close> fails it
  calls \<open>exit\<close> again: the terminal is not restored and the code becomes 1.
\<close>

definition a_shutdown :: "a_env \<Rightarrow> int \<Rightarrow> a_sys \<Rightarrow> a_sys \<times> unit outcome" where
  "a_shutdown env code s =
     (if a_shell s then
        (case e_wait env of
           None \<Rightarrow> (s, Exit 1)
         | Some status \<Rightarrow>
             (restore_tty env (s\<lparr>a_err := a_err s @ ''SHELL EXIT SIGNAL='' @ fmt_d (int (status mod 128)) @
               '' STATUS='' @ fmt_d (int (status div 256 mod 256)) @ [lf_char]\<rparr>), Exit code))
      else (restore_tty env s, Exit code))"

subsection \<open>The event loop\<close>

definition show_out :: "string \<Rightarrow> a_sys \<Rightarrow> a_sys" where
  "show_out x s = s\<lparr>a_out := a_out s @ x\<rparr>"

text \<open>
  \<open>dprintf(PARENT_WRITE, ...)\<close>: on a closed descriptor it fails and the result is ignored;
  when the shell no longer reads, \<open>SIGPIPE\<close> runs \<open>shellhalt_handler\<close>, which exits with 0.
\<close>

definition shellhalt_handler :: "'a outcome" where
  "shellhalt_handler = Exit 0"

definition to_shell :: "a_env \<Rightarrow> char \<Rightarrow> a_sys \<Rightarrow> a_sys \<times> unit outcome" where
  "to_shell env c s =
     (if a_fds s (a_pw s) = None then (s, Ret ())
      else if \<not> e_reads env then (s, shellhalt_handler)
      else (s\<lparr>a_to_shell := a_to_shell s @ [c]\<rparr>, Ret ()))"

text \<open>\<open>kill\<close>; process 0 means the whole group, this process included.\<close>

definition send_signal :: "a_env \<Rightarrow> int \<Rightarrow> a_sys \<Rightarrow> a_sys \<times> unit outcome" where
  "send_signal env sig s =
     (if \<not> e_kill env then (s, Exit 1)
      else if a_cpid s = 0 then (s, Killed sig)
      else (s\<lparr>a_kills := a_kills s @ [(a_cpid s, sig)]\<rparr>, Ret ()))"

definition kbd_char :: "a_env \<Rightarrow> char \<Rightarrow> a_sys \<Rightarrow> a_sys \<times> unit outcome" where
  "kbd_char env c s =
     (if c = cr_char \<or> c = lf_char then
        (let s = show_out [cr_char, lf_char] s in if a_shell s then to_shell env lf_char s else (s, Ret ()))
      else if c = ctrl_D then
        (case close_fd (a_pw s) (a_fds s) of None \<Rightarrow> (s, Exit 1) | Some t \<Rightarrow> (s\<lparr>a_fds := t\<rparr>, Ret ()))
      else if c = ctrl_C then send_signal env SIGINT s
      else (let s = show_out [c] s in if a_shell s then to_shell env c s else (s, Ret ())))"

fun kbd_chars :: "a_env \<Rightarrow> string \<Rightarrow> a_sys \<Rightarrow> a_sys \<times> unit outcome" where
  "kbd_chars env [] s = (s, Ret ())"
| "kbd_chars env (c # cs) s =
     (case kbd_char env c s of (s', Ret _) \<Rightarrow> kbd_chars env cs s' | (s', r) \<Rightarrow> (s', r))"

text \<open>\<open>read_pipe\<close> on the bytes of one \<open>read\<close>.\<close>

fun pipe_chars :: "string \<Rightarrow> a_sys \<Rightarrow> a_sys \<times> unit outcome" where
  "pipe_chars [] s = (s, Ret ())"
| "pipe_chars (c # cs) s =
     (if c = ctrl_D then (s, Exit 1)
      else pipe_chars cs (show_out (if c = lf_char then [cr_char, lf_char] else [c]) s))"

definition read_pipe :: "a_env \<Rightarrow> string option \<Rightarrow> a_sys \<Rightarrow> a_sys \<times> unit outcome" where
  "read_pipe env data s =
     (if \<not> e_malloc env then (s, Exit 1)
      else case data of None \<Rightarrow> (s, Exit 1) | Some bytes \<Rightarrow> pipe_chars bytes s)"

text \<open>
  One round of \<open>echo_and_forward\<close>: the result of \<open>poll\<close> and what the reads return
  (\<open>Some None\<close> is a failed read, \<open>None\<close> that there is nothing to read).
\<close>

record a_poll =
  pl_fail :: bool
  kb_hup :: bool
  kb_data :: "string option option"
  sh_data :: "string option option"
  sh_hup :: bool

definition READ_SIZE :: nat where "READ_SIZE = 256"

definition poll_round :: "a_env \<Rightarrow> a_poll \<Rightarrow> a_sys \<Rightarrow> a_sys \<times> unit outcome" where
  "poll_round env ev s =
     (if pl_fail ev then (s, Exit 1)
      else if kb_hup ev then (s, Exit 1)
      else case (case kb_data ev of
                   None \<Rightarrow> (s, Ret ())
                 | Some None \<Rightarrow> (s, Exit 1)
                 | Some (Some bytes) \<Rightarrow> kbd_chars env (take READ_SIZE bytes) s) of
        (s, Ret _) \<Rightarrow>
          if \<not> a_shell s then (s, Ret ())
          else (case (case sh_data ev of None \<Rightarrow> (s, Ret ()) | Some d \<Rightarrow> read_pipe env (map_option (take READ_SIZE) d) s) of
                  (s, Ret _) \<Rightarrow> if sh_hup ev then (s, Exit 1) else (s, Ret ())
                | (s, r) \<Rightarrow> (s, r))
      | (s, r) \<Rightarrow> (s, r))"

text \<open>The loop over a finite sequence of rounds; the exit handler runs when it ends.\<close>

fun echo_and_forward :: "a_env \<Rightarrow> a_poll list \<Rightarrow> a_sys \<Rightarrow> a_sys \<times> unit outcome" where
  "echo_and_forward env [] s = (s, Ret ())"
| "echo_and_forward env (ev # evs) s =
     (case poll_round env ev s of
        (s', Ret _) \<Rightarrow> echo_and_forward env evs s'
      | (s', Exit c) \<Rightarrow> a_shutdown env c s'
      | (s', r) \<Rightarrow> (s', r))"

definition a_sys_init :: "termios \<Rightarrow> fdtab \<Rightarrow> bool \<Rightarrow> string \<Rightarrow> a_sys" where
  "a_sys_init tty t sh prgm =
     \<lparr>a_shell = sh, a_prgm = prgm, a_fds = t, a_pw = - 1, a_pr = - 1, a_cpid = 0, a_tty = tty, a_saved = tty,
      a_out = [], a_err = [], a_to_shell = [], a_kills = []\<rparr>"

definition a_setup :: "a_env \<Rightarrow> termios \<Rightarrow> fdtab \<Rightarrow> string list \<Rightarrow> a_sys outcome" where
  "a_setup env tty t argv =
     obind (a_get_opts argv) (\<lambda>(sh, prgm).
     let s = a_sys_init tty t sh prgm in
     obind (if sh
            then obind (start_shell t) (\<lambda>fds.
                   or_exit (e_fork env) (\<lambda>pid.
                     Ret (s\<lparr>a_fds := sh_parent fds, a_pw := sh_write fds, a_pr := sh_read fds, a_cpid := pid\<rparr>)))
            else Ret s) (tty_config env))"


subsection \<open>The shell's pipes\<close>

lemma setstdstreams_eq:
  assumes "t pw \<noteq> None" "pr \<noteq> pw" "t pr \<noteq> None" "t cr = Some a" "t cw = Some b"
    and "cr \<noteq> pw" "cr \<noteq> pr" "cw \<noteq> pw" "cw \<noteq> pr" and "{cr, pw, pr, cw} \<inter> {0, 1, 2} = {}"
  shows "setstdstreams (cr, pw) (pr, cw) t = Ret (child_table cr pw pr cw t)"
  using assms by (simp add: setstdstreams_def or_exit_def close_fd_def dup2_fd_def child_table_def)

lemma start_shell_Ret:
  assumes "std_open t" and "no_pipe 0 t" "no_pipe 1 t"
    and "pipe_fd 0 t = Some (cr, pw, t1)" and "pipe_fd 1 t1 = Some (pr, cw, t2)"
  shows "start_shell t = Ret \<lparr>sh_parent = parent_table cr cw t2, sh_child = child_table cr pw pr cw t2,
    sh_write = pw, sh_read = pr, sh_in = 0, sh_out = 1\<rparr>"
proof -
  note W = wired_tables(2-) [OF assms]
  have "setstdstreams (cr, pw) (pr, cw) t2 = Ret (child_table cr pw pr cw t2)"
    using W by (intro setstdstreams_eq) auto
  then show ?thesis using assms(4,5) W by (simp add: start_shell_def or_exit_def close_fd_def parent_table_def)
qed

interpretation lab1a: shell_starter start_shell
proof
  fix t s
  assume a: "std_open t" "no_pipe 0 t" "no_pipe 1 t" and r: "start_shell t = Ret s"
  from r obtain cr pw t1 pr cw t2 where p: "pipe_fd 0 t = Some (cr, pw, t1)" "pipe_fd 1 t1 = Some (pr, cw, t2)"
    by (auto simp: start_shell_def or_exit_def split: option.splits)
  show "wired s" using wired_tables(1) [OF a p] start_shell_Ret [OF a p] r by simp
qed

subsection \<open>Echo and forwarding\<close>

definition echo_text :: "string \<Rightarrow> string" where
  "echo_text x = concat (map (\<lambda>c. if c = cr_char \<or> c = lf_char then [cr_char, lf_char] else [c]) x)"

definition shell_text :: "string \<Rightarrow> string" where
  "shell_text x = map (\<lambda>c. if c = cr_char then lf_char else c) x"

definition plain :: "string \<Rightarrow> bool" where
  "plain x \<longleftrightarrow> ctrl_C \<notin> set x \<and> ctrl_D \<notin> set x"

lemma kbd_chars_shell:
  assumes "plain x" and "a_shell s" and "a_fds s (a_pw s) \<noteq> None" and "e_reads env"
  shows "kbd_chars env x s =
    (s\<lparr>a_out := a_out s @ echo_text x, a_to_shell := a_to_shell s @ shell_text x\<rparr>, Ret ())"
  using assms(1-3)
proof (induction x arbitrary: s)
  case (Cons c x)
  then show ?case using assms(4)
    by (auto simp: kbd_char_def to_shell_def show_out_def echo_text_def shell_text_def plain_def Let_def)
qed (simp add: echo_text_def shell_text_def)

lemma kbd_chars_no_shell:
  assumes "plain x" and "\<not> a_shell s"
  shows "kbd_chars env x s = (s\<lparr>a_out := a_out s @ echo_text x\<rparr>, Ret ())"
  using assms
proof (induction x arbitrary: s)
  case (Cons c x)
  then show ?case by (auto simp: kbd_char_def show_out_def echo_text_def plain_def Let_def)
qed (simp add: echo_text_def)

definition crlf_text :: "string \<Rightarrow> string" where
  "crlf_text x = concat (map (\<lambda>c. if c = lf_char then [cr_char, lf_char] else [c]) x)"

lemma pipe_chars_eq:
  "pipe_chars x s =
     (s\<lparr>a_out := a_out s @ crlf_text (takeWhile (\<lambda>c. c \<noteq> ctrl_D) x)\<rparr>, if ctrl_D \<in> set x then Exit 1 else Ret ())"
  by (induction x arbitrary: s) (auto simp: show_out_def crlf_text_def)

text \<open>\<open>^D\<close> closes the pipe to the shell; without a shell it ends the program with 1.\<close>

lemma ctrl_D_no_shell: "a_fds s (- 1) = None \<Longrightarrow> a_pw s = - 1 \<Longrightarrow> kbd_char env ctrl_D s = (s, Exit 1)"
  by (simp add: kbd_char_def close_fd_def ctrl_D_def cr_char_def lf_char_def)

lemma ctrl_D_shell:
  "a_fds s (a_pw s) \<noteq> None \<Longrightarrow> kbd_char env ctrl_D s = (s\<lparr>a_fds := (a_fds s)(a_pw s := None)\<rparr>, Ret ())"
  by (simp add: kbd_char_def close_fd_def ctrl_D_def cr_char_def lf_char_def)

subsection \<open>The terminal is restored\<close>

lemma saved_frame [simp]:
  "a_saved (show_out x s) = a_saved s" "a_saved (fst (to_shell env c s)) = a_saved s"
  "a_saved (fst (send_signal env sig s)) = a_saved s"
  by (auto simp: show_out_def to_shell_def send_signal_def)

lemma kbd_char_saved: "a_saved (fst (kbd_char env c s)) = a_saved s"
  by (auto simp: kbd_char_def Let_def split: option.splits)

lemma kbd_chars_saved: "a_saved (fst (kbd_chars env x s)) = a_saved s"
proof (induction x arbitrary: s)
  case (Cons c x)
  then show ?case using kbd_char_saved [of env c s] by (auto split: prod.splits outcome.splits)
qed simp

lemma poll_round_saved: "a_saved (fst (poll_round env ev s)) = a_saved s"
proof -
  have p: "a_saved (fst (read_pipe env d s)) = a_saved s" for d s
    by (auto simp: read_pipe_def pipe_chars_eq split: option.splits)
  have k: "a_saved (fst (case kb_data ev of None \<Rightarrow> (s, Ret ()) | Some None \<Rightarrow> (s, Exit 1)
      | Some (Some bytes) \<Rightarrow> kbd_chars env (take READ_SIZE bytes) s)) = a_saved s"
    by (auto simp: kbd_chars_saved split: option.splits)
  show ?thesis
    using k p unfolding poll_round_def
    by (auto split: prod.splits outcome.splits option.splits) (metis fst_conv)+
qed

lemma shutdown_restores:
  "e_tcset env \<Longrightarrow> a_shell s \<longrightarrow> e_wait env \<noteq> None \<Longrightarrow>
     \<exists>s'. a_shutdown env c s = (s', Exit c) \<and> a_tty s' = a_saved s"
  by (auto simp: a_shutdown_def restore_tty_def split: option.splits)

lemma echo_and_forward_restores:
  assumes "e_tcset env" and "e_wait env \<noteq> None" and "echo_and_forward env evs s = (s', Exit c)"
  shows "a_tty s' = a_saved s"
  using assms(3)
proof (induction evs arbitrary: s)
  case (Cons ev evs)
  obtain s1 r where pr: "poll_round env ev s = (s1, r)" by fastforce
  have "a_saved s1 = a_saved s" using poll_round_saved [of env ev s] pr by simp
  moreover obtain t where "a_shutdown env c' s1 = (t c', Exit c') \<and> a_tty (t c') = a_saved s1" for c'
    using shutdown_restores [OF assms(1), of s1] assms(2) by metis
  ultimately show ?case using Cons pr by (cases r) auto
qed simp

end
