(* ===== verification/Zlib.thy ===== *)
theory Zlib
  imports Prelude
begin

text \<open>
  zlib as \<open>lab1b-client.c\<close> and \<open>lab1b-server.c\<close> use it. The library is not part of the
  repository: its functions are the fields of a record that the programs take as an
  argument. What is modelled here is the programs' own loop around a call, and the
  hypothesis \<open>zlib_ok\<close> that states the documented behaviour of \<open>Z_SYNC_FLUSH\<close>.
\<close>

text \<open>
  \<open>inflateInit\<close> and \<open>deflateInit\<close> may fail. One call of \<open>deflate\<close> or \<open>inflate\<close> gets the
  state of the stream, the input left and the room left in the output; it gives the new
  state, the number of bytes consumed and the bytes produced, \<open>None\<close> for \<open>Z_STREAM_ERROR\<close>.
\<close>

type_synonym 'z zcall = "'z \<Rightarrow> string \<Rightarrow> nat \<Rightarrow> ('z \<times> nat \<times> string) option"

record 'z zlib =
  z_inflateInit :: "'z option"
  z_deflateInit :: "'z option"
  z_inflate :: "'z zcall"
  z_deflate :: "'z zcall"

text \<open>
  \<open>do { ... } while (avail_in > 0)\<close>. Nothing makes the loop end when the output buffer is
  full and the call makes no progress.
\<close>

partial_function (option) z_loop ::
    "'z zcall \<Rightarrow> 'z \<Rightarrow> string \<Rightarrow> nat \<Rightarrow> string \<Rightarrow> ('z \<times> string) outcome option" where
  "z_loop call z next_in avail_out next_out =
     (case call z next_in avail_out of
        None \<Rightarrow> Some (Exit 1)
      | Some (z', used, produced) \<Rightarrow>
          (if length next_in \<le> used then Some (Ret (z', next_out @ produced))
           else z_loop call z' (drop used next_in) (avail_out - length produced) (next_out @ produced)))"

definition z_run :: "'z zcall \<Rightarrow> 'z \<Rightarrow> string \<Rightarrow> nat \<Rightarrow> ('z \<times> string) outcome" where
  "z_run call z bytes room = (case z_loop call z bytes room [] of None \<Rightarrow> Hang | Some r \<Rightarrow> r)"

lemma z_run_one: "call z bytes room = Some (z', length bytes, out) \<Longrightarrow> z_run call z bytes room = Ret (z', out)"
  by (simp add: z_run_def z_loop.simps)

lemma z_run_error: "call z bytes room = None \<Longrightarrow> z_run call z bytes room = Exit 1"
  by (simp add: z_run_def z_loop.simps)

text \<open>A call that makes no progress on input that is left is repeated for ever.\<close>

lemma z_loop_stuck:
  assumes "call z bytes room = Some (z, 0, [])" and "bytes \<noteq> []"
  shows "z_loop call z bytes room out = None"
proof -
  have "\<not> (c y b m = Some (y, 0, []) \<and> b \<noteq> [])" if "z_loop c y b m p = Some r" for c y b m p r
  proof (rule z_loop.raw_induct [OF _ that], goal_cases)
    case (1 f c y b m p r)
    show ?case
    proof
      assume "c y b m = Some (y, 0, []) \<and> b \<noteq> []"
      with 1(2) have "f c y b m p = Some r" by simp
      from 1(1) [OF this] show False using \<open>c y b m = Some (y, 0, []) \<and> b \<noteq> []\<close> by blast
    qed
  qed
  from this [of call z bytes room out] assms show ?thesis by (cases "z_loop call z bytes room out") simp_all
qed

lemma z_run_stuck: "call z bytes room = Some (z, 0, []) \<Longrightarrow> bytes \<noteq> [] \<Longrightarrow> z_run call z bytes room = Hang"
  by (simp add: z_run_def z_loop_stuck)

text \<open>
  The documented behaviour, for inputs of up to \<open>n\<close> bytes and a buffer of \<open>room\<close> bytes: a
  compressor and a decompressor in step (\<open>sync\<close>) stay in step, a flush brings out a
  non-empty input completely, and what it brings out decompresses to that input.
\<close>

definition zlib_ok :: "'z zlib \<Rightarrow> ('z \<Rightarrow> 'z \<Rightarrow> bool) \<Rightarrow> nat \<Rightarrow> nat \<Rightarrow> bool" where
  "zlib_ok zl sync n room \<longleftrightarrow>
     (\<forall>zc zd bs. sync zc zd \<longrightarrow> bs \<noteq> [] \<longrightarrow> length bs \<le> n \<longrightarrow>
        (\<exists>zc' zd' out. z_deflate zl zc bs room = Some (zc', length bs, out) \<and> out \<noteq> [] \<and> length out \<le> room \<and>
           z_inflate zl zd out room = Some (zd', length out, bs) \<and> sync zc' zd'))"

lemma zlib_okE:
  assumes "zlib_ok zl sync n room" and "sync zc zd" and "bs \<noteq> []" and "length bs \<le> n"
  obtains zc' zd' out where "z_run (z_deflate zl) zc bs room = Ret (zc', out)" and "out \<noteq> []" and "length out \<le> room"
    and "z_run (z_inflate zl) zd out room = Ret (zd', bs)" and "sync zc' zd'"
  using assms unfolding zlib_ok_def by (metis z_run_one)

end
