(* ===== verification/Lab1bClient.thy ===== *)
theory Lab1bClient
  imports Lab1a Zlib
begin

text \<open>
  \<open>CS111/project1/project1b/lab1b-client.c\<close>: the client of the remote shell. Its own
  parts are the growing log buffers, the option handling, the keyboard loop, the display
  of the server's data and the log written at the end. zlib is the argument \<open>zl\<close>.
\<close>

subsection \<open>Log buffers\<close>

text \<open>
  \<open>bf_data\<close> lists the allocated bytes, so its length is the size of the allocation; a
  store outside it is undefined and is the outcome \<open>SegFault\<close>.
\<close>

record buffer =
  bf_capacity :: int
  bf_load :: int
  bf_avaliable :: int
  bf_data :: "char list"

definition CLIENT_READ_SIZE :: int where "CLIENT_READ_SIZE = 16384"
definition SCALING_FACTOR :: int where "SCALING_FACTOR = 2"
definition SIZEOF_BUFFER :: int where "SIZEOF_BUFFER = 24"

text \<open>\<open>cm_alloc n\<close> says whether an allocation of \<open>n\<close> bytes succeeds, \<open>cm_junk\<close> what new memory holds.\<close>

record c_mem =
  cm_alloc :: "int \<Rightarrow> bool"
  cm_junk :: "nat \<Rightarrow> char"

definition init_buf :: "c_mem \<Rightarrow> buffer outcome" where
  "init_buf m =
     (if \<not> cm_alloc m SIZEOF_BUFFER then Exit 1
      else Ret \<lparr>bf_capacity = CLIENT_READ_SIZE, bf_load = 0, bf_avaliable = CLIENT_READ_SIZE - 0,
                bf_data = (if cm_alloc m CLIENT_READ_SIZE then map (cm_junk m) [0..<nat CLIENT_READ_SIZE] else [])\<rparr>)"

text \<open>Doubling that leaves the range of \<open>int\<close> gives a size for which \<open>realloc\<close> fails.\<close>

definition grow_buffer :: "c_mem \<Rightarrow> buffer \<Rightarrow> buffer outcome" where
  "grow_buffer m b =
     (let capacity = to_int32 (bf_capacity b * SCALING_FACTOR) in
      if capacity \<le> 0 \<or> \<not> cm_alloc m capacity then Exit 1
      else Ret (b\<lparr>bf_capacity := capacity, bf_avaliable := capacity - bf_load b,
                  bf_data := take (nat capacity) (bf_data b) @ map (cm_junk m) [length (bf_data b)..<nat capacity]\<rparr>))"

lemma grow_buffer_measure:
  assumes "grow_buffer m b = Ret b'"
  shows "nat (2 ^ 31 - to_int32 (bf_capacity b')) < nat (2 ^ 31 - to_int32 (bf_capacity b))"
proof -
  let ?c = "to_int32 (bf_capacity b * 2)"
  have c: "0 < ?c" "bf_capacity b' = ?c"
    using assms by (auto simp: grow_buffer_def SCALING_FACTOR_def Let_def split: if_splits)
  have "to_int32 ?c = ?c" using to_int32_bounds [of "bf_capacity b * 2"] by (intro to_int32_id) auto
  with c to_int32_double [OF c(1)] to_int32_bounds [of "bf_capacity b * 2"] show ?thesis by simp
qed

text \<open>The loop \<open>while (avaliable < n) grow_buffer(buf)\<close>.\<close>

function grow_until :: "c_mem \<Rightarrow> int \<Rightarrow> buffer \<Rightarrow> buffer outcome" where
  "grow_until m n b =
     (if n \<le> bf_avaliable b then Ret b
      else case grow_buffer m b of Ret b' \<Rightarrow> grow_until m n b' | r \<Rightarrow> r)"
  by pat_completeness auto
termination
  by (relation "measure (\<lambda>(m, n, b). nat (2 ^ 31 - to_int32 (bf_capacity b)))")
    (auto simp only: in_measure case_prod_conv wf_measure intro: grow_buffer_measure)

declare grow_until.simps [simp del]

text \<open>\<open>memcpy(data + load, bytes, n); load += n\<close>; the count of free bytes stays as it was.\<close>

definition buf_put :: "string \<Rightarrow> buffer \<Rightarrow> buffer outcome" where
  "buf_put bytes b =
     (let at = nat (bf_load b) in
      if bf_load b < 0 \<or> length (bf_data b) < at + length bytes then SegFault
      else Ret (b\<lparr>bf_data := take at (bf_data b) @ bytes @ drop (at + length bytes) (bf_data b),
                  bf_load := to_int32 (bf_load b + int (length bytes))\<rparr>))"

text \<open>Logging a block (received or compressed data), and logging one character sent raw.\<close>

definition log_block :: "c_mem \<Rightarrow> string \<Rightarrow> buffer \<Rightarrow> buffer outcome" where
  "log_block m bytes b = obind (grow_until m (int (length bytes)) b) (buf_put bytes)"

definition log_char :: "c_mem \<Rightarrow> char \<Rightarrow> buffer \<Rightarrow> buffer outcome" where
  "log_char m c b =
     obind (if bf_avaliable b = 0 then grow_buffer m b else Ret b) (buf_put [c])"

subsection \<open>State\<close>

text \<open>
  \<open>c_out\<close> is what the session writes to standard output (with \<open>write\<close> and \<open>dprintf\<close>), \<open>c_err\<close>
  its line ends, byte counts and mode messages on standard error; the notices printed
  through \<open>stdio\<close> and the texts of \<open>strerror\<close> are left out. \<open>c_sent\<close> are the packets sent,
  \<open>c_logfile\<close> the records written to the log.
\<close>

record 'z c_sys =
  log_flag :: bool
  port_flag :: bool
  compress_flag :: bool
  SERV_PORT :: int
  sent_buf :: "buffer option"
  recv_buf :: "buffer option"
  cz_in :: "'z option"
  cz_out :: "'z option"
  c_tty :: termios
  c_saved :: termios
  c_out :: string
  c_err :: string
  c_sent :: "string list"
  c_logfile :: "string list"

record c_env =
  ce_mem :: c_mem
  ce_open :: "string \<Rightarrow> bool"
  ce_isatty :: bool
  ce_tcget :: bool
  ce_tcset :: bool
  ce_socket :: bool
  ce_connect :: bool
  ce_peer :: bool
  ce_stack :: string

definition c_sys_init :: "termios \<Rightarrow> 'z c_sys" where
  "c_sys_init tty =
     \<lparr>log_flag = False, port_flag = False, compress_flag = False, SERV_PORT = 0, sent_buf = None, recv_buf = None,
      cz_in = None, cz_out = None, c_tty = tty, c_saved = \<lparr>c_iflag = 0, c_oflag = 0, c_lflag = 0\<rparr>,
      c_out = [], c_err = [], c_sent = [], c_logfile = []\<rparr>"

subsection \<open>Options\<close>

definition client_long_options :: "longopt list" where
  "client_long_options =
     [\<lparr>lo_name = ''log'', lo_arg = required_argument, lo_flag = Some 0, lo_val = CHR 0x01\<rparr>,
      \<lparr>lo_name = ''port'', lo_arg = required_argument, lo_flag = Some 1, lo_val = CHR 0x01\<rparr>,
      \<lparr>lo_name = ''compress'', lo_arg = no_argument, lo_flag = Some 2, lo_val = CHR 0x01\<rparr>]"

definition client_short_options :: "(char \<times> bool) list" where
  "client_short_options = [(CHR ''l'', True), (CHR ''p'', True), (CHR ''c'', False)]"

definition client_zip_init :: "'z zlib \<Rightarrow> 'z c_sys \<Rightarrow> 'z c_sys outcome" where
  "client_zip_init zl s =
     (case z_inflateInit zl of
        None \<Rightarrow> Exit 1
      | Some zd \<Rightarrow>
          (case z_deflateInit zl of
             None \<Rightarrow> Exit 1
           | Some zc \<Rightarrow> Ret (s\<lparr>cz_in := Some zd, cz_out := Some zc\<rparr>)))"

text \<open>What \<open>getopt_long\<close> itself stores for an option with a flag.\<close>

definition client_set_flag :: "opt_event \<Rightarrow> 'z c_sys \<Rightarrow> 'z c_sys" where
  "client_set_flag e s =
     (if oe_ret e \<noteq> CHR 0x00 then s
      else if oe_idx e = 0 then s\<lparr>log_flag := True\<rparr>
      else if oe_idx e = 1 then s\<lparr>port_flag := True\<rparr>
      else s\<lparr>compress_flag := True\<rparr>)"

text \<open>
  The body of the loop: the option is told by \<open>option_index\<close> alone, which stays 0 for a
  short or unknown option. \<open>open\<close> of a NULL path fails.
\<close>

definition client_opt :: "c_env \<Rightarrow> 'z zlib \<Rightarrow> opt_event \<Rightarrow> 'z c_sys \<Rightarrow> 'z c_sys outcome" where
  "client_opt env zl e s0 =
     (let s = client_set_flag e s0; option_name = lo_name (client_long_options ! oe_idx e) in
      if strcmp option_name ''log'' = 0 then
        (if (case oe_arg e of None \<Rightarrow> True | Some f \<Rightarrow> \<not> ce_open env f) then Exit 1
         else obind (init_buf (ce_mem env)) (\<lambda>sb. obind (init_buf (ce_mem env)) (\<lambda>rb.
                Ret (s\<lparr>sent_buf := Some sb, recv_buf := Some rb\<rparr>))))
      else if strcmp option_name ''compress'' = 0 then client_zip_init zl s
      else if strcmp option_name ''port'' = 0 then
        (case oe_arg e of None \<Rightarrow> SegFault | Some a \<Rightarrow> Ret (s\<lparr>SERV_PORT := to_int32 (strtol0 a)\<rparr>))
      else Exit 1)"

fun client_opts :: "c_env \<Rightarrow> 'z zlib \<Rightarrow> opt_event list \<Rightarrow> 'z c_sys \<Rightarrow> 'z c_sys outcome" where
  "client_opts env zl [] s = Ret s"
| "client_opts env zl (e # es) s = obind (client_opt env zl e s) (client_opts env zl es)"

definition client_opt_handler :: "c_env \<Rightarrow> 'z zlib \<Rightarrow> string list \<Rightarrow> 'z c_sys \<Rightarrow> 'z c_sys outcome" where
  "client_opt_handler env zl argv s =
     obind (client_opts env zl (getopt_long_all client_short_options client_long_options argv) s) (\<lambda>s.
       if port_flag s then Ret s else Exit 1)"

subsection \<open>Terminal, connection, shutdown\<close>

definition client_set_term_attr :: "termios \<Rightarrow> termios" where
  "client_set_term_attr t = t\<lparr>c_iflag := ISTRIP, c_oflag := 0, c_lflag := 0\<rparr>"

definition client_tty_config :: "c_env \<Rightarrow> 'z c_sys \<Rightarrow> 'z c_sys outcome" where
  "client_tty_config env s =
     (if \<not> ce_isatty env then Exit 1
      else if \<not> ce_tcget env then Exit 1
      else if \<not> ce_tcset env then Exit 1
      else Ret (s\<lparr>c_saved := c_tty s, c_tty := client_set_term_attr (c_tty s),
                  c_err := c_err s @ ''(ICANON unset)'' @ [cr_char, lf_char]\<rparr>))"

definition client_restore_tty :: "c_env \<Rightarrow> 'z c_sys \<Rightarrow> 'z c_sys" where
  "client_restore_tty env s =
     (if \<not> ce_tcset env then s
      else s\<lparr>c_tty := c_saved s, c_err := c_err s @ [cr_char, lf_char] @ ''(ICANON set)'' @ [lf_char]\<rparr>)"

definition connect_to_server :: "c_env \<Rightarrow> 'z c_sys \<Rightarrow> unit outcome" where
  "connect_to_server env s = (if \<not> ce_socket env then Exit 1 else if \<not> ce_connect env then Exit 1 else Ret ())"

text \<open>\<open>%s\<close> of a buffer: up to the first NUL of the allocation, wherever the data ends.\<close>

definition sp_char :: char where "sp_char = CHR 0x20"

definition buf_text :: "buffer \<Rightarrow> string" where
  "buf_text b = takeWhile (\<lambda>c. c \<noteq> CHR 0x00) (bf_data b)"

definition blank_newlines :: "buffer \<Rightarrow> buffer" where
  "blank_newlines b =
     b\<lparr>bf_data := map (\<lambda>c. if c = lf_char \<or> c = cr_char then sp_char else c) (take (nat (bf_load b)) (bf_data b)) @
                  drop (nat (bf_load b)) (bf_data b)\<rparr>"

definition log_record :: "string \<Rightarrow> buffer \<Rightarrow> string" where
  "log_record tag b = tag @ '' '' @ fmt_d (bf_load b) @ '' bytes: '' @ buf_text b @ [lf_char]"

text \<open>The exit handler, run by an \<open>exit\<close> with the code \<open>code\<close>.\<close>

definition shutdown_client :: "c_env \<Rightarrow> int \<Rightarrow> 'z c_sys \<Rightarrow> 'z c_sys \<times> unit outcome" where
  "shutdown_client env code s =
     (let s = client_restore_tty env s in
      if log_flag s then
        (let s = s\<lparr>c_err := c_err s @ ''writing to log file''\<rparr> in
         case (sent_buf s, recv_buf s) of
           (Some sb, Some rb) \<Rightarrow>
             (s\<lparr>recv_buf := Some (blank_newlines rb),
                c_logfile := c_logfile s @ [log_record ''SENT'' sb, log_record ''RECEIVED'' (blank_newlines rb)],
                c_err := c_err s @ ''exiting as expected''\<rparr>, Exit code)
         | _ \<Rightarrow> (s, SegFault))
      else (s\<lparr>c_err := c_err s @ ''exiting as expected''\<rparr>, Exit code))"

subsection \<open>Data from the server\<close>

fun show_chars :: "string \<Rightarrow> 'z c_sys \<Rightarrow> 'z c_sys \<times> unit outcome" where
  "show_chars [] s = (s, Ret ())"
| "show_chars (c # cs) s =
     (if c = ctrl_D then (s\<lparr>c_err := c_err s @ ''Connection closed'' @ [lf_char]\<rparr>, Exit 0)
      else if c = lf_char then show_chars cs (s\<lparr>c_err := c_err s @ [cr_char, lf_char]\<rparr>)
      else show_chars cs (s\<lparr>c_out := c_out s @ [c]\<rparr>))"

text \<open>\<open>data\<close> is what \<open>read\<close> returned, \<open>None\<close> for -1.\<close>

definition client_log_recv :: "c_env \<Rightarrow> string \<Rightarrow> 'z c_sys \<Rightarrow> 'z c_sys outcome" where
  "client_log_recv env bytes s =
     (if \<not> log_flag s then Ret s
      else case recv_buf s of
        None \<Rightarrow> SegFault
      | Some b \<Rightarrow> obind (log_block (ce_mem env) bytes b) (\<lambda>b'. Ret (s\<lparr>recv_buf := Some b'\<rparr>)))"

text \<open>The body of \<open>get_server_data\<close> after the \<open>read\<close>, for a non-empty packet.\<close>

definition client_show :: "c_env \<Rightarrow> 'z zlib \<Rightarrow> string \<Rightarrow> 'z c_sys \<Rightarrow> 'z c_sys \<times> unit outcome" where
  "client_show env zl bytes s0 =
     (let s1 = s0\<lparr>c_err := c_err s0 @ ''Bytes received: '' @ fmt_d (int (length bytes)) @ [lf_char, cr_char]\<rparr> in
      case client_log_recv env bytes s1 of
        Ret s \<Rightarrow>
          if compress_flag s then
            (case cz_in s of
               None \<Rightarrow> (s, SegFault)
             | Some z \<Rightarrow>
                 (case z_run (z_inflate zl) z bytes (nat CLIENT_READ_SIZE) of
                    Ret (z', unzipped) \<Rightarrow> show_chars unzipped (s\<lparr>cz_in := Some z'\<rparr>)
                  | r \<Rightarrow> (s, obind r (\<lambda>_. Ret ()))))
          else show_chars bytes s
      | r \<Rightarrow> (s1, obind r (\<lambda>_. Ret ())))"

definition get_server_data :: "c_env \<Rightarrow> 'z zlib \<Rightarrow> string option \<Rightarrow> 'z c_sys \<Rightarrow> 'z c_sys \<times> unit outcome" where
  "get_server_data env zl data s0 =
     (case data of
        None \<Rightarrow> (s0, Exit 0)
      | Some data \<Rightarrow>
          (let bytes = take (nat CLIENT_READ_SIZE) data in
           if bytes = [] then (s0, Exit 0) else client_show env zl bytes s0))"

subsection \<open>Keyboard\<close>

text \<open>\<open>send\<close> with its result ignored; after the peer has gone it raises \<open>SIGPIPE\<close>.\<close>

definition SIGPIPE :: int where "SIGPIPE = 13"

definition client_send :: "c_env \<Rightarrow> string \<Rightarrow> 'z c_sys \<Rightarrow> 'z c_sys \<times> unit outcome" where
  "client_send env payload s =
     (if ce_peer env then (s\<lparr>c_sent := c_sent s @ [payload]\<rparr>, Ret ()) else (s, Killed SIGPIPE))"

definition client_log_sent :: "(buffer \<Rightarrow> buffer outcome) \<Rightarrow> 'z c_sys \<Rightarrow> 'z c_sys outcome" where
  "client_log_sent f s =
     (if \<not> log_flag s then Ret s
      else case sent_buf s of
        None \<Rightarrow> SegFault
      | Some b \<Rightarrow> obind (f b) (\<lambda>b'. Ret (s\<lparr>sent_buf := Some b'\<rparr>)))"

text \<open>
  Compressed transmission of one character: \<open>avail_in\<close> is \<open>read_len\<close>, so that many bytes
  are compressed, starting at the character; those behind it are whatever the stack holds.
\<close>

definition client_send_zip :: "c_env \<Rightarrow> 'z zlib \<Rightarrow> nat \<Rightarrow> char \<Rightarrow> 'z c_sys \<Rightarrow> 'z c_sys \<times> unit outcome" where
  "client_send_zip env zl read_len c s =
     (case cz_out s of
        None \<Rightarrow> (s, SegFault)
      | Some z \<Rightarrow>
          (case z_run (z_deflate zl) z (take read_len (c # ce_stack env)) (nat CLIENT_READ_SIZE) of
             Ret (z', zip_buf) \<Rightarrow>
               (case client_log_sent (log_block (ce_mem env) zip_buf) (s\<lparr>cz_out := Some z'\<rparr>) of
                  Ret s' \<Rightarrow> client_send env zip_buf s'
                | r \<Rightarrow> (s, obind r (\<lambda>_. Ret ())))
           | r \<Rightarrow> (s, obind r (\<lambda>_. Ret ()))))"

definition client_kbd_char :: "c_env \<Rightarrow> 'z zlib \<Rightarrow> nat \<Rightarrow> char \<Rightarrow> 'z c_sys \<Rightarrow> 'z c_sys \<times> unit outcome" where
  "client_kbd_char env zl read_len c s0 =
     (if c = cr_char \<or> c = lf_char then
        (let s = s0\<lparr>c_out := c_out s0 @ [cr_char, lf_char]\<rparr> in
         if compress_flag s then client_send_zip env zl read_len c s
         else (case client_log_sent (log_char (ce_mem env) sp_char) s of
                 Ret s' \<Rightarrow> client_send env [lf_char] s'
               | r \<Rightarrow> (s, obind r (\<lambda>_. Ret ()))))
      else
        (let s = s0\<lparr>c_out := c_out s0 @ [c]\<rparr> in
         if compress_flag s then client_send_zip env zl read_len c s
         else (case client_log_sent (log_char (ce_mem env) c) s of
                 Ret s' \<Rightarrow> client_send env [c] s'
               | r \<Rightarrow> (s, obind r (\<lambda>_. Ret ())))))"

fun client_kbd_chars :: "c_env \<Rightarrow> 'z zlib \<Rightarrow> nat \<Rightarrow> string \<Rightarrow> 'z c_sys \<Rightarrow> 'z c_sys \<times> unit outcome" where
  "client_kbd_chars env zl read_len [] s = (s, Ret ())"
| "client_kbd_chars env zl read_len (c # cs) s =
     (case client_kbd_char env zl read_len c s of
        (s', Ret _) \<Rightarrow> client_kbd_chars env zl read_len cs s'
      | (s', r) \<Rightarrow> (s', r))"

text \<open>One round of the loop in \<open>main\<close>: what \<open>poll\<close> reports and what the reads return.\<close>

record c_poll =
  cp_fail :: bool
  cp_kbd :: "string option option"
  cp_hup :: bool
  cp_sock :: "string option option"

definition client_round :: "c_env \<Rightarrow> 'z zlib \<Rightarrow> c_poll \<Rightarrow> 'z c_sys \<Rightarrow> 'z c_sys \<times> unit outcome" where
  "client_round env zl ev s =
     (if cp_fail ev then (s, Exit 1)
      else case (case cp_kbd ev of
                   None \<Rightarrow> (s, Ret ())
                 | Some None \<Rightarrow> (s, Exit 1)
                 | Some (Some data) \<Rightarrow>
                     (let bytes = take (nat CLIENT_READ_SIZE) data in
                      client_kbd_chars env zl (length bytes) bytes s)) of
        (s, Ret _) \<Rightarrow>
          if cp_hup ev then (s, Exit 0)
          else (case cp_sock ev of None \<Rightarrow> (s, Ret ()) | Some d \<Rightarrow> get_server_data env zl d s)
      | (s, r) \<Rightarrow> (s, r))"

fun client_loop :: "c_env \<Rightarrow> 'z zlib \<Rightarrow> c_poll list \<Rightarrow> 'z c_sys \<Rightarrow> 'z c_sys \<times> unit outcome" where
  "client_loop env zl [] s = (s, Ret ())"
| "client_loop env zl (ev # evs) s =
     (case client_round env zl ev s of
        (s', Ret _) \<Rightarrow> client_loop env zl evs s'
      | (s', Exit c) \<Rightarrow> shutdown_client env c s'
      | (s', r) \<Rightarrow> (s', r))"

text \<open>
  \<open>main\<close>: the exit handler is registered after the options, so a failed connection runs
  it before the settings of the terminal have been read.
\<close>

definition client_main :: "c_env \<Rightarrow> 'z zlib \<Rightarrow> string list \<Rightarrow> c_poll list \<Rightarrow> 'z c_sys \<Rightarrow> 'z c_sys \<times> unit outcome" where
  "client_main env zl argv evs s0 =
     (case client_opt_handler env zl argv s0 of
        Ret s \<Rightarrow>
          (case obind (connect_to_server env s) (\<lambda>_. client_tty_config env s) of
             Ret s' \<Rightarrow> client_loop env zl evs s'
           | Exit c \<Rightarrow> shutdown_client env c s
           | r \<Rightarrow> (s, obind r (\<lambda>_. Ret ())))
      | r \<Rightarrow> (s0, obind r (\<lambda>_. Ret ())))"

subsection \<open>What the log buffers hold\<close>

definition logged :: "buffer \<Rightarrow> string" where
  "logged b = take (nat (bf_load b)) (bf_data b)"

text \<open>A buffer as \<open>init_buf\<close> makes it, with some of its bytes used.\<close>

definition fresh_buf :: "buffer \<Rightarrow> bool" where
  "fresh_buf b \<longleftrightarrow>
     bf_avaliable b = CLIENT_READ_SIZE \<and> int (length (bf_data b)) = CLIENT_READ_SIZE \<and>
     0 \<le> bf_load b \<and> bf_load b \<le> CLIENT_READ_SIZE"

lemma init_buf_fresh:
  "init_buf m = Ret b \<Longrightarrow> cm_alloc m CLIENT_READ_SIZE \<Longrightarrow> fresh_buf b \<and> logged b = []"
  by (auto simp: init_buf_def fresh_buf_def logged_def CLIENT_READ_SIZE_def split: if_splits)

lemma length_logged: "fresh_buf b \<Longrightarrow> int (length (logged b)) = bf_load b"
  by (auto simp: fresh_buf_def logged_def min_def)

lemma buf_put_fresh:
  assumes "fresh_buf b" and "bf_load b + int (length bs) \<le> CLIENT_READ_SIZE"
  shows "\<exists>b'. buf_put bs b = Ret b' \<and> fresh_buf b' \<and> logged b' = logged b @ bs"
proof -
  let ?n = "nat (bf_load b)" and ?d = "bf_data b"
  have n: "0 \<le> bf_load b" "?n + length bs \<le> length ?d" "length ?d = 16384"
    using assms by (auto simp: fresh_buf_def CLIENT_READ_SIZE_def)
  then have "to_int32 (bf_load b + int (length bs)) = bf_load b + int (length bs)"
    using assms(2) by (intro to_int32_id) (auto simp: CLIENT_READ_SIZE_def)
  moreover have "nat (bf_load b + int (length bs)) = ?n + length bs" using n(1) by (simp add: nat_add_distrib)
  ultimately show ?thesis using assms n
    by (auto simp: buf_put_def fresh_buf_def logged_def Let_def CLIENT_READ_SIZE_def)
qed

text \<open>The count of free bytes never goes down, so a full buffer is not noticed.\<close>

lemma buf_put_full: "fresh_buf b \<Longrightarrow> CLIENT_READ_SIZE < bf_load b + int (length bs) \<Longrightarrow> buf_put bs b = SegFault"
  by (auto simp: buf_put_def fresh_buf_def Let_def)

lemma log_char_fresh: "fresh_buf b \<Longrightarrow> log_char m c b = buf_put [c] b"
  by (simp add: log_char_def fresh_buf_def CLIENT_READ_SIZE_def)

lemma log_block_fresh: "fresh_buf b \<Longrightarrow> int (length bs) \<le> CLIENT_READ_SIZE \<Longrightarrow> log_block m bs b = buf_put bs b"
  by (simp add: log_block_def fresh_buf_def grow_until.simps)

text \<open>Growing keeps the logged bytes.\<close>

lemma grow_buffer_logged:
  assumes "grow_buffer m b = Ret b'" and "0 \<le> bf_load b" and "nat (bf_load b) \<le> length (bf_data b)"
    and "bf_load b \<le> bf_capacity b'"
  shows "logged b' = logged b" and "int (length (bf_data b')) = bf_capacity b'"
    and "bf_avaliable b' = bf_capacity b' - bf_load b'" and "bf_load b' = bf_load b"
  using assms by (auto simp: grow_buffer_def logged_def Let_def min_def split: if_splits)

subsection \<open>Typing without compression\<close>

definition log_text :: "string \<Rightarrow> string" where
  "log_text x = map (\<lambda>c. if c = cr_char \<or> c = lf_char then sp_char else c) x"

text \<open>One character: the echo, the packet and the byte for the log.\<close>

lemma client_kbd_char_raw:
  assumes "\<not> compress_flag s" and "ce_peer env"
  shows "client_kbd_char env zl n c s =
    (let s1 = s\<lparr>c_out := c_out s @ echo_text [c]\<rparr> in
     case client_log_sent (log_char (ce_mem env) (hd (log_text [c]))) s1 of
       Ret s' \<Rightarrow> (s'\<lparr>c_sent := c_sent s' @ [shell_text [c]]\<rparr>, Ret ())
     | r \<Rightarrow> (s1, obind r (\<lambda>_. Ret ())))"
  using assms
  by (auto simp: client_kbd_char_def client_send_def Let_def echo_text_def shell_text_def log_text_def
      split: outcome.splits)

lemma client_raw_no_log:
  assumes "\<not> compress_flag s" and "ce_peer env" and "\<not> log_flag s"
  shows "client_kbd_chars env zl n x s =
    (s\<lparr>c_out := c_out s @ echo_text x, c_sent := c_sent s @ map (\<lambda>c. [c]) (shell_text x)\<rparr>, Ret ())"
  using assms
proof (induction x arbitrary: s)
  case (Cons c x)
  then show ?case by (simp add: client_kbd_char_raw client_log_sent_def Let_def) (simp add: echo_text_def shell_text_def)
qed (simp add: echo_text_def shell_text_def)

lemma client_raw_log:
  assumes "\<not> compress_flag s" and "ce_peer env" and "log_flag s" and "sent_buf s = Some b" and "fresh_buf b"
    and "bf_load b + int (length x) \<le> CLIENT_READ_SIZE"
  shows "\<exists>b'. client_kbd_chars env zl n x s =
    (s\<lparr>sent_buf := Some b', c_out := c_out s @ echo_text x, c_sent := c_sent s @ map (\<lambda>c. [c]) (shell_text x)\<rparr>, Ret ()) \<and>
    fresh_buf b' \<and> logged b' = logged b @ log_text x"
  using assms
proof (induction x arbitrary: s b)
  case Nil
  then have "s = s\<lparr>sent_buf := Some b\<rparr>" by simp
  with Nil show ?case by (intro exI [of _ b]) (simp add: echo_text_def shell_text_def log_text_def)
next
  case (Cons c x)
  let ?c = "hd (log_text [c])"
  from Cons.prems(5,6) obtain b1 where b1: "buf_put [?c] b = Ret b1" "fresh_buf b1" "logged b1 = logged b @ [?c]"
    using buf_put_fresh [of b "[?c]"] by auto
  have "bf_load b1 = bf_load b + 1"
    using length_logged [OF b1(2)] length_logged [OF Cons.prems(5)] b1(3) by simp
  then have len: "bf_load b1 + int (length x) \<le> CLIENT_READ_SIZE" using Cons.prems(6) by simp
  let ?s1 = "s\<lparr>c_out := c_out s @ echo_text [c], sent_buf := Some b1, c_sent := c_sent s @ [shell_text [c]]\<rparr>"
  have step: "client_kbd_char env zl n c s = (?s1, Ret ())"
    using Cons.prems b1(1) by (simp add: client_kbd_char_raw client_log_sent_def log_char_fresh Let_def)
  obtain b' where b': "client_kbd_chars env zl n x ?s1 =
      (?s1\<lparr>sent_buf := Some b', c_out := c_out ?s1 @ echo_text x, c_sent := c_sent ?s1 @ map (\<lambda>c. [c]) (shell_text x)\<rparr>, Ret ())"
      "fresh_buf b'" "logged b' = logged b1 @ log_text x"
    using Cons.IH [of ?s1 b1] Cons.prems b1(2) len by auto
  show ?case using b' b1(3) step by (intro exI [of _ b']) (simp add: echo_text_def shell_text_def log_text_def)
qed

lemma client_raw_overflow:
  assumes "\<not> compress_flag s" and "ce_peer env" and "log_flag s" and "sent_buf s = Some b" and "fresh_buf b"
    and "CLIENT_READ_SIZE < bf_load b + int (length x)"
  shows "snd (client_kbd_chars env zl n x s) = SegFault"
proof -
  define k where "k = nat (CLIENT_READ_SIZE - bf_load b)"
  have k: "k < length x" "bf_load b + int k = CLIENT_READ_SIZE" using assms(5,6) by (auto simp: k_def fresh_buf_def)
  obtain c rest where x: "x = take k x @ c # rest" using id_take_nth_drop [OF k(1)] by blast
  have "bf_load b + int (length (take k x)) \<le> CLIENT_READ_SIZE" using k by simp
  from client_raw_log [OF assms(1-5) this, of zl n] obtain b' where b':
    "client_kbd_chars env zl n (take k x) s = (s\<lparr>sent_buf := Some b', c_out := c_out s @ echo_text (take k x),
       c_sent := c_sent s @ map (\<lambda>c. [c]) (shell_text (take k x))\<rparr>, Ret ())"
    "fresh_buf b'" "logged b' = logged b @ log_text (take k x)" by blast
  have "bf_load b' = CLIENT_READ_SIZE"
    using length_logged [OF b'(2)] length_logged [OF assms(5)] b'(3) k by (simp add: log_text_def)
  then have full: "buf_put [c'] b' = SegFault" for c' using b'(2) by (intro buf_put_full) auto
  have app: "client_kbd_chars env zl n (u @ v) s =
      (case client_kbd_chars env zl n u s of (s', Ret _) \<Rightarrow> client_kbd_chars env zl n v s' | (s', r) \<Rightarrow> (s', r))" for u v s
    by (induction u arbitrary: s) (auto split: prod.splits outcome.splits)
  show ?thesis
    by (subst x, subst app) (use assms b' full in \<open>simp add: client_kbd_char_raw client_log_sent_def log_char_fresh Let_def\<close>)
qed

subsection \<open>Data from the server\<close>

lemma show_chars_eq:
  "show_chars x s = (let y = takeWhile (\<lambda>c. c \<noteq> ctrl_D) x in
     (s\<lparr>c_out := c_out s @ filter (\<lambda>c. c \<noteq> lf_char) y,
        c_err := c_err s @ concat (map (\<lambda>_. [cr_char, lf_char]) (filter (\<lambda>c. c = lf_char) y)) @
          (if ctrl_D \<in> set x then ''Connection closed'' @ [lf_char] else [])\<rparr>,
      if ctrl_D \<in> set x then Exit 0 else Ret ()))"
  by (induction x arbitrary: s) (auto simp: Let_def)

text \<open>The log of received data takes the packet as it arrived, or overflows.\<close>

lemma client_log_recv_eq:
  assumes "log_flag s" and "recv_buf s = Some b" and "fresh_buf b" and "int (length bs) \<le> CLIENT_READ_SIZE"
  shows "if bf_load b + int (length bs) \<le> CLIENT_READ_SIZE
    then \<exists>b'. client_log_recv env bs s = Ret (s\<lparr>recv_buf := Some b'\<rparr>) \<and> fresh_buf b' \<and> logged b' = logged b @ bs
    else client_log_recv env bs s = SegFault"
proof (cases "bf_load b + int (length bs) \<le> CLIENT_READ_SIZE")
  case True
  with buf_put_fresh [OF assms(3) True] assms show ?thesis by (auto simp: client_log_recv_def log_block_fresh)
next
  case False
  with buf_put_full [OF assms(3), of bs] assms show ?thesis by (simp add: client_log_recv_def log_block_fresh)
qed

subsection \<open>Shutdown\<close>

lemma log_record_logged:
  assumes "CHR 0x00 \<notin> set (logged b)"
  shows "\<exists>junk. log_record tag b = tag @ '' '' @ fmt_d (bf_load b) @ '' bytes: '' @ logged b @ junk @ [lf_char]"
proof -
  have "takeWhile (\<lambda>c. c \<noteq> CHR 0x00) (logged b @ y) = logged b @ takeWhile (\<lambda>c. c \<noteq> CHR 0x00) y" for y
    using assms by (intro takeWhile_append2) auto
  from this [of "drop (nat (bf_load b)) (bf_data b)"]
  have "buf_text b = logged b @ takeWhile (\<lambda>c. c \<noteq> CHR 0x00) (drop (nat (bf_load b)) (bf_data b))"
    by (simp add: buf_text_def logged_def)
  then show ?thesis by (simp add: log_record_def)
qed

text \<open>
  What the options leave: both buffers exist when logging is on, the terminal and its
  saved settings are untouched.
\<close>

definition client_opts_ok :: "termios \<Rightarrow> 'z c_sys \<Rightarrow> bool" where
  "client_opts_ok tty s \<longleftrightarrow>
     (log_flag s \<longrightarrow> sent_buf s \<noteq> None \<and> recv_buf s \<noteq> None) \<and> c_tty s = tty \<and>
     c_saved s = \<lparr>c_iflag = 0, c_oflag = 0, c_lflag = 0\<rparr>"

lemma client_opt_ok: "client_opts_ok tty s \<Longrightarrow> client_opt env zl e s = Ret s' \<Longrightarrow> client_opts_ok tty s'"
  unfolding client_opt_def client_opts_ok_def client_set_flag_def client_zip_init_def
  by (auto simp: Let_def obind_Ret_iff client_long_options_def split: if_splits option.splits)

lemma client_opts_keep: "client_opts_ok tty s \<Longrightarrow> client_opts env zl es s = Ret s' \<Longrightarrow> client_opts_ok tty s'"
  by (induction es arbitrary: s) (auto simp: obind_Ret_iff intro: client_opt_ok)

lemma client_opt_handler_ok:
  "client_opt_handler env zl argv (c_sys_init tty) = Ret s \<Longrightarrow> client_opts_ok tty s"
  unfolding client_opt_handler_def obind_Ret_iff
  by (auto split: if_splits elim!: client_opts_keep [rotated]) (simp add: client_opts_ok_def c_sys_init_def)

lemma shutdown_client_Exit:
  assumes "client_opts_ok tty s" and "ce_tcset env"
  shows "\<exists>s'. shutdown_client env c s = (s', Exit c) \<and> c_tty s' = c_saved s"
  using assms by (auto simp: shutdown_client_def client_restore_tty_def client_opts_ok_def Let_def)

end
