(* ===== verification/Lab1bServer.thy ===== *)
theory Lab1bServer
  imports Lab1bClient
begin

text \<open>
  \<open>CS111/project1/project1b/lab1b-server.c\<close>: the server of the remote shell. It forks a
  shell for a connection, forwards the client's characters to it and its output to the
  client, optionally through zlib. Compression, terminal characters and the set-up of the
  pipes are those of the client and of \<open>lab1a.c\<close>, modelled here from the server's own code.
\<close>

subsection \<open>State\<close>

definition SIGHUP :: int where "SIGHUP = 1"

text \<open>
  \<open>v_kern\<close> is the number of bytes in the pipe \<open>kerntosock\<close>, which nobody reads; \<open>v_sent\<close> are
  the packets sent to the client, \<open>v_stdout\<close> what \<open>dprintf\<close> writes to the server's own
  standard output (its debugging notices through \<open>stdio\<close> are left out), \<open>v_err\<close> the report
  on the shell.
\<close>

record 'z v_sys =
  v_compress :: bool
  v_port :: bool
  v_serv_port :: int
  v_prgm :: string
  v_fds :: fdtab
  v_pw :: int
  v_pr :: int
  v_cpid :: int
  vz_in :: "'z option"
  vz_out :: "'z option"
  v_to_shell :: string
  v_stdout :: string
  v_kern :: nat
  v_sent :: "string list"
  v_kills :: "(int \<times> int) list"
  v_err :: string

record v_env =
  ve_junk :: string
  ve_sock :: bool
  ve_bind :: bool
  ve_listen :: bool
  ve_fork :: "int option"
  ve_reads :: bool
  ve_kill :: bool
  ve_peer :: bool
  ve_send :: bool
  ve_wait :: "nat option"

definition v_sys_init :: "fdtab \<Rightarrow> 'z v_sys" where
  "v_sys_init t =
     \<lparr>v_compress = False, v_port = False, v_serv_port = 0, v_prgm = ''/bin/bash'', v_fds = t, v_pw = - 1, v_pr = - 1,
      v_cpid = 0, vz_in = None, vz_out = None, v_to_shell = [], v_stdout = [], v_kern = 0, v_sent = [],
      v_kills = [], v_err = []\<rparr>"

subsection \<open>Options\<close>

definition server_long_options :: "longopt list" where
  "server_long_options =
     [\<lparr>lo_name = ''port'', lo_arg = required_argument, lo_flag = None, lo_val = CHR ''p''\<rparr>,
      \<lparr>lo_name = ''shell'', lo_arg = required_argument, lo_flag = None, lo_val = CHR ''s''\<rparr>,
      \<lparr>lo_name = ''compress'', lo_arg = no_argument, lo_flag = None, lo_val = CHR ''c''\<rparr>]"

definition server_short_options :: "(char \<times> bool) list" where
  "server_short_options = [(CHR ''p'', True), (CHR ''s'', True), (CHR ''c'', False)]"

definition server_zip_init :: "'z zlib \<Rightarrow> 'z v_sys \<Rightarrow> 'z v_sys outcome" where
  "server_zip_init zl s =
     (case z_inflateInit zl of
        None \<Rightarrow> Exit 1
      | Some zd \<Rightarrow>
          (case z_deflateInit zl of
             None \<Rightarrow> Exit 1
           | Some zc \<Rightarrow> Ret (s\<lparr>vz_in := Some zd, vz_out := Some zc\<rparr>)))"

text \<open>
  \<open>prgm_name\<close> gets the bytes of the argument without its NUL, so as a string it goes on with
  what the heap holds behind them (\<open>ve_junk\<close>).
\<close>

definition server_opt :: "v_env \<Rightarrow> 'z zlib \<Rightarrow> opt_event \<Rightarrow> 'z v_sys \<Rightarrow> 'z v_sys outcome" where
  "server_opt env zl e s =
     (if oe_ret e = CHR ''p'' then
        (case oe_arg e of None \<Rightarrow> SegFault | Some a \<Rightarrow> Ret (s\<lparr>v_port := True, v_serv_port := to_int32 (strtol0 a)\<rparr>))
      else if oe_ret e = CHR ''s'' then
        (case oe_arg e of None \<Rightarrow> SegFault
         | Some a \<Rightarrow> Ret (s\<lparr>v_prgm := a @ takeWhile (\<lambda>c. c \<noteq> CHR 0x00) (ve_junk env)\<rparr>))
      else if oe_ret e = CHR ''c'' then server_zip_init zl (s\<lparr>v_compress := True\<rparr>)
      else Exit 1)"

fun server_opts :: "v_env \<Rightarrow> 'z zlib \<Rightarrow> opt_event list \<Rightarrow> 'z v_sys \<Rightarrow> 'z v_sys outcome" where
  "server_opts env zl [] s = Ret s"
| "server_opts env zl (e # es) s = obind (server_opt env zl e s) (server_opts env zl es)"

definition server_opt_handler :: "v_env \<Rightarrow> 'z zlib \<Rightarrow> string list \<Rightarrow> 'z v_sys \<Rightarrow> 'z v_sys outcome" where
  "server_opt_handler env zl argv s =
     obind (server_opts env zl (getopt_long_all server_short_options server_long_options argv) s) (\<lambda>s.
       if v_port s then Ret s else Exit 1)"

subsection \<open>Starting the shell\<close>

definition server_setstdstreams :: "int \<times> int \<Rightarrow> int \<times> int \<Rightarrow> fdtab \<Rightarrow> fdtab outcome" where
  "server_setstdstreams pipeToChild pipeFromChild t =
     (case (pipeToChild, pipeFromChild) of ((CHILD_READ, PARENT_WRITE), (PARENT_READ, CHILD_WRITE)) \<Rightarrow>
        or_exit (close_fd PARENT_WRITE t) (\<lambda>t.
        or_exit (close_fd PARENT_READ t) (\<lambda>t.
        or_exit (dup2_fd CHILD_READ 0 t) (\<lambda>t.
        or_exit (dup2_fd CHILD_WRITE 1 t) (\<lambda>t.
        or_exit (dup2_fd CHILD_WRITE 2 t) Ret)))))"

definition exec_prgm :: "fdtab \<Rightarrow> shell_fds outcome" where
  "exec_prgm t =
     or_exit (pipe_fd 0 t) (\<lambda>(CHILD_READ, PARENT_WRITE, t).
     or_exit (pipe_fd 1 t) (\<lambda>(PARENT_READ, CHILD_WRITE, t).
       obind (server_setstdstreams (CHILD_READ, PARENT_WRITE) (PARENT_READ, CHILD_WRITE) t) (\<lambda>child.
       or_exit (close_fd CHILD_READ t) (\<lambda>p.
       or_exit (close_fd CHILD_WRITE p) (\<lambda>parent.
         Ret \<lparr>sh_parent = parent, sh_child = child, sh_write = PARENT_WRITE, sh_read = PARENT_READ,
              sh_in = 0, sh_out = 1\<rparr>)))))"

subsection \<open>From the client to the shell\<close>

text \<open>Writing to the shell; without a handler, \<open>SIGPIPE\<close> ends the server.\<close>

definition server_to_shell :: "v_env \<Rightarrow> char \<Rightarrow> 'z v_sys \<Rightarrow> 'z v_sys \<times> unit outcome" where
  "server_to_shell env c s =
     (if v_fds s (v_pw s) = None then (s, Ret ())
      else if \<not> ve_reads env then (s, Killed SIGPIPE)
      else (s\<lparr>v_to_shell := v_to_shell s @ [c]\<rparr>, Ret ()))"

definition server_kill :: "v_env \<Rightarrow> int \<Rightarrow> 'z v_sys \<Rightarrow> 'z v_sys \<times> unit outcome" where
  "server_kill env sig s =
     (if \<not> ve_kill env then (s, Exit 1) else (s\<lparr>v_kills := v_kills s @ [(v_cpid s, sig)]\<rparr>, Ret ()))"

definition server_char :: "v_env \<Rightarrow> char \<Rightarrow> 'z v_sys \<Rightarrow> 'z v_sys \<times> unit outcome" where
  "server_char env recv_char s =
     (if recv_char = cr_char \<or> recv_char = lf_char then server_to_shell env lf_char s
      else if recv_char = ctrl_D then
        (case server_kill env SIGHUP s of
           (s', Ret _) \<Rightarrow>
             (case close_fd (v_pw s') (v_fds s') of None \<Rightarrow> (s', Exit 1) | Some t \<Rightarrow> (s'\<lparr>v_fds := t\<rparr>, Ret ()))
         | (s', r) \<Rightarrow> (s', r))
      else if recv_char = ctrl_C then server_kill env SIGINT s
      else server_to_shell env recv_char s)"

fun server_chars :: "v_env \<Rightarrow> string \<Rightarrow> 'z v_sys \<Rightarrow> 'z v_sys \<times> unit outcome" where
  "server_chars env [] s = (s, Ret ())"
| "server_chars env (c # cs) s =
     (case server_char env c s of (s', Ret _) \<Rightarrow> server_chars env cs s' | (s', r) \<Rightarrow> (s', r))"

text \<open>A packet from the socket, \<open>None\<close> for a failed \<open>read\<close>.\<close>

definition SERVER_READ_SIZE :: nat where "SERVER_READ_SIZE = 16384"

definition server_recv :: "v_env \<Rightarrow> 'z zlib \<Rightarrow> string option \<Rightarrow> 'z v_sys \<Rightarrow> 'z v_sys \<times> unit outcome" where
  "server_recv env zl data s =
     (case data of
        None \<Rightarrow> (s, Exit 1)
      | Some data \<Rightarrow>
          (let bytes = take SERVER_READ_SIZE data in
           if v_compress s then
             (case vz_in s of
                None \<Rightarrow> (s, SegFault)
              | Some z \<Rightarrow>
                  (case z_run (z_inflate zl) z bytes SERVER_READ_SIZE of
                     Ret (z', unzipped) \<Rightarrow> server_chars env unzipped (s\<lparr>vz_in := Some z'\<rparr>)
                   | r \<Rightarrow> (s, obind r (\<lambda>_. Ret ()))))
           else server_chars env bytes s))"

subsection \<open>From the shell to the client\<close>

definition PIPE_BUF_SIZE :: nat where "PIPE_BUF_SIZE = 65536"

definition crlf :: "char \<Rightarrow> string" where
  "crlf c = (if c = lf_char then [cr_char, lf_char] else [c])"

text \<open>
  The copy of the output into the pipe \<open>kerntosock\<close> and to standard output; a write into
  the full pipe never returns, which is the result \<open>None\<close>.
\<close>

fun store_chars :: "string \<Rightarrow> 'z v_sys \<Rightarrow> 'z v_sys option" where
  "store_chars [] s = Some s"
| "store_chars (c # cs) s =
     (if PIPE_BUF_SIZE < v_kern s + length (crlf c) then None
      else store_chars cs (s\<lparr>v_kern := v_kern s + length (crlf c), v_stdout := v_stdout s @ crlf c\<rparr>))"

definition server_send :: "v_env \<Rightarrow> string \<Rightarrow> 'z v_sys \<Rightarrow> 'z v_sys \<times> unit outcome" where
  "server_send env payload s =
     (if \<not> ve_peer env then (s, Killed SIGPIPE)
      else if \<not> ve_send env then (s, Exit 1)
      else (s\<lparr>v_sent := v_sent s @ [payload]\<rparr>, Ret ()))"

text \<open>What is sent is the buffer as it was read; the translated copy stays in the pipe.\<close>

definition get_and_forward_shell_output ::
    "v_env \<Rightarrow> 'z zlib \<Rightarrow> string option \<Rightarrow> 'z v_sys \<Rightarrow> 'z v_sys \<times> unit outcome" where
  "get_and_forward_shell_output env zl data s0 =
     (case data of
        None \<Rightarrow> (s0, Exit 1)
      | Some data \<Rightarrow>
          (let read_buf = take SERVER_READ_SIZE data in
           case store_chars read_buf s0 of
             None \<Rightarrow> (s0, Hang)
           | Some s \<Rightarrow>
               if v_compress s then
                 (case vz_out s of
                    None \<Rightarrow> (s, SegFault)
                  | Some z \<Rightarrow>
                      (case z_run (z_deflate zl) z read_buf SERVER_READ_SIZE of
                         Ret (z', zip_buf) \<Rightarrow> server_send env zip_buf (s\<lparr>vz_out := Some z'\<rparr>)
                       | r \<Rightarrow> (s, obind r (\<lambda>_. Ret ()))))
               else server_send env read_buf s))"

subsection \<open>Shutdown, loop, main\<close>

text \<open>
  The exit handler, run by an \<open>exit\<close> with the code \<open>code\<close>. Without a child (\<open>v_cpid\<close> is 0, or
  -1 after a failed \<open>fork\<close>) \<open>waitpid\<close> fails, and the handler calls \<open>exit(1)\<close>.
\<close>

definition shutdown_server :: "v_env \<Rightarrow> int \<Rightarrow> 'z v_sys \<Rightarrow> 'z v_sys \<times> unit outcome" where
  "shutdown_server env code s =
     (case (if v_cpid s \<le> 0 then None else ve_wait env) of
        None \<Rightarrow> (s, Exit 1)
      | Some status \<Rightarrow>
          (s\<lparr>v_err := v_err s @ ''SHELL EXIT SIGNAL='' @ fmt_d (int (status mod 128)) @
              '' STATUS='' @ fmt_d (int (status div 256 mod 256)) @ [lf_char],
            v_kills := v_kills s @ [(v_cpid s, 9)]\<rparr>, Exit code))"

record v_poll =
  vp_fail :: bool
  vp_sock :: "string option option"
  vp_shell :: "string option option"
  vp_hup :: bool

definition server_round :: "v_env \<Rightarrow> 'z zlib \<Rightarrow> v_poll \<Rightarrow> 'z v_sys \<Rightarrow> 'z v_sys \<times> unit outcome" where
  "server_round env zl ev s =
     (if vp_fail ev then (s, Exit 1)
      else case (case vp_sock ev of None \<Rightarrow> (s, Ret ()) | Some d \<Rightarrow> server_recv env zl d s) of
        (s, Ret _) \<Rightarrow>
          (case (case vp_shell ev of None \<Rightarrow> (s, Ret ()) | Some d \<Rightarrow> get_and_forward_shell_output env zl d s) of
             (s, Ret _) \<Rightarrow> (s, if vp_hup ev then Exit 1 else Ret ())
           | (s, r) \<Rightarrow> (s, r))
      | (s, r) \<Rightarrow> (s, r))"

fun server_loop :: "v_env \<Rightarrow> 'z zlib \<Rightarrow> v_poll list \<Rightarrow> 'z v_sys \<Rightarrow> 'z v_sys \<times> unit outcome" where
  "server_loop env zl [] s = (s, Ret ())"
| "server_loop env zl (ev # evs) s =
     (case server_round env zl ev s of (s', Ret _) \<Rightarrow> server_loop env zl evs s' | (s', r) \<Rightarrow> (s', r))"

text \<open>\<open>echo_and_forwrd\<close> first makes its two internal pipes (numbers 2 and 3).\<close>

definition echo_and_forwrd :: "v_env \<Rightarrow> 'z zlib \<Rightarrow> v_poll list \<Rightarrow> 'z v_sys \<Rightarrow> 'z v_sys \<times> unit outcome" where
  "echo_and_forwrd env zl evs s =
     (case pipe_fd 2 (v_fds s) of
        None \<Rightarrow> (s, Exit 1)
      | Some (_, _, t) \<Rightarrow>
          (case pipe_fd 3 t of
             None \<Rightarrow> (s, Exit 1)
           | Some (_, _, t) \<Rightarrow> server_loop env zl evs (s\<lparr>v_fds := t\<rparr>)))"

text \<open>
  \<open>main\<close>: options, listening, and the first accepted connection (\<open>accept\<close> is retried
  when it fails), which gets its shell and the loop.
\<close>

definition server_listen :: "v_env \<Rightarrow> unit outcome" where
  "server_listen env =
     (if \<not> ve_sock env then Exit 1 else if \<not> ve_bind env then Exit 1 else if \<not> ve_listen env then Exit 1 else Ret ())"

definition server_connect :: "v_env \<Rightarrow> 'z v_sys \<Rightarrow> 'z v_sys \<times> unit outcome" where
  "server_connect env s =
     (case exec_prgm (v_fds s) of
        Ret fds \<Rightarrow>
          (case ve_fork env of
             None \<Rightarrow> (s\<lparr>v_cpid := - 1\<rparr>, Exit 1)
           | Some pid \<Rightarrow>
               (s\<lparr>v_fds := sh_parent fds, v_pw := sh_write fds, v_pr := sh_read fds, v_cpid := pid\<rparr>, Ret ()))
      | r \<Rightarrow> (s, obind r (\<lambda>_. Ret ())))"

definition server_main :: "v_env \<Rightarrow> 'z zlib \<Rightarrow> string list \<Rightarrow> v_poll list \<Rightarrow> 'z v_sys \<Rightarrow> 'z v_sys \<times> unit outcome" where
  "server_main env zl argv evs s0 =
     (case server_opt_handler env zl argv s0 of
        Ret s \<Rightarrow>
          (case (case server_listen env of
                   Ret _ \<Rightarrow>
                     (case server_connect env s of
                        (s1, Ret _) \<Rightarrow> echo_and_forwrd env zl evs s1
                      | (s1, r) \<Rightarrow> (s1, r))
                 | r \<Rightarrow> (s, r)) of
             (s2, Exit c) \<Rightarrow> shutdown_server env c s2
           | (s2, r) \<Rightarrow> (s2, r))
      | r \<Rightarrow> (s0, obind r (\<lambda>_. Ret ())))"

subsection \<open>The shell's pipes\<close>

lemma server_setstdstreams_eq: "server_setstdstreams = setstdstreams"
  by (simp add: fun_eq_iff server_setstdstreams_def setstdstreams_def)

lemma exec_prgm_eq: "exec_prgm = start_shell"
  by (simp add: fun_eq_iff exec_prgm_def start_shell_def server_setstdstreams_eq)

interpretation server: shell_starter exec_prgm
  by unfold_locales (simp add: exec_prgm_eq lab1a.start_wired)

subsection \<open>Forwarding to the shell\<close>

lemma shell_text_append [simp]: "shell_text (x @ y) = shell_text x @ shell_text y"
  by (simp add: shell_text_def)

lemma shell_text_idem [simp]: "shell_text (shell_text x) = shell_text x"
  by (simp add: shell_text_def cr_char_def lf_char_def)

lemma plain_append [simp]: "plain (x @ y) \<longleftrightarrow> plain x \<and> plain y"
  by (auto simp: plain_def)

lemma plain_shell_text [simp]: "plain (shell_text x) = plain x"
  by (auto simp: plain_def shell_text_def ctrl_C_def ctrl_D_def cr_char_def lf_char_def image_iff split: if_splits)

lemma server_chars_shell:
  assumes "plain x" and "v_fds s (v_pw s) \<noteq> None" and "ve_reads env"
  shows "server_chars env x s = (s\<lparr>v_to_shell := v_to_shell s @ shell_text x\<rparr>, Ret ())"
  using assms(1,2)
proof (induction x arbitrary: s)
  case (Cons c x)
  then show ?case using assms(3) by (auto simp: server_char_def server_to_shell_def shell_text_def plain_def)
qed (simp add: shell_text_def)

text \<open>A round in which only a packet from the client arrives.\<close>

definition sock_packet :: "string \<Rightarrow> v_poll" where
  "sock_packet p = \<lparr>vp_fail = False, vp_sock = Some (Some p), vp_shell = None, vp_hup = False\<rparr>"

lemma server_round_packet:
  "server_recv env zl (Some p) s = (s', Ret ()) \<Longrightarrow>
     server_round env zl (sock_packet p) s = (s', Ret ())"
  by (simp add: server_round_def sock_packet_def)

lemma server_loop_raw:
  assumes "\<not> v_compress s" and "v_fds s (v_pw s) \<noteq> None" and "ve_reads env"
    and "plain (concat ps)" and "list_all (\<lambda>p. length p \<le> SERVER_READ_SIZE) ps"
  shows "server_loop env zl (map sock_packet ps) s = (s\<lparr>v_to_shell := v_to_shell s @ shell_text (concat ps)\<rparr>, Ret ())"
  using assms
proof (induction ps arbitrary: s)
  case (Cons p ps)
  have "server_recv env zl (Some p) s = (s\<lparr>v_to_shell := v_to_shell s @ shell_text p\<rparr>, Ret ())"
    using Cons.prems by (simp add: server_recv_def server_chars_shell)
  with Cons show ?case by (simp add: server_round_packet)
qed (simp add: shell_text_def)

subsection \<open>Shell output\<close>

lemma crlf_text_Cons: "crlf_text (c # x) = crlf c @ crlf_text x"
  by (simp add: crlf_text_def crlf_def)

lemma crlf_text_append: "crlf_text (x @ y) = crlf_text x @ crlf_text y"
  by (simp add: crlf_text_def)

lemma store_chars_eq:
  assumes "v_kern s \<le> PIPE_BUF_SIZE"
  shows "store_chars x s =
    (if v_kern s + length (crlf_text x) \<le> PIPE_BUF_SIZE
     then Some (s\<lparr>v_kern := v_kern s + length (crlf_text x), v_stdout := v_stdout s @ crlf_text x\<rparr>) else None)"
  using assms
proof (induction x arbitrary: s)
  case (Cons c x)
  then show ?case by (simp add: crlf_text_Cons add.assoc)
qed (simp add: crlf_text_def)

text \<open>A round in which only the shell has written.\<close>

definition shell_output :: "string \<Rightarrow> v_poll" where
  "shell_output y = \<lparr>vp_fail = False, vp_sock = None, vp_shell = Some (Some y), vp_hup = False\<rparr>"

lemma server_forward_raw:
  assumes "\<not> v_compress s" and "ve_peer env" and "ve_send env" and "v_kern s \<le> PIPE_BUF_SIZE"
    and "length y \<le> SERVER_READ_SIZE"
  shows "get_and_forward_shell_output env zl (Some y) s =
    (if v_kern s + length (crlf_text y) \<le> PIPE_BUF_SIZE
     then (s\<lparr>v_kern := v_kern s + length (crlf_text y), v_stdout := v_stdout s @ crlf_text y, v_sent := v_sent s @ [y]\<rparr>, Ret ())
     else (s, Hang))"
  using assms by (simp add: get_and_forward_shell_output_def store_chars_eq server_send_def)

lemma server_loop_output:
  assumes "\<not> v_compress s" and "ve_peer env" and "ve_send env" and "v_kern s \<le> PIPE_BUF_SIZE"
    and "list_all (\<lambda>y. length y \<le> SERVER_READ_SIZE) ys"
  shows "if v_kern s + length (crlf_text (concat ys)) \<le> PIPE_BUF_SIZE
    then \<exists>s'. server_loop env zl (map shell_output ys) s = (s', Ret ()) \<and> v_sent s' = v_sent s @ ys
    else snd (server_loop env zl (map shell_output ys) s) = Hang"
  using assms
proof (induction ys arbitrary: s)
  case Nil
  then show ?case by (simp add: crlf_text_def)
next
  case (Cons y ys)
  let ?s1 = "s\<lparr>v_kern := v_kern s + length (crlf_text y), v_stdout := v_stdout s @ crlf_text y, v_sent := v_sent s @ [y]\<rparr>"
  have fw: "get_and_forward_shell_output env zl (Some y) s =
      (if v_kern s + length (crlf_text y) \<le> PIPE_BUF_SIZE then (?s1, Ret ()) else (s, Hang))"
    using Cons.prems by (intro server_forward_raw) auto
  show ?case
  proof (cases "v_kern s + length (crlf_text y) \<le> PIPE_BUF_SIZE")
    case True
    with fw have "server_loop env zl (map shell_output (y # ys)) s = server_loop env zl (map shell_output ys) ?s1"
      by (simp add: server_round_def shell_output_def)
    moreover have "v_sent ?s1 = v_sent s @ [y]" by simp
    ultimately show ?thesis using Cons.IH [of ?s1] Cons.prems True
      by (cases "v_kern s + (length (crlf_text y) + length (crlf_text (concat ys))) \<le> PIPE_BUF_SIZE")
        (auto simp: crlf_text_append add.assoc)
  next
    case False
    with fw have "server_loop env zl (map shell_output (y # ys)) s = (s, Hang)"
      by (simp add: server_round_def shell_output_def)
    with False show ?thesis by (simp add: crlf_text_append)
  qed
qed

subsection \<open>Client and server together\<close>

text \<open>A round of the client in which one key is pressed.\<close>

definition key_press :: "char \<Rightarrow> c_poll" where
  "key_press c = \<lparr>cp_fail = False, cp_kbd = Some (Some [c]), cp_hup = False, cp_sock = None\<rparr>"

lemma client_round_key:
  "client_kbd_char env zl 1 c s = (s', Ret ()) \<Longrightarrow> client_round env zl (key_press c) s = (s', Ret ())"
  by (simp add: client_round_def key_press_def CLIENT_READ_SIZE_def Let_def)

lemma client_loop_raw:
  assumes "\<not> compress_flag s" and "ce_peer env" and "\<not> log_flag s"
  shows "client_loop env zl (map key_press x) s =
    (s\<lparr>c_out := c_out s @ echo_text x, c_sent := c_sent s @ map (\<lambda>c. [c]) (shell_text x)\<rparr>, Ret ())"
  using assms
proof (induction x arbitrary: s)
  case (Cons c x)
  have "client_kbd_char env zl 1 c s = (s\<lparr>c_out := c_out s @ echo_text [c], c_sent := c_sent s @ [shell_text [c]]\<rparr>, Ret ())"
    using Cons.prems by (simp add: client_kbd_char_raw client_log_sent_def Let_def)
  with Cons show ?case by (simp add: client_round_key) (simp add: echo_text_def shell_text_def)
qed (simp add: echo_text_def shell_text_def)

lemma concat_singletons [simp]: "concat (map (\<lambda>c. [c]) x) = x"
  by (induction x) auto

lemma client_server_zip:
  assumes "zlib_ok zl sync n (nat CLIENT_READ_SIZE)" and "0 < n"
    and "compress_flag s" and "\<not> log_flag s" and "ce_peer env" and "cz_out s = Some zc"
    and "v_compress v" and "vz_in v = Some zd" and "v_fds v (v_pw v) \<noteq> None" and "ve_reads env'"
    and "sync zc zd" and "plain x"
  shows "\<exists>ps zc' zd'. client_loop env zl (map key_press x) s =
      (s\<lparr>c_out := c_out s @ echo_text x, c_sent := c_sent s @ ps, cz_out := Some zc'\<rparr>, Ret ()) \<and>
    server_loop env' zl (map sock_packet ps) v = (v\<lparr>v_to_shell := v_to_shell v @ shell_text x, vz_in := Some zd'\<rparr>, Ret ()) \<and>
    sync zc' zd'"
  using assms(3-4,6-9,11,12)
proof (induction x arbitrary: s v zc zd)
  case Nil
  then have "s = s\<lparr>cz_out := Some zc\<rparr>" and "v = v\<lparr>vz_in := Some zd\<rparr>" by simp_all
  with Nil show ?case
    by (intro exI [of _ "[]"] exI [of _ zc] exI [of _ zd]) (simp add: echo_text_def shell_text_def)
next
  case (Cons c x)
  obtain zc1 zd1 p where z: "z_run (z_deflate zl) zc [c] (nat CLIENT_READ_SIZE) = Ret (zc1, p)" "length p \<le> nat CLIENT_READ_SIZE"
      "z_run (z_inflate zl) zd p (nat CLIENT_READ_SIZE) = Ret (zd1, [c])" "sync zc1 zd1"
    using zlib_okE [OF assms(1) Cons.prems(7), of "[c]"] assms(2) by (metis One_nat_def Suc_leI length_Cons list.distinct(1) list.size(3))
  let ?s1 = "s\<lparr>c_out := c_out s @ echo_text [c], cz_out := Some zc1, c_sent := c_sent s @ [p]\<rparr>"
  let ?v1 = "v\<lparr>vz_in := Some zd1, v_to_shell := v_to_shell v @ shell_text [c]\<rparr>"
  have cl: "client_kbd_char env zl 1 c s = (?s1, Ret ())"
    using Cons.prems(1-3) z(1) assms(5)
    by (simp add: client_kbd_char_def client_send_zip_def client_log_sent_def client_send_def Let_def echo_text_def)
  have sv: "server_recv env' zl (Some p) v = (?v1, Ret ())"
    using Cons.prems z(2,3) assms(10) server_chars_shell [of "[c]" "v\<lparr>vz_in := Some zd1\<rparr>" env']
    by (simp add: server_recv_def SERVER_READ_SIZE_def CLIENT_READ_SIZE_def plain_def)
  have "plain x" using Cons.prems(8) by (simp add: plain_def)
  from Cons.IH [of ?s1 zc1 ?v1 zd1] Cons.prems z(4) this obtain ps zc' zd' where
    "client_loop env zl (map key_press x) ?s1 =
      (?s1\<lparr>c_out := c_out ?s1 @ echo_text x, c_sent := c_sent ?s1 @ ps, cz_out := Some zc'\<rparr>, Ret ())"
    "server_loop env' zl (map sock_packet ps) ?v1 =
      (?v1\<lparr>v_to_shell := v_to_shell ?v1 @ shell_text x, vz_in := Some zd'\<rparr>, Ret ())" "sync zc' zd'" by auto
  with cl sv show ?case
    by (intro exI [of _ "p # ps"] exI [of _ zc'] exI [of _ zd'])
      (simp add: client_round_key server_round_packet, simp add: echo_text_def shell_text_def)
qed

end
