(* ===== verification/Locks.thy ===== *)
theory Locks
  imports Prelude
begin

text \<open>
  The synchronisation primitives of the threaded programs: the pthread mutex, the
  spin lock built on GCC's \<open>__sync_lock_test_and_set\<close> and \<open>__sync_lock_release\<close>,
  and \<open>__sync_val_compare_and_swap\<close>. The locale \<open>mutual_exclusion\<close> is the contract
  the programs rely on; both locks are interpreted in it.
\<close>

type_synonym tid = nat

subsection \<open>Mutex\<close>

type_synonym mutex = "tid option"

definition mutex_lock :: "mutex \<Rightarrow> tid \<Rightarrow> mutex \<times> bool" where
  "mutex_lock m t = (case m of None \<Rightarrow> (Some t, True) | Some u \<Rightarrow> (Some u, False))"

definition mutex_unlock :: "mutex \<Rightarrow> tid \<Rightarrow> mutex" where
  "mutex_unlock m t = None"

subsection \<open>Spin lock\<close>

text \<open>
  \<open>__sync_lock_test_and_set(&l, 1)\<close> stores 1 and returns the old value; the lock is
  taken when that was 0.
\<close>

definition sync_lock_test_and_set :: "int \<Rightarrow> tid \<Rightarrow> int \<times> bool" where
  "sync_lock_test_and_set l t = (1, l = 0)"

definition sync_lock_release :: "int \<Rightarrow> tid \<Rightarrow> int" where
  "sync_lock_release l t = 0"

text \<open>Compare and swap: the new value of the cell and the value it held.\<close>

definition sync_val_compare_and_swap :: "'a \<Rightarrow> 'a \<Rightarrow> 'a \<Rightarrow> 'a \<times> 'a" where
  "sync_val_compare_and_swap cur old new = (if cur = old then new else cur, cur)"

subsection \<open>The contract of a lock\<close>

text \<open>
  \<open>lock_inv b C\<close>: at most one thread is in the set \<open>C\<close> of threads inside the critical
  section, and the lock is taken exactly when there is one.
\<close>

definition lock_inv :: "bool \<Rightarrow> tid set \<Rightarrow> bool" where
  "lock_inv b C \<longleftrightarrow> (b \<longleftrightarrow> C \<noteq> {}) \<and> (\<forall>t \<in> C. \<forall>u \<in> C. t = u)"

locale mutual_exclusion =
  fixes locked :: "'l \<Rightarrow> bool"
    and acquire :: "'l \<Rightarrow> tid \<Rightarrow> 'l \<times> bool"
    and release :: "'l \<Rightarrow> tid \<Rightarrow> 'l"
    and initial :: 'l
  assumes initial_free: "\<not> locked initial"
    and acquire_free: "\<not> locked l \<Longrightarrow> snd (acquire l t)"
    and acquire_got: "snd (acquire l t) \<Longrightarrow> \<not> locked l"
    and acquire_locks: "locked (fst (acquire l t))"
    and release_frees: "\<not> locked (release l t)"
begin

lemma inv_initial: "lock_inv (locked initial) {}"
  by (simp add: lock_inv_def initial_free)

lemma inv_acquire:
  "lock_inv (locked l) C \<Longrightarrow> acquire l t = (l', True) \<Longrightarrow> lock_inv (locked l') (insert t C)"
  using acquire_got [of l t] acquire_locks [of l t] by (auto simp: lock_inv_def)

lemma inv_busy:
  "lock_inv (locked l) C \<Longrightarrow> acquire l t = (l', False) \<Longrightarrow> lock_inv (locked l') C"
  using acquire_free [of l t] acquire_locks [of l t] by (auto simp: lock_inv_def)

lemma inv_release:
  "lock_inv (locked l) C \<Longrightarrow> t \<in> C \<Longrightarrow> lock_inv (locked (release l t)) (C - {t})"
  using release_frees [of l t] by (auto simp: lock_inv_def)

lemma acquire_iff: "snd (acquire l t) \<longleftrightarrow> \<not> locked l"
  using acquire_free acquire_got by blast

end

lemma lock_inv_unique: "lock_inv b C \<Longrightarrow> t \<in> C \<Longrightarrow> u \<in> C \<Longrightarrow> t = u"
  by (auto simp: lock_inv_def)

interpretation pmutex: mutual_exclusion "\<lambda>m. m \<noteq> None" mutex_lock mutex_unlock None
  by unfold_locales (auto simp: mutex_lock_def mutex_unlock_def split: option.splits)

interpretation spin: mutual_exclusion "\<lambda>l. l \<noteq> 0" sync_lock_test_and_set sync_lock_release 0
  by unfold_locales (auto simp: sync_lock_test_and_set_def sync_lock_release_def)

end
