(* ===== verification/Lab2Add.thy ===== *)
theory Lab2Add
  imports Getopt Locks
begin

text \<open>
  \<open>CS111/project2/Part_1/lab2_add.c\<close>: threads that add 1 and then subtract 1 from a
  shared counter, unsynchronised or under a mutex, a spin lock or compare-and-swap.
  A thread is a small machine whose steps are the single accesses to shared memory; the
  scheduler is the relation \<open>add_step\<close>, which lets any created thread move.
\<close>

subsection \<open>Globals and options\<close>

record add_cfg =
  ac_threads :: int
  ac_iterations :: int
  ac_yield :: bool
  ac_sync :: char

definition add_defaults :: add_cfg where
  "add_defaults = \<lparr>ac_threads = 1, ac_iterations = 1, ac_yield = False, ac_sync = CHR ''n''\<rparr>"

definition add_get_tag :: "add_cfg \<Rightarrow> string outcome" where
  "add_get_tag c =
     (if ac_yield c then
        (if ac_sync c = CHR ''n'' then Ret ''add-yield-none''
         else if ac_sync c = CHR ''m'' then Ret ''add-yield-m''
         else if ac_sync c = CHR ''s'' then Ret ''add-yield-s''
         else if ac_sync c = CHR ''c'' then Ret ''add-yield-c''
         else Exit 2)
      else
        (if ac_sync c = CHR ''n'' then Ret ''add-none''
         else if ac_sync c = CHR ''m'' then Ret ''add-m''
         else if ac_sync c = CHR ''s'' then Ret ''add-s''
         else if ac_sync c = CHR ''c'' then Ret ''add-c''
         else Exit 2))"

definition add_long_options :: "longopt list" where
  "add_long_options =
     [\<lparr>lo_name = ''threads'', lo_arg = required_argument, lo_flag = None, lo_val = CHR ''t''\<rparr>,
      \<lparr>lo_name = ''iterations'', lo_arg = required_argument, lo_flag = None, lo_val = CHR ''i''\<rparr>,
      \<lparr>lo_name = ''yield'', lo_arg = no_argument, lo_flag = None, lo_val = CHR ''y''\<rparr>,
      \<lparr>lo_name = ''sync'', lo_arg = required_argument, lo_flag = None, lo_val = CHR ''s''\<rparr>]"

definition add_short_options :: "(char \<times> bool) list" where
  "add_short_options = [(CHR ''t'', True), (CHR ''i'', True), (CHR ''y'', False), (CHR ''s'', True)]"

definition add_sync_option :: "string \<Rightarrow> add_cfg \<Rightarrow> add_cfg outcome" where
  "add_sync_option arg c =
     (case arg of
        [a] \<Rightarrow> if a = CHR ''m'' \<or> a = CHR ''s'' \<or> a = CHR ''c'' then Ret (c\<lparr>ac_sync := a\<rparr>) else Exit 2
      | _ \<Rightarrow> Exit 2)"

fun add_opt :: "opt_event \<Rightarrow> add_cfg \<Rightarrow> add_cfg outcome" where
  "add_opt e c =
     (if oe_ret e = CHR ''t'' then
        (case oe_arg e of None \<Rightarrow> SegFault | Some a \<Rightarrow> Ret (c\<lparr>ac_threads := to_int32 (strtol0 a)\<rparr>))
      else if oe_ret e = CHR ''i'' then
        (case oe_arg e of None \<Rightarrow> SegFault | Some a \<Rightarrow> Ret (c\<lparr>ac_iterations := to_int32 (strtol0 a)\<rparr>))
      else if oe_ret e = CHR ''y'' then Ret (c\<lparr>ac_yield := True\<rparr>)
      else if oe_ret e = CHR ''s'' then
        (case oe_arg e of None \<Rightarrow> SegFault | Some a \<Rightarrow> add_sync_option a c)
      else Exit 1)"

fun add_opts :: "opt_event list \<Rightarrow> add_cfg \<Rightarrow> add_cfg outcome" where
  "add_opts [] c = Ret c"
| "add_opts (e # es) c = obind (add_opt e c) (add_opts es)"

definition add_get_opts :: "string list \<Rightarrow> add_cfg outcome" where
  "add_get_opts argv = add_opts (getopt_long_all add_short_options add_long_options argv) add_defaults"

subsection \<open>A thread: add and add_thrd\<close>

text \<open>
  The program points of \<open>add_thrd\<close> and of the call of \<open>add\<close> it is in. \<open>at_loop\<close> is
  0 in the first loop (value 1), 1 in the second (value -1) and 2 after both.
\<close>

datatype add_pc = LoopTest | Switch | Lock | Tas | Spin | Load | Store | Unlock | CasLoad | Cas

record add_thread =
  at_loop :: nat
  at_i :: nat
  at_pc :: add_pc
  at_sum :: u64
  at_old :: u64

record add_sys =
  counter :: u64
  lock_s :: int
  mymutex :: mutex
  created :: nat
  thr :: "tid \<Rightarrow> add_thread"

definition add_thread_init :: add_thread where
  "add_thread_init = \<lparr>at_loop = 0, at_i = 0, at_pc = LoopTest, at_sum = 0, at_old = 0\<rparr>"

definition add_sys_init :: add_sys where
  "add_sys_init = \<lparr>counter = 0, lock_s = 0, mymutex = None, created = 0, thr = (\<lambda>_. add_thread_init)\<rparr>"

definition add_value :: "add_thread \<Rightarrow> int" where
  "add_value th = (if at_loop th = 0 then 1 else - 1)"

text \<open>\<open>add\<close> returns: the loop increments \<open>i\<close> and tests again.\<close>

definition add_return :: "add_thread \<Rightarrow> add_thread" where
  "add_return th = th\<lparr>at_i := Suc (at_i th), at_pc := LoopTest\<rparr>"

definition set_thr :: "tid \<Rightarrow> add_thread \<Rightarrow> add_sys \<Rightarrow> add_sys" where
  "set_thr t th s = s\<lparr>thr := (thr s)(t := th)\<rparr>"

definition goto :: "add_pc \<Rightarrow> add_thread \<Rightarrow> add_thread" where
  "goto pc th = th\<lparr>at_pc := pc\<rparr>"

text \<open>The dispatch of \<open>add\<close> on \<open>sync_type\<close>; an unknown type makes it return at once.\<close>

definition add_switch :: "char \<Rightarrow> add_thread \<Rightarrow> add_thread" where
  "add_switch sync th =
     (if sync = CHR ''n'' then goto Load th
      else if sync = CHR ''c'' then goto CasLoad th
      else if sync = CHR ''m'' then goto Lock th
      else if sync = CHR ''s'' then goto Tas th
      else add_return th)"

text \<open>
  One step of thread \<open>t\<close>; \<open>None\<close> when it has returned from \<open>add_thrd\<close> or waits for
  the mutex.
\<close>

definition add_thread_step :: "char \<Rightarrow> nat \<Rightarrow> tid \<Rightarrow> add_sys \<Rightarrow> add_sys option" where
  "add_thread_step sync n t s =
     (let th = thr s t in
      if 2 \<le> at_loop th then None
      else case at_pc th of
        LoopTest \<Rightarrow>
          if at_i th < n then Some (set_thr t (goto Switch th) s)
          else Some (set_thr t (th\<lparr>at_loop := Suc (at_loop th), at_i := 0\<rparr>) s)
      | Switch \<Rightarrow> Some (set_thr t (add_switch sync th) s)
      | Lock \<Rightarrow>
          (case mutex_lock (mymutex s) t of
             (m, got) \<Rightarrow> if got then Some (set_thr t (goto Load th) (s\<lparr>mymutex := m\<rparr>)) else None)
      | Tas \<Rightarrow>
          (case sync_lock_test_and_set (lock_s s) t of
             (l, got) \<Rightarrow> Some (set_thr t (goto (if got then Load else Spin) th) (s\<lparr>lock_s := l\<rparr>)))
      | Spin \<Rightarrow> Some (set_thr t (goto (if lock_s s \<noteq> 0 then Spin else Tas) th) s)
      | Load \<Rightarrow> Some (set_thr t (goto Store (th\<lparr>at_sum := counter s + of_int (add_value th)\<rparr>)) s)
      | Store \<Rightarrow>
          Some (set_thr t (if sync = CHR ''m'' \<or> sync = CHR ''s'' then goto Unlock th else add_return th)
                  (s\<lparr>counter := at_sum th\<rparr>))
      | Unlock \<Rightarrow>
          Some (set_thr t (add_return th)
                  (if sync = CHR ''m'' then s\<lparr>mymutex := mutex_unlock (mymutex s) t\<rparr>
                   else s\<lparr>lock_s := sync_lock_release (lock_s s) t\<rparr>))
      | CasLoad \<Rightarrow>
          Some (set_thr t (goto Cas (th\<lparr>at_old := counter s, at_sum := counter s + of_int (add_value th)\<rparr>)) s)
      | Cas \<Rightarrow>
          (case sync_val_compare_and_swap (counter s) (at_old th) (at_sum th) of
             (c, seen) \<Rightarrow>
               Some (set_thr t (if seen \<noteq> at_old th then goto CasLoad th else add_return th)
                       (s\<lparr>counter := c\<rparr>))))"

subsection \<open>main\<close>

text \<open>\<open>main\<close> creates the threads one by one while the earlier ones already run.\<close>

inductive add_step :: "char \<Rightarrow> nat \<Rightarrow> nat \<Rightarrow> add_sys \<Rightarrow> add_sys \<Rightarrow> bool"
  for sync :: char and n :: nat and N :: nat where
  create: "created s < N \<Longrightarrow> add_step sync n N s (s\<lparr>created := Suc (created s)\<rparr>)"
| run: "t < created s \<Longrightarrow> add_thread_step sync n t s = Some s' \<Longrightarrow> add_step sync n N s s'"

inductive add_reach :: "char \<Rightarrow> nat \<Rightarrow> nat \<Rightarrow> add_sys \<Rightarrow> bool"
  for sync :: char and n :: nat and N :: nat where
  start: "add_reach sync n N add_sys_init"
| step: "add_reach sync n N s \<Longrightarrow> add_step sync n N s s' \<Longrightarrow> add_reach sync n N s'"

text \<open>All threads are created and joined.\<close>

definition add_joined :: "nat \<Rightarrow> add_sys \<Rightarrow> bool" where
  "add_joined N s \<longleftrightarrow> created s = N \<and> (\<forall>t<N. 2 \<le> at_loop (thr s t))"

record timespec =
  tv_sec :: int
  tv_nsec :: int

definition add_get_runtime :: "timespec \<Rightarrow> timespec \<Rightarrow> int" where
  "add_get_runtime t0 t1 =
     to_int64 (to_int64 ((tv_sec t1 - tv_sec t0) * 1000000000) + (tv_nsec t1 - tv_nsec t0))"

text \<open>\<open>get_time\<close>: the reading of the clock, or \<open>exit(1)\<close> when \<open>clock_gettime\<close> fails.\<close>

definition add_get_time :: "timespec option \<Rightarrow> timespec outcome" where
  "add_get_time r = (case r of None \<Rightarrow> Exit 1 | Some ts \<Rightarrow> Ret ts)"

text \<open>The record printed at the end of \<open>main\<close>.\<close>

definition add_report :: "add_cfg \<Rightarrow> timespec \<Rightarrow> timespec \<Rightarrow> u64 \<Rightarrow> string outcome" where
  "add_report c t0 t1 cnt =
     obind (add_get_tag c) (\<lambda>tag.
       let runtime = add_get_runtime t0 t1;
           n_operations = to_int32 (ac_threads c * ac_iterations c * 2) in
       if n_operations = 0 then DivFault
       else Ret (tag @ '','' @ fmt_d (ac_threads c) @ '','' @ fmt_d (ac_iterations c) @ '','' @
                 fmt_d n_operations @ '','' @ fmt_d runtime @ '','' @
                 fmt_d (c_div runtime n_operations) @ '','' @ fmt_d (sint cnt) @ [CHR 0x0A]))"

text \<open>
  \<open>add_main argv clk0 clk1 r\<close>: a run of the program on \<open>argv\<close>, with the two readings
  of the clock \<open>clk0\<close> and \<open>clk1\<close>, can end with \<open>r\<close>: the printed record, or the way it
  stopped before. \<open>pthread_create\<close> may fail for any thread.
\<close>

inductive add_main :: "string list \<Rightarrow> timespec option \<Rightarrow> timespec option \<Rightarrow> string outcome \<Rightarrow> bool" where
  bad_options: "add_get_opts argv = r \<Longrightarrow> (\<And>c. r \<noteq> Ret c) \<Longrightarrow>
    add_main argv clk0 clk1 (obind r (\<lambda>_. Ret []))"
| no_clock0: "add_get_opts argv = Ret c \<Longrightarrow> add_get_time None = r \<Longrightarrow>
    add_main argv None clk1 (obind r (\<lambda>_. Ret []))"
| create_fails: "add_get_opts argv = Ret c \<Longrightarrow> add_get_time clk0 = Ret t0 \<Longrightarrow>
    add_reach (ac_sync c) (nat (ac_iterations c)) (nat (ac_threads c)) s \<Longrightarrow>
    created s < nat (ac_threads c) \<Longrightarrow>
    add_main argv clk0 clk1 (Exit 1)"
| finished: "add_get_opts argv = Ret c \<Longrightarrow> add_get_time clk0 = Ret t0 \<Longrightarrow>
    add_reach (ac_sync c) (nat (ac_iterations c)) (nat (ac_threads c)) s \<Longrightarrow>
    add_joined (nat (ac_threads c)) s \<Longrightarrow>
    add_main argv clk0 clk1 (obind (add_get_time clk1) (\<lambda>t1. add_report c t0 t1 (counter s)))"

subsection \<open>Invariant of the synchronised runs\<close>

text \<open>
  What a thread has added to the counter so far; in the critical section of a lock the
  store counts once it has happened.
\<close>

definition contrib :: "nat \<Rightarrow> add_thread \<Rightarrow> int" where
  "contrib n th =
     (if at_loop th = 0 then int (at_i th) else if at_loop th = 1 then int n - int (at_i th) else 0) +
     (if at_pc th = Unlock then add_value th else 0)"

definition in_cs :: "add_thread \<Rightarrow> bool" where
  "in_cs th \<longleftrightarrow> at_pc th = Load \<or> at_pc th = Store \<or> at_pc th = Unlock"

definition add_lock_free :: "char \<Rightarrow> add_sys \<Rightarrow> bool" where
  "add_lock_free sync s \<longleftrightarrow> (if sync = CHR ''m'' then mymutex s = None else lock_s s = 0)"

text \<open>The local part: loop bounds, the program points of the mode, the values read.\<close>

definition thread_ok :: "char \<Rightarrow> nat \<Rightarrow> u64 \<Rightarrow> add_thread \<Rightarrow> bool" where
  "thread_ok sync n cnt th \<longleftrightarrow>
     at_i th \<le> n \<and> at_loop th \<le> 2 \<and> (at_loop th = 2 \<longrightarrow> at_pc th = LoopTest) \<and>
     (at_pc th \<noteq> LoopTest \<longrightarrow> at_i th < n) \<and>
     (in_cs th \<longrightarrow> sync \<noteq> CHR ''c'') \<and>
     (at_pc th = Lock \<longrightarrow> sync = CHR ''m'') \<and>
     (at_pc th = Tas \<or> at_pc th = Spin \<longrightarrow> sync = CHR ''s'') \<and>
     (at_pc th = CasLoad \<or> at_pc th = Cas \<longrightarrow> sync = CHR ''c'') \<and>
     (at_pc th = Store \<longrightarrow> at_sum th = cnt + of_int (add_value th)) \<and>
     (at_pc th = Cas \<longrightarrow> at_sum th = at_old th + of_int (add_value th))"

definition add_inv :: "char \<Rightarrow> nat \<Rightarrow> nat \<Rightarrow> add_sys \<Rightarrow> bool" where
  "add_inv sync n N s \<longleftrightarrow>
     created s \<le> N \<and>
     counter s = of_int (\<Sum>t<N. contrib n (thr s t)) \<and>
     (\<forall>t. thread_ok sync n (counter s) (thr s t)) \<and>
     (sync \<noteq> CHR ''c'' \<longrightarrow> lock_inv (\<not> add_lock_free sync s) {t. in_cs (thr s t)})"

definition synchronised :: "char \<Rightarrow> bool" where
  "synchronised sync \<longleftrightarrow> sync = CHR ''m'' \<or> sync = CHR ''s'' \<or> sync = CHR ''c''"

lemma add_inv_init: "add_inv sync n N add_sys_init"
  by (simp add: add_inv_def add_sys_init_def add_thread_init_def contrib_def thread_ok_def in_cs_def
      lock_inv_def add_lock_free_def)

text \<open>
  A step of one thread: the counter moves by the change of its contribution, its own
  state stays consistent, and the others' values stay valid because no other thread is
  in the critical section when the counter is written under a lock.
\<close>

lemma in_cs_upd:
  "{u. in_cs ((f(t := th)) u)} = (if in_cs th then insert t {u. in_cs (f u)} else {u. in_cs (f u)} - {t})"
  by auto

lemmas add_step_defs =
  set_thr_def goto_def add_return_def add_switch_def add_lock_free_def

lemma contrib_loop_exit:
  assumes "thread_ok sync n c th" and "at_pc th = LoopTest" and "\<not> at_i th < n" and "at_loop th < 2"
  shows "contrib n (th\<lparr>at_loop := Suc (at_loop th), at_i := 0\<rparr>) = contrib n th"
  using assms by (auto simp: contrib_def thread_ok_def add_value_def less_2_cases_iff)

lemma contrib_return:
  assumes "at_loop th < 2" and "at_pc th \<noteq> Unlock"
  shows "contrib n (add_return th) = contrib n th + add_value th"
  using assms by (auto simp: contrib_def add_return_def add_value_def less_2_cases_iff)

lemma contrib_return_unlock:
  assumes "at_loop th < 2" and "at_pc th = Unlock"
  shows "contrib n (add_return th) = contrib n th"
  using assms by (auto simp: contrib_def add_return_def add_value_def less_2_cases_iff)

lemma contrib_goto:
  assumes "at_pc th \<noteq> Unlock" and "pc \<noteq> Unlock"
  shows "contrib n (goto pc (th\<lparr>at_sum := a, at_old := b\<rparr>)) = contrib n th"
    and "contrib n (goto pc (th\<lparr>at_sum := a\<rparr>)) = contrib n th"
    and "contrib n (goto pc th) = contrib n th"
    and "contrib n (goto Unlock th) = contrib n th + add_value th"
  using assms by (auto simp: contrib_def goto_def add_value_def)

lemma thread_ok_cnt:
  "thread_ok sync n c th \<Longrightarrow> at_pc th \<noteq> Store \<Longrightarrow> thread_ok sync n c' th"
  by (simp add: thread_ok_def)

lemma add_inv_ok: "add_inv sync n N s \<Longrightarrow> thread_ok sync n (counter s) (thr s u)"
  unfolding add_inv_def by blast

lemma add_inv_upd:
  assumes inv: "add_inv sync n N s" and t: "t < N"
    and thr': "thr s' = (thr s)(t := th')" and cr: "created s' = created s"
    and cnt: "counter s' = counter s + of_int (contrib n th' - contrib n (thr s t))"
    and ok: "thread_ok sync n (counter s') th'"
    and others: "counter s' = counter s \<or> (\<forall>u. u \<noteq> t \<longrightarrow> at_pc (thr s u) \<noteq> Store)"
    and lck: "sync \<noteq> CHR ''c'' \<Longrightarrow> lock_inv (\<not> add_lock_free sync s') {u. in_cs (((thr s)(t := th')) u)}"
  shows "add_inv sync n N s'"
proof -
  from inv have oks: "\<forall>u. thread_ok sync n (counter s) (thr s u)" by (blast intro: add_inv_ok)
  have "thread_ok sync n (counter s') (thr s' u)" for u
  proof (cases "u = t")
    case False
    with others oks show ?thesis
      unfolding thr' fun_upd_other [OF False] by (metis thread_ok_cnt)
  qed (use ok in \<open>simp add: thr'\<close>)
  moreover have "counter s' = of_int (\<Sum>u<N. contrib n (thr s' u))"
    using inv cnt sum_fun_upd [OF t, of "contrib n" "thr s" th'] by (simp add: add_inv_def thr')
  ultimately show ?thesis using inv lck by (simp add: add_inv_def thr' cr)
qed

text \<open>Steps that leave the shared state alone and do not enter or leave a critical section.\<close>

lemma add_inv_local:
  assumes inv: "add_inv sync n N s" and t: "t < N"
    and "contrib n th' = contrib n (thr s t)" and "thread_ok sync n (counter s) th'"
    and "in_cs th' = in_cs (thr s t)"
  shows "add_inv sync n N (set_thr t th' s)"
proof (rule add_inv_upd [OF inv t])
  have eq: "{u. in_cs (((thr s)(t := th')) u)} = {u. in_cs (thr s u)}" using assms(5) by auto
  have "add_lock_free sync (set_thr t th' s) = add_lock_free sync s"
    by (simp add: add_lock_free_def set_thr_def)
  then show "lock_inv (\<not> add_lock_free sync (set_thr t th' s)) {u. in_cs (((thr s)(t := th')) u)}"
    if "sync \<noteq> CHR ''c''"
    using inv that unfolding eq by (simp add: add_inv_def)
qed (use assms in \<open>simp_all add: set_thr_def\<close>)

lemma add_inv_acquire_mutex:
  assumes inv: "add_inv sync n N s" and t: "t < N" and pc: "at_pc (thr s t) = Lock" "at_loop (thr s t) < 2"
    and got: "mutex_lock (mymutex s) t = (m, True)"
  shows "add_inv sync n N (set_thr t (goto Load (thr s t)) (s\<lparr>mymutex := m\<rparr>))"
proof (rule add_inv_upd [OF inv t, where th' = "goto Load (thr s t)"])
  have ok: "thread_ok sync n (counter s) (thr s t)" using inv by (rule add_inv_ok)
  then have m: "sync = CHR ''m''" using pc by (simp add: thread_ok_def)
  then have "lock_inv (mymutex s \<noteq> None) {u. in_cs (thr s u)}"
    using inv by (simp add: add_inv_def add_lock_free_def)
  then have "lock_inv (m \<noteq> None) (insert t {u. in_cs (thr s u)})" using got by (rule pmutex.inv_acquire)
  moreover have "in_cs (goto Load (thr s t))" by (simp add: in_cs_def goto_def)
  ultimately show "lock_inv (\<not> add_lock_free sync (set_thr t (goto Load (thr s t)) (s\<lparr>mymutex := m\<rparr>)))
      {u. in_cs (((thr s)(t := goto Load (thr s t))) u)}"
    unfolding in_cs_upd by (simp add: add_lock_free_def set_thr_def m)
  show "thread_ok sync n (counter (set_thr t (goto Load (thr s t)) (s\<lparr>mymutex := m\<rparr>))) (goto Load (thr s t))"
    using ok pc m by (auto simp: thread_ok_def goto_def set_thr_def in_cs_def)
qed (use pc in \<open>simp_all add: set_thr_def contrib_goto\<close>)

lemma add_inv_tas:
  assumes inv: "add_inv sync n N s" and t: "t < N" and pc: "at_pc (thr s t) = Tas" "at_loop (thr s t) < 2"
    and tas: "sync_lock_test_and_set (lock_s s) t = (l, got)"
  shows "add_inv sync n N (set_thr t (goto (if got then Load else Spin) (thr s t)) (s\<lparr>lock_s := l\<rparr>))"
proof (rule add_inv_upd [OF inv t, where th' = "goto (if got then Load else Spin) (thr s t)"])
  have ok: "thread_ok sync n (counter s) (thr s t)" using inv by (rule add_inv_ok)
  then have m: "sync = CHR ''s''" using pc by (simp add: thread_ok_def)
  then have li: "lock_inv (lock_s s \<noteq> 0) {u. in_cs (thr s u)}"
    using inv by (simp add: add_inv_def add_lock_free_def)
  have "lock_inv (l \<noteq> 0) (if got then insert t {u. in_cs (thr s u)} else {u. in_cs (thr s u)})"
    using spin.inv_acquire [OF li, of t l] spin.inv_busy [OF li, of t l] tas by (cases got) auto
  moreover have "t \<notin> {u. in_cs (thr s u)}" using pc by (simp add: in_cs_def)
  moreover have "in_cs (goto (if got then Load else Spin) (thr s t)) = got" by (simp add: in_cs_def goto_def)
  ultimately show "lock_inv (\<not> add_lock_free sync
      (set_thr t (goto (if got then Load else Spin) (thr s t)) (s\<lparr>lock_s := l\<rparr>)))
      {u. in_cs (((thr s)(t := goto (if got then Load else Spin) (thr s t))) u)}"
    unfolding in_cs_upd by (simp add: add_lock_free_def set_thr_def m split: if_splits)
  show "thread_ok sync n (counter (set_thr t (goto (if got then Load else Spin) (thr s t)) (s\<lparr>lock_s := l\<rparr>)))
      (goto (if got then Load else Spin) (thr s t))"
    using ok pc m by (auto simp: thread_ok_def goto_def set_thr_def in_cs_def)
qed (use pc in \<open>simp_all add: set_thr_def contrib_goto\<close>)

lemma add_inv_store:
  assumes inv: "add_inv sync n N s" and sy: "synchronised sync" and t: "t < N"
    and pc: "at_pc (thr s t) = Store" "at_loop (thr s t) < 2"
  shows "(sync = CHR ''m'' \<or> sync = CHR ''s'') \<and>
    add_inv sync n N (set_thr t (goto Unlock (thr s t)) (s\<lparr>counter := at_sum (thr s t)\<rparr>))"
proof
  have ok: "thread_ok sync n (counter s) (thr s t)" using inv by (rule add_inv_ok)
  then have nc: "sync \<noteq> CHR ''c''" using pc by (auto simp: thread_ok_def in_cs_def)
  then show ms: "sync = CHR ''m'' \<or> sync = CHR ''s''" using sy by (simp add: synchronised_def)
  have li: "lock_inv (\<not> add_lock_free sync s) {u. in_cs (thr s u)}" using inv nc by (simp add: add_inv_def)
  have cs: "in_cs (thr s t)" using pc by (simp add: in_cs_def)
  let ?s = "set_thr t (goto Unlock (thr s t)) (s\<lparr>counter := at_sum (thr s t)\<rparr>)"
  show "add_inv sync n N ?s"
  proof (rule add_inv_upd [OF inv t, where th' = "goto Unlock (thr s t)"])
    have "{u. in_cs (((thr s)(t := goto Unlock (thr s t))) u)} = {u. in_cs (thr s u)}"
      unfolding in_cs_upd using cs by (auto simp: in_cs_def goto_def)
    moreover have "add_lock_free sync ?s = add_lock_free sync s" by (simp add: add_lock_free_def set_thr_def)
    ultimately show "lock_inv (\<not> add_lock_free sync ?s) {u. in_cs (((thr s)(t := goto Unlock (thr s t))) u)}"
      using li by simp
    have "at_pc (thr s u) \<noteq> Store" if "u \<noteq> t" for u
      using lock_inv_unique [OF li, of u t] cs that by (auto simp: in_cs_def)
    then show "counter ?s = counter s \<or> (\<forall>u. u \<noteq> t \<longrightarrow> at_pc (thr s u) \<noteq> Store)" by blast
    show "counter ?s = counter s + of_int (contrib n (goto Unlock (thr s t)) - contrib n (thr s t))"
      using ok pc by (simp add: thread_ok_def contrib_goto(4) [where pc = Store] set_thr_def)
    show "thread_ok sync n (counter ?s) (goto Unlock (thr s t))"
      using ok pc nc by (auto simp: thread_ok_def goto_def in_cs_def)
  qed (simp_all add: set_thr_def)
qed

lemma add_inv_unlock:
  assumes inv: "add_inv sync n N s" and sy: "synchronised sync" and t: "t < N"
    and pc: "at_pc (thr s t) = Unlock" "at_loop (thr s t) < 2"
  shows "add_inv sync n N (set_thr t (add_return (thr s t))
    (if sync = CHR ''m'' then s\<lparr>mymutex := mutex_unlock (mymutex s) t\<rparr>
     else s\<lparr>lock_s := sync_lock_release (lock_s s) t\<rparr>))" (is "add_inv sync n N ?s")
proof (rule add_inv_upd [OF inv t, where th' = "add_return (thr s t)"])
  have ok: "thread_ok sync n (counter s) (thr s t)" using inv by (rule add_inv_ok)
  show "lock_inv (\<not> add_lock_free sync ?s) {u. in_cs (((thr s)(t := add_return (thr s t))) u)}"
    if nc: "sync \<noteq> CHR ''c''"
  proof -
    have li: "lock_inv (\<not> add_lock_free sync s) {u. in_cs (thr s u)}" using inv nc by (simp add: add_inv_def)
    have cs: "t \<in> {u. in_cs (thr s u)}" using pc by (simp add: in_cs_def)
    have "{u. in_cs (((thr s)(t := add_return (thr s t))) u)} = {u. in_cs (thr s u)} - {t}"
      unfolding in_cs_upd by (simp add: in_cs_def add_return_def)
    moreover have "lock_inv (\<not> add_lock_free sync ?s) ({u. in_cs (thr s u)} - {t})"
      using li cs pmutex.inv_release [of "mymutex s" _ t] spin.inv_release [of "lock_s s" _ t]
      by (auto simp: add_lock_free_def set_thr_def)
    ultimately show ?thesis by simp
  qed
  show "thread_ok sync n (counter ?s) (add_return (thr s t))"
    using ok pc by (auto simp: thread_ok_def add_return_def in_cs_def)
qed (use pc in \<open>simp_all add: set_thr_def contrib_return_unlock\<close>)

lemma add_inv_cas:
  assumes inv: "add_inv sync n N s" and t: "t < N" and pc: "at_pc (thr s t) = Cas" "at_loop (thr s t) < 2"
    and cas: "sync_val_compare_and_swap (counter s) (at_old (thr s t)) (at_sum (thr s t)) = (c, seen)"
  shows "add_inv sync n N (set_thr t (if seen \<noteq> at_old (thr s t) then goto CasLoad (thr s t)
    else add_return (thr s t)) (s\<lparr>counter := c\<rparr>))"
    (is "add_inv sync n N (set_thr t ?th ?s)")
proof (rule add_inv_upd [OF inv t, where th' = ?th])
  have oks: "\<forall>u. thread_ok sync n (counter s) (thr s u)" using inv by (blast intro: add_inv_ok)
  then have ok: "thread_ok sync n (counter s) (thr s t)" by blast
  then have m: "sync = CHR ''c''" using pc by (simp add: thread_ok_def)
  from m oks have "\<forall>u. at_pc (thr s u) \<noteq> Store" by (auto simp: thread_ok_def in_cs_def)
  then show "counter (set_thr t ?th ?s) = counter s \<or> (\<forall>u. u \<noteq> t \<longrightarrow> at_pc (thr s u) \<noteq> Store)" by blast
  show "counter (set_thr t ?th ?s) = counter s + of_int (contrib n ?th - contrib n (thr s t))"
    using ok pc cas by (auto simp: set_thr_def sync_val_compare_and_swap_def contrib_return contrib_goto
        thread_ok_def split: if_splits)
  show "thread_ok sync n (counter (set_thr t ?th ?s)) ?th"
    using ok pc m by (auto simp: thread_ok_def add_return_def goto_def in_cs_def)
  show "lock_inv (\<not> add_lock_free sync (set_thr t ?th ?s)) {u. in_cs (((thr s)(t := ?th)) u)}"
    if "sync \<noteq> CHR ''c''" using that m by simp
qed (simp_all add: set_thr_def)

text \<open>The loop test, and the steps that only read shared memory.\<close>

lemma add_inv_test:
  assumes inv: "add_inv sync n N s" and t: "t < N"
    and st: "add_thread_step sync n t s = Some s'" and pc: "at_pc (thr s t) = LoopTest"
  shows "add_inv sync n N s'"
proof -
  have ok: "thread_ok sync n (counter s) (thr s t)" using inv by (rule add_inv_ok)
  have lp: "at_loop (thr s t) < 2" using st by (auto simp: add_thread_step_def Let_def split: if_splits)
  show ?thesis
  proof (cases "at_i (thr s t) < n")
    case True
    then have "add_inv sync n N (set_thr t (goto Switch (thr s t)) s)" using lp pc ok
      by (intro add_inv_local [OF inv t]) (auto simp: contrib_def add_value_def thread_ok_def goto_def in_cs_def)
    with st lp pc True show ?thesis by (auto simp: add_thread_step_def Let_def)
  next
    case False
    then have "add_inv sync n N (set_thr t ((thr s t)\<lparr>at_loop := Suc (at_loop (thr s t)), at_i := 0\<rparr>) s)"
      using lp pc ok contrib_loop_exit [OF ok pc False lp]
      by (intro add_inv_local [OF inv t]) (auto simp: thread_ok_def in_cs_def)
    with st lp pc False show ?thesis by (auto simp: add_thread_step_def Let_def)
  qed
qed

lemma add_inv_read:
  assumes inv: "add_inv sync n N s" and sy: "synchronised sync" and t: "t < N"
    and st: "add_thread_step sync n t s = Some s'"
    and pc: "at_pc (thr s t) \<in> {Switch, Spin, Load, CasLoad}"
  shows "add_inv sync n N s'"
proof -
  have ok: "thread_ok sync n (counter s) (thr s t)" using inv by (rule add_inv_ok)
  let ?th = "case at_pc (thr s t) of Switch \<Rightarrow> add_switch sync (thr s t)
      | Spin \<Rightarrow> goto (if lock_s s \<noteq> 0 then Spin else Tas) (thr s t)
      | Load \<Rightarrow> goto Store ((thr s t)\<lparr>at_sum := counter s + of_int (add_value (thr s t))\<rparr>)
      | _ \<Rightarrow> goto Cas ((thr s t)\<lparr>at_old := counter s, at_sum := counter s + of_int (add_value (thr s t))\<rparr>)"
  have "add_inv sync n N (set_thr t ?th s)"
  proof (rule add_inv_local [OF inv t])
    show "contrib n ?th = contrib n (thr s t)" using pc sy
      by (elim insertE emptyE) (auto simp: contrib_def add_value_def goto_def add_switch_def synchronised_def)
    show "in_cs ?th = in_cs (thr s t)" using pc sy
      by (elim insertE emptyE) (auto simp: add_switch_def goto_def in_cs_def synchronised_def)
    show "thread_ok sync n (counter s) ?th" using ok pc sy
      by (elim insertE emptyE)
        (auto simp: thread_ok_def add_value_def add_switch_def goto_def in_cs_def synchronised_def)
  qed
  moreover have "s' = set_thr t ?th s"
    using st pc by (elim insertE emptyE) (simp_all add: add_thread_step_def Let_def split: if_splits)
  ultimately show ?thesis by simp
qed

lemma add_thread_step_inv:
  assumes inv: "add_inv sync n N s" and sy: "synchronised sync" and t: "t < N"
    and st: "add_thread_step sync n t s = Some s'"
  shows "add_inv sync n N s'"
proof -
  have lp: "at_loop (thr s t) < 2" using st by (auto simp: add_thread_step_def Let_def split: if_splits)
  show ?thesis
  proof (cases "at_pc (thr s t)")
    case LoopTest
    then show ?thesis by (rule add_inv_test [OF inv t st])
  next
    case Lock
    with st lp obtain m where "mutex_lock (mymutex s) t = (m, True)"
      and "s' = set_thr t (goto Load (thr s t)) (s\<lparr>mymutex := m\<rparr>)"
      by (auto simp: add_thread_step_def Let_def split: prod.splits if_splits)
    with inv t Lock lp show ?thesis by (simp add: add_inv_acquire_mutex)
  next
    case Tas
    with st lp obtain l got where "sync_lock_test_and_set (lock_s s) t = (l, got)"
      and "s' = set_thr t (goto (if got then Load else Spin) (thr s t)) (s\<lparr>lock_s := l\<rparr>)"
      by (auto simp: add_thread_step_def Let_def split: prod.splits if_splits)
    with inv t Tas lp show ?thesis using add_inv_tas by blast
  next
    case Store
    with inv sy t lp st add_inv_store [OF inv sy t Store lp] show ?thesis
      by (auto simp: add_thread_step_def Let_def)
  next
    case Unlock
    with st lp show ?thesis using add_inv_unlock [OF inv sy t Unlock lp]
      by (auto simp: add_thread_step_def Let_def)
  next
    case Cas
    with st lp show ?thesis using add_inv_cas [OF inv t Cas lp]
      by (auto simp: add_thread_step_def Let_def split: prod.splits)
  qed (simp_all add: add_inv_read [OF inv sy t st])
qed

lemma add_step_inv:
  assumes "add_step sync n N s s'" and "synchronised sync" and "add_inv sync n N s"
  shows "add_inv sync n N s'"
  using assms
proof (induction rule: add_step.induct)
  case (create s)
  then show ?case by (auto simp: add_inv_def add_lock_free_def)
next
  case (run t s s')
  then have "t < N" by (simp add: add_inv_def)
  with run show ?case by (blast intro: add_thread_step_inv)
qed

lemma add_reach_inv: "add_reach sync n N s \<Longrightarrow> synchronised sync \<Longrightarrow> add_inv sync n N s"
  by (induction rule: add_reach.induct) (auto intro: add_inv_init add_step_inv)

lemma contrib_finished:
  "thread_ok sync n c th \<Longrightarrow> 2 \<le> at_loop th \<Longrightarrow> contrib n th = 0"
  by (auto simp: thread_ok_def contrib_def)

lemma add_joined_counter:
  assumes "add_reach sync n N s" and "synchronised sync" and "add_joined N s"
  shows "counter s = 0"
proof -
  have inv: "add_inv sync n N s" using assms(1,2) by (rule add_reach_inv)
  have "(\<Sum>t<N. contrib n (thr s t)) = 0"
  proof (rule sum.neutral)
    show "\<forall>t \<in> {..<N}. contrib n (thr s t) = 0"
      using assms(3) add_inv_ok [OF inv] contrib_finished by (fastforce simp: add_joined_def)
  qed
  with inv show ?thesis unfolding add_inv_def by (metis of_int_0)
qed

subsection \<open>Every run can be completed\<close>

text \<open>
  A thread that owns the lock, or finds it free, can run on alone until \<open>add_thrd\<close>
  returns: each of its steps decreases \<open>solo_weight\<close>. (A failed compare-and-swap is
  possible only for a value read before another thread's update.)
\<close>

definition solo_rem :: "nat \<Rightarrow> add_thread \<Rightarrow> nat" where
  "solo_rem n th = (if at_loop th = 0 then 2 * n + 2 - at_i th else if at_loop th = 1 then n + 1 - at_i th else 0)"

definition solo_rank :: "u64 \<Rightarrow> add_thread \<Rightarrow> nat" where
  "solo_rank c th =
     (case at_pc th of LoopTest \<Rightarrow> 11 | Switch \<Rightarrow> 10 | Spin \<Rightarrow> 9 | Tas \<Rightarrow> 8 | Lock \<Rightarrow> 8 | Load \<Rightarrow> 5
      | Store \<Rightarrow> 4 | Unlock \<Rightarrow> 3 | CasLoad \<Rightarrow> 6 | Cas \<Rightarrow> if at_old th = c then 5 else 7)"

definition solo_weight :: "nat \<Rightarrow> tid \<Rightarrow> add_sys \<Rightarrow> nat" where
  "solo_weight n t s = 20 * solo_rem n (thr s t) + solo_rank (counter s) (thr s t)"

definition may_run :: "char \<Rightarrow> tid \<Rightarrow> add_sys \<Rightarrow> bool" where
  "may_run sync t s \<longleftrightarrow> sync = CHR ''c'' \<or> add_lock_free sync s \<or> in_cs (thr s t)"

lemmas solo_defs = add_thread_step_def Let_def solo_weight_def solo_rem_def solo_rank_def may_run_def
  add_step_defs in_cs_def thread_ok_def mutex_lock_def mutex_unlock_def sync_lock_test_and_set_def
  sync_lock_release_def sync_val_compare_and_swap_def

lemma solo_step:
  assumes ok: "thread_ok sync n (counter s) (thr s t)" and sy: "synchronised sync"
    and lp: "at_loop (thr s t) < 2" and run: "may_run sync t s"
  shows "\<exists>s'. add_thread_step sync n t s = Some s' \<and> solo_weight n t s' < solo_weight n t s \<and>
    (\<forall>u. u \<noteq> t \<longrightarrow> thr s' u = thr s u) \<and> created s' = created s \<and> may_run sync t s'"
proof -
  consider "sync = CHR ''m''" | "sync = CHR ''s''" | "sync = CHR ''c''"
    using sy by (auto simp: synchronised_def)
  then show ?thesis
  proof cases
    case 1
    then show ?thesis using assms less_2_cases [OF lp]
      by (cases "at_pc (thr s t)") (auto simp: solo_defs)
  next
    case 2
    then show ?thesis using assms less_2_cases [OF lp]
      by (cases "at_pc (thr s t)") (auto simp: solo_defs)
  next
    case 3
    then show ?thesis using assms less_2_cases [OF lp]
      by (cases "at_pc (thr s t)") (auto simp: solo_defs)
  qed
qed

lemma add_reach_steps: "(add_step sync n N)\<^sup>*\<^sup>* s s' \<Longrightarrow> add_reach sync n N s \<Longrightarrow> add_reach sync n N s'"
  by (induction rule: rtranclp_induct) (auto intro: add_reach.step)

lemma solo_run:
  assumes "add_reach sync n N s" and "synchronised sync" and "t < created s" and "may_run sync t s"
  shows "\<exists>s'. (add_step sync n N)\<^sup>*\<^sup>* s s' \<and> 2 \<le> at_loop (thr s' t) \<and> created s' = created s \<and>
    (\<forall>u. u \<noteq> t \<longrightarrow> thr s' u = thr s u)"
  using assms
proof (induction "solo_weight n t s" arbitrary: s rule: less_induct)
  case less
  show ?case
  proof (cases "at_loop (thr s t) < 2")
    case True
    have ok: "thread_ok sync n (counter s) (thr s t)"
      using less.prems(1,2) by (blast intro: add_inv_ok add_reach_inv)
    obtain s1 where s1: "add_thread_step sync n t s = Some s1" "solo_weight n t s1 < solo_weight n t s"
      "\<forall>u. u \<noteq> t \<longrightarrow> thr s1 u = thr s u" "created s1 = created s" "may_run sync t s1"
      using solo_step [OF ok less.prems(2) True less.prems(4)] by blast
    have st: "add_step sync n N s s1" using less.prems(3) s1(1) by (blast intro: add_step.run)
    then have "add_reach sync n N s1" using less.prems(1) by (blast intro: add_reach.step)
    with less.hyps [OF s1(2)] less.prems(2,3) s1(4,5) obtain s' where
      "(add_step sync n N)\<^sup>*\<^sup>* s1 s'" "2 \<le> at_loop (thr s' t)" "created s' = created s1"
      "\<forall>u. u \<noteq> t \<longrightarrow> thr s' u = thr s1 u" by auto
    with s1(3,4) st show ?thesis by (intro exI [of _ s']) (auto intro: converse_rtranclp_into_rtranclp)
  qed (use less.prems in auto)
qed

definition unfinished :: "nat \<Rightarrow> add_sys \<Rightarrow> tid set" where
  "unfinished N s = {t. t < N \<and> at_loop (thr s t) < 2}"

lemma some_may_run:
  assumes inv: "add_inv sync n N s" and "synchronised sync" and "created s = N" and "unfinished N s \<noteq> {}"
    and fresh: "\<forall>t. N \<le> t \<longrightarrow> thr s t = add_thread_init"
  shows "\<exists>t \<in> unfinished N s. may_run sync t s"
proof (cases "sync = CHR ''c'' \<or> add_lock_free sync s")
  case True
  with assms(4) show ?thesis by (auto simp: may_run_def)
next
  case False
  with inv have "{t. in_cs (thr s t)} \<noteq> {}" by (simp add: add_inv_def lock_inv_def)
  then obtain t where t: "in_cs (thr s t)" by blast
  have "t < N"
  proof (rule ccontr)
    assume "\<not> t < N"
    with fresh have "thr s t = add_thread_init" by simp
    with t show False by (simp add: in_cs_def add_thread_init_def)
  qed
  have "at_loop (thr s t) \<le> 2" and "at_loop (thr s t) = 2 \<longrightarrow> at_pc (thr s t) = LoopTest"
    using add_inv_ok [OF inv, of t] unfolding thread_ok_def by blast+
  with t have "at_loop (thr s t) < 2" by (auto simp: in_cs_def le_less)
  with t \<open>t < N\<close> show ?thesis by (auto simp: unfinished_def may_run_def)
qed

lemma add_thread_step_others:
  assumes "add_thread_step sync n t s = Some s'"
  shows "created s' = created s" and "u \<noteq> t \<Longrightarrow> thr s' u = thr s u"
  using assms by (cases "at_pc (thr s t)";
      auto simp: add_thread_step_def Let_def set_thr_def split: if_splits prod.splits)+

lemma add_reach_fresh:
  "add_reach sync n N s \<Longrightarrow> created s \<le> N \<and> (\<forall>t. N \<le> t \<longrightarrow> thr s t = add_thread_init)"
proof (induction rule: add_reach.induct)
  case start
  show ?case by (simp add: add_sys_init_def)
next
  case (step s s')
  from step.hyps(2) show ?case
  proof (cases rule: add_step.cases)
    case create
    with step.IH show ?thesis by auto
  next
    case (run t)
    with step.IH have "t < N" by simp
    with run(2) step.IH show ?thesis using add_thread_step_others [OF run(2)] by auto
  qed
qed

lemma create_all:
  assumes "add_reach sync n N s"
  shows "\<exists>s'. (add_step sync n N)\<^sup>*\<^sup>* s s' \<and> created s' = N"
proof -
  have "\<exists>s'. (add_step sync n N)\<^sup>*\<^sup>* s s' \<and> created s' = created s + k" if "created s + k \<le> N" for k
    using that
  proof (induction k)
    case (Suc k)
    then obtain s1 where s1: "(add_step sync n N)\<^sup>*\<^sup>* s s1" "created s1 = created s + k" by auto
    with Suc.prems have "add_step sync n N s1 (s1\<lparr>created := Suc (created s1)\<rparr>)"
      by (intro add_step.create) simp
    with s1 show ?case by (intro exI [of _ "s1\<lparr>created := Suc (created s1)\<rparr>"]) (auto intro: rtranclp.rtrancl_into_rtrancl)
  qed auto
  from this [of "N - created s"] add_reach_fresh [OF assms] show ?thesis by auto
qed

lemma can_finish:
  assumes "add_reach sync n N s" and "synchronised sync"
  shows "\<exists>s'. (add_step sync n N)\<^sup>*\<^sup>* s s' \<and> add_joined N s'"
proof -
  have *: "\<exists>s'. (add_step sync n N)\<^sup>*\<^sup>* s s' \<and> add_joined N s'"
    if "add_reach sync n N s" and "created s = N" for s
    using that
  proof (induction "card (unfinished N s)" arbitrary: s rule: less_induct)
    case less
    show ?case
    proof (cases "unfinished N s = {}")
      case True
      then have "2 \<le> at_loop (thr s t)" if "t < N" for t
        using that by (force simp: unfinished_def)
      with less.prems show ?thesis by (auto simp: add_joined_def)
    next
      case False
      obtain t where t: "t \<in> unfinished N s" "may_run sync t s"
        using some_may_run [OF add_reach_inv [OF less.prems(1) assms(2)] assms(2) less.prems(2) False]
          add_reach_fresh [OF less.prems(1)] by blast
      have "t < created s" using t(1) less.prems(2) by (simp add: unfinished_def)
      from solo_run [OF less.prems(1) assms(2) this t(2)] obtain s' where s': "(add_step sync n N)\<^sup>*\<^sup>* s s'"
        "2 \<le> at_loop (thr s' t)" "created s' = created s" "\<forall>u. u \<noteq> t \<longrightarrow> thr s' u = thr s u" by blast
      have "unfinished N s' \<subseteq> unfinished N s - {t}"
      proof
        fix u assume u: "u \<in> unfinished N s'"
        then have "u \<noteq> t" using s'(2) by (auto simp: unfinished_def)
        with u s'(4) show "u \<in> unfinished N s - {t}" by (simp add: unfinished_def)
      qed
      then have "card (unfinished N s') < card (unfinished N s)"
        using t(1) by (intro psubset_card_mono) (auto simp: unfinished_def)
      then obtain s2 where "(add_step sync n N)\<^sup>*\<^sup>* s' s2" "add_joined N s2"
        using less.hyps [of s'] s'(3) less.prems(2) add_reach_steps [OF s'(1) less.prems(1)] by auto
      with s'(1) show ?thesis by (blast intro: rtranclp_trans)
    qed
  qed
  from create_all [OF assms(1)] obtain s1 where s1: "(add_step sync n N)\<^sup>*\<^sup>* s s1" "created s1 = N" by blast
  with * [OF add_reach_steps [OF s1(1) assms(1)] s1(2)] show ?thesis by (blast intro: rtranclp_trans)
qed

subsection \<open>Playing a schedule\<close>

text \<open>A schedule: \<open>None\<close> creates the next thread, \<open>Some t\<close> lets thread \<open>t\<close> move.\<close>

fun add_play :: "char \<Rightarrow> nat \<Rightarrow> nat \<Rightarrow> tid option list \<Rightarrow> add_sys \<Rightarrow> add_sys option" where
  "add_play sync n N [] s = Some s"
| "add_play sync n N (None # es) s =
     (if created s < N then add_play sync n N es (s\<lparr>created := Suc (created s)\<rparr>) else None)"
| "add_play sync n N (Some t # es) s =
     (if t < created s
      then (case add_thread_step sync n t s of None \<Rightarrow> None | Some s' \<Rightarrow> add_play sync n N es s')
      else None)"

lemma add_play_reach:
  "add_play sync n N es s = Some s' \<Longrightarrow> add_reach sync n N s \<Longrightarrow> add_reach sync n N s'"
  by (induction sync n N es s rule: add_play.induct)
    (auto split: if_splits option.splits intro: add_reach.step add_step.intros)

end
