(* ===== verification/SortedList.thy ===== *)
theory SortedList
  imports CLib
begin

text \<open>
  The circular doubly linked list of \<open>CS111/project2/Part_2/SortedList.c\<close>, on an
  explicit heap. A loop over the list is a partial function into \<open>option\<close>:
  \<open>None\<close> means that the loop does not end, \<open>Some SegFault\<close> that it dereferences a
  pointer outside the heap (or compares with a NULL key).
  \<open>sched_yield\<close> changes no state of the program, so the yields of the
  \<open>opt_yield\<close> flag do not appear in the sequential operations. The count of
  \<open>SortedList_length\<close> is an \<open>int\<close>: it is kept in 32 bits and wraps around.
\<close>

subsection \<open>The structure and its heap\<close>

type_synonym addr = nat

record SortedListElement =
  se_prev :: addr
  se_next :: addr
  se_key :: "string option"

type_synonym heap = "addr \<rightharpoonup> SortedListElement"

definition deref :: "heap \<Rightarrow> addr \<Rightarrow> SortedListElement outcome" where
  "deref h p = (case h p of None \<Rightarrow> SegFault | Some n \<Rightarrow> Ret n)"

definition set_prev :: "addr \<Rightarrow> addr \<Rightarrow> heap \<Rightarrow> heap outcome" where
  "set_prev p q h = obind (deref h p) (\<lambda>n. Ret (h(p \<mapsto> n\<lparr>se_prev := q\<rparr>)))"

definition set_next :: "addr \<Rightarrow> addr \<Rightarrow> heap \<Rightarrow> heap outcome" where
  "set_next p q h = obind (deref h p) (\<lambda>n. Ret (h(p \<mapsto> n\<lparr>se_next := q\<rparr>)))"

subsection \<open>Operations\<close>

partial_function (option) insert_scan :: "heap \<Rightarrow> addr \<Rightarrow> addr \<Rightarrow> addr \<Rightarrow> addr outcome option" where
  "insert_scan h list element lookup =
     (if lookup = list then Some (Ret lookup)
      else case h element of None \<Rightarrow> Some SegFault | Some e \<Rightarrow>
        (case h lookup of None \<Rightarrow> Some SegFault | Some n \<Rightarrow>
          (case se_key e of None \<Rightarrow> Some SegFault | Some k \<Rightarrow>
            (case se_key n of None \<Rightarrow> Some SegFault | Some k' \<Rightarrow>
               if strcmp k k' < 1 then insert_scan h list element (se_next n)
               else Some (Ret lookup)))))"

definition insert_link :: "addr \<Rightarrow> addr \<Rightarrow> heap \<Rightarrow> heap outcome" where
  "insert_link element lookup h =
     obind (deref h lookup) (\<lambda>n.
     obind (set_prev element (se_prev n) h) (\<lambda>h1.
     obind (set_next element lookup h1) (\<lambda>h2.
     obind (deref h2 lookup) (\<lambda>n2.
     obind (set_next (se_prev n2) element h2) (\<lambda>h3.
     set_prev lookup element h3)))))"

definition SortedList_insert :: "heap \<Rightarrow> addr \<Rightarrow> addr \<Rightarrow> heap outcome option" where
  "SortedList_insert h list element =
     (case h list of
        None \<Rightarrow> Some SegFault
      | Some l \<Rightarrow> map_option (\<lambda>r. obind r (\<lambda>lookup. insert_link element lookup h))
                    (insert_scan h list element (se_next l)))"

definition SortedList_delete :: "heap \<Rightarrow> addr \<Rightarrow> (int \<times> heap) outcome" where
  "SortedList_delete h element =
     obind (deref h element) (\<lambda>e.
     if se_key e = None then Ret (1, h)
     else obind (deref h (se_next e)) (\<lambda>n.
       if se_prev n \<noteq> element then Ret (1, h)
       else obind (deref h (se_prev e)) (\<lambda>p.
         if se_next p \<noteq> element then Ret (1, h)
         else obind (set_prev (se_next e) (se_prev e) h) (\<lambda>h1.
              obind (deref h1 element) (\<lambda>e1.
              obind (set_next (se_prev e1) (se_next e1) h1) (\<lambda>h2.
              Ret (0, h2)))))))"

partial_function (option) lookup_scan :: "heap \<Rightarrow> addr \<Rightarrow> string \<Rightarrow> addr \<Rightarrow> addr option outcome option" where
  "lookup_scan h list key lookup =
     (if lookup = list then Some (Ret None)
      else case h lookup of None \<Rightarrow> Some SegFault | Some n \<Rightarrow>
        (case se_key n of None \<Rightarrow> Some SegFault | Some k' \<Rightarrow>
           if strcmp key k' < 1
           then (if strcmp key k' = 0 then Some (Ret (Some lookup))
                 else lookup_scan h list key (se_next n))
           else Some (Ret None)))"

definition SortedList_lookup :: "heap \<Rightarrow> addr \<Rightarrow> string \<Rightarrow> addr option outcome option" where
  "SortedList_lookup h list key =
     (case h list of None \<Rightarrow> Some SegFault | Some l \<Rightarrow> lookup_scan h list key (se_next l))"

partial_function (option) length_scan :: "heap \<Rightarrow> addr \<Rightarrow> addr \<Rightarrow> int \<Rightarrow> int outcome option" where
  "length_scan h list lookup count =
     (if lookup = list then Some (Ret count)
      else case h lookup of None \<Rightarrow> Some SegFault | Some n \<Rightarrow>
        (case h (se_next n) of None \<Rightarrow> Some SegFault | Some m \<Rightarrow>
           if se_prev m \<noteq> lookup then Some (Ret (- 1))
           else length_scan h list (se_next n) (to_int32 (count + 1))))"

definition SortedList_length :: "heap \<Rightarrow> addr \<Rightarrow> int outcome option" where
  "SortedList_length h list =
     (case h list of None \<Rightarrow> Some SegFault | Some l \<Rightarrow>
       (case h (se_next l) of None \<Rightarrow> Some SegFault | Some n \<Rightarrow>
          if se_prev n \<noteq> list then Some (Ret (- 1))
          else length_scan h list (se_next l) 0))"

subsection \<open>Abstraction: the elements of a list\<close>

abbreviation nxt :: "heap \<Rightarrow> addr \<Rightarrow> addr option" where
  "nxt h a \<equiv> map_option se_next (h a)"

abbreviation prv :: "heap \<Rightarrow> addr \<Rightarrow> addr option" where
  "prv h a \<equiv> map_option se_prev (h a)"

definition key_of :: "heap \<Rightarrow> addr \<Rightarrow> string option" where
  "key_of h a = Option.bind (h a) se_key"

definition keyed :: "heap \<Rightarrow> addr \<Rightarrow> bool" where
  "keyed h a \<longleftrightarrow> (case key_of h a of None \<Rightarrow> False | Some k \<Rightarrow> cstr k)"

definition key_at :: "heap \<Rightarrow> addr \<Rightarrow> string" where
  "key_at h a = (case key_of h a of None \<Rightarrow> [] | Some k \<Rightarrow> k)"

fun linked :: "heap \<Rightarrow> addr list \<Rightarrow> bool" where
  "linked h (a # b # xs) \<longleftrightarrow> nxt h a = Some b \<and> prv h b = Some a \<and> linked h (b # xs)"
| "linked h _ \<longleftrightarrow> True"

text \<open>
  \<open>dlist h l xs\<close>: the header \<open>l\<close> and the elements \<open>xs\<close> form a circular doubly
  linked list, every element has a key and the header has none. \<open>slist\<close> adds the
  order in which \<^const>\<open>SortedList_insert\<close> keeps the keys.
\<close>

definition dlist :: "heap \<Rightarrow> addr \<Rightarrow> addr list \<Rightarrow> bool" where
  "dlist h l xs \<longleftrightarrow>
     distinct (l # xs) \<and> linked h (l # xs @ [l]) \<and> (\<forall>x \<in> set xs. keyed h x) \<and>
     h l \<noteq> None \<and> key_of h l = None"

definition slist :: "heap \<Rightarrow> addr \<Rightarrow> addr list \<Rightarrow> bool" where
  "slist h l xs \<longleftrightarrow> dlist h l xs \<and> sorted_wrt (\<lambda>x y. key_at h y \<le> key_at h x) xs"

text \<open>The position at which an element with key \<open>k\<close> is placed.\<close>

definition ins_addr :: "heap \<Rightarrow> addr \<Rightarrow> addr list \<Rightarrow> addr list" where
  "ins_addr h e xs =
     takeWhile (\<lambda>x. key_at h e \<le> key_at h x) xs @ e # dropWhile (\<lambda>x. key_at h e \<le> key_at h x) xs"

subsection \<open>Linked segments\<close>

lemma linked_append: "linked h (xs @ a # ys) \<longleftrightarrow> linked h (xs @ [a]) \<and> linked h (a # ys)"
proof (induction xs)
  case (Cons x xs)
  then show ?case by (cases xs) auto
qed simp

lemma linked_hd_next: "linked h (a # xs @ [l]) \<Longrightarrow> nxt h a = Some (hd (xs @ [l]))"
  by (cases xs) auto

lemma linked_last_prev: "linked h (l # xs @ [b]) \<Longrightarrow> prv h b = Some (last (l # xs))"
proof (induction xs arbitrary: l)
  case (Cons x xs)
  then show ?case by (cases xs) auto
qed simp

lemma linked_cong:
  assumes "\<And>x. x \<in> set (butlast xs) \<Longrightarrow> nxt h' x = nxt h x"
    and "\<And>x. x \<in> set (tl xs) \<Longrightarrow> prv h' x = prv h x"
  shows "linked h' xs = linked h xs"
  using assms
proof (induction xs rule: induct_list012)
  case (3 a b xs)
  have "linked h' (b # xs) = linked h (b # xs)"
  proof (rule 3)
    show "nxt h' x = nxt h x" if "x \<in> set (butlast (b # xs))" for x
      using that 3(3) [of x] by auto
    show "prv h' x = prv h x" if "x \<in> set (tl (b # xs))" for x
      using that 3(4) [of x] by auto
  qed
  moreover have "nxt h' a = nxt h a" and "prv h' b = prv h b"
    using 3(3) [of a] 3(4) [of b] by auto
  ultimately show ?case by simp
qed simp_all

lemma linked_heap: "linked h (a # xs) \<Longrightarrow> xs \<noteq> [] \<Longrightarrow> x \<in> set (a # xs) \<Longrightarrow> h x \<noteq> None"
proof (induction xs arbitrary: a)
  case (Cons b xs)
  from Cons.prems(1) have l: "linked h (b # xs)" and ab: "h a \<noteq> None" "h b \<noteq> None" by auto
  show ?case
  proof (cases "x = a \<or> x = b")
    case False
    with Cons.prems(3) have "x \<in> set (b # xs)" and "xs \<noteq> []" by auto
    with l show ?thesis by (intro Cons.IH)
  qed (use ab in blast)
qed simp

lemma keyed_SomeE:
  assumes "keyed h a"
  obtains n k where "h a = Some n" and "se_key n = Some k" and "cstr k" and "key_at h a = k"
  using assms by (auto simp: keyed_def key_of_def key_at_def split: option.splits bind_splits)

lemma dlist_prev_next:
  assumes "dlist h l (xs @ ys)"
  shows "prv h (hd (ys @ [l])) = Some (last (l # xs))"
proof -
  obtain q qs where q: "ys @ [l] = q # qs" by (cases "ys @ [l]") auto
  from assms have "linked h (l # xs @ (ys @ [l]))" unfolding dlist_def append_assoc by blast
  then have "linked h ((l # xs) @ q # qs)" unfolding q by simp
  then have "linked h ((l # xs) @ [q])" using linked_append by blast
  then have "linked h (l # xs @ [q])" by simp
  then show ?thesis unfolding q list.sel by (rule linked_last_prev)
qed

subsection \<open>Insertion\<close>

lemma insert_scan_ret:
  assumes "linked h (zs @ [l])" and "l \<notin> set zs" and "\<forall>x \<in> set zs. keyed h x"
    and "keyed h e"
  shows "insert_scan h l e (hd (zs @ [l])) =
    Some (Ret (hd (dropWhile (\<lambda>x. key_at h e \<le> key_at h x) zs @ [l])))"
  using assms
proof (induction zs)
  case Nil
  show ?case by (simp add: insert_scan.simps)
next
  case (Cons z zs)
  obtain n k where z: "h z = Some n" "se_key n = Some k" "cstr k" "key_at h z = k"
    using Cons.prems(3) by (auto elim: keyed_SomeE)
  obtain e' ke where e: "h e = Some e'" "se_key e' = Some ke" "cstr ke" "key_at h e = ke"
    using Cons.prems(4) by (auto elim: keyed_SomeE)
  have nx: "se_next n = hd (zs @ [l])"
    using linked_hd_next [of h z zs l] Cons.prems(1) z(1) by simp
  have ln: "linked h (zs @ [l])" using Cons.prems(1) by (cases zs) auto
  have ih: "insert_scan h l e (hd (zs @ [l])) =
      Some (Ret (hd (dropWhile (\<lambda>x. key_at h e \<le> key_at h x) zs @ [l])))"
    using ln Cons.prems(2-4) by (intro Cons.IH) auto
  have "z \<noteq> l" using Cons.prems(2) by auto
  then have "insert_scan h l e z = (if ke \<le> k then insert_scan h l e (hd (zs @ [l])) else Some (Ret z))"
    by (subst insert_scan.simps) (simp add: z e nx strcmp_less_1_iff)
  then show ?case by (simp add: ih e(4) z(4))
qed

text \<open>
  The four stores of the critical section put the element between \<open>lookup\<close> and its
  predecessor and touch no other field.
\<close>

lemma insert_link_ret:
  assumes "h q = Some nq" and "se_prev nq = pr" and "h pr \<noteq> None" and "h e \<noteq> None"
    and "e \<noteq> q" and "e \<noteq> pr"
  shows "\<exists>h'. insert_link e q h = Ret h' \<and>
    (\<forall>x. nxt h' x = (if x = pr then Some e else if x = e then Some q else nxt h x)) \<and>
    (\<forall>x. prv h' x = (if x = q then Some e else if x = e then Some pr else prv h x)) \<and>
    (\<forall>x. key_of h' x = key_of h x) \<and>
    (\<forall>x. x \<noteq> pr \<longrightarrow> x \<noteq> e \<longrightarrow> x \<noteq> q \<longrightarrow> h' x = h x)"
  using assms
  by (cases "pr = q")
    (auto simp: insert_link_def set_prev_def set_next_def deref_def key_of_def)

lemma keyed_cong: "key_of h' x = key_of h x \<Longrightarrow> keyed h' x = keyed h x"
  by (simp add: keyed_def)

lemma key_at_cong: "key_of h' x = key_of h x \<Longrightarrow> key_at h' x = key_at h x"
  by (simp add: key_at_def)

lemma linked_insert:
  assumes ln: "linked h (l # ys @ zs @ [l])" and ds: "distinct (l # ys @ zs)" and e: "e \<notin> set (l # ys @ zs)"
    and nx: "\<forall>x. nxt h' x = (if x = last (l # ys) then Some e else if x = e then Some (hd (zs @ [l])) else nxt h x)"
    and pv: "\<forall>x. prv h' x = (if x = hd (zs @ [l]) then Some e else if x = e then Some (last (l # ys)) else prv h x)"
  shows "linked h' (l # ys @ e # zs @ [l])"
proof -
  obtain q qs where q: "zs @ [l] = q # qs" by (cases "zs @ [l]") auto
  obtain us pr where us: "l # ys = us @ [pr]" by (metis list.distinct(1) rev_exhaust)
  have e_ne: "e \<notin> set us" "e \<noteq> pr" "e \<notin> set (q # qs)"
    using e arg_cong [OF us, of set] arg_cong [OF q, of set] by auto
  from ds have "distinct (l # ys)" by simp
  then have pr_us: "pr \<notin> set us" unfolding us by simp
  have pr_zs: "pr \<notin> set zs"
    using ds arg_cong [OF us, of set] by auto
  have q_ys: "q \<notin> set ys" and q_qs: "q \<notin> set qs"
    using q ds by (cases zs; auto)+
  have "linked h (us @ pr # q # qs)"
    using ln us q by (metis append_Cons append_assoc append_Nil)
  then have "linked h (us @ [pr])" and "linked h (q # qs)"
    using linked_append [of h us pr "q # qs"] by auto
  moreover have "linked h' (us @ [pr]) = linked h (us @ [pr])"
  proof (rule linked_cong)
    show "nxt h' x = nxt h x" if "x \<in> set (butlast (us @ [pr]))" for x
      using that nx us pr_us e_ne by (auto simp: last_snoc)
    show "prv h' x = prv h x" if "x \<in> set (tl (us @ [pr]))" for x
      using that pv q q_ys e us by (metis hd_append2 list.sel(1,3) set_append UnCI list.set_intros(2))
  qed
  moreover have "linked h' (q # qs) = linked h (q # qs)"
  proof (rule linked_cong)
    show "nxt h' x = nxt h x" if "x \<in> set (butlast (q # qs))" for x
      using that nx us q pr_zs e_ne by (metis butlast_snoc last_snoc in_set_butlastD)
    show "prv h' x = prv h x" if "x \<in> set (tl (q # qs))" for x
      using that pv q q_qs e_ne by auto
  qed
  moreover have "nxt h' pr = Some e" "prv h' e = Some pr" "nxt h' e = Some q" "prv h' q = Some e"
    using nx pv us q e_ne by (auto simp: last_snoc)
  ultimately have "linked h' (us @ pr # e # q # qs)"
    using linked_append [of h' us pr "e # q # qs"] by simp
  then show ?thesis using us q by (metis append_Cons append_assoc append_Nil)
qed

lemma set_ins_addr [simp]: "set (ins_addr h e xs) = insert e (set xs)"
  using set_append [of "takeWhile (\<lambda>x. key_at h e \<le> key_at h x) xs"]
  by (auto simp: ins_addr_def dest: set_takeWhileD set_dropWhileD)
    (metis UnE set_append takeWhile_dropWhile_id)

lemma length_ins_addr [simp]: "length (ins_addr h e xs) = Suc (length xs)"
  by (simp add: ins_addr_def) (metis length_append takeWhile_dropWhile_id)

lemma insert_dlist:
  assumes d: "dlist h l xs" and k: "keyed h e" and e: "e \<notin> set (l # xs)"
  shows "\<exists>h'. SortedList_insert h l e = Some (Ret h') \<and> dlist h' l (ins_addr h e xs) \<and>
    (\<forall>x. key_of h' x = key_of h x) \<and> (\<forall>x. x \<notin> set (l # e # xs) \<longrightarrow> h' x = h x)"
proof -
  let ?P = "\<lambda>x. key_at h e \<le> key_at h x"
  define ys where "ys = takeWhile ?P xs"
  define zs where "zs = dropWhile ?P xs"
  have xs: "xs = ys @ zs" by (simp add: ys_def zs_def)
  from d have ln: "linked h (l # xs @ [l])" and ds: "distinct (l # xs)"
    and ks: "\<forall>x \<in> set xs. keyed h x" and hl: "h l \<noteq> None" and kl: "key_of h l = None"
    by (auto simp: dlist_def)
  obtain nl where nl: "h l = Some nl" "se_next nl = hd (xs @ [l])"
    using hl linked_hd_next [OF ln] by auto
  have "linked h (xs @ [l])" using ln by (cases xs) auto
  then have scan: "insert_scan h l e (hd (xs @ [l])) = Some (Ret (hd (zs @ [l])))"
    using ds ks k by (simp add: insert_scan_ret zs_def)
  have "prv h (hd (zs @ [l])) = Some (last (l # ys))"
    using d xs dlist_prev_next by blast
  then obtain nq where nq: "h (hd (zs @ [l])) = Some nq" "se_prev nq = last (l # ys)" by auto
  have pr_in: "last (l # ys) \<in> set (l # xs)" using xs last_in_set [of "l # ys"] by auto
  have q_in: "hd (zs @ [l]) \<in> set (l # xs)" using xs by (cases zs) auto
  have "h (last (l # ys)) \<noteq> None"
    using linked_heap [OF ln, of "last (l # ys)"] pr_in by auto
  moreover have "h e \<noteq> None" using k by (auto elim: keyed_SomeE)
  moreover have "e \<noteq> hd (zs @ [l])" "e \<noteq> last (l # ys)" using e q_in pr_in by auto
  ultimately obtain h' where h': "insert_link e (hd (zs @ [l])) h = Ret h'"
    and nx: "\<forall>x. nxt h' x = (if x = last (l # ys) then Some e else if x = e then Some (hd (zs @ [l])) else nxt h x)"
    and pv: "\<forall>x. prv h' x = (if x = hd (zs @ [l]) then Some e else if x = e then Some (last (l # ys)) else prv h x)"
    and ky: "\<forall>x. key_of h' x = key_of h x"
    and fr: "\<forall>x. x \<noteq> last (l # ys) \<longrightarrow> x \<noteq> e \<longrightarrow> x \<noteq> hd (zs @ [l]) \<longrightarrow> h' x = h x"
    using insert_link_ret [of h "hd (zs @ [l])" nq "last (l # ys)" e] nq by blast
  have "linked h' (l # ys @ e # zs @ [l])"
    using ln ds e nx pv by (intro linked_insert [of h]) (simp_all add: xs)
  moreover have "h' l \<noteq> None" using nx hl by (metis option.map_disc_iff option.distinct(1))
  moreover have "\<forall>x \<in> set (ys @ e # zs). keyed h' x"
    using ks k ky xs by (auto simp: keyed_cong [of h' _ h])
  ultimately have "dlist h' l (ys @ e # zs)"
    using ds e kl ky xs by (auto simp: dlist_def)
  moreover have "SortedList_insert h l e = Some (Ret h')"
    by (simp add: SortedList_insert_def nl scan h')
  moreover have "h' x = h x" if "x \<notin> set (l # e # xs)" for x
  proof (rule fr [rule_format])
    have "set (l # xs) \<subseteq> set (l # e # xs)" by auto
    with that pr_in q_in show "x \<noteq> last (l # ys)" and "x \<noteq> hd (zs @ [l])" by blast+
    show "x \<noteq> e" using that by simp
  qed
  ultimately show ?thesis using ky by (auto simp: ins_addr_def ys_def zs_def)
qed

lemma sorted_ins_addr:
  assumes "sorted_wrt (\<lambda>x y. key_at h y \<le> key_at h x) xs"
  shows "sorted_wrt (\<lambda>x y. key_at h y \<le> key_at h x) (ins_addr h e xs)"
proof -
  let ?R = "\<lambda>x y. key_at h y \<le> key_at h x" and ?P = "\<lambda>x. key_at h e \<le> key_at h x"
  have split: "sorted_wrt ?R (takeWhile ?P xs @ dropWhile ?P xs)" using assms by simp
  have "key_at h y \<le> key_at h e" if "y \<in> set (dropWhile ?P xs)" for y
  proof -
    have "\<not> ?P y"
      by (rule takeWhile_dropWhile_sorted [OF assms _ that]) (rule order_trans)
    then show ?thesis by (simp only: not_le less_imp_le)
  qed
  moreover have "\<forall>x \<in> set (takeWhile ?P xs). key_at h e \<le> key_at h x"
    by (auto dest: set_takeWhileD)
  moreover have "sorted_wrt ?R (takeWhile ?P xs)" and "sorted_wrt ?R (dropWhile ?P xs)"
    and "\<forall>x \<in> set (takeWhile ?P xs). \<forall>y \<in> set (dropWhile ?P xs). ?R x y"
    using split unfolding sorted_wrt_append by blast+
  ultimately show ?thesis
    unfolding ins_addr_def sorted_wrt_append sorted_wrt.simps list.set by blast
qed

subsection \<open>Deletion\<close>

lemma delete_unlink_ret:
  assumes "h e = Some ne" and "se_key ne \<noteq> None" and "se_next ne = q" and "se_prev ne = pr"
    and "prv h q = Some e" and "nxt h pr = Some e" and "e \<noteq> q" and "e \<noteq> pr"
  shows "\<exists>h'. SortedList_delete h e = Ret (0, h') \<and>
    (\<forall>x. nxt h' x = (if x = pr then Some q else nxt h x)) \<and>
    (\<forall>x. prv h' x = (if x = q then Some pr else prv h x)) \<and>
    (\<forall>x. key_of h' x = key_of h x) \<and> (\<forall>x. x \<noteq> pr \<longrightarrow> x \<noteq> q \<longrightarrow> h' x = h x)"
  using assms
  by (cases "pr = q") (auto simp: SortedList_delete_def set_prev_def set_next_def deref_def key_of_def)

lemma linked_delete:
  assumes ln: "linked h (l # ys @ e # zs @ [l])" and ds: "distinct (l # ys @ e # zs)"
    and nx: "\<forall>x. nxt h' x = (if x = last (l # ys) then Some (hd (zs @ [l])) else nxt h x)"
    and pv: "\<forall>x. prv h' x = (if x = hd (zs @ [l]) then Some (last (l # ys)) else prv h x)"
  shows "linked h' (l # ys @ zs @ [l])"
proof -
  obtain q qs where q: "zs @ [l] = q # qs" by (cases "zs @ [l]") auto
  obtain us pr where us: "l # ys = us @ [pr]" by (metis list.distinct(1) rev_exhaust)
  from ds have "distinct (l # ys)" by simp
  then have pr_us: "pr \<notin> set us" unfolding us by simp
  have pr_zs: "pr \<notin> set zs"
    using ds arg_cong [OF us, of set] by auto
  have q_ys: "q \<notin> set ys" and q_qs: "q \<notin> set qs"
    using q ds by (cases zs; auto)+
  have "linked h (us @ pr # e # q # qs)"
    using ln us q by (metis append_Cons append_assoc append_Nil)
  then have "linked h (us @ [pr])" and "linked h (q # qs)"
    using linked_append [of h us pr "e # q # qs"] by auto
  moreover have "linked h' (us @ [pr]) = linked h (us @ [pr])"
  proof (rule linked_cong)
    show "nxt h' x = nxt h x" if "x \<in> set (butlast (us @ [pr]))" for x
      using that nx us pr_us by (auto simp: last_snoc)
    show "prv h' x = prv h x" if "x \<in> set (tl (us @ [pr]))" for x
      using that pv q q_ys us by (metis list.sel(1,3))
  qed
  moreover have "linked h' (q # qs) = linked h (q # qs)"
  proof (rule linked_cong)
    show "nxt h' x = nxt h x" if "x \<in> set (butlast (q # qs))" for x
      using that nx us q pr_zs by (metis butlast_snoc last_snoc)
    show "prv h' x = prv h x" if "x \<in> set (tl (q # qs))" for x
      using that pv q q_qs by auto
  qed
  moreover have "nxt h' pr = Some q" "prv h' q = Some pr"
    using nx pv us q by (auto simp: last_snoc)
  ultimately have "linked h' (us @ pr # q # qs)"
    using linked_append [of h' us pr "q # qs"] by simp
  then show ?thesis using us q by (metis append_Cons append_assoc append_Nil)
qed

lemma delete_dlist:
  assumes d: "dlist h l (ys @ e # zs)"
  shows "\<exists>h'. SortedList_delete h e = Ret (0, h') \<and> dlist h' l (ys @ zs) \<and>
    (\<forall>x. key_of h' x = key_of h x) \<and> (\<forall>x. x \<notin> set (l # ys @ zs) \<longrightarrow> h' x = h x)"
proof -
  from d have ln: "linked h (l # ys @ e # zs @ [l])" and ds: "distinct (l # ys @ e # zs)"
    and ks: "\<forall>x \<in> set (ys @ e # zs). keyed h x" and hl: "h l \<noteq> None" and kl: "key_of h l = None"
    by (auto simp: dlist_def)
  obtain ne k where ne: "h e = Some ne" "se_key ne = Some k"
    using ks by (auto elim: keyed_SomeE)
  have "linked h ((l # ys) @ [e])" and e_zs: "linked h (e # zs @ [l])"
    using ln linked_append [of h "l # ys" e "zs @ [l]"] by auto
  then have pv_e: "prv h e = Some (last (l # ys))" using linked_last_prev [of h l ys e] by simp
  have nx_e: "nxt h e = Some (hd (zs @ [l]))" using linked_hd_next [OF e_zs] .
  have pv_q: "prv h (hd (zs @ [l])) = Some e"
    using dlist_prev_next [of h l "ys @ [e]" zs] d by simp
  have nx_pr: "nxt h (last (l # ys)) = Some e"
  proof -
    obtain us pr where us: "l # ys = us @ [pr]" by (metis list.distinct(1) rev_exhaust)
    then have "linked h (us @ pr # e # zs @ [l])"
      using ln by (metis append_Cons append_assoc append_Nil)
    then show ?thesis using linked_append [of h us pr "e # zs @ [l]"] us by simp
  qed
  have pr_in: "last (l # ys) \<in> set (l # ys)" using last_in_set [of "l # ys"] by auto
  have q_in: "hd (zs @ [l]) \<in> set (l # zs)" by (cases zs) auto
  have "e \<noteq> hd (zs @ [l])" "e \<noteq> last (l # ys)" using ds q_in pr_in by auto
  then obtain h' where h': "SortedList_delete h e = Ret (0, h')"
    and nx: "\<forall>x. nxt h' x = (if x = last (l # ys) then Some (hd (zs @ [l])) else nxt h x)"
    and pv: "\<forall>x. prv h' x = (if x = hd (zs @ [l]) then Some (last (l # ys)) else prv h x)"
    and ky: "\<forall>x. key_of h' x = key_of h x"
    and fr: "\<forall>x. x \<noteq> last (l # ys) \<longrightarrow> x \<noteq> hd (zs @ [l]) \<longrightarrow> h' x = h x"
    using delete_unlink_ret [of h e ne "hd (zs @ [l])" "last (l # ys)"] ne pv_e nx_e pv_q nx_pr by auto
  have "linked h' (l # ys @ zs @ [l])" using ln ds nx pv by (rule linked_delete)
  moreover have "h' l \<noteq> None" using nx hl by (metis option.map_disc_iff option.distinct(1))
  moreover have "\<forall>x \<in> set (ys @ zs). keyed h' x"
    using ks ky by (auto simp: keyed_cong [of h' _ h])
  ultimately have "dlist h' l (ys @ zs)"
    using ds kl ky by (auto simp: dlist_def)
  moreover have "h' x = h x" if "x \<notin> set (l # ys @ zs)" for x
  proof (rule fr [rule_format])
    have "set (l # ys) \<subseteq> set (l # ys @ zs)" and "set (l # zs) \<subseteq> set (l # ys @ zs)" by auto
    with that pr_in q_in show "x \<noteq> last (l # ys)" and "x \<noteq> hd (zs @ [l])" by blast+
  qed
  ultimately show ?thesis using h' ky by auto
qed

subsection \<open>Lookup\<close>

lemma lookup_scan_ret:
  assumes "linked h (zs @ [l])" and "l \<notin> set zs" and "\<forall>x \<in> set zs. keyed h x" and "cstr k"
    and "sorted_wrt (\<lambda>x y. key_at h y \<le> key_at h x) zs"
  shows "lookup_scan h l k (hd (zs @ [l])) = Some (Ret (List.find (\<lambda>x. key_at h x = k) zs))"
  using assms
proof (induction zs)
  case Nil
  show ?case by (simp add: lookup_scan.simps)
next
  case (Cons z zs)
  obtain n k' where z: "h z = Some n" "se_key n = Some k'" "cstr k'" "key_at h z = k'"
    using Cons.prems(3) by (auto elim: keyed_SomeE)
  have nx: "se_next n = hd (zs @ [l])"
    using linked_hd_next [of h z zs l] Cons.prems(1) z(1) by simp
  have ln: "linked h (zs @ [l])" using Cons.prems(1) by (cases zs) auto
  have ih: "lookup_scan h l k (hd (zs @ [l])) = Some (Ret (List.find (\<lambda>x. key_at h x = k) zs))"
    using ln Cons.prems(2-5) by (intro Cons.IH) auto
  have "z \<noteq> l" using Cons.prems(2) by auto
  then have step: "lookup_scan h l k z =
      (if k \<le> k' then (if k = k' then Some (Ret (Some z)) else lookup_scan h l k (hd (zs @ [l])))
       else Some (Ret None))"
    by (subst lookup_scan.simps) (simp add: z nx strcmp_iffs Cons.prems(4))
  have "List.find (\<lambda>x. key_at h x = k) (z # zs) = None" if "\<not> k \<le> k'"
    using that Cons.prems(5) z(4) by (force simp: find_None_iff)
  then show ?case using step ih by (auto simp: z(4))
qed

lemma lookup_slist:
  assumes "slist h l xs" and "cstr k"
  shows "SortedList_lookup h l k = Some (Ret (List.find (\<lambda>x. key_at h x = k) xs))"
proof -
  from assms(1) have ln: "linked h (l # xs @ [l])" and ds: "distinct (l # xs)"
    and ks: "\<forall>x \<in> set xs. keyed h x" and hl: "h l \<noteq> None"
    and so: "sorted_wrt (\<lambda>x y. key_at h y \<le> key_at h x) xs"
    by (auto simp: slist_def dlist_def)
  obtain nl where nl: "h l = Some nl" "se_next nl = hd (xs @ [l])"
    using hl linked_hd_next [OF ln] by auto
  have "linked h (xs @ [l])" using ln by (cases xs) auto
  with ds ks so assms(2) nl show ?thesis
    by (simp add: SortedList_lookup_def lookup_scan_ret)
qed

subsection \<open>Length\<close>

lemma length_scan_ret:
  assumes "linked h (zs @ [l])" and "l \<notin> set zs" and "h l \<noteq> None"
  shows "length_scan h l (hd (zs @ [l])) (to_int32 c) = Some (Ret (to_int32 (c + int (length zs))))"
  using assms
proof (induction zs arbitrary: c)
  case Nil
  show ?case by (simp add: length_scan.simps)
next
  case (Cons z zs)
  obtain q qs where q: "zs @ [l] = q # qs" by (cases "zs @ [l]") auto
  with Cons.prems(1) have ln: "linked h (q # qs)" and nx: "nxt h z = Some q" and pv: "prv h q = Some z"
    by auto
  have "length_scan h l (hd (zs @ [l])) (to_int32 (c + 1)) = Some (Ret (to_int32 (c + 1 + int (length zs))))"
    using ln q Cons.prems(2,3) by (intro Cons.IH) auto
  moreover have "z \<noteq> l" using Cons.prems(2) by auto
  ultimately show ?case using nx pv q by (subst length_scan.simps) (auto simp: to_int32_add add.assoc)
qed

lemma length_linked:
  assumes "linked h (l # xs @ [l])" and "l \<notin> set xs"
  shows "SortedList_length h l = Some (Ret (to_int32 (int (length xs))))"
proof -
  obtain q qs where q: "xs @ [l] = q # qs" by (cases "xs @ [l]") auto
  with assms(1) have ln: "linked h (xs @ [l])" and nx: "nxt h l = Some q" and pv: "prv h q = Some l"
    by auto
  then have "length_scan h l q 0 = Some (Ret (to_int32 (int (length xs))))"
    using length_scan_ret [of h xs l 0] assms(2) q by auto
  with nx pv show ?thesis by (auto simp: SortedList_length_def)
qed

text \<open>
  The converse: a result other than - 1 certifies the structure. \<open>length_scan.raw_induct\<close>
  follows the loop as far as it returns.
\<close>

lemma length_scan_sound:
  assumes "length_scan h l p c = Some r"
  shows "\<forall>n k. r = Ret n \<longrightarrow> c = to_int32 k \<longrightarrow> n \<noteq> - 1 \<longrightarrow>
    (\<exists>zs. p = hd (zs @ [l]) \<and> linked h (zs @ [l]) \<and> l \<notin> set zs \<and> n = to_int32 (k + int (length zs)))"
proof (rule length_scan.raw_induct [where P = "\<lambda>h l p c r. \<forall>n k. r = Ret n \<longrightarrow> c = to_int32 k \<longrightarrow> n \<noteq> - 1 \<longrightarrow>
    (\<exists>zs. p = hd (zs @ [l]) \<and> linked h (zs @ [l]) \<and> l \<notin> set zs \<and> n = to_int32 (k + int (length zs)))", OF _ assms])
  fix f h l p c r
  assume IH: "\<And>h l p c r. f h l p c = Some r \<Longrightarrow> \<forall>n k. r = Ret n \<longrightarrow> c = to_int32 k \<longrightarrow> n \<noteq> - 1 \<longrightarrow>
      (\<exists>zs. p = hd (zs @ [l]) \<and> linked h (zs @ [l]) \<and> l \<notin> set zs \<and> n = to_int32 (k + int (length zs)))"
    and eq: "(if p = l then Some (Ret c)
      else case h p of None \<Rightarrow> Some SegFault | Some n \<Rightarrow>
        (case h (se_next n) of None \<Rightarrow> Some SegFault | Some m \<Rightarrow>
           if se_prev m \<noteq> p then Some (Ret (- 1)) else f h l (se_next n) (to_int32 (c + 1)))) = Some r"
  show "\<forall>n k. r = Ret n \<longrightarrow> c = to_int32 k \<longrightarrow> n \<noteq> - 1 \<longrightarrow>
      (\<exists>zs. p = hd (zs @ [l]) \<and> linked h (zs @ [l]) \<and> l \<notin> set zs \<and> n = to_int32 (k + int (length zs)))"
  proof (intro allI impI)
    fix n k assume r: "r = Ret n" and c: "c = to_int32 k" and n: "n \<noteq> - 1"
    show "\<exists>zs. p = hd (zs @ [l]) \<and> linked h (zs @ [l]) \<and> l \<notin> set zs \<and> n = to_int32 (k + int (length zs))"
    proof (cases "p = l")
      case True
      with eq r c show ?thesis by (intro exI [of _ "[]"]) simp
    next
      case False
      with eq r n obtain np m where m: "h p = Some np" "h (se_next np) = Some m" "se_prev m = p"
        and f: "f h l (se_next np) (to_int32 (c + 1)) = Some (Ret n)"
        by (auto split: option.splits if_splits)
      have "to_int32 (c + 1) = to_int32 (k + 1)" using c by (simp add: to_int32_add)
      with IH [OF f] n obtain zs where zs: "se_next np = hd (zs @ [l])" "linked h (zs @ [l])" "l \<notin> set zs"
        "n = to_int32 (k + 1 + int (length zs))" by blast
      then show ?thesis using m False
        by (intro exI [of _ "p # zs"]) (cases zs; auto simp: algebra_simps)
    qed
  qed
qed

lemma linked_unique:
  assumes "linked h (x # us @ [l])" and "linked h (x # vs @ [l])" and "l \<notin> set us" and "l \<notin> set vs"
  shows "us = vs"
  using assms
proof (induction us arbitrary: x vs)
  case Nil
  then show ?case by (cases vs) auto
next
  case (Cons u us)
  then obtain v vs' where vs: "vs = v # vs'" by (cases vs) auto
  with Cons.prems have "u = v" by auto
  with Cons.prems vs have "us = vs'" by (intro Cons.IH [of v]) auto
  with vs \<open>u = v\<close> show ?case by simp
qed

lemma linked_distinct:
  assumes "linked h (zs @ [l])" and "l \<notin> set zs"
  shows "distinct zs"
proof (rule ccontr)
  assume "\<not> distinct zs"
  then obtain as x bs cs where zs: "zs = as @ [x] @ bs @ [x] @ cs"
    using not_distinct_decomp by blast
  with assms(1) have "linked h (as @ x # bs @ x # cs @ [l])" by simp
  then have 1: "linked h (x # bs @ x # cs @ [l])" using linked_append by blast
  then have 2: "linked h (x # cs @ [l])" using linked_append [of h "x # bs" x "cs @ [l]"] by auto
  have "bs @ x # cs = cs"
    using linked_unique [of h x "bs @ x # cs" l cs] 1 2 assms(2) zs by simp
  then have "length (bs @ x # cs) = length cs" by (rule arg_cong)
  then show False by simp
qed

lemma length_iff:
  "SortedList_length h l = Some (Ret n) \<and> n \<noteq> - 1 \<longleftrightarrow>
    (\<exists>xs. distinct (l # xs) \<and> linked h (l # xs @ [l]) \<and> n = to_int32 (int (length xs)) \<and> n \<noteq> - 1)"
proof
  assume "SortedList_length h l = Some (Ret n) \<and> n \<noteq> - 1"
  then obtain nl m where m: "h l = Some nl" "h (se_next nl) = Some m" "se_prev m = l"
    and "length_scan h l (se_next nl) 0 = Some (Ret n)" and n: "n \<noteq> - 1"
    by (auto simp: SortedList_length_def split: option.splits if_splits)
  then obtain zs where zs: "se_next nl = hd (zs @ [l])" "linked h (zs @ [l])" "l \<notin> set zs" "n = to_int32 (int (length zs))"
    using length_scan_sound [of h l "se_next nl" 0 "Ret n", THEN spec, THEN spec, of n 0] by auto
  then have "linked h (l # zs @ [l])" using m by (cases zs) auto
  with zs n show "\<exists>xs. distinct (l # xs) \<and> linked h (l # xs @ [l]) \<and> n = to_int32 (int (length xs)) \<and> n \<noteq> - 1"
    using linked_distinct by auto
next
  assume "\<exists>xs. distinct (l # xs) \<and> linked h (l # xs @ [l]) \<and> n = to_int32 (int (length xs)) \<and> n \<noteq> - 1"
  then obtain xs where "distinct (l # xs)" "linked h (l # xs @ [l])" "n = to_int32 (int (length xs))" "n \<noteq> - 1"
    by blast
  then show "SortedList_length h l = Some (Ret n) \<and> n \<noteq> - 1" by (simp add: length_linked)
qed

end
