(* ===== verification/SortedListSteps.thy ===== *)
theory SortedListSteps
  imports SortedList
begin

text \<open>
  The operations of \<open>CS111/project2/Part_2/SortedList.c\<close> as concurrent threads execute
  them: one load or store of a list node per step (the keys are never written, so the
  comparison of two keys is one step). \<open>sl_step\<close> is the semantics the thread machine of
  \<open>lab2_list.c\<close> interleaves; the lemmas relate an undisturbed run of steps to the
  sequential operations of \<open>SortedList\<close>. The locale \<open>sorted_list_object\<close> is the
  contract of \<open>SortedList.h\<close> on which the proof about \<open>lab2_list.c\<close> rests.
\<close>

subsection \<open>Steps\<close>

datatype sl_res = RUnit | RInt int | RPtr "addr option"

datatype sl_op =
    InsStart addr addr | InsTest addr addr addr | InsNext addr addr addr
  | InsLink1 addr addr | InsLink2 addr addr addr | InsLink3 addr addr
  | InsLink4 addr addr | InsLink5 addr addr addr | InsLink6 addr addr
  | Del1 addr | Del2 addr | Del3 addr addr | Del4 addr | Del5 addr addr
  | Del6 addr | Del7 addr addr | Del8 addr addr addr | Del9 addr | Del10 addr addr | Del11 addr addr addr
  | LookStart addr string | LookTest addr string addr | LookNext addr string addr
  | LenStart addr | LenHead addr addr | LenTest addr addr int | LenNext addr addr int
  | LenCheck addr addr addr int | LenAdvance addr addr int

definition load_prev :: "heap \<Rightarrow> addr \<Rightarrow> (addr \<Rightarrow> sl_op + sl_res) \<Rightarrow> (heap \<times> (sl_op + sl_res)) outcome" where
  "load_prev h p f = obind (deref h p) (\<lambda>n. Ret (h, f (se_prev n)))"

definition load_next :: "heap \<Rightarrow> addr \<Rightarrow> (addr \<Rightarrow> sl_op + sl_res) \<Rightarrow> (heap \<times> (sl_op + sl_res)) outcome" where
  "load_next h p f = obind (deref h p) (\<lambda>n. Ret (h, f (se_next n)))"

definition load_key :: "heap \<Rightarrow> addr \<Rightarrow> string outcome" where
  "load_key h p = obind (deref h p) (\<lambda>n. case se_key n of None \<Rightarrow> SegFault | Some k \<Rightarrow> Ret k)"

definition store_prev :: "heap \<Rightarrow> addr \<Rightarrow> addr \<Rightarrow> sl_op + sl_res \<Rightarrow> (heap \<times> (sl_op + sl_res)) outcome" where
  "store_prev h p v x = obind (set_prev p v h) (\<lambda>h'. Ret (h', x))"

definition store_next :: "heap \<Rightarrow> addr \<Rightarrow> addr \<Rightarrow> sl_op + sl_res \<Rightarrow> (heap \<times> (sl_op + sl_res)) outcome" where
  "store_next h p v x = obind (set_next p v h) (\<lambda>h'. Ret (h', x))"

fun sl_step :: "sl_op \<Rightarrow> heap \<Rightarrow> (heap \<times> (sl_op + sl_res)) outcome" where
  \<comment> \<open>\<open>SortedList_insert\<close>\<close>
  "sl_step (InsStart l e) h = load_next h l (\<lambda>p. Inl (InsTest l e p))"
| "sl_step (InsTest l e p) h =
     (if p = l then Ret (h, Inl (InsLink1 e p))
      else obind (load_key h e) (\<lambda>k. obind (load_key h p) (\<lambda>k'.
             if strcmp k k' < 1 then Ret (h, Inl (InsNext l e p)) else Ret (h, Inl (InsLink1 e p)))))"
| "sl_step (InsNext l e p) h = load_next h p (\<lambda>q. Inl (InsTest l e q))"
| "sl_step (InsLink1 e p) h = load_prev h p (\<lambda>v. Inl (InsLink2 e p v))"
| "sl_step (InsLink2 e p v) h = store_prev h e v (Inl (InsLink3 e p))"
| "sl_step (InsLink3 e p) h = store_next h e p (Inl (InsLink4 e p))"
| "sl_step (InsLink4 e p) h = load_prev h p (\<lambda>v. Inl (InsLink5 e p v))"
| "sl_step (InsLink5 e p v) h = store_next h v e (Inl (InsLink6 e p))"
| "sl_step (InsLink6 e p) h = store_prev h p e (Inr RUnit)"
  \<comment> \<open>\<open>SortedList_delete\<close>\<close>
| "sl_step (Del1 e) h = obind (deref h e) (\<lambda>n. Ret (h, if se_key n = None then Inr (RInt 1) else Inl (Del2 e)))"
| "sl_step (Del2 e) h = load_next h e (\<lambda>n. Inl (Del3 e n))"
| "sl_step (Del3 e n) h = load_prev h n (\<lambda>v. if v \<noteq> e then Inr (RInt 1) else Inl (Del4 e))"
| "sl_step (Del4 e) h = load_prev h e (\<lambda>p. Inl (Del5 e p))"
| "sl_step (Del5 e p) h = load_next h p (\<lambda>v. if v \<noteq> e then Inr (RInt 1) else Inl (Del6 e))"
| "sl_step (Del6 e) h = load_next h e (\<lambda>n. Inl (Del7 e n))"
| "sl_step (Del7 e n) h = load_prev h e (\<lambda>p. Inl (Del8 e n p))"
| "sl_step (Del8 e n p) h = store_prev h n p (Inl (Del9 e))"
| "sl_step (Del9 e) h = load_prev h e (\<lambda>p. Inl (Del10 e p))"
| "sl_step (Del10 e p) h = load_next h e (\<lambda>n. Inl (Del11 e p n))"
| "sl_step (Del11 e p n) h = store_next h p n (Inr (RInt 0))"
  \<comment> \<open>\<open>SortedList_lookup\<close>\<close>
| "sl_step (LookStart l k) h = load_next h l (\<lambda>p. Inl (LookTest l k p))"
| "sl_step (LookTest l k p) h =
     (if p = l then Ret (h, Inr (RPtr None))
      else obind (load_key h p) (\<lambda>k'.
             if strcmp k k' < 1
             then (if strcmp k k' = 0 then Ret (h, Inr (RPtr (Some p))) else Ret (h, Inl (LookNext l k p)))
             else Ret (h, Inr (RPtr None))))"
| "sl_step (LookNext l k p) h = load_next h p (\<lambda>q. Inl (LookTest l k q))"
  \<comment> \<open>\<open>SortedList_length\<close>\<close>
| "sl_step (LenStart l) h = load_next h l (\<lambda>p. Inl (LenHead l p))"
| "sl_step (LenHead l p) h = load_prev h p (\<lambda>v. if v \<noteq> l then Inr (RInt (- 1)) else Inl (LenTest l p 0))"
| "sl_step (LenTest l p c) h = Ret (h, if p = l then Inr (RInt c) else Inl (LenNext l p c))"
| "sl_step (LenNext l p c) h = load_next h p (\<lambda>q. Inl (LenCheck l p q c))"
| "sl_step (LenCheck l p q c) h = load_prev h q (\<lambda>v. if v \<noteq> p then Inr (RInt (- 1)) else Inl (LenAdvance l p c))"
| "sl_step (LenAdvance l p c) h = load_next h p (\<lambda>q. Inl (LenTest l q (to_int32 (c + 1))))"

lemmas sl_mem_defs = load_prev_def load_next_def load_key_def store_prev_def store_next_def
  set_prev_def set_next_def deref_def

subsection \<open>Undisturbed runs\<close>

text \<open>
  \<open>op_ok step Q x h\<close>: run alone from heap \<open>h\<close>, the operation state \<open>x\<close> ends without a
  fault with a result and a heap that satisfy \<open>Q\<close>.
\<close>

inductive op_ok :: "('o \<Rightarrow> heap \<Rightarrow> (heap \<times> ('o + sl_res)) outcome) \<Rightarrow> (sl_res \<Rightarrow> heap \<Rightarrow> bool) \<Rightarrow>
    'o + sl_res \<Rightarrow> heap \<Rightarrow> bool"
  for step :: "'o \<Rightarrow> heap \<Rightarrow> (heap \<times> ('o + sl_res)) outcome" and Q :: "sl_res \<Rightarrow> heap \<Rightarrow> bool" where
  result: "Q r h \<Longrightarrow> op_ok step Q (Inr r) h"
| step: "step op h = Ret (h', x) \<Longrightarrow> op_ok step Q x h' \<Longrightarrow> op_ok step Q (Inl op) h"

inductive_simps op_ok_Inr [simp]: "op_ok step Q (Inr r) h"
inductive_cases op_ok_InlE: "op_ok step Q (Inl op) h"

lemma op_ok_mono: "op_ok step Q x h \<Longrightarrow> (\<And>r h. Q r h \<Longrightarrow> Q' r h) \<Longrightarrow> op_ok step Q' x h"
  by (induction rule: op_ok.induct) (auto intro: op_ok.intros)

text \<open>One step with its effect computed, for use as a rule.\<close>

lemma op_ok_stepI: "step op h = Ret (h', x) \<Longrightarrow> op_ok step Q x h' \<Longrightarrow> op_ok step Q (Inl op) h"
  by (rule op_ok.step)

lemma op_ok_link:
  assumes "insert_link e p h = Ret h'" and "Q RUnit h'"
  shows "op_ok sl_step Q (Inl (InsLink1 e p)) h"
proof -
  from assms(1) obtain n h1 h2 n2 h3 where "deref h p = Ret n" "set_prev e (se_prev n) h = Ret h1"
    "set_next e p h1 = Ret h2" "deref h2 p = Ret n2" "set_next (se_prev n2) e h2 = Ret h3" "set_prev p e h3 = Ret h'"
    by (auto simp: insert_link_def obind_Ret_iff)
  with assms(2) show ?thesis
    by (auto intro!: op_ok_stepI simp: load_prev_def store_prev_def store_next_def)
qed

lemma op_ok_insert_scan:
  assumes "insert_scan h l e p = Some r"
  shows "\<forall>q. r = Ret q \<longrightarrow> op_ok sl_step Q (Inl (InsLink1 e q)) h \<longrightarrow> op_ok sl_step Q (Inl (InsTest l e p)) h"
proof (rule insert_scan.raw_induct [where P = "\<lambda>h l e p r. \<forall>q. r = Ret q \<longrightarrow>
    op_ok sl_step Q (Inl (InsLink1 e q)) h \<longrightarrow> op_ok sl_step Q (Inl (InsTest l e p)) h", OF _ assms])
  fix f h l e p r
  assume IH: "\<And>h l e p r. f h l e p = Some r \<Longrightarrow> \<forall>q. r = Ret q \<longrightarrow>
      op_ok sl_step Q (Inl (InsLink1 e q)) h \<longrightarrow> op_ok sl_step Q (Inl (InsTest l e p)) h"
    and eq: "(if p = l then Some (Ret p)
      else case h e of None \<Rightarrow> Some SegFault | Some ne \<Rightarrow>
        (case h p of None \<Rightarrow> Some SegFault | Some n \<Rightarrow>
          (case se_key ne of None \<Rightarrow> Some SegFault | Some k \<Rightarrow>
            (case se_key n of None \<Rightarrow> Some SegFault | Some k' \<Rightarrow>
               if strcmp k k' < 1 then f h l e (se_next n) else Some (Ret p))))) = Some r"
  show "\<forall>q. r = Ret q \<longrightarrow> op_ok sl_step Q (Inl (InsLink1 e q)) h \<longrightarrow> op_ok sl_step Q (Inl (InsTest l e p)) h"
  proof (intro allI impI)
    fix q assume r: "r = Ret q" and q: "op_ok sl_step Q (Inl (InsLink1 e q)) h"
    show "op_ok sl_step Q (Inl (InsTest l e p)) h"
    proof (cases "p = l")
      case True
      with eq r q show ?thesis by (auto intro!: op_ok_stepI)
    next
      case False
      with eq r obtain ne n k k' where n: "h e = Some ne" "h p = Some n" "se_key ne = Some k" "se_key n = Some k'"
        by (auto split: option.splits)
      show ?thesis
      proof (cases "strcmp k k' < 1")
        case True
        with eq n False have "f h l e (se_next n) = Some r" by simp
        with IH r q have "op_ok sl_step Q (Inl (InsTest l e (se_next n))) h" by blast
        then have "op_ok sl_step Q (Inl (InsNext l e p)) h"
          using n by (intro op_ok_stepI) (auto simp: sl_mem_defs)
        with False n True show ?thesis by (intro op_ok_stepI) (auto simp: sl_mem_defs)
      next
        case False': False
        with eq n False r q show ?thesis by (intro op_ok_stepI) (auto simp: sl_mem_defs)
      qed
    qed
  qed
qed

lemma op_ok_insert:
  assumes "SortedList_insert h l e = Some (Ret h')" and "Q RUnit h'"
  shows "op_ok sl_step Q (Inl (InsStart l e)) h"
proof -
  from assms(1) obtain nl q where nl: "h l = Some nl" and q: "insert_scan h l e (se_next nl) = Some (Ret q)"
    and lk: "insert_link e q h = Ret h'"
    by (auto simp: SortedList_insert_def obind_Ret_iff split: option.splits)
  have "op_ok sl_step Q (Inl (InsLink1 e q)) h" using lk assms(2) by (rule op_ok_link)
  then have "op_ok sl_step Q (Inl (InsTest l e (se_next nl))) h" using op_ok_insert_scan [OF q] by blast
  with nl show ?thesis by (intro op_ok_stepI) (auto simp: sl_mem_defs)
qed

lemma op_ok_delete:
  assumes "SortedList_delete h e = Ret (0, h')" and "Q (RInt 0) h'"
  shows "op_ok sl_step Q (Inl (Del1 e)) h"
proof -
  from assms(1) obtain ne n p h1 e1 where
    "deref h e = Ret ne" "se_key ne \<noteq> None" "deref h (se_next ne) = Ret n" "se_prev n = e"
    "deref h (se_prev ne) = Ret p" "se_next p = e" "set_prev (se_next ne) (se_prev ne) h = Ret h1"
    "deref h1 e = Ret e1" "set_next (se_prev e1) (se_next e1) h1 = Ret h'"
    by (auto simp: SortedList_delete_def obind_Ret_iff split: if_splits)
  with assms(2) show ?thesis
    by (auto intro!: op_ok_stepI simp: load_prev_def load_next_def store_prev_def store_next_def)
qed

lemma op_ok_lookup_scan:
  assumes "lookup_scan h l k p = Some r"
  shows "\<forall>q. r = Ret q \<longrightarrow> Q (RPtr q) h \<longrightarrow> op_ok sl_step Q (Inl (LookTest l k p)) h"
proof (rule lookup_scan.raw_induct [where P = "\<lambda>h l k p r. \<forall>q. r = Ret q \<longrightarrow>
    Q (RPtr q) h \<longrightarrow> op_ok sl_step Q (Inl (LookTest l k p)) h", OF _ assms])
  fix f h l k p r
  assume IH: "\<And>h l k p r. f h l k p = Some r \<Longrightarrow> \<forall>q. r = Ret q \<longrightarrow>
      Q (RPtr q) h \<longrightarrow> op_ok sl_step Q (Inl (LookTest l k p)) h"
    and eq: "(if p = l then Some (Ret None)
      else case h p of None \<Rightarrow> Some SegFault | Some n \<Rightarrow>
        (case se_key n of None \<Rightarrow> Some SegFault | Some k' \<Rightarrow>
           if strcmp k k' < 1
           then (if strcmp k k' = 0 then Some (Ret (Some p)) else f h l k (se_next n))
           else Some (Ret None))) = Some r"
  show "\<forall>q. r = Ret q \<longrightarrow> Q (RPtr q) h \<longrightarrow> op_ok sl_step Q (Inl (LookTest l k p)) h"
  proof (intro allI impI)
    fix q assume r: "r = Ret q" and q: "Q (RPtr q) h"
    show "op_ok sl_step Q (Inl (LookTest l k p)) h"
    proof (cases "p = l")
      case True
      with eq r q show ?thesis by (auto intro!: op_ok_stepI)
    next
      case False
      with eq r obtain n k' where n: "h p = Some n" "se_key n = Some k'" by (auto split: option.splits)
      show ?thesis
      proof (cases "strcmp k k' < 1 \<and> strcmp k k' \<noteq> 0")
        case True
        with eq n False have "f h l k (se_next n) = Some r" by simp
        with IH r q have "op_ok sl_step Q (Inl (LookTest l k (se_next n))) h" by blast
        then have "op_ok sl_step Q (Inl (LookNext l k p)) h"
          using n by (intro op_ok_stepI) (auto simp: sl_mem_defs)
        with False n True show ?thesis by (intro op_ok_stepI) (auto simp: sl_mem_defs)
      next
        case False': False
        with eq n False r q show ?thesis
          by (intro op_ok_stepI [where x = "Inr (RPtr q)"]) (auto simp: sl_mem_defs split: if_splits)
      qed
    qed
  qed
qed

lemma op_ok_lookup:
  assumes "SortedList_lookup h l k = Some (Ret q)" and "Q (RPtr q) h"
  shows "op_ok sl_step Q (Inl (LookStart l k)) h"
proof -
  from assms(1) obtain nl where nl: "h l = Some nl" and q: "lookup_scan h l k (se_next nl) = Some (Ret q)"
    by (auto simp: SortedList_lookup_def split: option.splits)
  have "op_ok sl_step Q (Inl (LookTest l k (se_next nl))) h" using op_ok_lookup_scan [OF q] assms(2) by blast
  with nl show ?thesis by (intro op_ok_stepI) (auto simp: sl_mem_defs)
qed

lemma op_ok_length_scan:
  assumes "length_scan h l p c = Some r"
  shows "\<forall>n. r = Ret n \<longrightarrow> Q (RInt n) h \<longrightarrow> op_ok sl_step Q (Inl (LenTest l p c)) h"
proof (rule length_scan.raw_induct [where P = "\<lambda>h l p c r. \<forall>n. r = Ret n \<longrightarrow>
    Q (RInt n) h \<longrightarrow> op_ok sl_step Q (Inl (LenTest l p c)) h", OF _ assms])
  fix f h l p c r
  assume IH: "\<And>h l p c r. f h l p c = Some r \<Longrightarrow> \<forall>n. r = Ret n \<longrightarrow>
      Q (RInt n) h \<longrightarrow> op_ok sl_step Q (Inl (LenTest l p c)) h"
    and eq: "(if p = l then Some (Ret c)
      else case h p of None \<Rightarrow> Some SegFault | Some n \<Rightarrow>
        (case h (se_next n) of None \<Rightarrow> Some SegFault | Some m \<Rightarrow>
           if se_prev m \<noteq> p then Some (Ret (- 1)) else f h l (se_next n) (to_int32 (c + 1)))) = Some r"
  show "\<forall>n. r = Ret n \<longrightarrow> Q (RInt n) h \<longrightarrow> op_ok sl_step Q (Inl (LenTest l p c)) h"
  proof (intro allI impI)
    fix n assume r: "r = Ret n" and q: "Q (RInt n) h"
    show "op_ok sl_step Q (Inl (LenTest l p c)) h"
    proof (cases "p = l")
      case True
      with eq r q show ?thesis by (auto intro!: op_ok_stepI)
    next
      case False
      with eq r obtain np m where n: "h p = Some np" "h (se_next np) = Some m"
        by (auto split: option.splits)
      have "op_ok sl_step Q (Inl (LenCheck l p (se_next np) c)) h"
      proof (cases "se_prev m = p")
        case True
        with eq n False have "f h l (se_next np) (to_int32 (c + 1)) = Some r" by simp
        with IH r q have "op_ok sl_step Q (Inl (LenTest l (se_next np) (to_int32 (c + 1)))) h" by blast
        then have "op_ok sl_step Q (Inl (LenAdvance l p c)) h"
          using n by (intro op_ok_stepI) (auto simp: sl_mem_defs)
        with True n show ?thesis by (intro op_ok_stepI) (auto simp: sl_mem_defs)
      next
        case False': False
        with eq n False r q show ?thesis
          by (intro op_ok_stepI [where x = "Inr (RInt n)"]) (auto simp: sl_mem_defs)
      qed
      then have "op_ok sl_step Q (Inl (LenNext l p c)) h"
        using n by (intro op_ok_stepI) (auto simp: sl_mem_defs)
      with False show ?thesis by (intro op_ok_stepI) auto
    qed
  qed
qed

lemma op_ok_length:
  assumes "SortedList_length h l = Some (Ret n)" and "Q (RInt n) h"
  shows "op_ok sl_step Q (Inl (LenStart l)) h"
proof -
  from assms(1) obtain nl m where nl: "h l = Some nl" "h (se_next nl) = Some m"
    by (auto simp: SortedList_length_def split: option.splits)
  have "op_ok sl_step Q (Inl (LenHead l (se_next nl))) h"
  proof (cases "se_prev m = l")
    case True
    with assms(1) nl have "length_scan h l (se_next nl) 0 = Some (Ret n)" by (simp add: SortedList_length_def)
    with op_ok_length_scan assms(2) have "op_ok sl_step Q (Inl (LenTest l (se_next nl) 0)) h" by blast
    with True nl show ?thesis by (intro op_ok_stepI) (auto simp: sl_mem_defs)
  next
    case False
    with assms nl show ?thesis
      by (intro op_ok_stepI [where x = "Inr (RInt n)"]) (auto simp: sl_mem_defs SortedList_length_def)
  qed
  with nl show ?thesis by (intro op_ok_stepI) (auto simp: sl_mem_defs)
qed

subsection \<open>Locality of a step\<close>

lemma deref_Ret_iff: "deref h p = Ret n \<longleftrightarrow> h p = Some n"
  by (simp add: deref_def split: option.splits)

lemma sl_step_dom: "sl_step op h = Ret (h', x) \<Longrightarrow> dom h' = dom h"
  by (cases op) (auto simp: sl_mem_defs obind_Ret_iff split: option.splits if_splits)

lemma sl_step_key: "sl_step op h = Ret (h', x) \<Longrightarrow> key_of h' a = key_of h a"
  by (cases op) (auto simp: sl_mem_defs key_of_def obind_Ret_iff split: option.splits if_splits)

lemma map_le_someD: "h \<subseteq>\<^sub>m g \<Longrightarrow> h a = Some n \<Longrightarrow> g a = Some n"
  by (metis domI map_le_def)

lemma upd_map_add: "h \<subseteq>\<^sub>m g \<Longrightarrow> g ++ h(a \<mapsto> n) = g(a \<mapsto> n)"
  by (auto simp: map_add_def fun_eq_iff dest: map_le_someD split: option.splits)

lemma map_le_map_add_absorb: "h \<subseteq>\<^sub>m g \<Longrightarrow> g ++ h = g"
  by (auto simp: map_add_def fun_eq_iff dest: map_le_someD split: option.splits)

lemma sl_step_frame:
  assumes "sl_step op h = Ret (h', x)" and "h \<subseteq>\<^sub>m g"
  shows "sl_step op g = Ret (g ++ h', x)"
  using assms(1) map_le_someD [OF assms(2)] map_le_map_add_absorb [OF assms(2)] upd_map_add [OF assms(2)]
  by (cases op) (auto simp: sl_mem_defs obind_Ret_iff split: option.splits if_splits)

subsection \<open>The contract of SortedList.h\<close>

text \<open>
  The code a client is linked with: the semantics of a step and the entry points of the
  four operations.
\<close>

record 'o list_code =
  c_step :: "'o \<Rightarrow> heap \<Rightarrow> (heap \<times> ('o + sl_res)) outcome"
  c_insert :: "addr \<Rightarrow> addr \<Rightarrow> 'o"
  c_length :: "addr \<Rightarrow> 'o"
  c_lookup :: "addr \<Rightarrow> string \<Rightarrow> 'o"
  c_delete :: "addr \<Rightarrow> 'o"

text \<open>
  \<open>list_at h l E\<close>: the heap piece \<open>h\<close> is exactly the list with header \<open>l\<close> and
  elements \<open>E\<close>. An operation that runs alone on that piece (and on the element to be
  inserted) ends with the promised result; a step needs nothing outside the piece.
  The length is the number of elements as a 32-bit \<open>int\<close>.
\<close>

locale sorted_list_object =
  fixes code :: "'o list_code" and list_at :: "heap \<Rightarrow> addr \<Rightarrow> addr set \<Rightarrow> bool"
  assumes step_frame: "c_step code op h = Ret (h', x) \<Longrightarrow> h \<subseteq>\<^sub>m g \<Longrightarrow> c_step code op g = Ret (g ++ h', x)"
    and step_dom: "c_step code op h = Ret (h', x) \<Longrightarrow> dom h' = dom h"
    and step_key: "c_step code op h = Ret (h', x) \<Longrightarrow> key_of h' a = key_of h a"
    and empty_law: "h l = Some \<lparr>se_prev = l, se_next = l, se_key = None\<rparr> \<Longrightarrow> list_at (h |` {l}) l {}"
    and list_dom: "list_at h l E \<Longrightarrow> dom h = insert l E"
    and insert_law: "list_at (h |` insert l E) l E \<Longrightarrow> dom h = insert e (insert l E) \<Longrightarrow>
      e \<notin> insert l E \<Longrightarrow> keyed h e \<Longrightarrow>
      op_ok (c_step code) (\<lambda>r h'. r = RUnit \<and> list_at h' l (insert e E)) (Inl (c_insert code l e)) h"
    and length_law: "list_at h l E \<Longrightarrow>
      op_ok (c_step code) (\<lambda>r h'. r = RInt (to_int32 (int (card E))) \<and> h' = h) (Inl (c_length code l)) h"
    and lookup_law: "list_at h l E \<Longrightarrow> e \<in> E \<Longrightarrow> key_of h e = Some k \<Longrightarrow>
      op_ok (c_step code) (\<lambda>r h'. (\<exists>p \<in> E. r = RPtr (Some p)) \<and> h' = h) (Inl (c_lookup code l k)) h"
    and delete_law: "list_at h l E \<Longrightarrow> e \<in> E \<Longrightarrow>
      op_ok (c_step code) (\<lambda>r h'. r = RInt 0 \<and> list_at (h' |` insert l (E - {e})) l (E - {e}))
        (Inl (c_delete code e)) h"
begin

text \<open>
  A step of an operation that owns the piece of the heap on \<open>D\<close>: it happens in the whole
  heap, keeps the operation on course and leaves every other piece alone.
\<close>

lemma owned_step:
  assumes ok: "op_ok (c_step code) Q (Inl op) (g |` D)"
  shows "\<exists>g' x. c_step code op g = Ret (g', x) \<and> op_ok (c_step code) Q x (g' |` D) \<and>
    dom g' = dom g \<and> (\<forall>a. key_of g' a = key_of g a) \<and> (\<forall>D'. D' \<inter> D = {} \<longrightarrow> g' |` D' = g |` D')"
proof -
  from ok obtain h' x where st: "c_step code op (g |` D) = Ret (h', x)" and x: "op_ok (c_step code) Q x h'"
    by (auto elim: op_ok_InlE)
  have le: "g |` D \<subseteq>\<^sub>m g" by (auto simp: map_le_def)
  have d: "dom h' = dom g \<inter> D" using step_dom [OF st] by simp
  have g': "c_step code op g = Ret (g ++ h', x)" using st le by (rule step_frame)
  have "(g ++ h') |` D = h'"
  proof
    fix a show "((g ++ h') |` D) a = h' a"
      using d [THEN eqset_imp_iff, of a] by (auto simp: restrict_map_def map_add_def dom_def split: option.splits)
  qed
  moreover have "(g ++ h') |` D' = g |` D'" if "D' \<inter> D = {}" for D'
  proof
    fix a show "((g ++ h') |` D') a = (g |` D') a"
      using d [THEN eqset_imp_iff, of a] that
      by (auto simp: restrict_map_def map_add_def dom_def split: option.splits)
  qed
  moreover have "dom (g ++ h') = dom g" using d by auto
  moreover have "key_of (g ++ h') a = key_of g a" for a
    using step_key [OF st, of a] d [THEN eqset_imp_iff, of a]
    by (auto simp: key_of_def map_add_def restrict_map_def dom_def split: option.splits if_splits)
  ultimately show ?thesis using g' x by (intro exI [of _ "g ++ h'"] exI [of _ x]) auto
qed

end

subsection \<open>SortedList.c fulfils the contract\<close>

definition SortedList_code :: "sl_op list_code" where
  "SortedList_code =
     \<lparr>c_step = sl_step, c_insert = InsStart, c_length = LenStart, c_lookup = LookStart, c_delete = Del1\<rparr>"

definition sorted_list_at :: "heap \<Rightarrow> addr \<Rightarrow> addr set \<Rightarrow> bool" where
  "sorted_list_at h l E \<longleftrightarrow> dom h = insert l E \<and> (\<exists>xs. slist h l xs \<and> set xs = E)"

lemma slist_cong:
  assumes "\<And>x. x \<in> set (l # xs) \<Longrightarrow> h' x = h x"
  shows "slist h' l xs = slist h l xs"
proof -
  have "linked h' (l # xs @ [l]) = linked h (l # xs @ [l])"
  proof (rule linked_cong)
    show "nxt h' x = nxt h x" if "x \<in> set (butlast (l # xs @ [l]))" for x
      using assms that by (auto simp: butlast_append)
    show "prv h' x = prv h x" if "x \<in> set (tl (l # xs @ [l]))" for x
      using assms that by auto
  qed
  moreover have ky: "key_of h' x = key_of h x" if "x \<in> set (l # xs)" for x
    using assms that by (simp add: key_of_def)
  then have "(\<forall>x \<in> set xs. keyed h' x) = (\<forall>x \<in> set xs. keyed h x)" by (simp add: keyed_def)
  moreover have "sorted_wrt (\<lambda>x y. key_at h' y \<le> key_at h' x) xs = sorted_wrt (\<lambda>x y. key_at h y \<le> key_at h x) xs"
    using ky by (simp add: sorted_wrt_iff_nth_less key_at_def)
  ultimately show ?thesis using assms [of l] ky [of l] by (simp add: slist_def dlist_def)
qed

lemma slist_insert:
  assumes "slist h l xs" and "keyed h e" and "e \<notin> set (l # xs)"
  shows "\<exists>h'. SortedList_insert h l e = Some (Ret h') \<and> slist h' l (ins_addr h e xs) \<and>
    (\<forall>x. key_of h' x = key_of h x) \<and> (\<forall>x. x \<notin> set (l # e # xs) \<longrightarrow> h' x = h x)"
proof -
  obtain h' where h': "SortedList_insert h l e = Some (Ret h')" "dlist h' l (ins_addr h e xs)"
    "\<forall>x. key_of h' x = key_of h x" "\<forall>x. x \<notin> set (l # e # xs) \<longrightarrow> h' x = h x"
    using insert_dlist assms unfolding slist_def by blast
  have "sorted_wrt (\<lambda>x y. key_at h y \<le> key_at h x) (ins_addr h e xs)"
    using assms(1) by (intro sorted_ins_addr) (simp add: slist_def)
  with h' show ?thesis by (auto simp: slist_def key_at_def)
qed

lemma slist_delete:
  assumes "slist h l xs" and "e \<in> set xs"
  shows "\<exists>h' ys. SortedList_delete h e = Ret (0, h') \<and> slist h' l ys \<and> set ys = set xs - {e} \<and>
    (\<forall>x. key_of h' x = key_of h x) \<and> (\<forall>x. x \<notin> set (l # ys) \<longrightarrow> h' x = h x)"
proof -
  obtain ys zs where xs: "xs = ys @ e # zs" using assms(2) by (meson split_list)
  with assms(1) obtain h' where h': "SortedList_delete h e = Ret (0, h')" "dlist h' l (ys @ zs)"
    "\<forall>x. key_of h' x = key_of h x" "\<forall>x. x \<notin> set (l # ys @ zs) \<longrightarrow> h' x = h x"
    using delete_dlist unfolding slist_def by blast
  have "sorted_wrt (\<lambda>x y. key_at h y \<le> key_at h x) (ys @ zs)"
    using assms(1) unfolding slist_def xs by (auto simp: sorted_wrt_append)
  moreover have "set (ys @ zs) = set xs - {e}"
    using assms(1) unfolding slist_def dlist_def xs by auto
  ultimately show ?thesis using h' by (intro exI [of _ h'] exI [of _ "ys @ zs"]) (auto simp: slist_def key_at_def)
qed

text \<open>The links of a list are determined by its elements.\<close>

lemma linked_same:
  assumes "linked h ys" and "linked h' ys"
  shows "(x \<in> set (butlast ys) \<longrightarrow> nxt h' x = nxt h x) \<and> (x \<in> set (tl ys) \<longrightarrow> prv h' x = prv h x)"
  using assms by (induction ys rule: induct_list012) auto

lemma slist_same:
  assumes "slist h l xs" and "slist h' l xs" and "x \<in> set (l # xs)" and "key_of h' x = key_of h x"
  shows "h' x = h x"
proof -
  have "x \<in> set (butlast (l # xs @ [l]))" "x \<in> set (tl (l # xs @ [l]))" using assms(3) by (auto simp: butlast_append)
  then have "nxt h' x = nxt h x" "prv h' x = prv h x"
    using linked_same [of h "l # xs @ [l]" h' x] assms(1,2) unfolding slist_def dlist_def by blast+
  moreover have "h x \<noteq> None"
    using linked_heap [of h l "xs @ [l]" x] assms(1,3) by (auto simp: slist_def dlist_def)
  ultimately show ?thesis using assms(4)
    by (cases "h x"; cases "h' x") (auto simp: key_of_def intro: SortedListElement.equality)
qed

lemma slist_subset_dom: "slist h l xs \<Longrightarrow> set (l # xs) \<subseteq> dom h"
  using linked_heap [of h l "xs @ [l]"] by (auto simp: slist_def dlist_def)

lemma slist_restrict: "set (l # xs) \<subseteq> D \<Longrightarrow> slist (h |` D) l xs = slist h l xs"
  by (rule slist_cong) (auto simp: restrict_map_def)

lemma SortedList_code_insert:
  assumes "sorted_list_at (h |` insert l E) l E" and "dom h = insert e (insert l E)"
    and "e \<notin> insert l E" and "keyed h e"
  shows "op_ok sl_step (\<lambda>r h'. r = RUnit \<and> sorted_list_at h' l (insert e E)) (Inl (InsStart l e)) h"
proof -
  from assms(1) obtain xs where xs: "set xs = E" and "slist (h |` insert l E) l xs"
    by (auto simp: sorted_list_at_def)
  then have "slist h l xs" using slist_restrict [of l xs "insert l E" h] by simp
  then obtain h' where h': "SortedList_insert h l e = Some (Ret h')" "slist h' l (ins_addr h e xs)"
    "\<forall>x. x \<notin> set (l # e # xs) \<longrightarrow> h' x = h x"
    using slist_insert [of h l xs e] assms(3,4) xs by auto
  have "dom h' = insert l (insert e E)"
  proof
    show "insert l (insert e E) \<subseteq> dom h'" using slist_subset_dom [OF h'(2)] xs by simp
    show "dom h' \<subseteq> insert l (insert e E)"
    proof
      fix a assume a: "a \<in> dom h'"
      show "a \<in> insert l (insert e E)"
      proof (rule ccontr)
        assume "a \<notin> insert l (insert e E)"
        with h'(3) xs have "h' a = h a" by simp
        with a have "a \<in> dom h" by (metis domIff)
        with assms(2) \<open>a \<notin> insert l (insert e E)\<close> show False by auto
      qed
    qed
  qed
  with h'(2) xs have "sorted_list_at h' l (insert e E)"
    unfolding sorted_list_at_def by (metis set_ins_addr)
  with h'(1) show ?thesis by (intro op_ok_insert) auto
qed

lemma SortedList_code_delete:
  assumes "sorted_list_at h l E" and "e \<in> E"
  shows "op_ok sl_step (\<lambda>r h'. r = RInt 0 \<and> sorted_list_at (h' |` insert l (E - {e})) l (E - {e})) (Inl (Del1 e)) h"
proof -
  from assms obtain xs where xs: "slist h l xs" "set xs = E" by (auto simp: sorted_list_at_def)
  with assms(2) obtain h' ys where h': "SortedList_delete h e = Ret (0, h')" "slist h' l ys" "set ys = E - {e}"
    using slist_delete by metis
  have "slist (h' |` insert l (E - {e})) l ys" using h'(2,3) by (simp add: slist_restrict)
  moreover have "dom (h' |` insert l (E - {e})) = insert l (E - {e})"
    using slist_subset_dom [OF h'(2)] h'(3) by auto
  ultimately have "sorted_list_at (h' |` insert l (E - {e})) l (E - {e})"
    using h'(3) by (auto simp: sorted_list_at_def)
  with h'(1) show ?thesis by (intro op_ok_delete) auto
qed

lemma SortedList_code_lookup:
  assumes "sorted_list_at h l E" and "e \<in> E" and "key_of h e = Some k"
  shows "op_ok sl_step (\<lambda>r h'. (\<exists>p \<in> E. r = RPtr (Some p)) \<and> h' = h) (Inl (LookStart l k)) h"
proof -
  from assms obtain xs where xs: "slist h l xs" "set xs = E" by (auto simp: sorted_list_at_def)
  have "keyed h e" using xs assms(2) by (auto simp: slist_def dlist_def)
  with assms(3) have "cstr k" and "key_at h e = k" by (auto simp: keyed_def key_at_def)
  then obtain p where p: "List.find (\<lambda>x. key_at h x = k) xs = Some p"
    using xs(2) assms(2) by (metis (mono_tags, lifting) find_None_iff not_None_eq)
  have "SortedList_lookup h l k = Some (Ret (Some p))"
    using lookup_slist [OF xs(1) \<open>cstr k\<close>] p by simp
  moreover have "p \<in> E" using p xs(2) by (metis find_Some_iff nth_mem)
  ultimately show ?thesis by (intro op_ok_lookup) auto
qed

lemma SortedList_code_length:
  assumes "sorted_list_at h l E"
  shows "op_ok sl_step (\<lambda>r h'. r = RInt (to_int32 (int (card E))) \<and> h' = h) (Inl (LenStart l)) h"
proof -
  from assms obtain xs where xs: "slist h l xs" "set xs = E" by (auto simp: sorted_list_at_def)
  then have "length xs = card E" by (auto simp: slist_def dlist_def distinct_card)
  moreover have "SortedList_length h l = Some (Ret (to_int32 (int (length xs))))"
    using xs(1) by (intro length_linked) (auto simp: slist_def dlist_def)
  ultimately show ?thesis by (intro op_ok_length) auto
qed

lemma SortedList_code_empty:
  assumes "h l = Some \<lparr>se_prev = l, se_next = l, se_key = None\<rparr>"
  shows "sorted_list_at (h |` {l}) l {}"
proof -
  have "slist (h |` {l}) l []" using assms by (simp add: slist_def dlist_def key_of_def)
  then show ?thesis using assms by (auto simp: sorted_list_at_def)
qed

interpretation sl: sorted_list_object SortedList_code sorted_list_at
proof unfold_locales
  show "sorted_list_at h l E \<Longrightarrow> dom h = insert l E" for h l E by (simp add: sorted_list_at_def)
qed (simp_all add: SortedList_code_def sl_step_frame sl_step_dom sl_step_key SortedList_code_empty SortedList_code_insert
    SortedList_code_delete SortedList_code_lookup SortedList_code_length)

end
