(* ===== verification/Lab2List.thy ===== *)
theory Lab2List
  imports Getopt Locks SortedListSteps
begin

unbundle bit_operations_syntax

text \<open>
  \<open>CS111/project2/Part_2/lab2_list.c\<close>: threads that insert their elements into hashed
  sublists, measure the lists, look their keys up and delete them again, each sublist
  under its own mutex or spin lock. The list operations advance one memory access at a
  time (\<open>SortedListSteps\<close>), so threads interleave inside the critical sections as well.
\<close>

subsection \<open>Globals, tag, hash\<close>

record list_cfg =
  lg_lists :: int
  lg_threads :: int
  lg_iterations :: int
  lg_sync :: char
  lg_yield :: int
  lg_yargs :: string

definition list_defaults :: list_cfg where
  "list_defaults = \<lparr>lg_lists = 1, lg_threads = 1, lg_iterations = 1, lg_sync = CHR ''n'',
     lg_yield = 0, lg_yargs = []\<rparr>"

definition key_len :: nat where
  "key_len = 20"

definition sig_corrupt :: "'a outcome" where
  "sig_corrupt = Exit 2"

definition segfault_handler :: "'a outcome" where
  "segfault_handler = sig_corrupt"

definition list_get_tag :: "list_cfg \<Rightarrow> string" where
  "list_get_tag c =
     ''list-'' @ (if lg_yield c \<noteq> 0 then take 4 (lg_yargs c) else ''none'') @ ''-'' @
     (if lg_sync c = CHR ''n'' then ''none'' else [lg_sync c])"

record timespec2 =
  ts_sec :: int
  ts_nsec :: int

definition list_get_time :: "timespec2 option \<Rightarrow> timespec2 outcome" where
  "list_get_time r = (case r of None \<Rightarrow> Exit 1 | Some ts \<Rightarrow> Ret ts)"

definition list_get_runtime :: "timespec2 \<Rightarrow> timespec2 \<Rightarrow> u64" where
  "list_get_runtime t0 t1 =
     of_int ((ts_sec t1 - ts_sec t0) * 1000000000) + of_int (ts_nsec t1 - ts_nsec t0)"

text \<open>\<open>(int) key[i]\<close> for a signed \<open>char\<close>.\<close>

definition char_int :: "char \<Rightarrow> int" where
  "char_int c = (if (of_char c :: nat) < 128 then of_char c else of_char c - 256)"

definition get_key_hash :: "int \<Rightarrow> string \<Rightarrow> int outcome" where
  "get_key_hash n_lists key =
     (if strcmp key ''coarse'' = 0 then Ret 0
      else let key_sum = sum_list (map char_int key) in
           if n_lists = 0 then DivFault
           else Ret (c_mod (c_div key_sum n_lists) n_lists))"

subsection \<open>Options\<close>

definition list_long_options :: "longopt list" where
  "list_long_options =
     [\<lparr>lo_name = ''lists'', lo_arg = required_argument, lo_flag = None, lo_val = CHR ''l''\<rparr>,
      \<lparr>lo_name = ''threads'', lo_arg = required_argument, lo_flag = None, lo_val = CHR ''t''\<rparr>,
      \<lparr>lo_name = ''iterations'', lo_arg = required_argument, lo_flag = None, lo_val = CHR ''i''\<rparr>,
      \<lparr>lo_name = ''yield'', lo_arg = required_argument, lo_flag = None, lo_val = CHR ''y''\<rparr>,
      \<lparr>lo_name = ''sync'', lo_arg = required_argument, lo_flag = None, lo_val = CHR ''s''\<rparr>]"

definition list_short_options :: "(char \<times> bool) list" where
  "list_short_options =
     [(CHR ''l'', True), (CHR ''t'', True), (CHR ''i'', True), (CHR ''y'', False), (CHR ''s'', True)]"

definition INSERT_YIELD :: int where "INSERT_YIELD = 1"
definition DELETE_YIELD :: int where "DELETE_YIELD = 2"
definition LOOKUP_YIELD :: int where "LOOKUP_YIELD = 4"

fun yield_flags :: "string \<Rightarrow> int \<Rightarrow> int outcome" where
  "yield_flags [] y = Ret y"
| "yield_flags (c # cs) y =
     (if c = CHR ''i'' then yield_flags cs (y OR INSERT_YIELD)
      else if c = CHR ''d'' then yield_flags cs (y OR DELETE_YIELD)
      else if c = CHR ''l'' then yield_flags cs (y OR LOOKUP_YIELD)
      else Exit 1)"

definition list_sync_option :: "string \<Rightarrow> list_cfg \<Rightarrow> list_cfg outcome" where
  "list_sync_option arg c =
     (case arg of
        [a] \<Rightarrow> if a = CHR ''m'' \<or> a = CHR ''s'' then Ret (c\<lparr>lg_sync := a\<rparr>) else Exit 1
      | _ \<Rightarrow> Exit 1)"

text \<open>
  \<open>strcpy(y_args, optarg)\<close> copies the whole argument into the four bytes of
  \<open>y_args\<close> before it is checked; the model keeps what was copied.
\<close>

definition list_opt :: "opt_event \<Rightarrow> list_cfg \<Rightarrow> list_cfg outcome" where
  "list_opt e c =
     (if oe_ret e = CHR ''l'' then
        (case oe_arg e of None \<Rightarrow> SegFault | Some a \<Rightarrow> Ret (c\<lparr>lg_lists := to_int32 (strtol0 a)\<rparr>))
      else if oe_ret e = CHR ''t'' then
        (case oe_arg e of None \<Rightarrow> SegFault | Some a \<Rightarrow> Ret (c\<lparr>lg_threads := to_int32 (strtol0 a)\<rparr>))
      else if oe_ret e = CHR ''i'' then
        (case oe_arg e of None \<Rightarrow> SegFault | Some a \<Rightarrow> Ret (c\<lparr>lg_iterations := to_int32 (strtol0 a)\<rparr>))
      else if oe_ret e = CHR ''y'' then
        (case oe_arg e of None \<Rightarrow> SegFault
         | Some a \<Rightarrow> obind (yield_flags a 1) (\<lambda>y. Ret (c\<lparr>lg_yield := y, lg_yargs := a\<rparr>)))
      else if oe_ret e = CHR ''s'' then
        (case oe_arg e of None \<Rightarrow> SegFault | Some a \<Rightarrow> list_sync_option a c)
      else Exit 1)"

fun list_opts :: "opt_event list \<Rightarrow> list_cfg \<Rightarrow> list_cfg outcome" where
  "list_opts [] c = Ret c"
| "list_opts (e # es) c = obind (list_opt e c) (list_opts es)"

definition list_get_opts :: "string list \<Rightarrow> list_cfg outcome" where
  "list_get_opts argv = list_opts (getopt_long_all list_short_options list_long_options argv) list_defaults"

subsection \<open>Random keys\<close>

definition alphanum :: string where
  "alphanum = ''123456789'' @ ''ABCDEFGHIJKLMNOPQRSTUVWXYZ'' @ ''abcdefghijklmnopqrstuvwxyz''"

text \<open>
  \<open>gen_random s len\<close> fills \<open>s[0..len)\<close> and stores the NUL at \<open>s[len]\<close>;
  \<open>rand\<close> is the stream of results of \<open>rand()\<close>.
\<close>

definition gen_random :: "(nat \<Rightarrow> nat) \<Rightarrow> nat \<Rightarrow> string" where
  "gen_random rand len = map (\<lambda>i. alphanum ! (rand i mod length alphanum)) [0..<len] @ [CHR 0x00]"

definition random_key :: "(nat \<Rightarrow> nat) \<Rightarrow> nat \<Rightarrow> string" where
  "random_key rand k = takeWhile (\<lambda>c. c \<noteq> CHR 0x00) (gen_random (\<lambda>i. rand (k * key_len + i)) key_len)"

subsection \<open>The threads\<close>

datatype lt_phase = Insertions | Lengths | LookDel | Finished

datatype 'o lt_pc = LTest | LAcquire | LSpin | LBegin | LRun 'o | LRelease

record 'o list_thread =
  lt_phase :: lt_phase
  lt_i :: nat
  lt_pc :: "'o lt_pc"
  lt_len :: int

text \<open>\<open>ls_end\<close> is set when a thread ends the whole process.\<close>

record 'o list_sys =
  ls_heap :: heap
  ls_mutex :: "nat \<Rightarrow> mutex"
  ls_spin :: "nat \<Rightarrow> int"
  ls_wait :: "tid \<Rightarrow> u64"
  ls_created :: nat
  ls_thr :: "tid \<Rightarrow> 'o list_thread"
  ls_end :: "unit outcome option"

text \<open>The parameters of a run: lists, iterations, threads and the synchronisation.\<close>

record list_par =
  p_lists :: nat
  p_iters :: nat
  p_threads :: nat
  p_sync :: char

definition pool_addr :: "nat \<Rightarrow> addr" where
  "pool_addr i = Suc i"

definition head_addr :: "list_par \<Rightarrow> nat \<Rightarrow> addr" where
  "head_addr p j = Suc (p_threads p * p_iters p + j)"

definition lset :: "tid \<Rightarrow> 'o list_thread \<Rightarrow> 'o list_sys \<Rightarrow> 'o list_sys" where
  "lset t th s = s\<lparr>ls_thr := (ls_thr s)(t := th)\<rparr>"

definition lgoto :: "'o lt_pc \<Rightarrow> 'o list_thread \<Rightarrow> 'o list_thread" where
  "lgoto pc th = th\<lparr>lt_pc := pc\<rparr>"

definition lend :: "unit outcome \<Rightarrow> 'o list_sys \<Rightarrow> 'o list_sys" where
  "lend r s = s\<lparr>ls_end := Some r\<rparr>"

text \<open>The sublist (and its lock) the current iteration works on.\<close>

definition sublist_idx :: "list_par \<Rightarrow> heap \<Rightarrow> 'o list_thread \<Rightarrow> nat outcome" where
  "sublist_idx p h th =
     (case lt_phase th of
        Lengths \<Rightarrow> Ret (lt_i th)
      | _ \<Rightarrow> obind (load_key h (pool_addr (lt_i th))) (\<lambda>k.
             obind (get_key_hash (int (p_lists p)) k) (\<lambda>j. Ret (nat j))))"

text \<open>The test of the \<open>for\<close> loop of the current phase and the move to the next phase.\<close>

definition list_loop_test :: "list_par \<Rightarrow> tid \<Rightarrow> 'o list_thread \<Rightarrow> 'o list_thread" where
  "list_loop_test p t th =
     (case lt_phase th of
        Insertions \<Rightarrow>
          if lt_i th < (t + 1) * p_iters p then lgoto LAcquire th
          else th\<lparr>lt_phase := Lengths, lt_i := 0\<rparr>
      | Lengths \<Rightarrow>
          if lt_i th < p_lists p then lgoto LAcquire th
          else th\<lparr>lt_phase := LookDel, lt_i := t * p_iters p\<rparr>
      | LookDel \<Rightarrow>
          if lt_i th < (t + 1) * p_iters p then lgoto LAcquire th
          else th\<lparr>lt_phase := Finished\<rparr>
      | Finished \<Rightarrow> th)"

text \<open>
  Acquiring lock \<open>j\<close>; \<open>w\<close> is the measured wait, \<open>None\<close> when the clock fails. Without
  synchronisation the thread goes on at once.
\<close>

definition list_acquire :: "list_par \<Rightarrow> u64 option \<Rightarrow> tid \<Rightarrow> nat \<Rightarrow> 'o list_sys \<Rightarrow> 'o list_sys option" where
  "list_acquire p w t j s =
     (let th = ls_thr s t;
          go = (\<lambda>s. case w of
                  None \<Rightarrow> lend (Exit 1) s
                | Some d \<Rightarrow> lset t (lgoto LBegin th) (s\<lparr>ls_wait := (ls_wait s)(t := ls_wait s t + d)\<rparr>)) in
      if p_sync p = CHR ''m'' then
        (case mutex_lock (ls_mutex s j) t of
           (m, got) \<Rightarrow> if got then Some (go (s\<lparr>ls_mutex := (ls_mutex s)(j := m)\<rparr>)) else None)
      else if p_sync p = CHR ''s'' then
        (case sync_lock_test_and_set (ls_spin s j) t of
           (l, got) \<Rightarrow>
             (let s' = s\<lparr>ls_spin := (ls_spin s)(j := l)\<rparr> in
              Some (if got then go s' else lset t (lgoto LSpin th) s')))
      else Some (go s))"

definition list_release :: "list_par \<Rightarrow> tid \<Rightarrow> nat \<Rightarrow> 'o list_sys \<Rightarrow> 'o list_sys" where
  "list_release p t j s =
     (let s' = (if p_sync p = CHR ''m'' then s\<lparr>ls_mutex := (ls_mutex s)(j := mutex_unlock (ls_mutex s j) t)\<rparr>
                else if p_sync p = CHR ''s''
                then s\<lparr>ls_spin := (ls_spin s)(j := sync_lock_release (ls_spin s j) t)\<rparr>
                else s);
          th = ls_thr s t in
      lset t (th\<lparr>lt_i := Suc (lt_i th), lt_pc := LTest\<rparr>) s')"

text \<open>The operation with which the critical section of the current phase begins.\<close>

definition list_begin :: "'o list_code \<Rightarrow> list_par \<Rightarrow> heap \<Rightarrow> nat \<Rightarrow> 'o list_thread \<Rightarrow> 'o outcome" where
  "list_begin code p h j th =
     (case lt_phase th of
        Insertions \<Rightarrow> Ret (c_insert code (head_addr p j) (pool_addr (lt_i th)))
      | Lengths \<Rightarrow> Ret (c_length code (head_addr p j))
      | _ \<Rightarrow> obind (load_key h (pool_addr (lt_i th))) (\<lambda>k. Ret (c_lookup code (head_addr p j) k)))"

text \<open>What follows the result of an operation.\<close>

definition list_result :: "'o list_code \<Rightarrow> tid \<Rightarrow> sl_res \<Rightarrow> 'o list_sys \<Rightarrow> 'o list_sys" where
  "list_result code t r s =
     (let th = ls_thr s t in
      case lt_phase th of
        Insertions \<Rightarrow> lset t (lgoto LRelease th) s
      | Lengths \<Rightarrow>
          (case r of
             RInt c \<Rightarrow> if c = - 1 then lend sig_corrupt s
                       else lset t (lgoto LRelease (th\<lparr>lt_len := lt_len th + c\<rparr>)) s
           | _ \<Rightarrow> s)
      | _ \<Rightarrow>
          (case r of
             RPtr None \<Rightarrow> lend sig_corrupt s
           | RPtr (Some _) \<Rightarrow> lset t (lgoto (LRun (c_delete code (pool_addr (lt_i th)))) th) s
           | RInt c \<Rightarrow> if c = 1 then lend sig_corrupt s else lset t (lgoto LRelease th) s
           | RUnit \<Rightarrow> s))"

text \<open>
  One step of thread \<open>t\<close>; \<open>None\<close> when it has finished or waits for a mutex. A fault in
  a list operation raises \<open>SIGSEGV\<close>, whose handler ends the process.
\<close>

definition list_thread_step ::
    "'o list_code \<Rightarrow> list_par \<Rightarrow> u64 option \<Rightarrow> tid \<Rightarrow> 'o list_sys \<Rightarrow> 'o list_sys option" where
  "list_thread_step code p w t s =
     (let th = ls_thr s t in
      if lt_phase th = Finished then None
      else case lt_pc th of
        LTest \<Rightarrow> Some (lset t (list_loop_test p t th) s)
      | LRun op \<Rightarrow>
          (case c_step code op (ls_heap s) of
             Ret (h, Inl op') \<Rightarrow> Some (lset t (lgoto (LRun op') th) (s\<lparr>ls_heap := h\<rparr>))
           | Ret (h, Inr r) \<Rightarrow> Some (list_result code t r (s\<lparr>ls_heap := h\<rparr>))
           | _ \<Rightarrow> Some (lend segfault_handler s))
      | _ \<Rightarrow>
          (case sublist_idx p (ls_heap s) th of
             Ret j \<Rightarrow>
               (case lt_pc th of
                  LAcquire \<Rightarrow> list_acquire p w t j s
                | LSpin \<Rightarrow> Some (lset t (lgoto (if ls_spin s j \<noteq> 0 then LSpin else LAcquire) th) s)
                | LRelease \<Rightarrow> Some (list_release p t j s)
                | _ \<Rightarrow>
                    (case list_begin code p (ls_heap s) j th of
                       Ret op \<Rightarrow> Some (lset t (lgoto (LRun op) th) s)
                     | _ \<Rightarrow> Some (lend segfault_handler s)))
           | DivFault \<Rightarrow> Some (lend DivFault s)
           | _ \<Rightarrow> Some (lend segfault_handler s)))"

subsection \<open>main\<close>

definition list_thread_init :: "list_par \<Rightarrow> tid \<Rightarrow> 'o list_thread" where
  "list_thread_init p t = \<lparr>lt_phase = Insertions, lt_i = t * p_iters p, lt_pc = LTest, lt_len = 0\<rparr>"

text \<open>
  The heap after initialisation: elements with a key and indeterminate links
  (\<open>junk\<close>), one header per sublist linked to itself.
\<close>

definition list_init_heap :: "list_par \<Rightarrow> (nat \<Rightarrow> string) \<Rightarrow> (nat \<Rightarrow> addr \<times> addr) \<Rightarrow> heap" where
  "list_init_heap p keys junk a =
     (let K = p_threads p * p_iters p in
      if a = 0 then None
      else if a \<le> K
      then Some \<lparr>se_prev = fst (junk (a - 1)), se_next = snd (junk (a - 1)), se_key = Some (keys (a - 1))\<rparr>
      else if a \<le> K + p_lists p then Some \<lparr>se_prev = a, se_next = a, se_key = None\<rparr>
      else None)"

definition list_sys_init :: "list_par \<Rightarrow> (nat \<Rightarrow> string) \<Rightarrow> (nat \<Rightarrow> addr \<times> addr) \<Rightarrow> 'o list_sys" where
  "list_sys_init p keys junk =
     \<lparr>ls_heap = list_init_heap p keys junk, ls_mutex = (\<lambda>_. None), ls_spin = (\<lambda>_. 0), ls_wait = (\<lambda>_. 0),
      ls_created = 0, ls_thr = list_thread_init p, ls_end = None\<rparr>"

inductive list_step :: "'o list_code \<Rightarrow> list_par \<Rightarrow> 'o list_sys \<Rightarrow> 'o list_sys \<Rightarrow> bool"
  for code :: "'o list_code" and p :: list_par where
  create: "ls_end s = None \<Longrightarrow> ls_created s < p_threads p \<Longrightarrow>
    list_step code p s (s\<lparr>ls_created := Suc (ls_created s)\<rparr>)"
| create_fails: "ls_end s = None \<Longrightarrow> ls_created s < p_threads p \<Longrightarrow> list_step code p s (lend (Exit 1) s)"
| run: "ls_end s = None \<Longrightarrow> t < ls_created s \<Longrightarrow> list_thread_step code p w t s = Some s' \<Longrightarrow>
    list_step code p s s'"

inductive list_reach :: "'o list_code \<Rightarrow> list_par \<Rightarrow> (nat \<Rightarrow> string) \<Rightarrow> 'o list_sys \<Rightarrow> bool"
  for code :: "'o list_code" and p :: list_par and keys :: "nat \<Rightarrow> string" where
  start: "list_reach code p keys (list_sys_init p keys junk)"
| step: "list_reach code p keys s \<Longrightarrow> list_step code p s s' \<Longrightarrow> list_reach code p keys s'"

definition list_joined :: "list_par \<Rightarrow> 'o list_sys \<Rightarrow> bool" where
  "list_joined p s \<longleftrightarrow> ls_end s = None \<and> ls_created s = p_threads p \<and>
     (\<forall>t < p_threads p. lt_phase (ls_thr s t) = Finished)"

text \<open>The final check: the lengths of all sublists must add up to 0 at every point.\<close>

fun list_final_check :: "heap \<Rightarrow> addr list \<Rightarrow> int \<Rightarrow> int outcome option" where
  "list_final_check h [] acc = Some (Ret acc)"
| "list_final_check h (l # ls) acc =
     (case SortedList_length h l of
        None \<Rightarrow> None
      | Some (Ret n) \<Rightarrow> if to_int32 (acc + n) \<noteq> 0 then Some sig_corrupt else list_final_check h ls (to_int32 (acc + n))
      | Some _ \<Rightarrow> Some segfault_handler)"

definition list_report :: "list_cfg \<Rightarrow> timespec2 \<Rightarrow> timespec2 \<Rightarrow> u64 \<Rightarrow> string outcome" where
  "list_report c t0 t1 total_wait =
     (let runtime = list_get_runtime t0 t1;
          n_operations = of_int (to_int32 (lg_threads c * lg_iterations c * 3)) :: u64;
          n_lock_operations = of_int (to_int32 (2 * (lg_threads c * lg_iterations c) + lg_threads c)) :: u64 in
      if n_operations = 0 \<or> n_lock_operations = 0 then DivFault
      else Ret (list_get_tag c @ '','' @ fmt_d (lg_threads c) @ '','' @ fmt_d (lg_iterations c) @ '','' @
                fmt_d (lg_lists c) @ '','' @ fmt_d (sint n_operations) @ '','' @ fmt_d (sint runtime) @ '','' @
                fmt_d (sint (runtime div n_operations)) @ '','' @
                fmt_d (uint (total_wait div n_lock_operations)) @ [CHR 0x0A]))"

text \<open>
  The allocations of \<open>main\<close> up to the creation of the threads; \<open>alloc i\<close> says whether the
  \<open>i\<close>-th \<open>malloc\<close> succeeds, and a negative count becomes a huge size that never does.
  The arrays are used before the check for NULL.
\<close>

definition list_allocate :: "(nat \<Rightarrow> bool) \<Rightarrow> list_cfg \<Rightarrow> unit outcome" where
  "list_allocate alloc c =
     (let K = to_int32 (lg_threads c * lg_iterations c); L = lg_lists c;
          pool = alloc 0 \<and> 0 \<le> K; lists = alloc 1 \<and> 0 \<le> L;
          spins = alloc (2 + nat L) \<and> 0 \<le> L; mutexes = alloc (3 + nat L) \<and> 0 \<le> L in
      if 0 < L \<and> (\<not> lists \<or> \<not> spins \<or> \<not> mutexes) then SegFault
      else if \<not> pool \<or> \<not> lists \<or> \<not> spins \<or> \<not> mutexes then Exit 1
      else if \<exists>i \<in> {0..<nat L}. \<not> alloc (2 + i) then SegFault
      else if \<exists>i \<in> {0..<nat K}. \<not> alloc (4 + nat L + i) then SegFault
      else if 0 < lg_threads c \<and> \<not> alloc (4 + nat L + nat K) then SegFault
      else Ret ())"

definition par_of :: "list_cfg \<Rightarrow> list_par" where
  "par_of c = \<lparr>p_lists = nat (lg_lists c), p_iters = nat (lg_iterations c), p_threads = nat (lg_threads c),
     p_sync = lg_sync c\<rparr>"

text \<open>
  \<open>list_main argv alloc rand clk0 clk1 r\<close>: a run on \<open>argv\<close> can end with \<open>r\<close>, the printed
  record or the way it stopped before. Runs whose number of elements does not fit an
  \<open>int\<close>, undefined in C, are left out.
\<close>

inductive list_main ::
    "string list \<Rightarrow> (nat \<Rightarrow> bool) \<Rightarrow> (nat \<Rightarrow> nat) \<Rightarrow> timespec2 option \<Rightarrow> timespec2 option \<Rightarrow> string outcome \<Rightarrow> bool" where
  bad_options: "list_get_opts argv = r \<Longrightarrow> (\<And>c. r \<noteq> Ret c) \<Longrightarrow>
    list_main argv alloc rand clk0 clk1 (obind r (\<lambda>_. Ret []))"
| no_memory: "list_get_opts argv = Ret c \<Longrightarrow> list_allocate alloc c = r \<Longrightarrow> r \<noteq> Ret () \<Longrightarrow>
    list_main argv alloc rand clk0 clk1 (obind r (\<lambda>_. Ret []))"
| no_clock0: "list_get_opts argv = Ret c \<Longrightarrow> list_allocate alloc c = Ret () \<Longrightarrow>
    list_main argv alloc rand None clk1 (Exit 1)"
| ended: "list_get_opts argv = Ret c \<Longrightarrow> list_allocate alloc c = Ret () \<Longrightarrow> list_get_time clk0 = Ret t0 \<Longrightarrow>
    lg_threads c * lg_iterations c < 2 ^ 31 \<Longrightarrow>
    list_reach SortedList_code (par_of c) (random_key rand) s \<Longrightarrow> ls_end s = Some r \<Longrightarrow>
    list_main argv alloc rand clk0 clk1 (obind r (\<lambda>_. Ret []))"
| no_clock1: "list_get_opts argv = Ret c \<Longrightarrow> list_allocate alloc c = Ret () \<Longrightarrow> list_get_time clk0 = Ret t0 \<Longrightarrow>
    lg_threads c * lg_iterations c < 2 ^ 31 \<Longrightarrow>
    list_reach SortedList_code (par_of c) (random_key rand) s \<Longrightarrow> list_joined (par_of c) s \<Longrightarrow>
    list_main argv alloc rand clk0 None (Exit 1)"
| finished: "list_get_opts argv = Ret c \<Longrightarrow> list_allocate alloc c = Ret () \<Longrightarrow> list_get_time clk0 = Ret t0 \<Longrightarrow>
    lg_threads c * lg_iterations c < 2 ^ 31 \<Longrightarrow>
    list_reach SortedList_code (par_of c) (random_key rand) s \<Longrightarrow> list_joined (par_of c) s \<Longrightarrow>
    list_get_time clk1 = Ret t1 \<Longrightarrow>
    list_final_check (ls_heap s) (map (head_addr (par_of c)) [0..<p_lists (par_of c)]) 0 = Some r \<Longrightarrow>
    list_main argv alloc rand clk0 clk1
      (obind r (\<lambda>_. list_report c t0 t1 (\<Sum>t<p_threads (par_of c). ls_wait s t)))"

subsection \<open>Playing a schedule\<close>

text \<open>\<open>None\<close> creates the next thread, \<open>Some t\<close> lets thread \<open>t\<close> make a step.\<close>

fun list_play :: "'o list_code \<Rightarrow> list_par \<Rightarrow> tid option list \<Rightarrow> 'o list_sys \<Rightarrow> 'o list_sys option" where
  "list_play code p [] s = Some s"
| "list_play code p (e # es) s =
     (if ls_end s \<noteq> None then None
      else case e of
        None \<Rightarrow>
          if ls_created s < p_threads p then list_play code p es (s\<lparr>ls_created := Suc (ls_created s)\<rparr>) else None
      | Some t \<Rightarrow>
          if t < ls_created s
          then (case list_thread_step code p (Some 0) t s of None \<Rightarrow> None | Some s' \<Rightarrow> list_play code p es s')
          else None)"

lemma list_play_reach:
  assumes "list_play code p es s = Some s'" and "list_reach code p keys s"
  shows "list_reach code p keys s'"
  using assms
proof (induction es arbitrary: s)
  case (Cons e es)
  then obtain s1 where "list_step code p s s1" "list_play code p es s1 = Some s'"
    by (auto split: if_splits option.splits intro: list_step.intros)
  then show ?case using Cons.IH Cons.prems(2) list_reach.step by blast
qed simp

end
