(* ===== verification/Lab2ListInv.thy ===== *)
theory Lab2ListInv
  imports Lab2List
begin

text \<open>
  The invariant of the synchronised runs of \<open>CS111/project2/Part_2/lab2_list.c\<close>, proved
  from the contract \<open>sorted_list_object\<close> alone: every sublist is well formed unless the
  thread that holds its lock works on it, and then that thread's operation is on course.
  It follows that no thread reports a corrupted list and that all sublists are empty when
  the threads have been joined. The length of a sublist is an \<open>int\<close>: only a list of
  \<open>2 ^ 31\<close> or more elements, more than \<open>main\<close> can allocate, could be counted as - 1.
\<close>

subsection \<open>What a state looks like\<close>

definition list_hash :: "list_par \<Rightarrow> (nat \<Rightarrow> string) \<Rightarrow> nat \<Rightarrow> nat" where
  "list_hash p keys k = (case get_key_hash (int (p_lists p)) (keys k) of Ret j \<Rightarrow> nat j | _ \<Rightarrow> 0)"

definition n_elems :: "list_par \<Rightarrow> nat" where
  "n_elems p = p_threads p * p_iters p"

text \<open>Keys without a NUL that hash into the range of the sublists.\<close>

definition good_keys :: "list_par \<Rightarrow> (nat \<Rightarrow> string) \<Rightarrow> bool" where
  "good_keys p keys \<longleftrightarrow> (\<forall>k < n_elems p. cstr (keys k) \<and>
     (\<exists>j < p_lists p. get_key_hash (int (p_lists p)) (keys k) = Ret (int j)))"

definition cur_list :: "list_par \<Rightarrow> (nat \<Rightarrow> string) \<Rightarrow> 'o list_thread \<Rightarrow> nat" where
  "cur_list p keys th = (if lt_phase th = Lengths then lt_i th else list_hash p keys (lt_i th))"

text \<open>Whether element \<open>k\<close> of the thread is in its list.\<close>

definition present :: "'o list_thread \<Rightarrow> nat \<Rightarrow> bool" where
  "present th k =
     (case lt_phase th of
        Insertions \<Rightarrow> k < lt_i th \<or> k = lt_i th \<and> lt_pc th = LRelease
      | Lengths \<Rightarrow> True
      | LookDel \<Rightarrow> lt_i th < k \<or> k = lt_i th \<and> lt_pc th \<noteq> LRelease
      | Finished \<Rightarrow> False)"

definition elems :: "list_par \<Rightarrow> (nat \<Rightarrow> string) \<Rightarrow> (tid \<Rightarrow> 'o list_thread) \<Rightarrow> nat \<Rightarrow> addr set" where
  "elems p keys T j = pool_addr ` {k. k < n_elems p \<and> present (T (k div p_iters p)) k \<and> list_hash p keys k = j}"

definition holds_lock :: "'o list_thread \<Rightarrow> bool" where
  "holds_lock th \<longleftrightarrow> (case lt_pc th of LBegin \<Rightarrow> True | LRun _ \<Rightarrow> True | LRelease \<Rightarrow> True | _ \<Rightarrow> False)"

definition holders :: "list_par \<Rightarrow> (nat \<Rightarrow> string) \<Rightarrow> (tid \<Rightarrow> 'o list_thread) \<Rightarrow> nat \<Rightarrow> tid set" where
  "holders p keys T j = {t. t < p_threads p \<and> holds_lock (T t) \<and> cur_list p keys (T t) = j}"

definition list_locked :: "list_par \<Rightarrow> 'o list_sys \<Rightarrow> nat \<Rightarrow> bool" where
  "list_locked p s j \<longleftrightarrow> (if p_sync p = CHR ''m'' then ls_mutex s j \<noteq> None else ls_spin s j \<noteq> 0)"

definition thread_range :: "list_par \<Rightarrow> tid \<Rightarrow> 'o list_thread \<Rightarrow> bool" where
  "thread_range p t th \<longleftrightarrow>
     (case lt_phase th of
        Lengths \<Rightarrow> lt_i th \<le> p_lists p \<and> (lt_pc th \<noteq> LTest \<longrightarrow> lt_i th < p_lists p)
      | Finished \<Rightarrow> lt_pc th = LTest
      | _ \<Rightarrow> t * p_iters p \<le> lt_i th \<and> lt_i th \<le> (t + 1) * p_iters p \<and>
             (lt_pc th \<noteq> LTest \<longrightarrow> lt_i th < (t + 1) * p_iters p))"

text \<open>What the current operation of a thread achieves on list \<open>l\<close> with the elements \<open>E\<close>.\<close>

definition run_post :: "(heap \<Rightarrow> addr \<Rightarrow> addr set \<Rightarrow> bool) \<Rightarrow> addr \<Rightarrow> addr set \<Rightarrow> 'o list_thread \<Rightarrow>
    sl_res \<Rightarrow> heap \<Rightarrow> bool" where
  "run_post list_at l E th r h =
     (let e = pool_addr (lt_i th) in
      case lt_phase th of
        Insertions \<Rightarrow> r = RUnit \<and> list_at h l (insert e E)
      | Lengths \<Rightarrow> r = RInt (to_int32 (int (card E))) \<and> list_at h l E
      | _ \<Rightarrow> (\<exists>q. r = RPtr (Some q)) \<and> list_at h l E \<or>
            r = RInt 0 \<and> list_at (h |` insert l (E - {e})) l (E - {e}))"

definition run_area :: "addr \<Rightarrow> addr set \<Rightarrow> 'o list_thread \<Rightarrow> addr set" where
  "run_area l E th = insert l (if lt_phase th = Insertions then insert (pool_addr (lt_i th)) E else E)"

definition sub_ok :: "'o list_code \<Rightarrow> (heap \<Rightarrow> addr \<Rightarrow> addr set \<Rightarrow> bool) \<Rightarrow> list_par \<Rightarrow> (nat \<Rightarrow> string) \<Rightarrow>
    heap \<Rightarrow> (tid \<Rightarrow> 'o list_thread) \<Rightarrow> nat \<Rightarrow> bool" where
  "sub_ok code list_at p keys h T j \<longleftrightarrow>
     (let l = head_addr p j; E = elems p keys T j in
      (\<forall>t < p_threads p. \<forall>op. lt_pc (T t) = LRun op \<and> cur_list p keys (T t) = j \<longrightarrow>
         op_ok (c_step code) (run_post list_at l E (T t)) (Inl op) (h |` run_area l E (T t))) \<and>
      ((\<forall>t < p_threads p. \<forall>op. \<not> (lt_pc (T t) = LRun op \<and> cur_list p keys (T t) = j)) \<longrightarrow>
         list_at (h |` insert l E) l E))"

definition list_inv :: "'o list_code \<Rightarrow> (heap \<Rightarrow> addr \<Rightarrow> addr set \<Rightarrow> bool) \<Rightarrow> list_par \<Rightarrow> (nat \<Rightarrow> string) \<Rightarrow>
    'o list_sys \<Rightarrow> bool" where
  "list_inv code list_at p keys s \<longleftrightarrow>
     ls_created s \<le> p_threads p \<and>
     (\<forall>k < n_elems p. key_of (ls_heap s) (pool_addr k) = Some (keys k)) \<and>
     (\<forall>t < p_threads p. thread_range p t (ls_thr s t)) \<and>
     (\<forall>j < p_lists p. lock_inv (list_locked p s j) (holders p keys (ls_thr s) j)) \<and>
     (\<forall>j < p_lists p. sub_ok code list_at p keys (ls_heap s) (ls_thr s) j)"

subsection \<open>Regions of the heap\<close>

definition region :: "list_par \<Rightarrow> (nat \<Rightarrow> string) \<Rightarrow> nat \<Rightarrow> addr set" where
  "region p keys j = insert (head_addr p j) (pool_addr ` {k. k < n_elems p \<and> list_hash p keys k = j})"

lemma pool_head_neq: "k < n_elems p \<Longrightarrow> pool_addr k \<noteq> head_addr p j"
  by (simp add: pool_addr_def head_addr_def n_elems_def)

lemma pool_addr_eq [simp]: "pool_addr a = pool_addr b \<longleftrightarrow> a = b"
  by (simp add: pool_addr_def)

lemma head_addr_eq [simp]: "head_addr p a = head_addr p b \<longleftrightarrow> a = b"
  by (simp add: head_addr_def)

lemma region_disjoint:
  assumes "i \<noteq> j"
  shows "region p keys i \<inter> region p keys j = {}"
  using assms by (auto simp: region_def pool_head_neq pool_head_neq [THEN not_sym])

lemma elems_region: "insert (head_addr p j) (elems p keys T j) \<subseteq> region p keys j"
  by (auto simp: elems_def region_def)

text \<open>Index \<open>k\<close> belongs to thread \<open>k div n\<close>.\<close>

lemma block_bounds:
  "n * t \<le> k \<Longrightarrow> k < n * Suc t \<Longrightarrow> k div n = (t::nat)"
  by (metis div_nat_eqI)

lemma block_mem:
  assumes "k < n_elems p"
  shows "k div p_iters p < p_threads p" and "(k div p_iters p) * p_iters p \<le> k"
    and "k < (k div p_iters p + 1) * p_iters p"
proof -
  have n: "0 < p_iters p" using assms by (cases "p_iters p") (auto simp: n_elems_def)
  show "k div p_iters p < p_threads p"
    using assms n by (simp add: n_elems_def less_mult_imp_div_less)
  show "(k div p_iters p) * p_iters p \<le> k" by simp
  show "k < (k div p_iters p + 1) * p_iters p"
    using n by (metis Suc_eq_plus1 dividend_less_div_times add.commute mult_Suc)
qed

lemma block_less_elems: "t < p_threads p \<Longrightarrow> k < (t + 1) * p_iters p \<Longrightarrow> k < n_elems p"
  unfolding n_elems_def by (metis Suc_eq_plus1 Suc_leI less_le_trans mult_le_mono1)

lemma block_div: "t * p_iters p \<le> k \<Longrightarrow> k < (t + 1) * p_iters p \<Longrightarrow> k div p_iters p = t"
  by (rule block_bounds) (simp_all add: mult.commute)

lemma list_hash_range: "good_keys p keys \<Longrightarrow> k < n_elems p \<Longrightarrow> list_hash p keys k < p_lists p"
  by (force simp: good_keys_def list_hash_def)

lemma cur_list_range:
  assumes "good_keys p keys" and "t < p_threads p" and "thread_range p t th" and "lt_pc th \<noteq> LTest"
  shows "cur_list p keys th < p_lists p"
proof (cases "lt_phase th")
  case Lengths
  with assms show ?thesis by (simp add: cur_list_def thread_range_def)
next
  case Finished
  with assms show ?thesis by (simp add: thread_range_def)
next
  case Insertions
  with assms have "lt_i th < n_elems p" by (auto simp: thread_range_def intro: block_less_elems)
  with assms(1) Insertions show ?thesis by (simp add: cur_list_def list_hash_range)
next
  case LookDel
  with assms have "lt_i th < n_elems p" by (auto simp: thread_range_def intro: block_less_elems)
  with assms(1) LookDel show ?thesis by (simp add: cur_list_def list_hash_range)
qed

lemma run_area_region:
  assumes "t < p_threads p" and "thread_range p t th" and "lt_pc th \<noteq> LTest" and "cur_list p keys th = j"
  shows "run_area (head_addr p j) (elems p keys T j) th \<subseteq> region p keys j"
proof -
  have "pool_addr (lt_i th) \<in> region p keys j" if "lt_phase th = Insertions"
  proof -
    have "lt_i th < n_elems p" using that assms(1,2,3) by (auto simp: thread_range_def intro: block_less_elems)
    with that assms(4) show ?thesis by (auto simp: region_def cur_list_def)
  qed
  with elems_region [of p j keys T] show ?thesis by (auto simp: run_area_def)
qed


subsection \<open>What a step leaves alone\<close>

text \<open>
  The well-formedness of sublist \<open>j\<close> depends on its region of the heap, on which of its
  elements are present and on the threads that run an operation on it.
\<close>

definition same_sub :: "list_par \<Rightarrow> (nat \<Rightarrow> string) \<Rightarrow> (tid \<Rightarrow> 'o list_thread) \<Rightarrow> (tid \<Rightarrow> 'o list_thread) \<Rightarrow>
    nat \<Rightarrow> bool" where
  "same_sub p keys T T' j \<longleftrightarrow> elems p keys T' j = elems p keys T j \<and>
     (\<forall>t < p_threads p. \<forall>op. (lt_pc (T' t) = LRun op \<and> cur_list p keys (T' t) = j) \<longleftrightarrow>
        (lt_pc (T t) = LRun op \<and> cur_list p keys (T t) = j)) \<and>
     (\<forall>t < p_threads p. \<forall>op. lt_pc (T t) = LRun op \<and> cur_list p keys (T t) = j \<longrightarrow>
        lt_phase (T' t) = lt_phase (T t) \<and> lt_i (T' t) = lt_i (T t))"

lemma restrict_eq_subset: "h' |` B = h |` B \<Longrightarrow> A \<subseteq> B \<Longrightarrow> h' |` A = h |` A"
  by (metis inf.absorb_iff2 restrict_restrict)

lemma sub_ok_cong:
  assumes "sub_ok code list_at p keys h T j" and "same_sub p keys T T' j"
    and "h' |` region p keys j = h |` region p keys j"
    and "\<forall>t < p_threads p. thread_range p t (T t)"
  shows "sub_ok code list_at p keys h' T' j"
proof -
  let ?l = "head_addr p j" and ?E = "elems p keys T j"
  have e: "elems p keys T' j = ?E" using assms(2) by (simp add: same_sub_def)
  have piece: "h' |` insert ?l ?E = h |` insert ?l ?E"
    using assms(3) elems_region by (rule restrict_eq_subset)
  have ph: "lt_phase (T' t) = lt_phase (T t)" "lt_i (T' t) = lt_i (T t)"
    and pc: "lt_pc (T t) = LRun op" "cur_list p keys (T t) = j"
    if "t < p_threads p" "lt_pc (T' t) = LRun op" "cur_list p keys (T' t) = j" for t op
    using assms(2) that unfolding same_sub_def by blast+
  have run: "op_ok (c_step code) (run_post list_at ?l ?E (T' t)) (Inl op) (h' |` run_area ?l ?E (T' t))"
    if t: "t < p_threads p" "lt_pc (T' t) = LRun op" "cur_list p keys (T' t) = j" for t op
  proof -
    have "run_area ?l ?E (T' t) = run_area ?l ?E (T t)" "run_post list_at ?l ?E (T' t) = run_post list_at ?l ?E (T t)"
      using ph [OF t] by (auto simp: run_area_def run_post_def fun_eq_iff)
    moreover have "run_area ?l ?E (T t) \<subseteq> region p keys j"
      using assms(4) t(1) pc [OF t] by (intro run_area_region) auto
    then have "h' |` run_area ?l ?E (T t) = h |` run_area ?l ?E (T t)"
      using assms(3) restrict_eq_subset by blast
    ultimately show ?thesis using assms(1) t(1) pc [OF t] by (auto simp: sub_ok_def Let_def)
  qed
  have idle: "list_at (h' |` insert ?l ?E) ?l ?E"
    if "\<forall>t < p_threads p. \<forall>op. \<not> (lt_pc (T' t) = LRun op \<and> cur_list p keys (T' t) = j)"
  proof -
    have "\<forall>t < p_threads p. \<forall>op. \<not> (lt_pc (T t) = LRun op \<and> cur_list p keys (T t) = j)"
      using that assms(2) unfolding same_sub_def by blast
    with assms(1) piece show ?thesis by (simp add: sub_ok_def Let_def)
  qed
  show ?thesis using run idle by (simp add: sub_ok_def Let_def e)
qed

text \<open>A thread that changes only itself, seen from a sublist it neither works on before nor after.\<close>

lemma same_sub_upd:
  assumes "\<And>k. k < n_elems p \<Longrightarrow> k div p_iters p = t \<Longrightarrow> list_hash p keys k = j \<Longrightarrow> present th k = present (T t) k"
    and "\<And>op. lt_pc th = LRun op \<Longrightarrow> cur_list p keys th \<noteq> j"
    and "\<And>op. lt_pc (T t) = LRun op \<Longrightarrow> cur_list p keys (T t) \<noteq> j"
  shows "same_sub p keys T (T(t := th)) j"
proof -
  have "elems p keys (T(t := th)) j = elems p keys T j"
    unfolding elems_def using assms(1) by (intro arg_cong [where f = "image pool_addr"] Collect_cong) auto
  then show ?thesis using assms(2,3) by (auto simp: same_sub_def)
qed

lemma holders_upd:
  "holders p keys (T(t := th)) j =
     (if t < p_threads p \<and> holds_lock th \<and> cur_list p keys th = j then insert t (holders p keys T j)
      else holders p keys T j - {t})"
  by (auto simp: holders_def)


subsection \<open>Steps outside the list operations\<close>

definition list_synchronised :: "list_par \<Rightarrow> bool" where
  "list_synchronised p \<longleftrightarrow> p_sync p = CHR ''m'' \<or> p_sync p = CHR ''s''"

lemma list_invD:
  assumes "list_inv code list_at p keys s"
  shows "\<And>k. k < n_elems p \<Longrightarrow> key_of (ls_heap s) (pool_addr k) = Some (keys k)"
    and "\<And>t. t < p_threads p \<Longrightarrow> thread_range p t (ls_thr s t)"
    and "\<And>j. j < p_lists p \<Longrightarrow> lock_inv (list_locked p s j) (holders p keys (ls_thr s) j)"
    and "\<And>j. j < p_lists p \<Longrightarrow> sub_ok code list_at p keys (ls_heap s) (ls_thr s) j"
  using assms by (simp_all add: list_inv_def)

lemma list_inv_quiet:
  assumes inv: "list_inv code list_at p keys s" and t: "t < p_threads p"
    and s': "ls_heap s' = ls_heap s" "ls_thr s' = (ls_thr s)(t := th)" "ls_created s' = ls_created s"
    and rng: "thread_range p t th"
    and pres: "\<And>k. k < n_elems p \<Longrightarrow> k div p_iters p = t \<Longrightarrow> present th k = present (ls_thr s t) k"
    and idle: "\<And>op. lt_pc th \<noteq> LRun op" "\<And>op. lt_pc (ls_thr s t) \<noteq> LRun op"
    and lock: "\<And>j. j < p_lists p \<Longrightarrow> lock_inv (list_locked p s' j) (holders p keys (ls_thr s') j)"
  shows "list_inv code list_at p keys s'"
proof -
  have "sub_ok code list_at p keys (ls_heap s') (ls_thr s') j" if "j < p_lists p" for j
  proof (rule sub_ok_cong [OF list_invD(4) [OF inv that]])
    show "same_sub p keys (ls_thr s) (ls_thr s') j"
      unfolding s' using pres idle by (intro same_sub_upd) auto
  qed (use inv s' in \<open>auto simp: list_inv_def\<close>)
  with inv rng lock s' show ?thesis by (auto simp: list_inv_def)
qed

lemma list_locked_simps [simp]:
  "list_locked p (lset t th s) j = list_locked p s j"
  "list_locked p (s\<lparr>ls_wait := w\<rparr>) j = list_locked p s j"
  "list_locked p (s\<lparr>ls_heap := h\<rparr>) j = list_locked p s j"
  "list_locked p (s\<lparr>ls_created := c\<rparr>) j = list_locked p s j"
  by (simp_all add: list_locked_def lset_def)

lemma lset_simps [simp]:
  "ls_heap (lset t th s) = ls_heap s" "ls_thr (lset t th s) = (ls_thr s)(t := th)"
  "ls_created (lset t th s) = ls_created s" "ls_mutex (lset t th s) = ls_mutex s" "ls_spin (lset t th s) = ls_spin s"
  "ls_end (lset t th s) = ls_end s"
  by (simp_all add: lset_def)

lemma list_inv_wait: "list_inv code list_at p keys (s\<lparr>ls_wait := w\<rparr>) = list_inv code list_at p keys s"
  by (simp add: list_inv_def)

lemma present_loop_test:
  assumes "thread_range p t th" and "lt_pc th = LTest" and "t * p_iters p \<le> k" and "k < (t + 1) * p_iters p"
  shows "present (list_loop_test p t th) k = present th k"
  using assms by (auto simp: present_def list_loop_test_def thread_range_def lgoto_def split: lt_phase.splits)

lemma range_loop_test:
  assumes "thread_range p t th" and "lt_pc th = LTest"
  shows "thread_range p t (list_loop_test p t th)"
  using assms by (auto simp: list_loop_test_def thread_range_def lgoto_def split: lt_phase.splits)

lemma pc_loop_test: "lt_pc th = LTest \<Longrightarrow> lt_pc (list_loop_test p t th) = LTest \<or> lt_pc (list_loop_test p t th) = LAcquire"
  by (auto simp: list_loop_test_def lgoto_def split: lt_phase.splits)

text \<open>A step between the points where no lock is held.\<close>

lemma list_inv_unlocked:
  assumes inv: "list_inv code list_at p keys s" and t: "t < p_threads p" and rng: "thread_range p t th"
    and pres: "\<And>k. k < n_elems p \<Longrightarrow> k div p_iters p = t \<Longrightarrow> present th k = present (ls_thr s t) k"
    and pc: "\<not> holds_lock th" "\<not> holds_lock (ls_thr s t)"
  shows "list_inv code list_at p keys (lset t th s)"
proof (rule list_inv_quiet [OF inv t _ _ _ rng pres])
  show "lock_inv (list_locked p (lset t th s) j) (holders p keys (ls_thr (lset t th s)) j)" if "j < p_lists p" for j
  proof -
    have "t \<notin> holders p keys (ls_thr s) j" using pc(2) by (simp add: holders_def)
    then show ?thesis using list_invD(3) [OF inv that] pc(1)
      by (simp add: holders_upd)
  qed
qed (use pc in \<open>auto simp: holds_lock_def\<close>)

lemma list_inv_test:
  assumes inv: "list_inv code list_at p keys s" and t: "t < p_threads p" and pc: "lt_pc (ls_thr s t) = LTest"
  shows "list_inv code list_at p keys (lset t (list_loop_test p t (ls_thr s t)) s)"
proof (rule list_inv_unlocked [OF inv t])
  show "present (list_loop_test p t (ls_thr s t)) k = present (ls_thr s t) k"
    if "k < n_elems p" "k div p_iters p = t" for k
    using present_loop_test [OF list_invD(2) [OF inv t] pc] block_mem [OF that(1)] that(2) by blast
  show "\<not> holds_lock (list_loop_test p t (ls_thr s t))"
    using pc_loop_test [OF pc, of p t] by (auto simp: holds_lock_def)
qed (use pc list_invD(2) [OF inv t] in \<open>auto simp: holds_lock_def intro: range_loop_test\<close>)

lemma range_goto:
  "thread_range p t th \<Longrightarrow> lt_pc th \<noteq> LTest \<Longrightarrow> thread_range p t (lgoto pc th)"
  by (auto simp: thread_range_def lgoto_def split: lt_phase.splits)

lemma present_goto: "lt_pc th \<noteq> LRelease \<Longrightarrow> pc \<noteq> LRelease \<Longrightarrow> present (lgoto pc th) k = present th k"
  by (auto simp: present_def lgoto_def split: lt_phase.splits)

lemma cur_list_goto [simp]: "cur_list p keys (lgoto pc th) = cur_list p keys th"
  by (simp add: cur_list_def lgoto_def)

lemma lgoto_simps [simp]:
  "lt_pc (lgoto pc th) = pc" "lt_phase (lgoto pc th) = lt_phase th" "lt_i (lgoto pc th) = lt_i th"
  "lt_len (lgoto pc th) = lt_len th"
  by (simp_all add: lgoto_def)

lemma run_post_goto [simp]: "run_post list_at l E (lgoto pc th) = run_post list_at l E th"
  by (simp add: run_post_def lgoto_def fun_eq_iff)

lemma run_area_goto [simp]: "run_area l E (lgoto pc th) = run_area l E th"
  by (simp add: run_area_def lgoto_def)

lemma holders_acquire:
  assumes "lt_pc (T t) = LAcquire" and "t < p_threads p"
  shows "holders p keys (T(t := lgoto LBegin (T t))) j =
    (if cur_list p keys (T t) = j then insert t (holders p keys T j) else holders p keys T j)"
proof -
  have "t \<notin> holders p keys T j" using assms(1) by (simp add: holders_def holds_lock_def)
  then show ?thesis using assms(2) by (simp add: holders_upd) (simp add: holds_lock_def lgoto_def)
qed

lemma list_inv_begin_cs:
  assumes inv: "list_inv code list_at p keys s" and t: "t < p_threads p" and pc: "lt_pc (ls_thr s t) = LAcquire"
    and j: "j = cur_list p keys (ls_thr s t)"
    and s1: "ls_heap s1 = ls_heap s" "ls_thr s1 = ls_thr s" "ls_created s1 = ls_created s"
    and lk: "lock_inv (list_locked p s j) (holders p keys (ls_thr s) j) \<Longrightarrow>
        lock_inv (list_locked p s1 j) (insert t (holders p keys (ls_thr s) j))"
    and other: "\<And>i. i \<noteq> j \<Longrightarrow> list_locked p s1 i = list_locked p s i"
  shows "list_inv code list_at p keys (lset t (lgoto LBegin (ls_thr s t)) s1)"
proof (rule list_inv_quiet [OF inv t])
  let ?th = "ls_thr s t"
  show "lock_inv (list_locked p (lset t (lgoto LBegin ?th) s1) i)
      (holders p keys (ls_thr (lset t (lgoto LBegin ?th) s1)) i)" if "i < p_lists p" for i
    using list_invD(3) [OF inv that] lk other [of i] holders_acquire [of "ls_thr s", OF pc t] s1 j by auto
  show "present (lgoto LBegin ?th) k = present ?th k" for k using pc by (intro present_goto) auto
  show "thread_range p t (lgoto LBegin ?th)"
    using list_invD(2) [OF inv t] pc by (intro range_goto) auto
qed (use s1 pc in \<open>auto simp: lgoto_def\<close>)

lemma list_inv_no_lock:
  assumes inv: "list_inv code list_at p keys s" and t: "t < p_threads p"
    and pc: "lt_pc (ls_thr s t) = LAcquire \<or> lt_pc (ls_thr s t) = LSpin" and pc': "pc' = LAcquire \<or> pc' = LSpin"
    and s1: "ls_heap s1 = ls_heap s" "ls_thr s1 = ls_thr s" "ls_created s1 = ls_created s"
    and lk: "\<And>i. list_locked p s1 i = list_locked p s i"
  shows "list_inv code list_at p keys (lset t (lgoto pc' (ls_thr s t)) s1)"
proof (rule list_inv_quiet [OF inv t])
  let ?th = "ls_thr s t"
  have "t \<notin> holders p keys (ls_thr s) i" for i using pc by (auto simp: holders_def holds_lock_def)
  moreover have "\<not> holds_lock (lgoto pc' ?th)" using pc' by (auto simp: holds_lock_def lgoto_def)
  ultimately show "lock_inv (list_locked p (lset t (lgoto pc' ?th) s1) i)
      (holders p keys (ls_thr (lset t (lgoto pc' ?th) s1)) i)" if "i < p_lists p" for i
    using list_invD(3) [OF inv that] lk s1 by (simp add: holders_upd)
  show "present (lgoto pc' ?th) k = present ?th k" for k using pc pc' by (intro present_goto) auto
  show "thread_range p t (lgoto pc' ?th)"
    using list_invD(2) [OF inv t] pc by (intro range_goto) auto
qed (use s1 pc pc' in \<open>auto simp: lgoto_def\<close>)

text \<open>A run that has not ended keeps the invariant; it ends early only with \<open>exit(1)\<close>.\<close>

definition list_safe :: "'o list_code \<Rightarrow> (heap \<Rightarrow> addr \<Rightarrow> addr set \<Rightarrow> bool) \<Rightarrow> list_par \<Rightarrow> (nat \<Rightarrow> string) \<Rightarrow>
    'o list_sys \<Rightarrow> bool" where
  "list_safe code list_at p keys s \<longleftrightarrow>
     ls_end s = Some (Exit 1) \<or> ls_end s = Some sig_corrupt \<and> 2 ^ 31 \<le> n_elems p \<or>
     ls_end s = None \<and> list_inv code list_at p keys s"

lemma list_inv_acquire:
  assumes inv: "list_inv code list_at p keys s" and run: "ls_end s = None"
    and t: "t < p_threads p" and pc: "lt_pc (ls_thr s t) = LAcquire"
    and sync: "list_synchronised p" and j: "j = cur_list p keys (ls_thr s t)"
    and st: "list_acquire p w t j s = Some s'"
  shows "list_safe code list_at p keys s'"
proof -
  have got: "list_safe code list_at p keys s'"
    if s': "s' = (case w of None \<Rightarrow> lend (Exit 1) s1
        | Some d \<Rightarrow> lset t (lgoto LBegin (ls_thr s t)) (s1\<lparr>ls_wait := (ls_wait s)(t := ls_wait s t + d)\<rparr>))"
      and s1: "ls_heap s1 = ls_heap s" "ls_thr s1 = ls_thr s" "ls_created s1 = ls_created s" "ls_end s1 = None"
      and lk: "lock_inv (list_locked p s j) (holders p keys (ls_thr s) j) \<Longrightarrow>
        lock_inv (list_locked p s1 j) (insert t (holders p keys (ls_thr s) j))"
      and other: "\<And>i. i \<noteq> j \<Longrightarrow> list_locked p s1 i = list_locked p s i" for s1
    using s' s1 lk other list_inv_begin_cs [OF inv t pc j]
    by (cases w) (auto simp: list_safe_def lend_def)
  show ?thesis
  proof (cases "p_sync p = CHR ''m''")
    case True
    with st obtain m where m: "mutex_lock (ls_mutex s j) t = (m, True)"
      and s': "s' = (case w of None \<Rightarrow> lend (Exit 1) (s\<lparr>ls_mutex := (ls_mutex s)(j := m)\<rparr>)
        | Some d \<Rightarrow> lset t (lgoto LBegin (ls_thr s t)) (s\<lparr>ls_mutex := (ls_mutex s)(j := m),
            ls_wait := (ls_wait s)(t := ls_wait s t + d)\<rparr>))"
      by (cases w) (auto simp: list_acquire_def Let_def split: prod.splits if_splits)
    show ?thesis
      by (rule got [of "s\<lparr>ls_mutex := (ls_mutex s)(j := m)\<rparr>"])
        (use True run s' pmutex.inv_acquire [OF _ m] in \<open>simp_all add: list_locked_def\<close>)
  next
    case False
    with sync have s: "p_sync p = CHR ''s''" by (simp add: list_synchronised_def)
    obtain l g where l: "sync_lock_test_and_set (ls_spin s j) t = (l, g)" by fastforce
    show ?thesis
    proof (cases g)
      case True
      with st s l have s': "s' = (case w of None \<Rightarrow> lend (Exit 1) (s\<lparr>ls_spin := (ls_spin s)(j := l)\<rparr>)
        | Some d \<Rightarrow> lset t (lgoto LBegin (ls_thr s t)) (s\<lparr>ls_spin := (ls_spin s)(j := l),
            ls_wait := (ls_wait s)(t := ls_wait s t + d)\<rparr>))"
        by (cases w) (auto simp: list_acquire_def Let_def)
      show ?thesis
        by (rule got [of "s\<lparr>ls_spin := (ls_spin s)(j := l)\<rparr>"])
          (use True run s s' spin.inv_acquire [of "ls_spin s j" _ t l] l in \<open>simp_all add: list_locked_def\<close>)
    next
      case False
      with st s l have "s' = lset t (lgoto LSpin (ls_thr s t)) (s\<lparr>ls_spin := (ls_spin s)(j := l)\<rparr>)"
        by (auto simp: list_acquire_def Let_def)
      moreover have "list_locked p (s\<lparr>ls_spin := (ls_spin s)(j := l)\<rparr>) i = list_locked p s i" for i
        using False l s spin.acquire_iff [of "ls_spin s j" t] spin.acquire_locks [of "ls_spin s j" t]
        by (auto simp: list_locked_def)
      ultimately show ?thesis
        using list_inv_no_lock [OF inv t] pc run by (simp add: list_safe_def)
    qed
  qed
qed

lemma present_release:
  assumes "lt_pc th = LRelease"
  shows "present (th\<lparr>lt_i := Suc (lt_i th), lt_pc := LTest\<rparr>) k = present th k"
  using assms by (auto simp: present_def split: lt_phase.splits)

lemma list_inv_release:
  assumes inv: "list_inv code list_at p keys s"
    and t: "t < p_threads p" and pc: "lt_pc (ls_thr s t) = LRelease"
    and sync: "list_synchronised p" and j: "j = cur_list p keys (ls_thr s t)"
  shows "list_inv code list_at p keys (list_release p t j s)"
proof (rule list_inv_quiet [OF inv t])
  let ?th = "(ls_thr s t)\<lparr>lt_i := Suc (lt_i (ls_thr s t)), lt_pc := LTest\<rparr>"
  show "ls_thr (list_release p t j s) = (ls_thr s)(t := ?th)" by (simp add: list_release_def Let_def)
  show "thread_range p t ?th"
    using list_invD(2) [OF inv t] pc by (auto simp: thread_range_def split: lt_phase.splits)
  show "lock_inv (list_locked p (list_release p t j s) i) (holders p keys (ls_thr (list_release p t j s)) i)"
    if "i < p_lists p" for i
  proof -
    have hs: "holders p keys (ls_thr (list_release p t j s)) i = holders p keys (ls_thr s) i - {t}"
      by (simp add: list_release_def Let_def holders_upd) (simp add: holds_lock_def)
    have old: "lock_inv (list_locked p s i) (holders p keys (ls_thr s) i)" using inv that by (rule list_invD)
    show ?thesis
    proof (cases "i = j")
      case True
      then have "t \<in> holders p keys (ls_thr s) i" using pc t j by (simp add: holders_def holds_lock_def)
      with old sync True show ?thesis unfolding hs
        using pmutex.inv_release [of "ls_mutex s j" "holders p keys (ls_thr s) i" t]
          spin.inv_release [of "ls_spin s j" "holders p keys (ls_thr s) i" t]
        by (auto simp: list_release_def Let_def list_synchronised_def list_locked_def)
    next
      case False
      then have "t \<notin> holders p keys (ls_thr s) i" using j by (simp add: holders_def)
      moreover have "list_locked p (list_release p t j s) i = list_locked p s i"
        using False by (simp add: list_release_def Let_def) (simp add: list_locked_def)
      ultimately show ?thesis unfolding hs using old by simp
    qed
  qed
qed (use pc in \<open>auto simp: list_release_def Let_def present_release\<close>)


subsection \<open>Steps of the list operations\<close>

lemma holder_alone:
  assumes inv: "list_inv code list_at p keys s" and gk: "good_keys p keys"
    and t: "t < p_threads p" and hl: "holds_lock (ls_thr s t)" and u: "u < p_threads p" "u \<noteq> t"
    and pc: "lt_pc (ls_thr s u) = LRun op"
  shows "cur_list p keys (ls_thr s u) \<noteq> cur_list p keys (ls_thr s t)"
proof
  let ?j = "cur_list p keys (ls_thr s t)"
  assume eq: "cur_list p keys (ls_thr s u) = ?j"
  have "lt_pc (ls_thr s t) \<noteq> LTest" using hl by (auto simp: holds_lock_def)
  then have "?j < p_lists p" using cur_list_range [OF gk t list_invD(2) [OF inv t]] by blast
  then have "lock_inv (list_locked p s ?j) (holders p keys (ls_thr s) ?j)" by (rule list_invD(3) [OF inv])
  moreover have "t \<in> holders p keys (ls_thr s) ?j" using t hl by (simp add: holders_def)
  moreover have "u \<in> holders p keys (ls_thr s) ?j" using u(1) pc eq by (simp add: holders_def holds_lock_def)
  ultimately show False using u(2) lock_inv_unique by metis
qed

lemma sub_ok_running:
  assumes "t < p_threads p" and "lt_pc th = LRun op" and "cur_list p keys th = j"
    and "\<And>u op. u < p_threads p \<Longrightarrow> u \<noteq> t \<Longrightarrow> lt_pc (T u) = LRun op \<Longrightarrow> cur_list p keys (T u) \<noteq> j"
    and "E = elems p keys (T(t := th)) j"
    and "op_ok (c_step code) (run_post list_at (head_addr p j) E th) (Inl op) (h |` run_area (head_addr p j) E th)"
  shows "sub_ok code list_at p keys h (T(t := th)) j"
  using assms unfolding sub_ok_def Let_def by fastforce

lemma sub_ok_idle:
  assumes "\<And>op. lt_pc th \<noteq> LRun op"
    and "\<And>u op. u < p_threads p \<Longrightarrow> u \<noteq> t \<Longrightarrow> lt_pc (T u) = LRun op \<Longrightarrow> cur_list p keys (T u) \<noteq> j"
    and "E = elems p keys (T(t := th)) j"
    and "list_at (h |` insert (head_addr p j) E) (head_addr p j) E"
  shows "sub_ok code list_at p keys h (T(t := th)) j"
  using assms unfolding sub_ok_def Let_def by fastforce

text \<open>Between \<open>LBegin\<close> and \<open>LRelease\<close> a thread only touches its sublist.\<close>

lemma list_inv_inside:
  assumes inv: "list_inv code list_at p keys s" and gk: "good_keys p keys" and t: "t < p_threads p"
    and hl: "holds_lock (ls_thr s t)" "lt_pc (ls_thr s t) \<noteq> LRelease" "holds_lock th"
    and th: "lt_phase th = lt_phase (ls_thr s t)" "lt_i th = lt_i (ls_thr s t)"
    and j: "j = cur_list p keys (ls_thr s t)"
    and h': "\<And>D. D \<inter> region p keys j = {} \<Longrightarrow> h' |` D = ls_heap s |` D" "\<And>a. key_of h' a = key_of (ls_heap s) a"
    and sub: "sub_ok code list_at p keys h' ((ls_thr s)(t := th)) j"
  shows "list_inv code list_at p keys (lset t th (s\<lparr>ls_heap := h'\<rparr>))"
proof -
  let ?th = "ls_thr s t"
  have rng: "thread_range p t ?th" by (rule list_invD(2) [OF inv t])
  have pc: "lt_pc ?th \<noteq> LTest" using hl(1) by (auto simp: holds_lock_def)
  have j': "cur_list p keys th = j" using th j by (simp add: cur_list_def)
  have "sub_ok code list_at p keys h' ((ls_thr s)(t := th)) i" if "i < p_lists p" for i
  proof (cases "i = j")
    case False
    show ?thesis
    proof (rule sub_ok_cong [OF list_invD(4) [OF inv that]])
      show "same_sub p keys (ls_thr s) ((ls_thr s)(t := th)) i"
      proof (rule same_sub_upd)
        show "present th k = present ?th k"
          if "k < n_elems p" "k div p_iters p = t" "list_hash p keys k = i" for k
        proof -
          have "k \<noteq> lt_i ?th \<or> lt_phase ?th = Lengths" using that(3) False j by (metis cur_list_def)
          with th show ?thesis by (auto simp: present_def split: lt_phase.splits)
        qed
      qed (use j j' False in auto)
      show "h' |` region p keys i = ls_heap s |` region p keys i"
        by (intro h' region_disjoint False)
      show "\<forall>t<p_threads p. thread_range p t (ls_thr s t)" using inv by (simp add: list_inv_def)
    qed
  qed (use sub in simp)
  moreover have "holders p keys ((ls_thr s)(t := th)) i = holders p keys (ls_thr s) i" for i
    using hl j j' t by (auto simp: holders_def)
  moreover have "thread_range p t th"
  proof -
    have "lt_pc th \<noteq> LTest" using hl(3) by (auto simp: holds_lock_def)
    then show ?thesis using rng th pc hl(3) by (auto simp: thread_range_def split: lt_phase.splits)
  qed
  ultimately show ?thesis using inv h'(2) by (simp add: list_inv_def)
qed

lemma cur_elem:
  assumes inv: "list_inv code list_at p keys s" and t: "t < p_threads p"
    and pc: "lt_pc (ls_thr s t) \<noteq> LTest" and ph: "lt_phase (ls_thr s t) \<noteq> Lengths"
  shows "lt_i (ls_thr s t) < n_elems p" and "lt_i (ls_thr s t) div p_iters p = t"
    and "list_hash p keys (lt_i (ls_thr s t)) = cur_list p keys (ls_thr s t)"
  using list_invD(2) [OF inv t] t pc ph
  by (auto simp: thread_range_def cur_list_def intro: block_less_elems block_div split: lt_phase.splits)

lemma sublist_idx_inv:
  assumes inv: "list_inv code list_at p keys s" and gk: "good_keys p keys" and t: "t < p_threads p"
    and pc: "lt_pc (ls_thr s t) \<noteq> LTest" and fin: "lt_phase (ls_thr s t) \<noteq> Finished"
  shows "sublist_idx p (ls_heap s) (ls_thr s t) = Ret (cur_list p keys (ls_thr s t))"
proof (cases "lt_phase (ls_thr s t) = Lengths")
  case False
  let ?i = "lt_i (ls_thr s t)"
  have i: "?i < n_elems p" by (rule cur_elem [OF inv t pc False])
  have "load_key (ls_heap s) (pool_addr ?i) = Ret (keys ?i)"
    using list_invD(1) [OF inv i] by (auto simp: load_key_def deref_def key_of_def split: option.splits Option.bind_splits)
  moreover obtain j where "get_key_hash (int (p_lists p)) (keys ?i) = Ret (int j)" using gk i by (auto simp: good_keys_def)
  ultimately show ?thesis using False
    by (cases "lt_phase (ls_thr s t)") (simp_all add: sublist_idx_def cur_list_def list_hash_def)
qed (simp add: sublist_idx_def cur_list_def)

lemma elems_goto:
  assumes "\<And>k. present th k = present (T t) k"
  shows "elems p keys (T(t := th)) j = elems p keys T j"
  unfolding elems_def using assms by (intro arg_cong [where f = "image pool_addr"] Collect_cong) auto

lemma elems_inserted:
  assumes ph: "lt_phase (T t) = Insertions" "lt_phase th = Insertions" "lt_i th = lt_i (T t)"
    and pc: "lt_pc (T t) \<noteq> LRelease" "lt_pc th = LRelease"
    and i: "lt_i (T t) < n_elems p" "lt_i (T t) div p_iters p = t" "list_hash p keys (lt_i (T t)) = j"
  shows "elems p keys (T(t := th)) j = insert (pool_addr (lt_i (T t))) (elems p keys T j)"
  unfolding elems_def image_insert [symmetric] using assms
  by (intro arg_cong [where f = "image pool_addr"]) (auto simp: present_def)

lemma elems_deleted:
  assumes ph: "lt_phase (T t) = LookDel" "lt_phase th = LookDel" "lt_i th = lt_i (T t)"
    and pc: "lt_pc (T t) \<noteq> LRelease" "lt_pc th = LRelease"
    and i: "lt_i (T t) div p_iters p = t"
  shows "elems p keys (T(t := th)) j = elems p keys T j - {pool_addr (lt_i (T t))}"
proof -
  have "{k. k < n_elems p \<and> present ((T(t := th)) (k div p_iters p)) k \<and> list_hash p keys k = j} =
      {k. k < n_elems p \<and> present (T (k div p_iters p)) k \<and> list_hash p keys k = j} - {lt_i (T t)}"
    using assms by (auto simp: present_def)
  then show ?thesis by (simp add: elems_def image_set_diff inj_on_def)
qed


text \<open>The elements of the list once the lock is released.\<close>

definition after_elems :: "'o list_thread \<Rightarrow> addr set \<Rightarrow> addr set" where
  "after_elems th E =
     (case lt_phase th of Insertions \<Rightarrow> insert (pool_addr (lt_i th)) E | Lengths \<Rightarrow> E
      | _ \<Rightarrow> E - {pool_addr (lt_i th)})"

context sorted_list_object
begin

text \<open>The first step of a critical section chooses the operation; the laws put it on course.\<close>

lemma begin_insert:
  assumes at: "list_at (h |` insert l E) l E" and e: "e \<notin> insert l E" and ky: "keyed h e"
  shows "op_ok (c_step code) (\<lambda>r h'. r = RUnit \<and> list_at h' l (insert e E)) (Inl (c_insert code l e))
    (h |` insert l (insert e E))"
proof (rule insert_law)
  let ?g = "h |` insert l (insert e E)"
  have "?g |` insert l E = h |` insert l E" by (simp add: Int_absorb1 subset_insertI2)
  with at show "list_at (?g |` insert l E) l E" by simp
  have "insert l E \<subseteq> dom h" using list_dom [OF at] by auto
  moreover have "e \<in> dom h" using ky by (auto simp: keyed_def key_of_def split: option.splits Option.bind_splits)
  ultimately show "dom ?g = insert e (insert l E)" by auto
  show "keyed ?g e" using ky by (simp add: keyed_def key_of_def)
qed (rule e)

lemma begin_on_course:
  assumes inv: "list_inv code list_at p keys s" and gk: "good_keys p keys" and t: "t < p_threads p"
    and pc: "lt_pc (ls_thr s t) = LBegin" and j: "j = cur_list p keys (ls_thr s t)"
    and E: "E = elems p keys (ls_thr s) j"
    and at: "list_at (ls_heap s |` insert (head_addr p j) E) (head_addr p j) E"
  shows "\<exists>op. list_begin code p (ls_heap s) j (ls_thr s t) = Ret op \<and>
    op_ok (c_step code) (run_post list_at (head_addr p j) E (ls_thr s t)) (Inl op)
      (ls_heap s |` run_area (head_addr p j) E (ls_thr s t))"
proof -
  let ?th = "ls_thr s t" and ?l = "head_addr p j" and ?h = "ls_heap s"
  let ?i = "lt_i ?th"
  let ?e = "pool_addr ?i"
  have rng: "thread_range p t ?th" by (rule list_invD(2) [OF inv t])
  have el: "?i < n_elems p \<and> ?i div p_iters p = t \<and> list_hash p keys ?i = j \<and> key_of ?h ?e = Some (keys ?i)"
    if "lt_phase ?th \<noteq> Lengths"
    using cur_elem [OF inv t _ that] pc list_invD(1) [OF inv] j by simp
  have key: "load_key ?h ?e = Ret (keys ?i) \<and> keyed ?h ?e" if "lt_phase ?th \<noteq> Lengths"
    using el [OF that] gk by (auto simp: load_key_def deref_def key_of_def keyed_def good_keys_def split: option.splits Option.bind_splits)
  show ?thesis
  proof (cases "lt_phase ?th")
    case Insertions
    then have "?e \<notin> insert ?l E"
      using el pc by (auto simp: E elems_def present_def pool_head_neq)
    then show ?thesis using begin_insert [OF at _ conjunct2 [OF key]] Insertions
      by (simp add: list_begin_def run_post_def [abs_def] run_area_def)
  next
    case Lengths
    have "op_ok (c_step code) (run_post list_at ?l E ?th) (Inl (c_length code ?l)) (?h |` insert ?l E)"
      using length_law [OF at] by (rule op_ok_mono) (use at Lengths in \<open>auto simp: run_post_def\<close>)
    with Lengths show ?thesis by (simp add: list_begin_def run_area_def)
  next
    case LookDel
    have "?e \<in> E" using LookDel el pc unfolding E elems_def by (auto simp: present_def)
    moreover have "key_of (?h |` insert ?l E) ?e = Some (keys ?i)"
      using el LookDel \<open>?e \<in> E\<close> by (simp add: key_of_def)
    ultimately have "op_ok (c_step code) (run_post list_at ?l E ?th) (Inl (c_lookup code ?l (keys ?i))) (?h |` insert ?l E)"
      by (intro op_ok_mono [OF lookup_law [OF at]]) (use at LookDel in \<open>auto simp: run_post_def\<close>)
    with LookDel key show ?thesis by (simp add: list_begin_def run_area_def)
  next
    case Finished
    with rng pc show ?thesis by (simp add: thread_range_def)
  qed
qed

lemma list_inv_begin:
  assumes inv: "list_inv code list_at p keys s" and gk: "good_keys p keys" and t: "t < p_threads p"
    and pc: "lt_pc (ls_thr s t) = LBegin" and j: "j = cur_list p keys (ls_thr s t)"
  shows "\<exists>op. list_begin code p (ls_heap s) j (ls_thr s t) = Ret op \<and>
    list_inv code list_at p keys (lset t (lgoto (LRun op) (ls_thr s t)) s)"
proof -
  let ?th = "ls_thr s t" and ?l = "head_addr p j" and ?h = "ls_heap s"
  let ?E = "elems p keys (ls_thr s) j"
  have hl: "holds_lock ?th" using pc by (simp add: holds_lock_def)
  have al: "cur_list p keys (ls_thr s u) \<noteq> j"
    if "u < p_threads p" "u \<noteq> t" "lt_pc (ls_thr s u) = LRun op" for u op
    using holder_alone [OF inv gk t hl that] j by simp
  have jr: "j < p_lists p"
    using cur_list_range [OF gk t list_invD(2) [OF inv t]] pc j by simp
  have "list_at (?h |` insert ?l ?E) ?l ?E"
  proof -
    have "\<forall>u<p_threads p. \<forall>op. \<not> (lt_pc (ls_thr s u) = LRun op \<and> cur_list p keys (ls_thr s u) = j)"
      using al pc by (metis lt_pc.distinct(25) lt_pc.simps)
    then show ?thesis using list_invD(4) [OF inv jr] by (simp add: sub_ok_def Let_def)
  qed
  from begin_on_course [OF inv gk t pc j refl this] obtain op
    where op: "list_begin code p ?h j ?th = Ret op" and ok: "op_ok (c_step code) (run_post list_at ?l ?E ?th) (Inl op) (?h |` run_area ?l ?E ?th)"
    by blast
  let ?th' = "lgoto (LRun op) ?th"
  have E: "?E = elems p keys ((ls_thr s)(t := ?th')) j"
    using pc by (intro elems_goto [symmetric] present_goto) auto
  have "sub_ok code list_at p keys ?h ((ls_thr s)(t := ?th')) j"
  proof (rule sub_ok_running [OF t _ _ al E])
    show "op_ok (c_step code) (run_post list_at ?l ?E ?th') (Inl op) (?h |` run_area ?l ?E ?th')"
      using ok by simp
  qed (use j in \<open>auto simp: lgoto_def cur_list_def\<close>)
  then have "list_inv code list_at p keys (lset t ?th' (s\<lparr>ls_heap := ?h\<rparr>))"
    using pc j by (intro list_inv_inside [OF inv gk t hl]) (auto simp: lgoto_def holds_lock_def)
  with op show ?thesis by auto
qed

lemma length_not_corrupt: "to_int32 (int k) = - 1 \<Longrightarrow> 2 ^ 31 \<le> k"
  by (rule ccontr) (simp add: to_int32_id [of "int k"])

lemma card_elems: "card (elems p keys T j) \<le> n_elems p"
proof -
  have "card (elems p keys T j) \<le> card {k. k < n_elems p \<and> present (T (k div p_iters p)) k \<and> list_hash p keys k = j}"
    unfolding elems_def by (rule card_image_le) simp
  also have "\<dots> \<le> card {..<n_elems p}" by (rule card_mono) auto
  finally show ?thesis by simp
qed

text \<open>
  A result of an operation leads on to the next operation or to the release of the lock;
  a list of \<open>2 ^ 31\<close> elements could be taken for a corrupted one.
\<close>

lemma result_next:
  assumes post: "run_post list_at l E th r (g |` run_area l E th)" and ph: "lt_phase th \<noteq> Finished"
    and e: "lt_phase th = LookDel \<Longrightarrow> pool_addr (lt_i th) \<in> E" and th: "th = ls_thr s t"
  shows "(\<exists>op. list_result code t r s = lset t (lgoto (LRun op) th) s \<and>
      op_ok (c_step code) (run_post list_at l E th) (Inl op) (g |` run_area l E th)) \<or>
    (\<exists>len. list_result code t r s = lset t (lgoto LRelease (th\<lparr>lt_len := len\<rparr>)) s \<and>
      list_at (g |` insert l (after_elems th E)) l (after_elems th E)) \<or>
    list_result code t r s = lend sig_corrupt s \<and> 2 ^ 31 \<le> card E"
proof (cases "lt_phase th")
  case Insertions
  with post have "list_result code t r s = lset t (lgoto LRelease (th\<lparr>lt_len := lt_len th\<rparr>)) s"
    using th by (simp add: list_result_def Let_def run_post_def)
  moreover have "list_at (g |` insert l (insert (pool_addr (lt_i th)) E)) l (insert (pool_addr (lt_i th)) E)"
    using post Insertions by (simp add: run_post_def run_area_def)
  ultimately show ?thesis using Insertions
    by (intro disjI2 disjI1 exI [of _ "lt_len th"]) (simp add: after_elems_def)
next
  case Lengths
  let ?c = "to_int32 (int (card E))"
  from Lengths post have r: "r = RInt ?c" and at: "list_at (g |` insert l E) l E"
    by (simp_all add: run_post_def run_area_def)
  show ?thesis
  proof (cases "?c = - 1")
    case True
    then show ?thesis using r Lengths th length_not_corrupt [OF True]
      by (intro disjI2) (simp add: list_result_def Let_def)
  next
    case False
    then show ?thesis using r at Lengths th
      by (intro disjI2 disjI1 exI [of _ "lt_len th + ?c"]) (simp add: list_result_def Let_def after_elems_def)
  qed
next
  case LookDel
  let ?e = "pool_addr (lt_i th)"
  from post LookDel consider (found) q where "r = RPtr (Some q)" "list_at (g |` insert l E) l E"
    | (deleted) "r = RInt 0" "list_at ((g |` insert l E) |` insert l (E - {?e})) l (E - {?e})"
    by (auto simp: run_post_def run_area_def Let_def)
  then show ?thesis
  proof cases
    case found
    have "op_ok (c_step code) (run_post list_at l E th) (Inl (c_delete code ?e)) (g |` insert l E)"
      using delete_law [OF found(2) e [OF LookDel]] by (rule op_ok_mono) (use LookDel in \<open>auto simp: run_post_def\<close>)
    with found(1) LookDel th show ?thesis by (auto simp: list_result_def Let_def run_area_def)
  next
    case deleted
    then have "list_result code t r s = lset t (lgoto LRelease (th\<lparr>lt_len := lt_len th\<rparr>)) s"
      using th LookDel by (simp add: list_result_def Let_def)
    moreover have "(g |` insert l E) |` insert l (E - {?e}) = g |` insert l (E - {?e})"
      by (simp add: Int_absorb1 subset_insertI2 Diff_subset insert_mono)
    ultimately show ?thesis using deleted(2) LookDel
      by (intro disjI2 disjI1 exI [of _ "lt_len th"]) (simp add: after_elems_def)
  qed
qed (use ph in simp)

text \<open>
  The two ways an operation goes on, for the holder \<open>t\<close> of the lock of sublist \<open>j\<close>, after a
  step that changed the heap to \<open>g\<close> within the region of \<open>j\<close>.
\<close>

lemma run_again:
  assumes inv: "list_inv code list_at p keys s" and gk: "good_keys p keys" and t: "t < p_threads p"
    and pc: "lt_pc (ls_thr s t) = LRun op" and j: "j = cur_list p keys (ls_thr s t)"
    and g: "\<forall>D. D \<inter> region p keys j = {} \<longrightarrow> g |` D = ls_heap s |` D" "\<forall>a. key_of g a = key_of (ls_heap s) a"
    and E: "E = elems p keys (ls_thr s) j"
    and ok: "op_ok (c_step code) (run_post list_at (head_addr p j) E (ls_thr s t)) (Inl op')
      (g |` run_area (head_addr p j) E (ls_thr s t))"
  shows "list_inv code list_at p keys (lset t (lgoto (LRun op') (ls_thr s t)) (s\<lparr>ls_heap := g\<rparr>))"
proof (rule list_inv_inside [OF inv gk t _ _ _ _ _ j])
  let ?th = "lgoto (LRun op') (ls_thr s t)"
  have hl: "holds_lock (ls_thr s t)" using pc by (simp add: holds_lock_def)
  have "E = elems p keys ((ls_thr s)(t := ?th)) j"
    unfolding E using pc by (intro elems_goto [symmetric] present_goto) auto
  then show "sub_ok code list_at p keys g ((ls_thr s)(t := ?th)) j"
    using ok j holder_alone [OF inv gk t hl] by (intro sub_ok_running [OF t]) simp_all
qed (use pc g in \<open>simp_all add: holds_lock_def lgoto_def\<close>)

lemma elems_after:
  assumes inv: "list_inv code list_at p keys s" and t: "t < p_threads p"
    and pc: "lt_pc (ls_thr s t) = LRun op" and j: "j = cur_list p keys (ls_thr s t)"
    and th: "th = lgoto LRelease ((ls_thr s t)\<lparr>lt_len := len\<rparr>)"
  shows "elems p keys ((ls_thr s)(t := th)) j = after_elems (ls_thr s t) (elems p keys (ls_thr s) j)"
proof (cases "lt_phase (ls_thr s t)")
  case Insertions
  then show ?thesis using cur_elem [OF inv t] pc j
    by (subst elems_inserted) (auto simp: th lgoto_def after_elems_def)
next
  case Lengths
  then have "present th k = present (ls_thr s t) k" for k
    by (simp add: th lgoto_def present_def)
  then show ?thesis using Lengths by (simp add: after_elems_def elems_goto)
next
  case LookDel
  then show ?thesis using cur_elem [OF inv t] pc j
    by (subst elems_deleted) (auto simp: th lgoto_def after_elems_def)
next
  case Finished
  then show ?thesis using list_invD(2) [OF inv t] pc by (simp add: thread_range_def)
qed

lemma run_finished:
  assumes inv: "list_inv code list_at p keys s" and gk: "good_keys p keys" and t: "t < p_threads p"
    and pc: "lt_pc (ls_thr s t) = LRun op" and j: "j = cur_list p keys (ls_thr s t)"
    and g: "\<forall>D. D \<inter> region p keys j = {} \<longrightarrow> g |` D = ls_heap s |` D" "\<forall>a. key_of g a = key_of (ls_heap s) a"
    and E: "E = after_elems (ls_thr s t) (elems p keys (ls_thr s) j)"
    and at: "list_at (g |` insert (head_addr p j) E) (head_addr p j) E"
  shows "list_inv code list_at p keys (lset t (lgoto LRelease ((ls_thr s t)\<lparr>lt_len := len\<rparr>)) (s\<lparr>ls_heap := g\<rparr>))"
proof (rule list_inv_inside [OF inv gk t _ _ _ _ _ j])
  let ?th = "lgoto LRelease ((ls_thr s t)\<lparr>lt_len := len\<rparr>)"
  have hl: "holds_lock (ls_thr s t)" using pc by (simp add: holds_lock_def)
  have "E = elems p keys ((ls_thr s)(t := ?th)) j" using elems_after [OF inv t pc j refl] E by simp
  then show "sub_ok code list_at p keys g ((ls_thr s)(t := ?th)) j"
    using at j holder_alone [OF inv gk t hl] by (intro sub_ok_idle) (simp_all add: lgoto_def)
qed (use pc g in \<open>simp_all add: holds_lock_def lgoto_def\<close>)

lemma run_step:
  assumes inv: "list_inv code list_at p keys s" and gk: "good_keys p keys" and t: "t < p_threads p"
    and pc: "lt_pc (ls_thr s t) = LRun op" and j: "j = cur_list p keys (ls_thr s t)"
    and E: "E = elems p keys (ls_thr s) j"
  obtains g x where "c_step code op (ls_heap s) = Ret (g, x)"
    and "op_ok (c_step code) (run_post list_at (head_addr p j) E (ls_thr s t)) x
      (g |` run_area (head_addr p j) E (ls_thr s t))"
    and "\<forall>D. D \<inter> region p keys j = {} \<longrightarrow> g |` D = ls_heap s |` D"
    and "\<forall>a. key_of g a = key_of (ls_heap s) a"
proof -
  let ?A = "run_area (head_addr p j) E (ls_thr s t)"
  have rng: "thread_range p t (ls_thr s t)" by (rule list_invD(2) [OF inv t])
  have "j < p_lists p" using cur_list_range [OF gk t rng] pc j by simp
  then have "op_ok (c_step code) (run_post list_at (head_addr p j) E (ls_thr s t)) (Inl op) (ls_heap s |` ?A)"
    using list_invD(4) [OF inv, of j] t pc j E by (auto simp: sub_ok_def Let_def)
  moreover have "?A \<subseteq> region p keys j" using run_area_region [OF t rng _ j [symmetric]] pc E by simp
  then have "\<And>D. D \<inter> region p keys j = {} \<Longrightarrow> D \<inter> ?A = {}" by blast
  ultimately show thesis by (elim owned_step [elim_format] exE conjE) (rule that; simp)
qed

lemma list_inv_run:
  assumes inv: "list_inv code list_at p keys s" and gk: "good_keys p keys" and t: "t < p_threads p"
    and pc: "lt_pc (ls_thr s t) = LRun op"
  shows "\<exists>s'. list_thread_step code p w t s = Some s' \<and>
    (list_inv code list_at p keys s' \<and> ls_end s' = ls_end s \<or> ls_end s' = Some sig_corrupt \<and> 2 ^ 31 \<le> n_elems p)"
proof -
  define j where "j = cur_list p keys (ls_thr s t)"
  define E where "E = elems p keys (ls_thr s) j"
  let ?l = "head_addr p j" and ?th = "ls_thr s t"
  have ph: "lt_phase ?th \<noteq> Finished" using list_invD(2) [OF inv t] pc by (auto simp: thread_range_def)
  obtain g x where st: "c_step code op (ls_heap s) = Ret (g, x)"
    and x: "op_ok (c_step code) (run_post list_at ?l E ?th) x (g |` run_area ?l E ?th)"
    and g: "\<forall>D. D \<inter> region p keys j = {} \<longrightarrow> g |` D = ls_heap s |` D" "\<forall>a. key_of g a = key_of (ls_heap s) a"
    by (rule run_step [OF inv gk t pc j_def E_def]) blast
  note again = run_again [OF inv gk t pc j_def g E_def]
  note finish = run_finished [OF inv gk t pc j_def g, folded E_def, OF refl]
  show ?thesis
  proof (cases x)
    case (Inl op')
    with x again st pc ph show ?thesis by (simp add: list_thread_step_def Let_def)
  next
    case (Inr r)
    let ?s = "s\<lparr>ls_heap := g\<rparr>"
    have step: "list_thread_step code p w t s = Some (list_result code t r ?s)"
      using st Inr pc ph by (simp add: list_thread_step_def Let_def)
    have "pool_addr (lt_i ?th) \<in> E" if "lt_phase ?th = LookDel"
      using cur_elem [OF inv t] that pc by (auto simp: E_def j_def elems_def present_def)
    with x Inr have "(\<exists>op'. list_result code t r ?s = lset t (lgoto (LRun op') ?th) ?s \<and>
        op_ok (c_step code) (run_post list_at ?l E ?th) (Inl op') (g |` run_area ?l E ?th)) \<or>
      (\<exists>len. list_result code t r ?s = lset t (lgoto LRelease (?th\<lparr>lt_len := len\<rparr>)) ?s \<and>
        list_at (g |` insert ?l (after_elems ?th E)) ?l (after_elems ?th E)) \<or>
      list_result code t r ?s = lend sig_corrupt ?s \<and> 2 ^ 31 \<le> card E"
      by (intro result_next) (simp_all add: ph)
    then show ?thesis
    proof (elim disjE)
      assume c: "list_result code t r ?s = lend sig_corrupt ?s \<and> 2 ^ 31 \<le> card E"
      then have "2 ^ 31 \<le> n_elems p" using card_elems E_def by (metis le_trans)
      with c step show ?thesis by (simp add: lend_def)
    qed (use again finish step in auto)
  qed
qed

lemma list_thread_step_safe:
  assumes inv: "list_inv code list_at p keys s" and gk: "good_keys p keys" and sync: "list_synchronised p"
    and t: "t < p_threads p" and run: "ls_end s = None" and st: "list_thread_step code p w t s = Some s'"
  shows "list_safe code list_at p keys s'"
proof -
  let ?th = "ls_thr s t"
  let ?j = "cur_list p keys ?th"
  have fin: "lt_phase ?th \<noteq> Finished" using st by (auto simp: list_thread_step_def Let_def)
  have idx: "sublist_idx p (ls_heap s) ?th = Ret ?j" if "lt_pc ?th \<noteq> LTest"
    using sublist_idx_inv [OF inv gk t that fin] .
  show ?thesis
  proof (cases "lt_pc ?th")
    case LTest
    with st fin run list_inv_test [OF inv t LTest] show ?thesis
      by (auto simp: list_thread_step_def Let_def list_safe_def)
  next
    case LAcquire
    with st fin idx have "list_acquire p w t ?j s = Some s'" by (simp add: list_thread_step_def Let_def)
    then show ?thesis by (rule list_inv_acquire [OF inv run t LAcquire sync refl])
  next
    case LSpin
    with st fin idx have "s' = lset t (lgoto (if ls_spin s ?j \<noteq> 0 then LSpin else LAcquire) ?th) s"
      by (simp add: list_thread_step_def Let_def split: if_splits)
    with list_inv_no_lock [OF inv t, of _ s] LSpin run show ?thesis by (auto simp: list_safe_def)
  next
    case LBegin
    obtain op where "list_begin code p (ls_heap s) ?j ?th = Ret op"
      "list_inv code list_at p keys (lset t (lgoto (LRun op) ?th) s)"
      using list_inv_begin [OF inv gk t LBegin refl] by blast
    with st fin idx LBegin run show ?thesis by (auto simp: list_thread_step_def Let_def list_safe_def)
  next
    case (LRun op)
    with list_inv_run [OF inv gk t LRun, of w] st run show ?thesis by (auto simp: list_safe_def)
  next
    case LRelease
    with st fin idx have "s' = list_release p t ?j s" by (simp add: list_thread_step_def Let_def)
    moreover have "ls_end (list_release p t ?j s) = None" using run by (simp add: list_release_def Let_def)
    ultimately show ?thesis using list_inv_release [OF inv t LRelease sync refl] by (simp add: list_safe_def)
  qed
qed

lemma list_step_safe:
  assumes "list_step code p s s'" and "list_safe code list_at p keys s"
    and "good_keys p keys" and "list_synchronised p"
  shows "list_safe code list_at p keys s'"
  using assms
proof (induction rule: list_step.induct)
  case (create s)
  then show ?case by (auto simp: list_safe_def list_inv_def)
next
  case (create_fails s)
  then show ?case by (simp add: list_safe_def lend_def)
next
  case (run s t w s')
  then have "list_inv code list_at p keys s" by (simp add: list_safe_def)
  moreover from this run have "t < p_threads p" by (simp add: list_inv_def)
  ultimately show ?case using run list_thread_step_safe by blast
qed

lemma list_inv_init:
  assumes s: "s = list_sys_init p keys junk"
  shows "list_inv code list_at p keys s"
proof -
  have thr: "ls_thr s = list_thread_init p" by (simp add: s list_sys_init_def)
  have E: "elems p keys (ls_thr s) j = {}" for j
    by (auto simp: thr elems_def present_def list_thread_init_def not_less)
  have "sub_ok code list_at p keys (ls_heap s) (ls_thr s) j" if "j < p_lists p" for j
  proof -
    have "ls_heap s (head_addr p j) = Some \<lparr>se_prev = head_addr p j, se_next = head_addr p j, se_key = None\<rparr>"
      using that by (simp add: s list_sys_init_def list_init_heap_def head_addr_def Let_def)
    from empty_law [of "ls_heap s", OF this] show ?thesis
      unfolding sub_ok_def Let_def E by (simp add: thr list_thread_init_def)
  qed
  moreover have "key_of (ls_heap s) (pool_addr k) = Some (keys k)" if "k < n_elems p" for k
    using that by (simp add: s list_sys_init_def list_init_heap_def pool_addr_def key_of_def n_elems_def Let_def)
  moreover have "holders p keys (ls_thr s) j = {}" for j
    by (simp add: thr holders_def holds_lock_def list_thread_init_def)
  moreover have "\<not> list_locked p s j" for j by (simp add: list_locked_def s list_sys_init_def)
  moreover have "ls_created s = 0" by (simp add: s list_sys_init_def)
  moreover have "thread_range p t (ls_thr s t)" for t by (simp add: thr list_thread_init_def thread_range_def)
  ultimately show ?thesis unfolding list_inv_def lock_inv_def by simp
qed

lemma list_reach_safe:
  assumes "list_reach code p keys s" and "good_keys p keys" and "list_synchronised p"
  shows "list_safe code list_at p keys s"
  using assms(1)
proof (induction rule: list_reach.induct)
  case (start junk)
  then show ?case using list_inv_init [OF refl] by (simp add: list_safe_def list_sys_init_def)
next
  case (step s s')
  then show ?case using list_step_safe assms(2,3) by blast
qed

text \<open>After the join every sublist is empty.\<close>

lemma list_joined_empty:
  assumes safe: "list_safe code list_at p keys s" and jn: "list_joined p s" and j: "j < p_lists p"
  shows "list_at (ls_heap s |` {head_addr p j}) (head_addr p j) {}"
proof -
  from safe jn have inv: "list_inv code list_at p keys s" by (auto simp: list_safe_def list_joined_def)
  have fin: "lt_phase (ls_thr s t) = Finished" if "t < p_threads p" for t using jn that by (simp add: list_joined_def)
  then have pc: "lt_pc (ls_thr s t) = LTest" if "t < p_threads p" for t
    using list_invD(2) [OF inv that] that by (simp add: thread_range_def)
  have "elems p keys (ls_thr s) j = {}" using block_mem(1) fin by (auto simp: elems_def present_def)
  then show ?thesis using list_invD(4) [OF inv j] pc by (simp add: sub_ok_def Let_def)
qed

end


subsection \<open>The program with SortedList.c\<close>

lemma SortedList_length_empty:
  assumes "sorted_list_at (h |` {l}) l {}"
  shows "SortedList_length h l = Some (Ret 0)"
proof -
  have "slist (h |` {l}) l []" using assms by (auto simp: sorted_list_at_def)
  then have "slist h l []" using slist_restrict [of l "[]" "{l}" h] by simp
  then show ?thesis using length_linked [of h l "[]"] by (simp add: slist_def dlist_def)
qed

lemma final_check_empty:
  "(\<And>l. l \<in> set ls \<Longrightarrow> SortedList_length h l = Some (Ret 0)) \<Longrightarrow> list_final_check h ls 0 = Some (Ret 0)"
  by (induction ls) auto

lemma list_final_check_ok:
  assumes "list_reach SortedList_code p keys s" and "good_keys p keys" and "list_synchronised p" and "list_joined p s"
  shows "list_final_check (ls_heap s) (map (head_addr p) [0..<p_lists p]) 0 = Some (Ret 0)"
proof (rule final_check_empty)
  fix l assume "l \<in> set (map (head_addr p) [0..<p_lists p])"
  then obtain j where "j < p_lists p" "l = head_addr p j" by auto
  with sl.list_joined_empty [OF sl.list_reach_safe [OF assms(1-3)] assms(4)]
  show "SortedList_length (ls_heap s) l = Some (Ret 0)" by (blast intro: SortedList_length_empty)
qed

lemma list_reach_end:
  assumes "list_reach SortedList_code p keys s" and "good_keys p keys" and "list_synchronised p"
    and "n_elems p < 2 ^ 31"
  shows "ls_end s = None \<or> ls_end s = Some (Exit 1)"
  using sl.list_reach_safe [OF assms(1-3)] assms(4) by (auto simp: list_safe_def)

subsection \<open>Random keys and their hash\<close>

lemma alphanum_chars: "c \<in> set alphanum \<Longrightarrow> c \<noteq> CHR 0x00 \<and> 0 \<le> char_int c"
proof -
  have "\<forall>c \<in> set alphanum. c \<noteq> CHR 0x00 \<and> 0 \<le> char_int c" by code_simp
  then show "c \<in> set alphanum \<Longrightarrow> c \<noteq> CHR 0x00 \<and> 0 \<le> char_int c" by blast
qed

lemma length_alphanum [simp]: "length alphanum = 61"
  by (simp add: alphanum_def)

lemma random_key_eq:
  "random_key rand k = map (\<lambda>i. alphanum ! (rand (k * key_len + i) mod length alphanum)) [0..<key_len]"
proof -
  have "c \<noteq> CHR 0x00"
    if "c \<in> set (map (\<lambda>i. alphanum ! (rand (k * key_len + i) mod length alphanum)) [0..<key_len])" for c
    using that alphanum_chars by (auto simp: nth_mem)
  then show ?thesis by (simp add: random_key_def gen_random_def takeWhile_append)
qed

lemma random_key_alphanum: "set (random_key rand k) \<subseteq> set alphanum"
  by (auto simp: random_key_eq)

lemma length_random_key [simp]: "length (random_key rand k) = key_len"
  by (simp add: random_key_eq)

lemma get_key_hash_range:
  assumes "0 < n" and "\<forall>c \<in> set key. 0 \<le> char_int c"
  shows "\<exists>j. get_key_hash n key = Ret j \<and> 0 \<le> j \<and> j < n"
proof -
  have "0 \<le> sum_list (map char_int key)" using assms(2) by (intro sum_list_nonneg) auto
  with assms(1) have "c_mod (c_div (sum_list (map char_int key)) n) n = sum_list (map char_int key) div n mod n"
    by (simp add: c_mod_nonneg c_div_nonneg pos_imp_zdiv_nonneg_iff)
  with assms(1) show ?thesis by (simp add: get_key_hash_def Let_def)
qed

lemma good_random_keys:
  assumes "0 < p_lists p"
  shows "good_keys p (random_key rand)"
proof -
  have "cstr (random_key rand k)" for k
    using random_key_alphanum alphanum_chars by (fastforce simp: cstr_def)
  moreover have "\<exists>j < p_lists p. get_key_hash (int (p_lists p)) (random_key rand k) = Ret (int j)" for k
  proof -
    obtain j where "get_key_hash (int (p_lists p)) (random_key rand k) = Ret j" "0 \<le> j" "j < int (p_lists p)"
      using get_key_hash_range [of "int (p_lists p)" "random_key rand k"] assms random_key_alphanum alphanum_chars
      by (metis of_nat_0_less_iff subsetD)
    then show ?thesis by (intro exI [of _ "nat j"]) auto
  qed
  ultimately show ?thesis by (simp add: good_keys_def)
qed

end
