(* ===== verification/Lab2List1.thy ===== *)
theory Lab2List1
  imports Lab2ListInv
begin

text \<open>
  \<open>CS111/project2/Part_1/lab2_list.c\<close>: the first version of the list program, with one
  list, one mutex \<open>mymutex\<close> and one spin lock \<open>lock_s\<close>, and the refinement that shows its
  threads to be the threads of \<open>Part_2/lab2_list.c\<close> with one sublist.
\<close>

subsection \<open>Globals, tag, options\<close>

record list1_cfg =
  l1_threads :: int
  l1_iterations :: int
  l1_sync :: char
  l1_yield :: int
  l1_yargs :: string

definition list1_defaults :: list1_cfg where
  "list1_defaults = \<lparr>l1_threads = 1, l1_iterations = 1, l1_sync = CHR ''n'', l1_yield = 0, l1_yargs = []\<rparr>"

definition list1_n_lists :: int where
  "list1_n_lists = 1"

definition list1_sig_corrupt :: "'a outcome" where
  "list1_sig_corrupt = Exit 2"

definition list1_segfault_handler :: "'a outcome" where
  "list1_segfault_handler = list1_sig_corrupt"

definition list1_get_tag :: "list1_cfg \<Rightarrow> string" where
  "list1_get_tag c =
     ''list-'' @ (if l1_yield c \<noteq> 0 then take 4 (l1_yargs c) else ''none'') @ ''-'' @
     (if l1_sync c = CHR ''n'' then ''none'' else [l1_sync c])"

definition list1_long_options :: "longopt list" where
  "list1_long_options =
     [\<lparr>lo_name = ''threads'', lo_arg = required_argument, lo_flag = None, lo_val = CHR ''t''\<rparr>,
      \<lparr>lo_name = ''iterations'', lo_arg = required_argument, lo_flag = None, lo_val = CHR ''i''\<rparr>,
      \<lparr>lo_name = ''yield'', lo_arg = required_argument, lo_flag = None, lo_val = CHR ''y''\<rparr>,
      \<lparr>lo_name = ''sync'', lo_arg = required_argument, lo_flag = None, lo_val = CHR ''s''\<rparr>]"

definition list1_short_options :: "(char \<times> bool) list" where
  "list1_short_options = [(CHR ''t'', True), (CHR ''i'', True), (CHR ''y'', False), (CHR ''s'', True)]"

definition list1_sync_option :: "string \<Rightarrow> list1_cfg \<Rightarrow> list1_cfg outcome" where
  "list1_sync_option arg c =
     (case arg of
        [a] \<Rightarrow> if a = CHR ''m'' \<or> a = CHR ''s'' then Ret (c\<lparr>l1_sync := a\<rparr>) else Exit 1
      | _ \<Rightarrow> Exit 1)"

definition list1_opt :: "opt_event \<Rightarrow> list1_cfg \<Rightarrow> list1_cfg outcome" where
  "list1_opt e c =
     (if oe_ret e = CHR ''t'' then
        (case oe_arg e of None \<Rightarrow> SegFault | Some a \<Rightarrow> Ret (c\<lparr>l1_threads := to_int32 (strtol0 a)\<rparr>))
      else if oe_ret e = CHR ''i'' then
        (case oe_arg e of None \<Rightarrow> SegFault | Some a \<Rightarrow> Ret (c\<lparr>l1_iterations := to_int32 (strtol0 a)\<rparr>))
      else if oe_ret e = CHR ''y'' then
        (case oe_arg e of None \<Rightarrow> SegFault
         | Some a \<Rightarrow> obind (yield_flags a 1) (\<lambda>y. Ret (c\<lparr>l1_yield := y, l1_yargs := a\<rparr>)))
      else if oe_ret e = CHR ''s'' then
        (case oe_arg e of None \<Rightarrow> SegFault | Some a \<Rightarrow> list1_sync_option a c)
      else Exit 1)"

fun list1_opts :: "opt_event list \<Rightarrow> list1_cfg \<Rightarrow> list1_cfg outcome" where
  "list1_opts [] c = Ret c"
| "list1_opts (e # es) c = obind (list1_opt e c) (list1_opts es)"

definition list1_get_opts :: "string list \<Rightarrow> list1_cfg outcome" where
  "list1_get_opts argv =
     list1_opts (getopt_long_all list1_short_options list1_long_options argv) list1_defaults"

definition list1_get_time :: "timespec2 option \<Rightarrow> timespec2 outcome" where
  "list1_get_time r = (case r of None \<Rightarrow> Exit 1 | Some ts \<Rightarrow> Ret ts)"

definition list1_get_runtime :: "timespec2 \<Rightarrow> timespec2 \<Rightarrow> int" where
  "list1_get_runtime t0 t1 =
     to_int64 (to_int64 ((ts_sec t1 - ts_sec t0) * 1000000000) + (ts_nsec t1 - ts_nsec t0))"

definition list1_gen_random :: "(nat \<Rightarrow> nat) \<Rightarrow> nat \<Rightarrow> string" where
  "list1_gen_random rand len = map (\<lambda>i. alphanum ! (rand i mod length alphanum)) [0..<len] @ [CHR 0x00]"

definition list1_random_key :: "(nat \<Rightarrow> nat) \<Rightarrow> nat \<Rightarrow> string" where
  "list1_random_key rand k =
     takeWhile (\<lambda>c. c \<noteq> CHR 0x00) (list1_gen_random (\<lambda>i. rand (k * key_len + i)) key_len)"

subsection \<open>list_thrd\<close>

text \<open>
  The threads use the program points of \<open>Lab2List\<close>; the measurement of the length is no
  loop here, so it starts at \<open>LAcquire\<close> and leads to the last loop.
\<close>

record 'o list1_sys =
  s1_heap :: heap
  s1_mymutex :: mutex
  s1_lock_s :: int
  s1_created :: nat
  s1_thr :: "tid \<Rightarrow> 'o list_thread"
  s1_end :: "unit outcome option"

definition l1set :: "tid \<Rightarrow> 'o list_thread \<Rightarrow> 'o list1_sys \<Rightarrow> 'o list1_sys" where
  "l1set t th s = s\<lparr>s1_thr := (s1_thr s)(t := th)\<rparr>"

definition l1end :: "unit outcome \<Rightarrow> 'o list1_sys \<Rightarrow> 'o list1_sys" where
  "l1end r s = s\<lparr>s1_end := Some r\<rparr>"

definition list1_loop_test :: "nat \<Rightarrow> tid \<Rightarrow> 'o list_thread \<Rightarrow> 'o list_thread" where
  "list1_loop_test n t th =
     (case lt_phase th of
        Insertions \<Rightarrow>
          if lt_i th < (t + 1) * n then lgoto LAcquire th
          else th\<lparr>lt_phase := Lengths, lt_i := 0, lt_pc := LAcquire\<rparr>
      | LookDel \<Rightarrow>
          if lt_i th < (t + 1) * n then lgoto LAcquire th
          else th\<lparr>lt_phase := Finished\<rparr>
      | _ \<Rightarrow> th)"

definition list1_acquire :: "char \<Rightarrow> tid \<Rightarrow> 'o list1_sys \<Rightarrow> 'o list1_sys option" where
  "list1_acquire sync t s =
     (let th = s1_thr s t in
      if sync = CHR ''m'' then
        (case mutex_lock (s1_mymutex s) t of
           (m, got) \<Rightarrow> if got then Some (l1set t (lgoto LBegin th) (s\<lparr>s1_mymutex := m\<rparr>)) else None)
      else if sync = CHR ''s'' then
        (case sync_lock_test_and_set (s1_lock_s s) t of
           (l, got) \<Rightarrow> Some (l1set t (lgoto (if got then LBegin else LSpin) th) (s\<lparr>s1_lock_s := l\<rparr>)))
      else Some (l1set t (lgoto LBegin th) s))"

definition list1_release :: "char \<Rightarrow> nat \<Rightarrow> tid \<Rightarrow> 'o list1_sys \<Rightarrow> 'o list1_sys" where
  "list1_release sync n t s =
     (let s' = (if sync = CHR ''m'' then s\<lparr>s1_mymutex := mutex_unlock (s1_mymutex s) t\<rparr>
                else if sync = CHR ''s'' then s\<lparr>s1_lock_s := sync_lock_release (s1_lock_s s) t\<rparr>
                else s);
          th = s1_thr s t in
      l1set t (if lt_phase th = Lengths then th\<lparr>lt_phase := LookDel, lt_i := t * n, lt_pc := LTest\<rparr>
               else th\<lparr>lt_i := Suc (lt_i th), lt_pc := LTest\<rparr>) s')"

definition list1_begin :: "'o list_code \<Rightarrow> addr \<Rightarrow> heap \<Rightarrow> 'o list_thread \<Rightarrow> 'o outcome" where
  "list1_begin code global_list h th =
     (case lt_phase th of
        Insertions \<Rightarrow> Ret (c_insert code global_list (pool_addr (lt_i th)))
      | Lengths \<Rightarrow> Ret (c_length code global_list)
      | _ \<Rightarrow> obind (load_key h (pool_addr (lt_i th))) (\<lambda>k. Ret (c_lookup code global_list k)))"

definition list1_result :: "'o list_code \<Rightarrow> tid \<Rightarrow> sl_res \<Rightarrow> 'o list1_sys \<Rightarrow> 'o list1_sys" where
  "list1_result code t r s =
     (let th = s1_thr s t in
      case lt_phase th of
        Insertions \<Rightarrow> l1set t (lgoto LRelease th) s
      | Lengths \<Rightarrow>
          (case r of
             RInt c \<Rightarrow> if c = - 1 then l1end list1_sig_corrupt s
                       else l1set t (lgoto LRelease (th\<lparr>lt_len := c\<rparr>)) s
           | _ \<Rightarrow> s)
      | _ \<Rightarrow>
          (case r of
             RPtr None \<Rightarrow> l1end list1_sig_corrupt s
           | RPtr (Some _) \<Rightarrow> l1set t (lgoto (LRun (c_delete code (pool_addr (lt_i th)))) th) s
           | RInt c \<Rightarrow> if c = 1 then l1end list1_sig_corrupt s else l1set t (lgoto LRelease th) s
           | RUnit \<Rightarrow> s))"

definition list1_thread_step ::
    "'o list_code \<Rightarrow> char \<Rightarrow> nat \<Rightarrow> addr \<Rightarrow> tid \<Rightarrow> 'o list1_sys \<Rightarrow> 'o list1_sys option" where
  "list1_thread_step code sync n global_list t s =
     (let th = s1_thr s t in
      if lt_phase th = Finished then None
      else case lt_pc th of
        LTest \<Rightarrow> Some (l1set t (list1_loop_test n t th) s)
      | LAcquire \<Rightarrow> list1_acquire sync t s
      | LSpin \<Rightarrow> Some (l1set t (lgoto (if s1_lock_s s \<noteq> 0 then LSpin else LAcquire) th) s)
      | LBegin \<Rightarrow>
          (case list1_begin code global_list (s1_heap s) th of
             Ret op \<Rightarrow> Some (l1set t (lgoto (LRun op) th) s)
           | _ \<Rightarrow> Some (l1end list1_segfault_handler s))
      | LRun op \<Rightarrow>
          (case c_step code op (s1_heap s) of
             Ret (h, Inl op') \<Rightarrow> Some (l1set t (lgoto (LRun op') th) (s\<lparr>s1_heap := h\<rparr>))
           | Ret (h, Inr r) \<Rightarrow> Some (list1_result code t r (s\<lparr>s1_heap := h\<rparr>))
           | _ \<Rightarrow> Some (l1end list1_segfault_handler s))
      | LRelease \<Rightarrow> Some (list1_release sync n t s))"

subsection \<open>main\<close>

definition list1_init_heap :: "nat \<Rightarrow> (nat \<Rightarrow> string) \<Rightarrow> (nat \<Rightarrow> addr \<times> addr) \<Rightarrow> heap" where
  "list1_init_heap n_elements keys junk a =
     (if a = 0 then None
      else if a \<le> n_elements
      then Some \<lparr>se_prev = fst (junk (a - 1)), se_next = snd (junk (a - 1)), se_key = Some (keys (a - 1))\<rparr>
      else if a = Suc n_elements then Some \<lparr>se_prev = a, se_next = a, se_key = None\<rparr>
      else None)"

definition list1_sys_init :: "nat \<Rightarrow> nat \<Rightarrow> (nat \<Rightarrow> string) \<Rightarrow> (nat \<Rightarrow> addr \<times> addr) \<Rightarrow> 'o list1_sys" where
  "list1_sys_init n N keys junk =
     \<lparr>s1_heap = list1_init_heap (N * n) keys junk, s1_mymutex = None, s1_lock_s = 0, s1_created = 0,
      s1_thr = (\<lambda>t. \<lparr>lt_phase = Insertions, lt_i = t * n, lt_pc = LTest, lt_len = 0\<rparr>), s1_end = None\<rparr>"

inductive list1_step :: "'o list_code \<Rightarrow> char \<Rightarrow> nat \<Rightarrow> nat \<Rightarrow> 'o list1_sys \<Rightarrow> 'o list1_sys \<Rightarrow> bool"
  for code :: "'o list_code" and sync :: char and n :: nat and N :: nat where
  create: "s1_end s = None \<Longrightarrow> s1_created s < N \<Longrightarrow>
    list1_step code sync n N s (s\<lparr>s1_created := Suc (s1_created s)\<rparr>)"
| create_fails: "s1_end s = None \<Longrightarrow> s1_created s < N \<Longrightarrow> list1_step code sync n N s (l1end (Exit 1) s)"
| run: "s1_end s = None \<Longrightarrow> t < s1_created s \<Longrightarrow>
    list1_thread_step code sync n (Suc (N * n)) t s = Some s' \<Longrightarrow> list1_step code sync n N s s'"

inductive list1_reach :: "'o list_code \<Rightarrow> char \<Rightarrow> nat \<Rightarrow> nat \<Rightarrow> (nat \<Rightarrow> string) \<Rightarrow> 'o list1_sys \<Rightarrow> bool"
  for code :: "'o list_code" and sync :: char and n :: nat and N :: nat and keys :: "nat \<Rightarrow> string" where
  start: "list1_reach code sync n N keys (list1_sys_init n N keys junk)"
| step: "list1_reach code sync n N keys s \<Longrightarrow> list1_step code sync n N s s' \<Longrightarrow>
    list1_reach code sync n N keys s'"

definition list1_joined :: "nat \<Rightarrow> 'o list1_sys \<Rightarrow> bool" where
  "list1_joined N s \<longleftrightarrow> s1_end s = None \<and> s1_created s = N \<and> (\<forall>t < N. lt_phase (s1_thr s t) = Finished)"

definition list1_final_check :: "heap \<Rightarrow> addr \<Rightarrow> int outcome option" where
  "list1_final_check h global_list =
     (case SortedList_length h global_list of
        None \<Rightarrow> None
      | Some (Ret n) \<Rightarrow> Some (if n \<noteq> 0 then list1_sig_corrupt else Ret n)
      | Some _ \<Rightarrow> Some list1_segfault_handler)"

definition list1_report :: "list1_cfg \<Rightarrow> timespec2 \<Rightarrow> timespec2 \<Rightarrow> string outcome" where
  "list1_report c t0 t1 =
     (let runtime = list1_get_runtime t0 t1;
          n_operations = to_int32 (l1_threads c * l1_iterations c * 3) in
      if n_operations = 0 then DivFault
      else Ret (list1_get_tag c @ '','' @ fmt_d (l1_threads c) @ '','' @ fmt_d (l1_iterations c) @ '','' @
                fmt_d list1_n_lists @ '','' @ fmt_d n_operations @ '','' @ fmt_d runtime @ '','' @
                fmt_d (c_div runtime n_operations) @ [CHR 0x0A]))"

text \<open>
  \<open>alloc 0\<close> and \<open>alloc 1\<close> are the element pool and the list header, checked before use; the
  keys come after them and are not checked.
\<close>

definition list1_allocate :: "(nat \<Rightarrow> bool) \<Rightarrow> list1_cfg \<Rightarrow> unit outcome" where
  "list1_allocate alloc c =
     (let n_elements = to_int32 (l1_threads c * l1_iterations c) in
      if \<not> (alloc 0 \<and> 0 \<le> n_elements) \<or> \<not> alloc 1 then Exit 1
      else if \<exists>i \<in> {0..<nat n_elements}. \<not> alloc (2 + i) then SegFault
      else Ret ())"

text \<open>Runs whose number of elements does not fit an \<open>int\<close>, undefined in C, are left out.\<close>

inductive list1_main ::
    "string list \<Rightarrow> (nat \<Rightarrow> bool) \<Rightarrow> (nat \<Rightarrow> nat) \<Rightarrow> timespec2 option \<Rightarrow> timespec2 option \<Rightarrow> string outcome \<Rightarrow> bool" where
  bad_options: "list1_get_opts argv = r \<Longrightarrow> (\<And>c. r \<noteq> Ret c) \<Longrightarrow>
    list1_main argv alloc rand clk0 clk1 (obind r (\<lambda>_. Ret []))"
| no_memory: "list1_get_opts argv = Ret c \<Longrightarrow> list1_allocate alloc c = r \<Longrightarrow> r \<noteq> Ret () \<Longrightarrow>
    list1_main argv alloc rand clk0 clk1 (obind r (\<lambda>_. Ret []))"
| no_clock0: "list1_get_opts argv = Ret c \<Longrightarrow> list1_allocate alloc c = Ret () \<Longrightarrow>
    list1_main argv alloc rand None clk1 (Exit 1)"
| ended: "list1_get_opts argv = Ret c \<Longrightarrow> list1_allocate alloc c = Ret () \<Longrightarrow> list1_get_time clk0 = Ret t0 \<Longrightarrow>
    l1_threads c * l1_iterations c < 2 ^ 31 \<Longrightarrow>
    list1_reach SortedList_code (l1_sync c) (nat (l1_iterations c)) (nat (l1_threads c)) (list1_random_key rand) s \<Longrightarrow>
    s1_end s = Some r \<Longrightarrow>
    list1_main argv alloc rand clk0 clk1 (obind r (\<lambda>_. Ret []))"
| no_clock1: "list1_get_opts argv = Ret c \<Longrightarrow> list1_allocate alloc c = Ret () \<Longrightarrow> list1_get_time clk0 = Ret t0 \<Longrightarrow>
    l1_threads c * l1_iterations c < 2 ^ 31 \<Longrightarrow>
    list1_reach SortedList_code (l1_sync c) (nat (l1_iterations c)) (nat (l1_threads c)) (list1_random_key rand) s \<Longrightarrow>
    list1_joined (nat (l1_threads c)) s \<Longrightarrow>
    list1_main argv alloc rand clk0 None (Exit 1)"
| finished: "list1_get_opts argv = Ret c \<Longrightarrow> list1_allocate alloc c = Ret () \<Longrightarrow> list1_get_time clk0 = Ret t0 \<Longrightarrow>
    l1_threads c * l1_iterations c < 2 ^ 31 \<Longrightarrow>
    list1_reach SortedList_code (l1_sync c) (nat (l1_iterations c)) (nat (l1_threads c)) (list1_random_key rand) s \<Longrightarrow>
    list1_joined (nat (l1_threads c)) s \<Longrightarrow> list1_get_time clk1 = Ret t1 \<Longrightarrow>
    list1_final_check (s1_heap s) (Suc (nat (l1_threads c) * nat (l1_iterations c))) = Some r \<Longrightarrow>
    list1_main argv alloc rand clk0 clk1 (obind r (\<lambda>_. list1_report c t0 t1))"


subsection \<open>The threads refine those of Part_2\<close>

definition par1 :: "char \<Rightarrow> nat \<Rightarrow> nat \<Rightarrow> list_par" where
  "par1 sync n N = \<lparr>p_lists = 1, p_iters = n, p_threads = N, p_sync = sync\<rparr>"

definition abs1 :: "'o list1_sys \<Rightarrow> 'o list_sys" where
  "abs1 s = \<lparr>ls_heap = s1_heap s, ls_mutex = (\<lambda>_. None)(0 := s1_mymutex s), ls_spin = (\<lambda>_. 0)(0 := s1_lock_s s),
     ls_wait = (\<lambda>_. 0), ls_created = s1_created s, ls_thr = s1_thr s, ls_end = s1_end s\<rparr>"

definition thread1_ok :: "nat \<Rightarrow> tid \<Rightarrow> 'o list_thread \<Rightarrow> bool" where
  "thread1_ok n t th \<longleftrightarrow>
     (case lt_phase th of
        Insertions \<Rightarrow> lt_len th = 0 \<and> (lt_pc th \<noteq> LTest \<longrightarrow> lt_i th < (t + 1) * n)
      | Lengths \<Rightarrow> lt_i th = 0 \<and> lt_pc th \<noteq> LTest \<and> (lt_pc th \<noteq> LRelease \<longrightarrow> lt_len th = 0)
      | LookDel \<Rightarrow> lt_pc th \<noteq> LTest \<longrightarrow> lt_i th < (t + 1) * n
      | Finished \<Rightarrow> True)"

definition sim1_ok :: "nat \<Rightarrow> nat \<Rightarrow> 'o list1_sys \<Rightarrow> bool" where
  "sim1_ok n N s \<longleftrightarrow> s1_created s \<le> N \<and> (\<forall>k < N * n. key_of (s1_heap s) (pool_addr k) \<noteq> None) \<and>
     (\<forall>t. thread1_ok n t (s1_thr s t))"

lemma c_div_1: "c_div x 1 = x" and c_mod_1: "c_mod x 1 = 0"
  by (simp_all add: c_mod_def c_div_def sgn_mult_abs)

lemma get_key_hash_1: "get_key_hash 1 key = Ret 0"
  by (simp add: get_key_hash_def c_mod_1 Let_def)

lemma sublist_idx_1:
  assumes "sim1_ok n N s" and "t < N" and "lt_pc (s1_thr s t) \<noteq> LTest" and "lt_phase (s1_thr s t) \<noteq> Finished"
  shows "sublist_idx (par1 sync n N) (s1_heap s) (s1_thr s t) = Ret 0"
proof -
  let ?th = "s1_thr s t"
  have ok: "thread1_ok n t ?th" using assms(1) by (simp add: sim1_ok_def)
  show ?thesis
  proof (cases "lt_phase ?th = Lengths")
    case True
    then show ?thesis using ok by (simp add: sublist_idx_def thread1_ok_def)
  next
    case False
    then have "lt_i ?th < (t + 1) * n" using ok assms(3,4) by (auto simp: thread1_ok_def split: lt_phase.splits)
    also have "\<dots> \<le> N * n" using assms(2) by (intro mult_le_mono) auto
    finally obtain k where "load_key (s1_heap s) (pool_addr (lt_i ?th)) = Ret k"
      using assms(1) by (fastforce simp: sim1_ok_def load_key_def deref_def key_of_def split: option.splits Option.bind_splits)
    then show ?thesis using False assms(4)
      by (cases "lt_phase ?th") (simp_all add: sublist_idx_def par1_def get_key_hash_1)
  qed
qed

lemma abs1_simps [simp]:
  "ls_heap (abs1 s) = s1_heap s" "ls_thr (abs1 s) = s1_thr s" "ls_created (abs1 s) = s1_created s"
  "ls_end (abs1 s) = s1_end s" "ls_mutex (abs1 s) 0 = s1_mymutex s" "ls_spin (abs1 s) 0 = s1_lock_s s"
  by (simp_all add: abs1_def)

lemma abs1_upd:
  "abs1 (l1set t th s) = lset t th (abs1 s)" "abs1 (l1end r s) = lend r (abs1 s)"
  "abs1 (s\<lparr>s1_heap := h\<rparr>) = (abs1 s)\<lparr>ls_heap := h\<rparr>"
  "abs1 (s\<lparr>s1_mymutex := m\<rparr>) = (abs1 s)\<lparr>ls_mutex := (ls_mutex (abs1 s))(0 := m)\<rparr>"
  "abs1 (s\<lparr>s1_lock_s := l\<rparr>) = (abs1 s)\<lparr>ls_spin := (ls_spin (abs1 s))(0 := l)\<rparr>"
  "abs1 (s\<lparr>s1_created := c\<rparr>) = (abs1 s)\<lparr>ls_created := c\<rparr>"
  by (simp_all add: abs1_def l1set_def lset_def l1end_def lend_def)

lemma acquire_sim:
  assumes "list1_acquire sync t s = Some s'"
  shows "list_acquire (par1 sync n N) (Some 0) t 0 (abs1 s) = Some (abs1 s')"
proof -
  have w: "ls_wait (abs1 s) = (\<lambda>_. 0)" by (simp add: abs1_def)
  have u: "(\<lambda>_. 0 :: u64)(t := 0) = (\<lambda>_. 0)" by auto
  show ?thesis using assms
    by (auto simp: list1_acquire_def list_acquire_def par1_def Let_def abs1_upd w u split: prod.splits if_splits)
qed

lemma thread_step_sim:
  assumes ok: "sim1_ok n N s" and t: "t < N" and st: "list1_thread_step code sync n (Suc (N * n)) t s = Some s'"
    and nl: "\<not> (lt_phase (s1_thr s t) = Insertions \<and> lt_pc (s1_thr s t) = LTest \<and> \<not> lt_i (s1_thr s t) < (t + 1) * n)"
    and nr: "\<not> (lt_phase (s1_thr s t) = Lengths \<and> lt_pc (s1_thr s t) = LRelease)"
  shows "list_thread_step code (par1 sync n N) (Some 0) t (abs1 s) = Some (abs1 s')"
proof -
  let ?th = "s1_thr s t"
  have th: "thread1_ok n t ?th" using ok by (simp add: sim1_ok_def)
  have fin: "lt_phase ?th \<noteq> Finished" using st by (auto simp: list1_thread_step_def Let_def)
  have idx: "lt_pc ?th \<noteq> LTest \<Longrightarrow> sublist_idx (par1 sync n N) (s1_heap s) ?th = Ret 0"
    using sublist_idx_1 [OF ok t _ fin] by blast
  have hd: "head_addr (par1 sync n N) 0 = Suc (N * n)" by (simp add: head_addr_def par1_def)
  show ?thesis
  proof (cases "lt_pc ?th")
    case LTest
    then show ?thesis using st fin th nl
      by (auto simp: list1_thread_step_def list_thread_step_def Let_def abs1_upd list1_loop_test_def
          list_loop_test_def par1_def thread1_ok_def split: lt_phase.splits)
  next
    case LAcquire
    then show ?thesis using st fin idx acquire_sim [of sync t s s' n N]
      by (simp add: list1_thread_step_def list_thread_step_def Let_def)
  next
    case LSpin
    then show ?thesis using st fin idx
      by (auto simp: list1_thread_step_def list_thread_step_def Let_def abs1_upd)
  next
    case LBegin
    then show ?thesis using st fin idx
      by (auto simp: list1_thread_step_def list_thread_step_def Let_def abs1_upd list1_begin_def list_begin_def hd
          list1_segfault_handler_def segfault_handler_def list1_sig_corrupt_def sig_corrupt_def
          split: lt_phase.splits outcome.splits)
  next
    case (LRun op)
    have "abs1 (list1_result code t r s1) = list_result code t r (abs1 s1)" if "s1_thr s1 = s1_thr s" for r s1
      using that th fin LRun
      by (auto simp: list1_result_def list_result_def Let_def abs1_upd list1_sig_corrupt_def sig_corrupt_def thread1_ok_def
          split: lt_phase.splits sl_res.splits option.splits)
    then show ?thesis using st fin LRun
      by (auto simp: list1_thread_step_def list_thread_step_def Let_def abs1_upd
          list1_segfault_handler_def segfault_handler_def list1_sig_corrupt_def sig_corrupt_def
          split: outcome.splits sum.splits prod.splits)
  next
    case LRelease
    then show ?thesis using st fin idx nr
      by (auto simp: list1_thread_step_def list_thread_step_def Let_def list1_release_def list_release_def par1_def abs1_upd)
  qed
qed


text \<open>The two steps that \<open>Part_2\<close> splits because it loops over the sublists.\<close>

lemma loop_exit_sim:
  assumes "lt_phase (s1_thr s t) = Insertions" and "lt_pc (s1_thr s t) = LTest" and "\<not> lt_i (s1_thr s t) < (t + 1) * n"
    and "list1_thread_step code sync n gl t s = Some s'"
  shows "\<exists>u. list_thread_step code (par1 sync n N) (Some 0) t (abs1 s) = Some u \<and> ls_end u = s1_end s \<and>
    ls_created u = s1_created s \<and> list_thread_step code (par1 sync n N) (Some 0) t u = Some (abs1 s')"
  using assms
  by (auto simp: list1_thread_step_def list_thread_step_def Let_def list1_loop_test_def list_loop_test_def
      par1_def lgoto_def abs1_upd) (simp add: lset_def)

lemma thread_upd_order: "th\<lparr>lt_pc := a, lt_phase := b, lt_i := c\<rparr> = th\<lparr>lt_phase := b, lt_i := c, lt_pc := a\<rparr>"
  by (cases th) simp

lemma release_length_sim:
  assumes "lt_phase (s1_thr s t) = Lengths" and "lt_pc (s1_thr s t) = LRelease"
    and ok: "sim1_ok n N s" and t: "t < N" and st: "list1_thread_step code sync n gl t s = Some s'"
  shows "\<exists>u. list_thread_step code (par1 sync n N) (Some 0) t (abs1 s) = Some u \<and> ls_end u = s1_end s \<and>
    ls_created u = s1_created s \<and> list_thread_step code (par1 sync n N) (Some 0) t u = Some (abs1 s')"
proof -
  let ?th = "s1_thr s t"
  have i: "lt_i ?th = 0" using ok assms(1) by (auto simp: sim1_ok_def thread1_ok_def dest!: spec [of _ t])
  have idx: "sublist_idx (par1 sync n N) (s1_heap s) ?th = Ret 0"
    using assms by (intro sublist_idx_1) auto
  let ?u = "list_release (par1 sync n N) t 0 (abs1 s)"
  have "list_thread_step code (par1 sync n N) (Some 0) t (abs1 s) = Some ?u"
    using assms(1,2) idx by (simp add: list_thread_step_def Let_def)
  moreover have "list_thread_step code (par1 sync n N) (Some 0) t ?u = Some (abs1 s')"
    using st assms(1,2) i
    by (auto simp: list1_thread_step_def list_thread_step_def Let_def list1_release_def list_release_def
        list_loop_test_def par1_def abs1_upd) (simp_all add: lset_def thread_upd_order)
  moreover have "ls_end ?u = s1_end s" "ls_created ?u = s1_created s"
    by (simp_all add: list_release_def Let_def par1_def)
  ultimately show ?thesis by blast
qed

lemma thread1_step_local:
  assumes "list1_thread_step code sync n gl t s = Some s'" and "thread1_ok n t (s1_thr s t)"
  shows "s1_created s' = s1_created s \<and> (\<forall>u. u \<noteq> t \<longrightarrow> s1_thr s' u = s1_thr s u) \<and> thread1_ok n t (s1_thr s' t)"
proof (cases "lt_pc (s1_thr s t)")
  case LTest
  then show ?thesis using assms
    by (cases "lt_phase (s1_thr s t)")
      (auto simp: list1_thread_step_def Let_def list1_loop_test_def l1set_def thread1_ok_def lgoto_def)
next
  case LAcquire
  then show ?thesis using assms
    by (cases "lt_phase (s1_thr s t)")
      (auto simp: list1_thread_step_def Let_def list1_acquire_def l1set_def thread1_ok_def split: if_splits prod.splits)
next
  case LSpin
  then show ?thesis using assms
    by (cases "lt_phase (s1_thr s t)") (auto simp: list1_thread_step_def Let_def l1set_def thread1_ok_def)
next
  case LBegin
  then show ?thesis using assms
    by (cases "lt_phase (s1_thr s t)")
      (auto simp: list1_thread_step_def Let_def l1set_def l1end_def thread1_ok_def split: outcome.splits)
next
  case (LRun op)
  have "s1_created (list1_result code t r s1) = s1_created s1 \<and>
      (\<forall>u. u \<noteq> t \<longrightarrow> s1_thr (list1_result code t r s1) u = s1_thr s1 u) \<and>
      thread1_ok n t (s1_thr (list1_result code t r s1) t)" if "s1_thr s1 = s1_thr s" for r s1
    using that LRun assms(2)
    by (cases "lt_phase (s1_thr s t)"; cases r)
      (auto simp: list1_result_def Let_def l1set_def l1end_def thread1_ok_def lgoto_def split: option.splits)
  then show ?thesis using assms LRun
    by (cases "lt_phase (s1_thr s t)")
      (auto simp: list1_thread_step_def Let_def l1set_def l1end_def thread1_ok_def
        split: outcome.splits sum.splits prod.splits)
next
  case LRelease
  then show ?thesis using assms
    by (cases "lt_phase (s1_thr s t)")
      (auto simp: list1_thread_step_def Let_def list1_release_def l1set_def thread1_ok_def)
qed

context sorted_list_object
begin

lemma thread1_step_key:
  assumes "list1_thread_step code sync n gl t s = Some s'"
  shows "key_of (s1_heap s') a = key_of (s1_heap s) a"
proof -
  have "s1_heap (list1_result code t r s1) = s1_heap s1" for r s1
    by (auto simp: list1_result_def Let_def l1set_def l1end_def split: lt_phase.splits sl_res.splits option.splits)
  then show ?thesis using assms
    by (cases "lt_pc (s1_thr s t)")
      (auto simp: list1_thread_step_def Let_def l1set_def l1end_def list1_acquire_def list1_release_def step_key
        split: if_splits outcome.splits sum.splits prod.splits)
qed

lemma list1_step_sim:
  assumes st: "list1_step code sync n N s s'" and ok: "sim1_ok n N s" and r: "list_reach code (par1 sync n N) keys (abs1 s)"
  shows "list_reach code (par1 sync n N) keys (abs1 s') \<and> sim1_ok n N s'"
  using st
proof (cases rule: list1_step.cases)
  case create
  have "list_step code (par1 sync n N) (abs1 s) (abs1 s')"
    using list_step.create [of "abs1 s" "par1 sync n N" code] create by (simp add: abs1_upd par1_def)
  with r ok create show ?thesis by (auto simp: sim1_ok_def intro: list_reach.step)
next
  case create_fails
  have "list_step code (par1 sync n N) (abs1 s) (abs1 s')"
    using list_step.create_fails [of "abs1 s" "par1 sync n N" code] create_fails by (simp add: abs1_upd par1_def)
  with r ok create_fails show ?thesis by (auto simp: sim1_ok_def l1end_def intro: list_reach.step)
next
  case (run t)
  have t: "t < N" using run(2) ok by (simp add: sim1_ok_def)
  let ?p = "par1 sync n N"
  have tok: "thread1_ok n t (s1_thr s t)" using ok by (simp add: sim1_ok_def)
  have "sim1_ok n N s'"
    using ok thread1_step_local [OF run(3) tok] thread1_step_key [OF run(3)]
    by (auto simp: sim1_ok_def) (metis)
  moreover have "list_reach code ?p keys (abs1 s')"
  proof (cases "lt_phase (s1_thr s t) = Insertions \<and> lt_pc (s1_thr s t) = LTest \<and> \<not> lt_i (s1_thr s t) < (t + 1) * n
      \<or> lt_phase (s1_thr s t) = Lengths \<and> lt_pc (s1_thr s t) = LRelease")
    case True
    then obtain u where "list_thread_step code ?p (Some 0) t (abs1 s) = Some u" "ls_end u = s1_end s"
      "ls_created u = s1_created s" "list_thread_step code ?p (Some 0) t u = Some (abs1 s')"
      using loop_exit_sim [OF _ _ _ run(3), of N] release_length_sim [OF _ _ ok t run(3)] by metis
    with r run(1,2) show ?thesis by (metis abs1_simps(3,4) list_reach.step list_step.run)
  next
    case False
    then have "list_thread_step code ?p (Some 0) t (abs1 s) = Some (abs1 s')"
      using thread_step_sim [OF ok t run(3)] by blast
    with r run(1,2) show ?thesis by (metis abs1_simps(3,4) list_reach.step list_step.run)
  qed
  ultimately show ?thesis by blast
qed

lemma list1_reach_sim:
  "list1_reach code sync n N keys s \<Longrightarrow> list_reach code (par1 sync n N) keys (abs1 s) \<and> sim1_ok n N s"
proof (induction rule: list1_reach.induct)
  case (start junk)
  have "abs1 (list1_sys_init n N keys junk) = list_sys_init (par1 sync n N) keys junk"
    by (auto simp: abs1_def list1_sys_init_def list_sys_init_def list_thread_init_def par1_def fun_eq_iff
        list1_init_heap_def list_init_heap_def Let_def)
  moreover have "sim1_ok n N (list1_sys_init n N keys junk)"
    by (auto simp: sim1_ok_def list1_sys_init_def thread1_ok_def list1_init_heap_def pool_addr_def key_of_def)
  ultimately show ?case by (metis list_reach.start)
next
  case (step s s')
  then show ?case using list1_step_sim by blast
qed

end


subsection \<open>The program with SortedList.c\<close>

lemma list1_random_key_eq: "list1_random_key = random_key"
  by (simp add: fun_eq_iff list1_random_key_def random_key_def list1_gen_random_def gen_random_def)

lemma list1_good_keys: "good_keys (par1 sync n N) (list1_random_key rand)"
  unfolding list1_random_key_eq by (rule good_random_keys) (simp add: par1_def)

lemma list1_reach_end:
  assumes "list1_reach SortedList_code sync n N keys s" and "good_keys (par1 sync n N) keys"
    and "sync = CHR ''m'' \<or> sync = CHR ''s''" and "N * n < 2 ^ 31"
  shows "s1_end s = None \<or> s1_end s = Some (Exit 1)"
  using list_reach_end [OF conjunct1 [OF sl.list1_reach_sim [OF assms(1)]] assms(2)] assms(3,4)
  by (simp add: list_synchronised_def par1_def n_elems_def)

lemma list1_final_check_ok:
  assumes "list1_reach SortedList_code sync n N keys s" and "good_keys (par1 sync n N) keys"
    and "sync = CHR ''m'' \<or> sync = CHR ''s''" and "list1_joined N s"
  shows "list1_final_check (s1_heap s) (Suc (N * n)) = Some (Ret 0)"
proof -
  have "list_synchronised (par1 sync n N)" "list_joined (par1 sync n N) (abs1 s)"
    using assms(3,4) by (auto simp: list_synchronised_def par1_def list_joined_def list1_joined_def)
  then have "sorted_list_at (s1_heap s |` {Suc (N * n)}) (Suc (N * n)) {}"
    using sl.list_joined_empty [OF sl.list_reach_safe [OF conjunct1 [OF sl.list1_reach_sim [OF assms(1)]] assms(2)], of 0]
    by (simp add: par1_def head_addr_def)
  then show ?thesis by (simp add: list1_final_check_def SortedList_length_empty)
qed

end
