(* ===== verification/Ext2.thy ===== *)
theory Ext2
  imports CLib
begin

text \<open>
  The on-disk structures of \<open>CS111/project3/part_1/ext2_fs.h\<close>: little-endian fields at
  the offsets the C compiler gives them, decoded from a buffer of bytes.
\<close>

subsection \<open>Little-endian numbers\<close>

primrec le_nat :: "u8 list \<Rightarrow> nat" where
  "le_nat [] = 0"
| "le_nat (b # bs) = unat b + 256 * le_nat bs"

definition u8_at :: "u8 list \<Rightarrow> nat \<Rightarrow> u8" where
  "u8_at bs i = word_of_nat (le_nat (take 1 (drop i bs)))"

definition u16_at :: "u8 list \<Rightarrow> nat \<Rightarrow> u16" where
  "u16_at bs i = word_of_nat (le_nat (take 2 (drop i bs)))"

definition u32_at :: "u8 list \<Rightarrow> nat \<Rightarrow> u32" where
  "u32_at bs i = word_of_nat (le_nat (take 4 (drop i bs)))"

definition u32s_at :: "u8 list \<Rightarrow> nat \<Rightarrow> nat \<Rightarrow> u32 list" where
  "u32s_at bs i n = map (\<lambda>k. u32_at bs (i + 4 * k)) [0..<n]"

subsection \<open>The structures\<close>

definition EXT2_MIN_BLOCK_SIZE :: int where "EXT2_MIN_BLOCK_SIZE = 1024"
definition EXT2_NDIR_BLOCKS :: nat where "EXT2_NDIR_BLOCKS = 12"
definition EXT2_IND_BLOCK :: nat where "EXT2_IND_BLOCK = EXT2_NDIR_BLOCKS"
definition EXT2_DIND_BLOCK :: nat where "EXT2_DIND_BLOCK = EXT2_IND_BLOCK + 1"
definition EXT2_TIND_BLOCK :: nat where "EXT2_TIND_BLOCK = EXT2_DIND_BLOCK + 1"
definition EXT2_N_BLOCKS :: nat where "EXT2_N_BLOCKS = EXT2_TIND_BLOCK + 1"
definition EXT2_NAME_LEN :: nat where "EXT2_NAME_LEN = 255"

record ext2_group_desc =
  bg_block_bitmap :: u32
  bg_inode_bitmap :: u32
  bg_inode_table :: u32
  bg_free_blocks_count :: u16
  bg_free_inodes_count :: u16
  bg_used_dirs_count :: u16
  bg_pad :: u16
  bg_reserved :: "u32 list"

definition sizeof_group_desc :: nat where "sizeof_group_desc = 32"

definition group_desc_of :: "u8 list \<Rightarrow> ext2_group_desc" where
  "group_desc_of bs =
     \<lparr>bg_block_bitmap = u32_at bs 0, bg_inode_bitmap = u32_at bs 4, bg_inode_table = u32_at bs 8,
      bg_free_blocks_count = u16_at bs 12, bg_free_inodes_count = u16_at bs 14,
      bg_used_dirs_count = u16_at bs 16, bg_pad = u16_at bs 18, bg_reserved = u32s_at bs 20 3\<rparr>"

record ext2_inode =
  i_mode :: u16
  i_uid :: u16
  i_size :: u32
  i_atime :: u32
  i_ctime :: u32
  i_mtime :: u32
  i_dtime :: u32
  i_gid :: u16
  i_links_count :: u16
  i_blocks :: u32
  i_flags :: u32
  i_reserved1 :: u32
  i_block :: "u32 list"
  i_version :: u32
  i_file_acl :: u32
  i_dir_acl :: u32
  i_faddr :: u32
  i_frag :: u8
  i_fsize :: u8
  i_pad1 :: u16
  i_reserved2 :: "u32 list"

definition sizeof_inode :: nat where "sizeof_inode = 128"

definition inode_of :: "u8 list \<Rightarrow> ext2_inode" where
  "inode_of bs =
     \<lparr>i_mode = u16_at bs 0, i_uid = u16_at bs 2, i_size = u32_at bs 4, i_atime = u32_at bs 8,
      i_ctime = u32_at bs 12, i_mtime = u32_at bs 16, i_dtime = u32_at bs 20, i_gid = u16_at bs 24,
      i_links_count = u16_at bs 26, i_blocks = u32_at bs 28, i_flags = u32_at bs 32, i_reserved1 = u32_at bs 36,
      i_block = u32s_at bs 40 EXT2_N_BLOCKS, i_version = u32_at bs 100, i_file_acl = u32_at bs 104,
      i_dir_acl = u32_at bs 108, i_faddr = u32_at bs 112, i_frag = u8_at bs 116, i_fsize = u8_at bs 117,
      i_pad1 = u16_at bs 118, i_reserved2 = u32s_at bs 120 2\<rparr>"

text \<open>The fields of the superblock up to the padding \<open>s_reserved\<close>.\<close>

record ext2_super_block =
  s_inodes_count :: u32
  s_blocks_count :: u32
  s_r_blocks_count :: u32
  s_free_blocks_count :: u32
  s_free_inodes_count :: u32
  s_first_data_block :: u32
  s_log_block_size :: u32
  s_log_frag_size :: u32
  s_blocks_per_group :: u32
  s_frags_per_group :: u32
  s_inodes_per_group :: u32
  s_mtime :: u32
  s_wtime :: u32
  s_mnt_count :: u16
  s_max_mnt_count :: u16
  s_magic :: u16
  s_state :: u16
  s_errors :: u16
  s_minor_rev_level :: u16
  s_lastcheck :: u32
  s_checkinterval :: u32
  s_creator_os :: u32
  s_rev_level :: u32
  s_def_resuid :: u16
  s_def_resgid :: u16
  s_first_ino :: u32
  s_inode_size :: u16
  s_block_group_nr :: u16
  s_feature_compat :: u32
  s_feature_incompat :: u32
  s_feature_ro_compat :: u32

definition sizeof_super_block :: nat where "sizeof_super_block = 1024"

definition super_block_of :: "u8 list \<Rightarrow> ext2_super_block" where
  "super_block_of bs =
     \<lparr>s_inodes_count = u32_at bs 0, s_blocks_count = u32_at bs 4, s_r_blocks_count = u32_at bs 8,
      s_free_blocks_count = u32_at bs 12, s_free_inodes_count = u32_at bs 16, s_first_data_block = u32_at bs 20,
      s_log_block_size = u32_at bs 24, s_log_frag_size = u32_at bs 28, s_blocks_per_group = u32_at bs 32,
      s_frags_per_group = u32_at bs 36, s_inodes_per_group = u32_at bs 40, s_mtime = u32_at bs 44,
      s_wtime = u32_at bs 48, s_mnt_count = u16_at bs 52, s_max_mnt_count = u16_at bs 54, s_magic = u16_at bs 56,
      s_state = u16_at bs 58, s_errors = u16_at bs 60, s_minor_rev_level = u16_at bs 62, s_lastcheck = u32_at bs 64,
      s_checkinterval = u32_at bs 68, s_creator_os = u32_at bs 72, s_rev_level = u32_at bs 76,
      s_def_resuid = u16_at bs 80, s_def_resgid = u16_at bs 82, s_first_ino = u32_at bs 84,
      s_inode_size = u16_at bs 88, s_block_group_nr = u16_at bs 90, s_feature_compat = u32_at bs 92,
      s_feature_incompat = u32_at bs 96, s_feature_ro_compat = u32_at bs 100\<rparr>"

text \<open>
  A directory entry; the array \<open>name\<close> is kept as the bytes from offset 8 to the end of
  the structure (255 and one byte of padding).
\<close>

record ext2_dir_entry =
  de_inode :: u32
  de_rec_len :: u16
  de_name_len :: u8
  de_file_type :: u8
  de_name :: "u8 list"

definition sizeof_dir_entry :: nat where "sizeof_dir_entry = 264"

definition dir_entry_of :: "u8 list \<Rightarrow> ext2_dir_entry" where
  "dir_entry_of bs =
     \<lparr>de_inode = u32_at bs 0, de_rec_len = u16_at bs 4, de_name_len = u8_at bs 6, de_file_type = u8_at bs 7,
      de_name = drop 8 (take sizeof_dir_entry bs)\<rparr>"

lemma at_skip:
  "length as \<le> i \<Longrightarrow> u8_at (as @ bs) i = u8_at bs (i - length as)"
  "length as \<le> i \<Longrightarrow> u16_at (as @ bs) i = u16_at bs (i - length as)"
  "length as \<le> i \<Longrightarrow> u32_at (as @ bs) i = u32_at bs (i - length as)"
  by (simp_all add: u8_at_def u16_at_def u32_at_def)

end
