(* ===== verification/Lab3a.thy ===== *)
theory Lab3a
  imports Ext2 "HOL-Library.Monad_Syntax"
begin

unbundle bit_operations_syntax

text \<open>
  \<open>CS111/project3/part_1/lab3a.c\<close>: the analysis of an ext2 image. The image is read with
  \<open>pread\<close> into buffers whose earlier contents stay where a read is short; the program's
  output is the list of its lines.
\<close>

subsection \<open>The image\<close>

text \<open>
  \<open>d_fail off n\<close> says that the device reports an error for that read; a negative offset
  is an error of its own (\<open>EINVAL\<close>).
\<close>

record disk =
  d_bytes :: "u8 list"
  d_fail :: "int \<Rightarrow> nat \<Rightarrow> bool"

definition pread :: "disk \<Rightarrow> nat \<Rightarrow> int \<Rightarrow> u8 list option" where
  "pread d n off =
     (if off < 0 \<or> d_fail d off n then None else Some (take n (drop (nat off) (d_bytes d))))"

definition fill :: "u8 list \<Rightarrow> u8 list \<Rightarrow> u8 list" where
  "fill buf bs = bs @ drop (length bs) buf"

text \<open>\<open>pread\<close> into \<open>buf\<close>, and \<open>exit(1)\<close> when it fails.\<close>

definition read_into :: "disk \<Rightarrow> u8 list \<Rightarrow> nat \<Rightarrow> int \<Rightarrow> u8 list outcome" where
  "read_into d buf n off = (case pread d n off of None \<Rightarrow> Exit 1 | Some bs \<Rightarrow> Ret (fill buf bs))"

text \<open>Output: the lines printed so far together with the result.\<close>

type_synonym 'a io = "string list \<times> 'a outcome"

fun iobind :: "'a io \<Rightarrow> ('a \<Rightarrow> 'b io) \<Rightarrow> 'b io" where
  "iobind (out, Ret x) f = (case f x of (out', r) \<Rightarrow> (out @ out', r))"
| "iobind (out, Exit c) f = (out, Exit c)"
| "iobind (out, SegFault) f = (out, SegFault)"
| "iobind (out, DivFault) f = (out, DivFault)"
| "iobind (out, Abort) f = (out, Abort)"
| "iobind (out, Killed n) f = (out, Killed n)"
| "iobind (out, Hang) f = (out, Hang)"

text \<open>The same where a part may run for ever.\<close>

definition oiobind :: "'a io option \<Rightarrow> ('a \<Rightarrow> 'b io option) \<Rightarrow> 'b io option" where
  "oiobind m f =
     (case m of
        None \<Rightarrow> None
      | Some (out, r) \<Rightarrow>
          (case r of
             Ret x \<Rightarrow> (case f x of None \<Rightarrow> None | Some (out', r') \<Rightarrow> Some (out @ out', r'))
           | Exit c \<Rightarrow> Some (out, Exit c)
           | SegFault \<Rightarrow> Some (out, SegFault)
           | DivFault \<Rightarrow> Some (out, DivFault)
           | Abort \<Rightarrow> Some (out, Abort)
           | Killed n \<Rightarrow> Some (out, Killed n)
           | Hang \<Rightarrow> Some (out, Hang)))"

definition tell :: "string \<Rightarrow> unit io" where
  "tell l = ([l], Ret ())"

definition io_of :: "'a outcome \<Rightarrow> 'a io" where
  "io_of r = ([], r)"

fun commas :: "string list \<Rightarrow> string" where
  "commas [] = []"
| "commas [s] = s"
| "commas (s # ss) = s @ '','' @ commas ss"

definition nl :: string where
  "nl = [CHR 0x0A]"

definition SUPERBLK_OFFSET :: int where "SUPERBLK_OFFSET = 1024"
definition BLOCK_PTR_LEN :: nat where "BLOCK_PTR_LEN = 60"

subsection \<open>Indirect blocks\<close>

text \<open>
  \<open>print_ind_blks\<close>: \<open>junk\<close> is the content of the uninitialised array \<open>ind_blocks\<close>, of
  which the read fills \<open>sizeof(BLOCK_SIZE)\<close>, that is four bytes. The size of the array in
  the source is four times what the loop looks at; the model keeps the part the loop reads.
\<close>

definition ind_line :: "int \<Rightarrow> nat \<Rightarrow> int \<Rightarrow> int \<Rightarrow> u32 \<Rightarrow> string" where
  "ind_line inode_number lvl offset blk_nmbr ptr =
     commas [''INDIRECT'', fmt_d inode_number, fmt_d (int lvl), fmt_d offset, fmt_d blk_nmbr, fmt_d (sint ptr)] @ nl"

definition next_offset :: "nat \<Rightarrow> int \<Rightarrow> int" where
  "next_offset lvl offset =
     (if lvl = 1 then offset + 1 else if lvl = 2 then offset + 256
      else if lvl = 3 then offset + 256 * 256 else offset)"

function (sequential) print_ind_blks :: "disk \<Rightarrow> int \<Rightarrow> (int \<Rightarrow> nat \<Rightarrow> u8) \<Rightarrow> int \<Rightarrow> int \<Rightarrow> int \<Rightarrow> nat \<Rightarrow> unit io" and
  ind_loop :: "disk \<Rightarrow> int \<Rightarrow> (int \<Rightarrow> nat \<Rightarrow> u8) \<Rightarrow> int \<Rightarrow> int \<Rightarrow> int \<Rightarrow> nat \<Rightarrow> u32 list \<Rightarrow> unit io" where
  "print_ind_blks d BLOCK_SIZE junk blk_nmbr inode_number offset lvl =
     (let n_ind_ptrs_per_blk = nat (c_div BLOCK_SIZE 4);
          block_offset = to_int32 (blk_nmbr * BLOCK_SIZE) in
      iobind (io_of (read_into d (map (junk blk_nmbr) [0..<4 * n_ind_ptrs_per_blk]) 4 block_offset)) (\<lambda>buf.
        ind_loop d BLOCK_SIZE junk blk_nmbr inode_number offset lvl (u32s_at buf 0 n_ind_ptrs_per_blk)))"
| "ind_loop d BLOCK_SIZE junk blk_nmbr inode_number offset lvl [] = ([], Ret ())"
| "ind_loop d BLOCK_SIZE junk blk_nmbr inode_number offset lvl (p # ps) =
     iobind
       (if p \<noteq> 0
        then iobind (tell (ind_line inode_number lvl offset blk_nmbr p)) (\<lambda>_.
               if 1 < lvl then print_ind_blks d BLOCK_SIZE junk (sint p) inode_number offset (lvl - 1)
               else ([], Ret ()))
        else ([], Ret ()))
       (\<lambda>_. ind_loop d BLOCK_SIZE junk blk_nmbr inode_number (next_offset lvl offset) lvl ps)"
  by pat_completeness auto
termination
  by (relation "measures
       [\<lambda>x. case x of Inl (d, bs, junk, b, i, off, lvl) \<Rightarrow> 2 * lvl + 1
                      | Inr (d, bs, junk, b, i, off, lvl, ps) \<Rightarrow> 2 * lvl,
        \<lambda>x. case x of Inl (d, bs, junk, b, i, off, lvl) \<Rightarrow> 0
                      | Inr (d, bs, junk, b, i, off, lvl, ps) \<Rightarrow> length ps]") auto

declare print_ind_blks.simps [simp del]

subsection \<open>Dates\<close>

record tm =
  tm_year :: int
  tm_mon :: nat
  tm_mday :: nat
  tm_hour :: nat
  tm_min :: nat
  tm_sec :: nat

definition leap :: "nat \<Rightarrow> bool" where
  "leap y \<longleftrightarrow> y mod 4 = 0 \<and> (y mod 100 \<noteq> 0 \<or> y mod 400 = 0)"

definition year_days :: "nat \<Rightarrow> nat" where
  "year_days y = (if leap y then 366 else 365)"

definition month_days :: "nat \<Rightarrow> nat \<Rightarrow> nat" where
  "month_days y m = (if m = 1 then (if leap y then 29 else 28) else if m \<in> {3, 5, 8, 10} then 30 else 31)"

text \<open>The year of a day number counted from 1 January of year \<open>y\<close>, and the day within it.\<close>

function year_of_day :: "nat \<Rightarrow> nat \<Rightarrow> nat \<times> nat" where
  "year_of_day y d = (if d < year_days y then (y, d) else year_of_day (Suc y) (d - year_days y))"
  by pat_completeness auto
termination
  by (relation "measure snd") (auto simp: year_days_def split: if_splits)

declare year_of_day.simps [simp del]

fun month_of_day :: "nat \<Rightarrow> nat list \<Rightarrow> nat \<Rightarrow> nat \<times> nat" where
  "month_of_day m [] d = (m, d)"
| "month_of_day m (l # ls) d = (if d < l then (m, d) else month_of_day (Suc m) ls (d - l))"

definition gmtime :: "nat \<Rightarrow> tm" where
  "gmtime t =
     (let days = t div 86400; s = t mod 86400;
          (y, d) = year_of_day 1970 days;
          (m, md) = month_of_day 0 (map (month_days y) [0..<11]) d in
      \<lparr>tm_year = int y - 1900, tm_mon = m, tm_mday = Suc md,
       tm_hour = s div 3600, tm_min = s mod 3600 div 60, tm_sec = s mod 60\<rparr>)"

definition time_text :: "tm \<Rightarrow> string" where
  "time_text info =
     fmt_0d 2 (int (tm_mon info) + 1) @ ''/'' @ fmt_0d 2 (int (tm_mday info)) @ ''/'' @
     fmt_d (c_mod (tm_year info) 100) @ '' '' @ fmt_0d 2 (int (tm_hour info)) @ '':'' @
     fmt_0d 2 (int (tm_min info)) @ '':'' @ fmt_0d 2 (int (tm_sec info)) @ '', GMT''"

text \<open>\<open>get_time\<close>: the text put into the buffer of 32 bytes, after the \<open>assert\<close> on its length.\<close>

definition get_time :: "u32 \<Rightarrow> string outcome" where
  "get_time rawtime =
     (let s = time_text (gmtime (unat rawtime)) in if length s < 32 then Ret (take 31 s) else Abort)"

subsection \<open>Superblock and group\<close>

definition block_size :: "ext2_super_block \<Rightarrow> int" where
  "block_size sb = to_int32 (push_bit (unat (s_log_block_size sb) mod 32) EXT2_MIN_BLOCK_SIZE)"

definition superblock_line :: "ext2_super_block \<Rightarrow> string" where
  "superblock_line sb =
     commas [''SUPERBLOCK'', fmt_d (sint (s_blocks_count sb)), fmt_d (sint (s_inodes_count sb)),
       fmt_d (block_size sb), fmt_d (uint (s_inode_size sb)), fmt_d (sint (s_blocks_per_group sb)),
       fmt_d (sint (s_inodes_per_group sb)), fmt_d (sint (s_first_ino sb))] @ nl"

definition group_line :: "ext2_super_block \<Rightarrow> ext2_group_desc \<Rightarrow> string" where
  "group_line sb g =
     commas [''GROUP'', fmt_d 0, fmt_d (sint (s_blocks_count sb)), fmt_d (sint (s_inodes_count sb)),
       fmt_d (uint (bg_free_blocks_count g)), fmt_d (uint (bg_free_inodes_count g)),
       fmt_d (sint (bg_block_bitmap g)), fmt_d (sint (bg_inode_bitmap g)), fmt_d (sint (bg_inode_table g))] @ nl"

text \<open>An offset \<open>block * BLOCK_SIZE\<close> computed in unsigned 32-bit arithmetic.\<close>

definition u32_offset :: "u32 \<Rightarrow> int \<Rightarrow> int" where
  "u32_offset w BLOCK_SIZE = uint (w * of_int BLOCK_SIZE)"

subsection \<open>Bitmaps\<close>

text \<open>
  The loop over the bits of byte \<open>i\<close>: the numbers of the free entries and the counter
  after it. The \<open>break\<close> leaves only this loop.
\<close>

fun bitmap_bits :: "nat list \<Rightarrow> nat \<Rightarrow> u8 \<Rightarrow> int \<Rightarrow> nat list \<times> int" where
  "bitmap_bits [] i b cnt = ([], cnt)"
| "bitmap_bits (j # js) i b cnt =
     (let free = (if 1 AND b = 0 then [8 * i + j + 1] else []); cnt' = to_int32 (cnt - 1) in
      if cnt' = 0 then (free, cnt')
      else (case bitmap_bits js i (signed_drop_bit 1 b) cnt' of (fs, c) \<Rightarrow> (free @ fs, c)))"

fun bitmap_bytes :: "nat \<Rightarrow> u8 list \<Rightarrow> int \<Rightarrow> nat list \<times> int" where
  "bitmap_bytes i [] cnt = ([], cnt)"
| "bitmap_bytes i (b # bs) cnt =
     (case bitmap_bits [0..<8] i b cnt of (fs, c) \<Rightarrow>
        (case bitmap_bytes (Suc i) bs c of (gs, c') \<Rightarrow> (fs @ gs, c')))"

definition free_entries :: "u8 list \<Rightarrow> int \<Rightarrow> nat list" where
  "free_entries bitmap cnt = fst (bitmap_bytes 0 bitmap cnt)"

definition free_summary :: "string \<Rightarrow> u8 list \<Rightarrow> int \<Rightarrow> u16 \<Rightarrow> unit io" where
  "free_summary tag bitmap cnt expected =
     (let free = free_entries bitmap cnt in
      (map (\<lambda>n. tag @ '', '' @ fmt_d (int n) @ nl) free,
       if int (length free) = uint expected then Ret () else Abort))"

subsection \<open>Inodes\<close>

definition file_type :: "u16 \<Rightarrow> char" where
  "file_type mode =
     (let t = mode AND 0xF000 in
      if t = 0x4000 then CHR ''d'' else if t = 0x8000 then CHR ''f'' else if t = 0xA000 then CHR ''s''
      else CHR ''?'')"

text \<open>
  The texts are not cut to the size of \<open>blk_addr\<close> (8 bytes) and \<open>blk_addrs\<close> (128 bytes), which
  block numbers of seven digits and more overflow.
\<close>

definition blk_addrs :: "char \<Rightarrow> ext2_inode \<Rightarrow> string" where
  "blk_addrs ft inode =
     (if ft = CHR ''f'' \<or> ft = CHR ''d'' \<or> ft = CHR ''s'' \<and> BLOCK_PTR_LEN < unat (i_size inode)
      then commas (map (\<lambda>b. fmt_d (sint b)) (take EXT2_N_BLOCKS (i_block inode)))
      else [])"

definition inode_line :: "int \<Rightarrow> ext2_inode \<Rightarrow> string io" where
  "inode_line inode_number inode =
     (let ft = file_type (i_mode inode) in
      iobind (io_of (get_time (i_ctime inode))) (\<lambda>ctime_buf.
      iobind (io_of (get_time (i_mtime inode))) (\<lambda>mtime_buf.
      iobind (io_of (get_time (i_atime inode))) (\<lambda>atime_buf.
        ([], Ret (commas [''INODE'', fmt_d inode_number, [ft], fmt_0o 4 (unat (i_mode inode AND 0x0FFF)),
           fmt_d (uint (i_uid inode)), fmt_d (uint (i_gid inode)), fmt_d (uint (i_links_count inode)),
           ctime_buf, mtime_buf, atime_buf, fmt_d (sint (i_size inode)), fmt_d (sint (i_blocks inode)),
           blk_addrs ft inode] @ nl))))))"

subsection \<open>Directory entries\<close>

text \<open>\<open>%s\<close> of \<open>name\<close>: up to the first NUL.\<close>

definition entry_name :: "ext2_dir_entry \<Rightarrow> string" where
  "entry_name e = map (\<lambda>b. char_of (unat b)) (takeWhile (\<lambda>b. b \<noteq> 0) (de_name e))"

definition dir_line :: "int \<Rightarrow> int \<Rightarrow> ext2_dir_entry \<Rightarrow> string" where
  "dir_line inode_number logical_offset e =
     commas [''DIRECT'', fmt_d inode_number, fmt_d logical_offset, fmt_d (sint (de_inode e)),
       fmt_d (uint (de_rec_len e)), fmt_d (uint (de_name_len e)), entry_name e] @ nl"

text \<open>
  The \<open>while\<close> loop over one block; it goes on for ever at an entry with \<open>rec_len\<close> 0, and
  then the value is \<open>None\<close>. It returns the buffer and the offset it ends with.
\<close>

partial_function (option) dir_scan ::
    "disk \<Rightarrow> int \<Rightarrow> int \<Rightarrow> int \<Rightarrow> u8 list \<Rightarrow> int \<Rightarrow> (u8 list \<times> int) io option" where
  "dir_scan d BLOCK_SIZE inode_number inode_index dir_data logical_offset =
     (if logical_offset < BLOCK_SIZE then
        (case read_into d dir_data sizeof_dir_entry
                (to_int32 (to_int32 (inode_index * BLOCK_SIZE) + logical_offset)) of
           Ret buf \<Rightarrow>
             (let e = dir_entry_of buf;
                  out = (if de_inode e \<noteq> 0 then [dir_line inode_number logical_offset e] else []) in
              do {
                rest \<leftarrow> dir_scan d BLOCK_SIZE inode_number inode_index buf (logical_offset + uint (de_rec_len e));
                Some (iobind (out, Ret ()) (\<lambda>_. rest))
              })
         | Exit c \<Rightarrow> Some ([], Exit c)
         | SegFault \<Rightarrow> Some ([], SegFault)
         | DivFault \<Rightarrow> Some ([], DivFault)
         | Abort \<Rightarrow> Some ([], Abort)
         | Killed n \<Rightarrow> Some ([], Killed n)
         | Hang \<Rightarrow> Some ([], Hang))
      else Some ([], Ret (dir_data, logical_offset)))"

text \<open>The loop over the direct blocks: \<open>logical_offset\<close> is set to 0 once, before it.\<close>

fun dir_blocks :: "disk \<Rightarrow> int \<Rightarrow> int \<Rightarrow> u32 list \<Rightarrow> u8 list \<Rightarrow> int \<Rightarrow> unit io option" where
  "dir_blocks d BLOCK_SIZE inode_number [] dir_data logical_offset = Some ([], Ret ())"
| "dir_blocks d BLOCK_SIZE inode_number (b # bs) dir_data logical_offset =
     (if b \<noteq> 0
      then oiobind (dir_scan d BLOCK_SIZE inode_number (sint b) dir_data logical_offset)
             (\<lambda>(buf, off). dir_blocks d BLOCK_SIZE inode_number bs buf off)
      else dir_blocks d BLOCK_SIZE inode_number bs dir_data logical_offset)"

definition indirect :: "disk \<Rightarrow> int \<Rightarrow> (int \<Rightarrow> nat \<Rightarrow> u8) \<Rightarrow> int \<Rightarrow> ext2_inode \<Rightarrow> nat \<Rightarrow> int \<Rightarrow> nat \<Rightarrow> unit io" where
  "indirect d BLOCK_SIZE junk inode_number inode k offset lvl =
     (if i_block inode ! k \<noteq> 0
      then print_ind_blks d BLOCK_SIZE junk (sint (i_block inode ! k)) inode_number offset lvl
      else ([], Ret ()))"

text \<open>One inode of the table; \<open>junk_dir\<close> is the uninitialised \<open>dir_data\<close>.\<close>

definition inode_summary ::
    "disk \<Rightarrow> int \<Rightarrow> (int \<Rightarrow> nat \<Rightarrow> u8) \<Rightarrow> u8 list \<Rightarrow> int \<Rightarrow> ext2_inode \<Rightarrow> unit io option" where
  "inode_summary d BLOCK_SIZE junk junk_dir inode_number inode =
     (if i_mode inode \<noteq> 0 \<and> i_links_count inode \<noteq> 0 then
        oiobind (Some (iobind (inode_line inode_number inode) tell)) (\<lambda>_.
        oiobind (if file_type (i_mode inode) = CHR ''d''
                 then dir_blocks d BLOCK_SIZE inode_number (take EXT2_NDIR_BLOCKS (i_block inode)) junk_dir 0
                 else Some ([], Ret ())) (\<lambda>_.
          Some (iobind (indirect d BLOCK_SIZE junk inode_number inode EXT2_IND_BLOCK 12 1) (\<lambda>_.
                iobind (indirect d BLOCK_SIZE junk inode_number inode EXT2_DIND_BLOCK 268 2) (\<lambda>_.
                  indirect d BLOCK_SIZE junk inode_number inode EXT2_TIND_BLOCK 65804 3)))))
      else Some ([], Ret ()))"

text \<open>The inode with index \<open>i\<close> of the table, 128 bytes each whatever \<open>s_inode_size\<close> says.\<close>

definition table_inode :: "u8 list \<Rightarrow> nat \<Rightarrow> ext2_inode" where
  "table_inode tbl i = inode_of (take sizeof_inode (drop (i * sizeof_inode) tbl))"

fun inode_loop ::
    "disk \<Rightarrow> int \<Rightarrow> (int \<Rightarrow> nat \<Rightarrow> u8) \<Rightarrow> u8 list \<Rightarrow> u8 list \<Rightarrow> nat list \<Rightarrow> unit io option" where
  "inode_loop d BLOCK_SIZE junk junk_dir tbl [] = Some ([], Ret ())"
| "inode_loop d BLOCK_SIZE junk junk_dir tbl (i # js) =
     oiobind (inode_summary d BLOCK_SIZE junk junk_dir (int i + 1) (table_inode tbl i))
       (\<lambda>_. inode_loop d BLOCK_SIZE junk junk_dir tbl js)"

subsection \<open>main\<close>

text \<open>The uninitialised contents of the stack buffers, by the name of the variable.\<close>

record stack =
  j_buf :: "string \<Rightarrow> nat \<Rightarrow> u8"
  j_ind :: "int \<Rightarrow> nat \<Rightarrow> u8"

definition stack_buf :: "stack \<Rightarrow> string \<Rightarrow> nat \<Rightarrow> u8 list" where
  "stack_buf st v n = map (j_buf st v) [0..<n]"

definition lab3a_inodes :: "disk \<Rightarrow> stack \<Rightarrow> ext2_super_block \<Rightarrow> ext2_group_desc \<Rightarrow> unit io option" where
  "lab3a_inodes d st sb g =
     (let BLOCK_SIZE = block_size sb; n = unat (s_inodes_per_group sb) in
      oiobind (Some (io_of (read_into d (stack_buf st ''inode_tbl_data'' (n * sizeof_inode)) (n * sizeof_inode)
                 (u32_offset (bg_inode_table g) BLOCK_SIZE)))) (\<lambda>tbl.
        inode_loop d BLOCK_SIZE (j_ind st) (stack_buf st ''dir_data'' sizeof_dir_entry) tbl
          [0..<nat (sint (s_inodes_per_group sb))]))"

definition lab3a_free :: "disk \<Rightarrow> stack \<Rightarrow> ext2_super_block \<Rightarrow> ext2_group_desc \<Rightarrow> unit io" where
  "lab3a_free d st sb g =
     (let BLOCK_SIZE = block_size sb; n = nat BLOCK_SIZE in
      iobind (io_of (read_into d (stack_buf st ''block_bitmap'' n) n (u32_offset (bg_block_bitmap g) BLOCK_SIZE))) (\<lambda>bbm.
      iobind (free_summary ''BFREE'' bbm (sint (s_blocks_per_group sb)) (bg_free_blocks_count g)) (\<lambda>_.
      iobind (io_of (read_into d (stack_buf st ''inode_bitmap'' n) n (u32_offset (bg_inode_bitmap g) BLOCK_SIZE))) (\<lambda>ibm.
        free_summary ''IFREE'' ibm (sint (s_inodes_per_group sb)) (bg_free_inodes_count g)))))"

text \<open>A negative \<open>BLOCK_SIZE\<close> is the size of a variable-length array.\<close>

definition lab3a_image :: "disk \<Rightarrow> stack \<Rightarrow> unit io option" where
  "lab3a_image d st =
     oiobind (Some (io_of (read_into d (stack_buf st ''superblk'' sizeof_super_block) sizeof_super_block SUPERBLK_OFFSET)))
       (\<lambda>sbuf. let sb = super_block_of sbuf; BLOCK_SIZE = block_size sb in
     oiobind (Some (tell (superblock_line sb))) (\<lambda>_.
     oiobind (Some (io_of (read_into d (stack_buf st ''blk_tbl'' sizeof_group_desc) sizeof_group_desc
                (to_int32 (SUPERBLK_OFFSET + BLOCK_SIZE)))))
       (\<lambda>gbuf. let g = group_desc_of gbuf in
     oiobind (Some (tell (group_line sb g))) (\<lambda>_.
       if BLOCK_SIZE < 0 then Some ([], SegFault)
       else oiobind (Some (lab3a_free d st sb g)) (\<lambda>_. lab3a_inodes d st sb g)))))"

text \<open>\<open>images\<close> says what \<open>open\<close> returns for a path.\<close>

definition lab3a_main :: "string list \<Rightarrow> (string \<Rightarrow> disk option) \<Rightarrow> stack \<Rightarrow> int io option" where
  "lab3a_main argv images st =
     (if length argv \<noteq> 2 then Some ([], Exit 1)
      else case images (argv ! 1) of
        None \<Rightarrow> Some ([], Exit 1)
      | Some d \<Rightarrow> oiobind (lab3a_image d st) (\<lambda>_. Some ([], Ret 0)))"

end
