(* ===== verification/Lab3aProps.thy ===== *)
theory Lab3aProps
  imports Lab3a
begin

unbundle bit_operations_syntax

text \<open>
  Facts about \<open>lab3a.c\<close>: what the bitmap loops report, that the dates are right and fit
  their buffers, when the directory loop ends and what it prints, and how much of an
  indirect block is looked at.
\<close>

subsection \<open>Bitmaps\<close>

definition bitmap_bit :: "u8 list \<Rightarrow> nat \<Rightarrow> bool" where
  "bitmap_bit bm k = bit (bm ! (k div 8)) (k mod 8)"

lemma and_1_signed_drop:
  assumes "j < 8"
  shows "1 AND signed_drop_bit j (b :: u8) = 0 \<longleftrightarrow> \<not> bit b j"
proof -
  have "1 AND signed_drop_bit j b = of_bool (bit (signed_drop_bit j b) 0)"
    by (simp add: and_one_eq one_and_eq bit_0 mod_2_eq_odd)
  also have "bit (signed_drop_bit j b) 0 = bit b j" using assms by (simp add: bit_signed_drop_bit_iff)
  finally show ?thesis by simp
qed

lemma signed_drop_drop: "signed_drop_bit 1 (signed_drop_bit j (b :: u8)) = signed_drop_bit (Suc j) b"
  by (rule bit_word_eqI) (auto simp: bit_signed_drop_bit_iff not_le not_less less_Suc_eq)

text \<open>The bits of one byte from \<open>j\<close> on; \<open>m\<close> of them are looked at.\<close>

definition bits_seen :: "nat \<Rightarrow> int \<Rightarrow> nat" where
  "bits_seen n cnt = (if 0 < cnt \<and> cnt \<le> int n then nat cnt else n)"

lemma bitmap_bits_eq:
  assumes "j \<le> 8" and "- (2 ^ 31) \<le> cnt - int (8 - j)" and "cnt < 2 ^ 31"
  shows "bitmap_bits [j..<8] i (signed_drop_bit j b) cnt =
    (map (\<lambda>k. 8 * i + k + 1) (filter (\<lambda>k. \<not> bit b k) [j..<j + bits_seen (8 - j) cnt]), cnt - int (bits_seen (8 - j) cnt))"
  using assms
proof (induction "8 - j" arbitrary: j cnt)
  case 0
  then show ?case by (simp add: bits_seen_def)
next
  case (Suc n)
  then have j: "j < 8" and n: "n = 8 - Suc j" by auto
  have up: "[j..<8] = j # [Suc j..<8]" using j by (rule upt_conv_Cons)
  have c1: "to_int32 (cnt - 1) = cnt - 1" using Suc.prems j by (intro to_int32_id) auto
  have IH: "bitmap_bits [Suc j..<8] i (signed_drop_bit (Suc j) b) (cnt - 1) =
    (map (\<lambda>k. 8 * i + k + 1) (filter (\<lambda>k. \<not> bit b k) [Suc j..<Suc j + bits_seen (8 - Suc j) (cnt - 1)]),
     cnt - 1 - int (bits_seen (8 - Suc j) (cnt - 1)))"
    using Suc.prems j by (intro Suc.hyps(1) [OF n]) auto
  show ?case
  proof (cases "cnt = 1")
    case True
    then have "bits_seen (8 - j) cnt = 1" using j by (simp add: bits_seen_def)
    then show ?thesis using True c1 j unfolding up by (simp add: and_1_signed_drop)
  next
    case False
    have "bits_seen (8 - j) cnt = Suc (bits_seen (8 - Suc j) (cnt - 1))"
      using False j by (auto simp: bits_seen_def)
    moreover have "[j..<j + Suc m] = j # [Suc j..<Suc j + m]" for m by (simp add: upt_conv_Cons)
    moreover have "cnt - 1 - int m = cnt - int (Suc m)" for m by simp
    ultimately show ?thesis using False c1 j IH signed_drop_drop [of j b] unfolding up
      by (simp add: and_1_signed_drop Let_def del: upt_Suc upt_rec_numeral of_nat_Suc)
  qed
qed

lemma bitmap_byte_eq:
  assumes "- (2 ^ 31) \<le> cnt - 8" and "cnt < 2 ^ 31"
  shows "bitmap_bits [0..<8] i b cnt =
    (map (\<lambda>k. 8 * i + k + 1) (filter (\<lambda>k. \<not> bit b k) [0..<bits_seen 8 cnt]), cnt - int (bits_seen 8 cnt))"
  using bitmap_bits_eq [of 0 cnt i b] assms by (simp del: upt_Suc upt_rec_numeral)

text \<open>Entry \<open>k\<close> of the bitmap is looked at with the counter at \<open>cnt\<close> before entry 0.\<close>

definition seen :: "int \<Rightarrow> nat \<Rightarrow> bool" where
  "seen cnt k \<longleftrightarrow> cnt \<le> 0 \<or> int k < cnt \<or> 8 * ((cnt + 7) div 8) \<le> int k"

lemma upt_8_split: "[0..<8 * Suc n] = [0..<8] @ map (\<lambda>k. k + 8) [0..<8 * n]"
proof -
  have "[0..<8 * Suc n] = [0..<8] @ [8..<8 + 8 * n]" using upt_add_eq_append [of 0 8 "8 * n"] by simp
  then show ?thesis by (simp add: map_add_upt add.commute)
qed

lemma filter_seen_byte: "filter (\<lambda>k. \<not> bit b k) [0..<bits_seen 8 cnt] = filter (\<lambda>k. \<not> bit b k \<and> seen cnt k) [0..<8]"
proof (cases "0 < cnt \<and> cnt \<le> 8")
  case True
  have "nat cnt + (8 - nat cnt) = 8" using True by (simp add: nat_le_iff)
  then have "[0..<8] = [0..<nat cnt] @ [nat cnt..<8]"
    using upt_add_eq_append [of 0 "nat cnt" "8 - nat cnt"] by (simp del: upt_Suc upt_rec_numeral)
  moreover have "(cnt + 7) div 8 = 1" using True by auto
  then have "\<not> seen cnt k" if "nat cnt \<le> k" "k < 8" for k
    using True that by (auto simp: seen_def)
  moreover have "seen cnt k" if "k < nat cnt" for k using that by (auto simp: seen_def)
  ultimately show ?thesis using True by (auto simp: bits_seen_def intro!: filter_cong)
next
  case False
  then have "seen cnt k" if "k < 8" for k using that by (auto simp: seen_def)
  then show ?thesis using False by (auto simp: bits_seen_def intro!: filter_cong)
qed

lemma seen_next:
  "seen (cnt - int (bits_seen 8 cnt)) k \<longleftrightarrow> seen cnt (k + 8)"
proof -
  consider "cnt \<le> 0" | "0 < cnt" "cnt \<le> 8" | "8 < cnt" by linarith
  then show ?thesis
  proof cases
    case 2
    then have "(cnt + 7) div 8 = 1" by auto
    with 2 show ?thesis by (simp add: seen_def bits_seen_def)
  next
    case 3
    have "(cnt - 8 + 7) div 8 = (cnt + 7) div 8 - 1" by auto
    with 3 show ?thesis by (auto simp: seen_def bits_seen_def)
  qed (auto simp: seen_def bits_seen_def)
qed

lemma bitmap_bytes_eq:
  assumes "- (2 ^ 31) \<le> cnt - 8 * int (length bs)" and "cnt < 2 ^ 31"
  shows "fst (bitmap_bytes i bs cnt) =
    map (\<lambda>k. 8 * i + k + 1) (filter (\<lambda>k. \<not> bitmap_bit bs k \<and> seen cnt k) [0..<8 * length bs])"
  using assms
proof (induction bs arbitrary: i cnt)
  case (Cons b bs)
  let ?c = "cnt - int (bits_seen 8 cnt)"
  have byte: "bitmap_bits [0..<8] i b cnt = (map (\<lambda>k. 8 * i + k + 1) (filter (\<lambda>k. \<not> bit b k) [0..<bits_seen 8 cnt]), ?c)"
    using Cons.prems by (intro bitmap_byte_eq) auto
  have "- (2 ^ 31) \<le> ?c - 8 * int (length bs)" "?c < 2 ^ 31" using Cons.prems by (auto simp: bits_seen_def)
  note IH = Cons.IH [OF this, of "Suc i"]
  have "map (\<lambda>k. 8 * i + k + 1) (filter (\<lambda>k. \<not> bitmap_bit (b # bs) k \<and> seen cnt k) [0..<8]) =
      map (\<lambda>k. 8 * i + k + 1) (filter (\<lambda>k. \<not> bit b k) [0..<bits_seen 8 cnt])"
    unfolding filter_seen_byte by (intro arg_cong [where f = "map _"] filter_cong) (auto simp: bitmap_bit_def)
  moreover have "filter (\<lambda>k. \<not> bitmap_bit (b # bs) k \<and> seen cnt k) (map (\<lambda>k. k + 8) [0..<8 * length bs]) =
      map (\<lambda>k. k + 8) (filter (\<lambda>k. \<not> bitmap_bit bs k \<and> seen ?c k) [0..<8 * length bs])"
    by (simp add: filter_map comp_def seen_next bitmap_bit_def div_add_self2 cong: filter_cong)
  moreover have "[0..<8 * length (b # bs)] = [0..<8] @ map (\<lambda>k. k + 8) [0..<8 * length bs]"
    unfolding length_Cons by (rule upt_8_split)
  ultimately have "map (\<lambda>k. 8 * i + k + 1) (filter (\<lambda>k. \<not> bitmap_bit (b # bs) k \<and> seen cnt k) [0..<8 * length (b # bs)]) =
      map (\<lambda>k. 8 * i + k + 1) (filter (\<lambda>k. \<not> bit b k) [0..<bits_seen 8 cnt]) @
      map (\<lambda>k. 8 * Suc i + k + 1) (filter (\<lambda>k. \<not> bitmap_bit bs k \<and> seen ?c k) [0..<8 * length bs])"
    by (simp only: filter_append map_append map_map comp_def) (simp add: algebra_simps)
  then show ?case using byte IH by (simp add: case_prod_unfold)
qed simp


lemma free_entries_eq:
  assumes "8 * length bm < 2 ^ 31" and "0 \<le> cnt" and "cnt < 2 ^ 31"
  shows "free_entries bm cnt = map Suc (filter (\<lambda>k. \<not> bitmap_bit bm k \<and> seen cnt k) [0..<8 * length bm])"
proof -
  have "8 * int (length bm) < 2 ^ 31" using assms(1) by simp
  then have "- (2 ^ 31) \<le> cnt - 8 * int (length bm)" using assms(2) by linarith
  from bitmap_bytes_eq [OF this assms(3), of 0] show ?thesis by (simp add: free_entries_def)
qed

lemma free_entries_whole:
  assumes "8 * int (length bm) \<le> cnt" and "cnt < 2 ^ 31"
  shows "free_entries bm cnt = map Suc (filter (\<lambda>k. \<not> bitmap_bit bm k) [0..<8 * length bm])"
proof -
  have "seen cnt k" if "k < 8 * length bm" for k using assms(1) that by (auto simp: seen_def)
  moreover have "free_entries bm cnt = map Suc (filter (\<lambda>k. \<not> bitmap_bit bm k \<and> seen cnt k) [0..<8 * length bm])"
    using assms by (intro free_entries_eq) auto
  ultimately show ?thesis by (auto intro!: filter_cong)
qed

subsection \<open>Dates\<close>

text \<open>Days from 1 January 1970 to the first day of a year, and of a month within it.\<close>

definition days_before_year :: "nat \<Rightarrow> nat" where
  "days_before_year y = (\<Sum>k = 1970..<y. year_days k)"

definition days_before_month :: "nat \<Rightarrow> nat \<Rightarrow> nat" where
  "days_before_month y m = (\<Sum>k < m. month_days y k)"

lemma year_of_day_eq:
  assumes "year_of_day y d = (y', d')"
  shows "y \<le> y' \<and> d' < year_days y' \<and> (\<Sum>k = y..<y'. year_days k) + d' = d"
  using assms
proof (induction y d rule: year_of_day.induct)
  case (1 y d)
  show ?case
  proof (cases "d < year_days y")
    case True
    with 1(2) show ?thesis by (subst (asm) year_of_day.simps) auto
  next
    case False
    with 1(2) have "year_of_day (Suc y) (d - year_days y) = (y', d')" by (subst (asm) year_of_day.simps) simp
    with 1(1) [OF False] have IH: "Suc y \<le> y'" "d' < year_days y'" "(\<Sum>k = Suc y..<y'. year_days k) + d' = d - year_days y"
      by auto
    moreover have "(\<Sum>k = y..<y'. year_days k) = year_days y + (\<Sum>k = Suc y..<y'. year_days k)"
      using IH(1) by (intro sum.atLeast_Suc_lessThan) simp
    ultimately show ?thesis using False by simp
  qed
qed

lemma month_of_day_eq:
  assumes "month_of_day m ls d = (m', d')" and "d < sum_list ls + l"
  shows "m \<le> m' \<and> m' \<le> m + length ls \<and> sum_list (take (m' - m) ls) + d' = d \<and> d' < (ls @ [l]) ! (m' - m)"
  using assms
proof (induction m ls d rule: month_of_day.induct)
  case (2 m a ls d)
  show ?case
  proof (cases "d < a")
    case False
    with 2 have "Suc m \<le> m'" "m' \<le> Suc m + length ls" "sum_list (take (m' - Suc m) ls) + d' = d - a"
      "d' < (ls @ [l]) ! (m' - Suc m)" by auto
    moreover from this have "m' - m = Suc (m' - Suc m)" by simp
    ultimately show ?thesis using False by simp
  qed (use 2 in auto)
qed auto

lemma year_days_months: "year_days y = sum_list (map (month_days y) [0..<11]) + month_days y 11"
  by (simp add: year_days_def month_days_def upt_rec numeral_eq_Suc)

lemma gmtime_fields:
  fixes t :: nat
  defines "x \<equiv> gmtime t"
  shows "\<exists>y. tm_year x = int y - 1900 \<and> 1970 \<le> y \<and> tm_mon x < 12 \<and>
    1 \<le> tm_mday x \<and> tm_mday x \<le> month_days y (tm_mon x) \<and> tm_hour x < 24 \<and> tm_min x < 60 \<and> tm_sec x < 60 \<and>
    t = 86400 * (days_before_year y + days_before_month y (tm_mon x) + (tm_mday x - 1)) +
        3600 * tm_hour x + 60 * tm_min x + tm_sec x"
proof -
  obtain y d where yd: "year_of_day 1970 (t div 86400) = (y, d)" by fastforce
  obtain m md where mm: "month_of_day 0 (map (month_days y) [0..<11]) d = (m, md)" by fastforce
  have Y: "1970 \<le> y" "d < year_days y" "days_before_year y + d = t div 86400"
    using year_of_day_eq [OF yd] by (auto simp: days_before_year_def)
  have "d < sum_list (map (month_days y) [0..<11]) + month_days y 11"
    using Y(2) unfolding year_days_months .
  from month_of_day_eq [OF mm this] have M: "m \<le> 11" "sum_list (take m (map (month_days y) [0..<11])) + md = d"
    "md < (map (month_days y) [0..<11] @ [month_days y 11]) ! m" by auto
  have sm: "sum_list (take m (map (month_days y) [0..<11])) = days_before_month y m"
    using M(1) by (simp add: take_map days_before_month_def sum_list_sum_nth atLeast0LessThan)
  have md: "md < month_days y m"
    using M(1,3) by (cases "m = 11") (auto simp: nth_append)
  have x: "x = \<lparr>tm_year = int y - 1900, tm_mon = m, tm_mday = Suc md, tm_hour = t mod 86400 div 3600,
      tm_min = t mod 86400 mod 3600 div 60, tm_sec = t mod 86400 mod 60\<rparr>"
    unfolding x_def gmtime_def Let_def yd by (simp add: mm)
  have "t mod 86400 mod 60 = t mod 86400 mod 3600 mod 60" by (simp add: mod_mod_cancel)
  then have "t = 86400 * (t div 86400) + 3600 * (t mod 86400 div 3600) + 60 * (t mod 86400 mod 3600 div 60) + t mod 86400 mod 60"
    using div_mult_mod_eq [of t 86400] div_mult_mod_eq [of "t mod 86400" 3600]
      div_mult_mod_eq [of "t mod 86400 mod 3600" 60] by linarith
  moreover have "t div 86400 = days_before_year y + days_before_month y m + md" using Y(3) M(2) sm by linarith
  ultimately have t: "t = 86400 * (days_before_year y + days_before_month y m + (Suc md - 1)) +
      3600 * (t mod 86400 div 3600) + 60 * (t mod 86400 mod 3600 div 60) + t mod 86400 mod 60" by simp
  have "t mod 86400 div 3600 < 24" "t mod 86400 mod 3600 div 60 < 60"
    by (rule less_mult_imp_div_less, simp)+
  with Y(1) M(1) md show ?thesis
    by (intro exI [of _ y]) (auto simp: x intro: t [simplified])
qed


lemma length_fmt_0d_2:
  assumes "0 \<le> x" and "x < 100"
  shows "length (fmt_0d 2 x) = 2"
proof -
  have "length (show_base 10 (nat x)) \<le> 2"
    using length_show_base_less [of 10 "nat x" 2] assms by simp
  then show ?thesis using assms(1) by (simp add: fmt_0d_def Let_def)
qed

lemma length_fmt_d_2:
  assumes "0 \<le> x" and "x < 100"
  shows "length (fmt_d x) \<le> 2"
  using length_show_base_less [of 10 "nat x" 2] assms by (simp add: fmt_d_def)

lemma month_days_le: "month_days y m \<le> 31"
  by (simp add: month_days_def)

lemma time_text_length: "length (time_text (gmtime t)) \<le> 22"
proof -
  let ?x = "gmtime t"
  obtain y where y: "tm_year ?x = int y - 1900" "1970 \<le> y" and f: "tm_mon ?x < 12" "tm_mday ?x \<le> month_days y (tm_mon ?x)"
    "tm_hour ?x < 24" "tm_min ?x < 60" "tm_sec ?x < 60"
    using gmtime_fields by metis
  have "tm_mday ?x \<le> 31" using f(2) month_days_le le_trans by blast
  moreover have "c_mod (tm_year ?x) 100 = (int y - 1900) mod 100" using y by (simp add: c_mod_nonneg)
  then have "length (fmt_d (c_mod (tm_year ?x) 100)) \<le> 2" by (simp add: length_fmt_d_2)
  ultimately show ?thesis using f by (simp add: time_text_def length_fmt_0d_2)
qed

lemma get_time_Ret: "get_time t = Ret (time_text (gmtime (unat t)))"
  using time_text_length [of "unat t"] by (simp add: get_time_def Let_def)

text \<open>The text for a time, spelled out: the calendar date that lies so many days after 1 January 1970.\<close>

definition calendar_text :: "nat \<Rightarrow> nat \<Rightarrow> nat \<Rightarrow> nat \<Rightarrow> nat \<Rightarrow> nat \<Rightarrow> string" where
  "calendar_text y mon day h m sec =
     fmt_0d 2 (int mon) @ ''/'' @ fmt_0d 2 (int day) @ ''/'' @ fmt_d (int (y mod 100)) @ '' '' @
     fmt_0d 2 (int h) @ '':'' @ fmt_0d 2 (int m) @ '':'' @ fmt_0d 2 (int sec) @ '', GMT''"

lemma get_time_date:
  "\<exists>y mon day h m sec. 1970 \<le> y \<and> 1 \<le> mon \<and> mon \<le> 12 \<and> 1 \<le> day \<and> day \<le> month_days y (mon - 1) \<and>
     h < 24 \<and> m < 60 \<and> sec < 60 \<and>
     unat t = 86400 * (days_before_year y + days_before_month y (mon - 1) + (day - 1)) + 3600 * h + 60 * m + sec \<and>
     get_time t = Ret (calendar_text y mon day h m sec)"
proof -
  define x where "x = gmtime (unat t)"
  obtain y where y: "tm_year x = int y - 1900" "1970 \<le> y" and f: "tm_mon x < 12" "1 \<le> tm_mday x"
    "tm_mday x \<le> month_days y (tm_mon x)" "tm_hour x < 24" "tm_min x < 60" "tm_sec x < 60"
    "unat t = 86400 * (days_before_year y + days_before_month y (tm_mon x) + (tm_mday x - 1)) +
      3600 * tm_hour x + 60 * tm_min x + tm_sec x"
    using gmtime_fields [of "unat t"] unfolding x_def [symmetric] by blast
  have "c_mod (tm_year x) 100 = (int y - 1900) mod 100" using y by (simp add: c_mod_nonneg)
  also have "\<dots> = int y mod 100" using mod_mult_self1 [of "int y" "- 19" 100] by simp
  finally have "c_mod (tm_year x) 100 = int (y mod 100)" by (simp add: zmod_int)
  then have g: "get_time t = Ret (calendar_text y (Suc (tm_mon x)) (tm_mday x) (tm_hour x) (tm_min x) (tm_sec x))"
    by (simp add: get_time_Ret x_def [symmetric] time_text_def calendar_text_def add.commute)
  have mon: "1 \<le> Suc (tm_mon x)" by simp
  show ?thesis
    by (rule exI [of _ y], rule exI [of _ "Suc (tm_mon x)"], rule exI [of _ "tm_mday x"], rule exI [of _ "tm_hour x"],
        rule exI [of _ "tm_min x"], rule exI [of _ "tm_sec x"], unfold diff_Suc_1)
      (intro conjI g mon y(2) f Suc_leI [OF f(1)])
qed

lemma inode_line_Ret: "\<exists>l. inode_line n inode = ([], Ret l)"
  by (simp add: inode_line_def get_time_Ret io_of_def Let_def)

subsection \<open>Directories\<close>

text \<open>
  A block whose entries can be followed: every read succeeds with a whole entry and every
  record length is positive.
\<close>

inductive dir_walk :: "disk \<Rightarrow> int \<Rightarrow> int \<Rightarrow> int \<Rightarrow> (int \<times> ext2_dir_entry) list \<Rightarrow> bool"
  for d :: disk and bs :: int and idx :: int where
  stop: "bs \<le> off \<Longrightarrow> dir_walk d bs idx off []"
| entry: "off < bs \<Longrightarrow> pread d sizeof_dir_entry (to_int32 (to_int32 (idx * bs) + off)) = Some bytes \<Longrightarrow>
    length bytes = sizeof_dir_entry \<Longrightarrow> e = dir_entry_of bytes \<Longrightarrow> 0 < de_rec_len e \<Longrightarrow>
    dir_walk d bs idx (off + uint (de_rec_len e)) es \<Longrightarrow> dir_walk d bs idx off ((off, e) # es)"

definition dir_lines :: "int \<Rightarrow> (int \<times> ext2_dir_entry) list \<Rightarrow> string list" where
  "dir_lines ino es = map (\<lambda>(off, e). dir_line ino off e) (filter (\<lambda>(off, e). de_inode e \<noteq> 0) es)"

lemma read_whole_entry:
  assumes "pread d n off = Some bytes" and "length bytes = n" and "length buf = n"
  shows "read_into d buf n off = Ret bytes"
  using assms by (simp add: read_into_def fill_def)

lemma dir_scan_walk:
  assumes "dir_walk d bs idx off es" and "length buf = sizeof_dir_entry"
  shows "\<exists>buf' off'. dir_scan d bs ino idx buf off = Some (dir_lines ino es, Ret (buf', off')) \<and>
    bs \<le> off' \<and> length buf' = sizeof_dir_entry"
  using assms
proof (induction arbitrary: buf rule: dir_walk.induct)
  case (stop off)
  then show ?case by (simp add: dir_scan.simps dir_lines_def)
next
  case (entry off bytes e es)
  from entry.IH [OF entry.hyps(3)] obtain buf' off' where
    r: "dir_scan d bs ino idx bytes (off + uint (de_rec_len e)) = Some (dir_lines ino es, Ret (buf', off'))"
      "bs \<le> off'" "length buf' = sizeof_dir_entry" by blast
  have rd: "read_into d buf sizeof_dir_entry (to_int32 (to_int32 (idx * bs) + off)) = Ret bytes"
    using entry by (intro read_whole_entry)
  have "dir_scan d bs ino idx buf off = Some (dir_lines ino ((off, e) # es), Ret (buf', off'))"
    using entry.hyps(1,4) rd r(1) by (subst dir_scan.simps) (simp add: Let_def dir_lines_def)
  with r(2,3) show ?case by blast
qed

text \<open>Blocks after the first one are not looked at: the offset is already past the block size.\<close>

lemma dir_blocks_past:
  assumes "bs \<le> off"
  shows "dir_blocks d bs ino blks buf off = Some ([], Ret ())"
proof (induction blks arbitrary: buf)
  case (Cons b blks)
  have "dir_scan d bs ino (sint b) buf off = Some ([], Ret (buf, off))" using assms by (simp add: dir_scan.simps)
  with Cons show ?case by (simp add: oiobind_def)
qed simp

lemma dir_blocks_first:
  assumes "b \<noteq> 0" and "dir_walk d bs (sint b) 0 es" and "length buf = sizeof_dir_entry"
  shows "dir_blocks d bs ino (b # blks) buf 0 = Some (dir_lines ino es, Ret ())"
proof -
  obtain buf' off' where "dir_scan d bs ino (sint b) buf 0 = Some (dir_lines ino es, Ret (buf', off'))" "bs \<le> off'"
    using dir_scan_walk [OF assms(2,3)] by blast
  with assms(1) show ?thesis by (simp add: oiobind_def dir_blocks_past)
qed

text \<open>An entry with record length 0 is read for ever.\<close>

lemma dir_scan_stuck:
  assumes "off < bs" and "pread d sizeof_dir_entry (to_int32 (to_int32 (idx * bs) + off)) = Some bytes"
    and "length bytes = sizeof_dir_entry" and "de_rec_len (dir_entry_of bytes) = 0" and "length buf = sizeof_dir_entry"
  shows "dir_scan d bs ino idx buf off = None"
proof -
  have rd: "read_into d bf sizeof_dir_entry (to_int32 (to_int32 (idx * bs) + off)) = Ret bytes"
    if "length bf = sizeof_dir_entry" for bf using assms(2,3) that by (intro read_whole_entry)
  have stuck: "d' = d \<longrightarrow> bs' = bs \<longrightarrow> idx' = idx \<longrightarrow> x = off \<longrightarrow> length bf = sizeof_dir_entry \<longrightarrow> False"
    if "dir_scan d' bs' ino idx' bf x = Some r" for d' bs' ino idx' bf x r
  proof (rule dir_scan.raw_induct [OF _ that], goal_cases)
    case (1 f d' bs' ino' idx' bf x r)
    have "f d bs ino' idx bytes off \<noteq> Some r'" for r'
      using 1(1) [of d bs ino' idx bytes off r'] assms(3) by blast
    then have none: "f d bs ino' idx bytes off = None" by (cases "f d bs ino' idx bytes off") auto
    show ?case
    proof (intro impI)
      assume "d' = d" "bs' = bs" "idx' = idx" "x = off" "length bf = sizeof_dir_entry"
      with 1(2) assms(1,4) rd [of bf] none show False by (simp add: Let_def)
    qed
  qed
  then show ?thesis using assms(5) by (cases "dir_scan d bs ino idx buf off") auto
qed


subsection \<open>Indirect blocks\<close>

text \<open>The loop over a block of level 1: pointer \<open>k\<close> is the block of the file at \<open>offset + k\<close>.\<close>

lemma ind_loop_1:
  "ind_loop d bs junk blk ino off 1 ps =
     (map (\<lambda>(k, p). ind_line ino 1 (off + int k) blk p) (filter (\<lambda>(k, p). p \<noteq> 0) (enumerate 0 ps)), Ret ())"
proof (induction ps arbitrary: off)
  case (Cons p ps)
  have "enumerate (Suc 0) ps = map (\<lambda>(k, p). (Suc k, p)) (enumerate 0 ps)"
    by (simp add: enumerate_eq_zip map_Suc_upt [symmetric] zip_map1 del: upt_Suc)
  then have "map (\<lambda>(k, p). ind_line ino 1 (off + int k) blk p) (filter (\<lambda>(k, p). p \<noteq> 0) (enumerate (Suc 0) ps)) =
      map (\<lambda>(k, p). ind_line ino 1 (off + 1 + int k) blk p) (filter (\<lambda>(k, p). p \<noteq> 0) (enumerate 0 ps))"
    by (simp add: filter_map comp_def case_prod_unfold algebra_simps)
  with Cons show ?case by (simp add: next_offset_def tell_def)
qed simp

text \<open>What the array holds after the read: the first pointer of the block, then stale data.\<close>

definition ind_contents :: "disk \<Rightarrow> int \<Rightarrow> (int \<Rightarrow> nat \<Rightarrow> u8) \<Rightarrow> int \<Rightarrow> u32 list" where
  "ind_contents d bs junk blk =
     u32s_at (fill (map (junk blk) [0..<4 * nat (c_div bs 4)])
       (take 4 (drop (nat (to_int32 (blk * bs))) (d_bytes d)))) 0 (nat (c_div bs 4))"

lemma print_ind_blks_1:
  assumes "pread d 4 (to_int32 (blk * bs)) \<noteq> None"
  shows "print_ind_blks d bs junk blk ino off 1 =
    (map (\<lambda>(k, p). ind_line ino 1 (off + int k) blk p)
       (filter (\<lambda>(k, p). p \<noteq> 0) (enumerate 0 (ind_contents d bs junk blk))), Ret ())"
  using assms ind_loop_1 [of d bs junk blk ino off]
  by (simp add: print_ind_blks.simps read_into_def pread_def io_of_def Let_def ind_contents_def split: if_splits)

lemma le_nat_zeros: "le_nat (replicate n 0) = 0"
  by (induction n) auto

lemma u32_at_zeros: "u32_at (replicate n 0) i = 0"
  by (simp add: u32_at_def le_nat_zeros min_def)

lemma print_ind_blks_first:
  assumes "pread d 4 (to_int32 (blk * bs)) = Some bytes" and "length bytes = 4" and "4 \<le> bs"
  shows "print_ind_blks d bs (\<lambda>_ _. 0) blk ino off 1 =
    (if u32_at bytes 0 = 0 then [] else [ind_line ino 1 off blk (u32_at bytes 0)], Ret ())"
proof -
  obtain m where m: "nat (c_div bs 4) = Suc m"
    using assms(3) by (cases "nat (c_div bs 4)") (auto simp: c_div_nonneg)
  have by': "take 4 (drop (nat (to_int32 (blk * bs))) (d_bytes d)) = bytes"
    using assms(1) by (simp add: pread_def split: if_splits)
  have "ind_contents d bs (\<lambda>_ _. 0) blk = u32s_at (bytes @ replicate (4 * m) 0) 0 (Suc m)"
    using assms(2) unfolding ind_contents_def m by' by (simp add: fill_def map_replicate_const)
  also have "\<dots> = u32_at bytes 0 # replicate m 0"
    using assms(2) unfolding u32s_at_def map_upt_Suc
    by (simp add: at_skip u32_at_zeros map_replicate_const) (simp add: u32_at_def)
  finally have c: "ind_contents d bs (\<lambda>_ _. 0) blk = u32_at bytes 0 # replicate m 0" .
  have "filter (\<lambda>(k, p). p \<noteq> 0) (enumerate n (replicate m (0 :: u32))) = []" for n
    by (induction m arbitrary: n) auto
  moreover have "pread d 4 (to_int32 (blk * bs)) \<noteq> None" using assms(1) by simp
  ultimately show ?thesis by (subst print_ind_blks_1) (simp_all add: c)
qed

end
