(* ===== verification/Lab4b.thy ===== *)
theory Lab4b
  imports Getopt Complex_Main
begin

text \<open>
  \<open>CS111/project4/Part_2/lab4b.c\<close>: temperature reports under the control of commands
  read from standard input and of a button. The sensor thread, the main loop and the
  interrupt handler are events of one state; the sensor itself (the mraa library) only
  supplies the readings. The command reader is shown to execute exactly the lines of
  the input, however the reads cut them.
\<close>

subsection \<open>Globals and options\<close>

record b_ctl =
  period :: u32
  scale :: char
  blog_flag :: bool
  report_flag :: bool
  b_log :: "string list"
  b_out :: "string list"

definition b_defaults :: b_ctl where
  "b_defaults = \<lparr>period = 1, scale = CHR ''F'', blog_flag = False, report_flag = True, b_log = [], b_out = []\<rparr>"

definition b_long_options :: "longopt list" where
  "b_long_options =
     [\<lparr>lo_name = ''period'', lo_arg = required_argument, lo_flag = None, lo_val = CHR ''p''\<rparr>,
      \<lparr>lo_name = ''scale'', lo_arg = required_argument, lo_flag = None, lo_val = CHR ''s''\<rparr>,
      \<lparr>lo_name = ''log'', lo_arg = required_argument, lo_flag = None, lo_val = CHR ''l''\<rparr>]"

definition b_short_options :: "(char \<times> bool) list" where
  "b_short_options = [(CHR ''p'', True), (CHR ''s'', True), (CHR ''l'', True)]"

text \<open>\<open>can_open\<close> says whether \<open>open\<close> succeeds for the path of the log.\<close>

definition b_opt :: "(string \<Rightarrow> bool) \<Rightarrow> opt_event \<Rightarrow> b_ctl \<Rightarrow> b_ctl outcome" where
  "b_opt can_open e c =
     (if oe_ret e = CHR ''p'' then
        (case oe_arg e of None \<Rightarrow> SegFault
         | Some a \<Rightarrow> (let p = of_int (strtol0 a) in if p < 1 then Exit 1 else Ret (c\<lparr>period := p\<rparr>)))
      else if oe_ret e = CHR ''s'' then
        (case oe_arg e of None \<Rightarrow> SegFault
         | Some a \<Rightarrow> (let s = (case a of [] \<Rightarrow> CHR 0x00 | x # _ \<Rightarrow> x) in
                      if s \<noteq> CHR ''F'' \<and> s \<noteq> CHR ''C'' then Exit 1 else Ret (c\<lparr>scale := s\<rparr>)))
      else if oe_ret e = CHR ''l'' then
        (case oe_arg e of None \<Rightarrow> SegFault
         | Some a \<Rightarrow> if can_open a then Ret (c\<lparr>blog_flag := True\<rparr>) else Exit 1)
      else Exit 1)"

fun b_opts :: "(string \<Rightarrow> bool) \<Rightarrow> opt_event list \<Rightarrow> b_ctl \<Rightarrow> b_ctl outcome" where
  "b_opts can_open [] c = Ret c"
| "b_opts can_open (e # es) c = obind (b_opt can_open e c) (b_opts can_open es)"

definition b_get_opts :: "(string \<Rightarrow> bool) \<Rightarrow> string list \<Rightarrow> b_ctl outcome" where
  "b_get_opts can_open argv = b_opts can_open (getopt_long_all b_short_options b_long_options argv) b_defaults"

subsection \<open>Output\<close>

record clock =
  hour :: nat
  minute :: nat
  sec :: nat

definition stamp :: "clock \<Rightarrow> string" where
  "stamp t = fmt_0d 2 (int (hour t)) @ '':'' @ fmt_0d 2 (int (minute t)) @ '':'' @ fmt_0d 2 (int (sec t))"

definition log_line :: "string \<Rightarrow> b_ctl \<Rightarrow> b_ctl" where
  "log_line l c = (if blog_flag c then c\<lparr>b_log := b_log c @ [l]\<rparr> else c)"

definition print_line :: "string \<Rightarrow> b_ctl \<Rightarrow> b_ctl" where
  "print_line l c = c\<lparr>b_out := b_out c @ [l]\<rparr>"

text \<open>\<open>shutdown\<close>, registered with \<open>atexit\<close>.\<close>

definition shutdown :: "clock \<Rightarrow> b_ctl \<Rightarrow> b_ctl" where
  "shutdown t c = (let l = stamp t @ '' SHUTDOWN'' in log_line l (print_line l c))"

subsection \<open>Commands\<close>

text \<open>
  \<open>exec_cmd\<close> on the buffer \<open>cmd_str\<close>. The \<open>PERIOD\<close> branch copies eight bytes after the
  equals sign, whatever follows the end of the string. With eight or more characters there
  the copy \<open>temp_pd[8]\<close> has no terminating NUL and \<open>strtol\<close> reads on in the stack: the
  argument \<open>behind\<close> is what it finds there, up to the next NUL.
\<close>

definition c_string :: "char list \<Rightarrow> string" where
  "c_string buf = takeWhile (\<lambda>c. c \<noteq> CHR 0x00) buf"

definition exec_cmd :: "string \<Rightarrow> char list \<Rightarrow> b_ctl \<Rightarrow> b_ctl \<times> unit outcome" where
  "exec_cmd behind cmd_str c0 =
     (let s = c_string cmd_str; c = log_line s c0 in
      if strcmp s ''OFF'' = 0 then (c, Exit 0)
      else if strcmp s ''START'' = 0 then (c\<lparr>report_flag := True\<rparr>, Ret ())
      else if strcmp s ''STOP'' = 0 then (c\<lparr>report_flag := False\<rparr>, Ret ())
      else if strncmp s ''LOG'' 3 = 0 then (c, Ret ())
      else if strncmp s ''SCALE='' 6 = 0 then
        (let x = cmd_str ! 6 in (c\<lparr>scale := x\<rparr>, if x \<noteq> CHR ''F'' \<and> x \<noteq> CHR ''C'' then Exit 1 else Ret ()))
      else if strncmp s ''PERIOD='' 7 = 0 then
        (let temp_pd = map (\<lambda>i. cmd_str ! (7 + i)) [0..<8]; p = of_int (strtol0 (c_string (temp_pd @ behind))) in
         (c\<lparr>period := p\<rparr>, if p < 1 then Exit 1 else Ret ()))
      else (c, Ret ()))"

subsection \<open>The sensor\<close>

text \<open>
  The temperature of reading \<open>a\<close>, over the reals instead of \<open>float\<close>, for the readings from
  1 to 1022 of the converter (at 0 and 1023 the source divides by zero or takes the
  logarithm of zero, which \<open>float\<close> answers with an infinity).
\<close>

definition B_value :: real where "B_value = 4275"
definition R0 :: real where "R0 = 100000"

definition celsius :: "int \<Rightarrow> real" where
  "celsius a = (let R = (1023 / real_of_int a - 1) * R0 in 1 / (ln (R / R0) / B_value + 1 / 298.15) - 273.15)"

definition temperature :: "char \<Rightarrow> int \<Rightarrow> real" where
  "temperature sc a = (if sc = CHR ''F'' then 1.8 * celsius a + 32 else celsius a)"

subsection \<open>The running program\<close>

text \<open>
  \<open>b_pending\<close> is the part of \<open>read_buf\<close> not yet looked at, \<open>b_buf\<close> all that was read into it
  and \<open>b_echo\<close> what \<open>write\<close> copies to standard output after a chunk; \<open>b_temp\<close> is the temperature the
  sensor thread has computed and not yet reported; \<open>b_end\<close> is the exit status.
\<close>

record b_sys =
  b_ctl :: b_ctl
  run_flag :: bool
  cmd_str :: "char list"
  cmd_str_idx :: nat
  b_pending :: string
  b_buf :: string
  b_echo :: string
  b_temp :: "real option"
  b_end :: "int outcome option"

definition BUF_SIZE :: nat where "BUF_SIZE = 256"
definition CMD_SIZE :: nat where "CMD_SIZE = 32"

definition b_sys_init :: "char list \<Rightarrow> b_ctl \<Rightarrow> b_sys" where
  "b_sys_init junk c =
     \<lparr>b_ctl = c, run_flag = True, cmd_str = take CMD_SIZE junk, cmd_str_idx = 0, b_pending = [],
      b_buf = [], b_echo = [], b_temp = None, b_end = None\<rparr>"

definition b_exit :: "clock \<Rightarrow> int \<Rightarrow> b_sys \<Rightarrow> b_sys" where
  "b_exit t code s = s\<lparr>b_ctl := shutdown t (b_ctl s), b_end := Some (Ret code)\<rparr>"

text \<open>
  One character of \<open>read_buf\<close>; a store outside the 32 bytes of \<open>cmd_str\<close> is undefined and
  ends the model's run.
\<close>

definition b_char :: "clock \<Rightarrow> string \<Rightarrow> char \<Rightarrow> b_sys \<Rightarrow> b_sys" where
  "b_char t behind ch s =
     (if \<not> cmd_str_idx s < length (cmd_str s) then s\<lparr>b_end := Some SegFault\<rparr>
      else if ch = CHR 0x0A then
        (let buf = (cmd_str s)[cmd_str_idx s := CHR 0x00] in
         case exec_cmd behind buf (b_ctl s) of
           (c, Ret _) \<Rightarrow> s\<lparr>b_ctl := c, cmd_str := buf, cmd_str_idx := 0\<rparr>
         | (c, Exit code) \<Rightarrow> b_exit t code (s\<lparr>b_ctl := c, cmd_str := buf\<rparr>)
         | (c, _) \<Rightarrow> s\<lparr>b_end := Some SegFault\<rparr>)
      else s\<lparr>cmd_str := (cmd_str s)[cmd_str_idx s := ch], cmd_str_idx := Suc (cmd_str_idx s)\<rparr>)"

text \<open>The \<open>write\<close> that follows the loop over a chunk.\<close>

definition b_write :: "b_sys \<Rightarrow> b_sys" where
  "b_write s = (if b_pending s = [] \<and> b_end s = None then s\<lparr>b_echo := b_echo s @ b_buf s\<rparr> else s)"

datatype b_event =
    Read string | ReadAgain | ReadError clock | NextChar clock string | LoopExit clock
  | Button | Sample int clock | Report clock

text \<open>
  The text of the temperature, \<open>%4.1f\<close>, is the argument \<open>show_temp\<close>. \<open>NextChar\<close> carries what
  lies on the stack when the character ends a command.
\<close>

definition b_step :: "(real \<Rightarrow> string) \<Rightarrow> b_event \<Rightarrow> b_sys \<Rightarrow> b_sys option" where
  "b_step show_temp ev s =
     (if b_end s \<noteq> None then None
      else case ev of
        Read chunk \<Rightarrow>
          if run_flag s \<and> b_pending s = [] \<and> length chunk \<le> BUF_SIZE then Some (s\<lparr>b_pending := chunk, b_buf := chunk\<rparr>) else None
      | ReadAgain \<Rightarrow> if run_flag s \<and> b_pending s = [] then Some s else None
      | ReadError t \<Rightarrow> if run_flag s \<and> b_pending s = [] then Some (b_exit t 1 s) else None
      | NextChar t behind \<Rightarrow>
          (case b_pending s of [] \<Rightarrow> None | ch # cs \<Rightarrow> Some (b_write (b_char t behind ch (s\<lparr>b_pending := cs\<rparr>))))
      | LoopExit t \<Rightarrow> if \<not> run_flag s \<and> b_pending s = [] then Some (b_exit t 0 s) else None
      | Button \<Rightarrow> Some (s\<lparr>run_flag := False\<rparr>)
      | Sample a t \<Rightarrow>
          if run_flag s \<and> b_temp s = None
          then Some (if a = - 1 then b_exit t 1 s else s\<lparr>b_temp := Some (temperature (scale (b_ctl s)) a)\<rparr>)
          else None
      | Report t \<Rightarrow>
          (case b_temp s of
             None \<Rightarrow> None
           | Some temp \<Rightarrow>
               (let l = stamp t @ '' '' @ show_temp temp; c = b_ctl s in
                Some (s\<lparr>b_temp := None,
                        b_ctl := (if report_flag c then log_line l (print_line l c) else c)\<rparr>))))"

fun b_run :: "(real \<Rightarrow> string) \<Rightarrow> b_event list \<Rightarrow> b_sys \<Rightarrow> b_sys option" where
  "b_run show_temp [] s = Some s"
| "b_run show_temp (ev # evs) s =
     (case b_step show_temp ev s of None \<Rightarrow> None | Some s' \<Rightarrow> b_run show_temp evs s')"

text \<open>
  \<open>main\<close> up to the loop: the exit status when a set-up call fails, with the shutdown
  handler run once it is registered.
\<close>

record b_env =
  e_atexit :: bool
  e_aio :: bool
  e_gpio :: bool
  e_fcntl :: bool
  e_thread :: bool

definition b_setup :: "(string \<Rightarrow> bool) \<Rightarrow> b_env \<Rightarrow> clock \<Rightarrow> char list \<Rightarrow> string list \<Rightarrow> b_sys outcome" where
  "b_setup can_open env t junk argv =
     obind (b_get_opts can_open argv) (\<lambda>c.
       if \<not> e_atexit env then Exit 1
       else Ret (if e_aio env \<and> e_gpio env \<and> e_fcntl env \<and> e_thread env then b_sys_init junk c
                 else b_exit t 1 (b_sys_init junk c)))"


text \<open>The \<open>for\<close> loop over a whole chunk.\<close>

fun b_chunk :: "clock \<Rightarrow> string \<Rightarrow> string \<Rightarrow> b_sys \<Rightarrow> b_sys" where
  "b_chunk t behind [] s = s"
| "b_chunk t behind (ch # cs) s = (if b_end s \<noteq> None then s else b_chunk t behind cs (b_char t behind ch s))"

subsection \<open>Commands as lines\<close>

text \<open>What a command line does, without the buffer.\<close>

definition exec_line :: "string \<Rightarrow> b_ctl \<Rightarrow> b_ctl \<times> unit outcome" where
  "exec_line l c0 =
     (let c = log_line l c0 in
      if l = ''OFF'' then (c, Exit 0)
      else if l = ''START'' then (c\<lparr>report_flag := True\<rparr>, Ret ())
      else if l = ''STOP'' then (c\<lparr>report_flag := False\<rparr>, Ret ())
      else if take 3 l = ''LOG'' then (c, Ret ())
      else if take 6 l = ''SCALE='' then
        (let x = (case drop 6 l of [] \<Rightarrow> CHR 0x00 | x # _ \<Rightarrow> x) in
         (c\<lparr>scale := x\<rparr>, if x \<noteq> CHR ''F'' \<and> x \<noteq> CHR ''C'' then Exit 1 else Ret ()))
      else if take 7 l = ''PERIOD='' then
        (let p = of_int (strtol0 (drop 7 l)) in
         (c\<lparr>period := p\<rparr>, if p < 1 then Exit 1 else Ret ()))
      else (c, Ret ()))"

fun exec_lines :: "string list \<Rightarrow> b_ctl \<Rightarrow> b_ctl \<times> unit outcome" where
  "exec_lines [] c = (c, Ret ())"
| "exec_lines (l # ls) c =
     (case exec_line l c of (c', Ret _) \<Rightarrow> exec_lines ls c' | (c', r) \<Rightarrow> (c', r))"

text \<open>The lines that fit the buffer, with a period of less than 8 characters.\<close>

definition command_line :: "string \<Rightarrow> bool" where
  "command_line l \<longleftrightarrow> cstr l \<and> CHR 0x0A \<notin> set l \<and> length l < CMD_SIZE \<and>
     (take 7 l = ''PERIOD='' \<longrightarrow> length (drop 7 l) < 8)"

lemma c_string_append: "cstr l \<Longrightarrow> c_string (l @ CHR 0x00 # rest) = l"
  by (auto simp: c_string_def cstr_def takeWhile_append)

lemma strncmp_0_iff: "cstr s \<Longrightarrow> cstr k \<Longrightarrow> n = length k \<Longrightarrow> strncmp s k n = 0 \<longleftrightarrow> take n s = k"
  by (simp add: strncmp_def strcmp_eq_0_iff cstr_take)

lemma strcmp_0_iff: "cstr s \<Longrightarrow> cstr k \<Longrightarrow> strcmp s k = 0 \<longleftrightarrow> s = k"
  by (rule strcmp_eq_0_iff)

lemma prefix_split: "take n l = k \<Longrightarrow> length k = n \<Longrightarrow> l = k @ drop n l"
  by (metis append_take_drop_id)

lemma map_nth_take: "n \<le> length b \<Longrightarrow> map (\<lambda>i. b ! i) [0..<n] = take n b"
  by (simp add: list_eq_iff_nth_eq)

lemma temp_pd_eq:
  assumes "take 7 l = ''PERIOD=''" and "cstr l" and "length (l @ CHR 0x00 # rest) = CMD_SIZE"
    and "length (drop 7 l) < 8"
  shows "c_string (map (\<lambda>i. (l @ CHR 0x00 # rest) ! (7 + i)) [0..<8] @ behind) = drop 7 l"
proof -
  define m where "m = drop 7 l"
  have l: "l = ''PERIOD='' @ m" unfolding m_def using assms(1) by (intro prefix_split) auto
  define b where "b = m @ CHR 0x00 # rest"
  have "8 \<le> length b" using assms(3) by (simp add: l b_def CMD_SIZE_def)
  then have "map (\<lambda>i. b ! i) [0..<8] = take 8 b" by (rule map_nth_take)
  moreover have "(\<lambda>i. (l @ CHR 0x00 # rest) ! (7 + i)) = (\<lambda>i. b ! i)"
    unfolding l b_def by (simp add: fun_eq_iff)
  ultimately have *: "map (\<lambda>i. (l @ CHR 0x00 # rest) ! (7 + i)) [0..<8] = take 8 b" by (simp only:)
  have "CHR 0x00 \<notin> set m" using assms(2) by (simp add: l cstr_def)
  moreover have "length m < 8" using assms(4) by (simp add: m_def)
  ultimately have "c_string (take 8 b @ behind) = m"
    by (auto simp: b_def c_string_def takeWhile_append take_Cons')
  with * show ?thesis by (simp add: l)
qed

lemma exec_cmd_line:
  assumes "cstr l" and "length (l @ CHR 0x00 # rest) = CMD_SIZE"
    and "take 7 l = ''PERIOD='' \<longrightarrow> length (drop 7 l) < 8"
  shows "exec_cmd behind (l @ CHR 0x00 # rest) c = exec_line l c"
proof -
  have sc: "(l @ CHR 0x00 # rest) ! 6 = (case drop 6 l of [] \<Rightarrow> CHR 0x00 | x # _ \<Rightarrow> x)" if "take 6 l = ''SCALE=''"
  proof -
    have "l = ''SCALE='' @ drop 6 l" using that by (intro prefix_split) auto
    then obtain m where "l = ''SCALE='' @ m" by blast
    then show ?thesis by (cases m) (auto simp: nth_append)
  qed
  show ?thesis
    using assms sc temp_pd_eq [OF _ assms(1,2)]
    by (simp add: exec_cmd_def exec_line_def c_string_append Let_def strcmp_0_iff strncmp_0_iff del: upt_rec_numeral)
qed

text \<open>Reading the characters of a line that fits puts them into the buffer.\<close>

lemma b_chunk_append: "b_chunk t behind (xs @ ys) s = b_chunk t behind ys (b_chunk t behind xs s)"
proof (induction xs arbitrary: s)
  case (Cons x xs)
  then show ?case by (cases "b_end s = None"; cases ys) auto
qed simp

lemma b_chunk_fill:
  assumes "b_end s = None" and "CHR 0x0A \<notin> set l" and "cmd_str_idx s + length l \<le> length (cmd_str s)"
  shows "b_chunk t behind l s = s\<lparr>cmd_str := take (cmd_str_idx s) (cmd_str s) @ l @ drop (cmd_str_idx s + length l) (cmd_str s),
    cmd_str_idx := cmd_str_idx s + length l\<rparr>"
  using assms
proof (induction l arbitrary: s)
  case (Cons ch l)
  let ?s = "s\<lparr>cmd_str := (cmd_str s)[cmd_str_idx s := ch], cmd_str_idx := Suc (cmd_str_idx s)\<rparr>"
  have i: "cmd_str_idx s < length (cmd_str s)" using Cons.prems by simp
  then have "b_chunk t behind (ch # l) s = b_chunk t behind l ?s" using Cons.prems by (auto simp: b_char_def)
  also have "\<dots> = ?s\<lparr>cmd_str := take (Suc (cmd_str_idx s)) ((cmd_str s)[cmd_str_idx s := ch]) @ l @
      drop (Suc (cmd_str_idx s) + length l) ((cmd_str s)[cmd_str_idx s := ch]), cmd_str_idx := Suc (cmd_str_idx s) + length l\<rparr>"
    using Cons.prems by (subst Cons.IH) auto
  also have "take (Suc (cmd_str_idx s)) ((cmd_str s)[cmd_str_idx s := ch]) = take (cmd_str_idx s) (cmd_str s) @ [ch]"
    using i by (simp add: take_Suc_conv_app_nth)
  finally show ?case using i by simp
qed simp

lemma b_chunk_line:
  assumes "b_end s = None" and "command_line l" and "cmd_str_idx s = 0" and "length (cmd_str s) = CMD_SIZE"
  shows "\<exists>buf. length buf = CMD_SIZE \<and> b_chunk t behind (l @ [CHR 0x0A]) s =
    (case exec_line l (b_ctl s) of
       (c, Ret _) \<Rightarrow> s\<lparr>b_ctl := c, cmd_str := buf, cmd_str_idx := 0\<rparr>
     | (c, Exit code) \<Rightarrow> b_exit t code (s\<lparr>cmd_str_idx := length l, b_ctl := c, cmd_str := buf\<rparr>)
     | (c, _) \<Rightarrow> b_chunk t behind (l @ [CHR 0x0A]) s)"
proof -
  let ?rest = "drop (Suc (length l)) (cmd_str s)"
  let ?buf = "l @ CHR 0x00 # ?rest"
  let ?s = "s\<lparr>cmd_str := l @ drop (length l) (cmd_str s), cmd_str_idx := length l\<rparr>"
  have l: "cstr l" "CHR 0x0A \<notin> set l" "length l < CMD_SIZE"
    "take 7 l = ''PERIOD='' \<longrightarrow> length (drop 7 l) < 8" using assms(2) by (auto simp: command_line_def)
  have lb: "length ?buf = CMD_SIZE" using assms(4) l(3) by simp
  have "b_chunk t behind l s = ?s" using assms l by (subst b_chunk_fill) auto
  then have "b_chunk t behind (l @ [CHR 0x0A]) s = b_char t behind (CHR 0x0A) ?s"
    using assms(1) by (simp add: b_chunk_append)
  moreover have "(l @ drop (length l) (cmd_str s))[length l := CHR 0x00] = ?buf"
    using assms(4) l(3) by (simp add: list_update_append Cons_nth_drop_Suc [symmetric])
  ultimately have "b_chunk t behind (l @ [CHR 0x0A]) s =
    (case exec_line l (b_ctl s) of
       (c, Ret _) \<Rightarrow> s\<lparr>b_ctl := c, cmd_str := ?buf, cmd_str_idx := 0\<rparr>
     | (c, Exit code) \<Rightarrow> b_exit t code (s\<lparr>cmd_str_idx := length l, b_ctl := c, cmd_str := ?buf\<rparr>)
     | (c, _) \<Rightarrow> ?s\<lparr>b_end := Some SegFault\<rparr>)"
    using assms(4) l(3) exec_cmd_line [OF l(1) lb l(4)]
    by (simp add: b_char_def Let_def split: prod.splits outcome.splits)
  then show ?thesis using lb by (intro exI [of _ ?buf]) (auto split: prod.splits outcome.splits)
qed


lemma exec_line_not_fault: "exec_line l c \<noteq> (c', SegFault)" "exec_line l c \<noteq> (c', DivFault)" "exec_line l c \<noteq> (c', Abort)"
  "exec_line l c \<noteq> (c', Killed n)" "exec_line l c \<noteq> (c', Hang)"
  by (auto simp: exec_line_def Let_def)

lemma b_exit_simps [simp]: "b_end (b_exit t code s) = Some (Ret code)" "b_ctl (b_exit t code s) = shutdown t (b_ctl s)"
  by (simp_all add: b_exit_def)

lemma b_chunk_ended: "b_end s \<noteq> None \<Longrightarrow> b_chunk t behind cs s = s"
  by (cases cs) auto

definition unlines :: "string list \<Rightarrow> string" where
  "unlines ls = concat (map (\<lambda>l. l @ [CHR 0x0A]) ls)"

lemma b_chunk_lines:
  assumes "b_end s = None" and "\<forall>l \<in> set ls. command_line l" and "cmd_str_idx s = 0" and "length (cmd_str s) = CMD_SIZE"
  shows "let s' = b_chunk t behind (unlines ls) s in
    case exec_lines ls (b_ctl s) of
      (c, Ret _) \<Rightarrow> b_ctl s' = c \<and> b_end s' = None \<and> cmd_str_idx s' = 0 \<and> length (cmd_str s') = CMD_SIZE
    | (c, Exit code) \<Rightarrow> b_ctl s' = shutdown t c \<and> b_end s' = Some (Ret code)
    | _ \<Rightarrow> False"
  using assms
proof (induction ls arbitrary: s)
  case Nil
  then show ?case by (simp add: unlines_def)
next
  case (Cons l ls)
  obtain c r where e: "exec_line l (b_ctl s) = (c, r)" by fastforce
  obtain buf where buf: "length buf = CMD_SIZE" and st: "b_chunk t behind (l @ [CHR 0x0A]) s =
    (case exec_line l (b_ctl s) of
       (c, Ret _) \<Rightarrow> s\<lparr>b_ctl := c, cmd_str := buf, cmd_str_idx := 0\<rparr>
     | (c, Exit code) \<Rightarrow> b_exit t code (s\<lparr>cmd_str_idx := length l, b_ctl := c, cmd_str := buf\<rparr>)
     | (c, _) \<Rightarrow> b_chunk t behind (l @ [CHR 0x0A]) s)"
    using b_chunk_line [OF Cons.prems(1) _ Cons.prems(3,4), of l t behind] Cons.prems(2) by auto
  have split: "b_chunk t behind (unlines (l # ls)) s = b_chunk t behind (unlines ls) (b_chunk t behind (l @ [CHR 0x0A]) s)"
    unfolding unlines_def list.map concat.simps by (rule b_chunk_append)
  show ?case
  proof (cases r)
    case (Ret u)
    with st e have "b_chunk t behind (l @ [CHR 0x0A]) s = s\<lparr>b_ctl := c, cmd_str := buf, cmd_str_idx := 0\<rparr>" by simp
    then show ?thesis
      using Cons.IH [of "s\<lparr>b_ctl := c, cmd_str := buf, cmd_str_idx := 0\<rparr>"] Cons.prems buf e Ret unfolding split by simp
  next
    case (Exit code)
    with st e have "b_chunk t behind (l @ [CHR 0x0A]) s = b_exit t code (s\<lparr>cmd_str_idx := length l, b_ctl := c, cmd_str := buf\<rparr>)"
      by simp
    then show ?thesis using e Exit unfolding split by (simp add: b_chunk_ended)
  qed (use e exec_line_not_fault in auto)
qed

text \<open>However the reads cut the text.\<close>

lemma b_chunk_chunks: "fold (b_chunk t behind) chunks s = b_chunk t behind (concat chunks) s"
  by (induction chunks arbitrary: s) (auto simp: b_chunk_append)

subsection \<open>Invariants\<close>

definition ctl_ok :: "b_ctl \<Rightarrow> bool" where
  "ctl_ok c \<longleftrightarrow> (scale c = CHR ''F'' \<or> scale c = CHR ''C'') \<and> period c \<noteq> 0"

lemma log_line_simps [simp]:
  "scale (log_line l c) = scale c" "period (log_line l c) = period c" "report_flag (log_line l c) = report_flag c"
  "blog_flag (log_line l c) = blog_flag c" "b_out (log_line l c) = b_out c"
  by (simp_all add: log_line_def)

lemma print_line_simps [simp]:
  "scale (print_line l c) = scale c" "period (print_line l c) = period c" "report_flag (print_line l c) = report_flag c"
  "blog_flag (print_line l c) = blog_flag c" "b_log (print_line l c) = b_log c" "b_out (print_line l c) = b_out c @ [l]"
  by (simp_all add: print_line_def)

lemma exec_cmd_ctl_ok: "ctl_ok c \<Longrightarrow> exec_cmd behind buf c = (c', Ret u) \<Longrightarrow> ctl_ok c'"
  by (auto simp: exec_cmd_def ctl_ok_def Let_def not_less simp del: upt_rec_numeral split: if_splits)

definition b_inv :: "b_sys \<Rightarrow> bool" where
  "b_inv s \<longleftrightarrow> length (cmd_str s) = CMD_SIZE \<and> (b_end s = None \<longrightarrow> ctl_ok (b_ctl s))"

lemma b_char_inv: "b_inv s \<Longrightarrow> b_end s = None \<Longrightarrow> b_inv (b_char t behind ch s)"
  by (auto simp: b_inv_def b_char_def Let_def b_exit_def exec_cmd_ctl_ok split: prod.splits outcome.splits)

lemma b_write_simps [simp]:
  "b_ctl (b_write s) = b_ctl s" "cmd_str (b_write s) = cmd_str s" "cmd_str_idx (b_write s) = cmd_str_idx s"
  "b_pending (b_write s) = b_pending s" "b_end (b_write s) = b_end s"
  by (simp_all add: b_write_def)

lemma b_step_inv:
  assumes "b_inv s" and "b_step show_temp ev s = Some s'"
  shows "b_inv s'"
proof (cases ev)
  case (NextChar t behind)
  then show ?thesis using assms
    using b_char_inv [of "s\<lparr>b_pending := cs\<rparr>" for cs]
    by (fastforce simp: b_step_def b_inv_def split: if_splits list.splits)
qed (use assms in \<open>auto simp: b_step_def b_inv_def b_exit_def ctl_ok_def Let_def split: if_splits option.splits\<close>)

lemma b_run_inv: "b_inv s \<Longrightarrow> b_run show_temp evs s = Some s' \<Longrightarrow> b_inv s'"
  by (induction evs arbitrary: s) (auto split: option.splits intro: b_step_inv)

lemma b_opt_ok: "b_opt can_open e c = Ret c' \<Longrightarrow> ctl_ok c \<Longrightarrow> ctl_ok c'"
  by (auto simp: b_opt_def ctl_ok_def Let_def not_less split: if_splits option.splits list.splits)

lemma b_opts_ok: "b_opts can_open es c = Ret c' \<Longrightarrow> ctl_ok c \<Longrightarrow> ctl_ok c'"
  by (induction es arbitrary: c) (auto simp: obind_Ret_iff dest: b_opt_ok)

lemma b_get_opts_ok: "b_get_opts can_open argv = Ret c \<Longrightarrow> ctl_ok c"
  unfolding b_get_opts_def by (erule b_opts_ok) (simp add: ctl_ok_def b_defaults_def)


subsection \<open>The buffer of 32 bytes\<close>

text \<open>The length of the unfinished line at the end of a text.\<close>

definition cur_len :: "string \<Rightarrow> nat" where
  "cur_len x = length (takeWhile (\<lambda>c. c \<noteq> CHR 0x0A) (rev x))"

lemma cur_len_simps [simp]: "cur_len [] = 0" "cur_len (x @ [c]) = (if c = CHR 0x0A then 0 else Suc (cur_len x))"
  by (simp_all add: cur_len_def)

text \<open>No line, counted without its newline, has 32 characters or more.\<close>

definition lines_fit :: "string \<Rightarrow> bool" where
  "lines_fit x \<longleftrightarrow> (\<forall>n. cur_len (take n x) < CMD_SIZE)"

fun input_of :: "b_event list \<Rightarrow> string" where
  "input_of [] = []"
| "input_of (Read chunk # evs) = chunk @ input_of evs"
| "input_of (_ # evs) = input_of evs"

definition reader_ok :: "string \<Rightarrow> b_sys \<Rightarrow> bool" where
  "reader_ok consumed s \<longleftrightarrow> b_inv s \<and> b_end s \<noteq> Some SegFault \<and> (b_end s = None \<longrightarrow> cmd_str_idx s = cur_len consumed)"

lemma exec_cmd_not_fault: "exec_cmd behind l c \<noteq> (c', SegFault)" "exec_cmd behind l c \<noteq> (c', DivFault)" "exec_cmd behind l c \<noteq> (c', Abort)"
  "exec_cmd behind l c \<noteq> (c', Killed n)" "exec_cmd behind l c \<noteq> (c', Hang)"
  by (auto simp: exec_cmd_def Let_def)

lemma b_char_reader:
  assumes "reader_ok x s" and "b_end s = None" and "cur_len x < CMD_SIZE"
  shows "reader_ok (x @ [ch]) (b_char t behind ch s)"
proof -
  have inv: "b_inv (b_char t behind ch s)" using assms by (simp add: reader_ok_def b_char_inv)
  have i: "cmd_str_idx s < length (cmd_str s)" "cmd_str_idx s = cur_len x"
    using assms by (auto simp: reader_ok_def b_inv_def)
  have "b_end (b_char t behind ch s) \<noteq> Some SegFault \<and>
      (b_end (b_char t behind ch s) = None \<longrightarrow> cmd_str_idx (b_char t behind ch s) = cur_len (x @ [ch]))"
    using i assms(2) exec_cmd_not_fault
    by (auto simp: b_char_def Let_def b_exit_def split: prod.splits outcome.splits)
  with inv show ?thesis by (simp add: reader_ok_def)
qed

lemma b_step_reader:
  assumes "b_step show_temp ev s = Some s'" and "reader_ok x s" and "cur_len x < CMD_SIZE"
  shows "\<exists>y. reader_ok (x @ y) s' \<and> y @ b_pending s' @ z = b_pending s @ input_of [ev] @ z"
proof (cases ev)
  case (NextChar t behind)
  with assms(1) obtain ch cs where p: "b_pending s = ch # cs" and s': "s' = b_write (b_char t behind ch (s\<lparr>b_pending := cs\<rparr>))"
    and e: "b_end s = None" by (auto simp: b_step_def split: if_splits list.splits)
  have "reader_ok x (s\<lparr>b_pending := cs\<rparr>)" using assms(2) by (simp add: reader_ok_def b_inv_def)
  then have "reader_ok (x @ [ch]) (b_char t behind ch (s\<lparr>b_pending := cs\<rparr>))" using e assms(3) by (intro b_char_reader) auto
  then have "reader_ok (x @ [ch]) s'" by (simp add: s' reader_ok_def b_inv_def)
  moreover have "b_pending s' = cs"
    by (auto simp: s' b_char_def Let_def b_exit_def split: prod.splits outcome.splits)
  ultimately show ?thesis using p NextChar by (intro exI [of _ "[ch]"]) simp
qed (use assms in \<open>auto simp: b_step_def reader_ok_def b_inv_def b_exit_def ctl_ok_def Let_def intro!: exI [of _ "[]"]
      split: if_splits option.splits\<close>)

lemma b_run_reader:
  assumes "b_run show_temp evs s = Some s'" and "reader_ok x s" and "lines_fit (x @ b_pending s @ input_of evs)"
  shows "\<exists>y. reader_ok y s'"
  using assms
proof (induction evs arbitrary: s x)
  case (Cons ev evs)
  then obtain s1 where s1: "b_step show_temp ev s = Some s1" "b_run show_temp evs s1 = Some s'"
    by (auto split: option.splits)
  have "cur_len x < CMD_SIZE" using Cons.prems(3) by (auto simp: lines_fit_def dest: spec [of _ "length x"])
  then obtain y where "reader_ok (x @ y) s1" "y @ b_pending s1 @ input_of evs = b_pending s @ input_of [ev] @ input_of evs"
    using b_step_reader [OF s1(1) Cons.prems(2)] by metis
  moreover have "input_of (ev # evs) = input_of [ev] @ input_of evs" by (cases ev) auto
  ultimately show ?case using Cons.IH [OF s1(2)] Cons.prems(3) by (metis append.assoc)
qed auto

subsection \<open>Temperature\<close>

text \<open>The denominator of the formula is positive over the whole range of the converter.\<close>

lemma ln_ratio_bound:
  assumes "0 < a" and "a < 1023"
  shows "- 10 \<le> ln (1023 / real_of_int a - 1)"
proof -
  have a: "real_of_int a \<le> 1022" "0 < real_of_int a" using assms by auto
  then have "1 / 1024 \<le> 1023 / real_of_int a - 1" by (simp add: field_simps)
  then have "ln (1 / 1024) \<le> ln (1023 / real_of_int a - 1)" by (intro ln_mono) auto
  moreover have "ln (1 / 1024 :: real) = - (10 * ln 2)"
  proof -
    have "(1024 :: real) = 2 ^ 10" by simp
    then have "ln (1024 :: real) = 10 * ln 2" by (metis ln_realpow of_nat_numeral zero_less_numeral)
    then show ?thesis by (simp add: ln_div)
  qed
  ultimately show ?thesis using ln_2_less_1 by linarith
qed

lemma celsius_mono:
  assumes "0 < a" and "a < b" and "b < 1023"
  shows "celsius a < celsius b"
proof -
  let ?x = "\<lambda>a. 1023 / real_of_int a - 1"
  have ab: "0 < real_of_int a" "real_of_int a < real_of_int b" "real_of_int b < 1023" using assms by auto
  then have "?x b < ?x a" by (simp add: frac_less2)
  moreover have "0 < ?x b" using ab by (simp add: field_simps)
  ultimately have l: "ln (?x b) < ln (?x a)" by simp
  have pos: "0 < ln (?x c) / B_value + 1 / 298.15" if "0 < c" "c < 1023" for c
    using ln_ratio_bound [OF that] by (simp add: B_value_def field_simps)
  have "ln (?x b) / B_value + 1 / 298.15 < ln (?x a) / B_value + 1 / 298.15" using l by (simp add: B_value_def)
  then have "1 / (ln (?x a) / B_value + 1 / 298.15) < 1 / (ln (?x b) / B_value + 1 / 298.15)"
    using pos [of b] assms by (intro frac_less2) auto
  moreover have "x * R0 / R0 = x" for x by (simp add: R0_def)
  ultimately show ?thesis by (simp add: celsius_def Let_def)
qed

lemma temperature_mono: "0 < a \<Longrightarrow> a < b \<Longrightarrow> b < 1023 \<Longrightarrow> temperature sc a < temperature sc b"
  using celsius_mono [of a b] by (simp add: temperature_def)

end
