(* ===== verification/SmallPrograms.thy ===== *)
theory SmallPrograms
  imports CLib
begin

text \<open>
  The exercises of a few lines: \<open>LinuxBox/memory-user.c\<close>, which is to touch an array of a
  given size for ever, \<open>LinuxBox/null.c\<close>, which misuses \<open>free\<close>, \<open>hello_world.c\<close> and the fork
  bomb \<open>CS33/fork.c\<close>.
\<close>

subsection \<open>memory-user.c\<close>

text \<open>
  \<open>atoi\<close> reads a decimal number; the product with \<open>sizeof(int)\<close> is a \<open>size_t\<close> that is
  converted to \<open>int\<close>.
\<close>

definition atoi :: "string \<Rightarrow> int" where
  "atoi s =
     (let s = dropWhile isspace s;
          (neg, ds) = (case s of c # cs \<Rightarrow> if c = CHR ''-'' then (True, cs) else if c = CHR ''+'' then (False, cs) else (False, s)
                       | [] \<Rightarrow> (False, []));
          n = int (strtol_digits 10 0 ds) in
      to_int32 (if neg then - n else n))"

definition array_size :: "string \<Rightarrow> int" where
  "array_size arg = to_int32 (to_uint64 (to_int32 (atoi arg * 1000000)) * 4)"

text \<open>
  The loop on an allocation of \<open>bytes\<close> bytes: element \<open>index\<close> of an \<open>int\<close> array lies at bytes
  \<open>4 * index\<close> to \<open>4 * index + 3\<close>. The index is set back only at the last of \<open>bytes\<close> elements.
\<close>

function touch :: "nat \<Rightarrow> nat \<Rightarrow> string list \<Rightarrow> string list \<times> unit outcome" where
  "touch bytes index out =
     (if bytes < 4 * index + 4 then (out, SegFault)
      else (let out = out @ [fmt_d (int index)] in
            if index = bytes - 1 then touch bytes 1 out else touch bytes (Suc index) out))"
  by pat_completeness auto
termination
  by (relation "measure (\<lambda>(bytes, index, out). bytes - index)") auto

declare touch.simps [simp del]

definition memory_user :: "(int \<Rightarrow> bool) \<Rightarrow> string list \<Rightarrow> string list \<times> unit outcome" where
  "memory_user malloc argv =
     (if length argv \<noteq> 2 then ([], Exit 1)
      else (let n = array_size (argv ! 1) in
            if \<not> malloc n then ([''oh shit''], Exit 1)
            else if n \<le> 0 then ([], Hang)
            else touch (nat n) 0 []))"

lemma touch_faults:
  "index \<le> bytes div 4 \<Longrightarrow>
     touch bytes index out = (out @ map (\<lambda>i. fmt_d (int i)) [index..<bytes div 4], SegFault)"
proof (induction "bytes div 4 - index" arbitrary: index out)
  case 0
  then have "index = bytes div 4" by simp
  then show ?case by (subst touch.simps) (simp, linarith)
next
  case (Suc k)
  then have "index < bytes div 4" by simp
  then have "\<not> bytes < 4 * index + 4" and "index \<noteq> bytes - 1" by linarith+
  moreover have "[index..<bytes div 4] = index # [Suc index..<bytes div 4]"
    using \<open>index < bytes div 4\<close> by (rule upt_conv_Cons)
  ultimately show ?case using Suc by (subst touch.simps) (simp add: Let_def)
qed

text \<open>
  No argument makes the program touch its array for ever: it prints the indices of the
  first quarter and then leaves the allocation, unless it exits or the size is not positive.
\<close>

lemma memory_user_faults:
  assumes "argv = [prog, arg]" and "0 < array_size arg" and "malloc (array_size arg)"
  shows "memory_user malloc argv =
    (map (\<lambda>i. fmt_d (int i)) [0..<nat (array_size arg) div 4], SegFault)"
  using assms touch_faults [of 0 "nat (array_size arg)" "[]"] by (simp add: memory_user_def Let_def)

subsection \<open>null.c\<close>

text \<open>
  Stores of \<open>ints\<close> outside an allocation and a \<open>free\<close> of a pointer into it, with the heap as
  the number of \<open>int\<close> cells of the one block (\<open>None\<close> once it is freed). \<open>free\<close> of a pointer that
  is not the start of a block makes the library abort.
\<close>

datatype null_op = StoreAt nat | FreeAt nat

definition null_step :: "null_op \<Rightarrow> nat option \<Rightarrow> nat option outcome" where
  "null_step op b =
     (case op of
        StoreAt i \<Rightarrow> (case b of None \<Rightarrow> SegFault | Some n \<Rightarrow> if i < n then Ret b else SegFault)
      | FreeAt i \<Rightarrow> (if b \<noteq> None \<and> i = 0 then Ret None else Abort))"

fun null_ops :: "null_op list \<Rightarrow> nat option \<Rightarrow> nat option outcome" where
  "null_ops [] b = Ret b"
| "null_ops (op # ops) b = obind (null_step op b) (null_ops ops)"

definition null_main :: "bool \<Rightarrow> unit outcome" where
  "null_main malloc =
     obind (null_ops [StoreAt 100, StoreAt 101, StoreAt 102, FreeAt 43, FreeAt 0, StoreAt 43]
       (if malloc then Some 100 else None)) (\<lambda>_. Exit 0)"

lemma null_main_faults: "null_main malloc = SegFault"
  by (simp add: null_main_def null_step_def)

subsection \<open>hello_world.c and fork.c\<close>

definition hello_world :: "string \<times> int" where
  "hello_world = (''Hello, World!'', 0)"

text \<open>After \<open>k\<close> rounds of the loop, when every \<open>fork\<close> succeeds, this many processes run.\<close>

fun forkever :: "nat \<Rightarrow> nat" where
  "forkever 0 = 1"
| "forkever (Suc k) = 2 * forkever k"

lemma forkever_processes: "forkever k = 2 ^ k"
  by (induction k) auto

end
