(* ===== verification/Recursion.thy ===== *)
theory Recursion
  imports CLib
begin

text \<open>
  The recursive exercises of \<open>CS32/Project 3/recursion.cpp\<close>. A \<open>std::string\<close> is the list of
  its characters. Two of the functions read \<open>s[s.length() - 1]\<close> also when \<open>s\<close> is empty, the
  byte before the buffer of the string; its value in the call for a text of \<open>k\<close> characters is
  \<open>junk k\<close>, a parameter of the model.
\<close>

subsection \<open>Operations\<close>

text \<open>The operands are unsigned, the result of a call is an \<open>int\<close> that is added to an unsigned.\<close>

function prod_rec :: "u32 \<Rightarrow> u32 \<Rightarrow> int" where
  "prod_rec m n = (if m = 0 \<or> n = 0 then 0 else sint (m + word_of_int (prod_rec m (n - 1))))"
  by pat_completeness auto
termination
  by (relation "measure (\<lambda>(m, n). unat n)") (auto simp: measure_unat)

function numberOfDigits :: "int \<Rightarrow> int \<Rightarrow> int" where
  "numberOfDigits num digit =
     (if num = 0 then 0
      else let remainder = c_mod (num - digit) 10 in
        if remainder = 0 then 1 + numberOfDigits (c_div num 10) digit
        else 0 + numberOfDigits (c_div num 10) digit)"
  by pat_completeness auto
termination
  by (relation "measure (\<lambda>(num, digit). nat \<bar>num\<bar>)")
    (auto simp: c_div_def abs_mult nat_less_iff int_div_less_self)

definition at_back :: "char \<Rightarrow> string \<Rightarrow> char" where
  "at_back junk s = (if s = [] then junk else last s)"

function doubleDouble :: "(nat \<Rightarrow> char) \<Rightarrow> string \<Rightarrow> string" where
  "doubleDouble junk n =
     (if n = [] then []
      else let savedChar = last n; nxt = doubleDouble junk (butlast n) in
        if savedChar = at_back (junk (length n)) nxt then nxt @ ''22'' @ [savedChar] else nxt @ [savedChar])"
  by pat_completeness auto
termination
  by (relation "measure (\<lambda>(junk, n). length n)") auto

text \<open>\<open>pop_back\<close> of an empty string is undefined.\<close>

definition pop_back :: "string \<Rightarrow> string outcome" where
  "pop_back s = (if s = [] then SegFault else Ret (butlast s))"

function curlyFries :: "(nat \<Rightarrow> char) \<Rightarrow> string \<Rightarrow> string outcome" where
  "curlyFries junk str =
     (if str = [] then Ret []
      else let savedChar = last str in
        obind (curlyFries junk (butlast str)) (\<lambda>returned.
          if savedChar = CHR ''{'' then Ret (returned @ ''{*'')
          else if savedChar = CHR ''}'' then obind (pop_back returned) (\<lambda>r. Ret (r @ ''}''))
          else if at_back (junk (length str)) returned = CHR ''*''
          then obind (pop_back returned) (\<lambda>r. Ret (r @ [savedChar] @ ''*''))
          else Ret returned))"
  by pat_completeness auto
termination
  by (relation "measure (\<lambda>(junk, n). length n)") auto

text \<open>The memory from the pointer on; \<open>*a\<close> is read before \<open>size\<close> is looked at.\<close>

fun addEmUp :: "int list \<Rightarrow> int \<Rightarrow> int \<Rightarrow> bool outcome" where
  "addEmUp [] sz target = SegFault"
| "addEmUp (current # rest) sz target =
     (if target < 0 then Ret False
      else if target - current = 0 \<or> target = 0 then Ret True
      else if sz = 0 then Ret False
      else if current = target then Ret True
      else obind (addEmUp rest (sz - 1) (target - current)) (\<lambda>b.
        if b then Ret True
        else obind (addEmUp rest (sz - 1) target) (\<lambda>b. if b then Ret True else Ret False)))"

declare prod_rec.simps [simp del] numberOfDigits.simps [simp del] doubleDouble.simps [simp del]
  curlyFries.simps [simp del]

subsection \<open>Products and digits\<close>

lemma prod_rec_eq: "prod_rec m n = sint (m * n)"
proof (induction m n rule: prod_rec.induct)
  case (1 m n)
  show ?case
  proof (cases "m = 0 \<or> n = 0")
    case True
    then show ?thesis by (auto simp: prod_rec.simps [of m n])
  next
    case False
    with 1 have "prod_rec m n = sint (m + word_of_int (sint (m * (n - 1))))"
      by (simp add: prod_rec.simps [of m n])
    also have "\<dots> = sint (m * n)" by (simp add: algebra_simps)
    finally show ?thesis .
  qed
qed

lemma numberOfDigits_count:
  assumes "0 < num" and "0 \<le> d" and "d < 10"
  shows "numberOfDigits num d = int (count_list (show_base 10 (nat num)) (digit_char (nat d)))"
  using assms
proof (induction num d rule: numberOfDigits.induct)
  case (1 num d)
  have rem: "c_mod (num - d) 10 = 0 \<longleftrightarrow> num mod 10 = d"
  proof -
    have "c_mod (num - d) 10 = 0 \<longleftrightarrow> 10 dvd num - d"
    proof (cases "d \<le> num")
      case True
      then show ?thesis by (simp add: c_mod_nonneg mod_eq_0_iff_dvd)
    next
      case False
      then have "\<bar>num - d\<bar> < 10" using 1 by linarith
      moreover from this have "c_mod (num - d) 10 = num - d" by (simp add: c_mod_def c_div_def)
      ultimately show ?thesis using False zdvd_not_zless [of "d - num" 10] by (simp add: dvd_diff_commute)
    qed
    also have "\<dots> \<longleftrightarrow> num mod 10 = d" using 1 by presburger
    finally show ?thesis .
  qed
  have dig: "digit_char (nat (num mod 10)) = digit_char (nat d) \<longleftrightarrow> num mod 10 = d"
    using 1 by (auto simp: digit_char_eq_iff)
  have nn: "nat num mod 10 = nat (num mod 10)" "nat num div 10 = nat (num div 10)"
    using 1 by (simp_all add: nat_mod_distrib nat_div_distrib)
  have "c_div num 10 = num div 10" using 1 by (simp add: c_div_nonneg)
  show ?case
  proof (cases "num < 10")
    case True
    then have "numberOfDigits (c_div num 10) d = 0"
      using 1 by (simp add: c_div_nonneg numberOfDigits.simps [of 0])
    with True show ?thesis using "1.prems" rem dig
      by (auto simp: numberOfDigits.simps [of num d] show_base.simps [of 10 "nat num"] nat_less_iff Let_def)
  next
    case False
    then have "numberOfDigits (num div 10) d = int (count_list (show_base 10 (nat (num div 10))) (digit_char (nat d)))"
      using 1 rem \<open>c_div num 10 = num div 10\<close> by (cases "num mod 10 = d") simp_all
    then show ?thesis using False 1 rem dig \<open>c_div num 10 = num div 10\<close>
      by (simp add: numberOfDigits.simps [of num d] show_base.simps [of 10 "nat num"] nn nat_less_iff Let_def)
  qed
qed

subsection \<open>Strings\<close>

text \<open>The text the comment asks for, read from the left.\<close>

fun separated :: "string \<Rightarrow> string" where
  "separated (c # d # cs) = (if c = d then c # ''22'' @ separated (d # cs) else c # separated (d # cs))"
| "separated cs = cs"

lemma separated_snoc:
  "separated (cs @ [d]) = (if cs \<noteq> [] \<and> last cs = d then separated cs @ ''22'' @ [d] else separated cs @ [d])"
  by (induction cs rule: separated.induct) auto

lemma last_separated: "cs \<noteq> [] \<Longrightarrow> separated cs \<noteq> [] \<and> last (separated cs) = last cs"
  by (induction cs rule: separated.induct) auto

lemma doubleDouble_separated:
  assumes "n \<noteq> [] \<longrightarrow> hd n \<noteq> junk 1"
  shows "doubleDouble junk n = separated n"
  using assms
proof (induction n rule: rev_induct)
  case (snoc c n)
  show ?case
  proof (cases "n = []")
    case True
    with snoc show ?thesis by (simp add: doubleDouble.simps at_back_def)
  next
    case False
    with snoc have ih: "doubleDouble junk n = separated n" by simp
    have "at_back j (separated n) = last n" for j using last_separated [OF False] by (simp add: at_back_def)
    with False ih show ?thesis
      by (auto simp: doubleDouble.simps [of junk "n @ [c]"] separated_snoc Let_def)
  qed
qed (simp add: doubleDouble.simps)

text \<open>The states of the scan: before, inside and behind the brackets.\<close>

lemma curlyFries_snoc:
  "curlyFries junk (s @ [c]) = obind (curlyFries junk s) (\<lambda>returned.
     if c = CHR ''{'' then Ret (returned @ ''{*'')
     else if c = CHR ''}'' then obind (pop_back returned) (\<lambda>r. Ret (r @ ''}''))
     else if at_back (junk (Suc (length s))) returned = CHR ''*'' then obind (pop_back returned) (\<lambda>r. Ret (r @ [c] @ ''*''))
     else Ret returned)"
  by (subst curlyFries.simps) (simp cong: if_cong)

definition no_bracket :: "string \<Rightarrow> bool" where
  "no_bracket s \<longleftrightarrow> (\<forall>c \<in> set s. c \<noteq> CHR ''{'' \<and> c \<noteq> CHR ''}'')"

lemma curlyFries_before:
  "no_bracket s \<Longrightarrow> (\<And>k. junk k \<noteq> CHR ''*'') \<Longrightarrow> curlyFries junk s = Ret []"
  by (induction s rule: rev_induct) (auto simp: no_bracket_def curlyFries_snoc at_back_def curlyFries.simps [of junk "[]"])

lemma curlyFries_inside:
  assumes "curlyFries junk s = Ret []" and "no_bracket mid"
  shows "curlyFries junk (s @ ''{'' @ mid) = Ret (''{'' @ mid @ ''*'')"
  using assms(2)
proof (induction mid rule: rev_induct)
  case Nil
  then show ?case using assms(1) by (simp add: curlyFries_snoc)
next
  case (snoc c mid)
  then have "curlyFries junk (s @ ''{'' @ mid) = Ret (''{'' @ mid @ ''*'')" by (simp add: no_bracket_def)
  with snoc.prems show ?case
    using curlyFries_snoc [of junk "s @ ''{'' @ mid" c]
    by (simp add: no_bracket_def at_back_def pop_back_def butlast_append)
qed

lemma curlyFries_behind:
  assumes "curlyFries junk s = Ret (r @ ''}'')" and "no_bracket post"
  shows "curlyFries junk (s @ post) = Ret (r @ ''}'')"
  using assms(2)
proof (induction post rule: rev_induct)
  case (snoc c post)
  then show ?case using curlyFries_snoc [of junk "s @ post" c] by (simp add: no_bracket_def at_back_def)
qed (simp add: assms(1))

lemma curlyFries_brackets:
  assumes "no_bracket pre" and "no_bracket mid" and "no_bracket post" and "\<And>k. junk k \<noteq> CHR ''*''"
  shows "curlyFries junk (pre @ ''{'' @ mid @ ''}'' @ post) = Ret (''{'' @ mid @ ''}'')"
proof -
  have "curlyFries junk (pre @ ''{'' @ mid) = Ret (''{'' @ mid @ ''*'')"
    using curlyFries_inside [OF curlyFries_before [OF assms(1,4)] assms(2)] .
  then have "curlyFries junk ((pre @ ''{'' @ mid) @ ''}'') = Ret ((''{'' @ mid) @ ''}'')"
    using curlyFries_snoc [of junk "pre @ ''{'' @ mid" "CHR ''}''"] by (simp add: pop_back_def butlast_append)
  from curlyFries_behind [OF this assms(3)] show ?thesis by simp
qed

subsection \<open>Subset subset_sums\<close>

text \<open>What the function decides: the cell behind the array takes part, too.\<close>

definition subset_sums :: "int list \<Rightarrow> int set" where
  "subset_sums xs = sum_list ` set (subseqs xs)"

lemma subset_sums_Nil [simp]: "subset_sums [] = {0}"
  by (simp add: subset_sums_def)

lemma subset_sums_Cons [simp]: "subset_sums (x # xs) = (\<lambda>t. x + t) ` subset_sums xs \<union> subset_sums xs"
  by (simp add: subset_sums_def Let_def image_Un image_image)

lemma subset_sums_nonneg: "\<forall>x \<in> set xs. 0 \<le> x \<Longrightarrow> t \<in> subset_sums xs \<Longrightarrow> 0 \<le> t"
  by (induction xs arbitrary: t) force+

lemma subset_sums_zero [simp]: "0 \<in> subset_sums xs"
  by (induction xs) auto

lemma addEmUp_iff:
  assumes "\<forall>x \<in> set xs. 0 \<le> x"
  shows "addEmUp (xs @ v # more) (int (length xs)) target =
    Ret (0 \<le> target \<and> (target \<in> subset_sums xs \<or> 0 \<le> v \<and> target - v \<in> subset_sums xs))"
  using assms
proof (induction xs arbitrary: target)
  case (Cons x xs)
  let ?P = "\<lambda>t. 0 \<le> t \<and> (t \<in> subset_sums xs \<or> 0 \<le> v \<and> t - v \<in> subset_sums xs)"
  have neg: "t \<notin> subset_sums xs" if "t < 0" for t using subset_sums_nonneg [of xs t] Cons.prems that by auto
  have ih: "addEmUp (xs @ v # more) (int (length xs)) t = Ret (?P t)" for t using Cons by simp
  consider "target < 0" | "target = x \<or> target = 0" "0 \<le> target" | "0 < target" "target \<noteq> x"
    by linarith
  then show ?case
  proof cases
    case 1
    then show ?thesis by simp
  next
    case 2
    then show ?thesis by (force simp: image_iff)
  next
    case 3
    have "?P (target - x) \<or> ?P target \<longleftrightarrow>
      0 \<le> target \<and> (target \<in> subset_sums (x # xs) \<or> 0 \<le> v \<and> target - v \<in> subset_sums (x # xs))"
      using 3 neg [of "target - x"] neg [of "target - v - x"]
      by (auto simp: image_iff algebra_simps) (smt (verit) neg)+
    with 3 ih show ?thesis by (auto simp del: subset_sums_Cons)
  qed
qed auto

subsection \<open>The maze\<close>

text \<open>
  \<open>maze[r][c]\<close>: a row outside the array faults; the character behind the end of a row is NUL
  and must not be changed.
\<close>

definition maze_at :: "string list \<Rightarrow> int \<Rightarrow> int \<Rightarrow> char outcome" where
  "maze_at maze r c =
     (if 0 \<le> r \<and> nat r < length maze \<and> 0 \<le> c \<and> nat c \<le> length (maze ! nat r)
      then Ret (if nat c = length (maze ! nat r) then CHR 0x00 else maze ! nat r ! nat c)
      else SegFault)"

definition drop_crumb :: "string list \<Rightarrow> int \<Rightarrow> int \<Rightarrow> string list outcome" where
  "drop_crumb maze r c =
     (if 0 \<le> r \<and> nat r < length maze \<and> 0 \<le> c \<and> nat c < length (maze ! nat r)
      then Ret (maze[nat r := (maze ! nat r)[nat c := CHR ''#'']])
      else SegFault)"

text \<open>
  A call that returns false is followed by the next attempt, on the maze with the crumbs
  of the call. A search without end is \<open>None\<close>.
\<close>

abbreviation or_else ::
  "(bool \<times> string list) outcome option \<Rightarrow> (string list \<Rightarrow> (bool \<times> string list) outcome option) \<Rightarrow>
    (bool \<times> string list) outcome option" where
  "or_else r k \<equiv> Option.bind r (\<lambda>x. case x of Ret (b, m) \<Rightarrow> if b then Some (Ret (True, m)) else k m | _ \<Rightarrow> Some x)"

partial_function (option) canWeFinish :: "string list \<Rightarrow> int \<Rightarrow> int \<Rightarrow> int \<Rightarrow> int \<Rightarrow> int \<Rightarrow> int \<Rightarrow>
    (bool \<times> string list) outcome option" where
  "canWeFinish maze nRows nCols sr sc er ec =
     (case drop_crumb maze sr sc of
        Ret m1 \<Rightarrow>
          if sr = er \<and> sc = ec then Some (Ret (True, m1))
          else or_else (case maze_at m1 (sr - 1) sc of
              Ret ch \<Rightarrow> if ch = CHR ''.'' then canWeFinish m1 nRows nCols (sr - 1) sc er ec else Some (Ret (False, m1))
            | _ \<Rightarrow> Some SegFault)
          (\<lambda>m2. or_else (case maze_at m2 (sr + 1) sc of
              Ret ch \<Rightarrow> if ch = CHR ''.'' then canWeFinish m2 nRows nCols (sr + 1) sc er ec else Some (Ret (False, m2))
            | _ \<Rightarrow> Some SegFault)
          (\<lambda>m3. or_else (case maze_at m3 sr (sc + 1) of
              Ret ch \<Rightarrow> if ch = CHR ''.'' then canWeFinish m3 nRows nCols sr (sc + 1) er ec else Some (Ret (False, m3))
            | _ \<Rightarrow> Some SegFault)
          (\<lambda>m4. or_else (case maze_at m4 sr (sc - 1) of
              Ret ch \<Rightarrow> if ch = CHR ''.'' then canWeFinish m4 nRows nCols sr (sc - 1) er ec else Some (Ret (False, m4))
            | _ \<Rightarrow> Some SegFault)
          (\<lambda>m5. Some (Ret (False, m5))))))
      | _ \<Rightarrow> Some SegFault)"

text \<open>
  The open cells, their neighbours, and the cells that can be reached through open cells.
\<close>

definition dots :: "string list \<Rightarrow> (int \<times> int) set" where
  "dots maze = {(r, c). maze_at maze r c = Ret (CHR ''.'')}"

definition adjacent :: "int \<times> int \<Rightarrow> int \<times> int \<Rightarrow> bool" where
  "adjacent p q \<longleftrightarrow> q \<in> {(fst p - 1, snd p), (fst p + 1, snd p), (fst p, snd p + 1), (fst p, snd p - 1)}"

definition open_path :: "(int \<times> int) set \<Rightarrow> int \<times> int \<Rightarrow> int \<times> int \<Rightarrow> bool" where
  "open_path D = (\<lambda>p q. adjacent p q \<and> q \<in> D)\<^sup>*\<^sup>*"

text \<open>A cell that the search may stand on: it exists and its neighbours can be looked at.\<close>

definition inside :: "string list \<Rightarrow> int \<times> int \<Rightarrow> bool" where
  "inside maze p \<longleftrightarrow> drop_crumb maze (fst p) (snd p) \<noteq> SegFault \<and>
     (\<forall>q. adjacent p q \<longrightarrow> maze_at maze (fst q) (snd q) \<noteq> SegFault)"

lemma maze_at_shape:
  "map length m = map length maze \<Longrightarrow> maze_at m r c = SegFault \<longleftrightarrow> maze_at maze r c = SegFault"
  by (auto simp: maze_at_def dest: map_eq_imp_length_eq) (metis length_map nth_map)+

lemma drop_crumb_shape:
  "map length m = map length maze \<Longrightarrow> drop_crumb m r c = SegFault \<longleftrightarrow> drop_crumb maze r c = SegFault"
  by (auto simp: drop_crumb_def dest: map_eq_imp_length_eq) (metis length_map nth_map)+

lemma inside_shape: "map length m = map length maze \<Longrightarrow> inside m p \<longleftrightarrow> inside maze p"
  by (simp add: inside_def maze_at_shape [of m maze] drop_crumb_shape [of m maze])

lemma drop_crumb_Ret:
  assumes "inside maze p"
  obtains m where "drop_crumb maze (fst p) (snd p) = Ret m" and "dots m = dots maze - {p}"
    and "map length m = map length maze"
proof -
  obtain r c where p: "p = (r, c)" by fastforce
  let ?m = "maze[nat r := (maze ! nat r)[nat c := CHR ''#'']]"
  from assms p have ok: "0 \<le> r" "nat r < length maze" "0 \<le> c" "nat c < length (maze ! nat r)"
    by (auto simp: inside_def drop_crumb_def split: if_splits)
  have "drop_crumb maze (fst p) (snd p) = Ret ?m" using ok p by (simp add: drop_crumb_def)
  moreover have "dots ?m = dots maze - {p}"
    using ok p by (auto simp: dots_def maze_at_def nth_list_update nat_eq_iff2 split: if_splits)
  moreover have "map length ?m = map length maze"
    using ok(2) by (simp add: map_update) (metis length_list_update list_update_id map_update nth_map length_map)
  ultimately show thesis by (rule that)
qed

lemma finite_dots: "finite (dots maze)"
proof (rule finite_subset)
  show "dots maze \<subseteq> (\<Union>r \<in> {0..<length maze}. (\<lambda>c. (int r, int c)) ` {0..<length (maze ! r)})"
  proof
    fix p assume "p \<in> dots maze"
    then obtain r c where "p = (int r, int c)" "r < length maze" "c < length (maze ! r)"
      by (cases p) (auto simp: dots_def maze_at_def split: if_splits elim!: nonneg_int_cases)
    then show "p \<in> (\<Union>r \<in> {0..<length maze}. (\<lambda>c. (int r, int c)) ` {0..<length (maze ! r)})"
      by (intro UN_I [of r]) auto
  qed
qed simp

lemma dots_inside_write: "p \<in> dots maze \<Longrightarrow> maze_at maze (fst p) (snd p) = Ret (CHR ''.'')"
  by (auto simp: dots_def)

text \<open>
  What holds between two attempts on behalf of \<open>p\<close>: the maze has lost cells only, none of
  them is the goal, and no lost cell has an open neighbour.
\<close>

definition swept :: "string list \<Rightarrow> int \<times> int \<Rightarrow> int \<times> int \<Rightarrow> string list \<Rightarrow> bool" where
  "swept maze p t m \<longleftrightarrow>
     map length m = map length maze \<and> dots m \<subseteq> dots maze - {p} \<and> t \<noteq> p \<and>
     t \<notin> dots maze - {p} - dots m \<and>
     (\<forall>q \<in> dots maze - {p} - dots m. \<forall>q'. adjacent q q' \<longrightarrow> q' \<notin> dots m)"

text \<open>The contract of a call.\<close>

definition searched :: "string list \<Rightarrow> int \<times> int \<Rightarrow> int \<times> int \<Rightarrow> (bool \<times> string list) outcome option \<Rightarrow> bool" where
  "searched maze p t r \<longleftrightarrow> (\<exists>b m. r = Some (Ret (b, m)) \<and>
     (if b then open_path (dots maze) p t
      else swept maze p t m \<and> (\<forall>q. adjacent p q \<longrightarrow> q \<notin> dots m)))"

lemma open_path_mono: "open_path D' p t \<Longrightarrow> D' \<subseteq> D \<Longrightarrow> open_path D p t"
  unfolding open_path_def by (erule rtranclp_mono [THEN predicate2D, rotated]) auto

lemma open_path_step: "adjacent p q \<Longrightarrow> q \<in> D \<Longrightarrow> open_path D q t \<Longrightarrow> open_path D p t"
  unfolding open_path_def by (rule converse_rtranclp_into_rtranclp) auto

lemma swept_attempt:
  assumes sw: "swept maze p t m" and n: "adjacent p n" and ok: "inside maze p"
    and rec: "n \<in> dots m \<Longrightarrow> searched m n t x"
    and r: "r = (case maze_at m (fst n) (snd n) of
      Ret ch \<Rightarrow> if ch = CHR ''.'' then x else Some (Ret (False, m)) | _ \<Rightarrow> Some SegFault)"
  obtains (found) m' where "r = Some (Ret (True, m'))" and "open_path (dots maze) p t"
  | (not_found) m' where "r = Some (Ret (False, m'))" and "swept maze p t m'" and "n \<notin> dots m'"
      and "dots m' \<subseteq> dots m"
proof -
  have "maze_at m (fst n) (snd n) \<noteq> SegFault"
    using ok n sw maze_at_shape [of m maze] by (auto simp: inside_def swept_def)
  then obtain ch where ch: "maze_at m (fst n) (snd n) = Ret ch" by (auto simp: maze_at_def split: if_splits)
  show thesis
  proof (cases "ch = CHR ''.''")
    case False
    with ch have "n \<notin> dots m" by (cases n) (auto simp: dots_def)
    with r ch False sw show thesis by (intro not_found [of m]) auto
  next
    case True
    with ch have nd: "n \<in> dots m" by (cases n) (auto simp: dots_def)
    with rec obtain b m' where f: "x = Some (Ret (b, m'))"
      and fb: "if b then open_path (dots m) n t else swept m n t m' \<and> (\<forall>q. adjacent n q \<longrightarrow> q \<notin> dots m')"
      unfolding searched_def by blast
    have sub: "dots m \<subseteq> dots maze - {p}" using sw by (simp add: swept_def)
    show thesis
    proof (cases b)
      case True
      then have "open_path (dots maze) n t" using fb sub open_path_mono [of "dots m" n t "dots maze"] by auto
      then have "open_path (dots maze) p t" using n nd sub open_path_step by blast
      with f r ch True \<open>ch = CHR ''.''\<close> show thesis by (intro found [of m']) auto
    next
      case False
      with fb have s': "swept m n t m'" and nb: "\<forall>q. adjacent n q \<longrightarrow> q \<notin> dots m'" by simp_all
      then have "swept maze p t m'" using sw sub nd
        unfolding swept_def by (smt (verit) Diff_iff insert_iff subset_iff empty_iff)
      moreover have "n \<notin> dots m'" "dots m' \<subseteq> dots m" using s' by (auto simp: swept_def)
      ultimately show thesis using f r ch False \<open>ch = CHR ''.''\<close> by (intro not_found [of m']) auto
    qed
  qed
qed

lemma searched_or_else:
  assumes sw: "swept maze p t m" and n: "adjacent p (r, c)" and ok: "inside maze p"
    and rec: "(r, c) \<in> dots m \<Longrightarrow> searched m (r, c) t x"
    and k: "\<And>m'. swept maze p t m' \<Longrightarrow> (r, c) \<notin> dots m' \<Longrightarrow> dots m' \<subseteq> dots m \<Longrightarrow> searched maze p t (k m')"
  shows "searched maze p t (or_else (case maze_at m r c of
      Ret ch \<Rightarrow> if ch = CHR ''.'' then x else Some (Ret (False, m)) | _ \<Rightarrow> Some SegFault) k)"
    (is "searched _ _ _ (or_else ?r k)")
proof (rule swept_attempt [OF sw n ok rec, where r = ?r])
  show ?thesis if "?r = Some (Ret (True, m'))" "open_path (dots maze) p t" for m'
    unfolding that(1) using that(2) by (auto simp: searched_def)
  show ?thesis if "?r = Some (Ret (False, m'))" "swept maze p t m'" "(r, c) \<notin> dots m'" "dots m' \<subseteq> dots m" for m'
    unfolding that(1) using that(2-) k by simp
qed simp_all

lemma canWeFinish_searched:
  assumes "inside maze (sr, sc)" and "\<forall>q \<in> dots maze. inside maze q"
  shows "searched maze (sr, sc) (er, ec) (canWeFinish maze nRows nCols sr sc er ec)"
  using assms
proof (induction "card (dots maze - {(sr, sc)})" arbitrary: maze sr sc rule: less_induct)
  case less
  let ?p = "(sr, sc)" and ?t = "(er, ec)"
  obtain m1 where m1: "drop_crumb maze sr sc = Ret m1" "dots m1 = dots maze - {?p}" "map length m1 = map length maze"
    using drop_crumb_Ret [OF less.prems(1)] by auto
  show ?case
  proof (cases "?t = ?p")
    case True
    with m1 show ?thesis by (subst canWeFinish.simps) (auto simp: searched_def open_path_def)
  next
    case False
    have rec: "searched m (r, c) ?t (canWeFinish m nRows nCols r c er ec)"
      if sw: "swept maze ?p ?t m" and n: "(r, c) \<in> dots m" for m r c
    proof (rule less.hyps)
      have "dots m \<subseteq> dots maze - {?p}" using sw by (simp add: swept_def)
      then show "card (dots m - {(r, c)}) < card (dots maze - {?p})"
        using n finite_dots [of maze] by (intro psubset_card_mono) auto
      have sh: "map length m = map length maze" using sw by (simp add: swept_def)
      show "inside m (r, c)" "\<forall>q \<in> dots m. inside m q"
        using less.prems(2) n \<open>dots m \<subseteq> dots maze - {?p}\<close> inside_shape [OF sh] by auto
    qed
    have s1: "swept maze ?p ?t m1" using m1 False by (auto simp: swept_def)
    have last: "searched maze ?p ?t (Some (Ret (False, m)))"
      if "swept maze ?p ?t m" "(sr - 1, sc) \<notin> dots m" "(sr + 1, sc) \<notin> dots m" "(sr, sc + 1) \<notin> dots m"
        "(sr, sc - 1) \<notin> dots m" for m
      using that by (auto simp: searched_def adjacent_def)
    show ?thesis
      using False m1(1)
      by (subst canWeFinish.simps) (auto intro!: searched_or_else [OF _ _ less.prems(1)] s1 rec last simp: adjacent_def)
  qed
qed

lemma swept_unreachable:
  assumes sw: "swept maze p t m" and nb: "\<forall>q. adjacent p q \<longrightarrow> q \<notin> dots m"
  shows "\<not> open_path (dots maze) p t"
proof
  assume "open_path (dots maze) p t"
  then have "t \<in> insert p (dots maze - dots m)"
    unfolding open_path_def
  proof (induction rule: rtranclp_induct)
    case (step q q')
    have "q' \<notin> dots m"
    proof (cases "q = p")
      case False
      with step.IH have "q \<in> dots maze - {p} - dots m" by blast
      then show ?thesis using sw step.hyps unfolding swept_def by blast
    qed (use nb step.hyps in blast)
    with step.hyps show ?case by blast
  qed simp
  with sw show False by (auto simp: swept_def)
qed

lemma canWeFinish_exact:
  assumes "inside maze (sr, sc)" and "\<forall>q \<in> dots maze. inside maze q"
  shows "\<exists>m. canWeFinish maze nRows nCols sr sc er ec =
    Some (Ret (open_path (dots maze) (sr, sc) (er, ec), m))"
proof -
  from canWeFinish_searched [OF assms, of er ec nRows nCols] obtain b m
    where r: "canWeFinish maze nRows nCols sr sc er ec = Some (Ret (b, m))"
      and b: "if b then open_path (dots maze) (sr, sc) (er, ec)
        else swept maze (sr, sc) (er, ec) m \<and> (\<forall>q. adjacent (sr, sc) q \<longrightarrow> q \<notin> dots m)"
    unfolding searched_def by blast
  have "b = open_path (dots maze) (sr, sc) (er, ec)"
    using b swept_unreachable [of maze "(sr, sc)" "(er, ec)" m] by (cases b) simp_all
  with r show ?thesis by blast
qed

end
