(* ===== verification/Sensors.thy ===== *)
theory Sensors
  imports Complex_Main "HOL-Library.Multiset" CLib
begin

text \<open>
  The timing program \<open>CS32/Homework 3/sorts.cpp\<close>: sensors, their order, the insertion sort on a
  vector, and \<open>main\<close>, which sorts the same sensors in four ways and checks every result with
  \<open>assert\<close>. The sort of the C++ library is a parameter. The averages are computed over the
  reals: sums of 150 numbers below 100 are exact in a \<open>double\<close>, and their quotients by 150 are
  farther apart than its rounding. Ids are \<open>int\<close> values; the indices of the loops over the
  vectors, also \<open>int\<close> in the source, are natural numbers here, which is the same for fewer than
  \<open>2 ^ 31\<close> sensors.
\<close>

subsection \<open>Sensors and their order\<close>

definition NREADINGS :: nat where
  "NREADINGS = 150"

record Sensor =
  sensor_id :: int
  avg :: real
  readings :: "real list"

text \<open>The constructor, with the numbers that \<open>rand\<close> returns.\<close>

definition new_Sensor :: "(nat \<Rightarrow> int) \<Rightarrow> int \<Rightarrow> Sensor" where
  "new_Sensor rnd i =
     (let rs = map (\<lambda>k. real_of_int (c_mod (rnd k) 100)) [0..<NREADINGS] in
      \<lparr>sensor_id = i, avg = sum_list rs / real NREADINGS, readings = rs\<rparr>)"

definition compareSensor :: "Sensor \<Rightarrow> Sensor \<Rightarrow> bool" where
  "compareSensor lhs rhs =
     (if avg lhs > avg rhs then True
      else if avg lhs < avg rhs then False
      else sensor_id lhs < sensor_id rhs)"

text \<open>Pointers into a vector are its indices.\<close>

definition compareSensorPtr :: "Sensor list \<Rightarrow> nat \<Rightarrow> nat \<Rightarrow> bool" where
  "compareSensorPtr v lhs rhs = compareSensor (v ! lhs) (v ! rhs)"

function isSorted_from :: "nat \<Rightarrow> Sensor list \<Rightarrow> bool" where
  "isSorted_from k s =
     (if k < length s then (if compareSensor (s ! k) (s ! (k - 1)) then False else isSorted_from (Suc k) s) else True)"
  by pat_completeness auto
termination
  by (relation "measure (\<lambda>(k, s). length s - k)") auto

definition isSorted :: "Sensor list \<Rightarrow> bool" where
  "isSorted s = isSorted_from 1 s"

subsection \<open>Insertion sort\<close>

fun shift_right :: "('a \<Rightarrow> 'a \<Rightarrow> bool) \<Rightarrow> 'a \<Rightarrow> 'a list \<Rightarrow> nat \<Rightarrow> 'a list" where
  "shift_right cmp nextItem s loc =
     (if 0 < loc \<and> \<not> cmp (s ! (loc - 1)) nextItem
      then shift_right cmp nextItem (s[loc := s ! (loc - 1)]) (loc - 1)
      else s[loc := nextItem])"

declare isSorted_from.simps [simp del] shift_right.simps [simp del]

lemma length_shift_right [simp]: "length (shift_right cmp x s loc) = length s"
proof (induction cmp x s loc rule: shift_right.induct)
  case (1 cmp x s loc)
  then show ?case by (subst shift_right.simps) simp
qed

function insert_unsorted :: "('a \<Rightarrow> 'a \<Rightarrow> bool) \<Rightarrow> 'a list \<Rightarrow> nat \<Rightarrow> 'a list" where
  "insert_unsorted cmp s unsorted =
     (if unsorted < length s
      then insert_unsorted cmp (shift_right cmp (s ! unsorted) s unsorted) (Suc unsorted) else s)"
  by pat_completeness auto
termination
  by (relation "measure (\<lambda>(cmp, s, k). length s - k)") auto

declare insert_unsorted.simps [simp del]

definition insertion_sort :: "('a \<Rightarrow> 'a \<Rightarrow> bool) \<Rightarrow> 'a list \<Rightarrow> 'a list" where
  "insertion_sort cmp s = insert_unsorted cmp s 1"

subsection \<open>The program\<close>

text \<open>What a report shows of the sensors; the elapsed time is left out.\<close>

definition report :: "Sensor list \<Rightarrow> (int \<times> real) list" where
  "report s = map (\<lambda>x. (sensor_id x, avg x)) (take 5 s)"

definition assert_sorted :: "Sensor list \<Rightarrow> (int \<times> real) list outcome" where
  "assert_sorted s = (if isSorted s then Ret (report s) else Abort)"

text \<open>
  \<open>nsensors\<close> is \<open>None\<close> when the input is not a number. The standard sort and the insertion sort
  run on the shuffled sensors and again on their result, the sort through pointers once. The shuffle, the two uses of \<open>std::sort\<close>
  and the random readings of each sensor are arguments.
\<close>

definition sort_pointers :: "((nat \<Rightarrow> nat \<Rightarrow> bool) \<Rightarrow> nat list \<Rightarrow> nat list) \<Rightarrow> Sensor list \<Rightarrow> Sensor list" where
  "sort_pointers stl_sort_ptr sensors =
     (let auxSensors = sensors;
          auxSensorPtrs = stl_sort_ptr (compareSensorPtr auxSensors) [0..<length auxSensors] in
      map (\<lambda>p. auxSensors ! p) auxSensorPtrs)"

definition sorts_main :: "nat option \<Rightarrow> (int list \<Rightarrow> int list) \<Rightarrow>
    ((Sensor \<Rightarrow> Sensor \<Rightarrow> bool) \<Rightarrow> Sensor list \<Rightarrow> Sensor list) \<Rightarrow>
    ((nat \<Rightarrow> nat \<Rightarrow> bool) \<Rightarrow> nat list \<Rightarrow> nat list) \<Rightarrow> (nat \<Rightarrow> nat \<Rightarrow> int) \<Rightarrow> (int \<times> real) list list outcome" where
  "sorts_main nsensors random_shuffle stl_sort stl_sort_ptr rnd =
     (case nsensors of None \<Rightarrow> Exit 1 | Some n \<Rightarrow>
      if n = 0 then Exit 1
      else
        let ids = random_shuffle (map (\<lambda>j. to_int32 (int j)) [0..<n]);
            unorderedSensors = map (\<lambda>k. new_Sensor (rnd k) (ids ! k)) [0..<length ids];
            s1 = stl_sort compareSensor unorderedSensors in
        obind (assert_sorted s1) (\<lambda>r1.
        let s2 = stl_sort compareSensor s1 in
        obind (assert_sorted s2) (\<lambda>r2.
        let s3 = insertion_sort compareSensor unorderedSensors in
        obind (assert_sorted s3) (\<lambda>r3.
        let s4 = insertion_sort compareSensor s3 in
        obind (assert_sorted s4) (\<lambda>r4.
        let s5 = sort_pointers stl_sort_ptr unorderedSensors in
        obind (assert_sorted s5) (\<lambda>r5. Ret [r1, r2, r3, r4, r5]))))))"

subsection \<open>Insertion from the right\<close>

function insert_back :: "('a \<Rightarrow> 'a \<Rightarrow> bool) \<Rightarrow> 'a \<Rightarrow> 'a list \<Rightarrow> 'a list" where
  "insert_back cmp x xs =
     (if xs = [] \<or> cmp (last xs) x then xs @ [x] else insert_back cmp x (butlast xs) @ [last xs])"
  by pat_completeness auto
termination
  by (relation "measure (\<lambda>(cmp, x, xs). length xs)") auto

declare insert_back.simps [simp del]

lemma insert_back_simps [simp]:
  "insert_back cmp x [] = [x]"
  "insert_back cmp x (xs @ [y]) = (if cmp y x then xs @ [y, x] else insert_back cmp x xs @ [y])"
  by (simp_all add: insert_back.simps [of cmp x "[]"] insert_back.simps [of cmp x "xs @ [y]"])

lemma shift_right_insert: "shift_right cmp x (xs @ z # ys) (length xs) = insert_back cmp x xs @ ys"
proof (induction xs arbitrary: z ys rule: rev_induct)
  case Nil
  then show ?case by (simp add: shift_right.simps)
next
  case (snoc y xs)
  show ?case
  proof (cases "cmp y x")
    case True
    then show ?thesis by (simp add: shift_right.simps [of cmp x "xs @ y # z # ys"] nth_append list_update_append)
  next
    case False
    then have "shift_right cmp x (xs @ y # z # ys) (Suc (length xs)) = shift_right cmp x (xs @ y # y # ys) (length xs)"
      by (subst shift_right.simps) (simp add: nth_append list_update_append)
    with False snoc show ?thesis by simp
  qed
qed

lemma mset_insert_back [simp]: "mset (insert_back cmp x xs) = add_mset x (mset xs)"
  by (induction xs rule: rev_induct) auto

lemma length_insert_back [simp]: "length (insert_back cmp x xs) = Suc (length xs)"
  by (metis mset_insert_back size_add_mset size_mset)

lemma insert_unsorted_foldl:
  "insert_unsorted cmp (xs @ ys) (length xs) = foldl (\<lambda>s x. insert_back cmp x s) xs ys"
proof (induction ys arbitrary: xs)
  case (Cons y ys)
  have "insert_unsorted cmp (xs @ y # ys) (length xs) =
      insert_unsorted cmp (insert_back cmp y xs @ ys) (length (insert_back cmp y xs))"
    by (subst insert_unsorted.simps) (simp add: shift_right_insert nth_append)
  with Cons.IH [of "insert_back cmp y xs"] show ?case by simp
qed (simp add: insert_unsorted.simps)

lemma insertion_sort_foldl: "insertion_sort cmp s = foldl (\<lambda>s x. insert_back cmp x s) [] s"
proof (cases s)
  case (Cons x xs)
  then show ?thesis
    using insert_unsorted_foldl [of cmp "[x]" xs] by (simp add: insertion_sort_def)
qed (simp add: insertion_sort_def insert_unsorted.simps)

lemma mset_foldl_insert_back: "mset (foldl (\<lambda>s x. insert_back cmp x s) acc s) = mset acc + mset s"
  by (induction s arbitrary: acc) auto

lemma mset_insertion_sort: "mset (insertion_sort cmp s) = mset s"
  by (simp add: insertion_sort_foldl mset_foldl_insert_back)

subsection \<open>Comparators\<close>

text \<open>What \<open>insertion_sort\<close> and \<open>std::sort\<close> ask of a comparison: a strict weak order.\<close>

locale comparator =
  fixes cmp :: "'a \<Rightarrow> 'a \<Rightarrow> bool"
  assumes asym: "cmp a b \<Longrightarrow> \<not> cmp b a"
    and weak: "cmp a c \<Longrightarrow> cmp a b \<or> cmp b c"
begin

abbreviation in_order :: "'a list \<Rightarrow> bool" where
  "in_order \<equiv> sorted_wrt (\<lambda>a b. \<not> cmp b a)"

lemma not_cmp_trans: "\<not> cmp b a \<Longrightarrow> \<not> cmp c b \<Longrightarrow> \<not> cmp c a"
  using weak by blast

lemma in_order_insert_back: "in_order xs \<Longrightarrow> in_order (insert_back cmp x xs)"
proof (induction xs rule: rev_induct)
  case (snoc y xs)
  have set: "set (insert_back cmp x xs) = insert x (set xs)"
    by (metis mset_insert_back set_mset_add_mset_insert set_mset_mset)
  from snoc.prems have xs: "in_order xs" "\<forall>a \<in> set xs. \<not> cmp y a" by (simp_all add: sorted_wrt_append)
  show ?case
  proof (cases "cmp y x")
    case True
    then have "\<not> cmp x y" by (rule asym)
    with xs snoc.prems True show ?thesis
      by (auto simp: sorted_wrt_append dest: weak [of x _ y])
  next
    case False
    with snoc.IH [OF xs(1)] xs show ?thesis by (simp add: sorted_wrt_append set)
  qed
qed simp

lemma in_order_insertion_sort: "in_order (insertion_sort cmp s)"
proof -
  have "in_order acc \<Longrightarrow> in_order (foldl (\<lambda>s x. insert_back cmp x s) acc s)" for acc
    by (induction s arbitrary: acc) (auto intro: in_order_insert_back)
  then show ?thesis by (simp add: insertion_sort_foldl)
qed

text \<open>Two arrangements in order of the same elements agree when no two of them tie.\<close>

lemma in_order_unique:
  assumes "in_order xs" and "in_order ys" and "mset xs = mset ys"
    and "\<And>a b. a \<in> set xs \<Longrightarrow> b \<in> set xs \<Longrightarrow> \<not> cmp a b \<Longrightarrow> \<not> cmp b a \<Longrightarrow> a = b"
  shows "xs = ys"
  using assms
proof (induction xs arbitrary: ys)
  case (Cons x xs)
  then obtain y ys' where ys: "ys = y # ys'" by (cases ys) auto
  have "x \<in> set ys" "y \<in> set (x # xs)"
    using Cons.prems(3) ys by (metis list.set_intros(1) set_mset_mset)+
  then have "x = y \<or> \<not> cmp x y \<and> \<not> cmp y x" using Cons.prems(1,2) ys by auto
  then have xy: "x = y" using Cons.prems(4) [of x y] \<open>y \<in> set (x # xs)\<close> by auto
  with Cons ys show ?case by (auto intro!: Cons.IH)
qed simp

end

lemma isSorted_from_iff:
  "isSorted_from k s \<longleftrightarrow> (\<forall>i. k \<le> i \<and> i < length s \<longrightarrow> \<not> compareSensor (s ! i) (s ! (i - 1)))"
proof (induction k s rule: isSorted_from.induct)
  case (1 k s)
  have "(\<forall>i. k \<le> i \<and> i < length s \<longrightarrow> P i) \<longleftrightarrow> P k \<and> (\<forall>i. Suc k \<le> i \<and> i < length s \<longrightarrow> P i)"
    if "k < length s" for P
    using that by (metis Suc_leD Suc_leI le_antisym linorder_not_le order_refl)
  with 1 show ?case by (subst isSorted_from.simps) auto
qed

lemma compareSensor_asym: "compareSensor a b \<Longrightarrow> \<not> compareSensor b a"
  by (auto simp: compareSensor_def split: if_splits)

lemma compareSensor_weak: "compareSensor a c \<Longrightarrow> compareSensor a b \<or> compareSensor b c"
  by (auto simp: compareSensor_def split: if_splits)

interpretation sensors: comparator compareSensor
  by unfold_locales (fact compareSensor_asym, fact compareSensor_weak)

lemma isSorted_iff: "isSorted s \<longleftrightarrow> sorted_wrt (\<lambda>a b. \<not> compareSensor b a) s"
proof
  assume "isSorted s"
  then have step: "\<not> compareSensor (s ! Suc i) (s ! i)" if "Suc i < length s" for i
    using that by (force simp: isSorted_def isSorted_from_iff)
  have "transp (\<lambda>a b. \<not> compareSensor b a)" using sensors.not_cmp_trans by (blast intro: transpI)
  with step show "sorted_wrt (\<lambda>a b. \<not> compareSensor b a) s" by (simp add: sorted_wrt_iff_nth_Suc_transp)
next
  assume "sorted_wrt (\<lambda>a b. \<not> compareSensor b a) s"
  then show "isSorted s" by (auto simp: isSorted_def isSorted_from_iff sorted_wrt_iff_nth_less)
qed

interpretation sensor_ptrs: comparator "compareSensorPtr v" for v
  by unfold_locales (auto simp: compareSensorPtr_def dest: compareSensor_asym compareSensor_weak)

lemma insertion_sort_sorts:
  shows "isSorted (insertion_sort compareSensor s)" and "mset (insertion_sort compareSensor s) = mset s"
  by (simp_all add: isSorted_iff sensors.in_order_insertion_sort mset_insertion_sort)

subsection \<open>The whole program\<close>

text \<open>What the standard promises of \<open>std::sort\<close> for a strict weak order.\<close>

definition sorts_by :: "(('a \<Rightarrow> 'a \<Rightarrow> bool) \<Rightarrow> 'a list \<Rightarrow> 'a list) \<Rightarrow> bool" where
  "sorts_by srt \<longleftrightarrow> (\<forall>cmp xs. comparator cmp \<longrightarrow>
     mset (srt cmp xs) = mset xs \<and> sorted_wrt (\<lambda>a b. \<not> cmp b a) (srt cmp xs))"

lemma insertion_sort_sorts_by: "sorts_by insertion_sort"
  unfolding sorts_by_def by (auto intro: comparator.in_order_insertion_sort mset_insertion_sort)

lemma sort_pointers_sorts:
  assumes "sorts_by stl_sort_ptr"
  shows "isSorted (sort_pointers stl_sort_ptr s)" and "mset (sort_pointers stl_sort_ptr s) = mset s"
proof -
  let ?ptrs = "stl_sort_ptr (compareSensorPtr s) [0..<length s]"
  have p: "mset ?ptrs = mset [0..<length s]" "sorted_wrt (\<lambda>a b. \<not> compareSensorPtr s b a) ?ptrs"
    using assms sensor_ptrs.comparator_axioms by (auto simp: sorts_by_def)
  show "isSorted (sort_pointers stl_sort_ptr s)"
    using p(2) by (simp add: isSorted_iff sort_pointers_def Let_def sorted_wrt_map compareSensorPtr_def)
  have "mset (sort_pointers stl_sort_ptr s) = image_mset (\<lambda>p. s ! p) (mset ?ptrs)"
    by (simp add: sort_pointers_def Let_def)
  also have "\<dots> = mset (map (\<lambda>p. s ! p) [0..<length s])" using p(1) by simp
  also have "\<dots> = mset s" by (simp add: map_nth)
  finally show "mset (sort_pointers stl_sort_ptr s) = mset s" .
qed

lemma sensors_no_tie:
  "\<not> compareSensor a b \<Longrightarrow> \<not> compareSensor b a \<Longrightarrow> sensor_id a = sensor_id b"
  by (auto simp: compareSensor_def split: if_splits)

text \<open>Sensors with distinct ids have exactly one arrangement in order.\<close>

lemma isSorted_unique:
  assumes "isSorted xs" and "isSorted ys" and "mset xs = mset ys" and "distinct (map sensor_id xs)"
  shows "xs = ys"
proof (rule sensors.in_order_unique)
  show "a = b" if "a \<in> set xs" "b \<in> set xs" "\<not> compareSensor a b" "\<not> compareSensor b a" for a b
  proof -
    have "sensor_id a = sensor_id b" using that(3,4) by (rule sensors_no_tie)
    then show ?thesis using assms(4) that(1,2) by (simp add: distinct_map inj_on_def)
  qed
qed (use assms in \<open>simp_all add: isSorted_iff\<close>)

lemma sensors_of_ids:
  assumes "mset (random_shuffle (map int [0..<n])) = mset (map int [0..<n])"
  defines "ids \<equiv> random_shuffle (map int [0..<n])"
  shows "distinct (map sensor_id (map (\<lambda>k. new_Sensor (rnd k) (ids ! k)) [0..<length ids]))"
proof -
  have "map sensor_id (map (\<lambda>k. new_Sensor (rnd k) (ids ! k)) [0..<length ids]) = ids"
    by (simp add: new_Sensor_def Let_def o_def map_nth)
  moreover have "distinct ids"
    unfolding ids_def by (simp add: mset_eq_imp_distinct_iff [OF assms(1)] distinct_map)
  ultimately show ?thesis by simp
qed

lemma sorts_main_agree:
  assumes sh: "mset (random_shuffle (map int [0..<n])) = mset (map int [0..<n])"
    and "sorts_by stl_sort" and "sorts_by stl_sort_ptr" and "0 < n" and "n < 2 ^ 31"
  shows "\<exists>s. isSorted s \<and> length s = n \<and> mset (map sensor_id s) = mset (map int [0..<n]) \<and>
    mset s = mset (map (\<lambda>k. new_Sensor (rnd k) (random_shuffle (map int [0..<n]) ! k)) [0..<n]) \<and>
    sorts_main (Some n) random_shuffle stl_sort stl_sort_ptr rnd = Ret (replicate 5 (report s))"
proof -
  define ids where "ids = random_shuffle (map int [0..<n])"
  define u where "u = map (\<lambda>k. new_Sensor (rnd k) (ids ! k)) [0..<length ids]"
  let ?s = "insertion_sort compareSensor u"
  have d: "distinct (map sensor_id u)" unfolding u_def ids_def using sh by (rule sensors_of_ids)
  have stl: "isSorted (stl_sort compareSensor v)" "mset (stl_sort compareSensor v) = mset v" for v
    using assms(2) sensors.comparator_axioms by (auto simp: sorts_by_def isSorted_iff)
  have ds: "distinct (map sensor_id ?s)"
    using d by (metis insertion_sort_sorts(2) mset_eq_imp_distinct_iff mset_map)
  have eq: "v = ?s" if "isSorted v" "mset v = mset u" for v
    using isSorted_unique [OF insertion_sort_sorts(1) that(1) _ ds] that(2) by (simp add: insertion_sort_sorts(2))
  have 1: "stl_sort compareSensor u = ?s" by (rule eq) (simp_all add: stl)
  have 2: "stl_sort compareSensor ?s = ?s" by (rule eq) (simp_all add: stl insertion_sort_sorts)
  have 3: "insertion_sort compareSensor ?s = ?s" by (rule eq) (simp_all add: insertion_sort_sorts)
  have 4: "sort_pointers stl_sort_ptr u = ?s" by (rule eq) (simp_all add: sort_pointers_sorts [OF assms(3)])
  have ids: "map sensor_id u = ids" by (simp add: u_def new_Sensor_def Let_def o_def map_nth)
  have len: "length ids = n" using sh by (metis ids_def length_map length_upt minus_nat.diff_0 size_mset)
  have m: "mset (map sensor_id ?s) = mset (map int [0..<n])"
    using sh ids insertion_sort_sorts(2) [of u] by (metis ids_def mset_map)
  have "length ?s = n" using m by (metis length_map length_upt minus_nat.diff_0 size_mset)
  moreover have "map (\<lambda>j. to_int32 (int j)) [0..<n] = map int [0..<n]"
  proof (intro map_cong refl to_int32_id)
    fix j assume "j \<in> set [0..<n]"
    then have "int j < int n" by simp
    also have "int n < 2 ^ 31" using assms(5) by (metis of_nat_less_iff of_nat_numeral of_nat_power)
    finally show "int j < 2 ^ 31" .
  qed simp
  then have ids': "random_shuffle (map (\<lambda>j. to_int32 (int j)) [0..<n]) = ids" by (simp only: ids_def)
  have ok: "isSorted ?s" by (rule insertion_sort_sorts(1))
  have "sorts_main (Some n) random_shuffle stl_sort stl_sort_ptr rnd = Ret (replicate 5 (report ?s))"
    unfolding sorts_main_def option.case ids' Let_def u_def [symmetric]
    using assms(4) by (simp add: 1 2 3 4 ok assert_sorted_def numeral_eq_Suc)
  moreover have "mset ?s = mset (map (\<lambda>k. new_Sensor (rnd k) (random_shuffle (map int [0..<n]) ! k)) [0..<n])"
    using len by (simp add: insertion_sort_sorts(2) u_def ids_def)
  ultimately show ?thesis using m insertion_sort_sorts(1) by blast
qed

end
