(* ===== verification/WordTree.thy ===== *)
theory WordTree
  imports CLib
begin

text \<open>
  The search tree of words with their counts of \<open>CS32/Homework 4/WordTree.cpp\<close>. The nodes of
  a tree belong to one object and are reached from its root only, so a tree is a value; the
  assignment operator, which may get the same object twice, works on named objects.
  \<open>std::string\<close> compares characters as unsigned numbers, as \<open><\<close> on strings does here.
\<close>

subsection \<open>Nodes and operations\<close>

datatype word_node =
  Null
| WordNode (m_data: string) (m_count: int) (m_left: word_node) (m_right: word_node)

fun add_loop :: "string \<Rightarrow> int \<Rightarrow> word_node \<Rightarrow> word_node" where
  "add_loop v count Null = Null"
| "add_loop v count (WordNode d c l r) =
     (if v = d then WordNode d (c + 1) l r
      else if v < d
      then (if l = Null then WordNode d c (WordNode v count Null Null) r
            else WordNode d c (add_loop v count l) r)
      else (if r = Null then WordNode d c l (WordNode v count Null Null)
            else WordNode d c l (add_loop v count r)))"

definition add_word :: "string \<Rightarrow> int \<Rightarrow> word_node \<Rightarrow> word_node" where
  "add_word v count root =
     (if root = Null then WordNode v count Null Null
      else if m_data root = v then WordNode (m_data root) (m_count root + 1) (m_left root) (m_right root)
      else add_loop v count root)"

text \<open>\<open>distinctWordsAux\<close> divides every count by itself.\<close>

fun distinctWordsAux :: "word_node \<Rightarrow> int \<Rightarrow> int outcome" where
  "distinctWordsAux Null count = Ret count"
| "distinctWordsAux (WordNode d c l r) count =
     obind (distinctWordsAux l count) (\<lambda>count.
     if c = 0 then DivFault else distinctWordsAux r (count + c_div c c))"

definition distinctWords :: "word_node \<Rightarrow> int outcome" where
  "distinctWords root = distinctWordsAux root 0"

fun totalWordsAux :: "word_node \<Rightarrow> int \<Rightarrow> int" where
  "totalWordsAux Null totalCount = totalCount"
| "totalWordsAux (WordNode d c l r) totalCount = totalWordsAux r (totalWordsAux l totalCount + c)"

definition totalWords :: "word_node \<Rightarrow> int" where
  "totalWords root = totalWordsAux root 0"

fun printInOrder :: "string list \<Rightarrow> word_node \<Rightarrow> string list" where
  "printInOrder out Null = out"
| "printInOrder out (WordNode d c l r) = printInOrder (printInOrder out l @ [d @ '' '' @ fmt_d c]) r"

fun copyAux :: "word_node \<Rightarrow> word_node \<Rightarrow> word_node" where
  "copyAux Null src = src"
| "copyAux (WordNode d c l r) src = copyAux r (add_word d c (copyAux l src))"

definition copy_tree :: "word_node \<Rightarrow> word_node" where
  "copy_tree rhs = (if rhs = Null then Null else copyAux rhs Null)"

text \<open>The words of the nodes in the order in which they are freed.\<close>

fun destructorAux :: "word_node \<Rightarrow> string list" where
  "destructorAux Null = []"
| "destructorAux (WordNode d c l r) = destructorAux l @ destructorAux r @ [d]"

text \<open>The root of \<open>rhs\<close> is read after the root of \<open>this\<close> has been cleared.\<close>

definition assign_tree :: "'o \<Rightarrow> 'o \<Rightarrow> ('o \<Rightarrow> word_node) \<Rightarrow> ('o \<Rightarrow> word_node)" where
  "assign_tree this rhs objs =
     (let objs = objs(this := Null); cur = objs rhs in objs(this := copyAux cur (objs this)))"

subsection \<open>The order of the nodes\<close>

fun words_of :: "word_node \<Rightarrow> (string \<times> int) list" where
  "words_of Null = []"
| "words_of (WordNode d c l r) = words_of l @ (d, c) # words_of r"

definition search_tree :: "word_node \<Rightarrow> bool" where
  "search_tree t \<longleftrightarrow> sorted_wrt (<) (map fst (words_of t))"

abbreviation count_of :: "word_node \<Rightarrow> string \<rightharpoonup> int" where
  "count_of t \<equiv> map_of (words_of t)"

lemma search_tree_simps [simp]:
  "search_tree Null"
  "search_tree (WordNode d c l r) \<longleftrightarrow> search_tree l \<and> search_tree r \<and>
     (\<forall>x \<in> fst ` set (words_of l). x < d) \<and> (\<forall>x \<in> fst ` set (words_of r). d < x)"
  by (auto simp: search_tree_def sorted_wrt_append) (force dest: less_trans)+

lemma add_loop_words:
  "t \<noteq> Null \<Longrightarrow> fst ` set (words_of (add_loop v count t)) = insert v (fst ` set (words_of t))"
  by (induction t) auto

lemma add_loop_search_tree: "t \<noteq> Null \<Longrightarrow> search_tree t \<Longrightarrow> search_tree (add_loop v count t)"
proof (induction t)
  case (WordNode d c l r)
  then show ?case
    by (cases "l = Null"; cases "r = Null") (auto simp: add_loop_words not_less_iff_gr_or_eq)
qed simp

lemma count_of_node:
  assumes "search_tree (WordNode d c l r)"
  shows "count_of (WordNode d c l r) x =
    (if x = d then Some c else if x < d then count_of l x else count_of r x)"
proof -
  have "count_of l x = None" if "d \<le> x"
    using assms that by (auto simp: map_of_eq_None_iff)
  moreover have "count_of r x = None" if "x \<le> d"
    using assms that by (auto simp: map_of_eq_None_iff)
  ultimately show ?thesis by (auto simp: map_add_def split: option.split)
qed

definition counted :: "int option \<Rightarrow> int \<Rightarrow> int" where
  "counted old count = (case old of None \<Rightarrow> count | Some k \<Rightarrow> k + 1)"

text \<open>The step of the loop into a child, or the new node in its place.\<close>

definition add_child :: "string \<Rightarrow> int \<Rightarrow> word_node \<Rightarrow> word_node" where
  "add_child v count t = (if t = Null then WordNode v count Null Null else add_loop v count t)"

lemma add_loop_node:
  "add_loop v count (WordNode d c l r) =
     (if v = d then WordNode d (c + 1) l r
      else if v < d then WordNode d c (add_child v count l) r else WordNode d c l (add_child v count r))"
  by (simp add: add_child_def)

lemma count_of_update_node:
  assumes "search_tree (WordNode d c l r)" and "search_tree (WordNode d c' l' r')"
    and "v < d \<Longrightarrow> c' = c \<and> r' = r \<and> count_of l' = (count_of l)(v \<mapsto> counted (count_of l v) count)"
    and "d < v \<Longrightarrow> c' = c \<and> l' = l \<and> count_of r' = (count_of r)(v \<mapsto> counted (count_of r v) count)"
    and "v = d \<Longrightarrow> c' = c + 1 \<and> l' = l \<and> r' = r"
  shows "count_of (WordNode d c' l' r') =
    (count_of (WordNode d c l r))(v \<mapsto> counted (count_of (WordNode d c l r) v) count)"
proof
  fix x
  show "count_of (WordNode d c' l' r') x =
    ((count_of (WordNode d c l r))(v \<mapsto> counted (count_of (WordNode d c l r) v) count)) x"
    unfolding fun_upd_apply count_of_node [OF assms(1)] count_of_node [OF assms(2)]
    using assms(3-5) by (cases v d rule: linorder_cases) (auto simp: counted_def)
qed

lemma count_of_add_loop:
  "t \<noteq> Null \<Longrightarrow> search_tree t \<Longrightarrow>
    count_of (add_loop v count t) = (count_of t)(v \<mapsto> counted (count_of t v) count)"
proof (induction t)
  case (WordNode d c l r)
  have child: "count_of (add_child v count t) = (count_of t)(v \<mapsto> counted (count_of t v) count)"
    if "t \<noteq> Null \<Longrightarrow> count_of (add_loop v count t) = (count_of t)(v \<mapsto> counted (count_of t v) count)" for t
    using that by (cases "t = Null") (simp_all add: add_child_def counted_def)
  define c' where "c' = (if v = d then c + 1 else c)"
  define l' where "l' = (if v < d then add_child v count l else l)"
  define r' where "r' = (if d < v then add_child v count r else r)"
  have eq: "add_loop v count (WordNode d c l r) = WordNode d c' l' r'"
    unfolding add_loop_node by (auto simp: c'_def l'_def r'_def not_less_iff_gr_or_eq)
  have st: "search_tree (add_loop v count (WordNode d c l r))"
    using WordNode.prems by (intro add_loop_search_tree) auto
  have "search_tree l" "search_tree r" using WordNode.prems by simp_all
  then have l: "count_of (add_child v count l) = (count_of l)(v \<mapsto> counted (count_of l v) count)"
    and r: "count_of (add_child v count r) = (count_of r)(v \<mapsto> counted (count_of r v) count)"
    using WordNode.IH child by blast+
  show ?case
    unfolding eq using WordNode.prems(2) st [unfolded eq]
    by (rule count_of_update_node) (auto simp: c'_def l'_def r'_def l r simp del: fun_upd_apply)
qed simp

lemma add_word_eq: "root \<noteq> Null \<Longrightarrow> add_word v count root = add_loop v count root"
  by (cases root) (auto simp: add_word_def)

lemma search_tree_add_word: "search_tree t \<Longrightarrow> search_tree (add_word v count t)"
  by (cases "t = Null") (simp_all add: add_word_eq add_loop_search_tree, simp add: add_word_def)

lemma count_of_add_word:
  "search_tree t \<Longrightarrow> count_of (add_word v count t) = (count_of t)(v \<mapsto> counted (count_of t v) count)"
  by (cases "t = Null") (simp_all add: add_word_eq count_of_add_loop, simp add: add_word_def counted_def)

subsection \<open>Counting and printing\<close>

lemma distinctWordsAux_eq:
  "\<forall>c \<in> snd ` set (words_of t). c \<noteq> 0 \<Longrightarrow> distinctWordsAux t n = Ret (n + int (length (words_of t)))"
  by (induction t arbitrary: n) (auto simp: c_div_def sgn_if)

lemma totalWordsAux_eq: "totalWordsAux t n = n + sum_list (map snd (words_of t))"
  by (induction t arbitrary: n) auto

lemma printInOrder_eq:
  "printInOrder out t = out @ map (\<lambda>(w, c). w @ '' '' @ fmt_d c) (words_of t)"
  by (induction t arbitrary: out) auto

text \<open>The tree after the words of a text have been added one by one with the default count.\<close>

definition add_all :: "string list \<Rightarrow> word_node" where
  "add_all ws = foldl (\<lambda>t w. add_word w 1 t) Null ws"

lemma add_all_snoc [simp]: "add_all (ws @ [w]) = add_word w 1 (add_all ws)" "add_all [] = Null"
  by (simp_all add: add_all_def)

lemma search_tree_add_all: "search_tree (add_all ws)"
  by (induction ws rule: rev_induct) (simp_all add: search_tree_add_word)

lemma count_of_add_all:
  "count_of (add_all ws) = (\<lambda>w. if w \<in> set ws then Some (int (count_list ws w)) else None)"
proof (induction ws rule: rev_induct)
  case (snoc w ws)
  have "count_list ws w = 0" if "w \<notin> set ws" using that by (simp add: count_list_0_iff)
  with snoc show ?case
    by (auto simp: count_of_add_word search_tree_add_all counted_def)
qed (simp add: add_all_def)

lemma words_of_unique:
  assumes "search_tree t"
  shows "words_of t = map (\<lambda>w. (w, the (count_of t w))) (sorted_list_of_set (dom (count_of t)))"
proof -
  have d: "distinct (map fst (words_of t))" and s: "sorted (map fst (words_of t))"
    using assms by (simp_all add: search_tree_def strict_sorted_iff)
  have "map fst (words_of t) = sorted_list_of_set (dom (count_of t))"
    using d s by (simp add: dom_map_of_conv_image_fst flip: set_map) (metis sorted_list_of_set.idem_if_sorted_distinct)
  moreover have "words_of t = map (\<lambda>w. (w, the (count_of t w))) (map fst (words_of t))"
    using d by (auto simp: o_def intro!: map_idI [symmetric])
  ultimately show ?thesis by simp
qed

lemma add_all_words:
  "words_of (add_all ws) = map (\<lambda>w. (w, int (count_list ws w))) (sorted_list_of_set (set ws))"
proof -
  have "dom (\<lambda>w. if w \<in> set ws then Some (int (count_list ws w)) else None) = set ws"
    by (auto simp: dom_def)
  with words_of_unique [OF search_tree_add_all, of ws] show ?thesis
    unfolding count_of_add_all by simp
qed

lemma sum_count_list_set: "sum_list (map (\<lambda>w. int (count_list ws w)) (sorted_list_of_set (set ws))) = int (length ws)"
  by (simp add: sum_list_distinct_conv_sum_set sum_count_set flip: of_nat_sum)

lemma add_all_report:
  "distinctWords (add_all ws) = Ret (int (card (set ws)))"
  "totalWords (add_all ws) = int (length ws)"
  "printInOrder [] (add_all ws) =
     map (\<lambda>w. w @ '' '' @ fmt_d (int (count_list ws w))) (sorted_list_of_set (set ws))"
proof -
  have "\<forall>c \<in> snd ` set (words_of (add_all ws)). c \<noteq> 0"
    by (auto simp: add_all_words count_list_0_iff)
  then show "distinctWords (add_all ws) = Ret (int (card (set ws)))"
    by (simp add: distinctWords_def distinctWordsAux_eq add_all_words)
qed (simp_all add: totalWords_def totalWordsAux_eq add_all_words printInOrder_eq o_def sum_count_list_set)

subsection \<open>Copies\<close>

lemma copyAux_foldl: "copyAux t src = foldl (\<lambda>s (w, c). add_word w c s) src (words_of t)"
  by (induction t arbitrary: src) auto

lemma foldl_add_word:
  assumes "search_tree s" and "distinct (map fst ws)" and "\<forall>x \<in> fst ` set ws. count_of s x = None"
  shows "search_tree (foldl (\<lambda>s (w, c). add_word w c s) s ws) \<and>
    count_of (foldl (\<lambda>s (w, c). add_word w c s) s ws) = count_of s ++ map_of ws"
  using assms
proof (induction ws arbitrary: s)
  case (Cons x ws)
  obtain w c where x: "x = (w, c)" by fastforce
  have none: "count_of s w = None" using Cons.prems x by simp
  have w: "count_of (add_word w c s) = (count_of s)(w \<mapsto> c)" "search_tree (add_word w c s)"
    using Cons.prems none by (simp_all add: count_of_add_word search_tree_add_word counted_def)
  have "\<forall>y \<in> fst ` set ws. count_of (add_word w c s) y = None" using Cons.prems x w by auto
  with Cons.IH [OF w(2)] Cons.prems x w show ?case
    by (auto simp: map_add_def fun_eq_iff dest: map_of_SomeD split: option.splits)
qed simp

lemma copy_tree_words:
  assumes "search_tree t"
  shows "words_of (copy_tree t) = words_of t" and "search_tree (copy_tree t)"
proof -
  have d: "distinct (map fst (words_of t))" using assms by (simp add: search_tree_def strict_sorted_iff)
  have eq: "copy_tree t = foldl (\<lambda>s (w, c). add_word w c s) Null (words_of t)"
    by (simp add: copy_tree_def copyAux_foldl)
  have c: "search_tree (copy_tree t)" "count_of (copy_tree t) = count_of t"
    using foldl_add_word [of Null "words_of t"] d by (simp_all add: eq)
  then show "search_tree (copy_tree t)" by simp
  show "words_of (copy_tree t) = words_of t"
    using words_of_unique [OF assms] words_of_unique [OF c(1)] c(2) by simp
qed

lemma assign_tree_words:
  assumes "\<forall>x. search_tree (objs x)"
  shows "words_of (assign_tree this rhs objs this) = (if rhs = this then [] else words_of (objs rhs))"
    and "x \<noteq> this \<Longrightarrow> assign_tree this rhs objs x = objs x"
  using assms copy_tree_words(1) [of "objs rhs"]
  by (auto simp: assign_tree_def Let_def copy_tree_def split: if_splits)

subsection \<open>The tests of main\<close>

text \<open>
  \<open>main.cpp\<close>: after the explicit call of its destructor a tree is empty. The output of the
  prints is left out.
\<close>

definition wt_main :: "unit outcome" where
  "wt_main =
     (let k = add_word ''Kanye'' 1 (add_word ''Kanye'' 1 (add_word ''Kanye'' 1 (add_word ''Kim'' 1 Null))) in
      obind (distinctWords k) (\<lambda>d. obind (c_assert (d = 2)) (\<lambda>_.
      obind (c_assert (totalWords k = 4)) (\<lambda>_.
      let k = add_word ''Zyphr'' 1 (add_word ''Zyphr'' 1 (add_word ''McCown'' 1 k)) in
      obind (c_assert (totalWords k = 7)) (\<lambda>_.
      let objs = (\<lambda>x. Null)(''k'' := k);
          objs = assign_tree ''m'' ''k'' objs in
      obind (c_assert (totalWords (objs ''m'') = 7)) (\<lambda>_.
      let objs = objs(''k'' := Null) in
      obind (c_assert (totalWords (objs ''k'') = 0)) (\<lambda>_.
      let objs = assign_tree ''m'' ''k'' objs in
      obind (c_assert (totalWords (objs ''m'') = 0)) (\<lambda>_.
      let m = add_word ''Tim'' 1 (add_word ''Tim'' 1 (objs ''m'')) in
      obind (distinctWords m) (\<lambda>d. obind (c_assert (totalWords m = 2 \<and> d = 1)) (\<lambda>_.
      let p = copy_tree m in
      obind (distinctWords p) (\<lambda>d. obind (c_assert (totalWords p = 2 \<and> d = 1)) (\<lambda>_.
      let p = Null; n = copy_tree p in
      obind (distinctWords p) (\<lambda>d. c_assert (totalWords p = 0 \<and> d = 0))))))))))))))"

lemma wt_main_passes: "wt_main = Ret ()"
  by (simp add: wt_main_def Let_def add_word_def distinctWords_def totalWords_def assign_tree_def copy_tree_def
      c_assert_def c_div_def less_char_def)

end
