(* ===== verification/StringArrays.thy ===== *)
theory StringArrays
  imports "HOL-Library.Sublist" "HOL-Library.Multiset" CLib
begin

text \<open>
  The functions on arrays of strings of \<open>CS31/project4/array.cpp\<close>. An array is the list of its
  cells; reading or writing a cell that does not exist faults. A loop that counts from 0 up
  to a bound it cannot skip is written with \<open><\<close>. The functions take the number \<open>n\<close> of
  interesting elements; those that change the array return it with their result.
\<close>

subsection \<open>Cells\<close>

definition arr :: "string list \<Rightarrow> nat \<Rightarrow> string outcome" where
  "arr a k = (if k < length a then Ret (a ! k) else SegFault)"

definition put :: "string list \<Rightarrow> nat \<Rightarrow> string \<Rightarrow> string list outcome" where
  "put a k s = (if k < length a then Ret (a[k := s]) else SegFault)"

lemma arr_in [simp]: "k < length a \<Longrightarrow> arr a k = Ret (a ! k)"
  by (simp add: arr_def)

lemma put_in [simp]: "k < length a \<Longrightarrow> put a k s = Ret (a[k := s])"
  by (simp add: put_def)

lemma arr_RetD: "arr a k = Ret s \<Longrightarrow> k < length a \<and> s = a ! k"
  by (simp add: arr_def split: if_splits)

lemma put_RetD: "put a k s = Ret a' \<Longrightarrow> k < length a \<and> a' = a[k := s]"
  by (simp add: put_def split: if_splits)

declare obind_cong [fundef_cong]

subsection \<open>Searching\<close>

function count_from :: "string list \<Rightarrow> nat \<Rightarrow> string \<Rightarrow> nat \<Rightarrow> int \<Rightarrow> int outcome" where
  "count_from a n target k matching =
     (if k < n
      then obind (arr a k) (\<lambda>s. count_from a n target (Suc k) (if s = target then matching + 1 else matching))
      else Ret matching)"
  by pat_completeness auto
termination by (relation "measure (\<lambda>(a, n, target, k, m). n - k)") auto

definition countMatches :: "string list \<Rightarrow> int \<Rightarrow> string \<Rightarrow> int outcome" where
  "countMatches a n target = (if n < 0 then Ret (- 1) else count_from a (nat n) target 0 0)"

function match_from :: "string list \<Rightarrow> nat \<Rightarrow> string \<Rightarrow> nat \<Rightarrow> int outcome" where
  "match_from a n target k =
     (if k < n
      then obind (arr a k) (\<lambda>s. if s = target then Ret (int k) else match_from a n target (Suc k))
      else Ret (- 1))"
  by pat_completeness auto
termination by (relation "measure (\<lambda>(a, n, target, k). n - k)") auto

definition detectMatch :: "string list \<Rightarrow> int \<Rightarrow> string \<Rightarrow> int outcome" where
  "detectMatch a n target = (if n < 0 then Ret (- 1) else match_from a (nat n) target 0)"

text \<open>\<open>begin\<close> and \<open>end\<close> are references: their old values go in, the new ones come out.\<close>

function run_end :: "string list \<Rightarrow> nat \<Rightarrow> string \<Rightarrow> nat \<Rightarrow> nat \<Rightarrow> nat outcome" where
  "run_end a n target j fin =
     (if j < n
      then obind (arr a j) (\<lambda>s. if s = target then run_end a n target (Suc j) j else Ret fin)
      else Ret fin)"
  by pat_completeness auto
termination by (relation "measure (\<lambda>(a, n, target, j, e). n - j)") auto

function sequence_from :: "string list \<Rightarrow> nat \<Rightarrow> string \<Rightarrow> nat \<Rightarrow> nat \<times> nat \<Rightarrow> (bool \<times> nat \<times> nat) outcome" where
  "sequence_from a n target k refs =
     (if k < n
      then obind (arr a k) (\<lambda>s.
        if s = target
        then (if k = n - 1 then Ret (True, k, k)
              else obind (run_end a n target (Suc k) k) (\<lambda>fin. Ret (True, k, fin)))
        else sequence_from a n target (Suc k) refs)
      else Ret (False, refs))"
  by pat_completeness auto
termination by (relation "measure (\<lambda>(a, n, target, k, refs). n - k)") auto

definition detectSequence :: "string list \<Rightarrow> int \<Rightarrow> string \<Rightarrow> nat \<times> nat \<Rightarrow> (bool \<times> nat \<times> nat) outcome" where
  "detectSequence a n target refs = (if n < 0 then Ret (False, refs) else sequence_from a (nat n) target 0 refs)"

text \<open>\<open>minIndex\<close> starts as the octal number \<open>0101\<close>, which also means that nothing was found.\<close>

function min_from :: "string list \<Rightarrow> nat \<Rightarrow> nat \<Rightarrow> string \<Rightarrow> int \<Rightarrow> int outcome" where
  "min_from a n k minValue minIndex =
     (if k < n
      then obind (arr a k) (\<lambda>s.
        let (minValue, minIndex) = (if minValue > s then (s, int k) else (minValue, minIndex)) in
        min_from a n (Suc k) minValue
          (if minValue = s \<and> int k \<noteq> minIndex \<and> int k < minIndex then int k else minIndex))
      else Ret minIndex)"
  by pat_completeness auto
termination by (relation "measure (\<lambda>(a, n, k, v, i). n - k)") auto

definition detectMin :: "string list \<Rightarrow> int \<Rightarrow> int outcome" where
  "detectMin a n =
     (if n \<le> 0 then Ret (- 1)
      else obind (arr a 0) (\<lambda>minValue.
           obind (min_from a (nat n) 0 minValue 65) (\<lambda>minIndex.
           if minIndex = 65 then Ret (- 1) else Ret minIndex)))"

function difference_from :: "string list \<Rightarrow> string list \<Rightarrow> int \<Rightarrow> nat \<Rightarrow> int outcome" where
  "difference_from a1 a2 indexBound k =
     (if int k < indexBound
      then obind (arr a1 k) (\<lambda>s1. obind (arr a2 k) (\<lambda>s2.
        if s1 \<noteq> s2 then Ret (int k) else difference_from a1 a2 indexBound (Suc k)))
      else Ret indexBound)"
  by pat_completeness auto
termination by (relation "measure (\<lambda>(a1, a2, b, k). nat (b - int k))") auto

definition detectDifference :: "string list \<Rightarrow> int \<Rightarrow> string list \<Rightarrow> int \<Rightarrow> int outcome" where
  "detectDifference a1 n1 a2 n2 = difference_from a1 a2 (if n1 > n2 then n2 else n1) 0"

function find_next :: "string list \<Rightarrow> nat \<Rightarrow> string list \<Rightarrow> nat \<Rightarrow> nat \<Rightarrow> nat option outcome" where
  "find_next a1 n1 a2 k j =
     (if j < n1
      then obind (arr a2 k) (\<lambda>s2. obind (arr a1 j) (\<lambda>s1.
        if s2 = s1 then Ret (Some j) else find_next a1 n1 a2 k (Suc j)))
      else Ret None)"
  by pat_completeness auto
termination by (relation "measure (\<lambda>(a1, n1, a2, k, j). n1 - j)") auto

function matches_from :: "string list \<Rightarrow> nat \<Rightarrow> string list \<Rightarrow> nat \<Rightarrow> nat \<Rightarrow> nat \<Rightarrow> int \<Rightarrow> int outcome" where
  "matches_from a1 n1 a2 n2 k indexPlace matches =
     (if k < n2
      then obind (find_next a1 n1 a2 k indexPlace) (\<lambda>found.
        matches_from a1 n1 a2 n2 (Suc k)
          (case found of None \<Rightarrow> indexPlace | Some j \<Rightarrow> j + 1)
          (case found of None \<Rightarrow> matches | Some j \<Rightarrow> matches + 1))
      else Ret matches)"
  by pat_completeness auto
termination by (relation "measure (\<lambda>(a1, n1, a2, n2, k, i, m). n2 - k)") auto

definition contains :: "string list \<Rightarrow> int \<Rightarrow> string list \<Rightarrow> int \<Rightarrow> bool outcome" where
  "contains a1 n1 a2 n2 =
     (if n1 < 0 \<or> n2 < 0 then Ret False
      else if n1 < n2 then Ret False
      else if n2 = 0 then Ret True
      else obind (matches_from a1 (nat n1) a2 (nat n2) 0 0 0) (\<lambda>matches. Ret (matches = n2)))"

subsection \<open>Moving\<close>

function shift_left :: "string list \<Rightarrow> nat \<Rightarrow> nat \<Rightarrow> string list outcome" where
  "shift_left a n k =
     (if k < n - 1 then obind (arr a (k + 1)) (\<lambda>s. obind (put a k s) (\<lambda>a. shift_left a n (Suc k))) else Ret a)"
  by pat_completeness auto
termination by (relation "measure (\<lambda>(a, n, k). n - k)") auto

definition moveToBack :: "string list \<Rightarrow> int \<Rightarrow> int \<Rightarrow> (int \<times> string list) outcome" where
  "moveToBack a n pos =
     (if n < 0 then Ret (- 1, a)
      else if pos > n - 1 then Ret (- 1, a)
      else if pos < 0 then Ret (- 1, a)
      else if n = 0 then Ret (0, a)
      else if n = 1 then Ret (0, a)
      else obind (arr a (nat pos)) (\<lambda>valueHolder.
           obind (shift_left a (nat n) (nat pos)) (\<lambda>a.
           obind (put a (nat (n - 1)) valueHolder) (\<lambda>a. Ret (pos, a)))))"

fun shift_right_from :: "string list \<Rightarrow> nat \<Rightarrow> string list outcome" where
  "shift_right_from a k =
     (if k > 0 then obind (arr a (k - 1)) (\<lambda>s. obind (put a k s) (\<lambda>a. shift_right_from a (k - 1))) else Ret a)"

definition moveToFront :: "string list \<Rightarrow> int \<Rightarrow> int \<Rightarrow> (int \<times> string list) outcome" where
  "moveToFront a n pos =
     (if n < 0 then Ret (- 1, a)
      else if pos > n - 1 then Ret (- 1, a)
      else if pos < 0 then Ret (- 1, a)
      else obind (arr a (nat pos)) (\<lambda>valueHolder.
           obind (shift_right_from a (nat pos)) (\<lambda>a.
           obind (put a 0 valueHolder) (\<lambda>a. Ret (pos, a)))))"

definition deleted :: string where
  "deleted = '' *deleted* ''"

function mark_from :: "string list \<Rightarrow> nat \<Rightarrow> nat \<Rightarrow> nat \<Rightarrow> string list outcome" where
  "mark_from a begin_at indexGap j =
     (if j < indexGap + 1
      then obind (put a (begin_at + j) deleted) (\<lambda>a. mark_from a begin_at indexGap (Suc j)) else Ret a)"
  by pat_completeness auto
termination by (relation "measure (\<lambda>(a, b, g, j). g + 1 - j)") auto

function mark_dups :: "string list \<Rightarrow> nat \<Rightarrow> nat \<Rightarrow> nat \<times> nat \<Rightarrow> string list outcome" where
  "mark_dups a n k refs =
     (if k < n
      then obind (arr a k) (\<lambda>s. obind (detectSequence a (int n) s refs) (\<lambda>r1.
           obind (detectSequence a (int n) s (snd r1)) (\<lambda>r.
           if fst r
           then (if s = deleted then Ret a
                 else obind (mark_from a (fst (snd r)) (snd (snd r) - fst (snd r)) 1) (\<lambda>a. mark_dups a n (Suc k) (snd r)))
           else mark_dups a n (Suc k) (snd r))))
      else Ret a)"
  by pat_completeness auto
termination by (relation "measure (\<lambda>(a, n, k, refs). n - k)") auto

function sweep_dups :: "string list \<Rightarrow> nat \<Rightarrow> nat \<Rightarrow> int \<Rightarrow> (int \<times> string list) outcome" where
  "sweep_dups a n j retainedItems =
     (if j < n
      then obind (arr a j) (\<lambda>s.
        if s = deleted then obind (moveToBack a (int n) (int j)) (\<lambda>r. sweep_dups (snd r) n (Suc j) (retainedItems - 1))
        else sweep_dups a n (Suc j) retainedItems)
      else Ret (retainedItems, a))"
  by pat_completeness auto
termination by (relation "measure (\<lambda>(a, n, j, r). n - j)") auto

text \<open>\<open>refs\<close> are the values of the uninitialised \<open>begin\<close> and \<open>end\<close>.\<close>

definition deleteDups :: "nat \<times> nat \<Rightarrow> string list \<Rightarrow> int \<Rightarrow> (int \<times> string list) outcome" where
  "deleteDups refs a n =
     (if n < 0 then Ret (- 1, a)
      else obind (mark_dups a (nat n) 0 refs) (\<lambda>a. sweep_dups a (nat n) 0 n))"

subsection \<open>Merging and splitting\<close>

text \<open>\<open>k != n - 1\<close> is true for ever when \<open>n\<close> is 0, until the loop leaves the array.\<close>

function nondecreasing_from :: "string list \<Rightarrow> int \<Rightarrow> nat \<Rightarrow> bool outcome" where
  "nondecreasing_from a n k =
     (if int k \<noteq> n - 1
      then obind (arr a k) (\<lambda>x. obind (arr a (k + 1)) (\<lambda>y. if x > y then Ret False else nondecreasing_from a n (Suc k)))
      else Ret True)"
  by pat_completeness auto
termination by (relation "measure (\<lambda>(a, n, k). length a - k)") (auto dest!: arr_RetD)

function copy_from :: "string list \<Rightarrow> nat \<Rightarrow> string list \<Rightarrow> nat \<Rightarrow> nat \<Rightarrow> string list outcome" where
  "copy_from result placeHolder a n w =
     (if w < n
      then obind (arr a w) (\<lambda>s. obind (put result (w + placeHolder) s) (\<lambda>result. copy_from result placeHolder a n (Suc w)))
      else Ret result)"
  by pat_completeness auto
termination by (relation "measure (\<lambda>(r, p, a, n, w). n - w)") auto

function exchange_from :: "string list \<Rightarrow> nat \<Rightarrow> nat \<Rightarrow> nat \<Rightarrow> string list outcome" where
  "exchange_from result n w j =
     (if j < n
      then obind (arr result j) (\<lambda>rj. obind (arr result w) (\<lambda>rw.
        obind (if rj < rw then obind (put result w rj) (\<lambda>r. put r j rw) else Ret result) (\<lambda>result.
        exchange_from result n w (Suc j))))
      else Ret result)"
  by pat_completeness auto
termination by (relation "measure (\<lambda>(r, n, w, j). n - j)") auto

function exchange_sort :: "string list \<Rightarrow> nat \<Rightarrow> nat \<Rightarrow> string list outcome" where
  "exchange_sort result n w =
     (if w < n then obind (exchange_from result n w w) (\<lambda>result. exchange_sort result n (Suc w)) else Ret result)"
  by pat_completeness auto
termination by (relation "measure (\<lambda>(r, n, w). n - w)") auto

definition meld :: "string list \<Rightarrow> int \<Rightarrow> string list \<Rightarrow> int \<Rightarrow> string list \<Rightarrow> int \<Rightarrow> (int \<times> string list) outcome" where
  "meld a1 n1 a2 n2 result maxi =
     (let meldedArraySize = n1 + n2 in
      if n1 < 0 \<or> n2 < 0 \<or> maxi < 0 then Ret (- 1, result)
      else if meldedArraySize > maxi then Ret (- 1, result)
      else obind (nondecreasing_from a1 n1 0) (\<lambda>ok1. if \<not> ok1 then Ret (- 1, result)
      else obind (nondecreasing_from a2 n2 0) (\<lambda>ok2. if \<not> ok2 then Ret (- 1, result)
      else obind (copy_from result 0 a1 (nat n1) 0) (\<lambda>result.
           obind (copy_from result (nat n1) a2 (nat n2) 0) (\<lambda>result.
           obind (exchange_sort result (nat meldedArraySize) 0) (\<lambda>result.
           Ret (meldedArraySize, result)))))))"

function split_from :: "string list \<Rightarrow> nat \<Rightarrow> string \<Rightarrow> nat \<Rightarrow> int \<Rightarrow> (int \<times> string list) outcome" where
  "split_from a n splitter k placeIndicator =
     (if k < n
      then obind (arr a k) (\<lambda>s.
        if s < splitter
        then obind (moveToFront a (int n) (int k)) (\<lambda>r. split_from (snd r) n splitter (Suc k) (placeIndicator + 1))
        else split_from a n splitter (Suc k) placeIndicator)
      else Ret (placeIndicator, a))"
  by pat_completeness auto
termination by (relation "measure (\<lambda>(a, n, s, k, p). n - k)") auto

definition split_array :: "string list \<Rightarrow> int \<Rightarrow> string \<Rightarrow> (int \<times> string list) outcome" where
  "split_array a n splitter = (if n < 0 then Ret (- 1, a) else split_from a (nat n) splitter 0 0)"

definition array_main :: "unit outcome" where
  "array_main = obind (contains [''Tom'', ''Dick'', ''Harry''] 3 [] 0) (\<lambda>b. c_assert (b = True))"

declare count_from.simps [simp del] match_from.simps [simp del] run_end.simps [simp del] sequence_from.simps [simp del]
  min_from.simps [simp del] difference_from.simps [simp del] find_next.simps [simp del] matches_from.simps [simp del]
  shift_left.simps [simp del] shift_right_from.simps [simp del] mark_from.simps [simp del] mark_dups.simps [simp del]
  sweep_dups.simps [simp del] nondecreasing_from.simps [simp del] copy_from.simps [simp del]
  exchange_from.simps [simp del] exchange_sort.simps [simp del] split_from.simps [simp del]

end
