(* ===== verification/StringArraysProps.thy ===== *)
theory StringArraysProps
  imports StringArrays
begin

text \<open>
  What the functions of \<open>CS31/project4/array.cpp\<close> compute on arrays with at least as many cells
  as they are told of, stated on the list of the interesting elements.
\<close>

lemma slice_step: "k < n \<Longrightarrow> n \<le> length a \<Longrightarrow> drop k (take n a) = a ! k # drop (Suc k) (take n a)"
  by (simp add: Cons_nth_drop_Suc [symmetric])

lemma slice_end: "n \<le> k \<Longrightarrow> drop k (take n a) = []"
  by simp

subsection \<open>Searching\<close>

lemma count_from_eq:
  "n \<le> length a \<Longrightarrow>
    count_from a n t k c = Ret (c + int (count_list (drop k (take n a)) t))"
proof (induction a n t k c rule: count_from.induct)
  case (1 a n t k c)
  then show ?case
    by (cases "k < n") (simp_all add: count_from.simps [of a n t k c] slice_step)
qed

lemma countMatches_eq:
  "0 \<le> n \<Longrightarrow> n \<le> int (length a) \<Longrightarrow> countMatches a n t = Ret (int (count_list (take (nat n) a) t))"
  by (simp add: countMatches_def count_from_eq)

definition position :: "string \<Rightarrow> string list \<Rightarrow> nat" where
  "position t xs = length (takeWhile (\<lambda>x. x \<noteq> t) xs)"

lemma position_simps [simp]:
  "position t (x # xs) = (if x = t then 0 else Suc (position t xs))"
  by (simp add: position_def)

lemma position_less: "t \<in> set xs \<Longrightarrow> position t xs < length xs \<and> xs ! position t xs = t"
  by (induction xs) auto

lemma match_from_eq:
  "n \<le> length a \<Longrightarrow>
    match_from a n t k = Ret (if t \<in> set (drop k (take n a)) then int (k + position t (drop k (take n a))) else - 1)"
proof (induction a n t k rule: match_from.induct)
  case (1 a n t k)
  then show ?case
    by (cases "k < n") (simp_all add: match_from.simps [of a n t k] slice_step)
qed

lemma detectMatch_eq:
  "0 \<le> n \<Longrightarrow> n \<le> int (length a) \<Longrightarrow>
    detectMatch a n t = Ret (if t \<in> set (take (nat n) a) then int (position t (take (nat n) a)) else - 1)"
  by (simp add: detectMatch_def match_from_eq)

lemma run_end_eq:
  "n \<le> length a \<Longrightarrow> 0 < j \<Longrightarrow>
    run_end a n t j (j - 1) = Ret (j - 1 + length (takeWhile (\<lambda>x. x = t) (drop j (take n a))))"
proof (induction "n - j" arbitrary: j)
  case 0
  then show ?case by (simp add: run_end.simps [of a n t j])
next
  case (Suc d)
  then have "run_end a n t (Suc j) (Suc j - 1) = Ret (Suc j - 1 + length (takeWhile (\<lambda>x. x = t) (drop (Suc j) (take n a))))"
    by (intro Suc.hyps(1)) auto
  with Suc show ?case by (simp add: run_end.simps [of a n t j] slice_step)
qed

lemma sequence_from_eq:
  "n \<le> length a \<Longrightarrow>
    sequence_from a n t k refs = Ret (
      let xs = drop k (take n a); i = k + position t xs in
      if t \<in> set xs
      then (True, i, i + length (takeWhile (\<lambda>x. x = t) (drop (Suc i) (take n a))))
      else (False, refs))"
proof (induction a n t k refs rule: sequence_from.induct)
  case (1 a n t k refs)
  show ?case
  proof (cases "k < n")
    case True
    with 1 run_end_eq [of n a "Suc k" t] show ?thesis
      by (auto simp: sequence_from.simps [of a n t k refs] slice_step Let_def)
  qed (simp add: sequence_from.simps)
qed

lemma detectSequence_eq:
  assumes "0 \<le> n" and "n \<le> int (length a)"
  shows "detectSequence a n t refs = Ret (
    let xs = take (nat n) a; i = position t xs in
    if t \<in> set xs then (True, i, i + length (takeWhile (\<lambda>x. x = t) (drop (Suc i) xs))) else (False, refs))"
  using assms by (simp add: detectSequence_def sequence_from_eq Let_def)

text \<open>The least position of a minimum.\<close>

definition first_min :: "string list \<Rightarrow> nat \<Rightarrow> bool" where
  "first_min xs i \<longleftrightarrow> i < length xs \<and> (\<forall>j < length xs. xs ! i \<le> xs ! j) \<and> (\<forall>j < i. xs ! i < xs ! j)"

lemma first_min_snoc:
  assumes "first_min xs i"
  shows "first_min (xs @ [x]) (if x < xs ! i then length xs else i)"
proof (cases "x < xs ! i")
  case True
  with assms show ?thesis by (auto simp: first_min_def nth_append less_Suc_eq intro: less_le_trans)
next
  case False
  with assms show ?thesis by (auto simp: first_min_def nth_append less_Suc_eq not_less)
qed

lemma min_from_first_min:
  "n \<le> length a \<Longrightarrow> 0 < k \<Longrightarrow> k \<le> n \<Longrightarrow> first_min (take k a) i \<Longrightarrow>
    \<exists>i'. first_min (take n a) i' \<and> min_from a n k (a ! i) (int i) = Ret (int i')"
proof (induction "n - k" arbitrary: k i)
  case 0
  then show ?case by (intro exI [of _ i]) (simp add: min_from.simps)
next
  case (Suc d)
  then have k: "k < n" "k < length a" by simp_all
  have i: "i < k" using Suc.prems(4) by (auto simp: first_min_def)
  let ?i = "if a ! k < a ! i then k else i"
  have d: "d = n - Suc k" using Suc(2) by simp
  have fm: "first_min (take (Suc k) a) ?i"
    using first_min_snoc [OF Suc.prems(4), of "a ! k"] k i by (simp add: take_Suc_conv_app_nth min_absorb2 split: if_splits)
  with Suc k obtain i' where "first_min (take n a) i'" "min_from a n (Suc k) (a ! ?i) (int ?i) = Ret (int i')"
    using Suc.hyps(1) [OF d Suc.prems(1) zero_less_Suc Suc_leI [OF k(1)] fm] by blast
  then show ?case using k i
    by (intro exI [of _ i']) (auto simp: min_from.simps [of a n k] split: if_splits)
qed

lemma detectMin_first:
  assumes "0 < n" and "n \<le> int (length a)"
  shows "\<exists>i. first_min (take (nat n) a) i \<and> detectMin a n = Ret (if i = 65 then - 1 else int i)"
proof -
  have "0 < length a" using assms by linarith
  then have "min_from a (nat n) 0 (a ! 0) 65 = min_from a (nat n) 1 (a ! 0) 0"
    using assms by (subst min_from.simps) simp
  moreover have "first_min (take 1 a) 0" using assms by (cases a) (auto simp: first_min_def)
  then have "\<exists>i. first_min (take (nat n) a) i \<and> min_from a (nat n) 1 (a ! 0) (int 0) = Ret (int i)"
    using assms by (intro min_from_first_min) auto
  ultimately show ?thesis using assms \<open>0 < length a\<close> by (auto simp: detectMin_def)
qed

lemma difference_from_eq:
  "m \<le> length a1 \<Longrightarrow> m \<le> length a2 \<Longrightarrow> k \<le> m \<Longrightarrow>
    difference_from a1 a2 (int m) k =
      Ret (int (k + length (longest_common_prefix (drop k (take m a1)) (drop k (take m a2)))))"
proof (induction "m - k" arbitrary: k)
  case 0
  then show ?case by (simp add: difference_from.simps)
next
  case (Suc d)
  then have "difference_from a1 a2 (int m) (Suc k) =
      Ret (int (Suc k + length (longest_common_prefix (drop (Suc k) (take m a1)) (drop (Suc k) (take m a2)))))"
    by (intro Suc.hyps(1)) auto
  with Suc show ?case by (simp add: difference_from.simps [of a1 a2 "int m" k] slice_step)
qed

lemma detectDifference_eq:
  assumes "0 \<le> n1" and "0 \<le> n2" and "n1 \<le> int (length a1)" and "n2 \<le> int (length a2)"
  defines "m \<equiv> nat (min n1 n2)"
  shows "detectDifference a1 n1 a2 n2 = Ret (int (length (longest_common_prefix (take m a1) (take m a2))))"
proof -
  have "(if n1 > n2 then n2 else n1) = int m" using assms by (simp add: m_def min_def)
  moreover have "m \<le> length a1" "m \<le> length a2" using assms by (auto simp: m_def)
  ultimately show ?thesis using difference_from_eq [of m a1 a2 0] by (simp add: detectDifference_def)
qed

lemma find_next_eq:
  "n1 \<le> length a1 \<Longrightarrow> k < length a2 \<Longrightarrow>
    find_next a1 n1 a2 k j = Ret (
      let xs = drop j (take n1 a1) in if a2 ! k \<in> set xs then Some (j + position (a2 ! k) xs) else None)"
proof (induction a1 n1 a2 k j rule: find_next.induct)
  case (1 a1 n1 a2 k j)
  then show ?case
    by (cases "j < n1") (auto simp: find_next.simps [of a1 n1 a2 k j] slice_step Let_def)
qed

lemma subseq_Cons_position:
  "subseq (y # ys) xs \<longleftrightarrow> y \<in> set xs \<and> subseq ys (drop (Suc (position y xs)) xs)"
  by (induction xs) (auto simp: subseq_Cons2_iff)

lemma matches_from_subseq:
  assumes "n1 \<le> length a1" and "n2 \<le> length a2" and "k \<le> n2"
  shows "\<exists>m'. matches_from a1 n1 a2 n2 k i m = Ret m' \<and> m' \<le> m + int (n2 - k) \<and>
    (m' = m + int (n2 - k) \<longleftrightarrow> subseq (drop k (take n2 a2)) (drop i (take n1 a1)))"
  using assms
proof (induction "n2 - k" arbitrary: k i m)
  case 0
  then show ?case by (simp add: matches_from.simps)
next
  case (Suc d)
  let ?xs = "drop i (take n1 a1)" and ?y = "a2 ! k"
  have k: "k < n2" "k < length a2" using Suc by simp_all
  let ?i = "if ?y \<in> set ?xs then Suc (i + position ?y ?xs) else i" and ?m = "if ?y \<in> set ?xs then m + 1 else m"
  have "\<exists>m'. matches_from a1 n1 a2 n2 (Suc k) ?i ?m = Ret m' \<and> m' \<le> ?m + int (n2 - Suc k) \<and>
    (m' = ?m + int (n2 - Suc k) \<longleftrightarrow> subseq (drop (Suc k) (take n2 a2)) (drop ?i (take n1 a1)))"
    using Suc by (intro Suc.hyps(1)) auto
  then obtain m' where m': "matches_from a1 n1 a2 n2 (Suc k) ?i ?m = Ret m'" "m' \<le> ?m + int (n2 - Suc k)"
    "m' = ?m + int (n2 - Suc k) \<longleftrightarrow> subseq (drop (Suc k) (take n2 a2)) (drop ?i (take n1 a1))" by blast
  have "matches_from a1 n1 a2 n2 k i m = Ret m'"
    using m'(1) k Suc.prems(1) find_next_eq [OF Suc.prems(1) k(2), of i]
    by (simp add: matches_from.simps [of a1 n1 a2 n2 k] Let_def split: if_splits)
  moreover have "subseq (drop k (take n2 a2)) ?xs \<longleftrightarrow> ?y \<in> set ?xs \<and>
      subseq (drop (Suc k) (take n2 a2)) (drop (Suc (position ?y ?xs)) ?xs)"
    using k Suc.prems(2) by (simp add: slice_step subseq_Cons_position)
  ultimately show ?case using m'(2,3) k
    by (intro exI [of _ m']) (auto simp: add.commute of_nat_diff split: if_splits)
qed

lemma contains_iff:
  assumes "0 \<le> n1" and "0 \<le> n2" and "n1 \<le> int (length a1)" and "n2 \<le> int (length a2)"
  shows "contains a1 n1 a2 n2 = Ret (subseq (take (nat n2) a2) (take (nat n1) a1))"
proof -
  have long: "\<not> subseq (take (nat n2) a2) (take (nat n1) a1)" if "n1 < n2"
    using that assms list_emb_length [of "(=)" "take (nat n2) a2" "take (nat n1) a1"] by auto
  obtain m' where "matches_from a1 (nat n1) a2 (nat n2) 0 0 0 = Ret m'"
    "m' = int (nat n2) \<longleftrightarrow> subseq (take (nat n2) a2) (take (nat n1) a1)"
    using matches_from_subseq [of "nat n1" a1 "nat n2" a2 0 0 0] assms(3,4) by (auto simp: nat_le_iff)
  with assms long show ?thesis by (auto simp: contains_def)
qed

subsection \<open>Moving\<close>

lemma shift_left_eq:
  "n = length xs + Suc (length ys) \<Longrightarrow>
    shift_left (xs @ x # ys @ zs) n (length xs) = Ret (xs @ ys @ [last (x # ys)] @ zs)"
proof (induction ys arbitrary: xs x)
  case Nil
  then show ?case by (simp add: shift_left.simps)
next
  case (Cons y ys)
  from Cons.IH [of "xs @ [y]" y] Cons.prems show ?case
    by (simp add: shift_left.simps [of "xs @ x # y # ys @ zs"] nth_append list_update_append)
qed

lemma moveToBack_eq:
  assumes "n = int (length xs + Suc (length ys))"
  shows "moveToBack (xs @ x # ys @ zs) n (int (length xs)) = Ret (int (length xs), xs @ ys @ x # zs)"
proof -
  have n: "nat n = length xs + Suc (length ys)" "nat (n - 1) = length xs + length ys" using assms by simp_all
  have e: "ys @ last (x # ys) # zs = (butlast (x # ys) @ [last (x # ys)]) @ last (x # ys) # zs \<or> True" by simp
  show ?thesis using assms shift_left_eq [OF n(1), of x zs]
    by (auto simp: moveToBack_def nth_append list_update_append n)
qed

lemma shift_right_from_eq:
  "shift_right_from (xs @ y # zs) (length xs) = Ret (if xs = [] then y # zs else hd xs # xs @ zs)"
proof (induction xs arbitrary: y zs rule: rev_induct)
  case Nil
  then show ?case by (simp add: shift_right_from.simps)
next
  case (snoc x xs)
  from snoc [of x "x # zs"] show ?case
    by (auto simp: shift_right_from.simps [of "xs @ x # y # zs"] nth_append list_update_append)
qed

lemma moveToFront_eq:
  assumes "int (length xs) < n"
  shows "moveToFront (xs @ y # zs) n (int (length xs)) = Ret (int (length xs), y # xs @ zs)"
  using assms shift_right_from_eq [of xs y zs]
  by (cases "xs = []") (simp_all add: moveToFront_def nth_append)

lemma split_from_eq:
  assumes "\<forall>x \<in> set L. x < s" and "\<forall>x \<in> set G. s \<le> x"
    and "k = length L + length G" and "n = k + length ys"
  shows "split_from (L @ G @ ys @ zs) n s k c =
    Ret (c + int (length (filter (\<lambda>x. x < s) ys)),
      rev (filter (\<lambda>x. x < s) ys) @ L @ G @ filter (\<lambda>x. s \<le> x) ys @ zs)"
  using assms
proof (induction ys arbitrary: L G k c)
  case Nil
  then show ?case by (simp add: split_from.simps)
next
  case (Cons y ys)
  have mv: "moveToFront ((L @ G) @ y # ys @ zs) (int n) (int k) = Ret (int k, y # (L @ G) @ ys @ zs)"
    using moveToFront_eq [of "L @ G" "int n" y "ys @ zs"] Cons.prems by simp
  have at: "(L @ G @ y # ys @ zs) ! k = y" using Cons.prems by (simp add: nth_append)
  show ?case
  proof (cases "y < s")
    case True
    with Cons.IH [of "y # L" G "Suc k" "c + 1"] Cons.prems mv at show ?thesis
      by (simp add: split_from.simps [of "L @ G @ y # ys @ zs"])
  next
    case False
    then have "s \<le> y" by simp
    with False Cons.IH [of L "G @ [y]" "Suc k" c] Cons.prems at show ?thesis
      by (subst split_from.simps) simp
  qed
qed

lemma split_array_eq:
  assumes "0 \<le> n" and "n \<le> int (length a)"
  shows "split_array a n s =
    (let xs = take (nat n) a; low = filter (\<lambda>x. x < s) xs in
     Ret (int (length low), rev low @ filter (\<lambda>x. s \<le> x) xs @ drop (nat n) a))"
  using assms split_from_eq [of "[]" s "[]" 0 "nat n" "take (nat n) a" "drop (nat n) a" 0]
  by (simp add: split_array_def Let_def)

subsection \<open>Merging\<close>

lemma nondecreasing_from_eq:
  "0 < n \<Longrightarrow> n \<le> length a \<Longrightarrow> k < n \<Longrightarrow>
    nondecreasing_from a (int n) k = Ret (sorted (drop k (take n a)))"
proof (induction "n - k" arbitrary: k)
  case (Suc d)
  show ?case
  proof (cases "k = n - 1")
    case True
    then have "nondecreasing_from a (int n) k = Ret True"
      using Suc.prems by (simp add: nondecreasing_from.simps of_nat_diff)
    moreover have "drop k (take n a) = [a ! k]" using True Suc.prems by (simp add: slice_step)
    ultimately show ?thesis by simp
  next
    case False
    then have k: "Suc k < n" using Suc.prems by simp
    then have "nondecreasing_from a (int n) (Suc k) = Ret (sorted (drop (Suc k) (take n a)))"
      using Suc by (intro Suc.hyps(1)) auto
    moreover have "drop k (take n a) = a ! k # a ! Suc k # drop (Suc (Suc k)) (take n a)"
      using k Suc.prems by (simp add: slice_step)
    moreover have "drop (Suc k) (take n a) = a ! Suc k # drop (Suc (Suc k)) (take n a)"
      using k Suc.prems by (simp add: slice_step)
    ultimately show ?thesis
      using k Suc.prems by (subst nondecreasing_from.simps) (auto simp: not_less)
  qed
qed simp

lemma copy_from_eq:
  "n \<le> length a \<Longrightarrow> p + n \<le> length r \<Longrightarrow> w \<le> n \<Longrightarrow>
    copy_from r p a n w = Ret (take (p + w) r @ drop w (take n a) @ drop (p + n) r)"
proof (induction "n - w" arbitrary: w r)
  case 0
  then show ?case by (simp add: copy_from.simps)
next
  case (Suc d)
  let ?r = "r[w + p := a ! w]"
  have w: "w < n" "w + p < length r" using Suc by simp_all
  have "copy_from ?r p a n (Suc w) = Ret (take (p + Suc w) ?r @ drop (Suc w) (take n a) @ drop (p + n) ?r)"
    using Suc by (intro Suc.hyps(1)) auto
  moreover have "take (p + Suc w) ?r = take (p + w) r @ [a ! w]"
    using w by (simp add: take_Suc_conv_app_nth add.commute)
  ultimately show ?case using w Suc.prems
    by (simp add: copy_from.simps [of r p a n w] slice_step)
qed

text \<open>One pass of the exchanges puts a minimum of the rest at position \<open>w\<close>.\<close>

lemma exchange_from_eq:
  "n \<le> length r \<Longrightarrow> w < n \<Longrightarrow> w \<le> j \<Longrightarrow> j \<le> n \<Longrightarrow> (\<And>i. w \<le> i \<Longrightarrow> i < j \<Longrightarrow> r ! w \<le> r ! i) \<Longrightarrow>
    \<exists>r'. exchange_from r n w j = Ret r' \<and> mset r' = mset r \<and> take w r' = take w r \<and> drop n r' = drop n r \<and>
      (\<forall>i. w \<le> i \<longrightarrow> i < n \<longrightarrow> r' ! w \<le> r' ! i)"
proof (induction "n - j" arbitrary: j r)
  case 0
  then show ?case by (simp add: exchange_from.simps)
next
  case (Suc d)
  then have j: "j < n" "j < length r" "w < length r" by simp_all
  define r1 where "r1 = (if r ! j < r ! w then r[w := r ! j, j := r ! w] else r)"
  have step: "exchange_from r n w j = exchange_from r1 n w (Suc j)"
    using j by (subst exchange_from.simps) (simp add: r1_def)
  have "mset (r[j := r ! w, w := r ! j]) = mset r" using j by (intro mset_swap) auto
  moreover have "r[w := r ! j, j := r ! w] = r[j := r ! w, w := r ! j]"
    by (cases "w = j") (simp_all add: list_update_swap)
  ultimately have r1: "mset r1 = mset r" "take w r1 = take w r" "drop n r1 = drop n r" "length r1 = length r"
    using Suc.prems j by (auto simp: r1_def)
  have "r1 ! w \<le> r1 ! i" if "w \<le> i" "i < Suc j" for i
    using that j Suc.prems(5) [of i] by (cases "i = w"; cases "i = j") (auto simp: r1_def nth_list_update not_less)
  then show ?case
    using Suc.hyps(1) [of "Suc j" r1] Suc.hyps(2) Suc.prems j r1 step by auto
qed

lemma exchange_sort_eq:
  "n \<le> length r \<Longrightarrow> w \<le> n \<Longrightarrow> sorted (take w r) \<Longrightarrow> (\<And>i j. i < w \<Longrightarrow> w \<le> j \<Longrightarrow> j < n \<Longrightarrow> r ! i \<le> r ! j) \<Longrightarrow>
    \<exists>r'. exchange_sort r n w = Ret r' \<and> mset r' = mset r \<and> drop n r' = drop n r \<and> sorted (take n r')"
proof (induction "n - w" arbitrary: w r)
  case 0
  then show ?case by (simp add: exchange_sort.simps)
next
  case (Suc d)
  then have w: "w < n" by simp
  from exchange_from_eq [OF Suc.prems(1) w order_refl] w obtain r1
    where r1: "exchange_from r n w w = Ret r1" "mset r1 = mset r" "take w r1 = take w r" "drop n r1 = drop n r"
      and mn: "\<And>i. w \<le> i \<Longrightarrow> i < n \<Longrightarrow> r1 ! w \<le> r1 ! i"
    by auto
  have len: "length r1 = length r" using r1(2) by (metis size_mset)
  have eq: "r1 ! i = r ! i" if "i < w" for i using that r1(3) by (metis nth_take)
  have rest: "mset (drop w (take n r1)) = mset (drop w (take n r))"
  proof -
    have "mset (take w s) + mset (drop w (take n s)) + mset (drop n s) = mset s" for s :: "string list"
    proof -
      have "take w s @ drop w (take n s) = take n s"
        using append_take_drop_id [of w "take n s"] w by (simp add: min_absorb1)
      then show ?thesis by (metis append_take_drop_id mset_append)
    qed
    from this [of r1] this [of r] show ?thesis using r1 by (metis add_right_cancel add_left_cancel)
  qed
  have low: "r1 ! i \<le> r1 ! j" if "i < w" "w \<le> j" "j < n" for i j
  proof -
    have "r1 ! j \<in> set (drop w (take n r1))"
      using that Suc.prems(1) len by (auto simp: in_set_conv_nth intro!: exI [of _ "j - w"])
    then have "r1 ! j \<in> set (drop w (take n r))" using rest by (metis set_mset_mset)
    then obtain k where "k < n - w" "r1 ! j = r ! (w + k)"
      using Suc.prems(1) by (auto simp: in_set_conv_nth)
    then obtain i' where "w \<le> i'" "i' < n" "r1 ! j = r ! i'" using le_add1 less_diff_conv2 w
      by (metis add.commute less_diff_conv)
    then show ?thesis using Suc.prems(4) [OF \<open>i < w\<close>] eq [OF \<open>i < w\<close>] by simp
  qed
  have "r ! i \<le> r1 ! w" if "i < w" for i using low [OF that order_refl w] eq [OF that] by simp
  then have "sorted (take (Suc w) r1)"
    using Suc.prems(1,3) w len r1(3) by (auto simp: take_Suc_conv_app_nth sorted_append in_set_conv_nth)
  moreover have "r1 ! i \<le> r1 ! j" if "i < Suc w" "Suc w \<le> j" "j < n" for i j
    using that low mn by (cases "i = w") auto
  ultimately show ?case
    using Suc.hyps(1) [of "Suc w" r1] Suc.hyps(2) Suc.prems(1) w len r1
    by (simp add: exchange_sort.simps [of r n w])
qed

lemma meld_sorts:
  assumes n1: "0 < n1" "n1 \<le> int (length a1)" and n2: "0 < n2" "n2 \<le> int (length a2)"
    and r: "n1 + n2 \<le> int (length result)"
  shows "\<exists>rest. meld a1 n1 a2 n2 result maxi =
    (if n1 + n2 \<le> maxi \<and> sorted (take (nat n1) a1) \<and> sorted (take (nat n2) a2)
     then Ret (n1 + n2, sort (take (nat n1) a1 @ take (nat n2) a2) @ rest) else Ret (- 1, result))"
proof -
  define k1 k2 where "k1 = nat n1" and "k2 = nat n2"
  have k: "n1 = int k1" "n2 = int k2" "0 < k1" "0 < k2" "k1 \<le> length a1" "k2 \<le> length a2" "k1 + k2 \<le> length result"
    using assms by (simp_all add: k1_def k2_def)
  have s: "nondecreasing_from a1 n1 0 = Ret (sorted (take k1 a1))" "nondecreasing_from a2 n2 0 = Ret (sorted (take k2 a2))"
    using k nondecreasing_from_eq [of k1 a1 0] nondecreasing_from_eq [of k2 a2 0] by simp_all
  let ?xs = "take k1 a1 @ take k2 a2"
  have c1: "copy_from result 0 a1 k1 0 = Ret (take k1 a1 @ drop k1 result)"
    using k copy_from_eq [of k1 a1 0 result 0] by simp
  have c2: "copy_from (take k1 a1 @ drop k1 result) k1 a2 k2 0 = Ret (?xs @ drop (k1 + k2) result)"
    using k copy_from_eq [of k2 a2 k1 "take k1 a1 @ drop k1 result" 0] by (simp add: min_absorb2 add.commute)
  obtain r' where r': "exchange_sort (?xs @ drop (k1 + k2) result) (k1 + k2) 0 = Ret r'"
    "mset r' = mset (?xs @ drop (k1 + k2) result)" "drop (k1 + k2) r' = drop (k1 + k2) (?xs @ drop (k1 + k2) result)"
    "sorted (take (k1 + k2) r')"
    using k exchange_sort_eq [of "k1 + k2" "?xs @ drop (k1 + k2) result" 0] by auto
  have tail: "drop (k1 + k2) r' = drop (k1 + k2) result" using r'(3) k by simp
  have "mset (take (k1 + k2) r') + mset (drop (k1 + k2) r') = mset ?xs + mset (drop (k1 + k2) result)"
    using r'(2) by (metis append_take_drop_id mset_append)
  then have "mset (take (k1 + k2) r') = mset ?xs" using tail by simp
  then have "take (k1 + k2) r' = sort ?xs" using r'(4) by (metis properties_for_sort)
  then have "r' = sort ?xs @ drop (k1 + k2) result" using tail by (metis append_take_drop_id)
  moreover have "nat (n1 + n2) = k1 + k2" using k by simp
  ultimately have "meld a1 n1 a2 n2 result maxi =
    (if n1 + n2 \<le> maxi \<and> sorted (take k1 a1) \<and> sorted (take k2 a2)
     then Ret (n1 + n2, sort ?xs @ drop (k1 + k2) result) else Ret (- 1, result))"
    using s c1 c2 r'(1) n1 n2 by (auto simp: meld_def Let_def k1_def [symmetric] k2_def [symmetric])
  then show ?thesis unfolding k1_def k2_def by blast
qed

text \<open>An array without elements is not merged: the check of the order leaves it.\<close>

lemma meld_empty: "0 \<le> n2 \<Longrightarrow> n2 \<le> maxi \<Longrightarrow> meld [] 0 a2 n2 result maxi = SegFault"
  by (simp add: meld_def nondecreasing_from.simps arr_def)

subsection \<open>Duplicates\<close>

text \<open>
  The marking stops at the first element it has marked itself, so only the first sequence of
  duplicates is marked, and the sweep skips the element that a move puts in its place.
\<close>

lemma deleteDups_example:
  "deleteDups refs [''danvers'', ''danvers'', ''danvers'', ''thor'', ''thor''] 5 =
    Ret (3, [''danvers'', deleted, ''thor'', ''thor'', deleted])"
  by (simp add: deleteDups_def mark_dups.simps mark_from.simps sweep_dups.simps detectSequence_def sequence_from.simps
      run_end.simps moveToBack_def shift_left.simps deleted_def)

lemma array_main_passes: "array_main = Ret ()"
  by (simp add: array_main_def contains_def c_assert_def)

end
