(* ===== verification/LinkedList.thy ===== *)
theory LinkedList
  imports CLib
begin

text \<open>
  The singly linked list of \<open>CS32/Homework  1/LinkedList.cpp\<close> on an explicit heap. An object is its
  \<open>head\<close>; an operation gets the memory and returns it changed. The allocator hands out
  ascending addresses and does not fail; a use of a freed node or of the null pointer faults.
  A loop over a list is a partial function: \<open>None\<close> when it does not end.
\<close>

subsection \<open>Nodes and memory\<close>

type_synonym ptr = "nat option"

record lnode =
  lvalue :: string
  lnext :: ptr

type_synonym lheap = "nat \<rightharpoonup> lnode"

record lmem =
  cells :: lheap
  fresh :: nat

definition load :: "lheap \<Rightarrow> ptr \<Rightarrow> lnode outcome" where
  "load h p = (case p of None \<Rightarrow> SegFault | Some a \<Rightarrow> (case h a of None \<Rightarrow> SegFault | Some n \<Rightarrow> Ret n))"

definition new_lnode :: "string \<Rightarrow> ptr \<Rightarrow> lmem \<Rightarrow> nat \<times> lmem" where
  "new_lnode v nx m = (fresh m, m\<lparr>cells := (cells m)(fresh m \<mapsto> \<lparr>lvalue = v, lnext = nx\<rparr>), fresh := Suc (fresh m)\<rparr>)"

definition delete_lnode :: "nat \<Rightarrow> lmem \<Rightarrow> lmem" where
  "delete_lnode a m = m\<lparr>cells := (cells m)(a := None)\<rparr>"

definition set_lnext :: "nat \<Rightarrow> ptr \<Rightarrow> lmem \<Rightarrow> lmem outcome" where
  "set_lnext a nx m = obind (load (cells m) (Some a)) (\<lambda>n. Ret (m\<lparr>cells := (cells m)(a \<mapsto> n\<lparr>lnext := nx\<rparr>)\<rparr>))"

definition set_lvalue :: "nat \<Rightarrow> string \<Rightarrow> lmem \<Rightarrow> lmem outcome" where
  "set_lvalue a v m = obind (load (cells m) (Some a)) (\<lambda>n. Ret (m\<lparr>cells := (cells m)(a \<mapsto> n\<lparr>lvalue := v\<rparr>)\<rparr>))"

subsection \<open>Loops\<close>

partial_function (option) size_loop :: "lheap \<Rightarrow> ptr \<Rightarrow> int \<Rightarrow> int outcome option" where
  "size_loop h traversePtr i =
     (case traversePtr of None \<Rightarrow> Some (Ret i)
      | Some a \<Rightarrow> obind2 (Some (load h (Some a))) (\<lambda>n. size_loop h (lnext n) (i + 1)))"

partial_function (option) last_loop :: "lheap \<Rightarrow> ptr \<Rightarrow> nat outcome option" where
  "last_loop h traversePtr =
     (case traversePtr of None \<Rightarrow> Some SegFault
      | Some a \<Rightarrow> obind2 (Some (load h (Some a))) (\<lambda>n. if lnext n = None then Some (Ret a) else last_loop h (lnext n)))"

partial_function (option) delete_loop :: "lmem \<Rightarrow> ptr \<Rightarrow> lmem outcome option" where
  "delete_loop m traversePtr =
     (case traversePtr of None \<Rightarrow> Some (Ret m)
      | Some a \<Rightarrow> obind2 (Some (load (cells m) (Some a))) (\<lambda>n. delete_loop (delete_lnode a m) (lnext n)))"

partial_function (option) print_loop :: "lheap \<Rightarrow> ptr \<Rightarrow> string \<Rightarrow> string outcome option" where
  "print_loop h traversePtr out =
     (case traversePtr of None \<Rightarrow> Some (Ret (out @ ''\<newline>''))
      | Some a \<Rightarrow> obind2 (Some (load h (Some a))) (\<lambda>n. print_loop h (lnext n) (out @ lvalue n @ '' '')))"

partial_function (option) get_loop :: "lheap \<Rightarrow> nat \<Rightarrow> int \<Rightarrow> nat option outcome option" where
  "get_loop h a i =
     (if i = 0 then Some (Ret (Some a))
      else obind2 (Some (load h (Some a))) (\<lambda>n.
        case lnext n of None \<Rightarrow> Some (Ret None) | Some b \<Rightarrow> get_loop h b (i - 1)))"

partial_function (option) set_loop :: "lheap \<Rightarrow> ptr \<Rightarrow> int \<Rightarrow> ptr outcome option" where
  "set_loop h p i =
     (if i = 0 then Some (Ret p) else obind2 (Some (load h p)) (\<lambda>n. set_loop h (lnext n) (i - 1)))"

subsection \<open>Operations\<close>

definition isEmpty :: "ptr \<Rightarrow> bool" where
  "isEmpty head = (head = None)"

definition list_size :: "lmem \<Rightarrow> ptr \<Rightarrow> int outcome option" where
  "list_size m head = size_loop (cells m) head 0"

definition insertToFront :: "lmem \<Rightarrow> ptr \<Rightarrow> string \<Rightarrow> lmem \<times> ptr" where
  "insertToFront m head v = (let (a, m) = new_lnode v head m in (m, Some a))"

definition insertToRear :: "lmem \<Rightarrow> ptr \<Rightarrow> string \<Rightarrow> (lmem \<times> ptr) outcome option" where
  "insertToRear m head v =
     (if isEmpty head then Some (Ret (insertToFront m head v))
      else obind2 (last_loop (cells m) head) (\<lambda>a.
        let (b, m) = new_lnode v None m in
        obind2 (Some (set_lnext a (Some b) m)) (\<lambda>m. Some (Ret (m, head)))))"

partial_function (option) copy_loop_rear :: "lmem \<Rightarrow> ptr \<Rightarrow> ptr \<Rightarrow> (lmem \<times> ptr) outcome option" where
  "copy_loop_rear m head srcPtr =
     (case srcPtr of None \<Rightarrow> Some (Ret (m, head))
      | Some a \<Rightarrow> obind2 (Some (load (cells m) (Some a))) (\<lambda>n.
          obind2 (insertToRear m head (lvalue n)) (\<lambda>r.
          obind2 (Some (load (cells (fst r)) (Some a))) (\<lambda>n. copy_loop_rear (fst r) (snd r) (lnext n)))))"

definition copy_list :: "lmem \<Rightarrow> ptr \<Rightarrow> (lmem \<times> ptr) outcome option" where
  "copy_list m rhs = (if rhs = None then Some (Ret (m, None)) else copy_loop_rear m None rhs)"

text \<open>Assignment: with an empty right-hand side the head keeps pointing to the freed nodes.\<close>

definition assign_list :: "lmem \<Rightarrow> ptr \<Rightarrow> ptr \<Rightarrow> (lmem \<times> ptr) outcome option" where
  "assign_list m this rhs =
     (if rhs = None then obind2 (delete_loop m this) (\<lambda>m. Some (Ret (m, this)))
      else if this = rhs then Some (Ret (m, this))
      else obind2 (if this \<noteq> None then delete_loop m this else Some (Ret m)) (\<lambda>m. copy_loop_rear m None rhs))"

text \<open>The loop of \<open>addItem\<close> does not move its pointer.\<close>

partial_function (option) add_item_loop :: "lmem \<Rightarrow> nat \<Rightarrow> string \<Rightarrow> lmem outcome option" where
  "add_item_loop m a v =
     obind2 (Some (load (cells m) (Some a))) (\<lambda>n.
       case lnext n of None \<Rightarrow> Some (Ret m)
       | Some b \<Rightarrow> obind2 (Some (if lvalue n < v then obind (load (cells m) (Some b)) (\<lambda>n'. Ret (lvalue n' \<ge> v))
             else Ret False)) (\<lambda>stop.
           if stop then Some (Ret m)
           else let (c, m) = new_lnode v (Some b) m in
             obind2 (Some (set_lnext a (Some c) m)) (\<lambda>m. add_item_loop m a v)))"

definition addItem :: "lmem \<Rightarrow> ptr \<Rightarrow> string \<Rightarrow> (lmem \<times> ptr) outcome option" where
  "addItem m head v =
     (if isEmpty head then Some (Ret (insertToFront m head v))
      else obind2 (Some (load (cells m) head)) (\<lambda>n.
        if v < lvalue n then Some (Ret (insertToFront m head v))
        else obind2 (add_item_loop m (the head) v) (\<lambda>m. Some (Ret (m, head)))))"

partial_function (option) delete_item_loop :: "lheap \<Rightarrow> nat \<Rightarrow> string \<Rightarrow> nat outcome option" where
  "delete_item_loop h a v =
     obind2 (Some (load h (Some a))) (\<lambda>n.
     obind2 (Some (load h (lnext n))) (\<lambda>n'.
       if lvalue n' = v then Some (Ret a) else delete_item_loop h (the (lnext n)) v))"

definition deleteItem :: "lmem \<Rightarrow> ptr \<Rightarrow> string \<Rightarrow> (lmem \<times> ptr) outcome option" where
  "deleteItem m head v =
     (case head of None \<Rightarrow> Some (Ret (m, head))
      | Some a \<Rightarrow> obind2 (Some (load (cells m) head)) (\<lambda>n.
          if lvalue n = v then Some (Ret (delete_lnode a m, lnext n))
          else obind2 (delete_item_loop (cells m) a v) (\<lambda>b.
            obind2 (Some (load (cells m) (Some b))) (\<lambda>nb.
            obind2 (Some (load (cells m) (lnext nb))) (\<lambda>place.
            obind2 (Some (set_lnext b (lnext place) m)) (\<lambda>m. Some (Ret (m, head))))))))"

definition printList :: "lmem \<Rightarrow> ptr \<Rightarrow> string outcome option" where
  "printList m head = print_loop (cells m) head []"

text \<open>\<open>get\<close> returns the new value of \<open>item\<close>, or \<open>None\<close> with the result false.\<close>

definition get_item :: "lmem \<Rightarrow> ptr \<Rightarrow> int \<Rightarrow> string option outcome option" where
  "get_item m head i =
     (case head of None \<Rightarrow> Some (Ret None)
      | Some a \<Rightarrow> obind2 (list_size m head) (\<lambda>n.
          if n = 1 \<and> i = 0 then obind2 (Some (load (cells m) head)) (\<lambda>nd. Some (Ret (Some (lvalue nd))))
          else obind2 (get_loop (cells m) a i) (\<lambda>r.
            case r of None \<Rightarrow> Some (Ret None)
            | Some b \<Rightarrow> obind2 (Some (load (cells m) (Some b))) (\<lambda>nd. Some (Ret (Some (lvalue nd)))))))"

definition set_item :: "lmem \<Rightarrow> ptr \<Rightarrow> int \<Rightarrow> string \<Rightarrow> lmem outcome option" where
  "set_item m head i item =
     obind2 (list_size m head) (\<lambda>n.
       if i \<ge> n then Some (Ret m)
       else obind2 (set_loop (cells m) head i) (\<lambda>p.
         case p of None \<Rightarrow> Some SegFault | Some a \<Rightarrow> Some (set_lvalue a item m)))"

text \<open>A call of \<open>get\<close> that returns false leaves the local string empty.\<close>

definition got :: "string option \<Rightarrow> string" where
  "got r = (case r of None \<Rightarrow> [] | Some x \<Rightarrow> x)"

partial_function (option) reverse_loop :: "lmem \<Rightarrow> ptr \<Rightarrow> ptr \<Rightarrow> int \<Rightarrow> lmem outcome option" where
  "reverse_loop m head frontPtr k =
     obind2 (list_size m head) (\<lambda>n.
       if k < c_div n 2 then Some (Ret m)
       else obind2 (Some (load (cells m) frontPtr)) (\<lambda>f.
            obind2 (get_item m head k) (\<lambda>x.
            obind2 (set_item m head k (lvalue f)) (\<lambda>m.
            obind2 (Some (set_lvalue (the frontPtr) (got x) m)) (\<lambda>m.
            obind2 (Some (load (cells m) frontPtr)) (\<lambda>f. reverse_loop m head (lnext f) (k - 1)))))))"

definition reverseList :: "lmem \<Rightarrow> ptr \<Rightarrow> lmem outcome option" where
  "reverseList m head = obind2 (list_size m head) (\<lambda>n. reverse_loop m head head (n - 1))"

partial_function (option) print_reverse_loop :: "lmem \<Rightarrow> ptr \<Rightarrow> int \<Rightarrow> string \<Rightarrow> string outcome option" where
  "print_reverse_loop m head k out =
     (if k \<ge> 0
      then obind2 (get_item m head k) (\<lambda>x. print_reverse_loop m head (k - 1) (out @ got x @ '' ''))
      else Some (Ret (out @ ''\<newline>'')))"

definition printReverse :: "lmem \<Rightarrow> ptr \<Rightarrow> string outcome option" where
  "printReverse m head = obind2 (list_size m head) (\<lambda>n. print_reverse_loop m head (n - 1) [])"

partial_function (option) append_loop :: "lmem \<Rightarrow> nat \<Rightarrow> ptr \<Rightarrow> lmem outcome option" where
  "append_loop m endPtr otherPtr =
     (case otherPtr of None \<Rightarrow> Some (Ret m)
      | Some a \<Rightarrow> obind2 (Some (load (cells m) (Some a))) (\<lambda>n.
          let (b, m) = new_lnode (lvalue n) None m in
          obind2 (Some (set_lnext endPtr (Some b) m)) (\<lambda>m.
          obind2 (Some (load (cells m) (Some a))) (\<lambda>n. append_loop m b (lnext n)))))"

definition append_list :: "lmem \<Rightarrow> ptr \<Rightarrow> ptr \<Rightarrow> lmem outcome option" where
  "append_list m this other = obind2 (last_loop (cells m) this) (\<lambda>a. append_loop m a other)"

text \<open>\<open>swap\<close> with its temporary object, which is destroyed at the end.\<close>

definition swap_lists :: "lmem \<Rightarrow> ptr \<Rightarrow> ptr \<Rightarrow> (lmem \<times> ptr \<times> ptr) outcome option" where
  "swap_lists m this other =
     obind2 (copy_list m other) (\<lambda>r1.
     obind2 (assign_list (fst r1) other this) (\<lambda>r2.
     obind2 (assign_list (fst r2) this (snd r1)) (\<lambda>r3.
     obind2 (delete_loop (fst r3) (snd r1)) (\<lambda>m. Some (Ret (m, snd r3, snd r2))))))"

definition ll_main :: "unit outcome option" where
  "ll_main =
     (let m0 = \<lparr>cells = Map.empty, fresh = 1\<rparr>;
          build = foldl (\<lambda>(m, p) v. insertToFront m p v);
          (m1, e1) = build (m0, None) [''A'', ''B'', ''C'', ''D''];
          (m2, e2) = build (m1, None) [''X'', ''Y'', ''Z''] in
      obind2 (swap_lists m2 e1 e2) (\<lambda>(m, e1, e2).
      obind2 (list_size m e1) (\<lambda>n1. obind2 (get_item m e1 0) (\<lambda>s.
      obind2 (Some (c_assert (n1 = 3 \<and> s = Some ''Z''))) (\<lambda>_.
      obind2 (list_size m e2) (\<lambda>n2. obind2 (get_item m e2 2) (\<lambda>s.
      obind2 (Some (c_assert (n2 = 4 \<and> s = Some ''B''))) (\<lambda>_.
      obind2 (delete_loop m e2) (\<lambda>m. obind2 (delete_loop m e1) (\<lambda>m. Some (Ret ())))))))))))"

end
