(* ===== verification/LinkedListProps.thy ===== *)
theory LinkedListProps
  imports LinkedList
begin

text \<open>
  The operations of \<open>CS32/Homework  1/LinkedList.cpp\<close> on well-formed lists: what they do to the
  sequence of values, which nodes they use, and the calls that fault or do not end.
\<close>

subsection \<open>Lists on the heap\<close>

fun lpath :: "lheap \<Rightarrow> ptr \<Rightarrow> nat list \<Rightarrow> bool" where
  "lpath h p [] \<longleftrightarrow> p = None"
| "lpath h p (a # as) \<longleftrightarrow> p = Some a \<and> (\<exists>n. h a = Some n \<and> lpath h (lnext n) as)"

definition val_at :: "lheap \<Rightarrow> nat \<Rightarrow> string" where
  "val_at h a = (case h a of None \<Rightarrow> [] | Some n \<Rightarrow> lvalue n)"

abbreviation vals :: "lheap \<Rightarrow> nat list \<Rightarrow> string list" where
  "vals h as \<equiv> map (val_at h) as"

definition mem_ok :: "lmem \<Rightarrow> bool" where
  "mem_ok m \<longleftrightarrow> (\<forall>a. cells m a \<noteq> None \<longrightarrow> a < fresh m)"

lemma lpath_unique: "lpath h p as \<Longrightarrow> lpath h p bs \<Longrightarrow> as = bs"
proof (induction as arbitrary: p bs)
  case (Cons a as)
  then show ?case by (cases bs) auto
next
  case Nil
  then show ?case by (cases bs) auto
qed

lemma lpath_suffix: "lpath h p (as @ a # bs) \<Longrightarrow> lpath h (Some a) (a # bs)"
  by (induction as arbitrary: p) auto

lemma lpath_distinct: "lpath h p as \<Longrightarrow> distinct as"
proof (induction as arbitrary: p)
  case (Cons a as)
  have "a \<notin> set as"
  proof
    assume "a \<in> set as"
    then obtain xs ys where as: "as = xs @ a # ys" by (auto simp: in_set_conv_decomp)
    have "lpath h (Some a) (a # ys)" using Cons.prems lpath_suffix [of h p "a # xs" a ys] by (simp add: as)
    moreover have "lpath h (Some a) (a # as)" using Cons.prems by simp
    ultimately have "a # as = a # ys" by (rule lpath_unique [rotated])
    then show False by (simp add: as)
  qed
  with Cons show ?case by auto
qed simp

lemma lpath_frame: "\<forall>a \<in> set as. h' a = h a \<Longrightarrow> lpath h' p as = lpath h p as"
  by (induction as arbitrary: p) auto

lemma lpath_next_frame: "\<forall>a \<in> set as. map_option lnext (h' a) = map_option lnext (h a) \<Longrightarrow> lpath h' p as = lpath h p as"
proof (induction as arbitrary: p)
  case (Cons a as)
  then have "map_option lnext (h' a) = map_option lnext (h a)" by simp
  then show ?case using Cons by (cases "h a"; cases "h' a") auto
qed simp

lemma vals_frame: "\<forall>a \<in> set as. h' a = h a \<Longrightarrow> vals h' as = vals h as"
  by (simp add: val_at_def)

lemma lpath_alloc: "lpath h p as \<Longrightarrow> a \<in> set as \<Longrightarrow> h a \<noteq> None"
  by (induction as arbitrary: p) auto

lemma lpath_fresh: "mem_ok m \<Longrightarrow> lpath (cells m) p as \<Longrightarrow> a \<in> set as \<Longrightarrow> a < fresh m"
  using lpath_alloc unfolding mem_ok_def by blast

lemma lpath_snoc_append:
  assumes "lpath h p (as @ [a])" and "h' b = Some \<lparr>lvalue = v, lnext = nx\<rparr>" and "lpath h' nx cs"
    and "map_option lnext (h' a) = Some (Some b)" and "\<forall>x \<in> set as. map_option lnext (h' x) = map_option lnext (h x)"
  shows "lpath h' p (as @ a # b # cs)"
  using assms by (induction as arbitrary: p) (auto simp: map_option_eq_Some)

subsection \<open>Loops that only read\<close>

lemma size_loop_eq: "lpath h p as \<Longrightarrow> size_loop h p i = Some (Ret (i + int (length as)))"
  by (induction as arbitrary: p i) (auto simp: size_loop.simps load_def)

lemma list_size_eq: "lpath (cells m) p as \<Longrightarrow> list_size m p = Some (Ret (int (length as)))"
  by (simp add: list_size_def size_loop_eq)

lemma last_loop_eq: "lpath h p as \<Longrightarrow> as \<noteq> [] \<Longrightarrow> last_loop h p = Some (Ret (last as))"
proof (induction as arbitrary: p)
  case (Cons a as)
  then show ?case by (cases as) (auto simp: last_loop.simps load_def)
qed simp

lemma print_loop_eq:
  "lpath h p as \<Longrightarrow> print_loop h p out = Some (Ret (out @ concat (map (\<lambda>v. v @ '' '') (vals h as)) @ ''\<newline>''))"
  by (induction as arbitrary: p out) (auto simp: print_loop.simps load_def val_at_def)

lemma get_loop_eq:
  "lpath h (Some a) (a # as) \<Longrightarrow>
    get_loop h a i = Some (Ret (if 0 \<le> i \<and> i < int (Suc (length as)) then Some ((a # as) ! nat i) else None))"
proof (induction as arbitrary: a i)
  case Nil
  then show ?case by (auto simp: get_loop.simps load_def)
next
  case (Cons b as)
  then have "get_loop h b (i - 1) =
      Some (Ret (if 0 \<le> i - 1 \<and> i - 1 < int (Suc (length as)) then Some ((b # as) ! nat (i - 1)) else None))"
    by (intro Cons.IH) auto
  with Cons.prems show ?case
    by (auto simp: get_loop.simps [of h a i] load_def nth_Cons' nat_diff_distrib')
qed

lemma get_item_eq:
  assumes "lpath (cells m) p as"
  shows "get_item m p i = Some (Ret (if 0 \<le> i \<and> i < int (length as) then Some (vals (cells m) as ! nat i) else None))"
proof (cases as)
  case Nil
  with assms show ?thesis by (simp add: get_item_def)
next
  case (Cons a bs)
  have nth: "\<exists>n. cells m (as ! nat i) = Some n \<and> vals (cells m) as ! nat i = lvalue n"
    if "0 \<le> i" "i < int (length as)"
  proof -
    have "nat i < length as" using that by simp
    moreover from this have "cells m (as ! nat i) \<noteq> None" using lpath_alloc [OF assms] by simp
    ultimately show ?thesis by (auto simp: val_at_def)
  qed
  have "get_loop (cells m) a i = Some (Ret (if 0 \<le> i \<and> i < int (length as) then Some (as ! nat i) else None))"
    using assms Cons get_loop_eq [of "cells m" a bs i] by simp
  moreover have "i = 0 \<Longrightarrow> load (cells m) p = Ret n \<Longrightarrow> lvalue n = vals (cells m) as ! 0" for n
    using assms Cons by (auto simp: load_def val_at_def)
  moreover have "p = Some a" "load (cells m) p \<noteq> SegFault" "\<exists>n. load (cells m) p = Ret n"
    using assms Cons by (auto simp: load_def)
  ultimately show ?thesis using nth list_size_eq [OF assms]
    by (auto simp: get_item_def load_def)
qed

lemma set_loop_eq:
  "lpath h p as \<Longrightarrow> i < length as \<Longrightarrow> set_loop h p (int i) = Some (Ret (Some (as ! i)))"
proof (induction as arbitrary: p i)
  case (Cons a as)
  then show ?case by (cases i) (auto simp: set_loop.simps [of h] load_def)
qed simp

lemma delete_loop_eq:
  "lpath (cells m) p as \<Longrightarrow> delete_loop m p = Some (Ret (m\<lparr>cells := cells m |` (- set as)\<rparr>))"
proof (induction as arbitrary: m p)
  case Nil
  then show ?case by (simp add: delete_loop.simps)
next
  case (Cons a as)
  from Cons.prems obtain n where n: "p = Some a" "cells m a = Some n" "lpath (cells m) (lnext n) as" by auto
  have "a \<notin> set as" using lpath_distinct [OF Cons.prems] by simp
  then have "lpath (cells (delete_lnode a m)) (lnext n) as"
    using n(3) lpath_frame [of as "cells (delete_lnode a m)" "cells m"] by (auto simp: delete_lnode_def)
  from Cons.IH [OF this] n have "delete_loop m p =
      Some (Ret (delete_lnode a m\<lparr>cells := cells (delete_lnode a m) |` (- set as)\<rparr>))"
    by (subst delete_loop.simps) (simp add: load_def)
  moreover have "cells (delete_lnode a m) |` (- set as) = cells m |` (- set (a # as))"
    by (auto simp: delete_lnode_def restrict_map_def fun_eq_iff)
  ultimately show ?case by (simp add: delete_lnode_def)
qed

subsection \<open>Values\<close>

definition put_value :: "nat \<Rightarrow> string \<Rightarrow> lmem \<Rightarrow> lmem" where
  "put_value a v m = m\<lparr>cells := (cells m)(a := map_option (\<lambda>n. n\<lparr>lvalue := v\<rparr>) (cells m a))\<rparr>"

lemma set_lvalue_eq: "cells m a \<noteq> None \<Longrightarrow> set_lvalue a v m = Ret (put_value a v m)"
  by (auto simp: set_lvalue_def load_def put_value_def)

lemma lpath_put_value [simp]: "lpath (cells (put_value a v m)) p as = lpath (cells m) p as"
  by (rule lpath_next_frame) (simp add: put_value_def option.map_comp o_def)

lemma vals_put_value:
  "lpath (cells m) p as \<Longrightarrow> i < length as \<Longrightarrow> vals (cells (put_value (as ! i) v m)) as = (vals (cells m) as)[i := v]"
  using lpath_distinct [of "cells m" p as] lpath_alloc [of "cells m" p as "as ! i"]
  by (auto intro!: nth_equalityI simp: put_value_def val_at_def nth_list_update nth_eq_iff_index_eq split: option.splits)

lemma cells_put_value_other [simp]: "b \<noteq> a \<Longrightarrow> cells (put_value a v m) b = cells m b"
  by (simp add: put_value_def)

lemma set_item_eq:
  assumes "lpath (cells m) p as"
  shows "set_item m p (int i) v = Some (Ret (if i < length as then put_value (as ! i) v m else m))"
proof (cases "i < length as")
  case True
  have "cells m (as ! i) \<noteq> None" using lpath_alloc [OF assms] True by simp
  with True assms show ?thesis
    by (simp add: set_item_def list_size_eq set_loop_eq set_lvalue_eq)
qed (use assms in \<open>simp add: set_item_def list_size_eq\<close>)

text \<open>The list while it is reversed: the outer \<open>i\<close> values on either side are in place.\<close>

definition half_reversed :: "nat \<Rightarrow> 'a list \<Rightarrow> 'a list" where
  "half_reversed i xs = map (\<lambda>j. if j < i \<or> length xs - i \<le> j then rev xs ! j else xs ! j) [0..<length xs]"

lemma half_reversed_step:
  assumes "2 * i < length xs"
  defines "k \<equiv> length xs - Suc i"
  shows "(half_reversed i xs)[k := half_reversed i xs ! i, i := half_reversed i xs ! k] = half_reversed (Suc i) xs"
  using assms by (auto intro!: nth_equalityI simp: half_reversed_def nth_list_update rev_nth less_Suc_eq)

lemma half_reversed_end: "length xs \<le> 2 * i + 1 \<Longrightarrow> half_reversed i xs = rev xs"
proof (rule nth_equalityI)
  assume len: "length xs \<le> 2 * i + 1"
  show "half_reversed i xs ! j = rev xs ! j" if "j < length (half_reversed i xs)" for j
  proof (cases "j < i \<or> length xs - i \<le> j")
    case False
    with len that have "length xs - Suc j = j" by (simp add: half_reversed_def) arith
    with that show ?thesis by (simp add: half_reversed_def rev_nth)
  qed (use that in \<open>simp add: half_reversed_def\<close>)
qed (simp add: half_reversed_def)

lemma reverse_loop_eq:
  assumes "lpath (cells m) p as" and "vals (cells m) as = half_reversed i xs" and "length as = length xs"
    and "i \<le> length xs" and "lpath (cells m) front (drop i as)"
  shows "\<exists>m'. reverse_loop m p front (int (length xs) - 1 - int i) = Some (Ret m') \<and> lpath (cells m') p as \<and>
    vals (cells m') as = rev xs \<and> fresh m' = fresh m \<and> (\<forall>a. a \<notin> set as \<longrightarrow> cells m' a = cells m a)"
  using assms
proof (induction "length xs - i" arbitrary: m i front)
  case 0
  then have "i = length xs" by simp
  with 0 show ?case
    by (subst reverse_loop.simps) (auto simp: list_size_eq c_div_nonneg half_reversed_end)
next
  case (Suc d)
  let ?n = "length xs" and ?k = "length xs - Suc i"
  have i: "i < ?n" using Suc by simp
  have half: "c_div (int ?n) 2 = int (?n div 2)" by (simp add: c_div_nonneg zdiv_int)
  have kk: "int ?n - 1 - int i = int ?k" using i by (simp add: of_nat_diff)
  show ?case
  proof (cases "2 * i < ?n")
    case False
    then have "?k < ?n div 2" using i by presburger
    then show ?thesis using Suc.prems False half kk
      by (subst reverse_loop.simps) (auto simp: list_size_eq half_reversed_end)
  next
    case True
    then have ge: "\<not> ?k < ?n div 2" by presburger
    let ?hs = "half_reversed i xs" and ?a = "as ! i" and ?b = "as ! ?k"
    define m1 where "m1 = put_value ?b (?hs ! i) m"
    define m2 where "m2 = put_value ?a (?hs ! ?k) m1"
    have dr: "drop i as = ?a # drop (Suc i) as" using i Suc.prems(3) by (simp add: Cons_nth_drop_Suc)
    then obtain n where front: "front = Some ?a" "cells m ?a = Some n" "lpath (cells m) (lnext n) (drop (Suc i) as)"
      using Suc.prems(5) by auto
    have "vals (cells m) as ! i = ?hs ! i" using Suc.prems(2) by simp
    then have vn: "lvalue n = ?hs ! i" using front(2) i Suc.prems(3) by (simp add: val_at_def)
    have get: "get_item m p (int ?k) = Some (Ret (Some (?hs ! ?k)))"
      using get_item_eq [OF Suc.prems(1), of "int ?k", unfolded nat_int] Suc.prems(2,3) i by (simp del: of_nat_diff)
    have set1: "set_item m p (int ?k) (?hs ! i) = Some (Ret m1)"
      using set_item_eq [OF Suc.prems(1), of ?k] Suc.prems(3) i by (simp add: m1_def)
    have ca: "cells m1 ?a \<noteq> None" using front(2) by (auto simp: m1_def put_value_def)
    then have set2: "set_lvalue ?a (?hs ! ?k) m1 = Ret m2" by (simp add: set_lvalue_eq m2_def)
    have paths: "lpath (cells m2) q bs = lpath (cells m) q bs" for q bs by (simp add: m2_def m1_def)
    obtain n2 where n2: "cells m2 ?a = Some n2" "lpath (cells m2) (lnext n2) (drop (Suc i) as)"
      using Suc.prems(5) dr paths [of front "drop i as"] front(1) by auto
    have "vals (cells m2) as = ?hs[?k := ?hs ! i, i := ?hs ! ?k]"
      using Suc.prems(1,2,3) i by (simp add: m2_def vals_put_value) (simp add: m1_def vals_put_value)
    then have "vals (cells m2) as = half_reversed (Suc i) xs" using half_reversed_step [OF True] by simp
    moreover have "lpath (cells m2) p as" using Suc.prems(1) paths by simp
    moreover have "d = ?n - Suc i" using Suc.hyps(2) by simp
    ultimately obtain m' where m': "reverse_loop m2 p (lnext n2) (int ?n - 1 - int (Suc i)) = Some (Ret m')"
        "lpath (cells m') p as" "vals (cells m') as = rev xs" "fresh m' = fresh m2"
        "\<forall>a. a \<notin> set as \<longrightarrow> cells m' a = cells m2 a"
      using Suc.hyps(1) [of "Suc i" m2 "lnext n2"] Suc.prems(3) n2(2) i by auto
    have "reverse_loop m p front (int ?k) = reverse_loop m2 p (lnext n2) (int ?k - 1)"
      using ge half get set1 set2 front vn n2(1) list_size_eq [OF Suc.prems(1)] Suc.prems(3)
      by (subst reverse_loop.simps) (simp add: load_def got_def)
    then have "reverse_loop m p front (int ?n - 1 - int i) = Some (Ret m')"
      unfolding kk using m'(1) i by (simp add: of_nat_diff algebra_simps)
    moreover have "cells m2 a = cells m a" if "a \<notin> set as" for a
    proof -
      have "?a \<in> set as" "?b \<in> set as" using i Suc.prems(3) by simp_all
      then have "a \<noteq> ?a" "a \<noteq> ?b" using that by auto
      then show ?thesis by (simp add: m2_def m1_def)
    qed
    moreover have "fresh m2 = fresh m" by (simp add: m2_def m1_def put_value_def)
    ultimately show ?thesis using m' by auto
  qed
qed

lemma reverseList_rev:
  assumes "lpath (cells m) p as"
  shows "\<exists>m'. reverseList m p = Some (Ret m') \<and> lpath (cells m') p as \<and>
    vals (cells m') as = rev (vals (cells m) as) \<and> fresh m' = fresh m \<and>
    (\<forall>a. a \<notin> set as \<longrightarrow> cells m' a = cells m a)"
proof -
  have "half_reversed 0 (vals (cells m) as) = vals (cells m) as"
    by (auto intro!: nth_equalityI simp: half_reversed_def)
  then show ?thesis
    using reverse_loop_eq [OF assms, of 0 "vals (cells m) as" p] assms
    by (simp add: reverseList_def list_size_eq)
qed

subsection \<open>Insertion, copies, assignment\<close>

text \<open>
  \<open>grown m as m'\<close>: the memory has got new cells; of the old ones at most those of \<open>as\<close> have
  changed, and not their values.
\<close>

definition grown :: "lmem \<Rightarrow> nat list \<Rightarrow> lmem \<Rightarrow> bool" where
  "grown m as m' \<longleftrightarrow> mem_ok m' \<and> fresh m \<le> fresh m' \<and>
     (\<forall>a < fresh m. a \<notin> set as \<longrightarrow> cells m' a = cells m a) \<and>
     (\<forall>a \<in> set as. val_at (cells m') a = val_at (cells m) a)"

lemma grown_refl: "mem_ok m \<Longrightarrow> grown m as m"
  by (simp add: grown_def)

lemma insertToFront_eq:
  assumes "mem_ok m" and "lpath (cells m) p as"
  obtains m' where "insertToFront m p v = (m', Some (fresh m))" and "lpath (cells m') (Some (fresh m)) (fresh m # as)"
    and "vals (cells m') (fresh m # as) = v # vals (cells m) as" and "fresh m' = Suc (fresh m)" and "grown m [] m'"
proof -
  let ?m = "m\<lparr>cells := (cells m)(fresh m \<mapsto> \<lparr>lvalue = v, lnext = p\<rparr>), fresh := Suc (fresh m)\<rparr>"
  have old: "\<forall>a \<in> set as. cells ?m a = cells m a" using lpath_fresh [OF assms] by auto
  have "lpath (cells ?m) p as" unfolding lpath_frame [OF old] by (rule assms(2))
  moreover have "vals (cells ?m) as = vals (cells m) as" using old by (rule vals_frame)
  moreover have "mem_ok ?m" using assms(1) by (auto simp: mem_ok_def less_Suc_eq split: if_splits)
  ultimately show thesis
    by (intro that [of ?m]) (auto simp: insertToFront_def new_lnode_def val_at_def grown_def)
qed

text \<open>A new node behind the last one, as \<open>insertToRear\<close> and \<open>append\<close> link it.\<close>

lemma snoc_cell:
  assumes ok: "mem_ok m" and as: "lpath (cells m) p as" and ne: "as \<noteq> []"
  obtains m' where "set_lnext (last as) (Some (fresh m)) (snd (new_lnode v None m)) = Ret m'"
    and "lpath (cells m') p (as @ [fresh m])" and "vals (cells m') (as @ [fresh m]) = vals (cells m) as @ [v]"
    and "fresh m' = Suc (fresh m)" and "grown m as m'"
proof -
  obtain bs b where bs: "as = bs @ [b]" using ne by (metis append_butlast_last_id)
  have new: "fresh m \<notin> set as" using lpath_fresh [OF ok as] by blast
  obtain n where n: "cells m b = Some n" using lpath_alloc [OF as, of b] bs by auto
  define m' where "m' = m\<lparr>fresh := Suc (fresh m),
    cells := (cells m)(fresh m \<mapsto> \<lparr>lvalue = v, lnext = None\<rparr>, b \<mapsto> n\<lparr>lnext := Some (fresh m)\<rparr>)\<rparr>"
  have bf: "b \<noteq> fresh m" using new bs by auto
  have bb: "b \<notin> set bs" using lpath_distinct [OF as] bs by auto
  have "set_lnext b (Some (fresh m)) (snd (new_lnode v None m)) = Ret m'"
    using n bf by (simp add: new_lnode_def set_lnext_def load_def m'_def)
  moreover have "lpath (cells m') p (bs @ [b, fresh m])"
  proof (rule lpath_snoc_append)
    show "lpath (cells m) p (bs @ [b])" using as bs by simp
    show "\<forall>x \<in> set bs. map_option lnext (cells m' x) = map_option lnext (cells m x)"
      using new bb bs by (auto simp: m'_def)
  qed (use bf in \<open>simp_all add: m'_def\<close>)
  moreover have "val_at (cells m') a = val_at (cells m) a" if "a \<in> set as" for a
    using that new n by (auto simp: m'_def val_at_def)
  moreover have "mem_ok m'" using ok n bf by (auto simp: mem_ok_def m'_def less_Suc_eq split: if_splits)
  moreover have "val_at (cells m') (fresh m) = v" using bf by (simp add: m'_def val_at_def)
  moreover have "cells m' a = cells m a" if "a < fresh m" "a \<notin> set as" for a
    using that bs by (auto simp: m'_def)
  ultimately show thesis using bs by (intro that [of m']) (auto simp: grown_def m'_def)
qed

lemma insertToRear_eq:
  assumes ok: "mem_ok m" and as: "lpath (cells m) p as"
  obtains m' p' where "insertToRear m p v = Some (Ret (m', p'))" and "lpath (cells m') p' (as @ [fresh m])"
    and "vals (cells m') (as @ [fresh m]) = vals (cells m) as @ [v]" and "fresh m' = Suc (fresh m)" and "grown m as m'"
proof (cases "as = []")
  case True
  then have p: "p = None" using as by simp
  obtain m' where "insertToFront m p v = (m', Some (fresh m))" "lpath (cells m') (Some (fresh m)) (fresh m # as)"
    "vals (cells m') (fresh m # as) = v # vals (cells m) as" "fresh m' = Suc (fresh m)" "grown m [] m'"
    by (rule insertToFront_eq [OF ok as])
  then show thesis using True p by (intro that [of m' "Some (fresh m)"]) (auto simp: insertToRear_def isEmpty_def)
next
  case False
  have p: "p \<noteq> None" using as False by (cases as) auto
  obtain m' where m': "set_lnext (last as) (Some (fresh m)) (snd (new_lnode v None m)) = Ret m'"
    "lpath (cells m') p (as @ [fresh m])" "vals (cells m') (as @ [fresh m]) = vals (cells m) as @ [v]"
    "fresh m' = Suc (fresh m)" "grown m as m'"
    by (rule snoc_cell [OF ok as False])
  have "fst (new_lnode v None m) = fresh m" by (simp add: new_lnode_def)
  then have "insertToRear m p v = Some (Ret (m', p))"
    using p last_loop_eq [OF as False] m'(1) by (auto simp: insertToRear_def isEmpty_def split_beta)
  with m' show thesis by (intro that [of m' p])
qed

lemma grown_trans:
  assumes "grown m as m1" and "grown m1 (as @ bs) m2" and "\<forall>b \<in> set bs. fresh m \<le> b"
  shows "grown m as m2"
  using assms unfolding grown_def by (auto simp: not_le [symmetric] dest: order_trans)

lemma copy_loop_rear_eq:
  assumes "mem_ok m" and "lpath (cells m) p as" and "lpath (cells m) src bs" and "set as \<inter> set bs = {}"
  obtains m' p' cs where "copy_loop_rear m p src = Some (Ret (m', p'))" and "lpath (cells m') p' (as @ cs)"
    and "vals (cells m') (as @ cs) = vals (cells m) as @ vals (cells m) bs"
    and "set cs = {fresh m..<fresh m'}" and "grown m as m'"
  using assms
proof (induction bs arbitrary: m p as src thesis)
  case Nil
  then show ?case by (intro Nil.prems(1) [of m p "[]"]) (simp_all add: copy_loop_rear.simps grown_refl)
next
  case (Cons b bs)
  from Cons.prems obtain n where n: "src = Some b" "cells m b = Some n" "lpath (cells m) (lnext n) bs" by auto
  obtain m1 p1 where 1: "insertToRear m p (lvalue n) = Some (Ret (m1, p1))" "lpath (cells m1) p1 (as @ [fresh m])"
    "vals (cells m1) (as @ [fresh m]) = vals (cells m) as @ [lvalue n]" "fresh m1 = Suc (fresh m)" "grown m as m1"
    by (rule insertToRear_eq [OF Cons.prems(2,3)])
  have old: "\<forall>a \<in> set (b # bs). cells m1 a = cells m a"
    using lpath_fresh [OF Cons.prems(2,4)] Cons.prems(5) 1(5) unfolding grown_def by blast
  have bs: "lpath (cells m1) (lnext n) bs" using n(3) lpath_frame [of bs "cells m1" "cells m"] old by simp
  have dj: "set (as @ [fresh m]) \<inter> set bs = {}"
    using Cons.prems(5) lpath_fresh [OF Cons.prems(2,4)] by auto
  obtain m' p' cs where 2: "copy_loop_rear m1 p1 (lnext n) = Some (Ret (m', p'))"
    "lpath (cells m') p' ((as @ [fresh m]) @ cs)"
    "vals (cells m') ((as @ [fresh m]) @ cs) = vals (cells m1) (as @ [fresh m]) @ vals (cells m1) bs"
    "set cs = {fresh m1..<fresh m'}" "grown m1 (as @ [fresh m]) m'"
    by (rule Cons.IH [OF _ _ 1(2) bs dj]) (use 1(5) in \<open>auto simp: grown_def\<close>)
  have "vals (cells m1) bs = vals (cells m) bs" using old by (intro vals_frame) auto
  moreover have "copy_loop_rear m p src = Some (Ret (m', p'))"
    using n 1(1) 2(1) old by (subst copy_loop_rear.simps) (simp add: load_def)
  moreover have "lvalue n = val_at (cells m) b" using n(2) by (simp add: val_at_def)
  moreover have "grown m as m'" by (rule grown_trans [OF 1(5) 2(5)]) simp
  moreover have "fresh m < fresh m'" using 1(4) 2(5) by (simp add: grown_def)
  ultimately show ?case using 1 2 by (intro Cons.prems(1) [of m' p' "fresh m # cs"]) auto
qed

lemma copy_list_eq:
  assumes "mem_ok m" and "lpath (cells m) rhs bs"
  obtains m' p' cs where "copy_list m rhs = Some (Ret (m', p'))" and "lpath (cells m') p' cs"
    and "vals (cells m') cs = vals (cells m) bs" and "set cs = {fresh m..<fresh m'}" and "grown m [] m'"
proof -
  obtain m' p' cs where "copy_loop_rear m None rhs = Some (Ret (m', p'))" "lpath (cells m') p' ([] @ cs)"
    "vals (cells m') ([] @ cs) = vals (cells m) [] @ vals (cells m) bs" "set cs = {fresh m..<fresh m'}" "grown m [] m'"
    by (rule copy_loop_rear_eq [of m None "[]" rhs bs]) (use assms in auto)
  then show thesis by (intro that [of m' p' cs]) (auto simp: copy_list_def copy_loop_rear.simps)
qed

lemma mem_ok_restrict: "mem_ok m \<Longrightarrow> mem_ok (m\<lparr>cells := cells m |` A\<rparr>)"
  by (auto simp: mem_ok_def restrict_map_def)

lemma assign_list_eq:
  assumes "mem_ok m" and "lpath (cells m) p as" and "lpath (cells m) rhs bs" and "set as \<inter> set bs = {}"
    and "bs \<noteq> []"
  obtains m' p' cs where "assign_list m p rhs = Some (Ret (m', p'))" and "lpath (cells m') p' cs"
    and "vals (cells m') cs = vals (cells m) bs" and "set cs = {fresh m..<fresh m'}" and "mem_ok m'"
    and "fresh m \<le> fresh m'" and "\<forall>a < fresh m. cells m' a = (if a \<in> set as then None else cells m a)"
proof -
  define m1 where "m1 = m\<lparr>cells := cells m |` (- set as)\<rparr>"
  have rhs: "rhs \<noteq> None" using assms(3,5) by (cases bs) auto
  have ne: "p \<noteq> rhs"
  proof
    assume "p = rhs"
    then have "as = bs" using assms(2,3) lpath_unique by blast
    with assms(4,5) show False by simp
  qed
  have old: "\<forall>a \<in> set bs. cells m1 a = cells m a" using assms(4) by (auto simp: m1_def restrict_map_def)
  have del: "(if p \<noteq> None then delete_loop m p else Some (Ret m)) = Some (Ret m1)"
    using delete_loop_eq [OF assms(2)] assms(2) by (cases as) (auto simp: m1_def restrict_map_def)
  have m1: "mem_ok m1" "lpath (cells m1) rhs bs"
    using mem_ok_restrict [OF assms(1)] lpath_frame [OF old] assms(3) by (simp_all add: m1_def)
  obtain m' p' cs where c: "copy_loop_rear m1 None rhs = Some (Ret (m', p'))" "lpath (cells m') p' ([] @ cs)"
    "vals (cells m') ([] @ cs) = vals (cells m1) [] @ vals (cells m1) bs" "set cs = {fresh m1..<fresh m'}" "grown m1 [] m'"
    by (rule copy_loop_rear_eq [OF m1(1), of None "[]" rhs bs]) (use m1(2) in auto)
  have "assign_list m p rhs = Some (Ret (m', p'))"
    using rhs ne del c(1) unfolding assign_list_def by (cases "p = None") auto
  moreover have "vals (cells m1) bs = vals (cells m) bs" using old by (rule vals_frame)
  ultimately show thesis
    using c by (intro that [of m' p' cs]) (auto simp: m1_def grown_def restrict_map_def)
qed

text \<open>The values of a list and its nodes in one.\<close>

definition holds_list :: "lmem \<Rightarrow> ptr \<Rightarrow> nat list \<Rightarrow> string list \<Rightarrow> bool" where
  "holds_list m p as xs \<longleftrightarrow> lpath (cells m) p as \<and> vals (cells m) as = xs"

lemma holds_list_keep:
  "holds_list m p as xs \<Longrightarrow> (\<And>a. a \<in> set as \<Longrightarrow> cells m' a = cells m a) \<Longrightarrow> holds_list m' p as xs"
  unfolding holds_list_def using lpath_frame [of as "cells m'" "cells m"] vals_frame [of as "cells m'" "cells m"] by simp

lemma holds_list_dom: "holds_list m p as xs \<Longrightarrow> a \<in> set as \<Longrightarrow> cells m a \<noteq> None"
  unfolding holds_list_def using lpath_alloc by blast

lemma holds_list_fresh: "mem_ok m \<Longrightarrow> holds_list m p as xs \<Longrightarrow> a \<in> set as \<Longrightarrow> a < fresh m"
  unfolding holds_list_def using lpath_fresh by blast

lemma copied:
  assumes "mem_ok m" and "holds_list m rhs bs ys"
  obtains m' p' cs where "copy_list m rhs = Some (Ret (m', p'))" and "holds_list m' p' cs ys"
    and "set cs = {fresh m..<fresh m'}" and "mem_ok m'" and "fresh m \<le> fresh m'"
    and "\<And>a. a < fresh m \<Longrightarrow> cells m' a = cells m a"
proof -
  obtain m' p' cs where "copy_list m rhs = Some (Ret (m', p'))" "lpath (cells m') p' cs"
    "vals (cells m') cs = vals (cells m) bs" "set cs = {fresh m..<fresh m'}" "grown m [] m'"
    by (rule copy_list_eq [OF assms(1), of rhs bs]) (use assms(2) in \<open>simp add: holds_list_def\<close>)
  then show thesis using assms(2) by (intro that [of m' p' cs]) (auto simp: holds_list_def grown_def)
qed

lemma assigned:
  assumes "mem_ok m" and "holds_list m p as xs" and "holds_list m rhs bs ys" and "set as \<inter> set bs = {}" and "ys \<noteq> []"
  obtains m' p' cs where "assign_list m p rhs = Some (Ret (m', p'))" and "holds_list m' p' cs ys"
    and "set cs = {fresh m..<fresh m'}" and "mem_ok m'" and "fresh m \<le> fresh m'"
    and "\<And>a. a < fresh m \<Longrightarrow> cells m' a = (if a \<in> set as then None else cells m a)"
proof -
  obtain m' p' cs where "assign_list m p rhs = Some (Ret (m', p'))" "lpath (cells m') p' cs"
    "vals (cells m') cs = vals (cells m) bs" "set cs = {fresh m..<fresh m'}" "mem_ok m'"
    "fresh m \<le> fresh m'" "\<forall>a < fresh m. cells m' a = (if a \<in> set as then None else cells m a)"
    by (rule assign_list_eq [OF assms(1), of p as rhs bs]) (use assms(2-5) in \<open>auto simp: holds_list_def\<close>)
  then show thesis using assms(3) by (intro that [of m' p' cs]) (auto simp: holds_list_def)
qed

lemma swapped_dom:
  assumes ok: "mem_ok m" "mem_ok m3"
    and f: "fresh m \<le> f1" "f1 \<le> f2" "f2 \<le> fresh m3"
    and ts: "set ts = {fresh m..<f1}" and ds: "set ds = {f1..<f2}" and cs: "set cs = {f2..<fresh m3}"
    and h: "\<And>a. a < fresh m \<Longrightarrow> h1 a = cells m a"
      "\<And>a. a < f1 \<Longrightarrow> h2 a = (if a \<in> set bs then None else h1 a)"
      "\<And>a. a < f2 \<Longrightarrow> cells m3 a = (if a \<in> set as then None else h2 a)"
    and new: "\<And>a. a \<in> set cs \<or> a \<in> set ds \<Longrightarrow> cells m3 a \<noteq> None"
  shows "dom (cells (m3\<lparr>cells := cells m3 |` (- set ts)\<rparr>)) = dom (cells m) - set as - set bs \<union> set cs \<union> set ds"
proof (rule set_eqI)
  fix a
  consider "a < fresh m" | "a \<in> set ts" | "a \<in> set ds \<or> a \<in> set cs" | "fresh m3 \<le> a"
    using ts ds cs by fastforce
  then show "a \<in> dom (cells (m3\<lparr>cells := cells m3 |` (- set ts)\<rparr>)) \<longleftrightarrow>
      a \<in> dom (cells m) - set as - set bs \<union> set cs \<union> set ds"
  proof cases
    case 1
    then have "a \<notin> set ts" "a \<notin> set ds" "a \<notin> set cs" using f ts ds cs by auto
    then show ?thesis using 1 f h(1) [OF 1] h(2,3) [of a] by (auto simp: restrict_map_def split: if_splits)
  next
    case 2
    then have "cells m a = None" "a \<notin> set ds" "a \<notin> set cs" using ok f ts ds cs by (auto simp: mem_ok_def)
    with 2 show ?thesis by (auto simp: restrict_map_def)
  next
    case 3
    then have "a \<notin> set ts" using f ts ds cs by auto
    then show ?thesis using 3 new [OF disj_commute [THEN iffD1, OF 3]] by (auto simp: restrict_map_def)
  next
    case 4
    then have "cells m3 a = None" "cells m a = None" using ok f by (auto simp: mem_ok_def not_less [symmetric])
    with 4 show ?thesis using ds cs f by (auto simp: restrict_map_def split: if_splits)
  qed
qed

lemma swap_lists_exchange:
  assumes ok: "mem_ok m" and p: "holds_list m p as xs" and q: "holds_list m q bs ys"
    and dj: "set as \<inter> set bs = {}" and ne: "xs \<noteq> []" "ys \<noteq> []"
  shows "\<exists>m' p' q' cs ds. swap_lists m p q = Some (Ret (m', p', q')) \<and>
    holds_list m' p' cs ys \<and> holds_list m' q' ds xs \<and> set cs \<inter> set ds = {} \<and>
    dom (cells m') = dom (cells m) - set as - set bs \<union> set cs \<union> set ds"
proof -
  have af: "a \<in> set as \<or> a \<in> set bs \<Longrightarrow> a < fresh m" for a using holds_list_fresh [OF ok] p q by blast
  obtain m1 p1 ts where 1: "copy_list m q = Some (Ret (m1, p1))" "holds_list m1 p1 ts ys"
    "set ts = {fresh m..<fresh m1}" "mem_ok m1" "fresh m \<le> fresh m1" "\<And>a. a < fresh m \<Longrightarrow> cells m1 a = cells m a"
    by (rule copied [OF ok q]) blast
  have p1: "holds_list m1 p as xs" "holds_list m1 q bs ys"
    using holds_list_keep [OF p, of m1] holds_list_keep [OF q, of m1] 1(6) af by blast+
  obtain m2 q2 ds where 2: "assign_list m1 q p = Some (Ret (m2, q2))" "holds_list m2 q2 ds xs"
    "set ds = {fresh m1..<fresh m2}" "mem_ok m2" "fresh m1 \<le> fresh m2"
    "\<And>a. a < fresh m1 \<Longrightarrow> cells m2 a = (if a \<in> set bs then None else cells m1 a)"
    by (rule assigned [OF 1(4) p1(2,1)]) (use dj ne in blast)+
  have tb: "a \<notin> set bs" if "a \<in> set as \<or> a \<in> set ts" for a using that dj 1(3) af [of a] by auto
  have lt1: "a < fresh m1" if "a \<in> set as \<or> a \<in> set ts" for a
    using that 1(3,5) af [of a] by (auto dest: less_le_trans)
  have p2: "holds_list m2 p as xs" "holds_list m2 p1 ts ys"
    by (rule holds_list_keep [OF p1(1)] holds_list_keep [OF 1(2)], simp add: 2(6) lt1 tb)+
  have at: "set as \<inter> set ts = {}" using af 1(3) by fastforce
  obtain m3 p3 cs where 3: "assign_list m2 p p1 = Some (Ret (m3, p3))" "holds_list m3 p3 cs ys"
    "set cs = {fresh m2..<fresh m3}" "mem_ok m3" "fresh m2 \<le> fresh m3"
    "\<And>a. a < fresh m2 \<Longrightarrow> cells m3 a = (if a \<in> set as then None else cells m2 a)"
    by (rule assigned [OF 2(4) p2 at ne(2)]) blast
  have p3: "holds_list m3 p1 ts ys" "holds_list m3 q2 ds xs"
    using 3(6) 1(3,5) 2(3,5) at af by (fastforce intro!: holds_list_keep [OF p2(2)] holds_list_keep [OF 2(2)])+
  define m4 where "m4 = m3\<lparr>cells := cells m3 |` (- set ts)\<rparr>"
  have new: "holds_list m4 p3 cs ys" "holds_list m4 q2 ds xs"
    using 1(3) 2(3,5) 3(3) by (auto intro!: holds_list_keep [OF 3(2)] holds_list_keep [OF p3(2)] simp: m4_def restrict_map_def)
  have "swap_lists m p q = Some (Ret (m4, p3, q2))"
    using 1(1) 2(1) 3(1) delete_loop_eq [of m3 p1 ts] p3(1) by (simp add: swap_lists_def m4_def holds_list_def)
  moreover have "dom (cells m4) = dom (cells m) - set as - set bs \<union> set cs \<union> set ds"
    unfolding m4_def
    by (rule swapped_dom [OF ok 3(4) 1(5) 2(5) 3(5) 1(3) 2(3) 3(3) 1(6) 2(6) 3(6)])
      (use holds_list_dom [OF 3(2)] holds_list_dom [OF p3(2)] in auto)
  moreover have "set cs \<inter> set ds = {}" using 2(3) 3(3) by auto
  ultimately show ?thesis using new by blast
qed

text \<open>
  Assigning an empty list frees the nodes and leaves the head as it was; the next use of the
  list, such as the one of its destructor, faults.
\<close>

lemma assign_empty_dangles:
  assumes "holds_list m p as xs" and "as \<noteq> []"
  shows "\<exists>m'. assign_list m p None = Some (Ret (m', p)) \<and> delete_loop m' p = Some SegFault"
proof -
  obtain a bs where as: "as = a # bs" using assms(2) by (cases as) auto
  then have "p = Some a" using assms(1) by (auto simp: holds_list_def)
  then show ?thesis
    using assms(1) delete_loop_eq [of m p as] as
    by (auto simp: assign_list_def holds_list_def delete_loop.simps load_def restrict_map_def)
qed

subsection \<open>Appending\<close>

text \<open>A list appended to itself grows as fast as it is read.\<close>

lemma append_self_diverges:
  assumes "holds_list m p as xs" and "as \<noteq> []" and "mem_ok m"
  shows "append_list m p p = None"
proof -
  have stuck: "\<not> (\<exists>a as. q = Some a \<and> lpath (cells m) q (a # as) \<and> last (a # as) = e \<and> mem_ok m)"
    if "append_loop m e q = Some r" for m e q r
  proof (rule append_loop.raw_induct [OF _ that], goal_cases)
    case (1 f m e q r)
    show ?case
    proof
      assume "\<exists>a as. q = Some a \<and> lpath (cells m) q (a # as) \<and> last (a # as) = e \<and> mem_ok m"
      then obtain a as where a: "q = Some a" "lpath (cells m) q (a # as)" "last (a # as) = e" "mem_ok m" by blast
      obtain n where n: "cells m a = Some n" using a(1,2) by auto
      let ?b = "fresh m"
      obtain m' where m': "set_lnext e (Some ?b) (snd (new_lnode (lvalue n) None m)) = Ret m'"
        and path: "lpath (cells m') q ((a # as) @ [?b])" and ok': "mem_ok m'"
        using snoc_cell [OF a(4,2), of "lvalue n"] a(3) unfolding grown_def by (metis list.distinct(1))
      from path obtain n' where n': "cells m' a = Some n'" "lpath (cells m') (lnext n') (as @ [?b])" using a(1) by auto
      have "fst (new_lnode (lvalue n) None m) = ?b" by (simp add: new_lnode_def)
      then have "f m' ?b (lnext n') = Some r"
        using 1(2) a(1) n m' n'(1) by (simp add: load_def split_beta)
      moreover obtain c cs where c: "as @ [?b] = c # cs" by (cases as) auto
      moreover have "last (c # cs) = ?b" using c by (metis last_snoc)
      moreover have "lnext n' = Some c" using n'(2) c by auto
      ultimately have "\<not> mem_ok m'" using 1(1) [of m' ?b "lnext n'"] n'(2) by metis
      with ok' show False by blast
    qed
  qed
  obtain a bs where as: "as = a # bs" using assms(2) by (cases as) auto
  have "append_loop m (last as) p = None"
    using stuck [of m "last as" p] assms as by (cases "append_loop m (last as) p") (auto simp: holds_list_def)
  then show ?thesis using assms last_loop_eq [of "cells m" p as]
    by (simp add: append_list_def holds_list_def)
qed

lemma append_loop_eq:
  assumes "mem_ok m" and "lpath (cells m) p as" and "as \<noteq> []" and "lpath (cells m) q bs" and "set as \<inter> set bs = {}"
  obtains m' cs where "append_loop m (last as) q = Some (Ret m')" and "lpath (cells m') p (as @ cs)"
    and "vals (cells m') (as @ cs) = vals (cells m) as @ vals (cells m) bs" and "grown m as m'"
  using assms
proof (induction bs arbitrary: m as q thesis)
  case Nil
  then show ?case by (intro Nil.prems(1) [of m "[]"]) (simp_all add: append_loop.simps grown_refl)
next
  case (Cons b bs)
  from Cons.prems obtain n where n: "q = Some b" "cells m b = Some n" "lpath (cells m) (lnext n) bs" by auto
  obtain m1 where 1: "set_lnext (last as) (Some (fresh m)) (snd (new_lnode (lvalue n) None m)) = Ret m1"
    "lpath (cells m1) p (as @ [fresh m])" "vals (cells m1) (as @ [fresh m]) = vals (cells m) as @ [lvalue n]"
    "grown m as m1"
    by (rule snoc_cell [OF Cons.prems(2-4)]) blast
  have old: "\<forall>a \<in> set (b # bs). cells m1 a = cells m a"
    using lpath_fresh [OF Cons.prems(2,5)] Cons.prems(6) 1(4) unfolding grown_def by blast
  have bs: "lpath (cells m1) (lnext n) bs" using n(3) lpath_frame [of bs "cells m1" "cells m"] old by simp
  have dj: "set (as @ [fresh m]) \<inter> set bs = {}" using Cons.prems(6) lpath_fresh [OF Cons.prems(2,5)] by auto
  obtain m' cs where 2: "append_loop m1 (last (as @ [fresh m])) (lnext n) = Some (Ret m')"
    "lpath (cells m') p ((as @ [fresh m]) @ cs)"
    "vals (cells m') ((as @ [fresh m]) @ cs) = vals (cells m1) (as @ [fresh m]) @ vals (cells m1) bs"
    "grown m1 (as @ [fresh m]) m'"
    by (rule Cons.IH [OF _ _ 1(2) _ bs dj]) (use 1(4) in \<open>auto simp: grown_def\<close>)
  have "vals (cells m1) bs = vals (cells m) bs" using old by (intro vals_frame) auto
  moreover have "fst (new_lnode (lvalue n) None m) = fresh m" by (simp add: new_lnode_def)
  then have "append_loop m (last as) q = Some (Ret m')"
    using n 1(1) 2(1) old by (subst append_loop.simps) (simp add: load_def split_beta)
  moreover have "lvalue n = val_at (cells m) b" using n(2) by (simp add: val_at_def)
  moreover have "grown m as m'" by (rule grown_trans [OF 1(4) 2(4)]) simp
  ultimately show ?case using 1 2 by (intro Cons.prems(1) [of m' "fresh m # cs"]) auto
qed

lemma append_list_eq:
  assumes "mem_ok m" and "holds_list m p as xs" and "holds_list m q bs ys" and "set as \<inter> set bs = {}" and "as \<noteq> []"
  shows "\<exists>m' cs. append_list m p q = Some (Ret m') \<and> holds_list m' p cs (xs @ ys)"
proof -
  obtain m' cs where "append_loop m (last as) q = Some (Ret m')" "lpath (cells m') p (as @ cs)"
    "vals (cells m') (as @ cs) = vals (cells m) as @ vals (cells m) bs"
    by (rule append_loop_eq [of m p as q bs]) (use assms in \<open>auto simp: holds_list_def\<close>)
  then show ?thesis using assms last_loop_eq [of "cells m" p as]
    by (intro exI [of _ m'] exI [of _ "as @ cs"]) (auto simp: append_list_def holds_list_def)
qed

text \<open>Appending to an empty list faults.\<close>

lemma append_to_empty: "append_list m None q = Some SegFault"
  by (simp add: append_list_def last_loop.simps)

subsection \<open>Deletion and ordered insertion\<close>

text \<open>The loop finds the node before the value, or leaves the list.\<close>

lemma delete_item_loop_eq:
  "lpath h (Some a) (a # as) \<Longrightarrow>
    delete_item_loop h a v = Some (
      if v \<in> set (vals h as)
      then Ret ((a # as) ! length (takeWhile (\<lambda>x. x \<noteq> v) (vals h as))) else SegFault)"
proof (induction as arbitrary: a)
  case Nil
  then show ?case by (auto simp: delete_item_loop.simps load_def)
next
  case (Cons b as)
  then have "delete_item_loop h b v = Some (if v \<in> set (vals h as)
      then Ret ((b # as) ! length (takeWhile (\<lambda>x. x \<noteq> v) (vals h as))) else SegFault)"
    by (intro Cons.IH) auto
  moreover obtain n nb where "h a = Some n" "lnext n = Some b" "h b = Some nb" using Cons.prems by auto
  moreover from this have "val_at h b = lvalue nb" by (simp add: val_at_def)
  ultimately show ?case by (auto simp: delete_item_loop.simps [of h a] load_def)
qed

text \<open>A value that is not in the list is looked for behind its end.\<close>

lemma deleteItem_absent:
  assumes "holds_list m p as xs" and "as \<noteq> []" and "v \<notin> set xs"
  shows "deleteItem m p v = Some SegFault"
proof -
  obtain a bs where as: "as = a # bs" using assms(2) by (cases as) auto
  with assms have "lpath (cells m) (Some a) (a # bs)" "p = Some a" "val_at (cells m) a \<noteq> v" "v \<notin> set (vals (cells m) bs)"
    by (auto simp: holds_list_def)
  then show ?thesis using delete_item_loop_eq [of "cells m" a bs v]
    by (auto simp: deleteItem_def load_def val_at_def)
qed

lemma lpath_skip:
  "lpath h p (as @ a # b # cs) \<Longrightarrow> h a = Some na \<Longrightarrow> h b = Some nb \<Longrightarrow>
    lpath (h(a \<mapsto> na\<lparr>lnext := lnext nb\<rparr>)) p (as @ a # cs)"
proof (induction as arbitrary: p)
  case Nil
  then have "a \<notin> set cs" using lpath_distinct [of h p "a # b # cs"] by auto
  then have "lpath (h(a \<mapsto> na\<lparr>lnext := lnext nb\<rparr>)) (lnext nb) cs"
    using Nil lpath_frame [of cs "h(a \<mapsto> na\<lparr>lnext := lnext nb\<rparr>)" h] by auto
  with Nil show ?case by (simp add: fun_upd_def)
next
  case (Cons x as)
  then have "x \<noteq> a" using lpath_distinct [of h p "x # as @ a # b # cs"] by auto
  with Cons show ?case by auto
qed

lemma remove1_takeWhile:
  "v \<in> set xs \<Longrightarrow> length (takeWhile (\<lambda>x. x \<noteq> v) xs) < length xs \<and>
    remove1 v xs = take (length (takeWhile (\<lambda>x. x \<noteq> v) xs)) xs @ drop (Suc (length (takeWhile (\<lambda>x. x \<noteq> v) xs))) xs"
  by (induction xs) auto

lemma deleteItem_present:
  assumes "holds_list m p as xs" and "v \<in> set xs"
  shows "\<exists>m' p' cs. deleteItem m p v = Some (Ret (m', p')) \<and> holds_list m' p' cs (remove1 v xs)"
proof -
  obtain a bs where as: "as = a # bs" using assms by (cases as) (auto simp: holds_list_def)
  with assms obtain n where n: "p = Some a" "cells m a = Some n" "lpath (cells m) (lnext n) bs" "xs = lvalue n # vals (cells m) bs"
    by (auto simp: holds_list_def val_at_def)
  have dist: "a \<notin> set bs" "distinct bs" using lpath_distinct [of "cells m" p as] assms(1) as by (auto simp: holds_list_def)
  show ?thesis
  proof (cases "lvalue n = v")
    case True
    have keep: "\<forall>x \<in> set bs. cells (delete_lnode a m) x = cells m x" using dist by (auto simp: delete_lnode_def)
    have "holds_list (delete_lnode a m) (lnext n) bs (remove1 v xs)"
      using True n lpath_frame [OF keep] vals_frame [OF keep] by (simp add: holds_list_def)
    with True n show ?thesis by (auto simp: deleteItem_def load_def)
  next
    case False
    let ?i = "length (takeWhile (\<lambda>x. x \<noteq> v) (vals (cells m) bs))"
    have v: "v \<in> set (vals (cells m) bs)" using False assms(2) n(4) by auto
    have i: "?i < length bs" and rem: "remove1 v (vals (cells m) bs) = take ?i (vals (cells m) bs) @ drop (Suc ?i) (vals (cells m) bs)"
      using remove1_takeWhile [OF v] by simp_all
    define as1 where "as1 = take ?i (a # bs)"
    define b where "b = (a # bs) ! ?i"
    define cs where "cs = drop (Suc ?i) bs"
    have "a # bs = as1 @ b # drop ?i bs"
      using id_take_nth_drop [of ?i "a # bs"] i by (simp add: as1_def b_def)
    then have split: "a # bs = as1 @ b # bs ! ?i # cs"
      using i by (simp add: cs_def Cons_nth_drop_Suc)
    have path: "lpath (cells m) p (as1 @ b # bs ! ?i # cs)" using assms(1) as split by (simp add: holds_list_def)
    obtain nb np where nb: "cells m b = Some nb" and np: "cells m (bs ! ?i) = Some np"
      using lpath_alloc [OF path, of b] lpath_alloc [OF path, of "bs ! ?i"] by auto
    have nx: "lnext nb = Some (bs ! ?i)" using lpath_suffix [OF path] nb by auto
    define m' where "m' = m\<lparr>cells := (cells m)(b \<mapsto> nb\<lparr>lnext := lnext np\<rparr>)\<rparr>"
    have loop: "delete_item_loop (cells m) a v = Some (Ret b)"
      using delete_item_loop_eq [of "cells m" a bs v] v n by (simp add: b_def)
    have del: "deleteItem m p v = Some (Ret (m', p))"
      using n False loop nb np nx by (simp add: deleteItem_def load_def set_lnext_def m'_def)
    have path': "lpath (cells m') p (as1 @ b # cs)" using lpath_skip [OF path nb np] by (simp add: m'_def)
    have same: "val_at (cells m') x = val_at (cells m) x" for x using nb by (simp add: m'_def val_at_def)
    have "as1 @ [b] = a # take ?i bs"
      using i by (simp add: as1_def b_def take_Suc_conv_app_nth [symmetric])
    then have eq: "as1 @ b # cs = a # take ?i bs @ cs" by (metis append.assoc append_Cons append_Nil)
    have "val_at (cells m) a = lvalue n" using n(2) by (simp add: val_at_def)
    then have "vals (cells m') (as1 @ b # cs) = remove1 v xs"
      unfolding eq n(4) using False rem by (simp add: same cs_def take_map drop_map)
    with del path' show ?thesis unfolding holds_list_def by blast
  qed
qed

text \<open>
  \<open>addItem\<close> on a list whose first value is at most the new one: nothing happens when it is the
  only one, the new value goes behind the first when the second is less, and the loop never
  ends when the first value is equal to the new one.
\<close>

lemma add_item_loop_stuck:
  assumes "cells m a = Some n" and "lnext n = Some b" and "\<not> lvalue n < v" and "a < fresh m"
  shows "add_item_loop m a v = None"
proof -
  have "\<not> (\<exists>n b. cells m a = Some n \<and> lnext n = Some b \<and> \<not> lvalue n < v \<and> a < fresh m)"
    if "add_item_loop m a v = Some r" for m a v r
  proof (rule add_item_loop.raw_induct [OF _ that], goal_cases)
    case (1 f m a v r)
    show ?case
    proof
      assume "\<exists>n b. cells m a = Some n \<and> lnext n = Some b \<and> \<not> lvalue n < v \<and> a < fresh m"
      then obtain n b where n: "cells m a = Some n" "lnext n = Some b" "\<not> lvalue n < v" "a < fresh m" by blast
      define m' where "m' = m\<lparr>fresh := Suc (fresh m),
        cells := (cells m)(fresh m \<mapsto> \<lparr>lvalue = v, lnext = Some b\<rparr>, a \<mapsto> n\<lparr>lnext := Some (fresh m)\<rparr>)\<rparr>"
      have "f m' a v = Some r"
        using 1(2) n by (simp add: load_def new_lnode_def set_lnext_def m'_def)
      from 1(1) [OF this] n show False by (simp add: m'_def)
    qed
  qed
  from this [of m a v] assms show ?thesis by (cases "add_item_loop m a v") blast+
qed

lemma addItem_equal_diverges:
  assumes "mem_ok m" and "holds_list m p as (v # w # xs)"
  shows "addItem m p v = None"
proof -
  obtain a b bs where as: "as = a # b # bs" using assms(2) by (auto simp: holds_list_def Cons_eq_map_conv)
  with assms(2) obtain n where n: "p = Some a" "cells m a = Some n" "lnext n = Some b" "lvalue n = v"
    by (auto simp: holds_list_def val_at_def)
  moreover have "a < fresh m" using assms(1) n(2) by (auto simp: mem_ok_def)
  ultimately show ?thesis using add_item_loop_stuck [of m a n b v]
    by (simp add: addItem_def isEmpty_def load_def)
qed

lemma addItem_single:
  assumes "holds_list m p [a] [w]" and "\<not> v < w"
  shows "addItem m p v = Some (Ret (m, p))"
  using assms by (auto simp: holds_list_def val_at_def addItem_def isEmpty_def load_def add_item_loop.simps)

text \<open>The test in \<open>main.cpp\<close>: the two lists are exchanged and both destroyed.\<close>

lemma holds_list_size: "holds_list m p as xs \<Longrightarrow> list_size m p = Some (Ret (int (length xs)))"
  using list_size_eq [of m p as] by (auto simp: holds_list_def)

lemma holds_list_get:
  "holds_list m p as xs \<Longrightarrow> i < length xs \<Longrightarrow> get_item m p (int i) = Some (Ret (Some (xs ! i)))"
  using get_item_eq [of m p as "int i"] by (simp add: holds_list_def split: if_splits) auto

lemma delete_two:
  assumes "holds_list m p as xs" and "holds_list m q bs ys" and "set as \<inter> set bs = {}"
  obtains m1 m2 where "delete_loop m q = Some (Ret m1)" and "delete_loop m1 p = Some (Ret m2)"
proof -
  let ?m = "m\<lparr>cells := cells m |` (- set bs)\<rparr>"
  have "delete_loop m q = Some (Ret ?m)" using assms(2) unfolding holds_list_def by (intro delete_loop_eq) blast
  moreover have "holds_list ?m p as xs" using assms by (intro holds_list_keep [OF assms(1)]) (auto simp: restrict_map_def)
  then have "delete_loop ?m p = Some (Ret (?m\<lparr>cells := cells ?m |` (- set as)\<rparr>))"
    unfolding holds_list_def by (intro delete_loop_eq) blast
  ultimately show ?thesis by (rule that)
qed

definition ll_main_heap :: lmem where
  "ll_main_heap = \<lparr>cells = [1 \<mapsto> \<lparr>lvalue = ''A'', lnext = None\<rparr>, 2 \<mapsto> \<lparr>lvalue = ''B'', lnext = Some 1\<rparr>,
     3 \<mapsto> \<lparr>lvalue = ''C'', lnext = Some 2\<rparr>, 4 \<mapsto> \<lparr>lvalue = ''D'', lnext = Some 3\<rparr>,
     5 \<mapsto> \<lparr>lvalue = ''X'', lnext = None\<rparr>, 6 \<mapsto> \<lparr>lvalue = ''Y'', lnext = Some 5\<rparr>,
     7 \<mapsto> \<lparr>lvalue = ''Z'', lnext = Some 6\<rparr>], fresh = 8\<rparr>"

lemma ll_main_heap_ok: "mem_ok ll_main_heap"
  by (simp add: mem_ok_def ll_main_heap_def)

lemma ll_main_heap_lists:
  shows "holds_list ll_main_heap (Some 4) [4, 3, 2, 1] [''D'', ''C'', ''B'', ''A'']"
    and "holds_list ll_main_heap (Some 7) [7, 6, 5] [''Z'', ''Y'', ''X'']"
  by (simp_all add: holds_list_def ll_main_heap_def val_at_def)

lemma ll_main_passes: "ll_main = Some (Ret ())"
proof -
  obtain m p q cs ds where sw: "swap_lists ll_main_heap (Some 4) (Some 7) = Some (Ret (m, p, q))"
    and p: "holds_list m p cs [''Z'', ''Y'', ''X'']" and q: "holds_list m q ds [''D'', ''C'', ''B'', ''A'']"
    and dj: "set cs \<inter> set ds = {}"
    using swap_lists_exchange [OF ll_main_heap_ok ll_main_heap_lists] by auto
  obtain m1 m2 where "delete_loop m q = Some (Ret m1)" "delete_loop m1 p = Some (Ret m2)"
    by (rule delete_two [OF p q dj])
  moreover have "get_item m p 0 = Some (Ret (Some ''Z''))" using holds_list_get [OF p, of 0] by simp
  moreover have "get_item m q 2 = Some (Ret (Some ''B''))" using holds_list_get [OF q, of 2] by simp
  moreover have "foldl (\<lambda>(m, p) v. insertToFront m p v) (\<lparr>cells = Map.empty, fresh = 1\<rparr>, None) [''A'', ''B'', ''C'', ''D''] =
      (ll_main_heap\<lparr>cells := (cells ll_main_heap)(5 := None, 6 := None, 7 := None), fresh := 5\<rparr>, Some 4)"
    by (simp add: insertToFront_def new_lnode_def ll_main_heap_def fun_eq_iff)
  moreover have "foldl (\<lambda>(m, p) v. insertToFront m p v)
      (ll_main_heap\<lparr>cells := (cells ll_main_heap)(5 := None, 6 := None, 7 := None), fresh := 5\<rparr>, None) [''X'', ''Y'', ''Z''] =
      (ll_main_heap, Some 7)"
    by (simp add: insertToFront_def new_lnode_def ll_main_heap_def fun_eq_iff)
  ultimately show ?thesis
    using sw holds_list_size [OF p] holds_list_size [OF q] by (simp only: ll_main_def Let_def case_prod_conv) (simp add: c_assert_def)
qed

end
