(* ===== verification/Streams.thy ===== *)
theory Streams
  imports CLib
begin

text \<open>
  What the C++ programs use of an input stream: its remaining text and two state bits. \<open>>>\<close> skips
  white space and takes the characters up to the next; \<open>getline\<close> takes a line and leaves the string
  alone when the stream has already failed or ended; \<open>ignore\<close> drops characters up to a line end.
\<close>

record istream =
  in_text :: string
  eofbit :: bool
  failbit :: bool

definition read_word :: "istream \<Rightarrow> string \<times> istream" where
  "read_word f =
     (if eofbit f \<or> failbit f then ([], f\<lparr>failbit := True\<rparr>)
      else let s = dropWhile isspace (in_text f) in
        if s = [] then ([], \<lparr>in_text = [], eofbit = True, failbit = True\<rparr>)
        else let r = dropWhile (\<lambda>c. \<not> isspace c) s in
          (takeWhile (\<lambda>c. \<not> isspace c) s, \<lparr>in_text = r, eofbit = (r = []), failbit = False\<rparr>))"

definition getline :: "istream \<Rightarrow> string \<Rightarrow> string \<times> istream" where
  "getline f s =
     (if eofbit f \<or> failbit f then (s, f\<lparr>failbit := True\<rparr>)
      else let r = dropWhile (\<lambda>c. c \<noteq> CHR 0x0A) (in_text f) in
        (takeWhile (\<lambda>c. c \<noteq> CHR 0x0A) (in_text f),
         if r = [] then \<lparr>in_text = [], eofbit = True, failbit = (in_text f = [])\<rparr>
         else \<lparr>in_text = tl r, eofbit = False, failbit = False\<rparr>))"

definition ignore_line :: "istream \<Rightarrow> nat \<Rightarrow> istream" where
  "ignore_line f n =
     (if eofbit f \<or> failbit f then f\<lparr>failbit := True\<rparr>
      else let line = takeWhile (\<lambda>c. c \<noteq> CHR 0x0A) (in_text f); r = dropWhile (\<lambda>c. c \<noteq> CHR 0x0A) (in_text f) in
        if n \<le> length line then f\<lparr>in_text := drop n (in_text f)\<rparr>
        else if r = [] then f\<lparr>in_text := [], eofbit := True\<rparr> else f\<lparr>in_text := tl r\<rparr>)"

end
