(* ===== verification/Anagrams.thy ===== *)
theory Anagrams
  imports StringArrays Streams "HOL-Library.Multiset"
begin

text \<open>
  The anagram finder of \<open>CS32/Project 3\<close>: \<open>anagrams.cpp\<close> and its \<open>main.cpp\<close>. A pointer into an
  array is the list of the cells from there on, which a function that stores returns changed. Output
  to \<open>cerr\<close> is left out.
\<close>

subsection \<open>The dictionary file\<close>

definition MAXRESULTS :: int where
  "MAXRESULTS = 20"

definition MAXDICTWORDS :: int where
  "MAXDICTWORDS = 30000"

fun loadLoop :: "istream \<Rightarrow> string list \<Rightarrow> int \<Rightarrow> (istream \<times> string list \<times> int) outcome" where
  "loadLoop dictfile dict dictSize =
     (if dictSize > MAXDICTWORDS then Ret (dictfile, dict, dictSize)
      else if eofbit dictfile then Ret (dictfile, dict, dictSize)
      else let (loadedWord, dictfile) = read_word dictfile in
        (case dict of [] \<Rightarrow> SegFault
         | _ # rest \<Rightarrow> obind (loadLoop dictfile rest (dictSize + 1)) (\<lambda>(f, rest, n). Ret (f, loadedWord # rest, n))))"

definition loadWords :: "istream \<Rightarrow> string list \<Rightarrow> (int \<times> string list) outcome" where
  "loadWords dictfile dict = obind (loadLoop dictfile dict 0) (\<lambda>(f, dict, dictSize). Ret (dictSize, dict))"

subsection \<open>Candidates\<close>

fun checkAgainstDict :: "string \<Rightarrow> string list \<Rightarrow> int \<Rightarrow> int \<Rightarrow> bool outcome" where
  "checkAgainstDict candidateMatch dict dictSize counter =
     (if counter = dictSize then Ret False
      else case dict of [] \<Rightarrow> SegFault
        | d # rest \<Rightarrow>
          if candidateMatch = d then Ret True
          else obind (checkAgainstDict candidateMatch rest dictSize (counter + 1)) (\<lambda>b. if b then Ret True else Ret False))"

fun checkAgainstResults :: "string \<Rightarrow> string list \<Rightarrow> int \<Rightarrow> int \<Rightarrow> string list \<Rightarrow> int \<Rightarrow>
    (int \<times> string list \<times> int) outcome" where
  "checkAgainstResults candidateMatch results matches counter dict dictSize =
     (if matches = MAXRESULTS then Ret (0, results, matches)
      else if counter = matches
      then obind (checkAgainstDict candidateMatch dict dictSize 0) (\<lambda>b.
        if b then (case results of [] \<Rightarrow> SegFault | _ # rest \<Rightarrow> Ret (1, candidateMatch # rest, matches + 1))
        else Ret (0, results, matches))
      else case results of [] \<Rightarrow> SegFault
        | r # rest \<Rightarrow>
          if candidateMatch = r then Ret (0, results, matches)
          else obind (checkAgainstResults candidateMatch rest matches (counter + 1) dict dictSize) (\<lambda>(x, rest, matches).
            if x \<noteq> 0 then Ret (1, r # rest, matches) else Ret (0, r # rest, matches)))"

declare loadLoop.simps [simp del] checkAgainstDict.simps [simp del] checkAgainstResults.simps [simp del]

subsection \<open>Permutations\<close>

definition swap_chars :: "string \<Rightarrow> int \<Rightarrow> int \<Rightarrow> string outcome" where
  "swap_chars w i j =
     (if 0 \<le> i \<and> nat i < length w \<and> 0 \<le> j \<and> nat j < length w
      then Ret (w[nat i := w ! nat j, nat j := w ! nat i]) else SegFault)"

lemma swap_chars_Ret: "swap_chars w i j = Ret w' \<Longrightarrow> length w' = length w \<and> 0 \<le> i \<and> nat i < length w"
  by (auto simp: swap_chars_def split: if_splits)

text \<open>The array of results and the number of matches are passed by reference.\<close>

function (sequential) swapLoop :: "int \<Rightarrow> int \<Rightarrow> int \<Rightarrow> int \<Rightarrow> string \<Rightarrow> string list \<times> int \<Rightarrow> string list \<Rightarrow> int \<Rightarrow>
    (string list \<times> int) outcome"
  and permute :: "string \<Rightarrow> int \<Rightarrow> int \<Rightarrow> string list \<times> int \<Rightarrow> string list \<Rightarrow> int \<Rightarrow> (string list \<times> int) outcome" where
  "swapLoop index startingIndex endingIndex mx word st dict dictSize =
     (if index > mx then Ret st
      else obind (swap_chars word startingIndex index) (\<lambda>w1.
           obind (permute w1 (startingIndex + 1) endingIndex st dict dictSize) (\<lambda>st.
           obind (swap_chars w1 startingIndex index) (\<lambda>w2.
             swapLoop (index + 1) startingIndex endingIndex mx w2 st dict dictSize))))"
| "permute word startingIndex endingIndex st dict dictSize =
     (if startingIndex = endingIndex
      then obind (checkAgainstResults word (fst st) (snd st) 0 dict dictSize) (\<lambda>(x, results, matches). Ret (results, matches))
      else swapLoop 0 startingIndex endingIndex endingIndex word st dict dictSize)"
  by pat_completeness auto
termination
proof (relation "measures
    [case_sum (\<lambda>(index, s, e, mx, w, st, dict, n). nat (int (length w) - s)) (\<lambda>(w, s, e, st, dict, n). nat (int (length w) - s)),
     case_sum (\<lambda>_. 0) (\<lambda>_. 1),
     case_sum (\<lambda>(index, s, e, mx, w, st, dict, n). nat (mx + 1 - index)) (\<lambda>_. 0)]", goal_cases)
  case (2 index s e mx word st dict n w1)
  then show ?case using swap_chars_Ret [of word s index w1] by auto
next
  case (3 index s e mx word st dict n w1 st1 w2)
  then show ?case using swap_chars_Ret [of word s index w1] swap_chars_Ret [of w1 s index w2] by auto
qed auto

declare swapLoop.simps [simp del] permute.simps [simp del]

definition recBlends :: "string \<Rightarrow> string list \<Rightarrow> int \<Rightarrow> string list \<Rightarrow> (int \<times> string list) outcome" where
  "recBlends word dict sz results =
     obind (permute word 0 (int (length word) - 1) (results, 0) dict sz) (\<lambda>(results, matches). Ret (matches, results))"

function showResults :: "string list \<Rightarrow> int \<Rightarrow> string list outcome" where
  "showResults results sz =
     (if sz = 0 then Ret [''No matches found!'']
      else if sz < 0 then SegFault
      else obind (arr results (nat (sz - 1))) (\<lambda>r.
        if sz - 1 = 0 then Ret [''Matching word: '' @ r]
        else obind (showResults results (sz - 1)) (\<lambda>out. Ret ((''Matching word: '' @ r) # out))))"
  by pat_completeness auto
termination by (relation "measure (\<lambda>(results, sz). nat sz)") auto

declare showResults.simps [simp del]

text \<open>The dictionary file is \<open>None\<close> when it cannot be opened; the output is the list of lines.\<close>

definition anagrams_main :: "string option \<Rightarrow> string \<Rightarrow> string list outcome" where
  "anagrams_main file word =
     (case file of None \<Rightarrow> Exit 1
      | Some text \<Rightarrow>
        obind (loadWords \<lparr>in_text = text, eofbit = False, failbit = False\<rparr> (replicate (nat MAXDICTWORDS) [])) (\<lambda>(nwords, dict).
        obind (recBlends word dict nwords (replicate (nat MAXRESULTS) [])) (\<lambda>(numMatches, results).
          if numMatches = 0 then Ret [''No matches found''] else showResults results numMatches)))"

end
