(* ===== verification/AnagramsProps.thy ===== *)
theory AnagramsProps
  imports Anagrams
begin

text \<open>
  The anagram finder: which words it loads, and that the search meets every arrangement of the
  letters, so that it finds exactly the dictionary words with these letters, and of more than 20
  the first 20 in the order of the search.
\<close>

subsection \<open>Testing a candidate\<close>

lemma checkAgainstDict_eq:
  "k \<le> length dict \<Longrightarrow> checkAgainstDict w dict (counter + int k) counter = Ret (w \<in> set (take k dict))"
proof (induction dict arbitrary: counter k)
  case Nil
  then show ?case by (simp add: checkAgainstDict.simps)
next
  case (Cons d dict)
  show ?case
  proof (cases k)
    case (Suc j)
    then have "checkAgainstDict w dict (counter + 1 + int j) (counter + 1) = Ret (w \<in> set (take j dict))"
      using Cons by simp
    then show ?thesis using Suc by (simp add: checkAgainstDict.simps [of w "d # dict"] algebra_simps)
  qed (simp add: checkAgainstDict.simps)
qed

text \<open>The list of matches after a candidate has been tested.\<close>

definition record_match :: "string set \<Rightarrow> string list \<Rightarrow> string \<Rightarrow> string list" where
  "record_match D ms w = (if length ms = 20 \<or> w \<in> set ms \<or> w \<notin> D then ms else ms @ [w])"

lemma record_match_length: "length ms \<le> 20 \<Longrightarrow> length (record_match D ms w) \<le> 20"
  by (simp add: record_match_def)

lemma checkAgainstResults_eq:
  assumes "0 \<le> n" and "nat n \<le> length dict" and "counter + int (length ms) = m" and "m \<noteq> 20"
    and "rest \<noteq> []"
  shows "checkAgainstResults w (ms @ rest) m counter dict n =
    (if w \<in> set ms \<or> w \<notin> set (take (nat n) dict) then Ret (0, ms @ rest, m)
     else Ret (1, ms @ w # tl rest, m + 1))"
  using assms(3)
proof (induction ms arbitrary: counter)
  case Nil
  have "checkAgainstDict w dict n 0 = Ret (w \<in> set (take (nat n) dict))"
    using checkAgainstDict_eq [of "nat n" dict w 0] assms(1,2) by simp
  with Nil assms(4,5) show ?case
    by (cases rest) (simp_all add: checkAgainstResults.simps MAXRESULTS_def)
next
  case (Cons r ms)
  then have "counter \<noteq> m" by simp
  with Cons assms(4) show ?case
    by (auto simp: checkAgainstResults.simps [of w "r # ms @ rest"] MAXRESULTS_def)
qed

lemma checkAgainstResults_record:
  assumes "0 \<le> n" and "nat n \<le> length dict" and "length ms \<le> 20" and "20 \<le> length rs"
  shows "\<exists>x. checkAgainstResults w (ms @ drop (length ms) rs) (int (length ms)) 0 dict n =
    (let ms' = record_match (set (take (nat n) dict)) ms w in
     Ret (x, ms' @ drop (length ms') rs, int (length ms')))"
proof (cases "length ms = 20")
  case True
  then show ?thesis by (simp add: record_match_def checkAgainstResults.simps MAXRESULTS_def)
next
  case False
  then have "drop (length ms) rs \<noteq> []" using assms by simp
  from checkAgainstResults_eq [OF assms(1,2) _ _ this, of 0 ms "int (length ms)" w] False show ?thesis
    by (auto simp: record_match_def Let_def tl_drop drop_Suc)
qed

subsection \<open>The arrangements the search meets\<close>

definition swapped :: "'a list \<Rightarrow> nat \<Rightarrow> nat \<Rightarrow> 'a list" where
  "swapped w i j = w[i := w ! j, j := w ! i]"

lemma length_swapped [simp]: "length (swapped w i j) = length w"
  by (simp add: swapped_def)

lemma mset_swapped: "i < length w \<Longrightarrow> j < length w \<Longrightarrow> mset (swapped w i j) = mset w"
  by (simp add: swapped_def mset_swap)

lemma swapped_swapped: "i < length w \<Longrightarrow> j < length w \<Longrightarrow> swapped (swapped w i j) i j = w"
  by (auto simp: swapped_def nth_list_update intro!: nth_equalityI)

fun leaves :: "'a list \<Rightarrow> nat \<Rightarrow> nat \<Rightarrow> 'a list list" where
  "leaves w s 0 = [w]"
| "leaves w s (Suc d) = concat (map (\<lambda>i. leaves (swapped w s i) (Suc s) d) [0..<s + Suc (Suc d)])"

lemma set_leaves_Suc:
  "set (leaves w s (Suc d)) = (\<Union>i<Suc (Suc (s + d)). set (leaves (swapped w s i) (Suc s) d))"
  by (simp add: atLeast0LessThan del: upt_Suc)

lemma leaves_mset: "v \<in> set (leaves w s d) \<Longrightarrow> length w = Suc (s + d) \<Longrightarrow> mset v = mset w"
proof (induction d arbitrary: w s)
  case (Suc d)
  then obtain i where i: "i < length w" "v \<in> set (leaves (swapped w s i) (Suc s) d)"
    unfolding set_leaves_Suc by auto
  with Suc.IH [of "swapped w s i" "Suc s"] Suc.prems show ?case by (simp add: mset_swapped)
qed simp

lemma nth_of_suffix:
  assumes "mset v = mset w" and "take s v = take s w" and "s < length w"
  obtains i where "s \<le> i" and "i < length w" and "w ! i = v ! s"
proof -
  have len: "length v = length w" using assms(1) by (metis size_mset)
  have "mset (drop s v) = mset (drop s w)"
    using assms(1,2) by (metis add_left_cancel append_take_drop_id mset_append)
  moreover have "v ! s \<in> set (drop s v)" using len assms(3) by (metis Cons_nth_drop_Suc list.set_intros(1))
  ultimately have "v ! s \<in> set (drop s w)" by (metis set_mset_mset)
  then obtain j where "j < length w - s" "w ! (s + j) = v ! s" by (auto simp: in_set_conv_nth)
  then show ?thesis by (intro that [of "s + j"]) auto
qed

lemma leaves_complete:
  "length w = Suc (s + d) \<Longrightarrow> mset v = mset w \<Longrightarrow> take s v = take s w \<Longrightarrow> v \<in> set (leaves w s d)"
proof (induction d arbitrary: w s)
  case 0
  have len: "length v = Suc s" using 0 by (metis add_0_right size_mset)
  obtain i where "s \<le> i" "i < length w" "w ! i = v ! s" by (rule nth_of_suffix [OF 0(2,3)]) (use 0 in auto)
  then have "v ! s = w ! s" using 0 by (simp add: less_Suc_eq_le le_antisym)
  then have "v = w" using 0 len by (metis add_0_right lessI take_Suc_conv_app_nth take_all_iff order_refl)
  then show ?case by simp
next
  case (Suc d)
  have len: "length v = length w" using Suc.prems(2) by (metis size_mset)
  obtain i where i: "s \<le> i" "i < length w" "w ! i = v ! s" by (rule nth_of_suffix [OF Suc.prems(2,3)]) (use Suc in auto)
  have s: "s < length w" using Suc.prems by simp
  have "take s (swapped w s i) = take s w" using i by (simp add: swapped_def)
  moreover have "swapped w s i ! s = w ! i" using i s by (auto simp: swapped_def nth_list_update)
  ultimately have "take (Suc s) v = take (Suc s) (swapped w s i)"
    using i s len Suc.prems(3) by (simp add: take_Suc_conv_app_nth)
  then have "v \<in> set (leaves (swapped w s i) (Suc s) d)"
    using Suc.IH [of "swapped w s i" "Suc s"] Suc.prems i s by (simp add: mset_swapped)
  moreover have "i < s + Suc (Suc d)" using i Suc.prems by simp
  ultimately show ?case unfolding set_leaves_Suc by auto
qed

lemma set_leaves:
  assumes len: "length w = Suc d"
  shows "set (leaves w 0 d) = {v. mset v = mset w}"
proof (intro set_eqI iffI CollectI)
  fix v
  show "mset v = mset w" if "v \<in> set (leaves w 0 d)" using leaves_mset [OF that] len by simp
  show "v \<in> set (leaves w 0 d)" if "v \<in> {v. mset v = mset w}"
    using leaves_complete [of w 0 d v] len that by simp
qed

subsection \<open>The search\<close>

text \<open>The results in the array that held \<open>rs\<close> after the matches \<open>ms\<close> have been stored.\<close>

definition stored :: "string list \<Rightarrow> string list \<Rightarrow> string list \<times> int" where
  "stored rs ms = (ms @ drop (length ms) rs, int (length ms))"

lemma foldl_record_length: "length ms \<le> 20 \<Longrightarrow> length (foldl (record_match D) ms ws) \<le> 20"
  by (induction ws arbitrary: ms) (simp_all add: record_match_length)

lemma swap_chars_eq: "i < length w \<Longrightarrow> j < length w \<Longrightarrow> swap_chars w (int i) (int j) = Ret (swapped w i j)"
  by (simp add: swap_chars_def swapped_def)

lemma permute_leaves:
  assumes "0 \<le> n" and "nat n \<le> length dict" and "20 \<le> length rs"
  shows "length w = Suc (s + d) \<Longrightarrow> length ms \<le> 20 \<Longrightarrow>
    permute w (int s) (int (s + d)) (stored rs ms) dict n =
      Ret (stored rs (foldl (record_match (set (take (nat n) dict))) ms (leaves w s d)))"
proof (induction d arbitrary: w s ms)
  case 0
  then show ?case using checkAgainstResults_record [OF assms(1,2) _ assms(3), of ms w]
    by (auto simp: permute.simps stored_def Let_def)
next
  case (Suc d)
  let ?step = "record_match (set (take (nat n) dict))"
  note outer = Suc.IH and len = Suc.prems(1)
  have loop: "swapLoop (int k) (int s) (int (s + Suc d)) (int (s + Suc d)) w (stored rs ms) dict n =
      Ret (stored rs (foldl ?step ms (concat (map (\<lambda>i. leaves (swapped w s i) (Suc s) d) [k..<length w]))))"
    if "k \<le> length w" "length ms \<le> 20" for k ms
    using that
  proof (induction "length w - k" arbitrary: k ms)
    case 0
    then show ?case using Suc.prems(1) by (simp add: swapLoop.simps)
  next
    case (Suc j)
    then have k: "k < length w" and s: "s < length w" using len by auto
    let ?ms = "foldl ?step ms (leaves (swapped w s k) (Suc s) d)"
    have "permute (swapped w s k) (int s + 1) (int (s + Suc d)) (stored rs ms) dict n = Ret (stored rs ?ms)"
      using outer [of "swapped w s k" "Suc s" ms] Suc.prems(2) len by (simp add: add.commute)
    moreover have "swapLoop (int k + 1) (int s) (int (s + Suc d)) (int (s + Suc d)) w (stored rs ?ms) dict n =
        Ret (stored rs (foldl ?step ?ms (concat (map (\<lambda>i. leaves (swapped w s i) (Suc s) d) [Suc k..<length w]))))"
      using Suc.hyps(1) [of "Suc k" ?ms] Suc.hyps(2) Suc.prems k by (simp add: foldl_record_length add.commute)
    moreover have "int k \<le> int (s + Suc d)" using k len by simp
    ultimately show ?case using k s
      by (simp add: swapLoop.simps [of "int k"] swap_chars_eq swapped_swapped upt_conv_Cons)
  qed
  show ?case using loop [of 0 ms] Suc.prems
    by (simp add: permute.simps del: upt_Suc)
qed

text \<open>Recording all candidates of a list keeps the first 20 different words of the dictionary.\<close>

definition firsts :: "'a list \<Rightarrow> 'a list" where
  "firsts xs = rev (remdups (rev xs))"

lemma firsts_simps [simp]:
  "firsts [] = []" "firsts (xs @ [x]) = (if x \<in> set xs then firsts xs else firsts xs @ [x])"
  "set (firsts xs) = set xs" "distinct (firsts xs)"
  by (simp_all add: firsts_def)

lemma foldl_record_firsts: "foldl (record_match D) [] ws = take 20 (firsts (filter (\<lambda>v. v \<in> D) ws))"
proof (induction ws rule: rev_induct)
  case (snoc w ws)
  let ?F = "firsts (filter (\<lambda>v. v \<in> D) ws)"
  show ?case
  proof (cases "length ?F < 20")
    case True
    then show ?thesis using snoc by (auto simp: record_match_def)
  next
    case False
    then show ?thesis using snoc by (simp add: record_match_def)
  qed
qed simp

definition anagrams :: "string \<Rightarrow> string set \<Rightarrow> string set" where
  "anagrams w D = {v \<in> D. mset v = mset w}"

text \<open>The different words of a dictionary in the order in which the swaps of the search produce them.\<close>

definition found_order :: "string \<Rightarrow> string set \<Rightarrow> string list" where
  "found_order word D = firsts (filter (\<lambda>v. v \<in> D) (leaves word 0 (length word - 1)))"

lemma set_found_order: "word \<noteq> [] \<Longrightarrow> set (found_order word D) = anagrams word D"
  by (cases word) (auto simp: found_order_def anagrams_def set_leaves)

lemma found_order_cong:
  assumes "word \<noteq> []" and "anagrams word D = anagrams word D'"
  shows "found_order word D = found_order word D'"
proof -
  have "v \<in> D \<longleftrightarrow> v \<in> D'" if "v \<in> set (leaves word 0 (length word - 1))" for v
    using that set_leaves [of word "length word - 1"] assms by (cases word) (auto simp: anagrams_def set_eq_iff)
  then have "filter (\<lambda>v. v \<in> D) (leaves word 0 (length word - 1)) = filter (\<lambda>v. v \<in> D') (leaves word 0 (length word - 1))"
    by (intro filter_cong refl)
  then show ?thesis by (simp add: found_order_def)
qed

lemma recBlends_finds:
  assumes "word \<noteq> []" and "0 \<le> n" and "nat n \<le> length dict" and "20 \<le> length rs"
  shows "recBlends word dict n rs = Ret
    (let ms = take 20 (found_order word (set (take (nat n) dict))) in (int (length ms), ms @ drop (length ms) rs))"
proof -
  obtain d where d: "length word = Suc d" using assms(1) by (cases word) auto
  have "permute word 0 (int d) (stored rs []) dict n = Ret (stored rs (take 20 (found_order word (set (take (nat n) dict)))))"
    using permute_leaves [OF assms(2-4), of word 0 d "[]"] d by (simp add: foldl_record_firsts found_order_def)
  then show ?thesis using d by (simp add: recBlends_def stored_def Let_def)
qed

lemma recBlends_empty: "recBlends [] dict n rs = Ret (0, rs)"
  by (simp add: recBlends_def permute.simps swapLoop.simps)

subsection \<open>Loading\<close>

text \<open>A file of words, each behind a white space character except the first, possibly with one more at its end.\<close>

definition word_ok :: "string \<Rightarrow> bool" where
  "word_ok w \<longleftrightarrow> w \<noteq> [] \<and> (\<forall>c \<in> set w. \<not> isspace c)"

fun lines_of :: "string list \<Rightarrow> string \<Rightarrow> string" where
  "lines_of [] fin = fin"
| "lines_of [w] fin = w @ fin"
| "lines_of (w # v # ws) fin = w @ CHR 0x0A # lines_of (v # ws) fin"

definition at_text :: "string \<Rightarrow> istream" where
  "at_text t = \<lparr>in_text = t, eofbit = False, failbit = False\<rparr>"

lemma newline_space [simp]: "isspace (CHR 0x0A)"
  by (simp add: isspace_def)

lemma read_word_first:
  assumes "word_ok w" and "r = [] \<or> isspace (hd r)"
  shows "read_word (at_text (w @ r)) = (w, \<lparr>in_text = r, eofbit = (r = []), failbit = False\<rparr>)"
proof -
  from assms(1) obtain c cs where w: "w = c # cs" "\<not> isspace c" by (cases w) (auto simp: word_ok_def)
  have "takeWhile (\<lambda>c. \<not> isspace c) (w @ r) = w" "dropWhile (\<lambda>c. \<not> isspace c) (w @ r) = r"
    using assms by (cases r; auto simp: word_ok_def)+
  with w show ?thesis by (simp add: read_word_def at_text_def Let_def)
qed

lemma read_word_newline:
  assumes "eofbit f = False" and "failbit f = False" and "in_text f = CHR 0x0A # t"
  shows "read_word f = read_word (at_text t)"
  using assms by (simp add: read_word_def at_text_def Let_def)

lemma at_text_bits [simp]: "eofbit (at_text t) = False" "failbit (at_text t) = False" "in_text (at_text t) = t"
  by (simp_all add: at_text_def)

lemma loadLoop_past_eof: "eofbit f \<Longrightarrow> loadLoop f dict n = Ret (f, dict, n)"
  by (simp add: loadLoop.simps)

lemma loadLoop_newline:
  assumes "eofbit f = False" and "failbit f = False" and "in_text f = CHR 0x0A # t" and "n \<le> MAXDICTWORDS"
  shows "loadLoop f dict n = loadLoop (at_text t) dict n"
  using assms read_word_newline [OF assms(1-3)] by (simp add: loadLoop.simps [of f] loadLoop.simps [of "at_text t"])

definition at_eof_state :: istream where
  "at_eof_state = \<lparr>in_text = [], eofbit = True, failbit = True\<rparr>"

lemma loadLoop_last:
  assumes "fin = [] \<or> fin = [CHR 0x0A]" and "n \<le> MAXDICTWORDS"
  shows "loadLoop (at_text fin) dict n =
    (case dict of [] \<Rightarrow> SegFault | _ # rest \<Rightarrow> Ret (at_eof_state, [] # rest, n + 1))"
proof -
  have "read_word (at_text fin) = ([], at_eof_state)"
    using assms(1) by (auto simp: read_word_def at_text_def at_eof_state_def)
  then show ?thesis using assms(2)
    by (simp add: loadLoop.simps [of "at_text fin"] loadLoop_past_eof at_eof_state_def split: list.split)
qed

text \<open>A line end behind the last word, or no word at all, counts as one more, empty word.\<close>

definition entries :: "string list \<Rightarrow> string \<Rightarrow> string list" where
  "entries ws fin = ws @ (if fin = [] \<and> ws \<noteq> [] then [] else [[]])"

lemma loadLoop_word:
  assumes "word_ok w" and "r = [] \<or> isspace (hd r)" and "n \<le> MAXDICTWORDS"
  shows "loadLoop (at_text (w @ r)) dict n = (case dict of [] \<Rightarrow> SegFault
    | _ # rest \<Rightarrow> obind (loadLoop \<lparr>in_text = r, eofbit = (r = []), failbit = False\<rparr> rest (n + 1))
        (\<lambda>(f, rest, k). Ret (f, w # rest, k)))"
  using read_word_first [OF assms(1,2)] assms(3) by (simp add: loadLoop.simps [of "at_text (w @ r)"])

lemma loadLoop_lines:
  assumes "fin = [] \<or> fin = [CHR 0x0A]" and "\<forall>w \<in> set ws. word_ok w" and "n + int (length dict) = MAXDICTWORDS"
  shows "if length (entries ws fin) \<le> length dict
    then (\<exists>f. loadLoop (at_text (lines_of ws fin)) dict n =
      Ret (f, entries ws fin @ drop (length (entries ws fin)) dict, n + int (length (entries ws fin))))
    else loadLoop (at_text (lines_of ws fin)) dict n = SegFault"
  using assms
proof (induction ws fin arbitrary: dict n rule: lines_of.induct)
  case (1 fin)
  then have "n \<le> MAXDICTWORDS" by simp
  with 1 show ?case by (simp add: loadLoop_last entries_def split: list.split)
next
  case (2 w fin)
  then have n: "n \<le> MAXDICTWORDS" and w: "word_ok w" by simp_all
  have fin: "fin = [] \<or> isspace (hd fin)" using 2 by auto
  show ?case
  proof (cases dict)
    case Nil
    then show ?thesis using loadLoop_word [OF w fin n] by (simp add: entries_def)
  next
    case (Cons d rest)
    then have n1: "n + 1 \<le> MAXDICTWORDS" using 2 by simp
    show ?thesis
    proof (cases "fin = []")
      case True
      then show ?thesis using loadLoop_word [OF w fin n, of dict] Cons
        by (simp add: entries_def loadLoop_past_eof)
    next
      case False
      with 2 have nl: "fin = [CHR 0x0A]" by simp
      have "loadLoop \<lparr>in_text = fin, eofbit = False, failbit = False\<rparr> rest (n + 1) = loadLoop (at_text []) rest (n + 1)"
        using n1 nl by (intro loadLoop_newline) simp_all
      also have "\<dots> = (case rest of [] \<Rightarrow> SegFault | _ # rest \<Rightarrow> Ret (at_eof_state, [] # rest, n + 1 + 1))"
        using loadLoop_last [of "[]" "n + 1" rest] n1 by simp
      finally show ?thesis using loadLoop_word [OF w fin n, of dict] Cons nl
        by (simp add: entries_def split: list.split)
    qed
  qed
next
  case (3 w v ws fin)
  then have n: "n \<le> MAXDICTWORDS" and w: "word_ok w" by simp_all
  let ?r = "CHR 0x0A # lines_of (v # ws) fin"
  note first = loadLoop_word [OF w _ n, of ?r dict, simplified]
  show ?case
  proof (cases dict)
    case Nil
    then show ?thesis using first by (simp add: entries_def)
  next
    case (Cons d rest)
    then have n1: "n + 1 \<le> MAXDICTWORDS" using 3 by simp
    have "loadLoop \<lparr>in_text = ?r, eofbit = False, failbit = False\<rparr> rest (n + 1) =
        loadLoop (at_text (lines_of (v # ws) fin)) rest (n + 1)"
      using n1 by (intro loadLoop_newline) simp_all
    moreover have "n + 1 + int (length rest) = MAXDICTWORDS" using 3 Cons by simp
    note 3(1) [OF 3(2) _ this]
    moreover have "entries (w # v # ws) fin = w # entries (v # ws) fin" by (simp add: entries_def)
    ultimately show ?thesis using first 3(3) Cons by (auto split: if_splits)
  qed
qed

lemma loadWords_lines:
  assumes "fin = [] \<or> fin = [CHR 0x0A]" and "\<forall>w \<in> set ws. word_ok w" and "length dict = nat MAXDICTWORDS"
  shows "loadWords (at_text (lines_of ws fin)) dict =
    (if length (entries ws fin) \<le> nat MAXDICTWORDS
     then Ret (int (length (entries ws fin)), entries ws fin @ drop (length (entries ws fin)) dict)
     else SegFault)"
  using loadLoop_lines [OF assms(1,2), of 0 dict] assms(3)
  by (auto simp: loadWords_def MAXDICTWORDS_def split: if_splits)

subsection \<open>The program\<close>

lemma showResults_lines:
  "0 < k \<Longrightarrow> k \<le> length rs \<Longrightarrow> showResults rs (int k) = Ret (map (\<lambda>r. ''Matching word: '' @ r) (rev (take k rs)))"
proof (induction k)
  case (Suc k)
  then have "take (Suc k) rs = take k rs @ [rs ! k]" and "arr rs k = Ret (rs ! k)" by (simp_all add: take_Suc_conv_app_nth)
  with Suc show ?case by (cases "k = 0") (simp_all add: showResults.simps [of rs "1 + int k"] showResults.simps [of rs 1])
qed simp

lemma set_entries: "set (entries ws fin) \<subseteq> insert [] (set ws) \<and> set ws \<subseteq> set (entries ws fin)"
  by (auto simp: entries_def)

lemma anagrams_entries: "word \<noteq> [] \<Longrightarrow> anagrams word (set (entries ws fin)) = anagrams word (set ws)"
  using set_entries [of ws fin] by (auto simp: anagrams_def)

lemma anagrams_main_finds:
  assumes "fin = [] \<or> fin = [CHR 0x0A]" and "\<forall>w \<in> set ws. word_ok w" and "length (entries ws fin) \<le> 30000"
    and "word \<noteq> []"
  shows "anagrams_main (Some (lines_of ws fin)) word =
    Ret (if found_order word (set ws) = [] then [''No matches found'']
         else map (\<lambda>r. ''Matching word: '' @ r) (rev (take 20 (found_order word (set ws)))))"
proof -
  let ?es = "entries ws fin" and ?rs = "replicate 20 ([]::string)"
  let ?dict = "?es @ drop (length ?es) (replicate (nat MAXDICTWORDS) [])"
  define ms where "ms = take 20 (found_order word (set ws))"
  have load: "loadWords (at_text (lines_of ws fin)) (replicate (nat MAXDICTWORDS) []) = Ret (int (length ?es), ?dict)"
    using loadWords_lines [OF assms(1,2), of "replicate (nat MAXDICTWORDS) []"] assms(3) by (simp add: MAXDICTWORDS_def)
  have "found_order word (set ?es) = found_order word (set ws)"
    using assms(4) anagrams_entries by (intro found_order_cong) auto
  then have run: "recBlends word ?dict (int (length ?es)) ?rs = Ret (int (length ms), ms @ drop (length ms) ?rs)"
    using recBlends_finds [OF assms(4), of "int (length ?es)" ?dict ?rs] by (simp add: ms_def Let_def)
  have show_ms: "showResults (ms @ drop (length ms) ?rs) (int (length ms)) = Ret (map (\<lambda>r. ''Matching word: '' @ r) (rev ms))"
    if "ms \<noteq> []" using showResults_lines [of "length ms" "ms @ drop (length ms) ?rs"] that by simp
  have "anagrams_main (Some (lines_of ws fin)) word =
      Ret (if ms = [] then [''No matches found''] else map (\<lambda>r. ''Matching word: '' @ r) (rev ms))"
    using load run show_ms by (simp add: anagrams_main_def at_text_def MAXRESULTS_def)
  then show ?thesis by (simp add: ms_def)
qed

text \<open>With 30001 entries the last is stored behind the array.\<close>

lemma loadWords_overflow:
  assumes "fin = [] \<or> fin = [CHR 0x0A]" and "\<forall>w \<in> set ws. word_ok w" and "length (entries ws fin) = 30001"
  shows "anagrams_main (Some (lines_of ws fin)) word = SegFault"
  using loadWords_lines [OF assms(1,2), of "replicate (nat MAXDICTWORDS) []"] assms(3)
  by (simp add: anagrams_main_def at_text_def MAXDICTWORDS_def)

end
