(* ===== verification/Maze.thy ===== *)
theory Maze
  imports CLib
begin

text \<open>
  The driving exercise \<open>CS31/project3/maze.cpp\<close>. The grid (\<open>grid.h\<close>, not part of the repository) is
  a parameter: its numbers of rows and columns and its walls. The characters of a course are
  classified as in the C locale. Debugging output to \<open>cerr\<close> is left out.
\<close>

definition stringtoInteger :: "char \<Rightarrow> int" where
  "stringtoInteger a = of_char a - 48"

subsection \<open>Positions\<close>

record grid =
  getRows :: int
  getCols :: int
  isWall :: "int \<Rightarrow> int \<Rightarrow> bool"

definition isValidPosition :: "grid \<Rightarrow> int \<Rightarrow> int \<Rightarrow> bool" where
  "isValidPosition g r c =
     (let rowLength = getCols g; colLength = getRows g in
      if r < 1 \<or> r > colLength \<or> c < 1 \<or> c > rowLength then False
      else if isWall g r c then False else True)"

definition updatePosition :: "int \<times> int \<Rightarrow> char \<Rightarrow> int \<Rightarrow> int \<times> int" where
  "updatePosition pos dir distance =
     (let (r, c) = pos;
          c = (if toupper dir = CHR ''E'' then c + distance else c);
          c = (if toupper dir = CHR ''W'' then c - distance else c);
          r = (if toupper dir = CHR ''S'' then r + distance else r);
          r = (if toupper dir = CHR ''N'' then r - distance else r) in (r, c))"

subsection \<open>Segments\<close>

text \<open>The loops over the cells to the north, south, east and west.\<close>

function drive_north :: "grid \<Rightarrow> int \<Rightarrow> int \<Rightarrow> int \<Rightarrow> int \<Rightarrow> int" where
  "drive_north g c maxSteps i maxDistance =
     (if i > 0
      then let maxDistance = (if isValidPosition g (i - 1) c then maxDistance + 1 else maxDistance) in
        if isValidPosition g (i - 1) c \<and> maxDistance = maxSteps then maxSteps
        else if \<not> isValidPosition g (i - 1) c then maxDistance
        else drive_north g c maxSteps (i - 1) maxDistance
      else maxDistance)"
  by pat_completeness auto
termination by (relation "measure (\<lambda>(g, c, mx, i, d). nat i)") auto

function drive_south :: "grid \<Rightarrow> int \<Rightarrow> int \<Rightarrow> int \<Rightarrow> int \<Rightarrow> int" where
  "drive_south g c maxSteps i maxDistance =
     (if i \<noteq> getRows g
      then let maxDistance = (if isValidPosition g (i + 1) c then maxDistance + 1 else maxDistance) in
        if isValidPosition g (i + 1) c \<and> maxDistance = maxSteps then maxSteps
        else if \<not> isValidPosition g (i + 1) c then maxDistance
        else drive_south g c maxSteps (i + 1) maxDistance
      else maxDistance)"
  by pat_completeness auto
termination
  by (relation "measure (\<lambda>(g, c, mx, i, d). nat (getRows g - i))") (auto simp: isValidPosition_def Let_def split: if_splits)

function drive_east :: "grid \<Rightarrow> int \<Rightarrow> int \<Rightarrow> int \<Rightarrow> int \<Rightarrow> int" where
  "drive_east g r maxSteps i maxDistance =
     (if i \<noteq> getCols g
      then let maxDistance = (if isValidPosition g r (i + 1) then maxDistance + 1 else maxDistance) in
        if isValidPosition g r (i + 1) \<and> maxDistance = maxSteps then maxSteps
        else if \<not> isValidPosition g r (i + 1) then maxDistance
        else drive_east g r maxSteps (i + 1) maxDistance
      else maxDistance)"
  by pat_completeness auto
termination
  by (relation "measure (\<lambda>(g, c, mx, i, d). nat (getCols g - i))") (auto simp: isValidPosition_def Let_def split: if_splits)

function drive_west :: "grid \<Rightarrow> int \<Rightarrow> int \<Rightarrow> int \<Rightarrow> int \<Rightarrow> int" where
  "drive_west g r maxSteps i maxDistance =
     (if i > 0
      then let maxDistance = (if isValidPosition g r (i - 1) then maxDistance + 1 else maxDistance) in
        if isValidPosition g r (i - 1) \<and> maxDistance = maxSteps then maxSteps
        else if \<not> isValidPosition g r (i - 1) then maxDistance
        else drive_west g r maxSteps (i - 1) maxDistance
      else maxDistance)"
  by pat_completeness auto
termination by (relation "measure (\<lambda>(g, c, mx, i, d). nat i)") auto

declare drive_north.simps [simp del] drive_south.simps [simp del] drive_east.simps [simp del] drive_west.simps [simp del]

definition driveSegment :: "grid \<Rightarrow> int \<Rightarrow> int \<Rightarrow> char \<Rightarrow> int \<Rightarrow> int" where
  "driveSegment g r c dir maxSteps =
     (if \<not> isValidPosition g r c then - 1
      else if maxSteps < 0 then - 1
      else if dir \<notin> set ''NnSsEeWw'' then - 1
      else if toupper dir = CHR ''N'' then drive_north g c maxSteps r 0
      else if toupper dir = CHR ''S'' then drive_south g c maxSteps r 0
      else if toupper dir = CHR ''E'' then drive_east g r maxSteps c 0
      else if toupper dir = CHR ''W'' then drive_west g r maxSteps c 0
      else 0)"

subsection \<open>Courses\<close>

function well_formed_from :: "string \<Rightarrow> nat \<Rightarrow> bool" where
  "well_formed_from course k =
     (if k < length course
      then let ch = course ! k in
        if \<not> isalpha ch \<and> \<not> isdigit ch then False
        else if isalpha ch \<and> toupper ch \<noteq> CHR ''N'' \<and> toupper ch \<noteq> CHR ''S'' \<and> toupper ch \<noteq> CHR ''E''
          \<and> toupper ch \<noteq> CHR ''W'' then False
        else if isdigit ch \<and> \<not> k + 1 > length course - 1 \<and> isdigit (course ! (k + 1)) \<and>
          \<not> k + 2 > length course - 1 \<and> isdigit (course ! (k + 2)) then False
        else well_formed_from course (k + 1)
      else True)"
  by pat_completeness auto
termination by (relation "measure (\<lambda>(course, k). length course - k)") auto

definition isCourseWellFormed :: "string \<Rightarrow> bool" where
  "isCourseWellFormed course =
     (if course = [] then True
      else if \<not> isalpha (course ! 0) then False
      else if length course = 1 \<and> \<not> isalpha (course ! 0) then False
      else well_formed_from course 0)"

text \<open>
  The code of each of the five cases of a direction: the number of steps is added, and the course
  ends with 3 when the car cannot go that far. The state is the position and \<open>nsteps\<close>; \<open>None\<close>
  stands for \<open>return 3\<close>.
\<close>

type_synonym car = "(int \<times> int) \<times> int"

definition drive :: "grid \<Rightarrow> char \<Rightarrow> int \<Rightarrow> car \<Rightarrow> car option \<times> int" where
  "drive g dir n s =
     (let ((r, c), nsteps) = s; d = driveSegment g r c dir n; nsteps = nsteps + d in
      if d < n then (None, nsteps) else (Some (updatePosition (r, c) dir d, nsteps), nsteps))"

text \<open>The statements of the loop body that one character selects, in their order.\<close>

definition course_char :: "grid \<Rightarrow> string \<Rightarrow> nat \<Rightarrow> car \<Rightarrow> car option \<times> int" where
  "course_char g course k s =
     (let ch = course ! k; sz = length course; next1 = course ! (k + 1); next2 = course ! (k + 2);
          andThen = (\<lambda>x f. case x of (Some s, _) \<Rightarrow> f s | (None, n) \<Rightarrow> (None, n)) in
      andThen (if isalpha ch \<and> k = sz - 1 then drive g ch 1 s else (Some s, snd s)) (\<lambda>s.
      andThen (if isalpha ch \<and> k + 1 < sz \<and> isalpha next1 then drive g ch 1 s else (Some s, snd s)) (\<lambda>s.
      andThen (if isalpha ch \<and> k + 1 < sz \<and> isdigit next1 \<and> k + 2 = sz
               then drive g ch (stringtoInteger next1) s else (Some s, snd s)) (\<lambda>s.
      andThen (if isalpha ch \<and> k + 1 < sz \<and> isdigit next1 \<and> k + 2 < sz \<and> isalpha next2
               then drive g ch (stringtoInteger next1) s else (Some s, snd s)) (\<lambda>s.
      if isalpha ch \<and> k + 1 < sz \<and> isdigit next1 \<and> k + 2 < sz \<and> isdigit next2
      then drive g ch (10 * stringtoInteger next1 + stringtoInteger next2) s else (Some s, snd s))))))"

function course_from :: "grid \<Rightarrow> string \<Rightarrow> nat \<Rightarrow> car \<Rightarrow> car option \<times> int" where
  "course_from g course k s =
     (if k < length course
      then (case course_char g course k s of (Some s, _) \<Rightarrow> course_from g course (k + 1) s | (None, n) \<Rightarrow> (None, n))
      else (Some s, snd s))"
  by pat_completeness auto
termination by (relation "measure (\<lambda>(g, course, k, s). length course - k)") auto

declare well_formed_from.simps [simp del] course_from.simps [simp del]

text \<open>The result and \<open>nsteps\<close> after the call.\<close>

definition driveCourse :: "grid \<Rightarrow> int \<Rightarrow> int \<Rightarrow> int \<Rightarrow> int \<Rightarrow> string \<Rightarrow> int \<Rightarrow> int \<times> int" where
  "driveCourse g sr sc er ec course nsteps =
     (if \<not> isValidPosition g sr sc \<or> \<not> isValidPosition g er ec then (2, nsteps)
      else if \<not> isCourseWellFormed course then (2, nsteps)
      else if course = [] then (if sr = er \<and> sc = ec then 0 else 1, nsteps)
      else (case course_from g course 0 ((sr, sc), 0) of
          (None, n) \<Rightarrow> (3, n)
        | (Some ((r, c), n), _) \<Rightarrow> (if r = er \<and> c = ec then 0 else 1, n)))"

definition maze_main :: "grid \<Rightarrow> int \<Rightarrow> (int \<times> int) list" where
  "maze_main g nsteps =
     (let (x, n1) = driveCourse g 2 5 1 3 ''w2n1'' nsteps;
          (y, n2) = driveCourse g 2 5 1 3 ''w1n1'' n1;
          (z, n3) = driveCourse g 2 5 1 3 ''w4n1'' n2 in [(x, n1), (y, n2), (z, n3)])"

end
