(* ===== verification/MazeProps.thy ===== *)
theory MazeProps
  imports Maze
begin

text \<open>
  The driving exercise: how far a segment leads, which courses are well-formed, and what driving a
  course gives, segment by segment.
\<close>

subsection \<open>Driving in one direction\<close>

text \<open>
  The contract of the four loops: they step from cell to cell while the next one is free, up to the
  given number of steps.
\<close>

locale cell_scan =
  fixes loop :: "int \<Rightarrow> int \<Rightarrow> int" and ok :: "int \<Rightarrow> bool" and dir :: int and most :: int
  assumes loop_eq: "loop i d = (if ok (i + dir) then if d + 1 = most then most else loop (i + dir) (d + 1) else d)"
    and blocked: "\<exists>k. \<not> ok (i + int (Suc k) * dir)"
begin

definition way :: "int \<Rightarrow> nat" where
  "way i = (LEAST k. \<not> ok (i + int (Suc k) * dir))"

lemma not_ok_way: "\<not> ok (i + int (Suc (way i)) * dir)"
  unfolding way_def using blocked by (rule LeastI_ex)

lemma ok_way: "k < way i \<Longrightarrow> ok (i + int (Suc k) * dir)"
  unfolding way_def by (metis not_less_Least)

lemma way_Suc: "way i = (if ok (i + dir) then Suc (way (i + dir)) else 0)"
proof (cases "ok (i + dir)")
  case False
  then show ?thesis using ok_way [of 0 i] by (cases "way i") auto
next
  case True
  then have "way i \<noteq> 0" using not_ok_way [of i] by (intro notI) simp
  then obtain k where k: "way i = Suc k" by (cases "way i") auto
  have "way (i + dir) = k"
    unfolding way_def [of "i + dir"]
  proof (rule Least_equality)
    show "\<not> ok (i + dir + int (Suc k) * dir)" using not_ok_way [of i] by (simp add: k algebra_simps)
    fix y assume y: "\<not> ok (i + dir + int (Suc y) * dir)"
    show "k \<le> y"
    proof (rule ccontr)
      assume "\<not> k \<le> y"
      then have "ok (i + int (Suc (Suc y)) * dir)" using k by (intro ok_way) simp
      with y show False by (simp add: algebra_simps)
    qed
  qed
  with True k show ?thesis by simp
qed

lemma loop_way: "loop i d = (if d < most then min most (d + int (way i)) else d + int (way i))"
proof (induction "way i" arbitrary: i d)
  case 0
  then have "\<not> ok (i + dir)" using way_Suc [of i] by (simp split: if_splits)
  then show ?case using 0 loop_eq [of i d] by simp
next
  case (Suc k)
  then have w: "ok (i + dir)" "way (i + dir) = k" using way_Suc [of i] by (simp_all split: if_splits)
  show ?case using Suc(1) [of "i + dir" "d + 1"] loop_eq [of i d] w Suc(2) by auto
qed

end

lemma valid_bounds: "isValidPosition g r c \<Longrightarrow> 1 \<le> r \<and> r \<le> getRows g \<and> 1 \<le> c \<and> c \<le> getCols g"
  by (auto simp: isValidPosition_def Let_def split: if_splits)

lemma blocked_ahead:
  assumes "d = 1 \<or> d = - 1"
  shows "\<exists>k. \<not> isValidPosition g (i + int (Suc k) * d) c" and "\<exists>k. \<not> isValidPosition g r (i + int (Suc k) * d)"
proof -
  have "\<not> isValidPosition g (i + int (Suc (nat (\<bar>i\<bar> + \<bar>getRows g\<bar>))) * d) c"
    using assms valid_bounds [of g "i + int (Suc (nat (\<bar>i\<bar> + \<bar>getRows g\<bar>))) * d" c] by auto
  then show "\<exists>k. \<not> isValidPosition g (i + int (Suc k) * d) c" by blast
  have "\<not> isValidPosition g r (i + int (Suc (nat (\<bar>i\<bar> + \<bar>getCols g\<bar>))) * d)"
    using assms valid_bounds [of g r "i + int (Suc (nat (\<bar>i\<bar> + \<bar>getCols g\<bar>))) * d"] by auto
  then show "\<exists>k. \<not> isValidPosition g r (i + int (Suc k) * d)" by blast
qed

interpretation north: cell_scan "\<lambda>i d. drive_north g c n i d" "\<lambda>i. isValidPosition g i c" "- 1" n for g c n
proof
  show "drive_north g c n i d = (if isValidPosition g (i + - 1) c then if d + 1 = n then n
      else drive_north g c n (i + - 1) (d + 1) else d)" for i d
    using valid_bounds [of g "i - 1" c] by (subst drive_north.simps) (auto simp: Let_def)
  show "\<exists>k. \<not> isValidPosition g (i + int (Suc k) * - 1) c" for i
    by (rule blocked_ahead) simp
qed

interpretation south: cell_scan "\<lambda>i d. drive_south g c n i d" "\<lambda>i. isValidPosition g i c" 1 n for g c n
proof
  show "drive_south g c n i d = (if isValidPosition g (i + 1) c then if d + 1 = n then n
      else drive_south g c n (i + 1) (d + 1) else d)" for i d
    using valid_bounds [of g "i + 1" c] by (subst drive_south.simps) (auto simp: Let_def)
  show "\<exists>k. \<not> isValidPosition g (i + int (Suc k) * 1) c" for i
    by (rule blocked_ahead) simp
qed

interpretation east: cell_scan "\<lambda>i d. drive_east g r n i d" "\<lambda>i. isValidPosition g r i" 1 n for g r n
proof
  show "drive_east g r n i d = (if isValidPosition g r (i + 1) then if d + 1 = n then n
      else drive_east g r n (i + 1) (d + 1) else d)" for i d
    using valid_bounds [of g r "i + 1"] by (subst drive_east.simps) (auto simp: Let_def)
  show "\<exists>k. \<not> isValidPosition g r (i + int (Suc k) * 1)" for i
    by (rule blocked_ahead) simp
qed

interpretation west: cell_scan "\<lambda>i d. drive_west g r n i d" "\<lambda>i. isValidPosition g r i" "- 1" n for g r n
proof
  show "drive_west g r n i d = (if isValidPosition g r (i + - 1) then if d + 1 = n then n
      else drive_west g r n (i + - 1) (d + 1) else d)" for i d
    using valid_bounds [of g r "i - 1"] by (subst drive_west.simps) (auto simp: Let_def)
  show "\<exists>k. \<not> isValidPosition g r (i + int (Suc k) * - 1)" for i
    by (rule blocked_ahead) simp
qed

text \<open>The number of free cells ahead.\<close>

definition free_ahead :: "grid \<Rightarrow> int \<times> int \<Rightarrow> char \<Rightarrow> nat" where
  "free_ahead g pos dir =
     (LEAST k. \<not> (case updatePosition pos dir (int (Suc k)) of (r, c) \<Rightarrow> isValidPosition g r c))"

lemma toupper_directions [simp]:
  "toupper (CHR ''N'') = CHR ''N''" "toupper (CHR ''n'') = CHR ''N''"
  "toupper (CHR ''S'') = CHR ''S''" "toupper (CHR ''s'') = CHR ''S''"
  "toupper (CHR ''E'') = CHR ''E''" "toupper (CHR ''e'') = CHR ''E''"
  "toupper (CHR ''W'') = CHR ''W''" "toupper (CHR ''w'') = CHR ''W''"
  by code_simp+

lemma minus_steps: "i + (- 1 - int k) = i - (1 + int k)"
  by simp

definition is_direction :: "char \<Rightarrow> bool" where
  "is_direction c \<longleftrightarrow> c \<in> set ''NnSsEeWw''"

lemma direction_cases:
  assumes "is_direction dir"
  obtains "toupper dir = CHR ''N''" | "toupper dir = CHR ''S''" | "toupper dir = CHR ''E''" | "toupper dir = CHR ''W''"
  using assms by (auto simp: is_direction_def)

lemma driveSegment_eq:
  assumes "isValidPosition g r c" and "is_direction dir" and "0 \<le> n"
  shows "driveSegment g r c dir n =
    (if n = 0 then int (free_ahead g (r, c) dir) else min n (int (free_ahead g (r, c) dir)))"
  using assms(2)
proof (cases rule: direction_cases)
  case 1
  then show ?thesis using assms north.loop_way [of g c n r 0]
    by (auto simp: is_direction_def driveSegment_def free_ahead_def updatePosition_def north.way_def minus_steps)
next
  case 2
  then show ?thesis using assms south.loop_way [of g c n r 0]
    by (auto simp: is_direction_def driveSegment_def free_ahead_def updatePosition_def south.way_def)
next
  case 3
  then show ?thesis using assms east.loop_way [of g r n c 0]
    by (auto simp: is_direction_def driveSegment_def free_ahead_def updatePosition_def east.way_def)
next
  case 4
  then show ?thesis using assms west.loop_way [of g r n c 0]
    by (auto simp: is_direction_def driveSegment_def free_ahead_def updatePosition_def west.way_def minus_steps)
qed

lemma free_ahead_exact:
  assumes "is_direction dir"
  shows "1 \<le> k \<Longrightarrow> k \<le> free_ahead g pos dir \<Longrightarrow>
      (case updatePosition pos dir (int k) of (r, c) \<Rightarrow> isValidPosition g r c)"
    and "\<not> (case updatePosition pos dir (int (Suc (free_ahead g pos dir))) of (r, c) \<Rightarrow> isValidPosition g r c)"
proof -
  let ?ok = "\<lambda>k. case updatePosition pos dir (int (Suc k)) of (r, c) \<Rightarrow> isValidPosition g r c"
  obtain r c where pos: "pos = (r, c)" by (cases pos)
  have ex: "\<exists>k. \<not> ?ok k"
    using assms
    by (cases rule: direction_cases)
      (use blocked_ahead [of 1 g r c] blocked_ahead [of "- 1" g r c] blocked_ahead [of 1 g c r] blocked_ahead [of "- 1" g c r]
        in \<open>simp_all add: pos updatePosition_def minus_steps\<close>)
  show "\<not> ?ok (free_ahead g pos dir)" unfolding free_ahead_def by (rule LeastI_ex [OF ex])
  show "case updatePosition pos dir (int k) of (r, c) \<Rightarrow> isValidPosition g r c" if "1 \<le> k" "k \<le> free_ahead g pos dir"
    using not_less_Least [of "k - 1" "\<lambda>k. \<not> ?ok k"] that by (simp add: free_ahead_def)
qed

subsection \<open>Well-formed courses\<close>

text \<open>A segment is a direction and at most two digits.\<close>

type_synonym segment = "char \<times> string"

definition segment_ok :: "segment \<Rightarrow> bool" where
  "segment_ok s \<longleftrightarrow> is_direction (fst s) \<and> length (snd s) \<le> 2 \<and> (\<forall>c \<in> set (snd s). isdigit c)"

definition course_text :: "segment list \<Rightarrow> string" where
  "course_text segs = concat (map (\<lambda>(dir, ds). dir # ds) segs)"

lemma course_text_simps [simp]:
  "course_text [] = []" "course_text ((dir, ds) # segs) = dir # ds @ course_text segs"
  by (simp_all add: course_text_def)

text \<open>The test on the remaining characters.\<close>

fun digits_ok :: "string \<Rightarrow> bool" where
  "digits_ok [] \<longleftrightarrow> True"
| "digits_ok (c # cs) \<longleftrightarrow> (is_direction c \<or> isdigit c) \<and>
     \<not> (isdigit c \<and> 2 \<le> length cs \<and> isdigit (cs ! 0) \<and> isdigit (cs ! 1)) \<and> digits_ok cs"

lemma alpha_digit: "isdigit c \<Longrightarrow> \<not> isalpha c"
  by (auto simp: isdigit_def isalpha_def less_eq_char_def)

lemma direction_alpha: "is_direction c \<Longrightarrow> isalpha c"
  by (auto simp: is_direction_def isalpha_def less_eq_char_def)

lemma direction_iff:
  "isalpha c \<and> (toupper c = CHR ''N'' \<or> toupper c = CHR ''S'' \<or> toupper c = CHR ''E'' \<or> toupper c = CHR ''W'') \<longleftrightarrow>
    is_direction c"
proof
  assume a: "isalpha c \<and> (toupper c = CHR ''N'' \<or> toupper c = CHR ''S'' \<or> toupper c = CHR ''E'' \<or> toupper c = CHR ''W'')"
  show "is_direction c"
  proof (cases "CHR ''a'' \<le> c \<and> c \<le> CHR ''z''")
    case True
    define n :: nat where "n = of_char c"
    have n: "97 \<le> n" "n \<le> 122" "c = char_of n" using True by (auto simp: n_def less_eq_char_def)
    from True a have "char_of (n - 32) \<in> set ''NSEW''" by (auto simp: toupper_def n_def)
    then have "(of_char (char_of (n - 32) :: char) :: nat) \<in> of_char ` set ''NSEW''" by blast
    then have "n - 32 \<in> {78, 83, 69, 87}" using n by simp
    then have "n \<in> {110, 115, 101, 119}" using n by auto
    moreover have "char_of (110::nat) = CHR ''n''" "char_of (115::nat) = CHR ''s''" "char_of (101::nat) = CHR ''e''"
      "char_of (119::nat) = CHR ''w''" by code_simp+
    ultimately have "char_of n \<in> set ''nsew''" by auto
    with n show ?thesis by (auto simp: is_direction_def)
  next
    case False
    then show ?thesis using a by (auto simp: toupper_def is_direction_def)
  qed
next
  assume c: "is_direction c"
  show "isalpha c \<and> (toupper c = CHR ''N'' \<or> toupper c = CHR ''S'' \<or> toupper c = CHR ''E'' \<or> toupper c = CHR ''W'')"
    using direction_alpha [OF c] c by (auto elim!: direction_cases)
qed

lemma well_formed_from_eq: "well_formed_from course k = digits_ok (drop k course)"
proof (induction "length course - k" arbitrary: k)
  case 0
  then show ?case by (simp add: well_formed_from.simps)
next
  case (Suc j)
  then have True: "k < length course" by simp
  let ?c = "course ! k" and ?r = "drop (Suc k) course"
  let ?more = "\<not> k + 1 > length course - 1 \<and> isdigit (course ! (k + 1)) \<and> \<not> k + 2 > length course - 1 \<and>
    isdigit (course ! (k + 2))"
  have "well_formed_from course k \<longleftrightarrow> (isalpha ?c \<or> isdigit ?c) \<and> \<not> (isalpha ?c \<and> toupper ?c \<noteq> CHR ''N'' \<and>
      toupper ?c \<noteq> CHR ''S'' \<and> toupper ?c \<noteq> CHR ''E'' \<and> toupper ?c \<noteq> CHR ''W'') \<and>
      \<not> (isdigit ?c \<and> ?more) \<and> well_formed_from course (k + 1)"
    using True by (subst well_formed_from.simps) (simp add: Let_def)
  also have "\<dots> \<longleftrightarrow> (is_direction ?c \<or> isdigit ?c) \<and> \<not> (isdigit ?c \<and> ?more) \<and> well_formed_from course (k + 1)"
    using direction_iff [of ?c] alpha_digit [of ?c] by blast
  also have "?more \<longleftrightarrow> 2 \<le> length ?r \<and> isdigit (?r ! 0) \<and> isdigit (?r ! 1)"
    using True by (auto simp: numeral_2_eq_2)
  also have "well_formed_from course (k + 1) = digits_ok ?r"
    using Suc(1) [of "Suc k"] Suc(2) by simp
  also have "(is_direction ?c \<or> isdigit ?c) \<and> \<not> (isdigit ?c \<and> 2 \<le> length ?r \<and> isdigit (?r ! 0) \<and> isdigit (?r ! 1)) \<and>
      digits_ok ?r \<longleftrightarrow> digits_ok (drop k course)"
    using True by (simp add: Cons_nth_drop_Suc [symmetric])
  finally show ?case .
qed

lemma course_parses:
  "digits_ok cs \<Longrightarrow> cs = [] \<or> isalpha (hd cs) \<Longrightarrow> \<exists>segs. (\<forall>s \<in> set segs. segment_ok s) \<and> cs = course_text segs"
proof (induction cs rule: length_induct)
  case (1 cs)
  have dir: "is_direction c" if "digits_ok (c # r)" "isalpha c" for c r
    using that alpha_digit by auto
  have next_dir: "r = [] \<or> isalpha (hd r)" if "digits_ok r" "r = [] \<or> \<not> isdigit (hd r)" for r
    using that direction_alpha by (cases r) auto
  have step: "\<exists>segs. (\<forall>s \<in> set segs. segment_ok s) \<and> cs = course_text segs"
    if "cs = c # ds @ r" "segment_ok (c, ds)" "digits_ok r" "r = [] \<or> \<not> isdigit (hd r)" for c ds r
  proof -
    note r = that
    have "length r < length cs" using r(1) by simp
    then obtain segs where "\<forall>s \<in> set segs. segment_ok s" "r = course_text segs"
      using 1(1) r(3) next_dir [OF r(3,4)] by blast
    with r show ?thesis by (intro exI [of _ "(c, ds) # segs"]) simp
  qed
  show ?case
  proof (cases cs)
    case Nil
    then show ?thesis by (intro exI [of _ "[]"]) simp
  next
    case (Cons c r)
    then have c: "is_direction c" using 1 dir by simp
    have ok: "digits_ok r" using 1 Cons by simp
    consider "r = [] \<or> \<not> isdigit (hd r)" | x r1 where "r = x # r1" "isdigit x" "r1 = [] \<or> \<not> isdigit (hd r1)"
      | x y r2 where "r = x # y # r2" "isdigit x" "isdigit y"
      by (metis list.collapse)
    then show ?thesis
    proof cases
      case 1
      then show ?thesis using step [of c "[]" r] Cons c ok by (simp add: segment_ok_def)
    next
      case (2 x r1)
      then show ?thesis using step [of c "[x]" r1] Cons c ok by (simp add: segment_ok_def)
    next
      case (3 x y r2)
      then have "r2 = [] \<or> \<not> isdigit (hd r2)" using ok by (cases r2) auto
      then show ?thesis using step [of c "[x, y]" r2] Cons c ok 3 by (simp add: segment_ok_def)
    qed
  qed
qed

lemma course_text_head: "\<forall>s \<in> set segs. segment_ok s \<Longrightarrow> course_text segs = [] \<or> isalpha (hd (course_text segs))"
  using direction_alpha by (cases segs) (auto simp: segment_ok_def)

lemma segment_cases:
  assumes "segment_ok (dir, ds)"
  obtains "ds = []" | x where "ds = [x]" "isdigit x" | x y where "ds = [x, y]" "isdigit x" "isdigit y"
proof -
  have "length ds \<le> 2" using assms by (simp add: segment_ok_def)
  then have "length ds = 0 \<or> length ds = 1 \<or> length ds = 2" by arith
  with assms show ?thesis using that by (auto simp: segment_ok_def length_Suc_conv numeral_2_eq_2)
qed

lemma digits_ok_course: "\<forall>s \<in> set segs. segment_ok s \<Longrightarrow> digits_ok (course_text segs)"
proof (induction segs)
  case (Cons s segs)
  obtain dir ds where s: "s = (dir, ds)" by (cases s)
  have hd: "course_text segs = [] \<or> \<not> isdigit (hd (course_text segs))"
    using course_text_head [of segs] Cons.prems alpha_digit by auto
  have ih: "digits_ok (course_text segs)" using Cons by simp
  have "segment_ok (dir, ds)" using Cons.prems s by simp
  then have dir: "is_direction dir" "\<not> isdigit dir" using direction_alpha alpha_digit by (auto simp: segment_ok_def)
  show ?case
    using \<open>segment_ok (dir, ds)\<close>
    by (cases rule: segment_cases) (use dir hd ih in \<open>cases "course_text segs"; auto simp: s\<close>)+
qed simp

lemma isCourseWellFormed_iff:
  "isCourseWellFormed course \<longleftrightarrow> (\<exists>segs. (\<forall>s \<in> set segs. segment_ok s) \<and> course = course_text segs)"
proof -
  have "isCourseWellFormed course \<longleftrightarrow> (course = [] \<or> isalpha (hd course)) \<and> digits_ok course"
    by (cases course) (auto simp: isCourseWellFormed_def well_formed_from_eq)
  also have "\<dots> \<longleftrightarrow> (\<exists>segs. (\<forall>s \<in> set segs. segment_ok s) \<and> course = course_text segs)"
    using course_parses [of course] course_text_head digits_ok_course by blast
  finally show ?thesis .
qed

subsection \<open>Driving a course\<close>

definition seg_steps :: "string \<Rightarrow> int" where
  "seg_steps ds = (case ds of [] \<Rightarrow> 1 | [x] \<Rightarrow> stringtoInteger x | x # y # _ \<Rightarrow> 10 * stringtoInteger x + stringtoInteger y)"

fun travel :: "grid \<Rightarrow> segment list \<Rightarrow> car \<Rightarrow> car option \<times> int" where
  "travel g [] s = (Some s, snd s)"
| "travel g ((dir, ds) # segs) s =
     (case drive g dir (seg_steps ds) s of (Some s, _) \<Rightarrow> travel g segs s | (None, n) \<Rightarrow> (None, n))"

lemma drive_snd: "drive g dir n s = (Some s', m) \<Longrightarrow> m = snd s'"
  by (auto simp: drive_def Let_def split: prod.splits if_splits)

lemma course_char_digit: "isdigit (course ! k) \<Longrightarrow> course_char g course k s = (Some s, snd s)"
  using alpha_digit [of "course ! k"] by (simp add: course_char_def Let_def)

lemma course_from_digits:
  "\<forall>c \<in> set ds. isdigit c \<Longrightarrow>
    course_from g (pre @ ds @ rest) (length pre) s = course_from g (pre @ ds @ rest) (length pre + length ds) s"
proof (induction ds arbitrary: pre)
  case (Cons c ds)
  then have "course_from g (pre @ (c # ds) @ rest) (length pre) s =
      course_from g ((pre @ [c]) @ ds @ rest) (length (pre @ [c])) s"
    by (subst course_from.simps) (simp add: course_char_digit)
  with Cons.IH [of "pre @ [c]"] Cons.prems show ?case by simp
qed simp

lemma course_char_direction:
  assumes ok: "segment_ok (dir, ds)" and rest: "rest = [] \<or> isalpha (hd rest)"
  shows "course_char g (pre @ dir # ds @ rest) (length pre) s = drive g dir (seg_steps ds) s"
proof -
  have dir: "isalpha dir" using ok direction_alpha by (simp add: segment_ok_def)
  have fin: "(case drive g dir n s of (None, n) \<Rightarrow> (None, n) | (Some s, m) \<Rightarrow> (Some s, snd s)) = drive g dir n s" for n
    using drive_snd [of g dir n s] by (auto split: prod.split option.split)
  have nd: "isalpha c \<Longrightarrow> \<not> isdigit c" for c using alpha_digit by blast
  show ?thesis
    using ok
  proof (cases rule: segment_cases)
    case 1
    then show ?thesis using rest dir nd fin [of 1]
      by (cases rest) (simp_all add: course_char_def Let_def nth_append seg_steps_def cong: option.case_cong)
  next
    case (2 x)
    then show ?thesis using rest dir nd fin [of "stringtoInteger x"] alpha_digit [of x]
      by (cases rest) (simp_all add: course_char_def Let_def nth_append seg_steps_def cong: option.case_cong)
  next
    case (3 x y)
    then show ?thesis using rest dir nd fin [of "10 * stringtoInteger x + stringtoInteger y"] alpha_digit [of x] alpha_digit [of y]
      by (simp add: course_char_def Let_def nth_append seg_steps_def)
  qed
qed

lemma course_from_travel:
  "\<forall>s \<in> set segs. segment_ok s \<Longrightarrow> course_from g (pre @ course_text segs) (length pre) s = travel g segs s"
proof (induction segs arbitrary: pre s)
  case Nil
  then show ?case by (simp add: course_from.simps)
next
  case (Cons seg segs)
  obtain dir ds where seg: "seg = (dir, ds)" by (cases seg)
  let ?course = "pre @ dir # ds @ course_text segs"
  have ok: "segment_ok (dir, ds)" and rest: "course_text segs = [] \<or> isalpha (hd (course_text segs))"
    using Cons.prems seg course_text_head by auto
  then have digits: "\<forall>c \<in> set ds. isdigit c" by (simp add: segment_ok_def)
  have next_seg: "course_from g ?course (Suc (length pre)) s' = travel g segs s'" for s'
  proof -
    have "course_from g ?course (Suc (length pre)) s' =
        course_from g ((pre @ [dir]) @ ds @ course_text segs) (length (pre @ [dir]) + length ds) s'"
      using course_from_digits [OF digits, of g "pre @ [dir]" "course_text segs" s'] by simp
    also have "\<dots> = travel g segs s'" using Cons.IH [of "pre @ dir # ds" s'] Cons.prems by simp
    finally show ?thesis .
  qed
  have "course_from g ?course (length pre) s =
      (case drive g dir (seg_steps ds) s of (Some s, _) \<Rightarrow> course_from g ?course (Suc (length pre)) s | (None, n) \<Rightarrow> (None, n))"
    using course_char_direction [OF ok rest] by (subst course_from.simps) (simp cong: prod.case_cong option.case_cong)
  then show ?case by (simp add: seg next_seg split: prod.split option.split)
qed

text \<open>What driving means: the car goes along each segment when its cells are free.\<close>

fun follow :: "grid \<Rightarrow> int \<times> int \<Rightarrow> segment list \<Rightarrow> int \<Rightarrow> (int \<times> int) option \<times> int" where
  "follow g pos [] n = (Some pos, n)"
| "follow g pos ((dir, ds) # segs) n =
     (if int (free_ahead g pos dir) < seg_steps ds then (None, n + int (free_ahead g pos dir))
      else follow g (updatePosition pos dir (seg_steps ds)) segs (n + seg_steps ds))"

lemma travel_follow:
  assumes "\<forall>s \<in> set segs. segment_ok s \<and> 0 < seg_steps (snd s)" and "isValidPosition g (fst pos) (snd pos)"
  shows "travel g segs (pos, n) = (case follow g pos segs n of (None, k) \<Rightarrow> (None, k) | (Some p, k) \<Rightarrow> (Some (p, k), k))"
  using assms
proof (induction segs arbitrary: pos n)
  case (Cons seg segs)
  obtain dir ds where seg: "seg = (dir, ds)" by (cases seg)
  let ?d = "int (free_ahead g pos dir)" and ?k = "seg_steps ds"
  have dir: "is_direction dir" and k: "0 < ?k" using Cons.prems seg by (auto simp: segment_ok_def)
  have d: "driveSegment g (fst pos) (snd pos) dir ?k = min ?k ?d"
    using driveSegment_eq [OF Cons.prems(2) dir] k by simp
  show ?case
  proof (cases "?d < ?k")
    case True
    then show ?thesis using d by (cases pos) (simp add: seg drive_def)
  next
    case False
    let ?pos = "updatePosition pos dir ?k"
    have "isValidPosition g (fst ?pos) (snd ?pos)"
      using free_ahead_exact(1) [OF dir, of "nat ?k" g pos] k False by (simp add: case_prod_beta)
    with Cons.IH [of ?pos "n + ?k"] Cons.prems(1) d False show ?thesis
      by (cases pos) (simp add: seg drive_def Let_def)
  qed
qed simp

lemma driveCourse_follow:
  assumes "isValidPosition g sr sc" and "isValidPosition g er ec" and "segs \<noteq> []"
    and "\<forall>s \<in> set segs. segment_ok s \<and> 0 < seg_steps (snd s)"
  shows "driveCourse g sr sc er ec (course_text segs) nsteps =
    (case follow g (sr, sc) segs 0 of (None, n) \<Rightarrow> (3, n) | (Some pos, n) \<Rightarrow> (if pos = (er, ec) then 0 else 1, n))"
proof -
  have ok: "\<forall>s \<in> set segs. segment_ok s" using assms(4) by blast
  then have wf: "isCourseWellFormed (course_text segs)" using isCourseWellFormed_iff by blast
  have ne: "course_text segs \<noteq> []" using assms(3) by (cases segs) auto
  have "course_from g (course_text segs) 0 ((sr, sc), 0) = travel g segs ((sr, sc), 0)"
    using course_from_travel [OF ok, of g "[]"] by simp
  also have "\<dots> = (case follow g (sr, sc) segs 0 of (None, k) \<Rightarrow> (None, k) | (Some p, k) \<Rightarrow> (Some (p, k), k))"
    using travel_follow [OF assms(4), of g "(sr, sc)" 0] assms(1) by simp
  finally show ?thesis using assms(1,2) wf ne
    by (simp add: driveCourse_def split: prod.split option.split)
qed

text \<open>A segment of 0 steps does not stay: the car goes on to the next obstacle.\<close>

lemma driveSegment_zero:
  "isValidPosition g r c \<Longrightarrow> is_direction dir \<Longrightarrow> driveSegment g r c dir 0 = int (free_ahead g (r, c) dir)"
  using driveSegment_eq [of g r c dir 0] by simp

lemma driveCourse_zero:
  "driveCourse \<lparr>getRows = 1, getCols = 3, isWall = (\<lambda>r c. False)\<rparr> 1 1 1 3 ''e0'' 9 = (0, 2)"
  by code_simp

lemma maze_main_results:
  "maze_main \<lparr>getRows = 2, getCols = 5, isWall = (\<lambda>r c. r = 2 \<and> c = 2)\<rparr> 0 = [(0, 3), (1, 2), (3, 2)]"
  by code_simp

end
