(* ===== verification/Robots.thy ===== *)
theory Robots
  imports Streams
begin

text \<open>
  The robot game of \<open>CS32/Project1\<close>: \<open>Robot.cpp\<close>, \<open>Player.cpp\<close>, \<open>Before.cpp\<close>, \<open>Arena.cpp\<close>, \<open>Game.cpp\<close> and
  \<open>main.cpp\<close>. \<open>rand()\<close> is a stream of numbers that is passed along. The array of robot pointers is
  the list of the robots it points to, \<open>m_nRobots\<close> its length. The grid of the history,
  \<open>char [20][40]\<close>, is the list of its 800 characters, row by row; an access with a row other than
  0 to 19 or a column other than 0 to 39 faults.
\<close>

subsection \<open>Constants and random numbers\<close>

definition MAXROWS :: int where "MAXROWS = 20"
definition MAXCOLS :: int where "MAXCOLS = 40"
definition MAXROBOTS :: int where "MAXROBOTS = 130"
definition MAXSHOTLEN :: int where "MAXSHOTLEN = 5"
definition INITIAL_ROBOT_HEALTH :: int where "INITIAL_ROBOT_HEALTH = 2"
definition UP :: int where "UP = 0"
definition DOWN :: int where "DOWN = 1"
definition LEFT :: int where "LEFT = 2"
definition RIGHT :: int where "RIGHT = 3"

definition decodeDirection :: "char \<Rightarrow> int" where
  "decodeDirection dir =
     (if dir = CHR ''u'' then UP else if dir = CHR ''d'' then DOWN else if dir = CHR ''l'' then LEFT
      else if dir = CHR ''r'' then RIGHT else - 1)"

type_synonym rng = "nat \<Rightarrow> int"

definition next_rand :: "rng \<Rightarrow> int \<times> rng" where
  "next_rand g = (g 0, \<lambda>k. g (Suc k))"

subsection \<open>Robots, player, history\<close>

record robot =
  r_row :: int
  r_col :: int
  r_health :: int

record player =
  p_row :: int
  p_col :: int
  p_age :: int
  p_dead :: bool

record before =
  h_rows :: int
  h_cols :: int
  h_grid :: string

record arena =
  m_rows :: int
  m_cols :: int
  m_player :: "player option"
  m_robots :: "robot list"
  m_history :: before

definition in_grid :: "string \<Rightarrow> int \<Rightarrow> int \<Rightarrow> bool" where
  "in_grid h r c \<longleftrightarrow> 0 \<le> r \<and> r < MAXROWS \<and> 0 \<le> c \<and> c < MAXCOLS \<and> nat (r * MAXCOLS + c) < length h"

definition hist_at :: "string \<Rightarrow> int \<Rightarrow> int \<Rightarrow> char outcome" where
  "hist_at h r c =
     (if in_grid h r c then Ret (h ! nat (r * MAXCOLS + c)) else SegFault)"

definition hist_put :: "string \<Rightarrow> int \<Rightarrow> int \<Rightarrow> char \<Rightarrow> string outcome" where
  "hist_put h r c x =
     (if in_grid h r c then Ret (h[nat (r * MAXCOLS + c) := x]) else SegFault)"

fun fill_cols :: "int \<Rightarrow> int list \<Rightarrow> string \<Rightarrow> string outcome" where
  "fill_cols k [] h = Ret h"
| "fill_cols k (j # js) h = obind (hist_put h k j (CHR ''.'')) (fill_cols k js)"

fun fill_rows :: "int list \<Rightarrow> int \<Rightarrow> string \<Rightarrow> string outcome" where
  "fill_rows [] nCols h = Ret h"
| "fill_rows (k # ks) nCols h = obind (fill_cols k [1..nCols] h) (fill_rows ks nCols)"

text \<open>The constructor gets the uninitialised grid.\<close>

definition new_Before :: "int \<Rightarrow> int \<Rightarrow> string \<Rightarrow> before outcome" where
  "new_Before nRows nCols junk =
     obind (fill_rows [1..nRows] nCols junk) (\<lambda>h. Ret \<lparr>h_rows = nRows, h_cols = nCols, h_grid = h\<rparr>)"

definition keepTrack :: "before \<Rightarrow> int \<Rightarrow> int \<Rightarrow> (bool \<times> before) outcome" where
  "keepTrack b r c =
     (if r < 1 \<or> c < 1 \<or> r > h_rows b \<or> c > h_cols b then Ret (False, b)
      else obind (hist_at (h_grid b) r c) (\<lambda>x.
        if x = CHR ''.'' then obind (hist_put (h_grid b) r c (CHR ''A'')) (\<lambda>h. Ret (True, b\<lparr>h_grid := h\<rparr>))
        else if x = CHR ''Z'' then Ret (True, b)
        else obind (hist_put (h_grid b) r c (char_of ((of_char x + 1 :: nat) mod 256))) (\<lambda>h. Ret (True, b\<lparr>h_grid := h\<rparr>))))"

fun hist_line :: "string \<Rightarrow> int \<Rightarrow> int list \<Rightarrow> string outcome" where
  "hist_line h k [] = Ret []"
| "hist_line h k (j # js) = obind (hist_at h k j) (\<lambda>x. obind (hist_line h k js) (\<lambda>xs. Ret (x # xs)))"

fun hist_lines :: "string \<Rightarrow> int \<Rightarrow> int list \<Rightarrow> string list outcome" where
  "hist_lines h nCols [] = Ret []"
| "hist_lines h nCols (k # ks) = obind (hist_line h k [1..nCols]) (\<lambda>x. obind (hist_lines h nCols ks) (\<lambda>xs. Ret (x # xs)))"

definition printWhatWasBefore :: "before \<Rightarrow> string list outcome" where
  "printWhatWasBefore b = hist_lines (h_grid b) (h_cols b) [1..h_rows b]"

definition new_Robot :: "arena \<Rightarrow> int \<Rightarrow> int \<Rightarrow> robot outcome" where
  "new_Robot a r c =
     (if r < 1 \<or> r > m_rows a \<or> c < 1 \<or> c > m_cols a then Exit 1
      else Ret \<lparr>r_row = r, r_col = c, r_health = INITIAL_ROBOT_HEALTH\<rparr>)"

definition robot_move :: "int \<Rightarrow> int \<Rightarrow> robot \<Rightarrow> int \<Rightarrow> robot" where
  "robot_move nRows nCols rp x =
     (let d = c_mod x 4 in
      if d = UP then (if r_row rp > 1 then rp\<lparr>r_row := r_row rp - 1\<rparr> else rp)
      else if d = DOWN then (if r_row rp < nRows then rp\<lparr>r_row := r_row rp + 1\<rparr> else rp)
      else if d = LEFT then (if r_col rp > 1 then rp\<lparr>r_col := r_col rp - 1\<rparr> else rp)
      else if d = RIGHT then (if r_col rp < nCols then rp\<lparr>r_col := r_col rp + 1\<rparr> else rp)
      else rp)"

definition takeDamageAndLive :: "robot \<Rightarrow> bool \<times> robot" where
  "takeDamageAndLive rp =
     (let rp = (if r_health rp > 0 then rp\<lparr>r_health := r_health rp - 1\<rparr> else rp) in (r_health rp > 0, rp))"

definition new_Player :: "arena \<Rightarrow> int \<Rightarrow> int \<Rightarrow> player outcome" where
  "new_Player a r c =
     (if r < 1 \<or> r > m_rows a \<or> c < 1 \<or> c > m_cols a then Exit 1
      else Ret \<lparr>p_row = r, p_col = c, p_age = 0, p_dead = False\<rparr>)"

subsection \<open>Arena\<close>

definition new_Arena :: "int \<Rightarrow> int \<Rightarrow> string \<Rightarrow> arena outcome" where
  "new_Arena nRows nCols junk =
     obind (new_Before nRows nCols junk) (\<lambda>b.
       if nRows \<le> 0 \<or> nCols \<le> 0 \<or> nRows > MAXROWS \<or> nCols > MAXCOLS then Exit 1
       else Ret \<lparr>m_rows = nRows, m_cols = nCols, m_player = None, m_robots = [], m_history = b\<rparr>)"

definition robotCount :: "arena \<Rightarrow> int" where
  "robotCount a = int (length (m_robots a))"

fun count_at :: "robot list \<Rightarrow> int \<Rightarrow> int \<Rightarrow> int \<Rightarrow> int" where
  "count_at [] r c count = count"
| "count_at (rp # rps) r c count = count_at rps r c (if r_row rp = r \<and> r_col rp = c then count + 1 else count)"

definition nRobotsAt :: "arena \<Rightarrow> int \<Rightarrow> int \<Rightarrow> int" where
  "nRobotsAt a r c = count_at (m_robots a) r c 0"

definition addRobot :: "arena \<Rightarrow> int \<Rightarrow> int \<Rightarrow> (bool \<times> arena) outcome" where
  "addRobot a r c =
     (if robotCount a = MAXROBOTS then Ret (False, a)
      else obind (new_Robot a r c) (\<lambda>rp. Ret (True, a\<lparr>m_robots := m_robots a @ [rp]\<rparr>)))"

definition addPlayer :: "arena \<Rightarrow> int \<Rightarrow> int \<Rightarrow> (bool \<times> arena) outcome" where
  "addPlayer a r c =
     (if m_player a \<noteq> None then Ret (False, a)
      else obind (new_Player a r c) (\<lambda>p. Ret (True, a\<lparr>m_player := Some p\<rparr>)))"

fun index_at :: "robot list \<Rightarrow> int \<Rightarrow> int \<Rightarrow> nat \<Rightarrow> nat" where
  "index_at [] r c k = k"
| "index_at (rp # rps) r c k = (if r_row rp = r \<and> r_col rp = c then k else index_at rps r c (Suc k))"

definition damageRobotAt :: "arena \<Rightarrow> int \<Rightarrow> int \<Rightarrow> arena" where
  "damageRobotAt a r c =
     (let rs = m_robots a; k = index_at rs r c 0 in
      if k < length rs
      then let (live, rp) = takeDamageAndLive (rs ! k); rs = rs[k := rp] in
        if live then a\<lparr>m_robots := rs\<rparr>
        else a\<lparr>m_robots := butlast (rs[k := rs ! (length rs - 1)])\<rparr>
      else a)"

fun move_from :: "int \<Rightarrow> int \<Rightarrow> player option \<Rightarrow> robot list \<Rightarrow> rng \<Rightarrow> (player option \<times> robot list \<times> rng) outcome" where
  "move_from nRows nCols pl [] g = Ret (pl, [], g)"
| "move_from nRows nCols pl (rp # rps) g =
     (let (x, g) = next_rand g; rp = robot_move nRows nCols rp x in
      case pl of None \<Rightarrow> SegFault
      | Some p \<Rightarrow>
          obind (move_from nRows nCols (Some (if r_row rp = p_row p \<and> r_col rp = p_col p then p\<lparr>p_dead := True\<rparr> else p)) rps g)
            (\<lambda>(pl, rps, g). Ret (pl, rp # rps, g)))"

definition moveRobots :: "arena \<Rightarrow> rng \<Rightarrow> (bool \<times> arena \<times> rng) outcome" where
  "moveRobots a g =
     obind (move_from (m_rows a) (m_cols a) (m_player a) (m_robots a) g) (\<lambda>(pl, rs, g).
       case pl of None \<Rightarrow> SegFault
       | Some p \<Rightarrow> Ret (\<not> p_dead p, a\<lparr>m_player := Some p, m_robots := rs\<rparr>, g))"

fun bump_char :: "char \<Rightarrow> char" where
  "bump_char ch =
     (if ch = CHR ''.'' then CHR ''R'' else if ch = CHR ''R'' then CHR ''2'' else if ch = CHR ''9'' then ch
      else char_of ((of_char ch + 1 :: nat) mod 256))"

definition grid_char :: "string list \<Rightarrow> int \<Rightarrow> int \<Rightarrow> (char \<Rightarrow> char) \<Rightarrow> string list outcome" where
  "grid_char grid r c f =
     (if 0 \<le> r \<and> nat r < length grid \<and> 0 \<le> c \<and> nat c < length (grid ! nat r)
      then Ret (grid[nat r := (grid ! nat r)[nat c := f (grid ! nat r ! nat c)]]) else SegFault)"

fun draw_robots :: "robot list \<Rightarrow> string list \<Rightarrow> string list outcome" where
  "draw_robots [] grid = Ret grid"
| "draw_robots (rp # rps) grid = obind (grid_char grid (r_row rp - 1) (r_col rp - 1) bump_char) (draw_robots rps)"

text \<open>The lines of a display; clearing the screen is left out.\<close>

definition display :: "arena \<Rightarrow> string \<Rightarrow> string list outcome" where
  "display a msg =
     obind (draw_robots (m_robots a) (replicate (nat (m_rows a)) (replicate (nat (m_cols a)) (CHR ''.'')))) (\<lambda>grid.
     obind (case m_player a of None \<Rightarrow> Ret grid
            | Some p \<Rightarrow> grid_char grid (p_row p - 1) (p_col p - 1) (\<lambda>ch. if ch = CHR ''.'' then CHR ''@'' else CHR ''*'')) (\<lambda>grid.
     Ret (grid @ [[], []] @ (if msg \<noteq> [] then [msg] else []) @
       [''There are '' @ fmt_d (robotCount a) @ '' robots remaining.''] @
       (case m_player a of None \<Rightarrow> [''There is no player.'']
        | Some p \<Rightarrow> (if p_age p > 0 then [''The player has lasted '' @ fmt_d (p_age p) @ '' steps.''] else []) @
            (if p_dead p then [''The player is dead.''] else [])))))"

subsection \<open>Turns of the player\<close>

definition stand :: "arena \<Rightarrow> arena outcome" where
  "stand a =
     (case m_player a of None \<Rightarrow> SegFault
      | Some p \<Rightarrow> obind (keepTrack (m_history a) (p_row p) (p_col p)) (\<lambda>(b, h).
          Ret (a\<lparr>m_player := Some (p\<lparr>p_age := p_age p + 1\<rparr>), m_history := h\<rparr>)))"

definition move_player :: "arena \<Rightarrow> int \<Rightarrow> arena outcome" where
  "move_player a dir =
     (case m_player a of None \<Rightarrow> SegFault
      | Some p \<Rightarrow>
          let p = p\<lparr>p_age := p_age p + 1\<rparr>;
              p = (if dir = UP then (if p_row p > 1 then p\<lparr>p_row := p_row p - 1\<rparr> else p)
                   else if dir = DOWN then (if p_row p < m_rows a then p\<lparr>p_row := p_row p + 1\<rparr> else p)
                   else if dir = LEFT then (if p_col p > 1 then p\<lparr>p_col := p_col p - 1\<rparr> else p)
                   else if dir = RIGHT then (if p_col p < m_cols a then p\<lparr>p_col := p_col p + 1\<rparr> else p)
                   else p) in
          obind (keepTrack (m_history a) (p_row p) (p_col p)) (\<lambda>(b, h). Ret (a\<lparr>m_player := Some p, m_history := h\<rparr>)))"

text \<open>The cells a shot passes, from the player's own on.\<close>

function shot_loop :: "arena \<Rightarrow> int \<Rightarrow> int \<Rightarrow> int \<Rightarrow> int \<Rightarrow> int \<Rightarrow> bool \<times> arena" where
  "shot_loop a rDelta cDelta r c distance =
     (if nRobotsAt a r c > 0 then (True, damageRobotAt a r c)
      else let r = r + rDelta; c = c + cDelta; distance = distance + 1 in
        if r \<ge> 1 \<and> r \<le> m_rows a \<and> c \<ge> 1 \<and> c \<le> m_cols a \<and> distance \<le> MAXSHOTLEN
        then shot_loop a rDelta cDelta r c distance else (False, a))"
  by pat_completeness auto
termination
  by (relation "measure (\<lambda>(a, rD, cD, r, c, d). nat (MAXSHOTLEN + 1 - d))") (auto simp: MAXSHOTLEN_def)

declare shot_loop.simps [simp del]

definition shoot :: "arena \<Rightarrow> int \<Rightarrow> rng \<Rightarrow> (bool \<times> arena \<times> rng) outcome" where
  "shoot a dir g =
     (case m_player a of None \<Rightarrow> SegFault
      | Some p \<Rightarrow>
          let a = a\<lparr>m_player := Some (p\<lparr>p_age := p_age p + 1\<rparr>)\<rparr>; (x, g) = next_rand g in
          if c_mod x 3 = 0 then Ret (False, a, g)
          else if dir \<noteq> UP \<and> dir \<noteq> DOWN \<and> dir \<noteq> LEFT \<and> dir \<noteq> RIGHT then Ret (False, a, g)
          else let rDelta = (if dir = UP then - 1 else if dir = DOWN then 1 else 0);
                   cDelta = (if dir = LEFT then - 1 else if dir = RIGHT then 1 else 0);
                   (hit, a) = shot_loop a rDelta cDelta (p_row p) (p_col p) 0 in Ret (hit, a, g))"

definition computeDanger :: "arena \<Rightarrow> int \<Rightarrow> int \<Rightarrow> int" where
  "computeDanger a r c =
     (let danger = 0;
          danger = danger + (if r > 1 then nRobotsAt a (r - 1) c else nRobotsAt a r c);
          danger = danger + (if r < m_rows a then nRobotsAt a (r + 1) c else nRobotsAt a r c);
          danger = danger + (if c > 1 then nRobotsAt a r (c - 1) else nRobotsAt a r c);
          danger = danger + (if c < m_cols a then nRobotsAt a r (c + 1) else nRobotsAt a r c) in danger)"

function find_target :: "arena \<Rightarrow> player \<Rightarrow> int \<Rightarrow> int option" where
  "find_target a p k =
     (if k < m_rows a \<or> k < m_cols a
      then if p_row p - k \<ge> 1 \<and> nRobotsAt a (p_row p - k) (p_col p) > 0 then Some UP
        else if p_row p + k \<le> m_rows a \<and> nRobotsAt a (p_row p + k) (p_col p) > 0 then Some DOWN
        else if p_col p - k \<ge> 1 \<and> nRobotsAt a (p_row p) (p_col p - k) > 0 then Some LEFT
        else if p_col p + k \<le> m_cols a \<and> nRobotsAt a (p_row p) (p_col p + k) > 0 then Some RIGHT
        else find_target a p (k + 1)
      else None)"
  by pat_completeness auto
termination by (relation "measure (\<lambda>(a, p, k). nat (max (m_rows a) (m_cols a) - k))") auto

declare find_target.simps [simp del]

text \<open>The direction that is safest, with its danger.\<close>

definition best_move :: "arena \<Rightarrow> player \<Rightarrow> int \<Rightarrow> int \<times> int" where
  "best_move a p standDanger =
     (let better = (\<lambda>cond dir r c (bd, bdir). if cond then (let d = computeDanger a r c in if d < bd then (d, dir) else (bd, bdir))
            else (bd, bdir)) in
      better (p_col p < m_cols a) RIGHT (p_row p) (p_col p + 1)
      (better (p_col p > 1) LEFT (p_row p) (p_col p - 1)
      (better (p_row p < m_rows a) DOWN (p_row p + 1) (p_col p)
      (better (p_row p > 1) UP (p_row p - 1) (p_col p) (standDanger, UP)))))"

definition takeComputerChosenTurn :: "arena \<Rightarrow> rng \<Rightarrow> (string \<times> arena \<times> rng) outcome" where
  "takeComputerChosenTurn a g =
     (case m_player a of None \<Rightarrow> SegFault
      | Some p \<Rightarrow>
          let standDanger = computeDanger a (p_row p) (p_col p);
              (bestMoveDanger, bestMoveDir) = best_move a p standDanger in
          if standDanger > 0 \<and> bestMoveDanger < standDanger
          then obind (move_player a bestMoveDir) (\<lambda>a. Ret (''Moved.'', a, g))
          else (case find_target a p 1 of
              Some dir \<Rightarrow> obind (shoot a dir g) (\<lambda>(hit, a, g). Ret (if hit then ''Shot and hit!'' else ''Shot and missed!'', a, g))
            | None \<Rightarrow> obind (stand a) (\<lambda>a. Ret (''Stood.'', a, g))))"

subsection \<open>The game\<close>

partial_function (option) place_robots :: "arena \<Rightarrow> int \<Rightarrow> int \<Rightarrow> int \<Rightarrow> int \<Rightarrow> int \<Rightarrow> rng \<Rightarrow> (arena \<times> rng) outcome option" where
  "place_robots a nRows nCols rPlayer cPlayer nRobots g =
     (if nRobots > 0
      then let r = 1 + c_mod (g 0) nRows; c = 1 + c_mod (g 1) nCols; g = (\<lambda>k. g (k + 2)) in
        if r = rPlayer \<and> c = cPlayer then place_robots a nRows nCols rPlayer cPlayer nRobots g
        else obind2 (Some (addRobot a r c)) (\<lambda>x. place_robots (snd x) nRows nCols rPlayer cPlayer (nRobots - 1) g)
      else Some (Ret (a, g)))"

definition new_Game :: "int \<Rightarrow> int \<Rightarrow> int \<Rightarrow> string \<Rightarrow> rng \<Rightarrow> (arena \<times> rng) outcome option" where
  "new_Game nRows nCols nRobots junk g =
     (if nRobots > MAXROBOTS then Some (Exit 1)
      else obind2 (Some (new_Arena nRows nCols junk)) (\<lambda>a.
        let rPlayer = 1 + c_mod (g 0) nRows; cPlayer = 1 + c_mod (g 1) nCols; g = (\<lambda>k. g (k + 2)) in
        obind2 (Some (addPlayer a rPlayer cPlayer)) (\<lambda>x. place_robots (snd x) nRows nCols rPlayer cPlayer nRobots g)))"

datatype verdict = Acted string arena rng | Beep | History | Quit

definition turn :: "arena \<Rightarrow> string \<Rightarrow> rng \<Rightarrow> verdict outcome" where
  "turn a action g =
     (case action of [] \<Rightarrow> obind (stand a) (\<lambda>a. Ret (Acted [] a g))
      | ch # rest \<Rightarrow>
          if ch = CHR ''b'' then Ret History
          else if ch = CHR ''q'' then Ret Quit
          else if ch = CHR ''c'' then obind (takeComputerChosenTurn a g) (\<lambda>(msg, a, g). Ret (Acted msg a g))
          else if ch \<in> set ''udlr'' then obind (move_player a (decodeDirection ch)) (\<lambda>a. Ret (Acted [] a g))
          else if ch = CHR ''s''
          then (case rest of [] \<Rightarrow> Ret Beep
            | d # _ \<Rightarrow>
                if d \<in> set ''udlr''
                then obind (shoot a (decodeDirection d) g) (\<lambda>(hit, a, g). Ret (Acted (if hit then ''Hit!'' else ''Missed!'') a g))
                else Ret Beep)
          else Ret Beep)"

text \<open>``Press Enter to continue'': a line is dropped and the next one read, until that is empty.\<close>

partial_function (option) enter_loop :: "istream \<Rightarrow> string \<Rightarrow> (istream \<times> string) option" where
  "enter_loop f input =
     (let (input, f) = getline (ignore_line f 10000) input in
      if input \<noteq> [] then enter_loop f input else Some (f, input))"

record game =
  g_arena :: arena
  g_msg :: string
  g_input :: string
  g_cin :: istream
  g_rng :: rng
  g_out :: "string list"

text \<open>The body of the loop of \<open>play\<close>; the flag is set by \<open>return\<close>. Prompts and beeps are left out.\<close>

definition play_round :: "game \<Rightarrow> (bool \<times> game) outcome option" where
  "play_round s =
     obind2 (Some (display (g_arena s) (g_msg s))) (\<lambda>d.
     let s = s\<lparr>g_out := g_out s @ d, g_msg := []\<rparr>; (action, f) = getline (g_cin s) []; s = s\<lparr>g_cin := f\<rparr> in
     obind2 (Some (turn (g_arena s) action (g_rng s))) (\<lambda>v.
       case v of
         Acted msg a g \<Rightarrow> obind2 (Some (moveRobots a g)) (\<lambda>(alive, a, g).
           Some (Ret (False, s\<lparr>g_arena := a, g_msg := msg, g_rng := g\<rparr>)))
       | Beep \<Rightarrow> Some (Ret (False, s))
       | History \<Rightarrow> obind2 (Some (printWhatWasBefore (m_history (g_arena s)))) (\<lambda>h.
           Option.bind (enter_loop (g_cin s) (g_input s)) (\<lambda>(f, input).
             Some (Ret (False, s\<lparr>g_out := g_out s @ h, g_cin := f, g_input := input\<rparr>))))
       | Quit \<Rightarrow> Some (Ret (True, s))))"

definition goes_on :: "arena \<Rightarrow> bool outcome" where
  "goes_on a = (case m_player a of None \<Rightarrow> SegFault | Some p \<Rightarrow> Ret (\<not> p_dead p \<and> robotCount a > 0))"

partial_function (option) play_loop :: "game \<Rightarrow> game outcome option" where
  "play_loop s =
     obind2 (play_round s) (\<lambda>x.
       if fst x then Some (Ret (snd x))
       else obind2 (Some (goes_on (g_arena (snd x)))) (\<lambda>b.
       if b then play_loop (snd x)
       else obind2 (Some (display (g_arena (snd x)) (g_msg (snd x)))) (\<lambda>d. Some (Ret ((snd x)\<lparr>g_out := g_out (snd x) @ d\<rparr>)))))"

definition play :: "arena \<Rightarrow> rng \<Rightarrow> istream \<Rightarrow> game outcome option" where
  "play a g f =
     (let s = \<lparr>g_arena = a, g_msg = [], g_input = ''x'', g_cin = f, g_rng = g, g_out = []\<rparr> in
      if m_player a = None then obind2 (Some (display a [])) (\<lambda>d. Some (Ret (s\<lparr>g_out := d\<rparr>)))
      else play_loop s)"

definition robots_main :: "string \<Rightarrow> rng \<Rightarrow> istream \<Rightarrow> game outcome option" where
  "robots_main junk g f = obind2 (new_Game 3 3 2 junk g) (\<lambda>x. play (fst x) (snd x) f)"

end
