(* ===== verification/RobotsProps.thy ===== *)
theory RobotsProps
  imports Robots "HOL-Library.Multiset"
begin

text \<open>
  The robot game: what every turn keeps of the arena, so that a game in an arena whose history fits
  its grid never faults; what the danger of a cell means; and why the computer's turn survives.
\<close>

subsection \<open>The history\<close>

definition hist_ok :: "before \<Rightarrow> bool" where
  "hist_ok b \<longleftrightarrow> length (h_grid b) = 800 \<and> 0 \<le> h_rows b \<and> h_rows b < 20 \<and> 0 \<le> h_cols b \<and> h_cols b < 40"

lemma in_grid_iff: "length h = 800 \<Longrightarrow> in_grid h r c \<longleftrightarrow> 0 \<le> r \<and> r < 20 \<and> 0 \<le> c \<and> c < 40"
  by (auto simp: in_grid_def MAXROWS_def MAXCOLS_def)

lemma fill_cols_Ret:
  "length h = 800 \<Longrightarrow> 1 \<le> k \<Longrightarrow> k < 20 \<Longrightarrow> nc < 40 \<Longrightarrow> \<forall>j \<in> set js. 1 \<le> j \<and> j \<le> nc \<Longrightarrow>
    \<exists>h'. fill_cols k js h = Ret h' \<and> length h' = 800"
  by (induction js arbitrary: h) (auto simp: hist_put_def in_grid_iff)

lemma fill_rows_Ret:
  "length h = 800 \<Longrightarrow> nr < 20 \<Longrightarrow> nc < 40 \<Longrightarrow> \<forall>k \<in> set ks. 1 \<le> k \<and> k \<le> nr \<Longrightarrow>
    \<exists>h'. fill_rows ks nc h = Ret h' \<and> length h' = 800"
proof (induction ks arbitrary: h)
  case (Cons k ks)
  then obtain h1 where "fill_cols k [1..nc] h = Ret h1" "length h1 = 800"
    using fill_cols_Ret [of h k nc "[1..nc]"] by auto
  with Cons show ?case by simp
qed simp

lemma new_Before_ok:
  assumes "length junk = 800" and "0 \<le> nr" and "nr < 20" and "0 \<le> nc" and "nc < 40"
  shows "\<exists>b. new_Before nr nc junk = Ret b \<and> hist_ok b \<and> h_rows b = nr \<and> h_cols b = nc"
  using fill_rows_Ret [of junk nr nc "[1..nr]"] assms by (auto simp: new_Before_def hist_ok_def)

text \<open>
  The constructor of the history runs before the sizes are tested: with 20 rows or 40 columns it
  leaves the grid.
\<close>

lemma fill_cols_length: "fill_cols k js h = Ret h' \<Longrightarrow> length h' = length h"
  by (induction js arbitrary: h) (auto simp: hist_put_def Let_def obind_Ret_iff split: if_splits)

lemma fill_cols_cases: "(\<exists>h'. fill_cols k js h = Ret h') \<or> fill_cols k js h = SegFault"
  by (induction js arbitrary: h) (auto simp: hist_put_def Let_def)

lemma fill_cols_fault:
  assumes "length h = 800" and "j \<in> set js" and "20 \<le> k \<or> 40 \<le> j"
  shows "fill_cols k js h = SegFault"
  using assms(1,2)
proof (induction js arbitrary: h)
  case (Cons i js)
  show ?case
  proof (cases "in_grid h k i")
    case True
    then have "j \<noteq> i" using Cons.prems(1) assms(3) in_grid_iff by auto
    then show ?thesis using True Cons by (simp add: hist_put_def)
  qed (simp add: hist_put_def)
qed simp

lemma fill_rows_fault:
  assumes "length h = 800" and "k \<in> set ks" and "1 \<le> nc" and "20 \<le> k \<or> 40 \<le> nc"
  shows "fill_rows ks nc h = SegFault"
  using assms(1,2)
proof (induction ks arbitrary: h)
  case (Cons i ks)
  show ?case
  proof (cases "i = k")
    case True
    then show ?thesis using fill_cols_fault [OF Cons.prems(1), of nc "[1..nc]" k] assms(3,4) by simp
  next
    case False
    then show ?thesis using Cons fill_cols_cases [of i "[1..nc]" h] fill_cols_length [of i "[1..nc]" h] by auto
  qed
qed simp

lemma new_Arena_too_large:
  assumes "length junk = 800" and "1 \<le> nr" and "1 \<le> nc" and "20 \<le> nr \<or> 40 \<le> nc"
  shows "new_Arena nr nc junk = SegFault"
  using fill_rows_fault [of junk nr "[1..nr]" nc] assms by (simp add: new_Arena_def new_Before_def)

lemma keepTrack_ok:
  assumes "hist_ok b"
  shows "\<exists>x b'. keepTrack b r c = Ret (x, b') \<and> hist_ok b' \<and> h_rows b' = h_rows b \<and> h_cols b' = h_cols b"
proof (cases "r < 1 \<or> c < 1 \<or> r > h_rows b \<or> c > h_cols b")
  case True
  then show ?thesis using assms by (auto simp: keepTrack_def)
next
  case False
  then show ?thesis
    using assms by (auto simp: keepTrack_def hist_at_def hist_put_def hist_ok_def in_grid_iff)
qed

lemma hist_line_Ret:
  "length h = 800 \<Longrightarrow> 1 \<le> k \<Longrightarrow> k < 20 \<Longrightarrow> nc < 40 \<Longrightarrow> \<forall>j \<in> set js. 1 \<le> j \<and> j \<le> nc \<Longrightarrow> \<exists>x. hist_line h k js = Ret x"
  by (induction js) (auto simp: hist_at_def in_grid_iff)

lemma hist_lines_Ret:
  "length h = 800 \<Longrightarrow> nr < 20 \<Longrightarrow> nc < 40 \<Longrightarrow> \<forall>k \<in> set ks. 1 \<le> k \<and> k \<le> nr \<Longrightarrow> \<exists>x. hist_lines h nc ks = Ret x"
proof (induction ks)
  case (Cons k ks)
  then obtain x where "hist_line h k [1..nc] = Ret x" using hist_line_Ret [of h k nc "[1..nc]"] by auto
  with Cons show ?case by auto
qed simp

lemma printWhatWasBefore_ok: "hist_ok b \<Longrightarrow> \<exists>x. printWhatWasBefore b = Ret x"
  using hist_lines_Ret [of "h_grid b" "h_rows b" "h_cols b" "[1..h_rows b]"]
  by (auto simp: printWhatWasBefore_def hist_ok_def)

subsection \<open>The arena\<close>

definition on_board :: "int \<Rightarrow> int \<Rightarrow> int \<Rightarrow> int \<Rightarrow> bool" where
  "on_board nr nc r c \<longleftrightarrow> 1 \<le> r \<and> r \<le> nr \<and> 1 \<le> c \<and> c \<le> nc"

definition robot_ok :: "int \<Rightarrow> int \<Rightarrow> robot \<Rightarrow> bool" where
  "robot_ok nr nc rp \<longleftrightarrow> on_board nr nc (r_row rp) (r_col rp) \<and> 0 < r_health rp \<and> r_health rp \<le> INITIAL_ROBOT_HEALTH"

definition board_ok :: "arena \<Rightarrow> bool" where
  "board_ok a \<longleftrightarrow> 1 \<le> m_rows a \<and> m_rows a \<le> MAXROWS \<and> 1 \<le> m_cols a \<and> m_cols a \<le> MAXCOLS \<and>
     (\<forall>p. m_player a = Some p \<longrightarrow> on_board (m_rows a) (m_cols a) (p_row p) (p_col p)) \<and>
     (\<forall>rp \<in> set (m_robots a). robot_ok (m_rows a) (m_cols a) rp) \<and> robotCount a \<le> MAXROBOTS"

text \<open>An arena whose history has room for all its cells, so one of at most 19 rows and 39 columns.\<close>

definition arena_ok :: "arena \<Rightarrow> bool" where
  "arena_ok a \<longleftrightarrow> board_ok a \<and> hist_ok (m_history a) \<and> h_rows (m_history a) = m_rows a \<and> h_cols (m_history a) = m_cols a"

lemma arena_board: "arena_ok a \<Longrightarrow> board_ok a"
  by (simp add: arena_ok_def)

lemma robot_move_ok: "robot_ok nr nc rp \<Longrightarrow> robot_ok nr nc (robot_move nr nc rp x)"
  by (auto simp: robot_ok_def on_board_def robot_move_def Let_def)

text \<open>The robots move independently; the player is dead when one of them arrives at his cell.\<close>

fun moved :: "int \<Rightarrow> int \<Rightarrow> robot list \<Rightarrow> rng \<Rightarrow> robot list" where
  "moved nr nc [] g = []"
| "moved nr nc (rp # rps) g = robot_move nr nc rp (g 0) # moved nr nc rps (\<lambda>k. g (Suc k))"

lemma length_moved [simp]: "length (moved nr nc rps g) = length rps"
  by (induction rps arbitrary: g) auto

lemma moved_nth: "k < length rps \<Longrightarrow> moved nr nc rps g ! k = robot_move nr nc (rps ! k) (g k)"
  by (induction rps arbitrary: g k) (auto simp: nth_Cons split: nat.split)

lemma moved_ok: "\<forall>rp \<in> set rps. robot_ok nr nc rp \<Longrightarrow> \<forall>rp \<in> set (moved nr nc rps g). robot_ok nr nc rp"
  by (induction rps arbitrary: g) (auto simp: robot_move_ok)

lemma move_from_eq:
  "move_from nr nc (Some p) rps g =
    Ret (Some (p\<lparr>p_dead := p_dead p \<or> (\<exists>rp \<in> set (moved nr nc rps g). r_row rp = p_row p \<and> r_col rp = p_col p)\<rparr>),
         moved nr nc rps g, \<lambda>k. g (k + length rps))"
  by (induction rps arbitrary: p g) (auto simp: next_rand_def Let_def)

lemma moveRobots_eq:
  assumes "m_player a = Some p"
  shows "moveRobots a g =
    (let rs = moved (m_rows a) (m_cols a) (m_robots a) g;
         p' = p\<lparr>p_dead := p_dead p \<or> (\<exists>rp \<in> set rs. r_row rp = p_row p \<and> r_col rp = p_col p)\<rparr> in
     Ret (\<not> p_dead p', a\<lparr>m_player := Some p', m_robots := rs\<rparr>, \<lambda>k. g (k + length (m_robots a))))"
  using assms by (simp add: moveRobots_def move_from_eq Let_def)

lemma moveRobots_ok:
  assumes "arena_ok a" and "m_player a \<noteq> None"
  shows "\<exists>b a' g'. moveRobots a g = Ret (b, a', g') \<and> arena_ok a' \<and> m_player a' \<noteq> None"
proof -
  obtain p where p: "m_player a = Some p" using assms(2) by blast
  show ?thesis using assms(1) moved_ok [of "m_robots a" "m_rows a" "m_cols a" g]
    by (simp add: moveRobots_eq [OF p] Let_def arena_ok_def board_ok_def p robotCount_def)
qed

lemma arena_keepTrack:
  assumes "arena_ok a"
  obtains x h where "keepTrack (m_history a) r c = Ret (x, h)" and "arena_ok (a\<lparr>m_history := h\<rparr>)"
proof -
  obtain x h where "keepTrack (m_history a) r c = Ret (x, h)" "hist_ok h" "h_rows h = h_rows (m_history a)"
    "h_cols h = h_cols (m_history a)"
    using keepTrack_ok [of "m_history a" r c] assms unfolding arena_ok_def board_ok_def by blast
  with assms show thesis by (intro that [of x h]) (auto simp: arena_ok_def board_ok_def robotCount_def)
qed

lemma stand_ok:
  assumes "arena_ok a" and "m_player a = Some p"
  shows "\<exists>a' h. stand a = Ret a' \<and> a' = a\<lparr>m_player := Some (p\<lparr>p_age := p_age p + 1\<rparr>), m_history := h\<rparr> \<and> arena_ok a'"
proof -
  obtain x h where "keepTrack (m_history a) (p_row p) (p_col p) = Ret (x, h)" "arena_ok (a\<lparr>m_history := h\<rparr>)"
    by (rule arena_keepTrack [OF assms(1)])
  with assms(2) show ?thesis by (auto simp: stand_def arena_ok_def board_ok_def robotCount_def)
qed

text \<open>Where a direction leads.\<close>

definition step_row :: "int \<Rightarrow> int \<Rightarrow> int \<Rightarrow> int" where
  "step_row nr r dir = (if dir = UP \<and> r > 1 then r - 1 else if dir = DOWN \<and> r < nr then r + 1 else r)"

definition step_col :: "int \<Rightarrow> int \<Rightarrow> int \<Rightarrow> int" where
  "step_col nc c dir = (if dir = LEFT \<and> c > 1 then c - 1 else if dir = RIGHT \<and> c < nc then c + 1 else c)"

lemmas dir_defs = UP_def DOWN_def LEFT_def RIGHT_def

lemma step_on_board: "on_board nr nc r c \<Longrightarrow> on_board nr nc (step_row nr r dir) (step_col nc c dir)"
  by (auto simp: on_board_def step_row_def step_col_def)

lemma robot_move_steps:
  "r_row (robot_move nr nc rp x) = step_row nr (r_row rp) (c_mod x 4)"
  "r_col (robot_move nr nc rp x) = step_col nc (r_col rp) (c_mod x 4)"
  by (auto simp: robot_move_def step_row_def step_col_def Let_def dir_defs)

lemma move_player_ok:
  assumes "arena_ok a" and "m_player a = Some p"
  shows "\<exists>a' h. move_player a dir = Ret a' \<and> a' = a\<lparr>m_player := Some (p\<lparr>p_age := p_age p + 1,
      p_row := step_row (m_rows a) (p_row p) dir, p_col := step_col (m_cols a) (p_col p) dir\<rparr>), m_history := h\<rparr> \<and> arena_ok a'"
proof -
  let ?p = "p\<lparr>p_age := p_age p + 1, p_row := step_row (m_rows a) (p_row p) dir, p_col := step_col (m_cols a) (p_col p) dir\<rparr>"
  have eq: "move_player a dir = obind (keepTrack (m_history a) (p_row ?p) (p_col ?p))
      (\<lambda>(b, h). Ret (a\<lparr>m_player := Some ?p, m_history := h\<rparr>))"
    using assms(2) by (auto simp: move_player_def step_row_def step_col_def Let_def dir_defs)
  obtain x h where "keepTrack (m_history a) (p_row ?p) (p_col ?p) = Ret (x, h)" "arena_ok (a\<lparr>m_history := h\<rparr>)"
    by (rule arena_keepTrack [OF assms(1)])
  moreover have "on_board (m_rows a) (m_cols a) (p_row ?p) (p_col ?p)"
    using assms step_on_board by (auto simp: arena_ok_def board_ok_def)
  ultimately show ?thesis unfolding eq by (auto simp: arena_ok_def board_ok_def robotCount_def)
qed

subsection \<open>Shots\<close>

definition at_cell :: "int \<Rightarrow> int \<Rightarrow> robot \<Rightarrow> bool" where
  "at_cell r c rp \<longleftrightarrow> r_row rp = r \<and> r_col rp = c"

lemma nRobotsAt_eq: "nRobotsAt a r c = int (size (filter_mset (at_cell r c) (mset (m_robots a))))"
proof -
  have "count_at rps r c n = n + int (size (filter_mset (at_cell r c) (mset rps)))" for rps n
    by (induction rps arbitrary: n) (auto simp: at_cell_def)
  then show ?thesis by (simp add: nRobotsAt_def)
qed

lemma nRobotsAt_pos: "nRobotsAt a r c > 0 \<longleftrightarrow> (\<exists>rp \<in> set (m_robots a). at_cell r c rp)"
  by (simp add: nRobotsAt_eq flip: nonempty_has_size mset_filter) (auto simp: filter_empty_conv)

lemma index_at_less: "index_at rps r c k < k + length rps \<longleftrightarrow> (\<exists>rp \<in> set rps. at_cell r c rp)"
proof (induction rps arbitrary: k)
  case (Cons rp rps)
  then show ?case using Cons.IH [of "Suc k"] by (auto simp: at_cell_def)
qed simp

lemma index_at_ge: "k \<le> index_at rps r c k"
  by (induction rps arbitrary: k) (auto intro: Suc_leD)

lemma index_at_hit: "index_at rps r c k < k + length rps \<Longrightarrow> at_cell r c (rps ! (index_at rps r c k - k))"
proof (induction rps arbitrary: k)
  case (Cons rp rps)
  show ?case
  proof (cases "at_cell r c rp")
    case True
    then show ?thesis by (simp add: at_cell_def)
  next
    case False
    then have "index_at (rp # rps) r c k = index_at rps r c (Suc k)" by (auto simp: at_cell_def)
    with Cons index_at_ge [of "Suc k" rps r c] show ?thesis by (simp add: nth_Cons')
  qed
qed simp

lemma mset_overwrite_last:
  "k < length rs \<Longrightarrow> mset (butlast (rs[k := last rs])) = mset rs - {#rs ! k#}"
proof (induction rs rule: rev_induct)
  case (snoc x ys)
  then show ?case by (cases "k = length ys") (simp_all add: list_update_append nth_append butlast_append mset_update)
qed simp

text \<open>A hit weakens one robot at the cell; the second hit removes it.\<close>

lemma damageRobotAt_mset:
  assumes "nRobotsAt a r c > 0"
  obtains rp where "rp \<in> set (m_robots a)" and "at_cell r c rp"
    and "mset (m_robots (damageRobotAt a r c)) = mset (m_robots a) - {#rp#} +
      (if r_health rp > 1 then {#rp\<lparr>r_health := r_health rp - 1\<rparr>#} else {#})"
    and "damageRobotAt a r c = a\<lparr>m_robots := m_robots (damageRobotAt a r c)\<rparr>"
proof -
  let ?rs = "m_robots a"
  define k where "k = index_at ?rs r c 0"
  have k: "k < length ?rs" using assms index_at_less [of ?rs r c 0] by (simp add: k_def nRobotsAt_pos)
  have cell: "at_cell r c (?rs ! k)" using index_at_hit [of ?rs r c 0] k by (simp add: k_def)
  have ne: "?rs \<noteq> []" using k by auto
  have eq: "damageRobotAt a r c =
      (let (live, rp) = takeDamageAndLive (?rs ! k); rs = ?rs[k := rp] in
        if live then a\<lparr>m_robots := rs\<rparr> else a\<lparr>m_robots := butlast (rs[k := rs ! (length rs - 1)])\<rparr>)"
    unfolding damageRobotAt_def Let_def k_def [symmetric] using k by simp
  show thesis
  proof (cases "r_health (?rs ! k) > 1")
    case True
    then have "damageRobotAt a r c = a\<lparr>m_robots := ?rs[k := (?rs ! k)\<lparr>r_health := r_health (?rs ! k) - 1\<rparr>]\<rparr>"
      by (simp add: eq takeDamageAndLive_def Let_def)
    with True k cell show ?thesis by (intro that [of "?rs ! k"]) (simp_all add: mset_update)
  next
    case False
    have "damageRobotAt a r c = a\<lparr>m_robots := butlast (?rs[k := last ?rs])\<rparr>"
    proof (cases "k = length ?rs - 1")
      case True
      with False k ne show ?thesis
        by (auto simp: eq takeDamageAndLive_def Let_def last_conv_nth butlast_list_update)
    next
      case other: False
      with False k ne show ?thesis
        by (auto simp: eq takeDamageAndLive_def Let_def last_conv_nth)
    qed
    with False k cell show ?thesis by (intro that [of "?rs ! k"]) (simp_all add: mset_overwrite_last)
  qed
qed

lemma damageRobotAt_less:
  assumes "nRobotsAt a r c > 0"
  shows "nRobotsAt (damageRobotAt a r c) r' c' \<le> nRobotsAt a r' c'"
proof (rule damageRobotAt_mset [OF assms])
  fix rp
  assume rp: "rp \<in> set (m_robots a)" "at_cell r c rp"
    and m: "mset (m_robots (damageRobotAt a r c)) = mset (m_robots a) - {#rp#} +
      (if r_health rp > 1 then {#rp\<lparr>r_health := r_health rp - 1\<rparr>#} else {#})"
  obtain M where M: "mset (m_robots a) = add_mset rp M" using rp(1) by (metis insert_DiffM set_mset_mset)
  have "at_cell r' c' (rp\<lparr>r_health := h\<rparr>) = at_cell r' c' rp" for h by (simp add: at_cell_def)
  then show ?thesis by (simp add: nRobotsAt_eq m M)
qed

lemma damageRobotAt_ok:
  assumes "arena_ok a" and "nRobotsAt a r c > 0"
  shows "arena_ok (damageRobotAt a r c) \<and> m_player (damageRobotAt a r c) = m_player a \<and>
    m_rows (damageRobotAt a r c) = m_rows a \<and> m_cols (damageRobotAt a r c) = m_cols a"
proof (rule damageRobotAt_mset [OF assms(2)])
  fix rp
  assume rp: "rp \<in> set (m_robots a)" "at_cell r c rp"
    and m: "mset (m_robots (damageRobotAt a r c)) = mset (m_robots a) - {#rp#} +
      (if r_health rp > 1 then {#rp\<lparr>r_health := r_health rp - 1\<rparr>#} else {#})"
    and eq: "damageRobotAt a r c = a\<lparr>m_robots := m_robots (damageRobotAt a r c)\<rparr>"
  obtain M where M: "mset (m_robots a) = add_mset rp M" using rp(1) by (metis insert_DiffM set_mset_mset)
  let ?rs = "m_robots (damageRobotAt a r c)"
  have sub: "set ?rs \<subseteq> set (m_robots a) \<union> (if r_health rp > 1 then {rp\<lparr>r_health := r_health rp - 1\<rparr>} else {})"
  proof -
    have "set (m_robots a) = insert rp (set_mset M)" using arg_cong [OF M, of set_mset] by simp
    moreover have "set ?rs = set_mset M \<union> (if r_health rp > 1 then {rp\<lparr>r_health := r_health rp - 1\<rparr>} else {})"
      using arg_cong [OF m, of set_mset] M by simp
    ultimately show ?thesis by auto
  qed
  have "robot_ok (m_rows a) (m_cols a) rp" using assms(1) rp(1) by (simp add: arena_ok_def board_ok_def)
  then have "r_health rp > 1 \<Longrightarrow> robot_ok (m_rows a) (m_cols a) (rp\<lparr>r_health := r_health rp - 1\<rparr>)"
    by (simp add: robot_ok_def)
  with sub assms(1) have ok: "\<forall>rp \<in> set ?rs. robot_ok (m_rows a) (m_cols a) rp"
    by (auto simp: arena_ok_def board_ok_def split: if_splits)
  have "length ?rs \<le> length (m_robots a)" using m M by (simp flip: size_mset)
  then have "robotCount (a\<lparr>m_robots := ?rs\<rparr>) \<le> MAXROBOTS" using assms(1) by (simp add: arena_ok_def board_ok_def robotCount_def)
  with ok assms(1) have "arena_ok (a\<lparr>m_robots := ?rs\<rparr>)" by (simp add: arena_ok_def board_ok_def robotCount_def)
  then show ?thesis by (subst (1 2 3 4) eq) simp
qed

lemma shot_loop_cases:
  obtains "shot_loop a rD cD r c d = (False, a)"
  | r' c' where "nRobotsAt a r' c' > 0" and "shot_loop a rD cD r c d = (True, damageRobotAt a r' c')"
proof -
  have "shot_loop a rD cD r c d = (False, a) \<or>
      (\<exists>r' c'. nRobotsAt a r' c' > 0 \<and> shot_loop a rD cD r c d = (True, damageRobotAt a r' c'))"
  proof (induction a rD cD r c d rule: shot_loop.induct)
    case (1 a rD cD r c d)
    then show ?case by (auto simp: shot_loop.simps [of a rD cD r c d] Let_def)
  qed
  with that show thesis by blast
qed

lemma shoot_ok:
  assumes "arena_ok a" and "m_player a = Some p"
  shows "\<exists>hit a'. shoot a dir g = Ret (hit, a', \<lambda>k. g (Suc k)) \<and> arena_ok a' \<and>
    m_player a' = Some (p\<lparr>p_age := p_age p + 1\<rparr>) \<and> m_rows a' = m_rows a \<and> m_cols a' = m_cols a \<and>
    (\<forall>r c. nRobotsAt a' r c \<le> nRobotsAt a r c)"
proof -
  let ?a = "a\<lparr>m_player := Some (p\<lparr>p_age := p_age p + 1\<rparr>)\<rparr>"
  have ok: "arena_ok ?a" using assms by (simp add: arena_ok_def board_ok_def robotCount_def)
  have same: "nRobotsAt ?a = nRobotsAt a" by (simp add: nRobotsAt_def fun_eq_iff)
  let ?rD = "if dir = UP then - 1 else if dir = DOWN then 1 else 0" and ?cD = "if dir = LEFT then - 1 else if dir = RIGHT then 1 else 0"
  show ?thesis
  proof (cases "c_mod (g 0) 3 = 0 \<or> (dir \<noteq> UP \<and> dir \<noteq> DOWN \<and> dir \<noteq> LEFT \<and> dir \<noteq> RIGHT)")
    case True
    then have "shoot a dir g = Ret (False, ?a, \<lambda>k. g (Suc k))"
      using assms(2) by (auto simp: shoot_def next_rand_def Let_def)
    then show ?thesis using ok same by auto
  next
    case False
    then have 2: "shoot a dir g =
        (let (hit, a) = shot_loop ?a ?rD ?cD (p_row p) (p_col p) 0 in Ret (hit, a, \<lambda>k. g (Suc k)))"
      using assms(2) by (auto simp: shoot_def next_rand_def Let_def)
    show ?thesis
    proof (cases rule: shot_loop_cases [of ?a ?rD ?cD "p_row p" "p_col p" 0])
      case 1
      then show ?thesis using 2 ok same by auto
    next
      case (2 r' c')
      with \<open>shoot a dir g = (let (hit, a) = _ in _)\<close> damageRobotAt_ok [OF ok 2(1)] damageRobotAt_less [OF 2(1)] same show ?thesis by auto
    qed
  qed
qed

subsection \<open>Danger\<close>

text \<open>A robot can reach a cell when a direction leads there; at the edge it may stay.\<close>

lemma reach_iff:
  assumes "on_board nr nc r0 c0" and "on_board nr nc r c"
  shows "(\<exists>dir \<in> {0, 1, 2, 3}. step_row nr r0 dir = r \<and> step_col nc c0 dir = c) \<longleftrightarrow>
    (if r > 1 then r0 = r - 1 \<and> c0 = c else r0 = r \<and> c0 = c) \<or> (if r < nr then r0 = r + 1 \<and> c0 = c else r0 = r \<and> c0 = c) \<or>
    (if c > 1 then r0 = r \<and> c0 = c - 1 else r0 = r \<and> c0 = c) \<or> (if c < nc then r0 = r \<and> c0 = c + 1 else r0 = r \<and> c0 = c)"
  using assms by (auto simp: step_row_def step_col_def dir_defs on_board_def)

lemma nRobotsAt_nonneg: "0 \<le> nRobotsAt a r c"
  by (simp add: nRobotsAt_eq)

lemma computeDanger_pos:
  assumes "board_ok a" and "on_board (m_rows a) (m_cols a) r c"
  shows "computeDanger a r c > 0 \<longleftrightarrow>
    (\<exists>rp \<in> set (m_robots a). \<exists>dir \<in> {0, 1, 2, 3}. step_row (m_rows a) (r_row rp) dir = r \<and> step_col (m_cols a) (r_col rp) dir = c)"
proof -
  let ?N = "nRobotsAt a"
  have sum: "w + x + y + z > 0 \<longleftrightarrow> w > 0 \<or> x > 0 \<or> y > 0 \<or> z > 0" if "0 \<le> w" "0 \<le> x" "0 \<le> y" "0 \<le> z" for w x y z :: int
    using that by linarith
  have "computeDanger a r c > 0 \<longleftrightarrow> (if r > 1 then ?N (r - 1) c else ?N r c) > 0 \<or>
      (if r < m_rows a then ?N (r + 1) c else ?N r c) > 0 \<or> (if c > 1 then ?N r (c - 1) else ?N r c) > 0 \<or>
      (if c < m_cols a then ?N r (c + 1) else ?N r c) > 0"
    unfolding computeDanger_def Let_def add_0_left
    by (rule sum) (auto simp: nRobotsAt_nonneg)
  also have "\<dots> \<longleftrightarrow> (\<exists>rp \<in> set (m_robots a).
      (if r > 1 then r_row rp = r - 1 \<and> r_col rp = c else r_row rp = r \<and> r_col rp = c) \<or>
      (if r < m_rows a then r_row rp = r + 1 \<and> r_col rp = c else r_row rp = r \<and> r_col rp = c) \<or>
      (if c > 1 then r_row rp = r \<and> r_col rp = c - 1 else r_row rp = r \<and> r_col rp = c) \<or>
      (if c < m_cols a then r_row rp = r \<and> r_col rp = c + 1 else r_row rp = r \<and> r_col rp = c))"
    unfolding bex_disj_distrib by (simp add: nRobotsAt_pos at_cell_def)
  also have "\<dots> \<longleftrightarrow> (\<exists>rp \<in> set (m_robots a). \<exists>dir \<in> {0, 1, 2, 3}.
      step_row (m_rows a) (r_row rp) dir = r \<and> step_col (m_cols a) (r_col rp) dir = c)"
    by (intro bex_cong refl sym [OF reach_iff [OF _ assms(2)]]) (use assms(1) in \<open>simp add: board_ok_def robot_ok_def\<close>)
  finally show ?thesis .
qed

lemma c_mod_4: "0 \<le> x \<Longrightarrow> c_mod x 4 \<in> {0, 1, 2, 3}"
  by (simp add: c_mod_nonneg) presburger

text \<open>The danger of a cell is positive exactly when some choice of the robots puts one of them there.\<close>

lemma danger_exact:
  assumes "board_ok a" and "on_board (m_rows a) (m_cols a) r c"
  shows "computeDanger a r c > 0 \<longleftrightarrow>
    (\<exists>g. (\<forall>k. 0 \<le> g k) \<and> (\<exists>rp \<in> set (moved (m_rows a) (m_cols a) (m_robots a) g). r_row rp = r \<and> r_col rp = c))"
proof
  assume "computeDanger a r c > 0"
  then obtain rp dir where rp: "rp \<in> set (m_robots a)" "dir \<in> {0, 1, 2, 3}" "step_row (m_rows a) (r_row rp) dir = r"
    "step_col (m_cols a) (r_col rp) dir = c"
    using computeDanger_pos [OF assms] by blast
  then obtain k where k: "k < length (m_robots a)" "m_robots a ! k = rp" by (auto simp: in_set_conv_nth)
  let ?rs = "moved (m_rows a) (m_cols a) (m_robots a) (\<lambda>_. dir)"
  have "c_mod dir 4 = dir" using rp(2) by (auto simp: c_mod_nonneg)
  then have "r_row (?rs ! k) = r \<and> r_col (?rs ! k) = c" using rp k by (simp add: moved_nth robot_move_steps)
  moreover have "?rs ! k \<in> set ?rs" using k by simp
  ultimately show "\<exists>g. (\<forall>k. 0 \<le> g k) \<and> (\<exists>rp \<in> set (moved (m_rows a) (m_cols a) (m_robots a) g). r_row rp = r \<and> r_col rp = c)"
    using rp(2) by (intro exI [of _ "\<lambda>_. dir"]) auto
next
  assume "\<exists>g. (\<forall>k. 0 \<le> g k) \<and> (\<exists>rp \<in> set (moved (m_rows a) (m_cols a) (m_robots a) g). r_row rp = r \<and> r_col rp = c)"
  then obtain g rp where g: "\<forall>k. 0 \<le> g k" and "rp \<in> set (moved (m_rows a) (m_cols a) (m_robots a) g)"
    and "r_row rp = r" "r_col rp = c" by blast
  then obtain k where k: "k < length (m_robots a)"
    and at: "r_row (moved (m_rows a) (m_cols a) (m_robots a) g ! k) = r" "r_col (moved (m_rows a) (m_cols a) (m_robots a) g ! k) = c"
    by (metis in_set_conv_nth length_moved)
  have "m_robots a ! k \<in> set (m_robots a)" using k by simp
  moreover have "c_mod (g k) 4 \<in> {0, 1, 2, 3}" using g by (intro c_mod_4) blast
  ultimately show "computeDanger a r c > 0" using at k computeDanger_pos [OF assms]
    by (simp only: moved_nth robot_move_steps) blast
qed

lemma survives:
  assumes "arena_ok a" and "m_player a = Some p" and "\<not> p_dead p" and "computeDanger a (p_row p) (p_col p) = 0"
    and "\<And>k. 0 \<le> g k"
  shows "\<exists>a' g'. moveRobots a g = Ret (True, a', g')"
proof -
  have "on_board (m_rows a) (m_cols a) (p_row p) (p_col p)" using assms(1,2) by (simp add: arena_ok_def board_ok_def)
  from danger_exact [OF arena_board [OF assms(1)] this] assms(4,5)
  have "\<not> (\<exists>rp \<in> set (moved (m_rows a) (m_cols a) (m_robots a) g). r_row rp = p_row p \<and> r_col rp = p_col p)" by auto
  with assms(3) show ?thesis by (auto simp: moveRobots_eq [OF assms(2)] Let_def)
qed

subsection \<open>The computer's turn\<close>

text \<open>The best move is one of the options and no option is safer.\<close>

lemma best_move_least:
  assumes "best_move a p sd = (bd, bdir)"
  shows "bd \<le> sd"
    and "\<And>dir. step_row (m_rows a) (p_row p) dir \<noteq> p_row p \<or> step_col (m_cols a) (p_col p) dir \<noteq> p_col p \<Longrightarrow>
      bd \<le> computeDanger a (step_row (m_rows a) (p_row p) dir) (step_col (m_cols a) (p_col p) dir)"
    and "bd < sd \<Longrightarrow> bd = computeDanger a (step_row (m_rows a) (p_row p) bdir) (step_col (m_cols a) (p_col p) bdir)"
  using assms
  by (auto simp: best_move_def Let_def step_row_def step_col_def dir_defs split: if_splits)

lemma computeDanger_cong:
  "m_robots a = m_robots a' \<Longrightarrow> m_rows a = m_rows a' \<Longrightarrow> m_cols a = m_cols a' \<Longrightarrow> computeDanger a r c = computeDanger a' r c"
  by (simp add: computeDanger_def nRobotsAt_def)

lemma computeDanger_mono:
  assumes "\<And>r c. nRobotsAt a' r c \<le> nRobotsAt a r c" and "m_rows a' = m_rows a" and "m_cols a' = m_cols a"
  shows "computeDanger a' r c \<le> computeDanger a r c"
  unfolding computeDanger_def Let_def assms(2,3) by (intro add_mono) (auto simp: assms(1))

lemma computeDanger_nonneg: "0 \<le> computeDanger a r c"
  by (simp add: computeDanger_def Let_def nRobotsAt_nonneg)

lemma computer_turn_ok:
  assumes "arena_ok a" and "m_player a = Some p"
  shows "\<exists>msg a' g' p'. takeComputerChosenTurn a g = Ret (msg, a', g') \<and> arena_ok a' \<and> m_player a' = Some p' \<and>
    p_dead p' = p_dead p \<and> (\<forall>k. \<exists>j. g' k = g j) \<and>
    (\<forall>dir. computeDanger a' (p_row p') (p_col p') \<le>
       computeDanger a (step_row (m_rows a) (p_row p) dir) (step_col (m_cols a) (p_col p) dir))"
proof -
  let ?sd = "computeDanger a (p_row p) (p_col p)"
  obtain bd bdir where best: "best_move a p ?sd = (bd, bdir)" by (cases "best_move a p ?sd")
  note least = best_move_least [OF best]
  have stay: "?sd \<le> computeDanger a (step_row (m_rows a) (p_row p) dir) (step_col (m_cols a) (p_col p) dir)"
    if "\<not> (?sd > 0 \<and> bd < ?sd)" for dir
  proof (cases "?sd > 0")
    case False
    then show ?thesis using computeDanger_nonneg [of a "step_row (m_rows a) (p_row p) dir" "step_col (m_cols a) (p_col p) dir"] by simp
  next
    case True
    with that least(1) have "bd = ?sd" by simp
    with least(2) [of dir] show ?thesis by fastforce
  qed
  show ?thesis
  proof (cases "?sd > 0 \<and> bd < ?sd")
    case True
    obtain a' h where a': "move_player a bdir = Ret a'" "arena_ok a'"
      "a' = a\<lparr>m_player := Some (p\<lparr>p_age := p_age p + 1, p_row := step_row (m_rows a) (p_row p) bdir,
        p_col := step_col (m_cols a) (p_col p) bdir\<rparr>), m_history := h\<rparr>"
      using move_player_ok [OF assms, of bdir] by blast
    have "bd \<le> computeDanger a (step_row (m_rows a) (p_row p) dir) (step_col (m_cols a) (p_col p) dir)" for dir
      using least(1) least(2) [of dir] by fastforce
    moreover have "computeDanger a' r c = computeDanger a r c" for r c
      using a'(3) by (intro computeDanger_cong) simp_all
    ultimately show ?thesis using True a' assms(2) best least(3)
      by (simp add: takeComputerChosenTurn_def) blast
  next
    case False
    show ?thesis
    proof (cases "find_target a p 1")
      case None
      obtain a' h where a': "stand a = Ret a'" "arena_ok a'"
        "a' = a\<lparr>m_player := Some (p\<lparr>p_age := p_age p + 1\<rparr>), m_history := h\<rparr>"
        using stand_ok [OF assms] by blast
      have "computeDanger a' r c = computeDanger a r c" for r c
        using a'(3) by (intro computeDanger_cong) simp_all
      with False stay None a' assms(2) best show ?thesis
        by (auto simp: takeComputerChosenTurn_def)
    next
      case (Some dir)
      obtain hit a' where a': "shoot a dir g = Ret (hit, a', \<lambda>k. g (Suc k))" "arena_ok a'"
        "m_player a' = Some (p\<lparr>p_age := p_age p + 1\<rparr>)" "m_rows a' = m_rows a" "m_cols a' = m_cols a"
        "\<And>r c. nRobotsAt a' r c \<le> nRobotsAt a r c"
        using shoot_ok [OF assms, of dir g] by blast
      have le: "computeDanger a' (p_row p) (p_col p) \<le> ?sd" using a'(4-6) by (intro computeDanger_mono)
      have "computeDanger a' (p_row p) (p_col p) \<le>
          computeDanger a (step_row (m_rows a) (p_row p) d) (step_col (m_cols a) (p_col p) d)" for d
        using le stay [OF False, of d] by linarith
      with False Some a' assms(2) best show ?thesis
        by (auto simp: takeComputerChosenTurn_def)
    qed
  qed
qed

text \<open>When some option is without danger, the player is alive after the computer's turn and the robots' moves.\<close>

lemma computer_survives:
  assumes "arena_ok a" and "m_player a = Some p" and "\<not> p_dead p" and "\<And>k. 0 \<le> g k"
    and "computeDanger a (step_row (m_rows a) (p_row p) dir) (step_col (m_cols a) (p_col p) dir) = 0"
  shows "\<exists>msg a' g' a'' g''. takeComputerChosenTurn a g = Ret (msg, a', g') \<and> moveRobots a' g' = Ret (True, a'', g'')"
proof -
  obtain msg a' g' p' where t: "takeComputerChosenTurn a g = Ret (msg, a', g')" "arena_ok a'" "m_player a' = Some p'"
    "p_dead p' = p_dead p" "\<forall>k. \<exists>j. g' k = g j" and d: "computeDanger a' (p_row p') (p_col p') \<le>
       computeDanger a (step_row (m_rows a) (p_row p) dir) (step_col (m_cols a) (p_col p) dir)"
    using computer_turn_ok [OF assms(1,2), of g] by blast
  have "0 \<le> g' k" for k using t(5) assms(4) by metis
  then obtain a'' g'' where "moveRobots a' g' = Ret (True, a'', g'')"
    using survives [OF t(2,3), of g'] t(4) assms(3,5) d computeDanger_nonneg [of a' "p_row p'" "p_col p'"] by fastforce
  with t(1) show ?thesis by blast
qed

subsection \<open>Games\<close>

definition grid_shape :: "int \<Rightarrow> int \<Rightarrow> string list \<Rightarrow> bool" where
  "grid_shape nr nc grid \<longleftrightarrow> length grid = nat nr \<and> (\<forall>row \<in> set grid. length row = nat nc)"

lemma grid_char_Ret:
  assumes "grid_shape nr nc grid" and "on_board nr nc r c"
  shows "\<exists>grid'. grid_char grid (r - 1) (c - 1) f = Ret grid' \<and> grid_shape nr nc grid'"
proof -
  have r: "nat (r - 1) < length grid" "0 \<le> r - 1" "0 \<le> c - 1" using assms by (auto simp: grid_shape_def on_board_def)
  then have "grid ! nat (r - 1) \<in> set grid" by simp
  then have "length (grid ! nat (r - 1)) = nat nc" using assms(1) by (simp add: grid_shape_def)
  moreover have "nat (c - 1) < nat nc" using assms(2) by (auto simp: on_board_def)
  ultimately show ?thesis using r assms(1)
    by (auto simp: grid_char_def grid_shape_def dest!: set_update_subset_insert [THEN subsetD])
qed

lemma draw_robots_Ret:
  "grid_shape nr nc grid \<Longrightarrow> \<forall>rp \<in> set rps. robot_ok nr nc rp \<Longrightarrow> \<exists>grid'. draw_robots rps grid = Ret grid' \<and> grid_shape nr nc grid'"
proof (induction rps arbitrary: grid)
  case (Cons rp rps)
  then obtain g1 where "grid_char grid (r_row rp - 1) (r_col rp - 1) bump_char = Ret g1" "grid_shape nr nc g1"
    using grid_char_Ret [of nr nc grid "r_row rp" "r_col rp" bump_char] by (auto simp: robot_ok_def)
  with Cons show ?case by simp
qed simp

lemma display_ok: "arena_ok a \<Longrightarrow> \<exists>d. display a msg = Ret d"
proof -
  assume ok: "arena_ok a"
  let ?grid = "replicate (nat (m_rows a)) (replicate (nat (m_cols a)) (CHR ''.''))"
  have "grid_shape (m_rows a) (m_cols a) ?grid" by (simp add: grid_shape_def)
  then obtain g1 where g1: "draw_robots (m_robots a) ?grid = Ret g1" "grid_shape (m_rows a) (m_cols a) g1"
    using draw_robots_Ret ok by (fastforce simp: arena_ok_def board_ok_def)
  show ?thesis
  proof (cases "m_player a")
    case None
    with g1 show ?thesis by (simp add: display_def)
  next
    case (Some p)
    then have "on_board (m_rows a) (m_cols a) (p_row p) (p_col p)" using ok by (simp add: arena_ok_def board_ok_def)
    then obtain g2 where "grid_char g1 (p_row p - 1) (p_col p - 1) (\<lambda>ch. if ch = CHR ''.'' then CHR ''@'' else CHR ''*'') = Ret g2"
      using grid_char_Ret [OF g1(2)] by blast
    with g1(1) Some show ?thesis by (simp add: display_def)
  qed
qed

definition verdict_ok :: "verdict \<Rightarrow> bool" where
  "verdict_ok v = (case v of Acted msg a g \<Rightarrow> arena_ok a \<and> m_player a \<noteq> None | _ \<Rightarrow> True)"

lemma turn_ok:
  assumes "arena_ok a" and "m_player a \<noteq> None"
  shows "\<exists>v. turn a action g = Ret v \<and> verdict_ok v"
proof -
  obtain p where p: "m_player a = Some p" using assms(2) by blast
  have st: "\<exists>v. obind (stand a) (\<lambda>a. Ret (Acted [] a g)) = Ret v \<and> verdict_ok v"
    using stand_ok [OF assms(1) p] by (auto simp: verdict_ok_def)
  have mv: "\<exists>v. obind (move_player a d) (\<lambda>a. Ret (Acted [] a g)) = Ret v \<and> verdict_ok v" for d
    using move_player_ok [OF assms(1) p, of d] by (auto simp: verdict_ok_def)
  have sh: "\<exists>v. obind (shoot a d g) (\<lambda>(hit, a, g). Ret (Acted (if hit then ''Hit!'' else ''Missed!'') a g)) = Ret v \<and> verdict_ok v" for d
    using shoot_ok [OF assms(1) p, of d g] by (auto simp: verdict_ok_def)
  have cp: "\<exists>v. obind (takeComputerChosenTurn a g) (\<lambda>(msg, a, g). Ret (Acted msg a g)) = Ret v \<and> verdict_ok v"
    using computer_turn_ok [OF assms(1) p, of g] by (auto simp: verdict_ok_def)
  have rest: "verdict_ok Beep" "verdict_ok History" "verdict_ok Quit" by (simp_all add: verdict_ok_def)
  show ?thesis
  proof (cases action)
    case Nil
    then show ?thesis using st by (simp add: turn_def)
  next
    case (Cons ch cs)
    show ?thesis
    proof (cases cs)
      case Nil
      then show ?thesis using Cons mv [of "decodeDirection ch"] cp rest unfolding turn_def by (simp only: list.case split: if_split) blast
    next
      case (Cons d ds)
      then show ?thesis using \<open>action = ch # cs\<close> mv [of "decodeDirection ch"] cp rest sh [of "decodeDirection d"]
        unfolding turn_def by (simp only: list.case split: if_split) blast
    qed
  qed
qed

lemma play_round_ok:
  assumes "arena_ok (g_arena s)" and "m_player (g_arena s) \<noteq> None" and "play_round s = Some r"
  shows "\<exists>b s'. r = Ret (b, s') \<and> arena_ok (g_arena s') \<and> m_player (g_arena s') \<noteq> None"
proof -
  obtain d where d: "display (g_arena s) (g_msg s) = Ret d" using display_ok [OF assms(1)] by blast
  obtain action f where line: "getline (g_cin s) [] = (action, f)" by (cases "getline (g_cin s) []")
  obtain v where v: "turn (g_arena s) action (g_rng s) = Ret v" "verdict_ok v" using turn_ok [OF assms(1,2)] by blast
  show ?thesis
  proof (cases v)
    case (Acted msg a g)
    with v have a: "arena_ok a" "m_player a \<noteq> None" by (simp_all add: verdict_ok_def)
    obtain b a' g' where "moveRobots a g = Ret (b, a', g')" "arena_ok a'" "m_player a' \<noteq> None"
      using moveRobots_ok [OF a] by blast
    with assms(3) d line v Acted show ?thesis by (auto simp: play_round_def)
  next
    case History
    have "hist_ok (m_history (g_arena s))" using assms(1) by (simp add: arena_ok_def board_ok_def)
    then obtain h where "printWhatWasBefore (m_history (g_arena s)) = Ret h" using printWhatWasBefore_ok by blast
    with assms d line v History show ?thesis by (auto simp: play_round_def bind_eq_Some_conv)
  next
    case Beep
    with assms d line v show ?thesis by (auto simp: play_round_def)
  next
    case Quit
    with assms d line v show ?thesis by (auto simp: play_round_def)
  qed
qed

lemma play_loop_ok:
  assumes "play_loop s = Some r" and "arena_ok (g_arena s)" and "m_player (g_arena s) \<noteq> None"
  shows "\<exists>s'. r = Ret s' \<and> arena_ok (g_arena s')"
proof -
  have "arena_ok (g_arena s) \<and> m_player (g_arena s) \<noteq> None \<longrightarrow> (\<exists>s'. r = Ret s' \<and> arena_ok (g_arena s'))"
  proof (rule play_loop.raw_induct [OF _ assms(1)], goal_cases)
    case (1 loop s r)
    show ?case
    proof
      assume ok: "arena_ok (g_arena s) \<and> m_player (g_arena s) \<noteq> None"
      obtain x where x: "play_round s = Some x" using 1(2) by (cases "play_round s") auto
      obtain b s' where s': "x = Ret (b, s')" "arena_ok (g_arena s')" "m_player (g_arena s') \<noteq> None"
        using play_round_ok [of s x] ok x by blast
      obtain go where go: "goes_on (g_arena s') = Ret go" using s'(3) by (auto simp: goes_on_def)
      obtain d where d: "display (g_arena s') (g_msg s') = Ret d" using display_ok [OF s'(2)] by blast
      show "\<exists>s'. r = Ret s' \<and> arena_ok (g_arena s')"
      proof (cases "\<not> b \<and> go")
        case True
        with 1(2) x s' go have "loop s' = Some r" by simp
        from 1(1) [OF this] s'(2,3) show ?thesis by blast
      next
        case False
        with 1(2) x s' go d show ?thesis by (auto split: if_splits)
      qed
    qed
  qed
  with assms(2,3) show ?thesis by blast
qed

lemma play_ok:
  assumes "arena_ok a" and "m_player a \<noteq> None" and "play a g f = Some r"
  shows "\<exists>s. r = Ret s \<and> arena_ok (g_arena s)"
  using play_loop_ok [of "\<lparr>g_arena = a, g_msg = [], g_input = ''x'', g_cin = f, g_rng = g, g_out = []\<rparr>" r] assms
  by (auto simp: play_def Let_def)

text \<open>The arena a game starts with: no robot stands where the player is.\<close>

definition fresh_arena :: "arena \<Rightarrow> player \<Rightarrow> bool" where
  "fresh_arena a p \<longleftrightarrow> arena_ok a \<and> m_player a = Some p \<and> \<not> p_dead p \<and> nRobotsAt a (p_row p) (p_col p) = 0"

lemma rand_on_board: "0 \<le> x \<Longrightarrow> 0 < n \<Longrightarrow> 1 \<le> 1 + c_mod x n \<and> 1 + c_mod x n \<le> n"
  using pos_mod_bound [of n x] pos_mod_sign [of n x] c_mod_nonneg [of x n] by linarith

lemma addRobot_ok:
  assumes "fresh_arena a p" and "robotCount a < MAXROBOTS" and "on_board (m_rows a) (m_cols a) r c"
    and "\<not> (r = p_row p \<and> c = p_col p)"
  shows "\<exists>a'. addRobot a r c = Ret (True, a') \<and> fresh_arena a' p \<and> robotCount a' = robotCount a + 1 \<and>
    m_rows a' = m_rows a \<and> m_cols a' = m_cols a"
  using assms
  by (auto simp: addRobot_def new_Robot_def fresh_arena_def arena_ok_def board_ok_def robotCount_def robot_ok_def on_board_def
      INITIAL_ROBOT_HEALTH_def nRobotsAt_eq at_cell_def)

lemma place_robots_ok:
  assumes "place_robots a nr nc (p_row p) (p_col p) n g = Some r" and "fresh_arena a p" and "m_rows a = nr" "m_cols a = nc"
    and "robotCount a + max 0 n \<le> MAXROBOTS" and "\<And>k. 0 \<le> g k"
  shows "\<exists>a' g'. r = Ret (a', g') \<and> fresh_arena a' p \<and> robotCount a' = robotCount a + max 0 n \<and>
    m_rows a' = nr \<and> m_cols a' = nc"
proof -
  have "rp = p_row p \<and> cp = p_col p \<and> fresh_arena a p \<and> m_rows a = nr \<and> m_cols a = nc \<and> robotCount a + max 0 n \<le> MAXROBOTS \<and>
      (\<forall>k. 0 \<le> g k) \<longrightarrow> (\<exists>a' g'. r = Ret (a', g') \<and> fresh_arena a' p \<and> robotCount a' = robotCount a + max 0 n \<and>
    m_rows a' = nr \<and> m_cols a' = nc)" if "place_robots a nr nc rp cp n g = Some r" for a nr nc rp cp n g r
  proof (rule place_robots.raw_induct [OF _ that], goal_cases)
    case (1 loop a nr nc rp cp n g r)
    show ?case
    proof
      assume pre: "rp = p_row p \<and> cp = p_col p \<and> fresh_arena a p \<and> m_rows a = nr \<and> m_cols a = nc \<and>
        robotCount a + max 0 n \<le> MAXROBOTS \<and> (\<forall>k. 0 \<le> g k)"
      let ?r = "1 + c_mod (g 0) nr" and ?c = "1 + c_mod (g 1) nc" and ?g = "\<lambda>k. g (k + 2)"
      have board: "on_board nr nc ?r ?c"
        using pre rand_on_board [of "g 0" nr] rand_on_board [of "g 1" nc] by (auto simp: on_board_def fresh_arena_def arena_ok_def board_ok_def)
      have g: "\<forall>k. 0 \<le> ?g k" using pre by blast
      show "\<exists>a' g'. r = Ret (a', g') \<and> fresh_arena a' p \<and> robotCount a' = robotCount a + max 0 n \<and> m_rows a' = nr \<and> m_cols a' = nc"
      proof (cases "n > 0")
        case False
        then show ?thesis using 1(2) pre by auto
      next
        case n: True
        show ?thesis
        proof (cases "?r = rp \<and> ?c = cp")
          case True
          with n 1(2) have "loop a nr nc rp cp n ?g = Some r" by (simp add: Let_def)
          from 1(1) [OF this] pre g show ?thesis by blast
        next
          case False
          obtain a' where a': "addRobot a ?r ?c = Ret (True, a')" "fresh_arena a' p" "robotCount a' = robotCount a + 1"
            "m_rows a' = nr" "m_cols a' = nc"
            using addRobot_ok [of a p ?r ?c] pre board False n by auto
          with n False 1(2) have "loop a' nr nc rp cp (n - 1) ?g = Some r" by (auto simp: Let_def)
          from 1(1) [OF this] a' pre g n show ?thesis by (auto simp: max_def split: if_splits)
        qed
      qed
    qed
  qed
  from this [OF assms(1)] assms(2-6) show ?thesis by blast
qed

lemma new_Game_ok:
  assumes "new_Game nr nc n junk g = Some r" and "length junk = 800" and "1 \<le> nr" "1 \<le> nc" "nr < 20" "nc < 40"
    and "n \<le> MAXROBOTS" and "\<And>k. 0 \<le> g k"
  shows "\<exists>a g' p. r = Ret (a, g') \<and> fresh_arena a p \<and> robotCount a = max 0 n \<and> m_rows a = nr \<and> m_cols a = nc"
proof -
  obtain b where b: "new_Before nr nc junk = Ret b" "hist_ok b" "h_rows b = nr" "h_cols b = nc"
    using new_Before_ok [of junk nr nc] assms by auto
  define p where "p = \<lparr>p_row = 1 + c_mod (g 0) nr, p_col = 1 + c_mod (g 1) nc, p_age = 0, p_dead = False\<rparr>"
  define a where "a = \<lparr>m_rows = nr, m_cols = nc, m_player = Some p, m_robots = [], m_history = b\<rparr>"
  have board: "on_board nr nc (p_row p) (p_col p)"
    using rand_on_board [of "g 0" nr] rand_on_board [of "g 1" nc] assms by (auto simp: on_board_def p_def)
  have "place_robots a nr nc (p_row p) (p_col p) n (\<lambda>k. g (k + 2)) = Some r"
    using assms b board
    by (auto simp: new_Game_def new_Arena_def MAXROWS_def MAXCOLS_def addPlayer_def new_Player_def a_def p_def Let_def on_board_def)
  moreover have "fresh_arena a p" using assms b board
    by (auto simp: fresh_arena_def arena_ok_def board_ok_def a_def MAXROWS_def MAXCOLS_def robotCount_def MAXROBOTS_def nRobotsAt_def p_def)
  ultimately show ?thesis
    using place_robots_ok [of a nr nc p n "\<lambda>k. g (k + 2)" r] assms(7,8) by (auto simp: a_def robotCount_def MAXROBOTS_def)
qed

text \<open>In an arena of one cell there is no place for a robot, and the constructor never ends.\<close>

lemma new_Game_1_1:
  assumes "length junk = 800" and "0 < n" and "n \<le> MAXROBOTS"
  shows "new_Game 1 1 n junk g = None"
proof -
  have no: "\<not> (nr = 1 \<and> nc = 1 \<and> rp = 1 \<and> cp = 1 \<and> n > 0)" if "place_robots a nr nc rp cp n g = Some r" for a nr nc rp cp n g r
  proof (rule place_robots.raw_induct [OF _ that], goal_cases)
    case (1 loop a nr nc rp cp n g r)
    show ?case
    proof
      assume pre: "nr = 1 \<and> nc = 1 \<and> rp = 1 \<and> cp = 1 \<and> n > 0"
      have "c_mod x 1 = 0" for x by (simp add: c_mod_def c_div_def abs_mult_sgn mult.commute sgn_mult_abs)
      with 1(2) pre have "loop a nr nc rp cp n (\<lambda>k. g (k + 2)) = Some r" by (simp add: Let_def)
      from 1(1) [OF this] pre show False by blast
    qed
  qed
  obtain b where b: "new_Before 1 1 junk = Ret b" using new_Before_ok [of junk 1 1] assms by auto
  have m1: "c_mod x 1 = 0" for x by (simp add: c_mod_def c_div_def abs_mult_sgn mult.commute sgn_mult_abs)
  define a where "a = \<lparr>m_rows = 1, m_cols = 1, m_player = Some \<lparr>p_row = 1, p_col = 1, p_age = 0, p_dead = False\<rparr>,
    m_robots = [], m_history = b\<rparr>"
  have "new_Game 1 1 n junk g = place_robots a 1 1 1 1 n (\<lambda>k. g (k + 2))"
    using assms b by (simp add: new_Game_def new_Arena_def MAXROWS_def MAXCOLS_def addPlayer_def new_Player_def Let_def m1 a_def)
  moreover have "place_robots a 1 1 1 1 n (\<lambda>k. g (k + 2)) \<noteq> Some r" for r using no [of a 1 1 1 1 n "\<lambda>k. g (k + 2)" r] assms(2) by blast
  ultimately show ?thesis by (metis not_None_eq)
qed

text \<open>At the end of the input the wait for the return key after a look at the history never ends.\<close>

lemma enter_loop_eof:
  assumes "in_text f = []" and "input \<noteq> []"
  shows "enter_loop f input = None"
proof -
  have "\<not> (in_text f = [] \<and> input \<noteq> [])" if "enter_loop f input = Some r" for f input r
  proof (rule enter_loop.raw_induct [OF _ that], goal_cases)
    case (1 loop f input r)
    show ?case
    proof
      assume pre: "in_text f = [] \<and> input \<noteq> []"
      obtain f' where f': "getline (ignore_line f 10000) input = (input, f')" "in_text f' = []"
      proof (cases "eofbit f \<or> failbit f")
        case True
        then show ?thesis using pre that by (simp add: getline_def ignore_line_def)
      next
        case False
        then show ?thesis using pre that by (simp add: getline_def ignore_line_def)
      qed
      with 1(2) pre have "loop f' input = Some r" by simp
      from 1(1) [OF this] pre f'(2) show False by blast
    qed
  qed
  then have "enter_loop f input \<noteq> Some r" for r using assms by blast
  then show ?thesis by (metis not_None_eq)
qed

text \<open>A line that starts with q ends the game at once.\<close>

lemma play_quit:
  assumes "arena_ok a" and "m_player a \<noteq> None" and "fst (getline f []) = CHR ''q'' # rest"
  shows "\<exists>s. play a g f = Some (Ret s) \<and> g_arena s = a"
proof -
  obtain d where d: "display a [] = Ret d" using display_ok [OF assms(1)] by blast
  obtain f' where line: "getline f [] = (CHR ''q'' # rest, f')" using assms(3) by (cases "getline f []") auto
  have "turn a (CHR ''q'' # rest) g = Ret Quit" by (simp add: turn_def)
  with d line assms(2) show ?thesis by (auto simp: play_def Let_def play_loop.simps play_round_def)
qed

end
