(* ===== verification/BballRoster.thy ===== *)
theory BballRoster
  imports CLib
begin

text \<open>
  The doubly linked, sorted roster of \<open>CS32/Project 2/BballRoster.cpp\<close> on an explicit heap. The memory
  holds the nodes and, for every object of class \<open>BballRoster\<close>, its head and tail, so that an operation
  may be called with the same object twice. \<open>Temp\<close> is the local object of the function that runs. The
  allocator hands out ascending addresses and does not fail; a use of a freed node or of the null
  pointer faults, and a loop over a list that does not end is \<open>None\<close>.
\<close>

subsection \<open>Nodes, objects, memory\<close>

type_synonym node_ptr = "nat option"

record player_node =
  n_first :: string
  n_last :: string
  n_value :: string
  n_next :: node_ptr
  n_previous :: node_ptr

record roster =
  r_head :: node_ptr
  r_tail :: node_ptr

datatype object = Obj nat | Temp

record roster_mem =
  nodes :: "nat \<rightharpoonup> player_node"
  next_node :: nat
  rosters :: "object \<Rightarrow> roster"

definition node_at :: "(nat \<rightharpoonup> player_node) \<Rightarrow> node_ptr \<Rightarrow> player_node outcome" where
  "node_at h p = (case p of None \<Rightarrow> SegFault | Some a \<Rightarrow> (case h a of None \<Rightarrow> SegFault | Some n \<Rightarrow> Ret n))"

definition new_node :: "string \<Rightarrow> string \<Rightarrow> string \<Rightarrow> node_ptr \<Rightarrow> node_ptr \<Rightarrow> roster_mem \<Rightarrow> nat \<times> roster_mem" where
  "new_node f l v nx pv m =
     (next_node m, m\<lparr>nodes := (nodes m)(next_node m \<mapsto> \<lparr>n_first = f, n_last = l, n_value = v, n_next = nx, n_previous = pv\<rparr>),
        next_node := Suc (next_node m)\<rparr>)"

definition delete_node :: "nat \<Rightarrow> roster_mem \<Rightarrow> roster_mem" where
  "delete_node a m = m\<lparr>nodes := (nodes m)(a := None)\<rparr>"

definition update_node :: "node_ptr \<Rightarrow> (player_node \<Rightarrow> player_node) \<Rightarrow> roster_mem \<Rightarrow> roster_mem outcome" where
  "update_node p f m = obind (node_at (nodes m) p) (\<lambda>n. Ret (m\<lparr>nodes := (nodes m)(the p \<mapsto> f n)\<rparr>))"

definition link_next :: "node_ptr \<Rightarrow> node_ptr \<Rightarrow> roster_mem \<Rightarrow> roster_mem outcome" where
  "link_next p q = update_node p (\<lambda>n. n\<lparr>n_next := q\<rparr>)"

definition link_previous :: "node_ptr \<Rightarrow> node_ptr \<Rightarrow> roster_mem \<Rightarrow> roster_mem outcome" where
  "link_previous p q = update_node p (\<lambda>n. n\<lparr>n_previous := q\<rparr>)"

definition head_of :: "roster_mem \<Rightarrow> object \<Rightarrow> node_ptr" where
  "head_of m ob = r_head (rosters m ob)"

definition tail_of :: "roster_mem \<Rightarrow> object \<Rightarrow> node_ptr" where
  "tail_of m ob = r_tail (rosters m ob)"

definition set_head :: "object \<Rightarrow> node_ptr \<Rightarrow> roster_mem \<Rightarrow> roster_mem" where
  "set_head ob p m = m\<lparr>rosters := (rosters m)(ob := (rosters m ob)\<lparr>r_head := p\<rparr>)\<rparr>"

definition set_tail :: "object \<Rightarrow> node_ptr \<Rightarrow> roster_mem \<Rightarrow> roster_mem" where
  "set_tail ob p m = m\<lparr>rosters := (rosters m)(ob := (rosters m ob)\<lparr>r_tail := p\<rparr>)\<rparr>"

text \<open>The default constructor.\<close>

definition new_roster :: "object \<Rightarrow> roster_mem \<Rightarrow> roster_mem" where
  "new_roster ob m = set_tail ob None (set_head ob None m)"

subsection \<open>Counting and inserting at the ends\<close>

definition rosterEmpty :: "roster_mem \<Rightarrow> object \<Rightarrow> bool" where
  "rosterEmpty m ob = (head_of m ob = None)"

partial_function (option) count_players :: "(nat \<rightharpoonup> player_node) \<Rightarrow> node_ptr \<Rightarrow> int \<Rightarrow> int outcome option" where
  "count_players h traversePtr i =
     (case traversePtr of None \<Rightarrow> Some (Ret i)
      | Some a \<Rightarrow> obind2 (Some (node_at h (Some a))) (\<lambda>n. count_players h (n_next n) (i + 1)))"

definition howManyPlayers :: "roster_mem \<Rightarrow> object \<Rightarrow> int outcome option" where
  "howManyPlayers m ob = count_players (nodes m) (head_of m ob) 0"

definition insertPlayerToFront :: "roster_mem \<Rightarrow> object \<Rightarrow> string \<Rightarrow> string \<Rightarrow> string \<Rightarrow> roster_mem outcome option" where
  "insertPlayerToFront m ob f l v =
     (let head = head_of m ob; (a, m) = new_node f l v head None m in
      obind2 (Some (if head \<noteq> None then link_previous head (Some a) m else Ret m)) (\<lambda>m.
      let m = set_head ob (Some a) m in
      obind2 (howManyPlayers m ob) (\<lambda>n. Some (Ret (if n = 1 then set_tail ob (Some a) m else m)))))"

definition insertPlayerToRear :: "roster_mem \<Rightarrow> object \<Rightarrow> string \<Rightarrow> string \<Rightarrow> string \<Rightarrow> roster_mem outcome option" where
  "insertPlayerToRear m ob f l v =
     (if rosterEmpty m ob then insertPlayerToFront m ob f l v
      else let tail = tail_of m ob; (a, m) = new_node f l v None tail m in
        obind2 (Some (link_next tail (Some a) m)) (\<lambda>m. Some (Ret (set_tail ob (Some a) m))))"

subsection \<open>Construction, destruction, assignment\<close>

partial_function (option) copy_players :: "roster_mem \<Rightarrow> object \<Rightarrow> node_ptr \<Rightarrow> roster_mem outcome option" where
  "copy_players m ob srcPtr =
     (case srcPtr of None \<Rightarrow> Some (Ret m)
      | Some a \<Rightarrow> obind2 (Some (node_at (nodes m) (Some a))) (\<lambda>n.
          obind2 (insertPlayerToRear m ob (n_first n) (n_last n) (n_value n)) (\<lambda>m.
          obind2 (Some (node_at (nodes m) (Some a))) (\<lambda>n. copy_players m ob (n_next n)))))"

definition copy_roster :: "roster_mem \<Rightarrow> object \<Rightarrow> object \<Rightarrow> roster_mem outcome option" where
  "copy_roster m ob src = copy_players (new_roster ob m) ob (head_of m src)"

partial_function (option) delete_players :: "roster_mem \<Rightarrow> node_ptr \<Rightarrow> roster_mem outcome option" where
  "delete_players m traversePtr =
     (case traversePtr of None \<Rightarrow> Some (Ret m)
      | Some a \<Rightarrow> obind2 (Some (node_at (nodes m) (Some a))) (\<lambda>n. delete_players (delete_node a m) (n_next n)))"

definition destroy_roster :: "roster_mem \<Rightarrow> object \<Rightarrow> roster_mem outcome option" where
  "destroy_roster m ob = delete_players m (head_of m ob)"

text \<open>
  The test for self-assignment compares the addresses of a field of the two first nodes, which are
  equal exactly when the heads are.
\<close>

definition assign_roster :: "roster_mem \<Rightarrow> object \<Rightarrow> object \<Rightarrow> roster_mem outcome option" where
  "assign_roster m this src =
     (if head_of m this = head_of m src then Some (Ret m)
      else if head_of m src = None
      then (if head_of m this = None then Some (Ret (new_roster this m))
            else obind2 (delete_players m (head_of m this)) (\<lambda>m. Some (Ret (new_roster this m))))
      else obind2 (if head_of m this \<noteq> None then delete_players m (head_of m this) else Some (Ret m)) (\<lambda>m.
        let m = new_roster this m in copy_players m this (head_of m src)))"

subsection \<open>Signing\<close>

partial_function (option) find_player :: "(nat \<rightharpoonup> player_node) \<Rightarrow> node_ptr \<Rightarrow> string \<Rightarrow> string \<Rightarrow> player_node option outcome option" where
  "find_player h traversePtr f l =
     (case traversePtr of None \<Rightarrow> Some (Ret None)
      | Some a \<Rightarrow> obind2 (Some (node_at h (Some a))) (\<lambda>n.
          if n_first n = f \<and> n_last n = l then Some (Ret (Some n)) else find_player h (n_next n) f l))"

text \<open>The inner loop of \<open>signPlayer\<close>: the first node behind the smaller first names, and \<open>nextToLast\<close>.\<close>

partial_function (option) skip_first_names ::
  "(nat \<rightharpoonup> player_node) \<Rightarrow> node_ptr \<Rightarrow> node_ptr \<Rightarrow> string \<Rightarrow> string \<Rightarrow> (node_ptr \<times> node_ptr) outcome option" where
  "skip_first_names h traversePtr nextToLast f l =
     (case traversePtr of None \<Rightarrow> Some (Ret (traversePtr, nextToLast))
      | Some a \<Rightarrow> obind2 (Some (node_at h (Some a))) (\<lambda>n.
          if n_last n = l \<and> n_first n < f
          then skip_first_names h (n_next n) (if n_next n = None then traversePtr else nextToLast) f l
          else Some (Ret (traversePtr, nextToLast))))"

text \<open>
  The new node is linked behind \<open>nextToLast\<close> when the loop has reached the end, and otherwise before
  the node it has reached; the source has the second case twice, for the last node and for others.
\<close>

definition link_same_last ::
  "roster_mem \<Rightarrow> object \<Rightarrow> node_ptr \<Rightarrow> node_ptr \<Rightarrow> string \<Rightarrow> string \<Rightarrow> string \<Rightarrow> roster_mem outcome" where
  "link_same_last m ob traversePtr nextToLast f l v =
     (case traversePtr of
        None \<Rightarrow> (let (b, m) = new_node f l v None nextToLast m in
          obind (link_next nextToLast (Some b) m) (\<lambda>m. Ret (set_tail ob (Some b) m)))
      | Some a \<Rightarrow> obind (node_at (nodes m) traversePtr) (\<lambda>n.
          let (b, m) = new_node f l v traversePtr (n_previous n) m in
          obind (link_previous traversePtr (Some b) m) (\<lambda>m. link_next (n_previous n) (Some b) m)))"

definition link_between :: "roster_mem \<Rightarrow> node_ptr \<Rightarrow> string \<Rightarrow> string \<Rightarrow> string \<Rightarrow> roster_mem outcome" where
  "link_between m traversePtr f l v =
     obind (node_at (nodes m) traversePtr) (\<lambda>n.
       let (b, m) = new_node f l v (n_next n) traversePtr m in
       obind (link_next traversePtr (Some b) m) (\<lambda>m. link_previous (n_next n) (Some b) m))"

partial_function (option) sign_loop ::
  "roster_mem \<Rightarrow> object \<Rightarrow> node_ptr \<Rightarrow> string \<Rightarrow> string \<Rightarrow> string \<Rightarrow> (roster_mem \<times> bool) outcome option" where
  "sign_loop m ob traversePtr f l v =
     (case traversePtr of None \<Rightarrow> Some (Ret (m, False))
      | Some a \<Rightarrow> obind2 (Some (node_at (nodes m) (Some a))) (\<lambda>n.
          if n_last n = l
          then obind2 (skip_first_names (nodes m) (Some a) None f l) (\<lambda>r.
               Some (obind (link_same_last m ob (fst r) (snd r) f l v) (\<lambda>m. Ret (m, True))))
          else obind2 (Some (if n_last n < l then obind (node_at (nodes m) (n_next n)) (\<lambda>n'. Ret (n_last n' > l)) else Ret False))
            (\<lambda>here. if here then Some (obind (link_between m (Some a) f l v) (\<lambda>m. Ret (m, True)))
              else sign_loop m ob (n_next n) f l v)))"

definition signPlayer ::
  "roster_mem \<Rightarrow> object \<Rightarrow> string \<Rightarrow> string \<Rightarrow> string \<Rightarrow> (roster_mem \<times> bool) outcome option" where
  "signPlayer m ob f l v =
     (if rosterEmpty m ob then obind2 (insertPlayerToFront m ob f l v) (\<lambda>m. Some (Ret (m, True)))
      else obind2 (find_player (nodes m) (head_of m ob) f l) (\<lambda>r.
        if r \<noteq> None then Some (Ret (m, False))
        else obind2 (Some (node_at (nodes m) (head_of m ob))) (\<lambda>h.
          if l < n_last h \<or> l = n_last h \<and> f < n_first h
          then obind2 (insertPlayerToFront m ob f l v) (\<lambda>m. Some (Ret (m, True)))
          else obind2 (Some (node_at (nodes m) (tail_of m ob))) (\<lambda>t.
            if l > n_last t \<or> l = n_last t \<and> f > n_first t
            then obind2 (insertPlayerToRear m ob f l v) (\<lambda>m. Some (Ret (m, True)))
            else sign_loop m ob (head_of m ob) f l v))))"

subsection \<open>Changing and removing players\<close>

text \<open>The loop of \<open>resignPlayer\<close> tests the next pointer, so it never looks at the last node.\<close>

partial_function (option) resign_loop ::
  "roster_mem \<Rightarrow> node_ptr \<Rightarrow> string \<Rightarrow> string \<Rightarrow> string \<Rightarrow> (roster_mem \<times> bool) outcome option" where
  "resign_loop m traversePtr f l v =
     obind2 (Some (node_at (nodes m) traversePtr)) (\<lambda>n.
       if n_next n = None then Some (Ret (m, False))
       else if n_first n = f \<and> n_last n = l
       then Some (obind (update_node traversePtr (\<lambda>n. n\<lparr>n_value := v\<rparr>) m) (\<lambda>m. Ret (m, True)))
       else resign_loop m (n_next n) f l v)"

definition resignPlayer ::
  "roster_mem \<Rightarrow> object \<Rightarrow> string \<Rightarrow> string \<Rightarrow> string \<Rightarrow> (roster_mem \<times> bool) outcome option" where
  "resignPlayer m ob f l v = resign_loop m (head_of m ob) f l v"

definition signOrResign ::
  "roster_mem \<Rightarrow> object \<Rightarrow> string \<Rightarrow> string \<Rightarrow> string \<Rightarrow> (roster_mem \<times> bool) outcome option" where
  "signOrResign m ob f l v =
     obind2 (resignPlayer m ob f l v) (\<lambda>r.
       if snd r then Some (Ret (fst r, True))
       else obind2 (resignPlayer (fst r) ob f l v) (\<lambda>r.
         if \<not> snd r then obind2 (signPlayer (fst r) ob f l v) (\<lambda>r. Some (Ret (fst r, True)))
         else Some (Ret (fst r, True))))"

definition playerOnRoster :: "roster_mem \<Rightarrow> object \<Rightarrow> string \<Rightarrow> string \<Rightarrow> bool outcome option" where
  "playerOnRoster m ob f l =
     (if rosterEmpty m ob then Some (Ret False)
      else obind2 (find_player (nodes m) (head_of m ob) f l) (\<lambda>r. Some (Ret (r \<noteq> None))))"

partial_function (option) renounce_loop ::
  "roster_mem \<Rightarrow> node_ptr \<Rightarrow> string \<Rightarrow> string \<Rightarrow> (roster_mem \<times> bool) outcome option" where
  "renounce_loop m traversePtr f l =
     obind2 (Some (node_at (nodes m) traversePtr)) (\<lambda>n.
       if n_next n = None then Some (Ret (m, False))
       else if n_first n = f \<and> n_last n = l
       then Some (obind (link_previous (n_next n) (n_previous n) m) (\<lambda>m.
            obind (node_at (nodes m) traversePtr) (\<lambda>n.
            obind (link_next (n_previous n) (n_next n) m) (\<lambda>m. Ret (delete_node (the traversePtr) m, True)))))
       else renounce_loop m (n_next n) f l)"

definition renouncePlayer :: "roster_mem \<Rightarrow> object \<Rightarrow> string \<Rightarrow> string \<Rightarrow> (roster_mem \<times> bool) outcome option" where
  "renouncePlayer m ob f l =
     obind2 (playerOnRoster m ob f l) (\<lambda>on.
       if \<not> on then Some (Ret (m, False))
       else obind2 (Some (node_at (nodes m) (head_of m ob))) (\<lambda>h.
         if n_first h = f \<and> n_last h = l
         then let p = head_of m ob; m = set_head ob (n_next h) m in
           obind2 (Some (if n_next h \<noteq> None then link_previous (n_next h) None m else Ret m)) (\<lambda>m.
             Some (Ret (delete_node (the p) m, True)))
         else obind2 (Some (node_at (nodes m) (tail_of m ob))) (\<lambda>t.
           if n_first t = f \<and> n_last t = l
           then let p = tail_of m ob; m = delete_node (the p) (set_tail ob (n_previous t) m) in
             obind2 (Some (link_next (if n_previous t \<noteq> None then n_previous t else p) None m)) (\<lambda>m. Some (Ret (m, True)))
           else renounce_loop m (head_of m ob) f l)))"

subsection \<open>Looking up\<close>

text \<open>The reference arguments of a call that returns true are its result.\<close>

definition lookupPlayer :: "roster_mem \<Rightarrow> object \<Rightarrow> string \<Rightarrow> string \<Rightarrow> string option outcome option" where
  "lookupPlayer m ob f l =
     obind2 (find_player (nodes m) (head_of m ob) f l) (\<lambda>r. Some (Ret (map_option n_value r)))"

partial_function (option) choose_loop :: "(nat \<rightharpoonup> player_node) \<Rightarrow> node_ptr \<Rightarrow> int \<Rightarrow> node_ptr outcome option" where
  "choose_loop h traversePtr i =
     (if i = 0 then Some (Ret traversePtr)
      else obind2 (Some (node_at h traversePtr)) (\<lambda>n. choose_loop h (n_next n) (i - 1)))"

definition choosePlayer :: "roster_mem \<Rightarrow> object \<Rightarrow> int \<Rightarrow> (string \<times> string \<times> string) option outcome option" where
  "choosePlayer m ob i =
     (if rosterEmpty m ob then Some (Ret None)
      else obind2 (if i < 0 then Some (Ret 0) else howManyPlayers m ob) (\<lambda>n.
        if i < 0 \<or> i \<ge> n then Some (Ret None)
        else obind2 (choose_loop (nodes m) (head_of m ob) i) (\<lambda>p.
          obind2 (Some (node_at (nodes m) p)) (\<lambda>n. Some (Ret (Some (n_first n, n_last n, n_value n)))))))"

text \<open>The strings of the caller stay empty when the call returns false.\<close>

definition chosen :: "(string \<times> string \<times> string) option \<Rightarrow> string \<times> string \<times> string" where
  "chosen r = (case r of None \<Rightarrow> ([], [], []) | Some x \<Rightarrow> x)"

definition swapRoster :: "roster_mem \<Rightarrow> object \<Rightarrow> object \<Rightarrow> roster_mem outcome option" where
  "swapRoster m this other =
     obind2 (copy_roster m Temp other) (\<lambda>m.
     obind2 (assign_roster m other this) (\<lambda>m.
     obind2 (assign_roster m this Temp) (\<lambda>m. destroy_roster m Temp)))"

subsection \<open>Joining and searching rosters\<close>

partial_function (option) join_first ::
  "roster_mem \<Rightarrow> object \<Rightarrow> object \<Rightarrow> int \<Rightarrow> bool \<Rightarrow> (roster_mem \<times> bool) outcome option" where
  "join_first m bbOne bbTwo i sameNameDiffVal =
     obind2 (howManyPlayers m bbOne) (\<lambda>n.
       if i < n
       then obind2 (choosePlayer m bbOne i) (\<lambda>r.
         obind2 (lookupPlayer m bbTwo (fst (chosen r)) (fst (snd (chosen r)))) (\<lambda>w.
           if w \<noteq> None \<and> snd (snd (chosen r)) \<noteq> the w
           then join_first m bbOne bbTwo (i + 1) True
           else obind2 (signPlayer m Temp (fst (chosen r)) (fst (snd (chosen r))) (snd (snd (chosen r)))) (\<lambda>s.
             join_first (fst s) bbOne bbTwo (i + 1) sameNameDiffVal)))
       else Some (Ret (m, sameNameDiffVal)))"

partial_function (option) join_second ::
  "roster_mem \<Rightarrow> object \<Rightarrow> object \<Rightarrow> int \<Rightarrow> roster_mem outcome option" where
  "join_second m bbOne bbTwo i =
     obind2 (howManyPlayers m bbTwo) (\<lambda>n.
       if i < n
       then obind2 (choosePlayer m bbTwo i) (\<lambda>r.
         obind2 (playerOnRoster m bbOne (fst (chosen r)) (fst (snd (chosen r)))) (\<lambda>on.
           if \<not> on
           then obind2 (signPlayer m Temp (fst (chosen r)) (fst (snd (chosen r))) (snd (snd (chosen r)))) (\<lambda>s.
             join_second (fst s) bbOne bbTwo (i + 1))
           else join_second m bbOne bbTwo (i + 1)))
       else Some (Ret m))"

text \<open>Every return destroys the temporary roster.\<close>

definition join_return :: "bool \<Rightarrow> roster_mem outcome option \<Rightarrow> (roster_mem \<times> bool) outcome option" where
  "join_return b r = obind2 r (\<lambda>m. obind2 (destroy_roster m Temp) (\<lambda>m. Some (Ret (m, b))))"

definition joinRosters :: "roster_mem \<Rightarrow> object \<Rightarrow> object \<Rightarrow> object \<Rightarrow> (roster_mem \<times> bool) outcome option" where
  "joinRosters m bbOne bbTwo bbJoined =
     (let m = new_roster Temp m in
      if bbOne = bbTwo then join_return True (assign_roster m bbJoined bbOne)
      else if rosterEmpty m bbOne \<and> rosterEmpty m bbTwo then join_return True (assign_roster m bbJoined Temp)
      else if rosterEmpty m bbOne then join_return True (assign_roster m bbJoined bbOne)
      else if rosterEmpty m bbTwo then join_return True (assign_roster m bbJoined bbOne)
      else obind2 (join_first m bbOne bbTwo 0 False) (\<lambda>r.
        obind2 (join_second (fst r) bbOne bbTwo 0) (\<lambda>m.
          join_return (\<not> snd r) (assign_roster m bbJoined Temp))))"

definition search_matches :: "string \<Rightarrow> string \<Rightarrow> string \<Rightarrow> string \<Rightarrow> bool" where
  "search_matches fsearch lsearch f l =
     (if fsearch = ''*'' then lsearch = l else if lsearch = ''*'' then fsearch = f else lsearch = l \<and> fsearch = f)"

partial_function (option) check_loop ::
  "roster_mem \<Rightarrow> string \<Rightarrow> string \<Rightarrow> object \<Rightarrow> int \<Rightarrow> roster_mem outcome option" where
  "check_loop m fsearch lsearch bbOne i =
     obind2 (howManyPlayers m bbOne) (\<lambda>n.
       if i < n
       then obind2 (choosePlayer m bbOne i) (\<lambda>r.
         if search_matches fsearch lsearch (fst (chosen r)) (fst (snd (chosen r)))
         then obind2 (signPlayer m Temp (fst (chosen r)) (fst (snd (chosen r))) (snd (snd (chosen r)))) (\<lambda>s.
           check_loop (fst s) fsearch lsearch bbOne (i + 1))
         else check_loop m fsearch lsearch bbOne (i + 1))
       else Some (Ret m))"

definition checkRoster :: "roster_mem \<Rightarrow> string \<Rightarrow> string \<Rightarrow> object \<Rightarrow> object \<Rightarrow> roster_mem outcome option" where
  "checkRoster m fsearch lsearch bbOne bbResult =
     (let m = new_roster Temp m in
      if fsearch = ''*'' \<and> lsearch = ''*''
      then obind2 (assign_roster m bbResult bbOne) (\<lambda>m. destroy_roster m Temp)
      else obind2 (check_loop m fsearch lsearch bbOne 0) (\<lambda>m.
        obind2 (assign_roster m bbResult Temp) (\<lambda>m. destroy_roster m Temp)))"

end
