(* ===== verification/BballRosterProps.thy ===== *)
theory BballRosterProps
  imports BballRoster "HOL-Library.Product_Lexorder"
begin

text \<open>
  The roster of \<open>BballRoster.cpp\<close> as a sorted association list. \<open>represents L m C\<close> says that the
  memory \<open>m\<close> holds, for each object of \<open>L\<close>, a well-formed doubly linked list of the entries
  \<open>C ob\<close>, that the lists share no node and that no other node is allocated. Every operation is a
  function on \<open>C\<close>; where the code does not do what its header promises, the function says what it does.
\<close>

subsection \<open>Doubly linked lists\<close>

definition first_ptr :: "nat list \<Rightarrow> node_ptr \<Rightarrow> node_ptr" where
  "first_ptr as q = (case as of [] \<Rightarrow> q | a # _ \<Rightarrow> Some a)"

definition last_ptr :: "nat list \<Rightarrow> node_ptr \<Rightarrow> node_ptr" where
  "last_ptr as p = (if as = [] then p else Some (last as))"

lemma first_ptr_simps [simp]: "first_ptr [] q = q" "first_ptr (a # as) q = Some a"
  "first_ptr (xs @ ys) q = first_ptr xs (first_ptr ys q)"
  by (simp_all add: first_ptr_def split: list.split)

lemma last_ptr_simps [simp]: "last_ptr [] p = p" "last_ptr (as @ [a]) p = Some a"
  "last_ptr (a # as) p = last_ptr as (Some a)"
  by (simp_all add: last_ptr_def)

text \<open>\<open>nseg h p as q\<close>: the nodes \<open>as\<close> are linked both ways, with \<open>p\<close> before and \<open>q\<close> behind them.\<close>

fun nseg :: "(nat \<rightharpoonup> player_node) \<Rightarrow> node_ptr \<Rightarrow> nat list \<Rightarrow> node_ptr \<Rightarrow> bool" where
  "nseg h p [] q \<longleftrightarrow> True"
| "nseg h p (a # as) q \<longleftrightarrow>
     (\<exists>n. h a = Some n \<and> n_previous n = p \<and> n_next n = first_ptr as q \<and> nseg h (Some a) as q)"

lemma nseg_append [simp]:
  "nseg h p (xs @ ys) q \<longleftrightarrow> nseg h p xs (first_ptr ys q) \<and> nseg h (last_ptr xs p) ys q"
  by (induction xs arbitrary: p) auto

lemma nseg_frame: "\<forall>a \<in> set as. h' a = h a \<Longrightarrow> nseg h' p as q = nseg h p as q"
  by (induction as arbitrary: p) auto

lemma nseg_alloc: "nseg h p as q \<Longrightarrow> a \<in> set as \<Longrightarrow> h a \<noteq> None"
  by (induction as arbitrary: p) auto

lemma nseg_relink_end:
  assumes "nseg h p xs q" and "distinct xs" and "\<forall>a \<in> set xs. a \<noteq> last xs \<longrightarrow> h' a = h a"
    and "xs \<noteq> [] \<Longrightarrow> h' (last xs) = map_option (\<lambda>n. n\<lparr>n_next := q'\<rparr>) (h (last xs))"
  shows "nseg h' p xs q'"
proof (cases xs rule: rev_cases)
  case (snoc ys y)
  have "nseg h' p ys (Some y) = nseg h p ys (Some y)" using assms(2,3) by (intro nseg_frame) (auto simp: snoc)
  with assms show ?thesis by (auto simp: snoc)
qed simp

lemma nseg_relink_start:
  assumes "nseg h p (y # zs) q" and "y \<notin> set zs" and "\<forall>a \<in> set zs. h' a = h a"
    and "h' y = map_option (\<lambda>n. n\<lparr>n_previous := p'\<rparr>) (h y)"
  shows "nseg h' p' (y # zs) q"
proof -
  have "nseg h' (Some y) zs q = nseg h (Some y) zs q" using assms(3) by (rule nseg_frame)
  with assms show ?thesis by auto
qed

subsection \<open>Insertion and removal of a node\<close>

definition ins_heap ::
  "(nat \<rightharpoonup> player_node) \<Rightarrow> nat \<Rightarrow> player_node \<Rightarrow> nat list \<Rightarrow> nat list \<Rightarrow> nat \<rightharpoonup> player_node" where
  "ins_heap h b n xs ys =
     (\<lambda>a. if a = b then Some n
          else if xs \<noteq> [] \<and> a = last xs then map_option (\<lambda>n. n\<lparr>n_next := Some b\<rparr>) (h a)
          else if ys \<noteq> [] \<and> a = hd ys then map_option (\<lambda>n. n\<lparr>n_previous := Some b\<rparr>) (h a) else h a)"

lemma nseg_insert:
  assumes "nseg h None (xs @ ys) None" and "distinct (xs @ ys)" and "b \<notin> set (xs @ ys)"
    and "n_previous n = last_ptr xs None" and "n_next n = first_ptr ys None"
  shows "nseg (ins_heap h b n xs ys) None (xs @ b # ys) None"
proof -
  have "nseg (ins_heap h b n xs ys) None xs (Some b)"
    by (rule nseg_relink_end [of h None xs "first_ptr ys None"]) (use assms in \<open>auto simp: ins_heap_def\<close>)
  moreover have "nseg (ins_heap h b n xs ys) (Some b) ys None"
  proof (cases ys)
    case (Cons y zs)
    have neq: "xs = [] \<or> last xs \<notin> set zs" using assms(2) by (cases xs rule: rev_cases) (auto simp: Cons)
    show ?thesis unfolding Cons by (rule nseg_relink_start [of h "last_ptr xs None"]) (use assms Cons neq in \<open>auto simp: ins_heap_def\<close>)
  qed simp
  ultimately show ?thesis using assms(4,5) by (simp add: ins_heap_def)
qed

definition del_heap :: "(nat \<rightharpoonup> player_node) \<Rightarrow> nat list \<Rightarrow> nat \<Rightarrow> nat list \<Rightarrow> nat \<rightharpoonup> player_node" where
  "del_heap h xs b ys =
     (\<lambda>a. if a = b then None
          else if xs \<noteq> [] \<and> a = last xs then map_option (\<lambda>n. n\<lparr>n_next := first_ptr ys None\<rparr>) (h a)
          else if ys \<noteq> [] \<and> a = hd ys then map_option (\<lambda>n. n\<lparr>n_previous := last_ptr xs None\<rparr>) (h a) else h a)"

lemma nseg_delete:
  assumes "nseg h None (xs @ b # ys) None" and "distinct (xs @ b # ys)"
  shows "nseg (del_heap h xs b ys) None (xs @ ys) None"
proof -
  have "nseg (del_heap h xs b ys) None xs (first_ptr ys None)"
    by (rule nseg_relink_end [of h None xs "Some b"]) (use assms in \<open>auto simp: del_heap_def\<close>)
  moreover have "nseg (del_heap h xs b ys) (last_ptr xs None) ys None"
  proof (cases ys)
    case (Cons y zs)
    have neq: "xs = [] \<or> last xs \<notin> set zs" using assms(2) by (cases xs rule: rev_cases) (auto simp: Cons)
    show ?thesis unfolding Cons by (rule nseg_relink_start [of h "Some b"]) (use assms Cons neq in \<open>auto simp: del_heap_def\<close>)
  qed simp
  ultimately show ?thesis by simp
qed

subsection \<open>Layout of the memory\<close>

type_synonym entry = "(string \<times> string) \<times> string"

definition entry_of :: "(nat \<rightharpoonup> player_node) \<Rightarrow> nat \<Rightarrow> entry" where
  "entry_of h a = (case h a of None \<Rightarrow> (([], []), []) | Some n \<Rightarrow> ((n_last n, n_first n), n_value n))"

abbreviation entries_of :: "(nat \<rightharpoonup> player_node) \<Rightarrow> nat list \<Rightarrow> entry list" where
  "entries_of h as \<equiv> map (entry_of h) as"

definition layout :: "object set \<Rightarrow> roster_mem \<Rightarrow> (object \<Rightarrow> nat list) \<Rightarrow> bool" where
  "layout L m A \<longleftrightarrow>
     (\<forall>ob \<in> L. head_of m ob = first_ptr (A ob) None \<and> (A ob \<noteq> [] \<longrightarrow> tail_of m ob = Some (last (A ob))) \<and>
        nseg (nodes m) None (A ob) None \<and> distinct (A ob)) \<and>
     (\<forall>ob \<in> L. \<forall>ob' \<in> L. ob \<noteq> ob' \<longrightarrow> set (A ob) \<inter> set (A ob') = {}) \<and>
     dom (nodes m) = (\<Union>ob \<in> L. set (A ob)) \<and> (\<forall>a \<in> dom (nodes m). a < next_node m)"

definition represents :: "object set \<Rightarrow> roster_mem \<Rightarrow> (object \<Rightarrow> entry list) \<Rightarrow> bool" where
  "represents L m C \<longleftrightarrow> (\<exists>A. layout L m A \<and> (\<forall>ob \<in> L. C ob = entries_of (nodes m) (A ob)))"

lemma layoutD:
  assumes "layout L m A" and "ob \<in> L"
  shows "head_of m ob = first_ptr (A ob) None" and "A ob \<noteq> [] \<Longrightarrow> tail_of m ob = Some (last (A ob))"
    and "nseg (nodes m) None (A ob) None" and "distinct (A ob)" and "next_node m \<notin> set (A ob)"
proof -
  show "next_node m \<notin> set (A ob)" using assms unfolding layout_def by blast
qed (use assms in \<open>simp_all add: layout_def\<close>)

lemma layout_disjoint: "layout L m A \<Longrightarrow> x \<in> L \<Longrightarrow> y \<in> L \<Longrightarrow> x \<noteq> y \<Longrightarrow> set (A x) \<inter> set (A y) = {}"
  by (simp add: layout_def)

lemma entries_frame: "\<forall>a \<in> set as. h' a = h a \<Longrightarrow> entries_of h' as = entries_of h as"
  by (simp add: entry_of_def)

lemma entry_of_ins: "a \<noteq> b \<Longrightarrow> entry_of (ins_heap h b n xs ys) a = entry_of h a"
  by (cases "h a") (auto simp: entry_of_def ins_heap_def)

lemma entry_of_del: "a \<noteq> b \<Longrightarrow> entry_of (del_heap h xs b ys) a = entry_of h a"
  by (cases "h a") (auto simp: entry_of_def del_heap_def)

lemma layout_insert:
  assumes "layout L m A" and "ob \<in> L" and as: "A ob = xs @ ys"
    and n: "n_previous n = last_ptr xs None" "n_next n = first_ptr ys None"
    and m': "nodes m' = ins_heap (nodes m) b n xs ys" "b = next_node m" "next_node m' = Suc b"
      "rosters m' = (rosters m)(ob := \<lparr>r_head = first_ptr xs (Some b), r_tail = Some (last (b # ys))\<rparr>)"
  shows "layout L m' (A(ob := xs @ b # ys))"
proof -
  note D = layoutD [OF assms(1)]
  have seg: "nseg (nodes m') None (xs @ b # ys) None"
    using D(3) [OF assms(2)] D(4) [OF assms(2)] D(5) [OF assms(2)] n unfolding m'(1) as by (intro nseg_insert) (auto simp: m'(2))
  have same: "nodes m' a = nodes m a" if "a \<notin> set (A ob)" "a \<noteq> b" for a
    using that by (auto simp: m'(1) ins_heap_def as)
  have other: "nseg (nodes m') None (A ob') None" if "ob' \<in> L" "ob' \<noteq> ob" for ob'
  proof -
    have "\<forall>a \<in> set (A ob'). nodes m' a = nodes m a"
      using assms(1,2) that D(5) [OF that(1)] unfolding layout_def m'(2) [symmetric] by (intro ballI same) blast+
    from nseg_frame [OF this] D(3) [OF that(1)] show ?thesis by blast
  qed
  have dom: "dom (nodes m') = insert b (dom (nodes m))"
    by (auto simp: m'(1) ins_heap_def dom_def split: if_splits)
  have b: "b \<notin> dom (nodes m)" using assms(1) unfolding layout_def m'(2) by blast
  have setA: "set ((A(ob := xs @ b # ys)) x) = set (A x) \<union> (if x = ob then {b} else {})" for x using as by auto
  show ?thesis
    unfolding layout_def
  proof (intro conjI ballI impI)
    fix x assume x: "x \<in> L"
    show "head_of m' x = first_ptr ((A(ob := xs @ b # ys)) x) None"
      using D(1) [OF x] by (simp add: head_of_def m'(4))
    show "tail_of m' x = Some (last ((A(ob := xs @ b # ys)) x))" if "(A(ob := xs @ b # ys)) x \<noteq> []"
      using D(2) [OF x] that by (auto simp: tail_of_def m'(4) split: if_splits)
    show "nseg (nodes m') None ((A(ob := xs @ b # ys)) x) None" using seg other [OF x] by simp
    show "distinct ((A(ob := xs @ b # ys)) x)" using D(4,5) [OF x] D(4,5) [OF assms(2)] by (auto simp: as m'(2))
  next
    fix x y assume xy: "x \<in> L" "y \<in> L" "x \<noteq> y"
    then have "set (A x) \<inter> set (A y) = {}" using assms(1) unfolding layout_def by simp
    then show "set ((A(ob := xs @ b # ys)) x) \<inter> set ((A(ob := xs @ b # ys)) y) = {}"
      using xy(3) D(5) [OF xy(1)] D(5) [OF xy(2)] unfolding setA m'(2) [symmetric] by auto
  next
    show "dom (nodes m') = (\<Union>x \<in> L. set ((A(ob := xs @ b # ys)) x))"
      using assms(1,2) unfolding dom layout_def setA by (auto split: if_splits)
  next
    fix a assume "a \<in> dom (nodes m')"
    then show "a < next_node m'" using assms(1) unfolding dom layout_def m'(2,3) by (auto intro: less_SucI)
  qed
qed

lemma layout_delete:
  assumes "layout L m A" and "ob \<in> L" and as: "A ob = xs @ b # ys"
    and m': "nodes m' = del_heap (nodes m) xs b ys" "next_node m' = next_node m"
      "rosters m' = (rosters m)(ob := r)" "r_head r = first_ptr (xs @ ys) None"
      "xs @ ys \<noteq> [] \<Longrightarrow> r_tail r = Some (last (xs @ ys))"
  shows "layout L m' (A(ob := xs @ ys))"
proof -
  note D = layoutD [OF assms(1)]
  have seg: "nseg (nodes m') None (xs @ ys) None"
    using D(3) [OF assms(2)] D(4) [OF assms(2)] unfolding m'(1) as by (intro nseg_delete)
  have same: "nodes m' a = nodes m a" if "a \<notin> set (A ob)" for a
    using that by (auto simp: m'(1) del_heap_def as)
  have other: "nseg (nodes m') None (A ob') None" if "ob' \<in> L" "ob' \<noteq> ob" for ob'
  proof -
    have "\<forall>a \<in> set (A ob'). nodes m' a = nodes m a"
      using assms(1,2) that unfolding layout_def by (intro ballI same) blast+
    from nseg_frame [OF this] D(3) [OF that(1)] show ?thesis by blast
  qed
  have dom: "dom (nodes m') = dom (nodes m) - {b}"
    by (auto simp: m'(1) del_heap_def dom_def split: if_splits)
  have setA: "set ((A(ob := xs @ ys)) x) = set (A x) - (if x = ob then {b} else {})" for x
    using as D(4) [OF assms(2)] by auto
  show ?thesis
    unfolding layout_def
  proof (intro conjI ballI impI)
    fix x assume x: "x \<in> L"
    show "head_of m' x = first_ptr ((A(ob := xs @ ys)) x) None"
      using D(1) [OF x] by (simp add: head_of_def m'(3,4))
    show "tail_of m' x = Some (last ((A(ob := xs @ ys)) x))" if "(A(ob := xs @ ys)) x \<noteq> []"
      using D(2) [OF x] that m'(5) by (auto simp: tail_of_def m'(3) split: if_splits)
    show "nseg (nodes m') None ((A(ob := xs @ ys)) x) None" using seg other [OF x] by simp
    show "distinct ((A(ob := xs @ ys)) x)" using D(4) [OF x] D(4) [OF assms(2)] by (auto simp: as)
  next
    fix x y assume xy: "x \<in> L" "y \<in> L" "x \<noteq> y"
    then have "set (A x) \<inter> set (A y) = {}" using assms(1) unfolding layout_def by simp
    then show "set ((A(ob := xs @ ys)) x) \<inter> set ((A(ob := xs @ ys)) y) = {}"
      unfolding setA by blast
  next
    have b: "b \<notin> set (A x)" if "x \<in> L" "x \<noteq> ob" for x
      using layout_disjoint [OF assms(1) that(1) assms(2) that(2)] as by auto
    have "dom (nodes m) = (\<Union>x \<in> L. set (A x))" using assms(1) unfolding layout_def by simp
    moreover have "(\<Union>x \<in> L. set ((A(ob := xs @ ys)) x)) = (\<Union>x \<in> L. set (A x)) - {b}"
      unfolding setA using b by (auto split: if_splits)
    ultimately show "dom (nodes m') = (\<Union>x \<in> L. set ((A(ob := xs @ ys)) x))" unfolding dom by simp
  next
    fix a assume "a \<in> dom (nodes m')"
    then show "a < next_node m'" using assms(1) unfolding dom layout_def m'(2) by auto
  qed
qed

text \<open>What an operation that inserts or removes one entry does to the memory.\<close>

definition inserted ::
  "roster_mem \<Rightarrow> object \<Rightarrow> nat list \<Rightarrow> nat list \<Rightarrow> entry \<Rightarrow> roster_mem \<Rightarrow> bool" where
  "inserted m ob xs ys e m' \<longleftrightarrow>
     nodes m' = ins_heap (nodes m) (next_node m) \<lparr>n_first = snd (fst e), n_last = fst (fst e), n_value = snd e,
       n_next = first_ptr ys None, n_previous = last_ptr xs None\<rparr> xs ys \<and>
     next_node m' = Suc (next_node m) \<and>
     rosters m' = (rosters m)(ob := \<lparr>r_head = first_ptr xs (Some (next_node m)), r_tail = Some (last (next_node m # ys))\<rparr>)"

lemma inserted_layout:
  assumes "layout L m A" and "\<forall>x \<in> L. C x = entries_of (nodes m) (A x)" and "ob \<in> L" and "A ob = xs @ ys"
    and "inserted m ob xs ys e m'"
  defines "A' \<equiv> A(ob := xs @ next_node m # ys)"
    and "C' \<equiv> C(ob := entries_of (nodes m) xs @ e # entries_of (nodes m) ys)"
  shows "layout L m' A'" and "\<forall>x \<in> L. C' x = entries_of (nodes m') (A' x)" and "represents L m' C'"
proof -
  note I = assms(5) [unfolded inserted_def]
  show l: "layout L m' A'" unfolding A'_def using assms(1,3,4) I by (intro layout_insert) auto
  have "entry_of (nodes m') (next_node m) = e" using I by (simp add: entry_of_def ins_heap_def)
  moreover have "entries_of (nodes m') as = entries_of (nodes m) as" if "next_node m \<notin> set as" for as
    unfolding conjunct1 [OF I] using that by (intro map_cong refl entry_of_ins) auto
  ultimately show e: "\<forall>x \<in> L. C' x = entries_of (nodes m') (A' x)"
    using assms(2,3,4) layoutD(5) [OF assms(1)] layoutD(5) [OF assms(1,3)]
    unfolding A'_def C'_def by (intro ballI) (simp_all del: map_eq_conv)
  from l e show "represents L m' C'" unfolding represents_def by blast
qed

definition removed :: "roster_mem \<Rightarrow> object \<Rightarrow> nat list \<Rightarrow> nat \<Rightarrow> nat list \<Rightarrow> roster_mem \<Rightarrow> bool" where
  "removed m ob xs b ys m' \<longleftrightarrow>
     nodes m' = del_heap (nodes m) xs b ys \<and> next_node m' = next_node m \<and>
     (\<exists>r. rosters m' = (rosters m)(ob := r) \<and> r_head r = first_ptr (xs @ ys) None \<and>
       (xs @ ys \<noteq> [] \<longrightarrow> r_tail r = Some (last (xs @ ys))))"

lemma represents_removed:
  assumes "layout L m A" and "\<forall>x \<in> L. C x = entries_of (nodes m) (A x)" and "ob \<in> L" and "A ob = xs @ b # ys"
    and "removed m ob xs b ys m'"
  shows "represents L m' (C(ob := entries_of (nodes m) (xs @ ys)))"
proof -
  let ?A = "A(ob := xs @ ys)"
  note I = assms(5) [unfolded removed_def]
  have "layout L m' ?A" using assms(1,3,4) I by (elim conjE exE, intro layout_delete) auto
  moreover have "entries_of (nodes m') as = entries_of (nodes m) as" if "b \<notin> set as" for as
    unfolding conjunct1 [OF I] using that by (intro map_cong refl entry_of_del) auto
  moreover have "b \<notin> set (?A x)" if "x \<in> L" for x
    using layout_disjoint [OF assms(1) that assms(3)] assms(4) layoutD(4) [OF assms(1,3)] by (cases "x = ob") auto
  ultimately show ?thesis using assms(2,3) unfolding represents_def
    by (intro exI [of _ ?A] conjI ballI) (simp_all del: map_eq_conv map_append set_append)
qed

subsection \<open>Loops that only read\<close>

lemma count_players_eq: "nseg h p as None \<Longrightarrow> count_players h (first_ptr as None) i = Some (Ret (i + int (length as)))"
proof (induction as arbitrary: p i)
  case (Cons a as)
  then show ?case by (subst count_players.simps) (auto simp: node_at_def)
qed (simp add: count_players.simps)

lemma find_player_eq:
  "nseg h p as None \<Longrightarrow>
    \<exists>r. find_player h (first_ptr as None) f l = Some (Ret r) \<and> map_option n_value r = map_of (entries_of h as) (l, f)"
proof (induction as arbitrary: p)
  case (Cons a as)
  then obtain n where n: "h a = Some n" "n_next n = first_ptr as None" "nseg h (Some a) as None" by auto
  have "entry_of h a = ((n_last n, n_first n), n_value n)" using n(1) by (simp add: entry_of_def)
  with Cons.IH [OF n(3)] n(1,2) show ?case
    by (subst find_player.simps) (auto simp: node_at_def)
qed (simp add: find_player.simps)

lemma choose_loop_eq:
  "nseg h p as None \<Longrightarrow> i < length as \<Longrightarrow> choose_loop h (first_ptr as None) (int i) = Some (Ret (Some (as ! i)))"
proof (induction as arbitrary: p i)
  case (Cons a as)
  then show ?case by (cases i) (subst choose_loop.simps, auto simp: node_at_def)+
qed simp

lemma rosterEmpty_iff: "layout L m A \<Longrightarrow> ob \<in> L \<Longrightarrow> rosterEmpty m ob \<longleftrightarrow> A ob = []"
  by (cases "A ob") (simp_all add: rosterEmpty_def layoutD(1))

lemma howManyPlayers_eq: "layout L m A \<Longrightarrow> ob \<in> L \<Longrightarrow> howManyPlayers m ob = Some (Ret (int (length (A ob))))"
  using count_players_eq [OF layoutD(3), of L m A ob 0] by (simp add: howManyPlayers_def layoutD(1))

lemma node_entry: "nseg h p as q \<Longrightarrow> a \<in> set as \<Longrightarrow> \<exists>n. h a = Some n \<and> entry_of h a = ((n_last n, n_first n), n_value n)"
  using nseg_alloc [of h p as q a] by (auto simp: entry_of_def)

lemma roster_updates [simp]:
  "(r :: roster)\<lparr>r_head := p\<rparr> = \<lparr>r_head = p, r_tail = r_tail r\<rparr>" "(r :: roster)\<lparr>r_tail := p\<rparr> = \<lparr>r_head = r_head r, r_tail = p\<rparr>"
  by (cases r, simp)+

subsection \<open>Insertion at the ends\<close>

lemma insertPlayerToFront_inserted:
  assumes "layout L m A" and "ob \<in> L"
  shows "\<exists>m'. insertPlayerToFront m ob f l v = Some (Ret m') \<and> inserted m ob [] (A ob) ((l, f), v) m'"
proof -
  note D = layoutD [OF assms]
  let ?b = "next_node m"
  let ?n = "\<lparr>n_first = f, n_last = l, n_value = v, n_next = first_ptr (A ob) None, n_previous = None\<rparr>"
  let ?h = "ins_heap (nodes m) ?b ?n [] (A ob)"
  let ?m = "m\<lparr>nodes := ?h, next_node := Suc ?b\<rparr>"
  have link: "(if head_of m ob \<noteq> None then link_previous (head_of m ob) (Some ?b) (snd (new_node f l v (head_of m ob) None m))
      else Ret (snd (new_node f l v (head_of m ob) None m))) = Ret ?m"
    using D(1,3,4,5)
    by (cases "A ob") (auto simp: new_node_def link_previous_def update_node_def node_at_def ins_heap_def fun_eq_iff)
  have "nseg ?h None (?b # A ob) None" using nseg_insert [of "nodes m" "[]" "A ob" ?b ?n] D(3-5) by simp
  then have count: "howManyPlayers (set_head ob (Some ?b) ?m) ob = Some (Ret (int (length (A ob)) + 1))"
    using count_players_eq [of ?h None "?b # A ob" 0] by (simp add: howManyPlayers_def head_of_def set_head_def)
  show ?thesis
    using link count D(2)
    by (cases "A ob") (auto simp: insertPlayerToFront_def Let_def new_node_def inserted_def set_head_def set_tail_def tail_of_def)
qed

lemma insertPlayerToRear_inserted:
  assumes "layout L m A" and "ob \<in> L"
  shows "\<exists>m'. insertPlayerToRear m ob f l v = Some (Ret m') \<and> inserted m ob (A ob) [] ((l, f), v) m'"
proof (cases "A ob" rule: rev_cases)
  case Nil
  then show ?thesis using insertPlayerToFront_inserted [OF assms] rosterEmpty_iff [OF assms]
    by (simp add: insertPlayerToRear_def)
next
  case (snoc xs x)
  note D = layoutD [OF assms]
  have "tail_of m ob = Some x" "head_of m ob = first_ptr xs (Some x)" using D(1,2) snoc by auto
  with snoc show ?thesis using D(3,5) rosterEmpty_iff [OF assms]
    by (auto simp: insertPlayerToRear_def Let_def new_node_def link_next_def update_node_def node_at_def inserted_def
        set_tail_def ins_heap_def fun_eq_iff head_of_def)
qed

subsection \<open>Insertion in the middle\<close>

abbreviation key_sorted :: "entry list \<Rightarrow> bool" where
  "key_sorted es \<equiv> sorted_wrt (<) (map fst es)"

lemma insort_key_eq:
  "insort_key fst (k, v) es = takeWhile (\<lambda>e. fst e < k) es @ (k, v) # dropWhile (\<lambda>e. fst e < (k :: 'a :: linorder)) es"
  by (induction es) auto

lemma map_of_insort_key:
  "k \<notin> fst ` set es \<Longrightarrow> map_of (insort_key fst (k, v) es) = (map_of es)(k \<mapsto> v)" for k :: "'a :: linorder"
  by (induction es) (auto simp: fun_eq_iff)

lemma key_sorted_insort:
  assumes "key_sorted es" and "map_of es k = None"
  shows "key_sorted (insort_key fst (k, v) es)"
proof -
  have "k \<notin> fst ` set es" using assms(2) by (simp add: map_of_eq_None_iff)
  then show ?thesis using assms(1) by (induction es) (auto simp: set_insort_key, metis fst_conv order.strict_trans1)
qed

lemma layout_roster:
  assumes "layout L m A" and "ob \<in> L" and "A ob = xs @ ys" and "xs \<noteq> []" and "ys \<noteq> []"
  shows "rosters m ob = \<lparr>r_head = first_ptr xs q, r_tail = Some (last (b # ys))\<rparr>"
  using layoutD(1,2) [OF assms(1,2)] assms(3-5)
  by (cases "rosters m ob"; cases xs) (auto simp: head_of_def tail_of_def)

lemma link_same_last_inserted:
  assumes "layout L m A" and "ob \<in> L" and as: "A ob = xs @ y # zs" and "xs \<noteq> []"
  shows "\<exists>m'. link_same_last m ob (Some y) nl f l v = Ret m' \<and> inserted m ob xs (y # zs) ((l, f), v) m'"
proof -
  note D = layoutD [OF assms(1,2)]
  obtain ws w where xs: "xs = ws @ [w]" using \<open>xs \<noteq> []\<close> by (cases xs rule: rev_cases) auto
  show ?thesis
    using D(3-5) layout_roster [OF assms(1-4), of "Some (next_node m)" "next_node m"]
    by (auto simp: link_same_last_def Let_def new_node_def link_next_def link_previous_def update_node_def node_at_def
        inserted_def ins_heap_def fun_eq_iff as xs)
qed

lemma link_between_inserted:
  assumes "layout L m A" and "ob \<in> L" and as: "A ob = (ws @ [w]) @ y # zs"
  shows "\<exists>m'. link_between m (Some w) f l v = Ret m' \<and> inserted m ob (ws @ [w]) (y # zs) ((l, f), v) m'"
proof -
  note D = layoutD [OF assms(1,2)]
  show ?thesis
    using D(3-5) layout_roster [OF assms, of "Some (next_node m)" "next_node m"]
    by (auto simp: link_between_def Let_def new_node_def link_next_def link_previous_def update_node_def node_at_def
        inserted_def ins_heap_def fun_eq_iff as)
qed

lemma skip_first_names_eq:
  assumes "nseg h p as None" and "\<forall>a \<in> set as. l \<le> fst (fst (entry_of h a))"
  shows "\<exists>nl'. skip_first_names h (first_ptr as None) nl f l =
    Some (Ret (first_ptr (dropWhile (\<lambda>a. fst (entry_of h a) < (l, f)) as) None, nl'))"
  using assms
proof (induction as arbitrary: p nl)
  case (Cons a as)
  then obtain n where n: "h a = Some n" "n_next n = first_ptr as None" "nseg h (Some a) as None" by auto
  have e: "entry_of h a = ((n_last n, n_first n), n_value n)" using n(1) by (simp add: entry_of_def)
  have "fst (entry_of h a) < (l, f) \<longleftrightarrow> n_last n = l \<and> n_first n < f" using Cons.prems(2) by (auto simp: e)
  with Cons.IH [OF n(3)] Cons.prems(2) n(1,2) show ?case
    by (subst skip_first_names.simps) (auto simp: node_at_def)
qed (simp add: skip_first_names.simps)

lemma sign_loop_inserts:
  assumes "layout L m A" and "ob \<in> L" and "key_sorted (entries_of (nodes m) (A ob))" and "\<forall>a \<in> set (A ob). fst (entry_of (nodes m) a) \<noteq> (l, f)"
    and "A ob = pre @ as" and "as \<noteq> []" and "fst (entry_of (nodes m) (last as)) > (l, f)"
    and "fst (fst (entry_of (nodes m) (hd as))) \<le> l" and "fst (entry_of (nodes m) (hd (pre @ as))) < (l, f)"
  shows "\<exists>m'. sign_loop m ob (first_ptr as None) f l v = Some (Ret (m', True)) \<and>
    inserted m ob (pre @ takeWhile (\<lambda>a. fst (entry_of (nodes m) a) < (l, f)) as)
      (dropWhile (\<lambda>a. fst (entry_of (nodes m) a) < (l, f)) as) ((l, f), v) m'"
  using assms(5-)
proof (induction as arbitrary: pre)
  case (Cons a as)
  let ?P = "\<lambda>a. fst (entry_of (nodes m) a) < (l, f)"
  note D = layoutD [OF assms(1,2), unfolded Cons.prems(1)]
  obtain n where n: "nodes m a = Some n" "n_next n = first_ptr as None" "nseg (nodes m) (Some a) as None" using D(3) by auto
  have e: "entry_of (nodes m) a = ((n_last n, n_first n), n_value n)" using n(1) by (simp add: entry_of_def)
  have sorted: "\<forall>x \<in> set as. fst (entry_of (nodes m) a) < fst (entry_of (nodes m) x)"
    using assms(3) Cons.prems(1) by (simp add: sorted_wrt_append)
  show ?case
  proof (cases "n_last n = l")
    case True
    have "\<forall>x \<in> set (a # as). l \<le> fst (fst (entry_of (nodes m) x))" using sorted True by (force simp: e less_prod_def)
    then obtain nl where skip: "skip_first_names (nodes m) (Some a) None f l =
        Some (Ret (first_ptr (dropWhile ?P (a # as)) None, nl))"
      using skip_first_names_eq [of "nodes m" "last_ptr pre None" "a # as" l None f] D(3) by auto
    obtain y zs where drop: "dropWhile ?P (a # as) = y # zs"
    proof (cases "dropWhile ?P (a # as)")
      case Nil
      then have "?P (last (a # as))" unfolding dropWhile_eq_Nil_conv using last_in_set [of "a # as"] by blast
      with Cons.prems(3) show ?thesis by simp
    qed
    have whole: "A ob = (pre @ takeWhile ?P (a # as)) @ y # zs"
      unfolding append_assoc drop [symmetric] takeWhile_dropWhile_id by (rule Cons.prems(1))
    moreover have "pre @ takeWhile ?P (a # as) \<noteq> []" using Cons.prems(5) by auto
    ultimately obtain m' where "link_same_last m ob (Some y) nl f l v = Ret m'"
        "inserted m ob (pre @ takeWhile ?P (a # as)) (y # zs) ((l, f), v) m'"
      using link_same_last_inserted [OF assms(1,2), of _ y zs nl f l v] by blast
    with skip True n(1) show ?thesis unfolding drop by (subst sign_loop.simps) (auto simp: node_at_def drop)
  next
    case False
    then have less: "n_last n < l" using Cons.prems(4) by (simp add: e)
    then have P: "?P a" by (simp add: e)
    have "as \<noteq> []" using Cons.prems(3) P by auto
    then obtain a' as' where as: "as = a' # as'" by (cases as) auto
    obtain n' where n': "nodes m a' = Some n'" using n(3) by (auto simp: as)
    have e': "entry_of (nodes m) a' = ((n_last n', n_first n'), n_value n')" using n' by (simp add: entry_of_def)
    show ?thesis
    proof (cases "n_last n' > l")
      case True
      then have "\<not> ?P a'" by (auto simp: e')
      with P link_between_inserted [OF assms(1,2), of pre a a' as' f l v] Cons.prems(1) less True n n'
      show ?thesis by (subst sign_loop.simps) (auto simp: node_at_def as False)
    next
      case False
      have "\<exists>m'. sign_loop m ob (first_ptr as None) f l v = Some (Ret (m', True)) \<and>
          inserted m ob ((pre @ [a]) @ takeWhile ?P as) (dropWhile ?P as) ((l, f), v) m'"
        using Cons.prems False \<open>as \<noteq> []\<close> by (intro Cons.IH) (auto simp: as e' hd_append)
      with less False n n' P show ?thesis by (subst sign_loop.simps) (auto simp: node_at_def as)
    qed
  qed
qed simp

subsection \<open>The operations on one roster\<close>

lemma lookup_ops:
  assumes "represents L m C" and "ob \<in> L"
  shows "lookupPlayer m ob f l = Some (Ret (map_of (C ob) (l, f)))"
    and "playerOnRoster m ob f l = Some (Ret (map_of (C ob) (l, f) \<noteq> None))"
    and "howManyPlayers m ob = Some (Ret (int (length (C ob))))"
    and "choosePlayer m ob i = Some (Ret (if 0 \<le> i \<and> i < int (length (C ob))
       then Some (snd (fst (C ob ! nat i)), fst (fst (C ob ! nat i)), snd (C ob ! nat i)) else None))"
proof -
  obtain A where A: "layout L m A" "C ob = entries_of (nodes m) (A ob)" using assms unfolding represents_def by blast
  note D = layoutD [OF A(1) assms(2)]
  obtain r where r: "find_player (nodes m) (head_of m ob) f l = Some (Ret r)" "map_option n_value r = map_of (C ob) (l, f)"
    using find_player_eq [OF D(3), of f l] D(1) A(2) by auto
  then show "lookupPlayer m ob f l = Some (Ret (map_of (C ob) (l, f)))" by (simp add: lookupPlayer_def)
  have "r = None \<longleftrightarrow> map_of (C ob) (l, f) = None" unfolding r(2) [symmetric] by simp
  with r show "playerOnRoster m ob f l = Some (Ret (map_of (C ob) (l, f) \<noteq> None))"
    using rosterEmpty_iff [OF A(1) assms(2)] A(2) by (auto simp: playerOnRoster_def)
  show many: "howManyPlayers m ob = Some (Ret (int (length (C ob))))"
    using howManyPlayers_eq [OF A(1) assms(2)] A(2) by simp
  have "\<exists>n. nodes m (A ob ! nat i) = Some n \<and> C ob ! nat i = ((n_last n, n_first n), n_value n)"
      "choose_loop (nodes m) (head_of m ob) i = Some (Ret (Some (A ob ! nat i)))"
    if "0 \<le> i" "i < int (length (C ob))"
    using node_entry [OF D(3), of "A ob ! nat i"] choose_loop_eq [OF D(3), of "nat i"] that A(2) D(1)
    by (auto simp: nat_less_iff)
  then show "choosePlayer m ob i = Some (Ret (if 0 \<le> i \<and> i < int (length (C ob))
       then Some (snd (fst (C ob ! nat i)), fst (fst (C ob ! nat i)), snd (C ob ! nat i)) else None))"
    using many rosterEmpty_iff [OF A(1) assms(2)] A(2)
    by (cases "0 \<le> i \<and> i < int (length (C ob))") (auto simp: choosePlayer_def node_at_def)
qed

definition sign_entry :: "entry \<Rightarrow> entry list \<Rightarrow> entry list" where
  "sign_entry e es = (if map_of es (fst e) = None then insort_key fst e es else es)"

lemma map_of_sign_entry: "map_of (sign_entry (k, v) es) = (if map_of es k = None then (map_of es)(k \<mapsto> v) else map_of es)"
  by (simp add: sign_entry_def map_of_insort_key map_of_eq_None_iff)

lemma key_sorted_sign_entry: "key_sorted es \<Longrightarrow> key_sorted (sign_entry e es)"
  using key_sorted_insort [of es "fst e" "snd e"] by (simp add: sign_entry_def)

lemma signPlayer_inserts:
  assumes "layout L m A" and "ob \<in> L" and "key_sorted (entries_of (nodes m) (A ob))"
    and "\<forall>a \<in> set (A ob). fst (entry_of (nodes m) a) \<noteq> (l, f)"
  defines "P \<equiv> \<lambda>a. fst (entry_of (nodes m) a) < (l, f)"
  shows "\<exists>m'. signPlayer m ob f l v = Some (Ret (m', True)) \<and>
    inserted m ob (takeWhile P (A ob)) (dropWhile P (A ob)) ((l, f), v) m'"
proof (cases "A ob")
  case Nil
  then show ?thesis using insertPlayerToFront_inserted [OF assms(1,2), of f l v] rosterEmpty_iff [OF assms(1,2)]
    by (auto simp: signPlayer_def)
next
  case (Cons a as)
  note D = layoutD [OF assms(1,2)]
  have "map_of (entries_of (nodes m) (A ob)) (l, f) = None" using assms(4) by (auto simp: map_of_eq_None_iff)
  then have find: "find_player (nodes m) (head_of m ob) f l = Some (Ret None)"
    using find_player_eq [OF D(3), of f l] D(1) by auto
  obtain n where n: "nodes m a = Some n" "entry_of (nodes m) a = ((n_last n, n_first n), n_value n)"
    using node_entry [OF D(3), of a] Cons by auto
  obtain t where t: "nodes m (last (A ob)) = Some t" "entry_of (nodes m) (last (A ob)) = ((n_last t, n_first t), n_value t)"
    using node_entry [OF D(3), of "last (A ob)"] last_in_set [of "A ob"] unfolding Cons by blast
  note start = Cons n find rosterEmpty_iff [OF assms(1,2)] D(1)
  show ?thesis
  proof (cases "(l, f) < fst (entry_of (nodes m) a)")
    case True
    then have "\<not> P a" by (auto simp: P_def)
    with True insertPlayerToFront_inserted [OF assms(1,2), of f l v] start show ?thesis
      by (auto simp: signPlayer_def node_at_def)
  next
    case False
    then have Pa: "P a" using assms(4) Cons by (auto simp: P_def not_less order.strict_iff_order)
    show ?thesis
    proof (cases "P (last (A ob))")
      case True
      have "\<forall>x \<in> set (A ob). P x"
      proof
        fix x assume "x \<in> set (A ob)"
        then obtain xs ys where "A ob = xs @ x # ys" by (auto simp: in_set_conv_decomp)
        then have "x = last (A ob) \<or> fst (entry_of (nodes m) x) < fst (entry_of (nodes m) (last (A ob)))"
          using assms(3) by (cases ys rule: rev_cases) (auto simp: sorted_wrt_append)
        then show "P x" using True by (auto simp: P_def)
      qed
      then have "takeWhile P (A ob) = A ob" "dropWhile P (A ob) = []" by (simp_all add: takeWhile_eq_all_conv)
      with True False insertPlayerToRear_inserted [OF assms(1,2), of f l v] start t D(2) show ?thesis
        by (auto simp: signPlayer_def node_at_def P_def)
    next
      case tail: False
      then have last: "(l, f) < fst (entry_of (nodes m) (last (A ob)))"
        using assms(4) Cons last_in_set [of "A ob"] by (auto simp: P_def not_less order.strict_iff_order)
      have "fst (fst (entry_of (nodes m) (hd (A ob)))) \<le> l" using Pa Cons by (auto simp: P_def less_prod_def)
      with sign_loop_inserts [OF assms(1-4), of "[]" "A ob" v] last Pa Cons
      obtain m' where "sign_loop m ob (head_of m ob) f l v = Some (Ret (m', True))"
          "inserted m ob (takeWhile P (A ob)) (dropWhile P (A ob)) ((l, f), v) m'"
        using D(1) unfolding P_def by auto
      with False tail start t D(2) show ?thesis by (auto simp: signPlayer_def node_at_def P_def)
    qed
  qed
qed

theorem signPlayer_signs:
  assumes "represents L m C" and "ob \<in> L" and "key_sorted (C ob)"
  shows "\<exists>m'. signPlayer m ob f l v = Some (Ret (m', map_of (C ob) (l, f) = None)) \<and>
    represents L m' (C(ob := sign_entry ((l, f), v) (C ob)))"
proof -
  obtain A where A: "layout L m A" "\<forall>x \<in> L. C x = entries_of (nodes m) (A x)" using assms(1) unfolding represents_def by blast
  then have C: "C ob = entries_of (nodes m) (A ob)" using assms(2) by simp
  show ?thesis
  proof (cases "map_of (C ob) (l, f) = None")
    case True
    let ?P = "\<lambda>a. fst (entry_of (nodes m) a) < (l, f)"
    have "\<forall>a \<in> set (A ob). fst (entry_of (nodes m) a) \<noteq> (l, f)" using True by (force simp: C map_of_eq_None_iff)
    from signPlayer_inserts [OF A(1) assms(2) _ this, of v] assms(3)
    obtain m' where m': "signPlayer m ob f l v = Some (Ret (m', True))"
        "inserted m ob (takeWhile ?P (A ob)) (dropWhile ?P (A ob)) ((l, f), v) m'" by (auto simp: C)
    have "entries_of (nodes m) (takeWhile ?P (A ob)) @ ((l, f), v) # entries_of (nodes m) (dropWhile ?P (A ob)) =
        sign_entry ((l, f), v) (C ob)"
      using True by (simp add: sign_entry_def insort_key_eq C takeWhile_map dropWhile_map o_def)
    with inserted_layout(3) [OF A assms(2) takeWhile_dropWhile_id [symmetric] m'(2)] m'(1) True show ?thesis by auto
  next
    case False
    obtain r where r: "find_player (nodes m) (head_of m ob) f l = Some (Ret r)" "map_option n_value r = map_of (C ob) (l, f)"
      using find_player_eq [OF layoutD(3) [OF A(1) assms(2)], of f l] layoutD(1) [OF A(1) assms(2)] C by auto
    have "r \<noteq> None" "\<not> rosterEmpty m ob" using r(2) False rosterEmpty_iff [OF A(1) assms(2)] by (auto simp: C)
    with r(1) False assms(1) show ?thesis by (auto simp: signPlayer_def sign_entry_def)
  qed
qed

subsection \<open>Changing and removing entries\<close>

definition put_entry :: "string \<times> string \<Rightarrow> string \<Rightarrow> entry list \<Rightarrow> entry list" where
  "put_entry k v es = map (\<lambda>e. if fst e = k then (k, v) else e) es"

definition value_heap :: "(nat \<rightharpoonup> player_node) \<Rightarrow> nat \<Rightarrow> string \<Rightarrow> nat \<rightharpoonup> player_node" where
  "value_heap h a v = h(a := map_option (\<lambda>n. n\<lparr>n_value := v\<rparr>) (h a))"

lemma nseg_value_heap [simp]: "nseg (value_heap h a v) p as q = nseg h p as q"
  by (induction as arbitrary: p) (auto simp: value_heap_def)

lemma entry_of_value_heap: "h a \<noteq> None \<Longrightarrow> entry_of (value_heap h a v) x = (if x = a then (fst (entry_of h a), v) else entry_of h x)"
  by (auto simp: entry_of_def value_heap_def)

lemma dom_value_heap [simp]: "dom (value_heap h a v) = dom h"
  by (auto simp: value_heap_def dom_def)

lemma resign_loop_eq:
  assumes "nseg (nodes m) p (as @ [z]) None" and "distinct as" and "key_sorted (entries_of (nodes m) as)"
  shows "(\<forall>a \<in> set as. fst (entry_of (nodes m) a) \<noteq> (l, f)) \<and>
      resign_loop m (first_ptr (as @ [z]) None) f l v = Some (Ret (m, False)) \<or>
    (\<exists>a \<in> set as. fst (entry_of (nodes m) a) = (l, f) \<and>
      resign_loop m (first_ptr (as @ [z]) None) f l v = Some (Ret (m\<lparr>nodes := value_heap (nodes m) a v\<rparr>, True)))"
  using assms
proof (induction as arbitrary: p)
  case Nil
  then show ?case by (subst resign_loop.simps) (auto simp: node_at_def)
next
  case (Cons a as)
  then obtain n where n: "nodes m a = Some n" "n_next n = first_ptr (as @ [z]) None" "nseg (nodes m) (Some a) (as @ [z]) None"
    by auto
  have e: "entry_of (nodes m) a = ((n_last n, n_first n), n_value n)" using n(1) by (simp add: entry_of_def)
  obtain q where q: "n_next n = Some q" using n(2) by (cases as) auto
  show ?case
  proof (cases "n_first n = f \<and> n_last n = l")
    case True
    then show ?thesis using n(1) q
      by (subst (1 2) resign_loop.simps) (auto simp: node_at_def update_node_def value_heap_def e)
  next
    case False
    from Cons.IH [OF n(3)] Cons.prems(2,3) False n(1,2) q show ?thesis
      by (subst (1 2) resign_loop.simps) (auto simp: node_at_def e)
  qed
qed

theorem resignPlayer_resigns:
  assumes "represents L m C" and "ob \<in> L" and "key_sorted (C ob)"
  shows "if C ob = [] then resignPlayer m ob f l v = Some SegFault
    else if map_of (butlast (C ob)) (l, f) = None then resignPlayer m ob f l v = Some (Ret (m, False))
    else \<exists>m'. resignPlayer m ob f l v = Some (Ret (m', True)) \<and> represents L m' (C(ob := put_entry (l, f) v (C ob)))"
proof -
  obtain A where A: "layout L m A" "\<forall>x \<in> L. C x = entries_of (nodes m) (A x)" using assms(1) unfolding represents_def by blast
  then have C: "C ob = entries_of (nodes m) (A ob)" using assms(2) by simp
  note D = layoutD [OF A(1) assms(2)]
  show ?thesis
  proof (cases "A ob" rule: rev_cases)
    case Nil
    then show ?thesis using D(1) by (simp add: C resignPlayer_def resign_loop.simps node_at_def)
  next
    case (snoc as z)
    have "key_sorted (entries_of (nodes m) as)" using assms(3) by (simp add: C snoc sorted_wrt_append)
    from resign_loop_eq [OF _ _ this, of None z l f v] D(3,4) snoc consider
        "\<forall>a \<in> set as. fst (entry_of (nodes m) a) \<noteq> (l, f)" "resign_loop m (head_of m ob) f l v = Some (Ret (m, False))"
      | a where "a \<in> set as" "fst (entry_of (nodes m) a) = (l, f)"
          "resign_loop m (head_of m ob) f l v = Some (Ret (m\<lparr>nodes := value_heap (nodes m) a v\<rparr>, True))"
      using D(1) by auto
    then show ?thesis
    proof cases
      case 1
      then have "map_of (butlast (C ob)) (l, f) = None" by (force simp: C snoc butlast_append map_of_eq_None_iff)
      with 1 show ?thesis by (simp add: C snoc resignPlayer_def)
    next
      case 2
      let ?h = "value_heap (nodes m) a v"
      let ?m = "m\<lparr>nodes := ?h\<rparr>"
      have alloc: "nodes m a \<noteq> None" using nseg_alloc [OF D(3), of a] 2(1) snoc by simp
      have "entry_of (nodes m) a \<in> set (butlast (C ob))" using 2(1) by (simp add: C snoc butlast_append)
      then have "map_of (butlast (C ob)) (l, f) \<noteq> None" using 2(2) by (metis image_eqI map_of_eq_None_iff)
      moreover have "layout L ?m A" using A(1) by (simp add: layout_def head_of_def tail_of_def)
      moreover have "entries_of ?h (A ob) = put_entry (l, f) v (C ob)"
      proof -
        have "distinct (map fst (C ob))" using assms(3) strict_sorted_iff by blast
        then have inj: "inj_on (\<lambda>a. fst (entry_of (nodes m) a)) (set (A ob))" by (simp add: C distinct_map o_def comp_inj_on_iff)
        have "entry_of ?h x = (if fst (entry_of (nodes m) x) = (l, f) then ((l, f), v) else entry_of (nodes m) x)"
          if "x \<in> set (A ob)" for x
          using inj_on_eq_iff [OF inj that, of a] 2(1,2) snoc by (simp add: entry_of_value_heap [of "nodes m" a v, OF alloc])
        then show ?thesis by (simp add: put_entry_def C)
      qed
      moreover have "entries_of ?h (A x) = entries_of (nodes m) (A x)" if "x \<in> L" "x \<noteq> ob" for x
        using layout_disjoint [OF A(1) that(1) assms(2) that(2)] 2(1) snoc
        by (auto intro!: map_cong simp: entry_of_value_heap [of "nodes m" a v, OF alloc])
      ultimately show ?thesis using A(2) 2(3) assms(2)
        by (auto simp: resignPlayer_def represents_def C snoc intro!: exI [of _ A])
    qed
  qed
qed

theorem signOrResign_updates:
  assumes "represents L m C" and "ob \<in> L" and "key_sorted (C ob)" and "C ob \<noteq> []"
  shows "\<exists>m'. signOrResign m ob f l v = Some (Ret (m', True)) \<and>
    represents L m' (C(ob := if map_of (butlast (C ob)) (l, f) = None then sign_entry ((l, f), v) (C ob)
      else put_entry (l, f) v (C ob)))"
proof (cases "map_of (butlast (C ob)) (l, f) = None")
  case True
  have "resignPlayer m ob f l v = Some (Ret (m, False))"
    using resignPlayer_resigns [OF assms(1-3), of f l v] True assms(4) by simp
  with signPlayer_signs [OF assms(1-3), of f l v] True show ?thesis by (auto simp: signOrResign_def)
next
  case False
  with resignPlayer_resigns [OF assms(1-3), of f l v] assms(4) show ?thesis by (auto simp: signOrResign_def)
qed

lemma renounce_loop_eq:
  assumes "nseg (nodes m) p (as @ b # ys) None" and "ys \<noteq> []" and "distinct (as @ b # ys)" and "p = Some w"
    and "w \<notin> set (as @ b # ys)" and "nodes m w = Some nw"
    and "fst (entry_of (nodes m) b) = (l, f)" and "\<forall>a \<in> set as. fst (entry_of (nodes m) a) \<noteq> (l, f)"
  shows "renounce_loop m (first_ptr (as @ b # ys) None) f l =
    Some (Ret (m\<lparr>nodes := del_heap (nodes m) (w # as) b ys\<rparr>, True))"
  using assms
proof (induction as arbitrary: p w nw)
  case Nil
  then obtain y zs where ys: "ys = y # zs" by (cases ys) auto
  from Nil show ?case
    by (subst renounce_loop.simps)
      (auto simp: node_at_def entry_of_def ys link_previous_def link_next_def update_node_def delete_node_def del_heap_def fun_eq_iff)
next
  case (Cons a as)
  then obtain n where n: "nodes m a = Some n" "n_next n = first_ptr (as @ b # ys) None"
    "nseg (nodes m) (Some a) (as @ b # ys) None" by auto
  have "entry_of (nodes m) a = ((n_last n, n_first n), n_value n)" using n(1) by (simp add: entry_of_def)
  then have "\<not> (n_first n = f \<and> n_last n = l)" using Cons.prems(8) by auto
  moreover have "n_next n \<noteq> None" using n(2) by (cases as) auto
  moreover have "renounce_loop m (first_ptr (as @ b # ys) None) f l =
      Some (Ret (m\<lparr>nodes := del_heap (nodes m) (a # as) b ys\<rparr>, True))"
    using Cons.prems n by (intro Cons.IH [of "Some a" a n]) auto
  moreover have "del_heap (nodes m) (w # a # as) b ys = del_heap (nodes m) (a # as) b ys"
    by (auto simp: del_heap_def fun_eq_iff)
  ultimately show ?case using n(1,2) by (subst renounce_loop.simps) (auto simp: node_at_def)
qed

theorem renouncePlayer_removes:
  assumes "represents L m C" and "ob \<in> L" and "key_sorted (C ob)"
  shows "\<exists>m'. renouncePlayer m ob f l = Some (Ret (m', map_of (C ob) (l, f) \<noteq> None)) \<and>
    represents L m' (C(ob := filter (\<lambda>e. fst e \<noteq> (l, f)) (C ob)))"
proof -
  obtain A where A: "layout L m A" "\<forall>x \<in> L. C x = entries_of (nodes m) (A x)" using assms(1) unfolding represents_def by blast
  then have C: "C ob = entries_of (nodes m) (A ob)" using assms(2) by simp
  note D = layoutD [OF A(1) assms(2)] and on = lookup_ops(2) [OF assms(1,2), of f l]
  show ?thesis
  proof (cases "map_of (C ob) (l, f) = None")
    case True
    then have "filter (\<lambda>e. fst e \<noteq> (l, f)) (C ob) = C ob" by (force simp: filter_id_conv map_of_eq_None_iff)
    with True on assms(1) show ?thesis by (simp add: renouncePlayer_def)
  next
    case False
    then have "(l, f) \<in> (\<lambda>b. fst (entry_of (nodes m) b)) ` set (A ob)" by (simp add: C map_of_eq_None_iff image_image)
    then obtain xs b ys where as: "A ob = xs @ b # ys" and b: "fst (entry_of (nodes m) b) = (l, f)"
      by (auto simp: in_set_conv_decomp)
    have dist: "distinct (map fst (C ob))" using assms(3) strict_sorted_iff by blast
    then have neq: "\<forall>a \<in> set xs \<union> set ys. fst (entry_of (nodes m) a) \<noteq> (l, f)" by (auto simp: C as b [symmetric] image_iff)
    then have filter: "filter (\<lambda>e. fst e \<noteq> (l, f)) (C ob) = entries_of (nodes m) (xs @ ys)"
      by (auto simp: C as b filter_id_conv)
    obtain n where n: "nodes m b = Some n" "n_last n = l" "n_first n = f" using node_entry [OF D(3), of b] b as by auto
    have "\<exists>m'. renouncePlayer m ob f l = Some (Ret (m', True)) \<and> removed m ob xs b ys m'"
    proof (cases xs)
      case Nil
      then show ?thesis using on False n D as
        by (cases ys) (auto simp: renouncePlayer_def node_at_def Let_def link_previous_def update_node_def delete_node_def
          set_head_def removed_def del_heap_def fun_eq_iff tail_of_def)
    next
      case (Cons x zs)
      obtain nx where x: "nodes m x = Some nx" "\<not> (n_first nx = f \<and> n_last nx = l)"
        using node_entry [OF D(3), of x] neq as Cons by auto
      have head: "head_of m ob = Some x" using D(1) as Cons by simp
      show ?thesis
      proof (cases ys rule: rev_cases)
        case Nil
        obtain ws w where xs: "xs = ws @ [w]" using Cons by (metis list.distinct(1) rev_exhaust)
        obtain nw where "nodes m w = Some nw" using D(3) as xs by auto
        moreover have "first_ptr ws (Some w) = Some x" using Cons xs by (cases ws) auto
        ultimately show ?thesis using on False n D(2-4) as Nil xs head x
          by (auto simp: renouncePlayer_def node_at_def Let_def link_next_def update_node_def delete_node_def
            set_tail_def removed_def del_heap_def fun_eq_iff tail_of_def head_of_def)
      next
        case (snoc us u)
        obtain nu where u: "nodes m u = Some nu" "\<not> (n_first nu = f \<and> n_last nu = l)"
          using node_entry [OF D(3), of u] neq as snoc by auto
        have "renounce_loop m (first_ptr (zs @ b # ys) None) f l = Some (Ret (m\<lparr>nodes := del_heap (nodes m) (x # zs) b ys\<rparr>, True))"
          using D(3,4) as Cons snoc x n b neq by (intro renounce_loop_eq [of m "Some x" _ _ _ x nx]) auto
        moreover have "n_next nx = first_ptr (zs @ b # ys) None" "n_next nx \<noteq> None" using D(3) as Cons x(1) by (cases zs; auto)+
        ultimately have "renounce_loop m (head_of m ob) f l = Some (Ret (m\<lparr>nodes := del_heap (nodes m) xs b ys\<rparr>, True))"
          using x by (subst renounce_loop.simps) (auto simp: head node_at_def Cons)
        with on False head x u D(2) as snoc show ?thesis
          by (auto simp: renouncePlayer_def node_at_def removed_def head_of_def tail_of_def Cons intro!: exI [of _ "rosters m ob"])
      qed
    qed
    then show ?thesis using represents_removed [OF A assms(2) as] filter False by auto
  qed
qed

subsection \<open>Copies, assignment, exchange\<close>

lemma delete_players_eq:
  "nseg (nodes m) p as None \<Longrightarrow> distinct as \<Longrightarrow>
    delete_players m (first_ptr as None) = Some (Ret (m\<lparr>nodes := nodes m |` (- set as)\<rparr>))"
proof (induction as arbitrary: m p)
  case Nil
  then show ?case by (simp add: delete_players.simps)
next
  case (Cons a as)
  then obtain n where n: "nodes m a = Some n" "n_next n = first_ptr as None" "nseg (nodes m) (Some a) as None" by auto
  have "nseg (nodes (delete_node a m)) (Some a) as None = nseg (nodes m) (Some a) as None"
    using Cons.prems(2) by (intro nseg_frame) (auto simp: delete_node_def)
  with Cons.IH [of "delete_node a m"] n Cons.prems(2)
  have "delete_players m (first_ptr (a # as) None) =
      Some (Ret (delete_node a m\<lparr>nodes := nodes (delete_node a m) |` (- set as)\<rparr>))"
    by (subst delete_players.simps) (auto simp: node_at_def)
  moreover have "nodes (delete_node a m) |` (- set as) = nodes m |` (- set (a # as))"
    by (auto simp: delete_node_def restrict_map_def fun_eq_iff)
  ultimately show ?case by (simp add: delete_node_def)
qed

lemma cleared:
  assumes "layout L m A" and "\<forall>x \<in> L. C x = entries_of (nodes m) (A x)" and "ob \<in> L"
  shows "\<exists>m'. delete_players m (head_of m ob) = Some (Ret m') \<and> head_of m' = head_of m \<and>
    layout (L - {ob}) m' A \<and> (\<forall>x \<in> L - {ob}. C x = entries_of (nodes m') (A x))"
proof (intro exI conjI)
  let ?h = "nodes m |` (- set (A ob))"
  let ?m = "m\<lparr>nodes := ?h\<rparr>"
  note D = layoutD [OF assms(1)]
  show "delete_players m (head_of m ob) = Some (Ret ?m)"
    using delete_players_eq [OF D(3) [OF assms(3)] D(4) [OF assms(3)]] D(1) [OF assms(3)] by simp
  show "head_of ?m = head_of m" by (simp add: head_of_def fun_eq_iff)
  have same: "\<forall>a \<in> set (A x). ?h a = nodes m a" if "x \<in> L - {ob}" for x
    using layout_disjoint [OF assms(1), of x ob] assms(3) that by (auto simp: restrict_map_def)
  have dom: "dom ?h = (\<Union>x \<in> L - {ob}. set (A x))"
  proof -
    have "dom (nodes m) = (\<Union>x \<in> L. set (A x))" using assms(1) unfolding layout_def by simp
    then have "dom ?h = (\<Union>x \<in> L. set (A x)) - set (A ob)" by (simp add: Diff_eq)
    then show ?thesis using layout_disjoint [OF assms(1) _ assms(3)] by auto
  qed
  show "layout (L - {ob}) ?m A"
    unfolding layout_def
  proof (intro conjI ballI impI)
    fix x assume x: "x \<in> L - {ob}"
    then have "x \<in> L" by simp
    note Dx = D [OF this]
    show "head_of ?m x = first_ptr (A x) None" "A x \<noteq> [] \<Longrightarrow> tail_of ?m x = Some (last (A x))" "distinct (A x)"
      using Dx(1,2,4) by (simp_all add: head_of_def tail_of_def)
    show "nseg (nodes ?m) None (A x) None" using nseg_frame [OF same [OF x]] Dx(3) by simp
  next
    fix x y assume "x \<in> L - {ob}" "y \<in> L - {ob}" "x \<noteq> y"
    then show "set (A x) \<inter> set (A y) = {}" using layout_disjoint [OF assms(1), of x y] by simp
  next
    show "dom (nodes ?m) = (\<Union>x \<in> L - {ob}. set (A x))" using dom by simp
  next
    fix a assume "a \<in> dom (nodes ?m)"
    then show "a < next_node ?m" using assms(1) unfolding layout_def by auto
  qed
  show "\<forall>x \<in> L - {ob}. C x = entries_of (nodes ?m) (A x)"
    using assms(2) entries_frame [OF same] by simp
qed

lemma layout_new:
  assumes "layout L m A" and "ob \<notin> L"
  shows "layout (insert ob L) (new_roster ob m) (A(ob := []))"
proof -
  have "nodes (new_roster ob m) = nodes m" "next_node (new_roster ob m) = next_node m"
    "\<And>x. head_of (new_roster ob m) x = (if x = ob then None else head_of m x)"
    "\<And>x. tail_of (new_roster ob m) x = (if x = ob then None else tail_of m x)"
    by (simp_all add: new_roster_def set_head_def set_tail_def head_of_def tail_of_def)
  then show ?thesis using assms unfolding layout_def by (auto split: if_splits)
qed

lemma copy_players_appends:
  assumes "layout L m A" and "\<forall>x \<in> L. C x = entries_of (nodes m) (A x)" and "ob \<in> L" and "src \<in> L" and "src \<noteq> ob"
    and "A src = pre @ as"
  shows "\<exists>m' A'. copy_players m ob (first_ptr as None) = Some (Ret m') \<and> layout L m' A' \<and>
    (\<forall>x \<in> L. (C(ob := C ob @ entries_of (nodes m) as)) x = entries_of (nodes m') (A' x))"
  using assms
proof (induction as arbitrary: m A C pre)
  case Nil
  then show ?case by (intro exI [of _ m] exI [of _ A]) (auto simp: copy_players.simps)
next
  case (Cons a as)
  note D = layoutD [OF Cons.prems(1)]
  obtain n where n: "nodes m a = Some n" "n_next n = first_ptr as None" "entry_of (nodes m) a = ((n_last n, n_first n), n_value n)"
    using D(3) [OF Cons.prems(4)] Cons.prems(6) by (auto simp: entry_of_def)
  obtain m1 where m1: "insertPlayerToRear m ob (n_first n) (n_last n) (n_value n) = Some (Ret m1)"
      "inserted m ob (A ob) [] (entry_of (nodes m) a) m1"
    using insertPlayerToRear_inserted [OF Cons.prems(1,3)] n(3) by metis
  let ?A = "A(ob := A ob @ [next_node m])" and ?C = "C(ob := C ob @ [entry_of (nodes m) a])"
  have l: "layout L m1 ?A" and e: "\<forall>x \<in> L. ?C x = entries_of (nodes m1) (?A x)"
    using inserted_layout(1,2) [OF Cons.prems(1-3) _ m1(2)] Cons.prems(2,3) by simp_all
  have src: "?A src = (pre @ [a]) @ as" using Cons.prems(5,6) by simp
  have "entries_of (nodes m1) (A src) = entries_of (nodes m) (A src)"
    using bspec [OF e Cons.prems(4)] bspec [OF Cons.prems(2,4)] Cons.prems(5) by (simp del: map_eq_conv)
  then have same: "entries_of (nodes m1) as = entries_of (nodes m) as" using Cons.prems(6) by simp
  obtain n1 where "nodes m1 a = Some n1" "n_next n1 = first_ptr as None"
    using layoutD(3) [OF l Cons.prems(4)] src by auto
  then have step: "copy_players m ob (first_ptr (a # as) None) = copy_players m1 ob (first_ptr as None)"
    using n(1) m1(1) by (subst copy_players.simps) (simp add: node_at_def)
  have "?C(ob := ?C ob @ entries_of (nodes m1) as) = C(ob := C ob @ entries_of (nodes m) (a # as))" by (simp add: same)
  with Cons.IH [OF l e Cons.prems(3-5) src] show ?case unfolding step by metis
qed

lemma assign_roster_assigns:
  assumes "represents L m C" and "this \<in> L" and "src \<in> L"
  shows "\<exists>m'. assign_roster m this src = Some (Ret m') \<and> represents L m' (C(this := C src))"
proof -
  obtain A where A: "layout L m A" "\<forall>x \<in> L. C x = entries_of (nodes m) (A x)" using assms(1) unfolding represents_def by blast
  note D = layoutD [OF A(1)]
  show ?thesis
  proof (cases "head_of m this = head_of m src")
    case True
    have "C this = C src"
    proof (cases "this = src")
      case False
      then have "A this = []" "A src = []" using True D(1) [OF assms(2)] D(1) [OF assms(3)] layout_disjoint [OF A(1) assms(2,3)]
        by (auto simp: first_ptr_def split: list.splits)
      then show ?thesis using A(2) assms(2,3) by simp
    qed simp
    with True assms(1) show ?thesis by (auto simp: assign_roster_def fun_upd_idem)
  next
    case False
    then have ne: "src \<noteq> this" by auto
    obtain m1 where m1: "delete_players m (head_of m this) = Some (Ret m1)" "head_of m1 = head_of m"
      "layout (L - {this}) m1 A" "\<forall>x \<in> L - {this}. C x = entries_of (nodes m1) (A x)" using cleared [OF A assms(2)] by blast
    let ?A = "A(this := [])" and ?C = "C(this := [])" and ?m = "new_roster this m1"
    have nodes: "nodes ?m = nodes m1" and head: "head_of ?m src = head_of m src"
      using m1(2) ne by (simp_all add: new_roster_def set_head_def set_tail_def head_of_def fun_eq_iff)
    have l: "layout L ?m ?A" using layout_new [OF m1(3), of this] assms(2) by (simp add: insert_absorb)
    have e: "\<forall>x \<in> L. ?C x = entries_of (nodes ?m) (?A x)" using m1(4) by (simp add: nodes)
    have clear: "(if head_of m this \<noteq> None then delete_players m (head_of m this) else Some (Ret m)) = Some (Ret m1)"
      using m1(1) by (auto simp: delete_players.simps)
    have srcA: "?A src = [] @ A src" using ne by simp
    obtain m2 A2 where m2: "copy_players ?m this (head_of m src) = Some (Ret m2)" "layout L m2 A2"
      "\<forall>x \<in> L. (?C(this := ?C this @ entries_of (nodes ?m) (A src))) x = entries_of (nodes m2) (A2 x)"
      using copy_players_appends [OF l e assms(2,3) ne srcA] unfolding D(1) [OF assms(3)] by blast
    have src: "entries_of (nodes ?m) (A src) = C src" using m1(4) assms(3) ne by (simp add: nodes)
    show ?thesis
    proof (cases "head_of m src = None")
      case True
      then have "C src = []" using D(1) [OF assms(3)] A(2) assms(3) by (cases "A src") auto
      then have "represents L ?m (C(this := C src))" using l e unfolding represents_def by auto
      with False True m1(1) show ?thesis by (auto simp: assign_roster_def)
    next
      case some: False
      have "represents L m2 (C(this := C src))" using m2(2,3) src unfolding represents_def by auto
      with False some clear m2(1) head show ?thesis by (auto simp: assign_roster_def Let_def)
    qed
  qed
qed

lemma new_roster_represents:
  assumes "represents L m C" and "ob \<notin> L"
  shows "represents (insert ob L) (new_roster ob m) (C(ob := []))"
proof -
  obtain A where A: "layout L m A" "\<forall>x \<in> L. C x = entries_of (nodes m) (A x)" using assms(1) unfolding represents_def by blast
  have "nodes (new_roster ob m) = nodes m" by (simp add: new_roster_def set_head_def set_tail_def)
  with layout_new [OF A(1) assms(2)] A(2) show ?thesis unfolding represents_def by (intro exI [of _ "A(ob := [])"]) auto
qed

lemma destroy_roster_represents:
  assumes "represents (insert ob L) m C" and "ob \<notin> L"
  shows "\<exists>m'. destroy_roster m ob = Some (Ret m') \<and> represents L m' C"
proof -
  obtain A where A: "layout (insert ob L) m A" "\<forall>x \<in> insert ob L. C x = entries_of (nodes m) (A x)"
    using assms(1) unfolding represents_def by blast
  from cleared [OF A, of ob] assms(2) show ?thesis unfolding represents_def destroy_roster_def by auto
qed

lemma copy_roster_copies:
  assumes "represents L m C" and "ob \<notin> L" and "src \<in> L"
  shows "\<exists>m'. copy_roster m ob src = Some (Ret m') \<and> represents (insert ob L) m' (C(ob := C src))"
proof -
  let ?m = "new_roster ob m"
  obtain A where A: "layout (insert ob L) ?m A" "\<forall>x \<in> insert ob L. (C(ob := [])) x = entries_of (nodes ?m) (A x)"
    using new_roster_represents [OF assms(1,2)] unfolding represents_def by blast
  have ne: "src \<noteq> ob" using assms(2,3) by auto
  have "head_of m src = first_ptr (A src) None"
    using layoutD(1) [OF A(1), of src] assms(3) ne by (simp add: new_roster_def set_head_def set_tail_def head_of_def)
  with copy_players_appends [OF A insertI1 insertI2 [OF assms(3)] ne, of "[]" "A src"]
  obtain m' A' where m': "copy_players ?m ob (head_of m src) = Some (Ret m')" "layout (insert ob L) m' A'"
    "\<forall>x \<in> insert ob L. (C(ob := [], ob := (C(ob := [])) ob @ entries_of (nodes ?m) (A src))) x = entries_of (nodes m') (A' x)"
    unfolding append_Nil by metis
  moreover have "entries_of (nodes ?m) (A src) = C src" using bspec [OF A(2) insertI2 [OF assms(3)]] ne by (simp del: map_eq_conv)
  ultimately show ?thesis unfolding copy_roster_def represents_def by (intro exI [of _ m'] exI [of _ A'] conjI) (auto simp del: map_eq_conv)
qed

theorem swapRoster_exchanges:
  assumes "represents L m C" and "this \<in> L" and "other \<in> L" and "Temp \<notin> L"
  shows "\<exists>m'. swapRoster m this other = Some (Ret m') \<and> represents L m' (C(this := C other, other := C this))"
proof -
  let ?L = "insert Temp L" and ?C1 = "C(Temp := C other)"
  obtain m1 where m1: "copy_roster m Temp other = Some (Ret m1)" "represents ?L m1 ?C1"
    using copy_roster_copies [OF assms(1,4,3)] by blast
  obtain m2 where m2: "assign_roster m1 other this = Some (Ret m2)" "represents ?L m2 (?C1(other := ?C1 this))"
    using assign_roster_assigns [OF m1(2), of other this] assms(2,3) by auto
  let ?C3 = "?C1(other := ?C1 this, this := (?C1(other := ?C1 this)) Temp)"
  obtain m3 where m3: "assign_roster m2 this Temp = Some (Ret m3)" "represents ?L m3 ?C3"
    using assign_roster_assigns [OF m2(2), of this Temp] assms(2) by auto
  obtain m4 where m4: "destroy_roster m3 Temp = Some (Ret m4)" "represents L m4 ?C3"
    using destroy_roster_represents [OF m3(2) assms(4)] by blast
  have "represents L m4 (C(this := C other, other := C this))"
  proof -
    have "?C3 x = (C(this := C other, other := C this)) x" if "x \<in> L" for x using assms(2-4) that by auto
    with m4(2) show ?thesis unfolding represents_def by auto
  qed
  with m1(1) m2(1) m3(1) m4(1) show ?thesis by (simp add: swapRoster_def)
qed

subsection \<open>Joining and searching\<close>

lemma map_of_fold_sign: "map_of (fold sign_entry xs es) = map_of xs ++ map_of es"
proof (induction xs arbitrary: es)
  case (Cons x xs)
  then show ?case by (cases x) (auto simp: map_of_sign_entry fun_eq_iff map_add_def split: option.splits)
qed simp

lemma key_sorted_fold_sign: "key_sorted es \<Longrightarrow> key_sorted (fold sign_entry xs es)"
  by (induction xs arbitrary: es) (simp_all add: key_sorted_sign_entry)

lemma fold_sign_sorted: "key_sorted xs \<Longrightarrow> fold sign_entry xs [] = xs"
proof (induction xs rule: rev_induct)
  case (snoc x xs)
  then have "\<forall>e \<in> set xs. fst e < fst x" "fold sign_entry xs [] = xs" by (auto simp: sorted_wrt_append)
  moreover from this(1) have "takeWhile (\<lambda>e. fst e < fst x) xs = xs" "dropWhile (\<lambda>e. fst e < fst x) xs = []"
    "map_of xs (fst x) = None" by (auto simp: takeWhile_eq_all_conv map_of_eq_None_iff)
  ultimately have "sign_entry x xs = xs @ [x]" using insort_key_eq [of "fst x" "snd x" xs] by (simp add: sign_entry_def)
  with \<open>fold sign_entry xs [] = xs\<close> show ?case by simp
qed simp

lemma key_sorted_filter: "key_sorted xs \<Longrightarrow> key_sorted (filter p xs)"
  by (simp add: sorted_wrt_map sorted_wrt_filter)

lemma map_of_filter_keys:
  assumes "key_sorted xs"
  shows "map_of (filter p xs) k = (case map_of xs k of None \<Rightarrow> None | Some v \<Rightarrow> if p (k, v) then Some v else None)"
proof -
  have "distinct (map fst xs)" using assms strict_sorted_iff by blast
  then show ?thesis by (induction xs) (auto simp: map_of_eq_None_iff image_iff split: option.splits)
qed

definition clash :: "entry list \<Rightarrow> entry \<Rightarrow> bool" where
  "clash es e \<longleftrightarrow> (case map_of es (fst e) of None \<Rightarrow> False | Some w \<Rightarrow> w \<noteq> snd e)"

lemma join_first_folds:
  assumes "represents (insert Temp L) m C" and "bbOne \<in> L" and "bbTwo \<in> L" and "Temp \<notin> L" and "key_sorted (C Temp)"
    and "i \<le> length (C bbOne)"
  shows "\<exists>m'. join_first m bbOne bbTwo (int i) flag = Some (Ret (m', flag \<or> list_ex (clash (C bbTwo)) (drop i (C bbOne)))) \<and>
    represents (insert Temp L) m' (C(Temp := fold sign_entry (filter (\<lambda>e. \<not> clash (C bbTwo) e) (drop i (C bbOne))) (C Temp)))"
  using assms(1,5,6)
proof (induction "length (C bbOne) - i" arbitrary: m C i flag)
  case 0
  then show ?case using lookup_ops(3) [OF 0(2), of bbOne] assms(2)
    by (subst join_first.simps) simp
next
  case (Suc d)
  let ?e = "C bbOne ! i"
  have i: "i < length (C bbOne)" using Suc(2) by simp
  have drop: "drop i (C bbOne) = ?e # drop (Suc i) (C bbOne)" using i by (simp add: Cons_nth_drop_Suc)
  have ne: "bbOne \<noteq> Temp" "bbTwo \<noteq> Temp" using assms(2-4) by auto
  note ops = lookup_ops [OF Suc(3)]
  have choose: "choosePlayer m bbOne (int i) = Some (Ret (Some (snd (fst ?e), fst (fst ?e), snd ?e)))"
    using ops(4) [of bbOne "int i"] assms(2) i by simp
  have lookup: "lookupPlayer m bbTwo (snd (fst ?e)) (fst (fst ?e)) = Some (Ret (map_of (C bbTwo) (fst ?e)))"
    using ops(1) [of bbTwo] assms(3) by simp
  have many: "howManyPlayers m bbOne = Some (Ret (int (length (C bbOne))))" using ops(3) [of bbOne] assms(2) by simp
  show ?case
  proof (cases "clash (C bbTwo) ?e")
    case True
    then have "join_first m bbOne bbTwo (int i) flag = join_first m bbOne bbTwo (int (Suc i)) True"
      using i by (subst join_first.simps) (auto simp: many choose lookup chosen_def clash_def ac_simps split: option.splits)
    with Suc(1) [of C "Suc i" m True] Suc(2-4) i True show ?thesis by (simp add: drop)
  next
    case False
    obtain m1 where m1: "signPlayer m Temp (snd (fst ?e)) (fst (fst ?e)) (snd ?e) = Some (Ret (m1, map_of (C Temp) (fst ?e) = None))"
        "represents (insert Temp L) m1 (C(Temp := sign_entry ?e (C Temp)))"
      using signPlayer_signs [OF Suc(3) insertI1 Suc(4), of "snd (fst ?e)" "fst (fst ?e)" "snd ?e"] by auto
    have "join_first m bbOne bbTwo (int i) flag = join_first m1 bbOne bbTwo (int (Suc i)) flag"
      using i False by (subst join_first.simps) (auto simp: many choose lookup chosen_def clash_def m1(1) ac_simps split: option.splits)
    with Suc(1) [of "C(Temp := sign_entry ?e (C Temp))" "Suc i" m1 flag] Suc(2,4) i False m1(2) ne show ?thesis
      by (simp add: drop key_sorted_sign_entry)
  qed
qed

lemma join_second_folds:
  assumes "represents (insert Temp L) m C" and "bbOne \<in> L" and "bbTwo \<in> L" and "Temp \<notin> L" and "key_sorted (C Temp)"
    and "i \<le> length (C bbTwo)"
  shows "\<exists>m'. join_second m bbOne bbTwo (int i) = Some (Ret m') \<and>
    represents (insert Temp L) m'
      (C(Temp := fold sign_entry (filter (\<lambda>e. map_of (C bbOne) (fst e) = None) (drop i (C bbTwo))) (C Temp)))"
  using assms(1,5,6)
proof (induction "length (C bbTwo) - i" arbitrary: m C i)
  case 0
  then show ?case using lookup_ops(3) [OF 0(2), of bbTwo] assms(3)
    by (subst join_second.simps) simp
next
  case (Suc d)
  let ?e = "C bbTwo ! i"
  have i: "i < length (C bbTwo)" using Suc(2) by simp
  have drop: "drop i (C bbTwo) = ?e # drop (Suc i) (C bbTwo)" using i by (simp add: Cons_nth_drop_Suc)
  have ne: "bbOne \<noteq> Temp" "bbTwo \<noteq> Temp" using assms(2-4) by auto
  note ops = lookup_ops [OF Suc(3)]
  have choose: "choosePlayer m bbTwo (int i) = Some (Ret (Some (snd (fst ?e), fst (fst ?e), snd ?e)))"
    using ops(4) [of bbTwo "int i"] assms(3) i by simp
  have on: "playerOnRoster m bbOne (snd (fst ?e)) (fst (fst ?e)) = Some (Ret (map_of (C bbOne) (fst ?e) \<noteq> None))"
    using ops(2) [of bbOne] assms(2) by simp
  have many: "howManyPlayers m bbTwo = Some (Ret (int (length (C bbTwo))))" using ops(3) [of bbTwo] assms(3) by simp
  show ?case
  proof (cases "map_of (C bbOne) (fst ?e) = None")
    case False
    then have "join_second m bbOne bbTwo (int i) = join_second m bbOne bbTwo (int (Suc i))"
      using i by (subst join_second.simps) (simp add: many choose on chosen_def ac_simps)
    with Suc(1) [of C "Suc i" m] Suc(2-4) i False show ?thesis by (auto simp: drop)
  next
    case True
    obtain m1 where m1: "signPlayer m Temp (snd (fst ?e)) (fst (fst ?e)) (snd ?e) = Some (Ret (m1, map_of (C Temp) (fst ?e) = None))"
        "represents (insert Temp L) m1 (C(Temp := sign_entry ?e (C Temp)))"
      using signPlayer_signs [OF Suc(3) insertI1 Suc(4), of "snd (fst ?e)" "fst (fst ?e)" "snd ?e"] by auto
    have "join_second m bbOne bbTwo (int i) = join_second m1 bbOne bbTwo (int (Suc i))"
      using i True by (subst join_second.simps) (simp add: many choose on chosen_def m1(1) ac_simps)
    with Suc(1) [of "C(Temp := sign_entry ?e (C Temp))" "Suc i" m1] Suc(2,4) i True m1(2) ne show ?thesis
      by (simp add: drop key_sorted_sign_entry)
  qed
qed

lemma represents_cong: "represents L m C \<Longrightarrow> (\<And>x. x \<in> L \<Longrightarrow> C x = C' x) \<Longrightarrow> represents L m C'"
  unfolding represents_def by fastforce

lemma join_return_assigns:
  assumes "represents (insert Temp L) m C" and "Temp \<notin> L" and "dest \<in> L" and "src \<in> insert Temp L"
  shows "\<exists>m'. join_return b (assign_roster m dest src) = Some (Ret (m', b)) \<and> represents L m' (C(dest := C src))"
proof -
  obtain m1 where m1: "assign_roster m dest src = Some (Ret m1)" "represents (insert Temp L) m1 (C(dest := C src))"
    using assign_roster_assigns [OF assms(1) _ assms(4), of dest] assms(3) by blast
  with destroy_roster_represents [OF m1(2) assms(2)] show ?thesis by (auto simp: join_return_def)
qed

lemma new_Temp:
  assumes "represents L m C" and "Temp \<notin> L"
  shows "represents (insert Temp L) (new_roster Temp m) (C(Temp := []))"
    and "ob \<in> L \<Longrightarrow> rosterEmpty (new_roster Temp m) ob \<longleftrightarrow> C ob = []"
proof -
  show r: "represents (insert Temp L) (new_roster Temp m) (C(Temp := []))" using assms by (rule new_roster_represents)
  then obtain A where A: "layout (insert Temp L) (new_roster Temp m) A"
    "\<forall>x \<in> insert Temp L. (C(Temp := [])) x = entries_of (nodes (new_roster Temp m)) (A x)" unfolding represents_def by blast
  assume "ob \<in> L"
  moreover from this have "ob \<noteq> Temp" using assms(2) by auto
  ultimately show "rosterEmpty (new_roster Temp m) ob \<longleftrightarrow> C ob = []"
    using rosterEmpty_iff [OF A(1), of ob] bspec [OF A(2), of ob] assms(2) by auto
qed

definition joined :: "entry list \<Rightarrow> entry list \<Rightarrow> entry list" where
  "joined xs ys = fold sign_entry (filter (\<lambda>e. map_of xs (fst e) = None) ys) (filter (\<lambda>e. \<not> clash ys e) xs)"

lemma joined_map:
  assumes "key_sorted xs" and "key_sorted ys"
  shows "key_sorted (joined xs ys)"
    and "map_of (joined xs ys) k = (case map_of xs k of None \<Rightarrow> map_of ys k
      | Some v \<Rightarrow> (case map_of ys k of None \<Rightarrow> Some v | Some w \<Rightarrow> if v = w then Some v else None))"
  using assms by (auto simp: joined_def key_sorted_fold_sign key_sorted_filter map_of_fold_sign map_of_filter_keys map_add_def
      clash_def split: option.splits)

theorem joinRosters_joins:
  assumes "represents L m C" and "Temp \<notin> L" and "bbOne \<in> L" and "bbTwo \<in> L" and "bbJoined \<in> L" and "bbOne \<noteq> bbTwo"
    and "C bbOne \<noteq> []" and "C bbTwo \<noteq> []" and "key_sorted (C bbOne)"
  shows "\<exists>m'. joinRosters m bbOne bbTwo bbJoined = Some (Ret (m', \<not> list_ex (clash (C bbTwo)) (C bbOne))) \<and>
    represents L m' (C(bbJoined := joined (C bbOne) (C bbTwo)))"
proof -
  let ?m = "new_roster Temp m" and ?C = "C(Temp := [])"
  have ne: "bbOne \<noteq> Temp" "bbTwo \<noteq> Temp" "bbJoined \<noteq> Temp" using assms(2-5) by auto
  note new = new_Temp [OF assms(1,2)]
  have kept: "fold sign_entry (filter (\<lambda>e. \<not> clash (C bbTwo) e) (C bbOne)) [] = filter (\<lambda>e. \<not> clash (C bbTwo) e) (C bbOne)"
    by (rule fold_sign_sorted [OF key_sorted_filter [OF assms(9)]])
  let ?C1 = "?C(Temp := filter (\<lambda>e. \<not> clash (C bbTwo) e) (C bbOne))"
  obtain m1 where m1: "join_first ?m bbOne bbTwo 0 False = Some (Ret (m1, list_ex (clash (C bbTwo)) (C bbOne)))"
      "represents (insert Temp L) m1 ?C1"
    using join_first_folds [OF new(1) assms(3,4,2), of 0 False] ne kept by auto
  obtain m2 where m2: "join_second m1 bbOne bbTwo 0 = Some (Ret m2)"
      "represents (insert Temp L) m2 (?C1(Temp := joined (C bbOne) (C bbTwo)))"
    using join_second_folds [OF m1(2) assms(3,4,2), of 0] ne key_sorted_filter [OF assms(9)] by (auto simp: joined_def)
  obtain m3 where "join_return (\<not> list_ex (clash (C bbTwo)) (C bbOne)) (assign_roster m2 bbJoined Temp) =
        Some (Ret (m3, \<not> list_ex (clash (C bbTwo)) (C bbOne)))"
      "represents L m3 (?C1(Temp := joined (C bbOne) (C bbTwo), bbJoined := joined (C bbOne) (C bbTwo)))"
    using join_return_assigns [OF m2(2) assms(2,5) insertI1] by auto
  moreover from this(2) have "represents L m3 (C(bbJoined := joined (C bbOne) (C bbTwo)))"
    by (rule represents_cong) (use assms(2) in auto)
  ultimately show ?thesis using new(2) [OF assms(3)] new(2) [OF assms(4)] assms(6-8) m1(1) m2(1)
    by (simp add: joinRosters_def Let_def)
qed

theorem joinRosters_empty:
  assumes "represents L m C" and "Temp \<notin> L" and "bbOne \<in> L" and "bbTwo \<in> L" and "bbJoined \<in> L" and "bbOne \<noteq> bbTwo"
    and "C bbOne = [] \<or> C bbTwo = []"
  shows "\<exists>m'. joinRosters m bbOne bbTwo bbJoined = Some (Ret (m', True)) \<and> represents L m' (C(bbJoined := C bbOne))"
proof -
  note new = new_Temp [OF assms(1,2)]
  define src where "src = (if C bbOne = [] \<and> C bbTwo = [] then Temp else bbOne)"
  have src: "joinRosters m bbOne bbTwo bbJoined = join_return True (assign_roster (new_roster Temp m) bbJoined src)"
    using new(2) [OF assms(3)] new(2) [OF assms(4)] assms(6,7)
    by (cases "C bbOne = []"; cases "C bbTwo = []") (simp_all add: joinRosters_def Let_def src_def)
  have "src \<in> insert Temp L" "(C(Temp := [])) src = C bbOne" using assms(2,3) by (auto simp: src_def)
  note src = src this
  obtain m1 where "joinRosters m bbOne bbTwo bbJoined = Some (Ret (m1, True))"
      "represents L m1 (C(Temp := [], bbJoined := C bbOne))"
    using join_return_assigns [OF new(1) assms(2,5) src(2)] unfolding src(1,3) by blast
  moreover from this(2) have "represents L m1 (C(bbJoined := C bbOne))" by (rule represents_cong) (use assms(2) in auto)
  ultimately show ?thesis by blast
qed

lemma check_loop_folds:
  assumes "represents (insert Temp L) m C" and "bbOne \<in> L" and "Temp \<notin> L" and "key_sorted (C Temp)" and "i \<le> length (C bbOne)"
  shows "\<exists>m'. check_loop m fs ls bbOne (int i) = Some (Ret m') \<and>
    represents (insert Temp L) m'
      (C(Temp := fold sign_entry (filter (\<lambda>e. search_matches fs ls (snd (fst e)) (fst (fst e))) (drop i (C bbOne))) (C Temp)))"
  using assms(1,4,5)
proof (induction "length (C bbOne) - i" arbitrary: m C i)
  case 0
  then show ?case using lookup_ops(3) [OF 0(2), of bbOne] assms(2)
    by (subst check_loop.simps) simp
next
  case (Suc d)
  let ?e = "C bbOne ! i"
  have i: "i < length (C bbOne)" using Suc(2) by simp
  have drop: "drop i (C bbOne) = ?e # drop (Suc i) (C bbOne)" using i by (simp add: Cons_nth_drop_Suc)
  have ne: "bbOne \<noteq> Temp" using assms(2,3) by auto
  note ops = lookup_ops [OF Suc(3)]
  have choose: "choosePlayer m bbOne (int i) = Some (Ret (Some (snd (fst ?e), fst (fst ?e), snd ?e)))"
    using ops(4) [of bbOne "int i"] assms(2) i by simp
  have many: "howManyPlayers m bbOne = Some (Ret (int (length (C bbOne))))" using ops(3) [of bbOne] assms(2) by simp
  show ?case
  proof (cases "search_matches fs ls (snd (fst ?e)) (fst (fst ?e))")
    case False
    then have "check_loop m fs ls bbOne (int i) = check_loop m fs ls bbOne (int (Suc i))"
      using i by (subst check_loop.simps) (simp add: many choose chosen_def ac_simps)
    with Suc(1) [of C "Suc i" m] Suc(2-4) i False show ?thesis by (simp add: drop)
  next
    case True
    obtain m1 where m1: "signPlayer m Temp (snd (fst ?e)) (fst (fst ?e)) (snd ?e) = Some (Ret (m1, map_of (C Temp) (fst ?e) = None))"
        "represents (insert Temp L) m1 (C(Temp := sign_entry ?e (C Temp)))"
      using signPlayer_signs [OF Suc(3) insertI1 Suc(4), of "snd (fst ?e)" "fst (fst ?e)" "snd ?e"] by auto
    have "check_loop m fs ls bbOne (int i) = check_loop m1 fs ls bbOne (int (Suc i))"
      using i True by (subst check_loop.simps) (simp add: many choose chosen_def m1(1) ac_simps)
    with Suc(1) [of "C(Temp := sign_entry ?e (C Temp))" "Suc i" m1] Suc(2,4) i True m1(2) ne show ?thesis
      by (simp add: drop key_sorted_sign_entry)
  qed
qed

theorem checkRoster_filters:
  assumes "represents L m C" and "Temp \<notin> L" and "bbOne \<in> L" and "bbResult \<in> L" and "key_sorted (C bbOne)"
  shows "\<exists>m'. checkRoster m fs ls bbOne bbResult = Some (Ret m') \<and>
    represents L m' (C(bbResult := if fs = ''*'' \<and> ls = ''*'' then C bbOne
      else filter (\<lambda>e. search_matches fs ls (snd (fst e)) (fst (fst e))) (C bbOne)))"
proof -
  let ?m = "new_roster Temp m" and ?C = "C(Temp := [])" and ?p = "\<lambda>e. search_matches fs ls (snd (fst e)) (fst (fst e))"
  have ne: "bbOne \<noteq> Temp" "bbResult \<noteq> Temp" using assms(2-4) by auto
  note new = new_Temp(1) [OF assms(1,2)]
  show ?thesis
  proof (cases "fs = ''*'' \<and> ls = ''*''")
    case True
    obtain m1 where m1: "assign_roster ?m bbResult bbOne = Some (Ret m1)" "represents (insert Temp L) m1 (?C(bbResult := ?C bbOne))"
      using assign_roster_assigns [OF new, of bbResult bbOne] assms(3,4) by blast
    obtain m2 where m2: "destroy_roster m1 Temp = Some (Ret m2)" "represents L m2 (?C(bbResult := ?C bbOne))"
      using destroy_roster_represents [OF m1(2) assms(2)] by blast
    from m2(2) have "represents L m2 (C(bbResult := C bbOne))" by (rule represents_cong) (use assms(2) ne in auto)
    with True m1(1) m2(1) show ?thesis by (simp add: checkRoster_def Let_def)
  next
    case False
    obtain m0 where m0: "check_loop ?m fs ls bbOne 0 = Some (Ret m0)" "represents (insert Temp L) m0 (?C(Temp := filter ?p (C bbOne)))"
      using check_loop_folds [OF new assms(3,2), of 0 fs ls] ne fold_sign_sorted [OF key_sorted_filter [OF assms(5), of ?p]] by auto
    let ?C0 = "?C(Temp := filter ?p (C bbOne))"
    obtain m1 where m1: "assign_roster m0 bbResult Temp = Some (Ret m1)" "represents (insert Temp L) m1 (?C0(bbResult := ?C0 Temp))"
      using assign_roster_assigns [OF m0(2), of bbResult Temp] assms(4) by blast
    obtain m2 where m2: "destroy_roster m1 Temp = Some (Ret m2)" "represents L m2 (?C0(bbResult := ?C0 Temp))"
      using destroy_roster_represents [OF m1(2) assms(2)] by blast
    from m2(2) have "represents L m2 (C(bbResult := filter ?p (C bbOne)))" by (rule represents_cong) (use assms(2) ne in auto)
    with False m0(1) m1(1) m2(1) show ?thesis by (auto simp: checkRoster_def Let_def)
  qed
qed

end
