(* ===== verification/HttpServer.thy ===== *)
theory HttpServer
  imports CLib
begin

text \<open>
  The web server \<open>CS118/project_1/server.cpp\<close>: one request for each connection, answered with the file of
  the current directory whose name it asks for. Sockets, the directory and the files are arguments; files
  are read whole and replies sent whole, and the length of a file is an \<open>int\<close>. Positions in a
  \<open>std::string\<close> have type \<open>size_t\<close> (64 bits), an exception that nobody catches is \<open>Abort\<close>.
\<close>

subsection \<open>Strings\<close>

definition npos :: nat where
  "npos = 2 ^ 64 - 1"

definition size_add :: "nat \<Rightarrow> nat \<Rightarrow> nat" where
  "size_add a b = (a + b) mod 2 ^ 64"

definition size_sub :: "nat \<Rightarrow> nat \<Rightarrow> nat" where
  "size_sub a b = (a + 2 ^ 64 - b) mod 2 ^ 64"

fun starts_with :: "string \<Rightarrow> string \<Rightarrow> bool" where
  "starts_with [] s = True"
| "starts_with (c # p) [] = False"
| "starts_with (c # p) (d # s) = (c = d \<and> starts_with p s)"

fun find_from :: "string \<Rightarrow> string \<Rightarrow> nat \<Rightarrow> nat" where
  "find_from p [] k = (if p = [] then k else npos)"
| "find_from p (c # s) k = (if starts_with p (c # s) then k else find_from p s (Suc k))"

definition find_in :: "string \<Rightarrow> string \<Rightarrow> nat" where
  "find_in s p = find_from p s 0"

definition erase_in :: "string \<Rightarrow> nat \<Rightarrow> nat \<Rightarrow> string outcome" where
  "erase_in s pos n = (if pos > length s then Abort else Ret (take pos s @ drop (pos + n) s))"

definition replace_in :: "string \<Rightarrow> nat \<Rightarrow> nat \<Rightarrow> string \<Rightarrow> string outcome" where
  "replace_in s pos n r = (if pos > length s then Abort else Ret (take pos s @ r @ drop (pos + n) s))"

subsection \<open>The name of the resource\<close>

text \<open>The loop copies up to the line feed and does not look for the end of the string.\<close>

fun first_line :: "string \<Rightarrow> string outcome" where
  "first_line [] = SegFault"
| "first_line (c # cs) = (if c \<noteq> CHR 0x0A then obind (first_line cs) (\<lambda>l. Ret (c # l)) else Ret [])"

partial_function (option) replace_spaces :: "string \<Rightarrow> string outcome option" where
  "replace_spaces filename =
     (let pos = find_in filename ''%20'' in
      if pos \<noteq> npos then obind2 (Some (replace_in filename pos 3 '' '')) replace_spaces
      else Some (Ret filename))"

definition getFileName :: "string \<Rightarrow> string outcome option" where
  "getFileName message =
     obind2 (Some (first_line message)) (\<lambda>filename.
     obind2 (Some (erase_in filename 0 (size_add (find_in filename ''/'') 1))) (\<lambda>filename.
     obind2 (Some (erase_in filename (size_sub (find_in filename ''/'') 5) (size_sub (length filename) 1))) replace_spaces))"

subsection \<open>Searching the directory\<close>

text \<open>
  \<open>string_To_Lowercase\<close> casts the address of the string object to \<open>char *\<close>, so its loop runs over the
  object and not over the characters. How an object lies in memory is up to the library:
  \<open>object_bytes s\<close> is the memory from the address of an object with value \<open>s\<close> on, \<open>object_value\<close> the value
  of the object that lies at the start of some bytes.
\<close>

record string_layout =
  object_bytes :: "string \<Rightarrow> string"
  object_value :: "string \<Rightarrow> string"

fun lower_bytes :: "string \<Rightarrow> string outcome" where
  "lower_bytes [] = SegFault"
| "lower_bytes (c # cs) =
     (if c = CHR 0x00 then Ret (c # cs)
      else obind (lower_bytes cs) (\<lambda>cs. Ret ((if isalpha c then tolower c else c) # cs)))"

definition string_To_Lowercase :: "string_layout \<Rightarrow> string \<Rightarrow> string outcome" where
  "string_To_Lowercase lay s = obind (lower_bytes (object_bytes lay s)) (\<lambda>b. Ret (object_value lay b))"

text \<open>The loop that removes the last extension and its dot.\<close>

function strip_extension :: "string \<Rightarrow> string" where
  "strip_extension s = (if s = [] then [] else if List.last s \<noteq> CHR ''.'' then strip_extension (butlast s) else butlast s)"
  by auto
termination by (relation "measure length") auto

definition entry_matches :: "bool \<Rightarrow> string \<Rightarrow> string \<Rightarrow> bool" where
  "entry_matches ext_flag filename resource =
     (if ext_flag then resource = filename
      else if resource \<noteq> [] \<and> hd resource = CHR ''.'' then False
      else if find_in resource ''.'' \<noteq> npos then strip_extension resource = filename
      else resource = filename)"

fun search_directory :: "string_layout \<Rightarrow> bool \<Rightarrow> string \<Rightarrow> string list \<Rightarrow> string outcome" where
  "search_directory lay ext_flag filename [] = Ret ''404 Error Page''"
| "search_directory lay ext_flag filename (d_name # ds) =
     obind (string_To_Lowercase lay d_name) (\<lambda>resource.
       if entry_matches ext_flag filename resource then Ret resource else search_directory lay ext_flag filename ds)"

definition lookupFile :: "string_layout \<Rightarrow> string list option \<Rightarrow> string \<Rightarrow> string outcome" where
  "lookupFile lay dir filename =
     (case dir of None \<Rightarrow> Exit 1
      | Some ds \<Rightarrow> obind (string_To_Lowercase lay filename) (\<lambda>filename.
          search_directory lay (find_in filename ''.'' \<noteq> npos) filename ds))"

definition get_Extension :: "string \<Rightarrow> string" where
  "get_Extension resource =
     (if resource = ''404 Error Page'' then ''text/html''
      else if find_in resource ''.html'' \<noteq> npos then ''text/html''
      else if find_in resource ''.htm'' \<noteq> npos then ''text/html''
      else if find_in resource ''.txt'' \<noteq> npos then ''text/html''
      else if find_in resource ''.jpg'' \<noteq> npos then ''image/jpg''
      else if find_in resource ''.jpeg'' \<noteq> npos then ''image/jpeg''
      else if find_in resource ''.png'' \<noteq> npos then ''image/png''
      else if find_in resource ''.gif'' \<noteq> npos then ''image/gif''
      else ''application/x-binary'')"

subsection \<open>The response\<close>

definition http_header :: "string \<Rightarrow> int \<Rightarrow> string" where
  "http_header ext fileLen =
     ''HTTP/1.1 200 OK\<newline>Date: yyy\<newline>Server: Zyphr/1.0.0\<newline>Last-Modified: xxx\<newline>ETag: \"56d-9989200-1132c580\"\<newline>Content-Type: '' @ ext @
     ''\<newline>Content-Length: '' @ fmt_d fileLen @ ''\<newline>Accept-Ranges: bytes\<newline>Connection: close\<newline>\<newline>''"

text \<open>
  \<open>snprintf\<close> stores at most 255 characters and a NUL and returns the length of the whole text; the
  file's contents are copied behind that length into the \<open>fileLen + 257\<close> bytes. That sum is an \<open>int\<close>
  and wraps around; \<open>new\<close> of a negative number of bytes throws. A length of - 1 passes as the size of
  a read into an empty array.
\<close>

definition http_reply :: "string \<Rightarrow> string \<Rightarrow> string outcome" where
  "http_reply ext data =
     (let fileLen = to_int32 (int (length data)); n = nat fileLen in
      if to_int32 (fileLen + 257) < 0 \<or> to_int32 (fileLen + 1) < 0 then Abort
      else if fileLen < 0 then SegFault
      else let header = http_header ext fileLen; hlen = length header in
        if hlen + n > n + 257 then SegFault
        else Ret (take 255 header @ replicate (hlen - 255) (CHR 0x00) @ take n data))"

text \<open>
  \<open>web_directory\<close> lists the names in the directory that is searched, \<open>web_file\<close> what \<open>fopen\<close> finds
  under a name, relative to the directory in which the server runs.
\<close>

record web_env =
  web_directory :: "string list option"
  web_file :: "string \<Rightarrow> string option"

definition send_HTTP_Response :: "string_layout \<Rightarrow> web_env \<Rightarrow> string \<Rightarrow> string outcome option" where
  "send_HTTP_Response lay env message =
     obind2 (getFileName message) (\<lambda>temp.
     obind2 (Some (lookupFile lay (web_directory env) temp)) (\<lambda>temp.
       case web_file env temp of None \<Rightarrow> Some (Exit 1)
       | Some data \<Rightarrow> Some (http_reply (get_Extension temp) data)))"

subsection \<open>The accept loop\<close>

text \<open>
  One turn of the loop: \<open>accept\<close> fails, or it returns a socket and \<open>recv\<close> fails or returns bytes. The
  message is what lies in the buffer up to the first NUL, behind the received bytes the old contents of
  the stack. Directory and files may differ from turn to turn.
\<close>

datatype web_event = Accept_fails | Accepted int "string option" string web_env

record web_state =
  open_sockets :: "int list"
  sent :: "(int \<times> string) list"

fun accept_loop :: "string_layout \<Rightarrow> web_state \<Rightarrow> web_event list \<Rightarrow> (web_state \<times> unit outcome) option" where
  "accept_loop lay s [] = Some (s, Ret ())"
| "accept_loop lay s (Accept_fails # es) = accept_loop lay s es"
| "accept_loop lay s (Accepted sock received stack env # es) =
     (let s = s\<lparr>open_sockets := sock # open_sockets s\<rparr> in
      if sock = 0 then accept_loop lay s es
      else case received of
        None \<Rightarrow> accept_loop lay s es
      | Some bytes \<Rightarrow>
          if bytes = [] then Some (s, Exit 1)
          else let message = takeWhile (\<lambda>c. c \<noteq> CHR 0x00) (bytes @ stack) in
            Option.bind (send_HTTP_Response lay env message) (\<lambda>r.
              case r of
                Ret reply \<Rightarrow> accept_loop lay (s\<lparr>sent := sent s @ [(sock, reply)], open_sockets := remove1 sock (open_sockets s)\<rparr>) es
              | Exit c \<Rightarrow> Some (s, Exit c) | SegFault \<Rightarrow> Some (s, SegFault) | DivFault \<Rightarrow> Some (s, DivFault)
              | Abort \<Rightarrow> Some (s, Abort) | Killed k \<Rightarrow> Some (s, Killed k) | Hang \<Rightarrow> Some (s, Hang)))"

definition web_main :: "string_layout \<Rightarrow> bool \<Rightarrow> bool \<Rightarrow> bool \<Rightarrow> web_event list \<Rightarrow> (web_state \<times> unit outcome) option" where
  "web_main lay socket_ok bind_ok listen_ok es =
     (if \<not> socket_ok \<or> \<not> bind_ok \<or> \<not> listen_ok then Some (\<lparr>open_sockets = [], sent = []\<rparr>, Exit 1)
      else accept_loop lay \<lparr>open_sockets = [], sent = []\<rparr> es)"

end
