(* ===== verification/HttpServerProps.thy ===== *)
theory HttpServerProps
  imports HttpServer
begin

text \<open>
  What \<open>server.cpp\<close> does with a request line \<open>m / name HTTP/v\<close>: the name, its lower-case form under the
  layout of short strings in libc++, the entry of the directory, the reply; and the requests that end
  the server.
\<close>

subsection \<open>Searching in strings\<close>

lemma find_from_char:
  "length s + k < npos \<Longrightarrow>
    find_from [c] s k = (if c \<in> set s then k + length (takeWhile (\<lambda>x. x \<noteq> c) s) else npos)"
  by (induction s arbitrary: k) auto

lemma find_in_char:
  "length s < npos \<Longrightarrow> find_in s [c] = (if c \<in> set s then length (takeWhile (\<lambda>x. x \<noteq> c) s) else npos)"
  using find_from_char [of s 0 c] by (simp add: find_in_def)

lemma find_in_first:
  assumes "length (a @ c # b) < npos" and "c \<notin> set a"
  shows "find_in (a @ c # b) [c] = length a"
proof -
  have "takeWhile (\<lambda>x. x \<noteq> c) (a @ c # b) = a" using assms(2) by (induction a) auto
  then show ?thesis using find_in_char [OF assms(1), of c] by simp
qed

lemma size_sub_le: "b \<le> a \<Longrightarrow> a < 2 ^ 64 \<Longrightarrow> size_sub a b = a - b"
  by (simp add: size_sub_def mod_if)

lemma size_sub_wraps: "a < b \<Longrightarrow> b \<le> 2 ^ 64 \<Longrightarrow> size_sub a b = a + 2 ^ 64 - b"
  by (simp add: size_sub_def)

lemma first_line_eq: "CHR 0x0A \<notin> set l \<Longrightarrow> first_line (l @ CHR 0x0A # rest) = Ret l"
  by (induction l) auto

subsection \<open>Spaces\<close>

fun unescape :: "string \<Rightarrow> string" where
  "unescape (c # s) = (if starts_with ''%20'' (c # s) then CHR '' '' # unescape (drop 2 s) else c # unescape s)"
| "unescape [] = []"

lemma starts_with_iff: "starts_with p s \<longleftrightarrow> (\<exists>t. s = p @ t)"
  by (induction p s rule: starts_with.induct) auto

lemma find_from_le: "find_from p s k \<noteq> npos \<Longrightarrow> k \<le> find_from p s k"
  by (induction p s k rule: find_from.induct) (auto split: if_splits)

lemma find_from_Suc: "length s + Suc k < npos \<Longrightarrow> p \<noteq> [] \<Longrightarrow>
    find_from p s (Suc k) = (if find_from p s k = npos then npos else Suc (find_from p s k))"
proof (induction p s k rule: find_from.induct)
  case (2 p c s k)
  then show ?case by auto
qed simp

lemma find_cases:
  assumes "length s < npos"
  obtains (absent) "find_in s ''%20'' = npos" "unescape s = s"
    | (found) a b where "s = a @ ''%20'' @ b" "find_in s ''%20'' = length a" "unescape s = a @ unescape ('' '' @ b)"
        "unescape (a @ '' '' @ b) = a @ unescape ('' '' @ b)"
  using assms
proof (induction s arbitrary: thesis)
  case Nil
  then show ?case by (auto simp: find_in_def)
next
  case (Cons c s)
  show ?case
  proof (cases "starts_with ''%20'' (c # s)")
    case True
    then obtain t where t: "c # s = ''%20'' @ t" unfolding starts_with_iff by blast
    then have "unescape (c # s) = CHR '' '' # unescape t" by simp
    then show ?thesis using Cons.prems(2) [of "[]" t] True t by (auto simp: find_in_def)
  next
    case False
    then have f: "find_in (c # s) ''%20'' = (if find_in s ''%20'' = npos then npos else Suc (find_in s ''%20''))"
      and u: "unescape (c # s) = c # unescape s"
      using find_from_Suc [of s 0 "''%20''"] Cons.prems(3) by (auto simp: find_in_def)
    show ?thesis
    proof (rule Cons.IH)
      assume "find_in s ''%20'' = npos" "unescape s = s"
      then show thesis using Cons.prems(1) f u by simp
    next
      fix a b assume s: "s = a @ ''%20'' @ b" "find_in s ''%20'' = length a" "unescape s = a @ unescape ('' '' @ b)"
        "unescape (a @ '' '' @ b) = a @ unescape ('' '' @ b)"
      have "\<not> starts_with ''%20'' (c # a @ '' '' @ b)"
        using False unfolding s(1) by (cases a; cases "tl a") auto
      then have "unescape (c # a @ '' '' @ b) = c # a @ unescape ('' '' @ b)" using s(4) by auto
      moreover have "find_in (c # s) ''%20'' = Suc (length a)" using s(1,2) f Cons.prems(3) by (auto simp: npos_def)
      ultimately show thesis using Cons.prems(2) [of "c # a" b] u s(1,3) by simp
    qed (use Cons.prems(3) in simp)
  qed
qed

text \<open>Replacing the first \<open>%20\<close> until there is none is decoding from left to right.\<close>

lemma replace_spaces_eq: "length s < npos \<Longrightarrow> replace_spaces s = Some (Ret (unescape s))"
proof (induction s rule: length_induct)
  case (1 s)
  from \<open>length s < npos\<close> show ?case
  proof (cases s rule: find_cases)
    case absent
    then show ?thesis by (subst replace_spaces.simps) simp
  next
    case (found a b)
    have "replace_spaces (a @ '' '' @ b) = Some (Ret (unescape s))"
      using 1 found by (simp add: found(3,4))
    then show ?thesis using found 1(2) by (subst replace_spaces.simps) (auto simp: replace_in_def)
  qed
qed

subsection \<open>The name\<close>

text \<open>A request line \<open>m/name HTTP/v\<close>, for names without a slash.\<close>

definition request :: "string \<Rightarrow> string \<Rightarrow> string \<Rightarrow> string \<Rightarrow> string" where
  "request m name v rest = m @ ''/'' @ name @ '' HTTP/'' @ v @ CHR 0x0A # rest"

definition request_ok :: "string \<Rightarrow> string \<Rightarrow> string \<Rightarrow> bool" where
  "request_ok m name v \<longleftrightarrow> CHR ''/'' \<notin> set m \<union> set name \<and> CHR 0x0A \<notin> set m \<union> set name \<union> set v \<and> name \<noteq> [] \<and>
     length m + length name + length v + 7 < 2 ^ 63"

lemma first_slash:
  assumes "CHR ''/'' \<notin> set m" and "length m + length q + 1 < 2 ^ 63"
  shows "erase_in (m @ CHR ''/'' # q) 0 (size_add (find_in (m @ CHR ''/'' # q) ''/'') 1) = Ret q"
  using assms find_in_first [of m "CHR ''/''" q] by (simp add: erase_in_def size_add_def npos_def)

lemma getFileName_eq:
  assumes "request_ok m name v"
  shows "getFileName (request m name v rest) = Some (Ret (unescape name))"
proof -
  let ?q = "name @ '' HTTP/'' @ v"
  note ok = assms [unfolded request_ok_def]
  have line: "first_line (request m name v rest) = Ret (m @ CHR ''/'' # ?q)"
    using first_line_eq [of "m @ CHR ''/'' # ?q" rest] ok by (simp add: request_def)
  have "find_in ?q ''/'' = length name + 5"
    using find_in_first [of "name @ '' HTTP''" "CHR ''/''" v] ok by (simp add: npos_def)
  then have "erase_in ?q (size_sub (find_in ?q ''/'') 5) (size_sub (length ?q) 1) = Ret name"
    using ok by (cases name) (simp_all add: erase_in_def size_sub_le)
  with line first_slash [of m ?q] ok replace_spaces_eq [of name] show ?thesis by (simp add: getFileName_def npos_def)
qed

text \<open>With a slash among the first five characters of the name, or none at all, \<open>erase\<close> throws an exception.\<close>

lemma getFileName_throws:
  assumes "CHR ''/'' \<notin> set m" and "CHR 0x0A \<notin> set m \<union> set q" and "CHR ''/'' \<in> set (take 5 q) \<or> CHR ''/'' \<notin> set q"
    and "length m + length q + 1 < 2 ^ 63"
  shows "getFileName (m @ CHR ''/'' # q @ CHR 0x0A # rest) = Some Abort"
proof -
  have line: "first_line (m @ CHR ''/'' # q @ CHR 0x0A # rest) = Ret (m @ CHR ''/'' # q)"
    using first_line_eq [of "m @ CHR ''/'' # q" rest] assms(2) by simp
  have "size_sub (find_in q ''/'') 5 > length q"
  proof (cases "CHR ''/'' \<in> set q")
    case True
    then obtain a b where q: "q = a @ CHR ''/'' # b" "CHR ''/'' \<notin> set a" by (auto dest: split_list_first)
    then have "length a < 5" using assms(3) True by (auto simp: take_Cons' dest: in_set_takeD split: if_splits)
    then show ?thesis using find_in_first [of a "CHR ''/''" b] assms(4) q size_sub_wraps [of "length a" 5] by (simp add: npos_def)
  next
    case False
    then show ?thesis using find_in_char [of q "CHR ''/''"] assms(4) size_sub_le [of 5 npos] by (simp add: npos_def)
  qed
  with line first_slash [OF assms(1,4)] show ?thesis by (simp add: getFileName_def erase_in_def)
qed

subsection \<open>Lower case\<close>

text \<open>
  Short strings in libc++: the object starts with a byte that holds twice the length, followed by the
  characters and a NUL.
\<close>

definition libcpp_layout :: "string_layout \<Rightarrow> bool" where
  "libcpp_layout lay \<longleftrightarrow> (\<forall>s. length s \<le> 22 \<longrightarrow>
     (\<exists>tail. object_bytes lay s = char_of (2 * length s) # s @ CHR 0x00 # tail \<and>
       (\<forall>s'. length s' = length s \<longrightarrow> object_value lay (char_of (2 * length s) # s' @ CHR 0x00 # tail) = s')))"

definition short_name :: "string \<Rightarrow> bool" where
  "short_name s \<longleftrightarrow> length s \<le> 22 \<and> cstr s"

lemma lower_bytes_eq:
  "cstr s \<Longrightarrow> lower_bytes (s @ CHR 0x00 # tail) = Ret (map (\<lambda>c. if isalpha c then tolower c else c) s @ CHR 0x00 # tail)"
  by (induction s) auto

lemma lower_alpha: "(if isalpha c then tolower c else c) = tolower c"
  by (auto simp: isalpha_def tolower_def)

lemma length_byte:
  fixes n :: nat
  assumes "n \<le> 22"
  shows "of_char (char_of (2 * n) :: char) = 2 * n" and "\<not> isalpha (char_of (2 * n))"
    and "char_of (2 * n) = CHR 0x00 \<longleftrightarrow> n = 0"
proof -
  show o: "of_char (char_of (2 * n) :: char) = 2 * n" using assms by simp
  then show "\<not> isalpha (char_of (2 * n))" using assms by (auto simp: isalpha_def less_eq_char_def)
  have "char_of (2 * n) = CHR 0x00 \<longleftrightarrow> of_char (char_of (2 * n) :: char) = (of_char (CHR 0x00) :: nat)" by (simp only: of_char_eq_iff)
  then show "char_of (2 * n) = CHR 0x00 \<longleftrightarrow> n = 0" unfolding o by simp
qed

lemma string_To_Lowercase_short:
  assumes "libcpp_layout lay" and "short_name s"
  shows "string_To_Lowercase lay s = Ret (map tolower s)"
proof -
  have len: "length s \<le> 22" and s: "cstr s" using assms(2) by (simp_all add: short_name_def)
  obtain tail where t: "object_bytes lay s = char_of (2 * length s) # s @ CHR 0x00 # tail"
      "\<forall>s'. length s' = length s \<longrightarrow> object_value lay (char_of (2 * length s) # s' @ CHR 0x00 # tail) = s'"
    using assms(1) len unfolding libcpp_layout_def by blast
  show ?thesis
  proof (cases s)
    case Nil
    then show ?thesis using t length_byte(3) [of 0] by (simp add: string_To_Lowercase_def)
  next
    case (Cons c cs)
    then have "length s \<noteq> 0" by simp
    then have "lower_bytes (object_bytes lay s) = Ret (char_of (2 * length s) # map tolower s @ CHR 0x00 # tail)"
      using lower_bytes_eq [OF s, of tail] length_byte(2,3) [OF len] by (simp add: t(1) lower_alpha)
    then show ?thesis using t(2) by (simp add: string_To_Lowercase_def)
  qed
qed

subsection \<open>The directory\<close>

lemma search_directory_eq:
  assumes "libcpp_layout lay" and "\<forall>d \<in> set ds. short_name d"
  shows "search_directory lay flag f ds =
    Ret (case List.find (\<lambda>d. entry_matches flag f (map tolower d)) ds of None \<Rightarrow> ''404 Error Page'' | Some d \<Rightarrow> map tolower d)"
  using assms(2) by (induction ds) (auto simp: string_To_Lowercase_short [OF assms(1)])

lemma lookupFile_present:
  assumes "libcpp_layout lay" and "\<forall>x \<in> set ds. short_name x" and "short_name f" and "CHR ''.'' \<in> set f"
    and "d \<in> set ds" and "map tolower d = map tolower f"
  shows "lookupFile lay (Some ds) f = Ret (map tolower f)"
proof -
  have "tolower (CHR ''.'') = CHR ''.''" by (simp add: tolower_def less_eq_char_def)
  then have "CHR ''.'' \<in> set (map tolower f)" using assms(4) by (metis image_eqI set_map)
  moreover have "length (map tolower f) < npos" using assms(3) by (simp add: short_name_def npos_def)
  ultimately have dot: "find_in (map tolower f) ''.'' \<noteq> npos"
    using find_in_char [of "map tolower f" "CHR ''.''"] length_takeWhile_le [of "\<lambda>x. x \<noteq> CHR ''.''" "map tolower f"] by simp
  have "List.find (\<lambda>d. entry_matches True (map tolower f) (map tolower d)) ds \<noteq> None"
    using assms(5,6) by (auto simp: find_None_iff entry_matches_def)
  then obtain e where e: "List.find (\<lambda>d. entry_matches True (map tolower f) (map tolower d)) ds = Some e" by blast
  then have "map tolower e = map tolower f" by (auto simp: find_Some_iff entry_matches_def)
  with e dot show ?thesis
    using string_To_Lowercase_short [OF assms(1,3)] by (simp add: lookupFile_def search_directory_eq [OF assms(1,2)])
qed

lemma lookupFile_missing:
  assumes "libcpp_layout lay" and "\<forall>x \<in> set ds. short_name x" and "short_name f" and "CHR ''.'' \<in> set f"
    and "\<forall>d \<in> set ds. map tolower d \<noteq> map tolower f"
  shows "lookupFile lay (Some ds) f = Ret ''404 Error Page''"
proof -
  have "tolower (CHR ''.'') = CHR ''.''" by (simp add: tolower_def less_eq_char_def)
  then have "CHR ''.'' \<in> set (map tolower f)" using assms(4) by (metis image_eqI set_map)
  moreover have "length (map tolower f) < npos" using assms(3) by (simp add: short_name_def npos_def)
  ultimately have dot: "find_in (map tolower f) ''.'' \<noteq> npos"
    using find_in_char [of "map tolower f" "CHR ''.''"] length_takeWhile_le [of "\<lambda>x. x \<noteq> CHR ''.''" "map tolower f"] by simp
  have "List.find (\<lambda>d. entry_matches True (map tolower f) (map tolower d)) ds = None"
    using assms(5) by (auto simp: find_None_iff entry_matches_def)
  with dot show ?thesis
    using string_To_Lowercase_short [OF assms(1,3)] by (simp add: lookupFile_def search_directory_eq [OF assms(1,2)])
qed

subsection \<open>The reply\<close>

lemma length_get_Extension: "length (get_Extension s) \<le> 20"
  by (simp add: get_Extension_def)

lemma http_header_fits:
  assumes "0 \<le> n" and "n < 2 ^ 31"
  shows "length (http_header (get_Extension s) n) < 256"
proof -
  have "length (fmt_d n) \<le> 10"
    using length_show_base_less [of 10 "nat n" 10] assms by (simp add: fmt_d_def)
  then show ?thesis using length_get_Extension [of s] by (simp add: http_header_def)
qed

lemma http_reply_eq:
  assumes "int (length data) < 2 ^ 31 - 257"
  shows "http_reply (get_Extension s) data = Ret (http_header (get_Extension s) (int (length data)) @ data)"
proof -
  have len: "to_int32 (int (length data)) = int (length data)" "to_int32 (int (length data) + 257) = int (length data) + 257"
    "to_int32 (int (length data) + 1) = int (length data) + 1"
    using assms by (intro to_int32_id; simp)+
  then show ?thesis using http_header_fits [of "int (length data)" s] assms by (simp add: http_reply_def Let_def)
qed

text \<open>A file of \<open>2 ^ 31 - 257\<close> to \<open>2 ^ 31 - 1\<close> bytes ends the server.\<close>

lemma http_reply_overflows:
  assumes "2 ^ 31 - 257 \<le> int (length data)" and "int (length data) < 2 ^ 31"
  shows "http_reply ext data = Abort"
proof -
  have "to_int32 (int (length data) + 257) = int (length data) + 257 - 2 ^ 32"
    using assms mod_shift [of "int (length data) + 257 + 2 ^ 31" "- 1" "2 ^ 32"] by (simp add: to_int32_eq)
  then show ?thesis using assms by (simp add: http_reply_def Let_def)
qed

subsection \<open>Serving\<close>

text \<open>
  \<open>file_served env name reply\<close>: the directory has a file \<open>d\<close> with this name up to case, with an
  extension; \<open>d\<close> can be opened, also by its name in lower case because it is written so or because
  the file system ignores case; \<open>reply\<close> is its header and contents.
\<close>

definition file_served :: "web_env \<Rightarrow> string \<Rightarrow> string \<Rightarrow> bool" where
  "file_served env name reply \<longleftrightarrow>
     (\<exists>ds d data. web_directory env = Some ds \<and> (\<forall>x \<in> set ds. short_name x) \<and> short_name name \<and> CHR ''.'' \<in> set name \<and>
       d \<in> set ds \<and> map tolower d = map tolower name \<and> web_file env d = Some data \<and>
       (map tolower d = d \<or> (\<forall>f. web_file env f = web_file env (map tolower f))) \<and> int (length data) < 2 ^ 31 - 257 \<and>
       reply = http_header (get_Extension (map tolower name)) (int (length data)) @ data)"

lemma send_HTTP_Response_serves:
  assumes "libcpp_layout lay" and "request_ok m name v" and "file_served env (unescape name) reply"
  shows "send_HTTP_Response lay env (request m name v rest) = Some (Ret reply)"
proof -
  from assms(3) obtain ds d data where env: "web_directory env = Some ds" "\<forall>x \<in> set ds. short_name x"
    and n: "short_name (unescape name)" "CHR ''.'' \<in> set (unescape name)" "d \<in> set ds" "map tolower d = map tolower (unescape name)"
    and d: "web_file env d = Some data" "map tolower d = d \<or> (\<forall>f. web_file env f = web_file env (map tolower f))"
    and r: "int (length data) < 2 ^ 31 - 257"
      "reply = http_header (get_Extension (map tolower (unescape name))) (int (length data)) @ data"
    unfolding file_served_def by blast
  have "web_file env (map tolower (unescape name)) = Some data" using d n(4) by metis
  then show ?thesis
    using lookupFile_present [OF assms(1) env(2) n] getFileName_eq [OF assms(2), of rest] env(1) r
    by (simp add: send_HTTP_Response_def http_reply_eq)
qed

definition served :: "web_event \<Rightarrow> int \<times> string \<Rightarrow> bool" where
  "served e r \<longleftrightarrow>
     (\<exists>m name v rest stack env. e = Accepted (fst r) (Some (request m name v rest)) stack env \<and> fst r \<noteq> 0 \<and>
       request_ok m name v \<and> cstr (m @ name @ v) \<and> file_served env (unescape name) (snd r))"

lemma message_of_request:
  assumes "cstr (m @ name @ v)"
  shows "\<exists>rest'. takeWhile (\<lambda>c. c \<noteq> CHR 0x00) (request m name v rest @ stack) = request m name v rest'"
proof -
  have "takeWhile (\<lambda>c. c \<noteq> CHR 0x00) (a @ b) = a @ takeWhile (\<lambda>c. c \<noteq> CHR 0x00) b" if "cstr a" for a b
    using that by (induction a) auto
  from this [of "m @ ''/'' @ name @ '' HTTP/'' @ v @ [CHR 0x0A]" "rest @ stack"] assms show ?thesis
    by (auto simp: request_def cstr_def)
qed

lemma accept_loop_serves:
  assumes "libcpp_layout lay" and "list_all2 served es rs"
  shows "accept_loop lay s (es @ rest) = accept_loop lay (s\<lparr>sent := sent s @ rs\<rparr>) rest"
  using assms(2)
proof (induction es rs arbitrary: s rule: list_all2_induct)
  case (Cons e es r rs)
  obtain m name v more stack env where e: "e = Accepted (fst r) (Some (request m name v more)) stack env" "fst r \<noteq> 0"
    "request_ok m name v" "cstr (m @ name @ v)" "file_served env (unescape name) (snd r)" using Cons(1) unfolding served_def by blast
  obtain more' where msg: "takeWhile (\<lambda>c. c \<noteq> CHR 0x00) (request m name v more @ stack) = request m name v more'"
    using message_of_request [OF e(4)] by blast
  have "request m name v more \<noteq> []" by (simp add: request_def)
  then have "accept_loop lay s ((e # es) @ rest) = accept_loop lay (s\<lparr>sent := sent s @ [r]\<rparr>) (es @ rest)"
    using e(1,2) send_HTTP_Response_serves [OF assms(1) e(3,5), of more'] by (simp add: msg Let_def)
  then show ?case using Cons.IH [of "s\<lparr>sent := sent s @ [r]\<rparr>"] by simp
qed simp

text \<open>The requests on which the server ends itself, whatever the other clients want.\<close>

definition ends_server :: "web_event \<Rightarrow> unit outcome \<Rightarrow> bool" where
  "ends_server e r \<longleftrightarrow>
     (\<exists>sock stack env. sock \<noteq> 0 \<and>
       (e = Accepted sock (Some []) stack env \<and> r = Exit 1 \<or>
        (\<exists>m q more. e = Accepted sock (Some (m @ CHR ''/'' # q @ CHR 0x0A # more)) stack env \<and> r = Abort \<and> cstr (m @ q) \<and>
          CHR ''/'' \<notin> set m \<and> CHR 0x0A \<notin> set m \<union> set q \<and> (CHR ''/'' \<in> set (take 5 q) \<or> CHR ''/'' \<notin> set q) \<and>
          length m + length q + 1 < 2 ^ 63)))"

lemma accept_loop_ends:
  assumes "ends_server e r"
  shows "\<exists>s'. accept_loop lay s (e # rest) = Some (s', r) \<and> sent s' = sent s"
proof -
  obtain sock stack env where sock: "sock \<noteq> 0" and cases: "e = Accepted sock (Some []) stack env \<and> r = Exit 1 \<or>
        (\<exists>m q more. e = Accepted sock (Some (m @ CHR ''/'' # q @ CHR 0x0A # more)) stack env \<and> r = Abort \<and> cstr (m @ q) \<and>
          CHR ''/'' \<notin> set m \<and> CHR 0x0A \<notin> set m \<union> set q \<and> (CHR ''/'' \<in> set (take 5 q) \<or> CHR ''/'' \<notin> set q) \<and>
          length m + length q + 1 < 2 ^ 63)" using assms unfolding ends_server_def by blast
  from cases consider (closed) "e = Accepted sock (Some []) stack env" "r = Exit 1"
    | (slash) m q more where "e = Accepted sock (Some (m @ CHR ''/'' # q @ CHR 0x0A # more)) stack env" "r = Abort"
        "cstr (m @ q)" "CHR ''/'' \<notin> set m" "CHR 0x0A \<notin> set m \<union> set q" "CHR ''/'' \<in> set (take 5 q) \<or> CHR ''/'' \<notin> set q"
        "length m + length q + 1 < 2 ^ 63" by blast
  then show ?thesis
  proof cases
    case closed
    with sock show ?thesis by (simp add: Let_def)
  next
    case slash
    note q = slash(3-7)
    have "takeWhile (\<lambda>c. c \<noteq> CHR 0x00) (a @ b) = a @ takeWhile (\<lambda>c. c \<noteq> CHR 0x00) b" if "cstr a" for a b
      using that by (induction a) auto
    from this [of "m @ CHR ''/'' # q @ [CHR 0x0A]" "more @ stack"] q(1)
    have "takeWhile (\<lambda>c. c \<noteq> CHR 0x00) ((m @ CHR ''/'' # q @ CHR 0x0A # more) @ stack) =
        m @ CHR ''/'' # q @ CHR 0x0A # takeWhile (\<lambda>c. c \<noteq> CHR 0x00) (more @ stack)" by (simp add: cstr_def)
    with slash(1,2) sock getFileName_throws [OF q(2-5)] show ?thesis
      by (simp add: Let_def send_HTTP_Response_def del: takeWhile_append takeWhile.simps)
  qed
qed

end
