(* ===== verification/Decrypt.thy ===== *)
theory Decrypt
  imports CLib
begin

text \<open>
  The decryption exercise \<open>CS31/project5/decrypt.cpp\<close>. A C string is the list of its characters, which a
  NUL follows; arrays are lists. An access outside an array faults. Memory that is allocated and not
  written is a parameter. Output to \<open>cerr\<close> is left out.
\<close>

subsection \<open>Arrays\<close>

definition char_in :: "string \<Rightarrow> int \<Rightarrow> char outcome" where
  "char_in s k = (if 0 \<le> k \<and> k < int (length s) then Ret (s ! nat k) else if k = int (length s) then Ret (CHR 0x00) else SegFault)"

definition elem_at :: "'a list \<Rightarrow> int \<Rightarrow> 'a outcome" where
  "elem_at xs k = (if 0 \<le> k \<and> k < int (length xs) then Ret (xs ! nat k) else SegFault)"

definition c_strlen :: "string \<Rightarrow> int outcome" where
  "c_strlen a = (if CHR 0x00 \<in> set a then Ret (int (length (takeWhile (\<lambda>c. c \<noteq> CHR 0x00) a))) else SegFault)"

definition nCols_words :: nat where
  "nCols_words = 81"

subsection \<open>Words\<close>

fun countWords :: "string \<Rightarrow> int" where
  "countWords [] = 0"
| "countWords [c] = (if isalpha c then 1 else 0)"
| "countWords (c # d # cs) = (if isalpha c \<and> \<not> isalpha d then 1 else 0) + countWords (d # cs)"

text \<open>
  One row of \<open>createWordArray\<close> from column \<open>j\<close> on. The third of the cases for a character that is neither
  a letter nor a newline repeats the condition of the second and is never reached.
\<close>

function fill_row :: "string \<Rightarrow> nat \<Rightarrow> string \<Rightarrow> int \<Rightarrow> (string \<times> int) outcome" where
  "fill_row cstring j row place =
     (if j \<ge> nCols_words then Ret (row, place)
      else obind (char_in cstring place) (\<lambda>c.
        if isalpha c then fill_row cstring (Suc j) (row[j := c]) (place + 1)
        else if c = CHR 0x0A
        then obind (char_in cstring (place - 1)) (\<lambda>prev.
          if isalpha prev then Ret (row[j := CHR ''*''], place + 1)
          else fill_row cstring (Suc j) (row[j := CHR ''*'']) (place + 1))
        else if j = 0 \<or> row ! (j - 1) = CHR ''*'' then fill_row cstring (Suc j) (row[j := CHR ''.'']) (place + 1)
        else obind (char_in cstring (place - 1)) (\<lambda>prev.
          if \<not> isalpha prev then fill_row cstring (Suc j) row (place + 1)
          else Ret (row[j := CHR 0x00], place + 1))))"
  by auto
termination by (relation "measure (\<lambda>(_, j, _, _). nCols_words - j)") auto

fun fill_rows_from :: "string \<Rightarrow> nat \<Rightarrow> int \<Rightarrow> string list outcome" where
  "fill_rows_from cstring 0 place = Ret []"
| "fill_rows_from cstring (Suc nRows) place =
     obind (fill_row cstring 0 (replicate nCols_words (CHR 0x00)) place) (\<lambda>r.
     obind (fill_rows_from cstring nRows (snd r)) (\<lambda>rows. Ret (fst r # rows)))"

definition createWordArray :: "string \<Rightarrow> string list outcome" where
  "createWordArray cstring = fill_rows_from cstring (nat (countWords cstring)) 0"

text \<open>An entry of the array of lengths is not written when its row has no NUL.\<close>

definition word_length :: "int \<Rightarrow> string \<Rightarrow> int" where
  "word_length old row =
     (if CHR 0x00 \<in> set row then int (length (filter isalpha (takeWhile (\<lambda>c. c \<noteq> CHR 0x00) row))) else old)"

definition wordOrder :: "(nat \<Rightarrow> int) \<Rightarrow> string list \<Rightarrow> string \<Rightarrow> int list outcome" where
  "wordOrder junk cipherWords ciphertext =
     (if int (length cipherWords) < countWords ciphertext then SegFault
      else Ret (map (\<lambda>k. word_length (junk k) (cipherWords ! k)) [0..<nat (countWords ciphertext)]))"

subsection \<open>Letters\<close>

definition row_letters :: "string \<Rightarrow> string" where
  "row_letters row = filter isalpha (takeWhile (\<lambda>c. c \<noteq> CHR 0x00) row)"

definition justLetters :: "int \<Rightarrow> string list \<Rightarrow> string \<Rightarrow> string outcome" where
  "justLetters starPos wordsArray text =
     (let nRows = nat (countWords text) in
      if nRows > 0 \<and> (starPos < 0 \<or> starPos + int nRows > int (length wordsArray)) then SegFault
      else let letters = concat (map row_letters (take nRows (drop (nat starPos) wordsArray))) in
        Ret (letters @ replicate (nCols_words * nRows - length letters) (CHR 0x00)))"

definition same_letter :: "string \<Rightarrow> int \<Rightarrow> int \<Rightarrow> bool outcome" where
  "same_letter a k j = obind (elem_at a k) (\<lambda>x. obind (elem_at a j) (\<lambda>y. Ret (toupper x = toupper y)))"

fun simple_from :: "string \<Rightarrow> string \<Rightarrow> int \<Rightarrow> int list \<Rightarrow> bool outcome" where
  "simple_from a b k [] = Ret True"
| "simple_from a b k (j # js) =
     (if k \<noteq> j
      then obind (same_letter a k j) (\<lambda>sa. obind (if sa then same_letter b k j else Ret True) (\<lambda>ok.
        if \<not> ok then Ret False
        else obind (same_letter b k j) (\<lambda>sb. obind (if sb then same_letter a k j else Ret True) (\<lambda>ok.
          if \<not> ok then Ret False else simple_from a b k js))))
      else simple_from a b k js)"

fun simple_rows :: "string \<Rightarrow> string \<Rightarrow> int \<Rightarrow> int list \<Rightarrow> bool outcome" where
  "simple_rows a b n [] = Ret True"
| "simple_rows a b n (k # ks) =
     obind (simple_from a b k [k..n - 1]) (\<lambda>ok. if ok then simple_rows a b n ks else Ret False)"

definition isSimpleSub :: "string \<Rightarrow> string \<Rightarrow> bool outcome" where
  "isSimpleSub a b = obind (c_strlen a) (\<lambda>n. simple_rows a b n [0..n - 1])"

definition newline_in_row :: "string list \<Rightarrow> int \<Rightarrow> int \<Rightarrow> int \<Rightarrow> bool outcome" where
  "newline_in_row cipherWords startRow nRows k =
     obind (elem_at cipherWords k) (\<lambda>row.
       Ret (list_ex (\<lambda>j. row ! j = CHR ''*'' \<and> \<not> (k = startRow \<and> j = 0) \<and> \<not> (k = nRows - 1 \<and> j = nCols_words - 1)) [0..<nCols_words]))"

fun newline_rows :: "string list \<Rightarrow> int \<Rightarrow> int \<Rightarrow> int list \<Rightarrow> bool outcome" where
  "newline_rows cipherWords startRow nRows [] = Ret False"
| "newline_rows cipherWords startRow nRows (k # ks) =
     obind (newline_in_row cipherWords startRow nRows k) (\<lambda>b. if b then Ret True else newline_rows cipherWords startRow nRows ks)"

definition containsNewline :: "string list \<Rightarrow> int \<Rightarrow> int \<Rightarrow> bool outcome" where
  "containsNewline cipherWords startRow nRows = newline_rows cipherWords startRow nRows [startRow..startRow + nRows - 1]"

subsection \<open>The search for a match\<close>

text \<open>How the inner loop ends: at its end, by \<open>break\<close> with the new value of \<open>i\<close>, or by \<open>return\<close>.\<close>

datatype inner_end = Inner_done int | Inner_break int int int | Inner_return int

definition tested ::
  "string list \<Rightarrow> string list \<Rightarrow> string \<Rightarrow> string \<Rightarrow> int \<Rightarrow> int \<Rightarrow> inner_end outcome" where
  "tested cipherWords cribWords cribText justCribLetters nCrib pos =
     (let startPos = pos - nCrib in
      obind (justLetters startPos cipherWords cribText) (\<lambda>justCipherLetters.
      obind (containsNewline cipherWords startPos nCrib) (\<lambda>nl.
        if nl then Ret (Inner_break (- 1) (pos - (nCrib - 1)) nCrib)
        else obind (isSimpleSub justCipherLetters justCribLetters) (\<lambda>simple.
          if \<not> simple then Ret (Inner_break (- 1) (pos - (nCrib - 1)) nCrib) else Ret (Inner_return startPos)))))"

fun match_words ::
  "int list \<Rightarrow> int list \<Rightarrow> string list \<Rightarrow> string list \<Rightarrow> string \<Rightarrow> string \<Rightarrow> int \<Rightarrow> int \<Rightarrow> int \<Rightarrow> int list \<Rightarrow> inner_end outcome" where
  "match_words cipherLens cribLens cipherWords cribWords cribText justCrib nCrib i cnt [] = Ret (Inner_done cnt)"
| "match_words cipherLens cribLens cipherWords cribWords cribText justCrib nCrib i cnt (j # js) =
     obind (elem_at cipherLens j) (\<lambda>x. obind (elem_at cribLens i) (\<lambda>y.
       if x = y
       then if cnt - 1 = 0 then tested cipherWords cribWords cribText justCrib nCrib (j + 1)
            else Ret (Inner_break i (j + 1) (cnt - 1))
       else obind (elem_at cipherLens i) (\<lambda>x'. obind (elem_at cribLens j) (\<lambda>y'.
            match_words cipherLens cribLens cipherWords cribWords cribText justCrib nCrib i (if x' \<noteq> y' then nCrib else cnt) js))))"

partial_function (option) match_loop ::
  "int list \<Rightarrow> int list \<Rightarrow> string list \<Rightarrow> string list \<Rightarrow> string \<Rightarrow> string \<Rightarrow> int \<Rightarrow> int \<Rightarrow> int \<Rightarrow> int \<Rightarrow> int \<Rightarrow> int outcome option" where
  "match_loop cipherLens cribLens cipherWords cribWords cribText justCrib nCipher nCrib i pos cnt =
     (if \<not> i < nCrib then Some (Ret (- 1))
      else obind2 (Some (match_words cipherLens cribLens cipherWords cribWords cribText justCrib nCrib i cnt [pos..nCipher - 1])) (\<lambda>e.
        case e of
          Inner_done cnt \<Rightarrow> match_loop cipherLens cribLens cipherWords cribWords cribText justCrib nCipher nCrib (i + 1) (max pos nCipher) cnt
        | Inner_break i pos cnt \<Rightarrow> match_loop cipherLens cribLens cipherWords cribWords cribText justCrib nCipher nCrib (i + 1) pos cnt
        | Inner_return r \<Rightarrow> Some (Ret r)))"

declare match_loop.simps [code]

definition findMatch ::
  "int list \<Rightarrow> int list \<Rightarrow> string list \<Rightarrow> string list \<Rightarrow> string \<Rightarrow> string \<Rightarrow> int outcome option" where
  "findMatch cipherLens cribLens cipherWords cribWords cipherText cribText =
     obind2 (Some (justLetters 0 cribWords cribText)) (\<lambda>justCrib.
       match_loop cipherLens cribLens cipherWords cribWords cribText justCrib (countWords cipherText) (countWords cribText) 0 0
         (countWords cribText))"

subsection \<open>The exchange of letters\<close>

fun exchange_letter :: "string \<Rightarrow> string \<Rightarrow> nat \<Rightarrow> nat \<Rightarrow> char \<Rightarrow> char" where
  "exchange_letter cipherKey cribKey 0 j c = c"
| "exchange_letter cipherKey cribKey (Suc n) j c =
     (if toupper c = toupper (cipherKey ! j) then cribKey ! j else exchange_letter cipherKey cribKey n (Suc j) (tolower c))"

text \<open>Both keys are at least \<open>len\<close> long where the function is called.\<close>

definition exchangeLetters :: "string \<Rightarrow> string \<Rightarrow> string \<Rightarrow> nat \<Rightarrow> string outcome" where
  "exchangeLetters cipherKey cribKey text len =
     (if len > length cipherKey \<or> len > length cribKey then SegFault
      else Ret (map (\<lambda>c. if isalpha c then exchange_letter cipherKey cribKey len 0 c else c) text))"

definition decrypt :: "(nat \<Rightarrow> int) \<Rightarrow> (nat \<Rightarrow> int) \<Rightarrow> string \<Rightarrow> string \<Rightarrow> (bool \<times> string) outcome option" where
  "decrypt junk1 junk2 ciphertext crib =
     (if crib = [] \<or> length crib > length ciphertext \<or> length crib > 80 \<or> countWords crib > countWords ciphertext
        \<or> length ciphertext = 1 \<and> \<not> list_ex isalpha ciphertext then Some (Ret (False, []))
      else obind2 (Some (createWordArray ciphertext)) (\<lambda>cipherWords.
        obind2 (Some (createWordArray crib)) (\<lambda>cribWords.
        obind2 (Some (wordOrder junk1 cipherWords ciphertext)) (\<lambda>cipherLens.
        obind2 (Some (wordOrder junk2 cribWords crib)) (\<lambda>cribLens.
        obind2 (findMatch cipherLens cribLens cipherWords cribWords ciphertext crib) (\<lambda>start.
          if start = - 1 then Some (Ret (False, []))
          else obind2 (Some (justLetters 0 cribWords crib)) (\<lambda>cribKey.
            obind2 (Some (justLetters start cipherWords crib)) (\<lambda>cipherKey.
            obind2 (Some (c_strlen cribKey)) (\<lambda>n.
            obind2 (Some (exchangeLetters cipherKey (map toupper (take (nat n) cribKey) @ drop (nat n) cribKey) ciphertext (nat n)))
              (\<lambda>text. Some (Ret (True, text))))))))))))"

subsection \<open>The program\<close>

definition testcipher :: string where
  "testcipher = ''Vlghjl'' @ CHR 0x0A # ''.hj oiup mgak zfefyfekt kyy.'' @ CHR 0x0A # ''Ifk!'' @ CHR 0x0A # '' cddceb cd ncpq''"

definition testcrib :: string where
  "testcrib = ''Attack at dawn!''"

definition decrypt_main :: "(nat \<Rightarrow> int) \<Rightarrow> (nat \<Rightarrow> int) \<Rightarrow> (bool \<times> string) outcome option" where
  "decrypt_main junk1 junk2 = decrypt junk1 junk2 testcipher testcrib"

end
