(* ===== verification/DecryptProps.thy ===== *)
theory DecryptProps
  imports Decrypt
begin

text \<open>
  What \<open>decrypt.cpp\<close> does on texts whose words stand one character apart: the words are found, the
  substitution test is one-to-one correspondence of letters, a crib that matches at the start is used
  as the key, and a crib whose first word matches none of the first words makes the search read behind
  the array of the crib's lengths.
\<close>

subsection \<open>Words\<close>

fun sentence :: "string list \<Rightarrow> string \<Rightarrow> string" where
  "sentence [] cs = []"
| "sentence [w] cs = w"
| "sentence (w # x # ws) cs = w @ (case cs of [] \<Rightarrow> CHR '' '' | c # _ \<Rightarrow> c) # sentence (x # ws) (tl cs)"

definition plain_word :: "string \<Rightarrow> bool" where
  "plain_word w \<longleftrightarrow> w \<noteq> [] \<and> list_all isalpha w \<and> length w < nCols_words"

definition plain_gaps :: "string \<Rightarrow> bool" where
  "plain_gaps cs \<longleftrightarrow> list_all (\<lambda>c. \<not> isalpha c \<and> c \<noteq> CHR 0x0A \<and> c \<noteq> CHR 0x00) cs"

definition padded_row :: "string \<Rightarrow> string" where
  "padded_row w = w @ replicate (nCols_words - length w) (CHR 0x00)"

lemma special_not_alpha: "\<not> isalpha (CHR 0x00)" "\<not> isalpha (CHR ''*'')" "\<not> isalpha (CHR 0x0A)" "\<not> isalpha (CHR '' '')"
  by (simp_all add: isalpha_def less_eq_char_def)

lemma countWords_nonneg: "countWords s \<ge> 0"
  by (induction s rule: countWords.induct) auto

lemma countWords_run:
  "w \<noteq> [] \<Longrightarrow> list_all isalpha w \<Longrightarrow> \<not> isalpha c \<Longrightarrow> countWords (w @ c # s) = 1 + countWords (c # s)"
proof (induction w)
  case (Cons a w)
  then show ?case by (cases w) auto
qed simp

lemma countWords_gap: "\<not> isalpha c \<Longrightarrow> countWords (c # s) = countWords s"
  by (cases s) auto

lemma countWords_last: "w \<noteq> [] \<Longrightarrow> list_all isalpha w \<Longrightarrow> countWords w = 1"
proof (induction w)
  case (Cons a w)
  then show ?case by (cases w) auto
qed simp

lemma gaps_head: "plain_gaps cs \<Longrightarrow> \<not> isalpha (case cs of [] \<Rightarrow> CHR '' '' | c # _ \<Rightarrow> c) \<and> (case cs of [] \<Rightarrow> CHR '' '' | c # _ \<Rightarrow> c) \<noteq> CHR 0x0A"
  by (cases cs) (auto simp: plain_gaps_def special_not_alpha)

lemma gaps_tl: "plain_gaps cs \<Longrightarrow> plain_gaps (tl cs)"
  by (cases cs) (auto simp: plain_gaps_def)

lemma countWords_sentence: "list_all plain_word ws \<Longrightarrow> plain_gaps cs \<Longrightarrow> countWords (sentence ws cs) = int (length ws)"
proof (induction ws cs rule: sentence.induct)
  case (3 w x ws cs)
  then show ?case using gaps_head [OF 3(3)] gaps_tl [OF 3(3)]
    by (simp add: countWords_run countWords_gap plain_word_def)
qed (simp_all add: countWords_last plain_word_def)

lemma fill_row_word:
  assumes "cstring = pre @ w @ rest" and "plain_word w" and "rest = [] \<or> \<not> isalpha (hd rest) \<and> hd rest \<noteq> CHR 0x0A" and "j \<le> length w"
  shows "fill_row cstring j (take j w @ replicate (nCols_words - j) (CHR 0x00)) (int (length pre + j)) =
    Ret (padded_row w, int (length pre + length w + 1))"
  using assms(4)
proof (induction "length w - j" arbitrary: j)
  case 0
  then have j: "j = length w" by simp
  have w: "w \<noteq> []" "list_all isalpha w" "length w < nCols_words" using assms(2) by (simp_all add: plain_word_def)
  obtain c where c: "char_in cstring (int (length pre + length w)) = Ret c" "\<not> isalpha c" "c \<noteq> CHR 0x0A"
    using assms(1,3) special_not_alpha(1) by (cases rest) (auto simp: char_in_def nth_append nat_add_distrib)
  have before: "char_in cstring (int (length pre + length w) - 1) = Ret (w ! (length w - 1))"
    using assms(1) w(1) by (cases w rule: rev_cases) (auto simp: char_in_def nth_append nat_add_distrib)
  have alpha: "isalpha (w ! (length w - 1))" using w(1,2) by (simp add: list_all_length)
  then have star: "(w @ replicate (nCols_words - length w) (CHR 0x00)) ! (length w - 1) \<noteq> CHR ''*''"
    using w(1) special_not_alpha(2) by (auto simp: nth_append)
  have same: "(w @ replicate (nCols_words - length w) (CHR 0x00))[length w := CHR 0x00] = padded_row w"
    using w(3) by (auto intro!: nth_equalityI simp: padded_row_def nth_list_update nth_append)
  show ?case
    unfolding j by (subst fill_row.simps) (use c before alpha star w same in \<open>simp del: fill_row.simps\<close>)
next
  case (Suc d)
  then have j: "j < length w" by simp
  have w: "list_all isalpha w" "length w < nCols_words" using assms(2) by (simp_all add: plain_word_def)
  have c: "char_in cstring (int (length pre + j)) = Ret (w ! j)" "isalpha (w ! j)"
    using assms(1) j w(1) by (auto simp: char_in_def nth_append nat_add_distrib list_all_length)
  have row: "(take j w @ replicate (nCols_words - j) (CHR 0x00))[j := w ! j] = take (Suc j) w @ replicate (nCols_words - Suc j) (CHR 0x00)"
    using j w(2) by (auto intro!: nth_equalityI simp: nth_list_update nth_append less_Suc_eq)
  have "int (length pre + j) + 1 = int (length pre + Suc j)" by simp
  with Suc(1) [of "Suc j"] Suc(2) j w(2) c row show ?case
    by (subst fill_row.simps) (simp del: fill_row.simps add: ac_simps)
qed

lemma fill_rows_sentence:
  assumes "list_all plain_word ws" and "plain_gaps cs" and "cstring = pre @ sentence ws cs"
  shows "fill_rows_from cstring (length ws) (int (length pre)) = Ret (map padded_row ws)"
  using assms
proof (induction ws cs arbitrary: pre rule: sentence.induct)
  case (2 w cs)
  then show ?case using fill_row_word [of cstring pre w "[]" 0] by simp
next
  case (3 w x ws cs)
  let ?c = "case cs of [] \<Rightarrow> CHR '' '' | c # _ \<Rightarrow> c"
  have "fill_row cstring 0 (replicate nCols_words (CHR 0x00)) (int (length pre)) = Ret (padded_row w, int (length pre + length w + 1))"
    using fill_row_word [of cstring pre w "?c # sentence (x # ws) (tl cs)" 0] 3(2,4) gaps_head [OF 3(3)] by simp
  moreover have "fill_rows_from cstring (length (x # ws)) (int (length (pre @ w @ [?c]))) = Ret (map padded_row (x # ws))"
    using 3(2-4) gaps_tl [OF 3(3)] by (intro 3(1)) auto
  ultimately show ?case by (simp del: fill_row.simps add: add.commute add.left_commute)
qed simp

lemma createWordArray_sentence:
  "list_all plain_word ws \<Longrightarrow> plain_gaps cs \<Longrightarrow> createWordArray (sentence ws cs) = Ret (map padded_row ws)"
  using fill_rows_sentence [of ws cs "sentence ws cs" "[]"] by (simp add: createWordArray_def countWords_sentence)

lemma row_letters_padded: "plain_word w \<Longrightarrow> row_letters (padded_row w) = w"
proof -
  assume w: "plain_word w"
  then have "\<forall>c \<in> set w. c \<noteq> CHR 0x00" using special_not_alpha(1) by (auto simp: plain_word_def list_all_iff)
  then have "takeWhile (\<lambda>c. c \<noteq> CHR 0x00) (padded_row w) = w" by (simp add: padded_row_def takeWhile_append2 takeWhile_replicate)
  then show ?thesis using w by (simp add: row_letters_def plain_word_def list_all_iff)
qed

lemma wordOrder_sentence:
  assumes "list_all plain_word ws" and "plain_gaps cs"
  shows "wordOrder junk (map padded_row ws) (sentence ws cs) = Ret (map (\<lambda>w. int (length w)) ws)"
proof -
  have "word_length k (padded_row w) = int (length w)" if "plain_word w" for k w
    using row_letters_padded [OF that] that by (simp add: word_length_def row_letters_def padded_row_def plain_word_def)
  then show ?thesis using assms
    by (auto simp: wordOrder_def countWords_sentence list_all_length intro!: nth_equalityI)
qed

lemma justLetters_sentence:
  assumes "list_all plain_word ws" and "plain_gaps cs" and "list_all plain_word vs" and "s + length vs \<le> length ws"
  shows "justLetters (int s) (map padded_row ws) (sentence vs cs) =
    Ret (concat (take (length vs) (drop s ws)) @
      replicate (nCols_words * length vs - length (concat (take (length vs) (drop s ws)))) (CHR 0x00))"
proof -
  have "map row_letters (take (length vs) (drop s (map padded_row ws))) = take (length vs) (drop s ws)"
    using assms(1) by (auto simp: take_map drop_map row_letters_padded list_all_iff intro!: map_idI dest!: in_set_takeD in_set_dropD)
  with assms show ?thesis by (auto simp: justLetters_def countWords_sentence Let_def)
qed

subsection \<open>The test of the substitution\<close>

definition one_to_one :: "string \<Rightarrow> string \<Rightarrow> bool" where
  "one_to_one a b \<longleftrightarrow> (\<forall>k < length a. \<forall>j < length a. toupper (a ! k) = toupper (a ! j) \<longleftrightarrow> toupper (b ! k) = toupper (b ! j))"

lemma same_letter_eq: "k < length a \<Longrightarrow> j < length a \<Longrightarrow> same_letter a (int k) (int j) = Ret (toupper (a ! k) = toupper (a ! j))"
  by (simp add: same_letter_def elem_at_def)

lemma simple_from_eq:
  "k < length a \<Longrightarrow> k < length b \<Longrightarrow> \<forall>j \<in> set js. j < length a \<and> j < length b \<Longrightarrow>
    simple_from a b (int k) (map int js) =
    Ret (\<forall>j \<in> set js. toupper (a ! k) = toupper (a ! j) \<longleftrightarrow> toupper (b ! k) = toupper (b ! j))"
  by (induction js) (auto simp: same_letter_eq)

lemma upto_nat: "[int k..int n - 1] = map int [k..<n]"
proof (induction "n - k" arbitrary: k)
  case (Suc d)
  have "[int (Suc k)..int n - 1] = map int [Suc k..<n]" using Suc(2) by (intro Suc(1)) simp
  then have "[int k + 1..int n - 1] = map int [Suc k..<n]" by (simp add: ac_simps)
  with Suc(2) show ?case by (subst upto.simps) (simp add: upt_conv_Cons)
qed simp

lemma simple_rows_eq:
  "\<forall>k \<in> set ks. k < n \<Longrightarrow> n \<le> length a \<Longrightarrow> n \<le> length b \<Longrightarrow>
    simple_rows a b (int n) (map int ks) =
    Ret (\<forall>k \<in> set ks. \<forall>j \<in> {k..<n}. toupper (a ! k) = toupper (a ! j) \<longleftrightarrow> toupper (b ! k) = toupper (b ! j))"
  by (induction ks) (auto simp: upto_nat simple_from_eq)

lemma isSimpleSub_iff:
  assumes "cstr a" and "length a \<le> length b"
  shows "isSimpleSub (a @ CHR 0x00 # pad) b = Ret (one_to_one a b)"
proof -
  have "takeWhile (\<lambda>c. c \<noteq> CHR 0x00) (a @ CHR 0x00 # pad) = a" using assms(1) by (induction a) auto
  then have len: "c_strlen (a @ CHR 0x00 # pad) = Ret (int (length a))" by (simp add: c_strlen_def)
  have "(\<forall>k \<in> set [0..<length a]. \<forall>j \<in> {k..<length a}.
      toupper ((a @ CHR 0x00 # pad) ! k) = toupper ((a @ CHR 0x00 # pad) ! j) \<longleftrightarrow> toupper (b ! k) = toupper (b ! j)) = one_to_one a b"
    (is "?l = ?r")
  proof
    assume l: ?l
    show ?r unfolding one_to_one_def
    proof (intro allI impI)
      fix k j assume "k < length a" "j < length a"
      then show "toupper (a ! k) = toupper (a ! j) \<longleftrightarrow> toupper (b ! k) = toupper (b ! j)"
        using bspec [OF bspec [OF l, of k], of j] bspec [OF bspec [OF l, of j], of k]
        by (cases "k \<le> j") (auto simp: nth_append)
    qed
  qed (auto simp: one_to_one_def nth_append)
  with simple_rows_eq [of "[0..<length a]" "length a" "a @ CHR 0x00 # pad" b] assms(2) upto_nat [of 0 "length a"]
  show ?thesis by (simp add: isSimpleSub_def len)
qed

subsection \<open>A crib at the start\<close>

lemma no_newline:
  assumes "list_all plain_word ws" and "n \<le> length ws"
  shows "containsNewline (map padded_row ws) 0 (int n) = Ret False"
proof -
  have "padded_row w ! j \<noteq> CHR ''*''" if "plain_word w" "j < nCols_words" for w j
    using that special_not_alpha(2) by (auto simp: padded_row_def plain_word_def nth_append list_all_length)
  then have "newline_rows (map padded_row ws) 0 (int n) (map int ks) = Ret False" if "\<forall>k \<in> set ks. k < length ws" for ks
    using that assms(1) by (induction ks) (auto simp: newline_in_row_def elem_at_def list_ex_iff list_all_length)
  from this [of "[0..<n]"] assms(2) show ?thesis using upto_nat [of 0 n] by (simp add: containsNewline_def)
qed

lemma match_loop_prefix:
  assumes "length cribLens \<le> length cipherLens" and "take (length cribLens) cipherLens = cribLens" and "i < length cribLens"
  shows "match_loop cipherLens cribLens cW kW text just (int (length cipherLens)) (int (length cribLens)) (int i) (int i)
      (int (length cribLens - i)) =
    match_loop cipherLens cribLens cW kW text just (int (length cipherLens)) (int (length cribLens))
      (int (length cribLens) - 1) (int (length cribLens) - 1) 1"
  using assms(3)
proof (induction "length cribLens - i" arbitrary: i)
  case (Suc d)
  show ?case
  proof (cases "d = 0")
    case True
    then have "i = length cribLens - 1" using Suc(2,3) by simp
    then show ?thesis using Suc(3) by (simp add: of_nat_diff)
  next
    case False
    then have i: "Suc i < length cribLens" using Suc(2) by simp
    have "cipherLens ! i = cribLens ! i" using assms(1,2) i by (metis Suc_lessD nth_take)
    moreover have "[int i..int (length cipherLens) - 1] = int i # [int i + 1..int (length cipherLens) - 1]"
      using i assms(1) by (subst upto.simps) simp
    ultimately have "match_words cipherLens cribLens cW kW text just (int (length cribLens)) (int i) (int (length cribLens - i))
        [int i..int (length cipherLens) - 1] = Ret (Inner_break (int i) (int (Suc i)) (int (length cribLens - Suc i)))"
      using i assms(1) by (simp add: elem_at_def of_nat_diff)
    then have "match_loop cipherLens cribLens cW kW text just (int (length cipherLens)) (int (length cribLens)) (int i) (int i)
        (int (length cribLens - i)) =
      match_loop cipherLens cribLens cW kW text just (int (length cipherLens)) (int (length cribLens)) (int (Suc i)) (int (Suc i))
        (int (length cribLens - Suc i))"
      using Suc(3) by (subst match_loop.simps) (simp add: ac_simps)
    also have "\<dots> = match_loop cipherLens cribLens cW kW text just (int (length cipherLens)) (int (length cribLens))
      (int (length cribLens) - 1) (int (length cribLens) - 1) 1" using Suc(2) i by (intro Suc(1)) auto
    finally show ?thesis .
  qed
qed simp

lemma match_at_start:
  assumes "length cribLens \<le> length cipherLens" and "take (length cribLens) cipherLens = cribLens" and "cribLens \<noteq> []"
    and "tested cW kW text just (int (length cribLens)) (int (length cribLens)) = Ret (Inner_return 0)"
  shows "match_loop cipherLens cribLens cW kW text just (int (length cipherLens)) (int (length cribLens)) 0 0 (int (length cribLens)) =
    Some (Ret 0)"
proof -
  let ?n = "length cribLens"
  have n: "?n \<noteq> 0" using assms(3) by simp
  have nat_eq: "nat (int ?n - 1) = ?n - 1" by simp
  have "cipherLens ! (?n - 1) = cribLens ! (?n - 1)" using assms(1,2) n by (metis diff_less less_one neq0_conv nth_take)
  moreover have "[int ?n - 1..int (length cipherLens) - 1] = (int ?n - 1) # [int ?n..int (length cipherLens) - 1]"
    using assms(1) by (subst upto.simps) simp
  ultimately have "match_words cipherLens cribLens cW kW text just (int ?n) (int ?n - 1) 1 [int ?n - 1..int (length cipherLens) - 1] =
      Ret (Inner_return 0)"
    using n assms(1,4) nat_eq by (simp add: elem_at_def)
  then have "match_loop cipherLens cribLens cW kW text just (int (length cipherLens)) (int ?n) (int ?n - 1) (int ?n - 1) 1 = Some (Ret 0)"
    by (subst match_loop.simps) simp
  then show ?thesis using match_loop_prefix [OF assms(1,2), of 0] n by simp
qed

subsection \<open>The key\<close>

definition exchanged :: "string \<Rightarrow> string \<Rightarrow> char \<Rightarrow> char" where
  "exchanged cipherKey cribKey c =
     (if isalpha c
      then case List.find (\<lambda>p. toupper c = toupper (fst p)) (zip cipherKey cribKey) of
        None \<Rightarrow> if cipherKey = [] then c else tolower c | Some p \<Rightarrow> snd p
      else c)"

lemma toupper_tolower: "isalpha c \<Longrightarrow> toupper (tolower c) = toupper c" "isalpha c \<Longrightarrow> isalpha (tolower c)" "tolower (tolower c) = tolower c"
proof -
  define n :: nat where "n = of_char c"
  then have c: "c = char_of n" "n < 256" by simp_all
  have o: "of_char (char_of k :: char) = k" if "k < 256" for k :: nat using that by simp
  show "isalpha c \<Longrightarrow> toupper (tolower c) = toupper c" "isalpha c \<Longrightarrow> isalpha (tolower c)" "tolower (tolower c) = tolower c"
    using c(2) unfolding c(1) toupper_def tolower_def isalpha_def less_eq_char_def
    by (auto simp: o)
qed

lemma exchange_letter_eq:
  assumes "length a \<le> length b" and "isalpha c" and "n = length a - j"
  shows "exchange_letter (a @ p) (b @ q) n j c =
    (case List.find (\<lambda>p. toupper c = toupper (fst p)) (zip (drop j a) (drop j b)) of
       None \<Rightarrow> if n = 0 then c else tolower c | Some p \<Rightarrow> snd p)"
  using assms(2,3)
proof (induction n arbitrary: j c)
  case (Suc n)
  then have j: "j < length a" by simp
  then have zip: "zip (drop j a) (drop j b) = (a ! j, b ! j) # zip (drop (Suc j) a) (drop (Suc j) b)"
    using assms(1) by (simp add: Cons_nth_drop_Suc [symmetric])
  have nth: "(a @ p) ! j = a ! j" "(b @ q) ! j = b ! j" using j assms(1) by (simp_all add: nth_append)
  have "exchange_letter (a @ p) (b @ q) n (Suc j) (tolower c) =
    (case List.find (\<lambda>p. toupper (tolower c) = toupper (fst p)) (zip (drop (Suc j) a) (drop (Suc j) b)) of
       None \<Rightarrow> if n = 0 then tolower c else tolower (tolower c) | Some p \<Rightarrow> snd p)"
    using Suc(3) toupper_tolower(2) [OF Suc(2)] by (intro Suc(1)) auto
  then have "exchange_letter (a @ p) (b @ q) n (Suc j) (tolower c) =
    (case List.find (\<lambda>p. toupper c = toupper (fst p)) (zip (drop (Suc j) a) (drop (Suc j) b)) of
       None \<Rightarrow> tolower c | Some p \<Rightarrow> snd p)"
    by (simp only: toupper_tolower(1) [OF Suc(2)] toupper_tolower(3) if_cancel)
  then show ?case unfolding zip exchange_letter.simps nth by (cases "toupper c = toupper (a ! j)") simp_all
qed simp

lemma exchangeLetters_eq:
  assumes "length a = length b"
  shows "exchangeLetters (a @ p) (b @ q) text (length b) = Ret (map (exchanged a b) text)"
proof -
  have "(if isalpha c then exchange_letter (a @ p) (b @ q) (length b) 0 c else c) = exchanged a b c" for c
  proof (cases "isalpha c")
    case True
    have e: "exchange_letter (a @ p) (b @ q) (length b) 0 c =
      (case List.find (\<lambda>p. toupper c = toupper (fst p)) (zip a b) of
         None \<Rightarrow> if length b = 0 then c else tolower c | Some p \<Rightarrow> snd p)"
      using exchange_letter_eq [of a b c "length b" 0 p q] True assms by (metis diff_zero drop_0 order_refl)
    have "length b = 0 \<longleftrightarrow> a = []" using assms by (metis length_0_conv)
    then show ?thesis unfolding e exchanged_def using True by (cases "a = []") simp_all
  qed (simp add: exchanged_def)
  then show ?thesis using assms by (simp add: exchangeLetters_def)
qed

subsection \<open>The program\<close>

lemma sentence_alpha: "list_all plain_word ws \<Longrightarrow> ws \<noteq> [] \<Longrightarrow> list_ex isalpha (sentence ws cs) \<and> sentence ws cs \<noteq> []"
  by (induction ws cs rule: sentence.induct) (auto simp: plain_word_def list_all_iff list_ex_iff neq_Nil_conv)

lemma length_concat_words:
  assumes "list_all plain_word ws" and "ws \<noteq> []"
  shows "length (concat ws) < nCols_words * length ws"
  using assms
proof (induction ws)
  case (Cons w ws)
  then show ?case by (cases "ws = []") (auto simp: plain_word_def)
qed simp

lemma cstr_words: "list_all plain_word ws \<Longrightarrow> cstr (concat ws)"
  using special_not_alpha(1) by (induction ws) (auto simp: plain_word_def list_all_iff cstr_def)

lemma tested_start:
  assumes ws: "list_all plain_word ws" and vs: "list_all plain_word vs" "plain_gaps ds" "vs \<noteq> []"
    and lens: "map length vs = take (length vs) (map length ws)"
    and simple: "one_to_one (concat (take (length vs) ws)) (concat vs)"
  defines "just \<equiv> concat vs @ replicate (nCols_words * length vs - length (concat vs)) (CHR 0x00)"
  shows "tested (map padded_row ws) cW (sentence vs ds) just (int (length vs)) (int (length vs)) = Ret (Inner_return 0)"
proof -
  let ?n = "length vs"
  let ?a = "concat (take ?n ws)"
  have n: "?n \<le> length ws" using arg_cong [OF lens, of length] by simp
  have take: "list_all plain_word (take ?n ws)" using ws by (auto simp: list_all_iff dest: in_set_takeD)
  have la: "length ?a = length (concat vs)" using lens by (simp add: length_concat take_map)
  have "length ?a < nCols_words * ?n" using length_concat_words [OF vs(1,3)] la by simp
  then obtain k where k: "nCols_words * ?n - length ?a = Suc k" by (metis Suc_diff_Suc)
  have "justLetters 0 (map padded_row ws) (sentence vs ds) = Ret (?a @ CHR 0x00 # replicate k (CHR 0x00))"
    using justLetters_sentence [OF ws vs(2,1), of 0] n k by simp
  moreover have "isSimpleSub (?a @ CHR 0x00 # replicate k (CHR 0x00)) just = Ret True"
  proof -
    have "one_to_one ?a just" using simple la by (simp add: one_to_one_def just_def nth_append)
    then show ?thesis using isSimpleSub_iff [OF cstr_words [OF take], of just] la by (simp add: just_def)
  qed
  ultimately show ?thesis using no_newline [OF ws n] by (simp add: tested_def)
qed

theorem decrypt_matches:
  assumes ws: "list_all plain_word ws" "plain_gaps cs" and vs: "list_all plain_word vs" "plain_gaps ds" "vs \<noteq> []"
    and lens: "map length vs = take (length vs) (map length ws)"
    and size: "length (sentence vs ds) \<le> 80" "length (sentence vs ds) \<le> length (sentence ws cs)"
    and simple: "one_to_one (concat (take (length vs) ws)) (concat vs)"
  shows "decrypt j1 j2 (sentence ws cs) (sentence vs ds) =
    Some (Ret (True, map (exchanged (concat (take (length vs) ws)) (map toupper (concat vs))) (sentence ws cs)))"
proof -
  let ?n = "length vs" and ?b = "concat vs"
  let ?a = "concat (take ?n ws)"
  have n: "?n \<le> length ws" using arg_cong [OF lens, of length] by simp
  have ne: "ws \<noteq> []" using n vs(3) by auto
  have la: "length ?a = length ?b" using lens by (simp add: length_concat take_map)
  let ?just = "?b @ replicate (nCols_words * ?n - length ?b) (CHR 0x00)"
  obtain k where k: "nCols_words * ?n - length ?b = Suc k" using length_concat_words [OF vs(1,3)] by (metis Suc_diff_Suc)
  have crib: "justLetters 0 (map padded_row vs) (sentence vs ds) = Ret ?just"
    using justLetters_sentence [OF vs(1,2,1), of 0] by simp
  have cipher: "justLetters 0 (map padded_row ws) (sentence vs ds) = Ret (?a @ replicate (nCols_words * ?n - length ?a) (CHR 0x00))"
    using justLetters_sentence [OF ws(1) vs(2,1), of 0] n by simp
  let ?cL = "map (\<lambda>w. int (length w)) ws" and ?kL = "map (\<lambda>w. int (length w)) vs"
  have "take ?n ?cL = ?kL" using arg_cong [OF lens, of "map int"] by (simp add: take_map o_def)
  then have find: "findMatch ?cL ?kL (map padded_row ws) (map padded_row vs) (sentence ws cs) (sentence vs ds) = Some (Ret 0)"
    using match_at_start [of ?kL ?cL "map padded_row ws" "map padded_row vs" "sentence vs ds" ?just] n vs(3)
      tested_start [OF ws(1) vs lens simple, of "map padded_row vs"]
    by (simp add: findMatch_def crib countWords_sentence ws vs)
  have "takeWhile (\<lambda>c. c \<noteq> CHR 0x00) (s @ CHR 0x00 # replicate k (CHR 0x00)) = s" if "cstr s" for s
    using that by (induction s) auto
  note this [OF cstr_words [OF vs(1)]]
  then have len: "c_strlen ?just = Ret (int (length ?b))" using k by (simp add: c_strlen_def)
  have exch: "exchangeLetters (?a @ replicate (nCols_words * ?n - length ?a) (CHR 0x00))
      (map toupper (take (length ?b) ?just) @ drop (length ?b) ?just) (sentence ws cs) (length ?b) =
    Ret (map (exchanged ?a (map toupper ?b)) (sentence ws cs))"
    using exchangeLetters_eq [of ?a "map toupper ?b"] la by simp
  have start: "\<not> (sentence vs ds = [] \<or> length (sentence vs ds) > length (sentence ws cs) \<or> length (sentence vs ds) > 80 \<or>
      countWords (sentence vs ds) > countWords (sentence ws cs) \<or> length (sentence ws cs) = 1 \<and> \<not> list_ex isalpha (sentence ws cs))"
    using sentence_alpha [OF ws(1) ne, of cs] sentence_alpha [OF vs(1,3), of ds] size n by (simp add: countWords_sentence ws vs)
  show ?thesis
    unfolding decrypt_def if_not_P [OF start]
    by (simp add: createWordArray_sentence ws vs wordOrder_sentence find crib cipher len exch del: take_append drop_append)
qed

lemma match_words_outside:
  assumes "kL \<noteq> []" and "length kL < length cL" and "\<forall>x \<le> length kL. cL ! x \<noteq> kL ! 0" and "j \<le> length kL"
  shows "match_words cL kL cW kW text just nCrib 0 cnt [int j..int (length cL) - 1] = SegFault"
  using assms(4)
proof (induction "length kL - j" arbitrary: j cnt)
  case 0
  then have j: "j = length kL" by simp
  have "[int j..int (length cL) - 1] = int j # [int j + 1..int (length cL) - 1]" using j assms(2) by (subst upto.simps) simp
  with j assms(1-3) show ?case by (simp add: elem_at_def)
next
  case (Suc d)
  then have j: "j < length kL" by simp
  have "[int j..int (length cL) - 1] = int j # [int (Suc j)..int (length cL) - 1]" using j assms(2) by (subst upto.simps) (simp add: ac_simps)
  with j assms(1-3) Suc(1) [of "Suc j"] Suc(2) show ?case by (simp add: elem_at_def)
qed

theorem decrypt_outside:
  assumes ws: "list_all plain_word ws" "plain_gaps cs" and vs: "list_all plain_word vs" "plain_gaps ds" "vs \<noteq> []"
    and size: "length (sentence vs ds) \<le> 80" "length (sentence vs ds) \<le> length (sentence ws cs)"
    and lens: "length vs < length ws" "length (hd vs) \<notin> length ` set (take (Suc (length vs)) ws)"
  shows "decrypt j1 j2 (sentence ws cs) (sentence vs ds) = Some SegFault"
proof -
  let ?cL = "map (\<lambda>w. int (length w)) ws" and ?kL = "map (\<lambda>w. int (length w)) vs"
  have ne: "ws \<noteq> []" using lens(1) by auto
  have crib: "\<exists>a. justLetters 0 (map padded_row vs) (sentence vs ds) = Ret a"
    using justLetters_sentence [OF vs(1,2,1), of 0] by simp
  have "?cL ! x \<noteq> ?kL ! 0" if "x \<le> length vs" for x
  proof -
    have "ws ! x \<in> set (take (Suc (length vs)) ws)" using that lens(1) by (auto simp: in_set_conv_nth intro!: exI [of _ x])
    then have "length (ws ! x) \<noteq> length (hd vs)" using lens(2) by (metis imageI)
    then show ?thesis using that lens(1) vs(3) by (simp add: hd_conv_nth)
  qed
  then have "findMatch ?cL ?kL (map padded_row ws) (map padded_row vs) (sentence ws cs) (sentence vs ds) = Some SegFault"
    using match_words_outside [of ?kL ?cL 0 "map padded_row ws" "map padded_row vs" "sentence vs ds"] lens(1) vs(3) crib
    by (auto simp: findMatch_def countWords_sentence ws vs match_loop.simps)
  moreover have "\<not> (sentence vs ds = [] \<or> length (sentence vs ds) > length (sentence ws cs) \<or> length (sentence vs ds) > 80 \<or>
      countWords (sentence vs ds) > countWords (sentence ws cs) \<or> length (sentence ws cs) = 1 \<and> \<not> list_ex isalpha (sentence ws cs))"
    using sentence_alpha [OF ws(1) ne, of cs] sentence_alpha [OF vs(1,3), of ds] size lens(1) by (simp add: countWords_sentence ws vs)
  ultimately show ?thesis
    unfolding decrypt_def by (simp only: if_not_P) (simp add: createWordArray_sentence ws vs wordOrder_sentence)
qed

subsection \<open>Other texts\<close>

text \<open>A newline as the first character, and a word behind three separators.\<close>

lemma newline_first: "isalpha c \<Longrightarrow> createWordArray (CHR 0x0A # c # s) = SegFault"
proof -
  assume c: "isalpha c"
  have count: "countWords (CHR 0x0A # c # s) = countWords (c # s)" using c special_not_alpha(3) by simp
  have pos: "countWords (c # s) > 0" using c
  proof (induction s arbitrary: c)
    case (Cons d s)
    then show ?case using countWords_nonneg [of "d # s"] by (cases "isalpha d") auto
  qed simp
  have "fill_row (CHR 0x0A # c # s) 0 (replicate nCols_words (CHR 0x00)) 0 = SegFault"
    by (subst fill_row.simps) (simp add: char_in_def special_not_alpha nCols_words_def)
  with count pos show ?thesis by (cases "nat (countWords (c # s))") (auto simp: createWordArray_def)
qed

lemma third_separator: "obind (createWordArray ''ab, ,cd'') (\<lambda>rows. Ret (map row_letters rows)) = Ret [''ab'', []]"
  by code_simp

end
