(* ===== verification/TunnelWorld.thy ===== *)
theory TunnelWorld
  imports CLib
begin

text \<open>
  The game of \<open>CS32/Project 4, Pt2\<close>: its objects (\<open>Actor.h\<close>) and the functions of its world
  (\<open>StudentWorld.cpp\<close>) that the objects call. The graphics framework it is written for is not part of the
  repository: its classes \<open>GraphObject\<close> and \<open>GameWorld\<close> are a parameter, a record of their functions. The
  constants it declares are constructors of datatypes. The two-dimensional arrays are flat, as in memory;
  an access outside the whole array faults. Objects of earth keep no state that is read: an element of the
  field is a pointer that is null, valid or dangling.
\<close>

subsection \<open>The framework\<close>

datatype direction = Dir_right | Dir_left | Dir_up | Dir_down | Dir_other

datatype image_id = TID_PLAYER | TID_PROTESTER | TID_WATER_SPURT | TID_BOULDER | TID_BARREL | TID_GOLD | TID_SONAR | TID_WATER_POOL

datatype sound = SOUND_FALLING_ROCK | SOUND_FOUND_OIL | SOUND_GOT_GOODIE | SOUND_PLAYER_SQUIRT | SOUND_SONAR
  | SOUND_PROTESTER_YELL | SOUND_PLAYER_GIVE_UP | SOUND_FINISHED_LEVEL | SOUND_DIG

record ('g, 'w) framework =
  g_new :: "image_id \<Rightarrow> int \<Rightarrow> int \<Rightarrow> direction \<Rightarrow> nat \<Rightarrow> 'g"
  g_id :: "'g \<Rightarrow> image_id"
  g_x :: "'g \<Rightarrow> int"
  g_y :: "'g \<Rightarrow> int"
  g_moveTo :: "int \<Rightarrow> int \<Rightarrow> 'g \<Rightarrow> 'g"
  g_dir :: "'g \<Rightarrow> direction"
  g_setDir :: "direction \<Rightarrow> 'g \<Rightarrow> 'g"
  g_visible :: "'g \<Rightarrow> bool"
  g_setVisible :: "bool \<Rightarrow> 'g \<Rightarrow> 'g"
  gw_level :: "'w \<Rightarrow> int"
  gw_lives :: "'w \<Rightarrow> int"
  gw_score :: "'w \<Rightarrow> int"
  gw_decLives :: "'w \<Rightarrow> 'w"
  gw_addScore :: "int \<Rightarrow> 'w \<Rightarrow> 'w"
  gw_playSound :: "sound \<Rightarrow> 'w \<Rightarrow> 'w"
  gw_setText :: "string \<Rightarrow> 'w \<Rightarrow> 'w"

subsection \<open>Objects and world\<close>

datatype actor_state = St_dead | St_alive | St_stable | St_waiting | St_falling | St_permanent | St_temporary
  | St_exiting | St_searching | St_resting

record protestor =
  pr_hitPoints :: int
  pr_dead :: bool
  pr_squares :: int
  pr_ticks :: int
  pr_shout :: int
  pr_exitPath :: string

text \<open>The classes with the members that are read: clock, distance left, offer and clock.\<close>

datatype actor_class = Boulder int | Barrel | WaterRefill int | WaterSquirt int | GoldenNugget bool int | SonarKit int
  | RegularProtestor protestor

record 'g actor =
  a_obj :: 'g
  a_state :: actor_state
  a_animate :: bool
  a_class :: actor_class

record 'g tunnel_man =
  t_obj :: 'g
  t_state :: actor_state
  t_dead :: bool
  t_hitPoints :: int
  t_squirts :: int
  t_kits :: int
  t_nuggets :: int

datatype earth_ptr = Earth_null | Earth_valid | Earth_dangling

text \<open>
  \<open>w_man\<close> is \<open>None\<close> when the pointer is not valid. \<open>w_rand\<close> holds the numbers the next calls of \<open>rand()\<close> return.
\<close>

record ('g, 'w) tm_world =
  w_game :: 'w
  w_man :: "'g tunnel_man option"
  w_actors :: "'g actor list"
  w_ground :: "int \<Rightarrow> earth_ptr"
  w_maze :: "int \<Rightarrow> char"
  w_barrels :: int
  w_rand :: "nat \<Rightarrow> nat"

definition rand_mod :: "(nat \<Rightarrow> nat) \<Rightarrow> int \<Rightarrow> int" where
  "rand_mod g n = int (g 0) mod n"

definition rand_rest :: "(nat \<Rightarrow> nat) \<Rightarrow> nat \<Rightarrow> nat" where
  "rand_rest g = (\<lambda>k. g (Suc k))"

definition in_game :: "('w \<Rightarrow> 'w) \<Rightarrow> ('g, 'w) tm_world \<Rightarrow> ('g, 'w) tm_world" where
  "in_game f w = w\<lparr>w_game := f (w_game w)\<rparr>"

definition the_man :: "('g, 'w) tm_world \<Rightarrow> 'g tunnel_man outcome" where
  "the_man w = (case w_man w of None \<Rightarrow> SegFault | Some t \<Rightarrow> Ret t)"

definition put_actor :: "nat \<Rightarrow> 'g actor \<Rightarrow> ('g, 'w) tm_world \<Rightarrow> ('g, 'w) tm_world" where
  "put_actor i a w = w\<lparr>w_actors := (w_actors w)[i := a]\<rparr>"

definition set_state :: "nat \<Rightarrow> actor_state \<Rightarrow> ('g, 'w) tm_world \<Rightarrow> ('g, 'w) tm_world" where
  "set_state i st w = put_actor i ((w_actors w ! i)\<lparr>a_state := st\<rparr>) w"

definition set_class :: "nat \<Rightarrow> actor_class \<Rightarrow> ('g, 'w) tm_world \<Rightarrow> ('g, 'w) tm_world" where
  "set_class i c w = put_actor i ((w_actors w ! i)\<lparr>a_class := c\<rparr>) w"

definition on_obj :: "nat \<Rightarrow> ('g \<Rightarrow> 'g) \<Rightarrow> ('g, 'w) tm_world \<Rightarrow> ('g, 'w) tm_world" where
  "on_obj i f w = put_actor i ((w_actors w ! i)\<lparr>a_obj := f (a_obj (w_actors w ! i))\<rparr>) w"

definition actor_x :: "('g, 'w) framework \<Rightarrow> ('g, 'w) tm_world \<Rightarrow> nat \<Rightarrow> int" where
  "actor_x F w i = g_x F (a_obj (w_actors w ! i))"

definition actor_y :: "('g, 'w) framework \<Rightarrow> ('g, 'w) tm_world \<Rightarrow> nat \<Rightarrow> int" where
  "actor_y F w i = g_y F (a_obj (w_actors w ! i))"

subsection \<open>Constructors\<close>

definition new_actor :: "('g, 'w) framework \<Rightarrow> image_id \<Rightarrow> int \<Rightarrow> int \<Rightarrow> direction \<Rightarrow> nat \<Rightarrow> actor_state \<Rightarrow> actor_class \<Rightarrow> 'g actor" where
  "new_actor F img x y dir depth st c =
     \<lparr>a_obj = g_setVisible F True (g_new F img x y dir depth), a_state = st, a_animate = False, a_class = c\<rparr>"

definition hide :: "('g, 'w) framework \<Rightarrow> 'g actor \<Rightarrow> 'g actor" where
  "hide F a = a\<lparr>a_obj := g_setVisible F False (a_obj a)\<rparr>"

definition new_Boulder :: "('g, 'w) framework \<Rightarrow> int \<Rightarrow> int \<Rightarrow> int \<Rightarrow> 'g actor" where
  "new_Boulder F junk x y = new_actor F TID_BOULDER x y Dir_right 1 St_stable (Boulder junk)"

definition new_Barrel :: "('g, 'w) framework \<Rightarrow> int \<Rightarrow> int \<Rightarrow> 'g actor" where
  "new_Barrel F x y = hide F (new_actor F TID_BARREL x y Dir_right 2 St_alive Barrel)"

definition new_WaterRefill :: "('g, 'w) framework \<Rightarrow> int \<Rightarrow> int \<Rightarrow> int \<Rightarrow> 'g actor" where
  "new_WaterRefill F level x y =
     new_actor F TID_WATER_POOL x y Dir_right 0 St_temporary (WaterRefill (max 100 (300 - 10 * level)))"

definition new_WaterSquirt :: "('g, 'w) framework \<Rightarrow> int \<Rightarrow> int \<Rightarrow> direction \<Rightarrow> 'g actor" where
  "new_WaterSquirt F x y dir =
     (let a = new_actor F TID_WATER_SPURT x y dir 1 St_alive (WaterSquirt 4); gx = g_x F (a_obj a); gy = g_y F (a_obj a) in
      if gx \<ge> 64 \<or> gx < 0 \<or> gy \<ge> 64 \<or> gy < 0 then a\<lparr>a_state := St_dead\<rparr> else a)"

text \<open>A nugget the player drops, and one of the world, whose clock is never read.\<close>

definition new_GoldenNugget :: "('g, 'w) framework \<Rightarrow> int \<Rightarrow> int \<Rightarrow> 'g actor" where
  "new_GoldenNugget F x y = new_actor F TID_GOLD x y Dir_right 2 St_temporary (GoldenNugget True 100)"

definition new_world_nugget :: "('g, 'w) framework \<Rightarrow> int \<Rightarrow> int \<Rightarrow> int \<Rightarrow> 'g actor" where
  "new_world_nugget F junk x y = hide F (new_actor F TID_GOLD x y Dir_right 2 St_permanent (GoldenNugget False junk))"

definition new_SonarKit :: "('g, 'w) framework \<Rightarrow> int \<Rightarrow> 'g actor" where
  "new_SonarKit F level = new_actor F TID_SONAR 0 60 Dir_right 2 St_temporary (SonarKit (max 100 (300 - 10 * level)))"

definition new_TunnelMan :: "('g, 'w) framework \<Rightarrow> 'g tunnel_man" where
  "new_TunnelMan F =
     \<lparr>t_obj = g_setVisible F True (g_new F TID_PLAYER 30 60 Dir_right 0), t_state = St_alive, t_dead = False,
      t_hitPoints = 10, t_squirts = 500, t_kits = 1, t_nuggets = 0\<rparr>"

definition new_RegularProtestor :: "('g, 'w) framework \<Rightarrow> int \<Rightarrow> int \<Rightarrow> int \<Rightarrow> 'g actor" where
  "new_RegularProtestor F junk level r =
     new_actor F TID_PROTESTER 60 60 Dir_left 0 St_searching
       (RegularProtestor \<lparr>pr_hitPoints = 5, pr_dead = False, pr_squares = r mod 52 + 8,
          pr_ticks = max 0 (3 - c_div level 4), pr_shout = junk, pr_exitPath = []\<rparr>)"

subsection \<open>Distances, earth and boulders\<close>

text \<open>
  \<open>getDistance(x1, y1, x2, y2) <= d\<close> for an integer \<open>d\<close>: the squares are exact and the square root of a
  number up to \<open>d * d\<close> is rounded to at most \<open>d\<close>.
\<close>

definition within_distance :: "int \<Rightarrow> int \<Rightarrow> int \<Rightarrow> int \<Rightarrow> int \<Rightarrow> bool" where
  "within_distance d x1 y1 x2 y2 \<longleftrightarrow> (x1 - x2) * (x1 - x2) + (y1 - y2) * (y1 - y2) \<le> d * d"

definition cell_at :: "int \<Rightarrow> int \<Rightarrow> int" where
  "cell_at x y = 60 * x + y"

definition earth_at :: "(int \<Rightarrow> earth_ptr) \<Rightarrow> int \<Rightarrow> int \<Rightarrow> earth_ptr outcome" where
  "earth_at g x y = (if 0 \<le> cell_at x y \<and> cell_at x y < 63 * 60 then Ret (g (cell_at x y)) else SegFault)"

definition checkEarth :: "('g, 'w) tm_world \<Rightarrow> int \<Rightarrow> int \<Rightarrow> bool outcome" where
  "checkEarth w x y = obind (earth_at (w_ground w) x y) (\<lambda>p. Ret (p \<noteq> Earth_null))"

text \<open>\<open>delete\<close> of valid pointers, with or without setting them to null; null pointers are left alone.\<close>

fun delete_cells :: "earth_ptr \<Rightarrow> (int \<times> int) list \<Rightarrow> (int \<Rightarrow> earth_ptr) \<Rightarrow> int \<Rightarrow> ((int \<Rightarrow> earth_ptr) \<times> int) outcome" where
  "delete_cells after [] g waitCount = Ret (g, waitCount)"
| "delete_cells after ((k, j) # cs) g waitCount =
     obind (earth_at g k j) (\<lambda>p. case p of
         Earth_null \<Rightarrow> delete_cells after cs g waitCount
       | Earth_valid \<Rightarrow> delete_cells after cs (g(cell_at k j := after)) (waitCount - 1)
       | Earth_dangling \<Rightarrow> SegFault)"

definition digEarth :: "('g, 'w) framework \<Rightarrow> int \<Rightarrow> int \<Rightarrow> ('g, 'w) tm_world \<Rightarrow> ('g, 'w) tm_world outcome" where
  "digEarth F x y w =
     (if y = 60 then Ret w
      else obind (delete_cells Earth_null [(k, j). k \<leftarrow> [x..min 62 (x + 3)], j \<leftarrow> [y..min 59 (y + 3)]] (w_ground w) 0) (\<lambda>r.
        let w = w\<lparr>w_ground := fst r\<rparr> in
        Ret (if snd r < 0 then in_game (gw_playSound F SOUND_DIG) w else w)))"

definition blocked :: "('g, 'w) framework \<Rightarrow> ('g, 'w) tm_world \<Rightarrow> int \<Rightarrow> int \<Rightarrow> bool" where
  "blocked F w x y =
     list_ex (\<lambda>a. g_id F (a_obj a) = TID_BOULDER \<and> \<not> (x = g_x F (a_obj a) \<and> y = g_y F (a_obj a)) \<and>
       within_distance 2 (x + 2) (y + 2) (g_x F (a_obj a) + 2) (g_y F (a_obj a) + 2)) (w_actors w)"

text \<open>The cells that \<open>clearPath\<close> looks at, in its order.\<close>

definition path_cells :: "int \<Rightarrow> int \<Rightarrow> int \<Rightarrow> int \<Rightarrow> (int \<times> int) list" where
  "path_cells bx by ex ey =
     (if bx = ex
      then let is = [bx..min 62 (bx + 2)] in
        if by < ey then [(i, j). j \<leftarrow> [by..ey - 1], i \<leftarrow> is] else [(i, j). j \<leftarrow> rev [ey + 1..by], i \<leftarrow> is]
      else if by = ey
      then let js = [by..min 59 (by + 2)] in
        if bx < ex then [(i, j). i \<leftarrow> [bx..ex - 1], j \<leftarrow> js] else [(i, j). i \<leftarrow> rev [ex + 1..bx], j \<leftarrow> js]
      else [])"

fun clear_cells :: "('g, 'w) framework \<Rightarrow> ('g, 'w) tm_world \<Rightarrow> (int \<times> int) list \<Rightarrow> bool outcome" where
  "clear_cells F w [] = Ret True"
| "clear_cells F w ((i, j) # cs) =
     obind (checkEarth w i j) (\<lambda>e. if e \<or> blocked F w i j then Ret False else clear_cells F w cs)"

definition clearPath :: "('g, 'w) framework \<Rightarrow> ('g, 'w) tm_world \<Rightarrow> int \<Rightarrow> int \<Rightarrow> int \<Rightarrow> int \<Rightarrow> bool outcome" where
  "clearPath F w bx by ex ey = clear_cells F w (path_cells bx by ex ey)"

subsection \<open>The exit path of a protestor\<close>

definition update_protestorMaze :: "('g, 'w) framework \<Rightarrow> ('g, 'w) tm_world \<Rightarrow> ('g, 'w) tm_world" where
  "update_protestorMaze F w =
     w\<lparr>w_maze := (\<lambda>k. if 0 \<le> k \<and> k < 63 * 60
        then if w_ground w k \<noteq> Earth_null \<or> blocked F w (k div 60) (k mod 60) then CHR ''X'' else CHR ''.''
        else w_maze w k)(cell_at 60 59 := CHR ''Q'')\<rparr>"

definition path_dirs :: "(int \<times> int \<times> char) list" where
  "path_dirs = [(- 1, 0, CHR ''N''), (0, - 1, CHR ''W''), (1, 0, CHR ''S''), (0, 1, CHR ''E'')]"

text \<open>\<open>find_path\<close> from the directions that are left; a recursive call returns at once when \<open>found\<close> is set.\<close>

partial_function (option) find_path ::
  "(int \<times> int \<times> char) list \<Rightarrow> (int \<Rightarrow> char) \<Rightarrow> int \<Rightarrow> int \<Rightarrow> string \<Rightarrow> bool \<Rightarrow> ((int \<Rightarrow> char) \<times> string \<times> bool) option" where
  "find_path dirs maze x y path found =
     (case dirs of
        [] \<Rightarrow> Some (maze, path, found)
      | (dx, dy, dir) # rest \<Rightarrow>
          let nx = x + dx; ny = y + dy in
          if 0 \<le> nx \<and> 0 \<le> ny \<and> nx < 60 \<and> ny < 60
          then if maze (cell_at nx ny) = CHR ''.''
            then let maze' = maze(cell_at nx ny := CHR ''V''); path' = path @ [dir] in
              Option.bind (if found then Some (maze', path', found) else find_path path_dirs maze' nx ny path' found) (\<lambda>(m, p, f).
                find_path rest (if f then m else m(cell_at nx ny := CHR ''.'')) x y p f)
            else if maze (cell_at nx ny) = CHR ''Q''
            then find_path rest maze x y (path @ dir # '' Found Exit!'' @ [CHR 0x0A]) True
            else find_path rest maze x y path found
          else find_path rest maze x y path found)"

declare find_path.simps [code]

definition create_path :: "('g, 'w) framework \<Rightarrow> int \<Rightarrow> int \<Rightarrow> string \<Rightarrow> ('g, 'w) tm_world \<Rightarrow> (('g, 'w) tm_world \<times> string) option" where
  "create_path F x y path w =
     (let w = update_protestorMaze F w in
      Option.bind (find_path path_dirs (w_maze w) x y path False) (\<lambda>(m, p, f). Some (w\<lparr>w_maze := m\<rparr>, p)))"

subsection \<open>Annoyance\<close>

text \<open>\<open>annoy\<close> of an object in the list; only protestors and the player redefine it.\<close>

definition annoy :: "('g, 'w) framework \<Rightarrow> nat \<Rightarrow> int \<Rightarrow> ('g, 'w) tm_world \<Rightarrow> ('g, 'w) tm_world option" where
  "annoy F i damage w =
     (case a_class (w_actors w ! i) of
        RegularProtestor p \<Rightarrow>
          if a_state (w_actors w ! i) = St_exiting then Some w
          else let p = p\<lparr>pr_hitPoints := pr_hitPoints p - damage\<rparr>; p = (if pr_hitPoints p \<le> 0 then p\<lparr>pr_dead := True\<rparr> else p);
              w = set_class i (RegularProtestor p) w in
            if a_state (w_actors w ! i) = St_dead
            then let w = set_state i St_exiting w in
              Option.bind (create_path F (actor_x F w i) (actor_y F w i) (pr_exitPath p) w) (\<lambda>(w, path).
                Some (set_class i (RegularProtestor (p\<lparr>pr_exitPath := path\<rparr>)) w))
            else Some w
      | _ \<Rightarrow> Some w)"

definition annoy_man :: "int \<Rightarrow> 'g tunnel_man \<Rightarrow> 'g tunnel_man" where
  "annoy_man damage t =
     (let t = t\<lparr>t_hitPoints := t_hitPoints t - damage\<rparr> in if t_hitPoints t \<le> 0 then t\<lparr>t_dead := True\<rparr> else t)"

definition annoyPlayer :: "('g, 'w) tm_world \<Rightarrow> ('g, 'w) tm_world outcome" where
  "annoyPlayer w =
     obind (the_man w) (\<lambda>t. let t = annoy_man 2 t in
       Ret (w\<lparr>w_man := Some (if t_hitPoints t \<le> 0 then t\<lparr>t_state := St_dead\<rparr> else t)\<rparr>))"

fun crush_actors :: "('g, 'w) framework \<Rightarrow> int \<Rightarrow> int \<Rightarrow> nat list \<Rightarrow> ('g, 'w) tm_world \<Rightarrow> ('g, 'w) tm_world option" where
  "crush_actors F x y [] w = Some w"
| "crush_actors F x y (i # is) w =
     Option.bind
       (if a_animate (w_actors w ! i) \<and> \<not> (actor_x F w i = x \<and> actor_y F w i = y)
          \<and> within_distance 3 (x + 2) (y + 2) (actor_x F w i + 2) (actor_y F w i + 2)
        then annoy F i 100 w else Some w)
       (crush_actors F x y is)"

definition crushedByRock :: "('g, 'w) framework \<Rightarrow> int \<Rightarrow> int \<Rightarrow> ('g, 'w) tm_world \<Rightarrow> ('g, 'w) tm_world outcome option" where
  "crushedByRock F x y w =
     obind2 (Some (the_man w)) (\<lambda>t.
       let w = (if within_distance 3 (g_x F (t_obj t) + 2) (g_y F (t_obj t) + 2) (x + 2) (y + 2)
                then w\<lparr>w_man := Some (t\<lparr>t_state := St_dead\<rparr>)\<rparr> else w) in
       map_option Ret (crush_actors F x y [0..<length (w_actors w)] w))"

fun hit_actors :: "('g, 'w) framework \<Rightarrow> int \<Rightarrow> int \<Rightarrow> nat list \<Rightarrow> ('g, 'w) tm_world \<Rightarrow> bool \<Rightarrow> (('g, 'w) tm_world \<times> bool) option" where
  "hit_actors F x y [] w contactFlag = Some (w, contactFlag)"
| "hit_actors F x y (i # is) w contactFlag =
     (if a_animate (w_actors w ! i) \<and> g_id F (a_obj (w_actors w ! i)) \<noteq> TID_PLAYER
        \<and> within_distance 3 x y (actor_x F w i) (actor_y F w i)
      then Option.bind (annoy F i 2 w) (\<lambda>w. hit_actors F x y is w True)
      else hit_actors F x y is w contactFlag)"

definition hitBySquirt :: "('g, 'w) framework \<Rightarrow> int \<Rightarrow> int \<Rightarrow> ('g, 'w) tm_world \<Rightarrow> (('g, 'w) tm_world \<times> bool) option" where
  "hitBySquirt F x y w = hit_actors F x y [0..<length (w_actors w)] w False"

subsection \<open>Other functions the objects call\<close>

definition decBarrelCount :: "('g, 'w) tm_world \<Rightarrow> ('g, 'w) tm_world" where
  "decBarrelCount w = w\<lparr>w_barrels := w_barrels w - 1\<rparr>"

definition on_man :: "('g tunnel_man \<Rightarrow> 'g tunnel_man) \<Rightarrow> ('g, 'w) tm_world \<Rightarrow> ('g, 'w) tm_world outcome" where
  "on_man f w = obind (the_man w) (\<lambda>t. Ret (w\<lparr>w_man := Some (f t)\<rparr>))"

definition incSquirts :: "('g, 'w) tm_world \<Rightarrow> ('g, 'w) tm_world outcome" where
  "incSquirts = on_man (\<lambda>t. t\<lparr>t_squirts := t_squirts t + 5\<rparr>)"

definition incKits :: "('g, 'w) tm_world \<Rightarrow> ('g, 'w) tm_world outcome" where
  "incKits = on_man (\<lambda>t. t\<lparr>t_kits := t_kits t + 1\<rparr>)"

definition incNuggets :: "('g, 'w) tm_world \<Rightarrow> ('g, 'w) tm_world outcome" where
  "incNuggets = on_man (\<lambda>t. t\<lparr>t_nuggets := t_nuggets t + 1\<rparr>)"

text \<open>These three are not called.\<close>

definition decSquirts :: "('g, 'w) tm_world \<Rightarrow> ('g, 'w) tm_world outcome" where
  "decSquirts = on_man (\<lambda>t. t\<lparr>t_squirts := t_squirts t - 1\<rparr>)"

definition dectKits :: "('g, 'w) tm_world \<Rightarrow> ('g, 'w) tm_world outcome" where
  "dectKits = on_man (\<lambda>t. t\<lparr>t_kits := t_kits t - 1\<rparr>)"

definition dectNugeets :: "('g, 'w) tm_world \<Rightarrow> ('g, 'w) tm_world outcome" where
  "dectNugeets = on_man (\<lambda>t. t\<lparr>t_nuggets := t_nuggets t - 1\<rparr>)"

definition add_actor :: "'g actor \<Rightarrow> ('g, 'w) tm_world \<Rightarrow> ('g, 'w) tm_world" where
  "add_actor a w = w\<lparr>w_actors := w_actors w @ [a]\<rparr>"

definition near_man :: "('g, 'w) framework \<Rightarrow> int \<Rightarrow> nat \<Rightarrow> ('g, 'w) tm_world \<Rightarrow> bool outcome" where
  "near_man F d i w =
     obind (the_man w) (\<lambda>t. Ret (within_distance d (actor_x F w i) (actor_y F w i) (g_x F (t_obj t)) (g_y F (t_obj t))))"

definition unveil :: "('g, 'w) framework \<Rightarrow> ('g, 'w) tm_world \<Rightarrow> ('g, 'w) tm_world outcome" where
  "unveil F w =
     (if w_actors w = [] then Ret w
      else obind (the_man w) (\<lambda>t. Ret (w\<lparr>w_actors := map (\<lambda>a.
        if within_distance 12 (g_x F (t_obj t)) (g_y F (t_obj t)) (g_x F (a_obj a)) (g_y F (a_obj a))
        then a\<lparr>a_obj := g_setVisible F True (a_obj a)\<rparr> else a) (w_actors w)\<rparr>)))"

end
