(* ===== verification/TunnelGame.thy ===== *)
theory TunnelGame
  imports TunnelWorld
begin

text \<open>
  The behaviour of the objects (\<open>Actor.cpp\<close>) and the level (\<open>init\<close>, \<open>move\<close>, \<open>cleanUp\<close> and the destructor of
  \<open>StudentWorld.cpp\<close>) of the game of \<open>CS32/Project 4, Pt2\<close>. An object is given by its index in the vector of
  objects. Iterators are indices; only an access through one can fault.
\<close>

subsection \<open>Boulder\<close>

definition boulder_stable :: "('g, 'w) framework \<Rightarrow> nat \<Rightarrow> ('g, 'w) tm_world \<Rightarrow> (('g, 'w) tm_world \<times> bool) outcome" where
  "boulder_stable F i w =
     (let x = actor_x F w i; y = actor_y F w i in
      if a_state (w_actors w ! i) = St_stable
      then obind (checkEarth w x (y - 1)) (\<lambda>e0. obind (checkEarth w (x + 1) (y - 1)) (\<lambda>e1.
           obind (checkEarth w (x + 2) (y - 1)) (\<lambda>e2. obind (checkEarth w (x + 3) (y - 1)) (\<lambda>e3.
             if e0 \<or> e1 \<or> e2 \<or> e3 then Ret (w, False) else Ret (set_class i (Boulder 30) (set_state i St_waiting w), True)))))
      else Ret (w, True))"

definition boulder_waiting :: "('g, 'w) framework \<Rightarrow> nat \<Rightarrow> ('g, 'w) tm_world \<Rightarrow> ('g, 'w) tm_world" where
  "boulder_waiting F i w =
     (case (a_state (w_actors w ! i), a_class (w_actors w ! i)) of
        (St_waiting, Boulder waitClock) \<Rightarrow>
          if waitClock = 0 then in_game (gw_playSound F SOUND_FALLING_ROCK) (set_state i St_falling w)
          else set_class i (Boulder (waitClock - 1)) w
      | _ \<Rightarrow> w)"

definition boulder_falling :: "('g, 'w) framework \<Rightarrow> nat \<Rightarrow> ('g, 'w) tm_world \<Rightarrow> ('g, 'w) tm_world outcome option" where
  "boulder_falling F i w =
     (let x = actor_x F w i; y = actor_y F w i in
      if a_state (w_actors w ! i) = St_falling
      then if y = 0 then Some (Ret (set_state i St_dead w))
        else obind2 (Some (checkEarth w x y)) (\<lambda>e.
          if e \<or> blocked F w x y then Some (Ret (set_state i St_dead w))
          else obind2 (crushedByRock F x y w) (\<lambda>w. Some (Ret (on_obj i (g_moveTo F x (y - 1)) w))))
      else Some (Ret w))"

definition boulder_do :: "('g, 'w) framework \<Rightarrow> nat \<Rightarrow> ('g, 'w) tm_world \<Rightarrow> ('g, 'w) tm_world outcome option" where
  "boulder_do F i w =
     (if a_state (w_actors w ! i) = St_dead then Some (Ret w)
      else obind2 (Some (boulder_stable F i w)) (\<lambda>(w, go). if go then boulder_falling F i (boulder_waiting F i w) else Some (Ret w)))"

subsection \<open>Water\<close>

definition squirt_step :: "('g, 'w) framework \<Rightarrow> nat \<Rightarrow> int \<Rightarrow> bool \<Rightarrow> int \<Rightarrow> int \<Rightarrow> ('g, 'w) tm_world \<Rightarrow> ('g, 'w) tm_world outcome" where
  "squirt_step F i travel boundary nx ny w =
     (if boundary then Ret (set_state i St_dead w)
      else obind (checkEarth w nx ny) (\<lambda>e.
        if e \<or> blocked F w (actor_x F w i) (actor_y F w i) then Ret (set_state i St_dead w)
        else Ret (set_class i (WaterSquirt (travel - 1)) (on_obj i (g_moveTo F nx ny) w))))"

text \<open>The coordinates passed to \<open>hitBySquirt\<close> are twice \<open>getX()\<close>, as in the source.\<close>

definition squirt_do :: "('g, 'w) framework \<Rightarrow> nat \<Rightarrow> int \<Rightarrow> ('g, 'w) tm_world \<Rightarrow> ('g, 'w) tm_world outcome option" where
  "squirt_do F i travel w =
     Option.bind (hitBySquirt F (actor_x F w i) (actor_x F w i) w) (\<lambda>(w, hit).
       let w = (if hit then set_state i St_dead w else w); x = actor_x F w i; y = actor_y F w i in
       Some (if travel = 0 then Ret (set_state i St_dead w)
         else case g_dir F (a_obj (w_actors w ! i)) of
             Dir_right \<Rightarrow> squirt_step F i travel (x = 60) (x + 1) y w
           | Dir_left \<Rightarrow> squirt_step F i travel (x = 0) (x - 1) y w
           | Dir_up \<Rightarrow> squirt_step F i travel (y = 60) x (y + 1) w
           | Dir_down \<Rightarrow> squirt_step F i travel (y = 0) x (y - 1) w
           | Dir_other \<Rightarrow> Ret w))"

definition refill_activate :: "('g, 'w) framework \<Rightarrow> nat \<Rightarrow> ('g, 'w) tm_world \<Rightarrow> ('g, 'w) tm_world outcome" where
  "refill_activate F i w =
     obind (incSquirts (in_game (gw_playSound F SOUND_GOT_GOODIE) w)) (\<lambda>w.
       Ret (set_state i St_dead (in_game (gw_addScore F 100) w)))"

definition refill_do :: "('g, 'w) framework \<Rightarrow> nat \<Rightarrow> int \<Rightarrow> ('g, 'w) tm_world \<Rightarrow> ('g, 'w) tm_world outcome" where
  "refill_do F i clock w =
     (let w = (if clock = 0 then set_state i St_dead w else w) in
      if a_state (w_actors w ! i) = St_dead then Ret w
      else obind (near_man F 3 i w) (\<lambda>near.
        if near then refill_activate F i w
        else if a_state (w_actors w ! i) = St_temporary then Ret (set_class i (WaterRefill (clock - 1)) w)
        else Ret w))"

subsection \<open>Barrel, nugget and sonar kit\<close>

definition barrel_activate :: "('g, 'w) framework \<Rightarrow> nat \<Rightarrow> ('g, 'w) tm_world \<Rightarrow> ('g, 'w) tm_world" where
  "barrel_activate F i w =
     decBarrelCount (in_game (gw_addScore F 1000) (in_game (gw_playSound F SOUND_FOUND_OIL) (set_state i St_dead w)))"

definition barrel_do :: "('g, 'w) framework \<Rightarrow> nat \<Rightarrow> ('g, 'w) tm_world \<Rightarrow> ('g, 'w) tm_world outcome" where
  "barrel_do F i w =
     (if a_state (w_actors w ! i) = St_dead then Ret w
      else obind (near_man F 4 i w) (\<lambda>near4. obind (near_man F 3 i w) (\<lambda>near3.
        if \<not> g_visible F (a_obj (w_actors w ! i)) \<and> near4 then Ret (on_obj i (g_setVisible F True) w)
        else if near3 then Ret (barrel_activate F i w)
        else Ret w)))"

definition nugget_activate :: "('g, 'w) framework \<Rightarrow> nat \<Rightarrow> ('g, 'w) tm_world \<Rightarrow> ('g, 'w) tm_world outcome" where
  "nugget_activate F i w = incNuggets (in_game (gw_addScore F 10) (in_game (gw_playSound F SOUND_GOT_GOODIE) (set_state i St_dead w)))"

definition nugget_do :: "('g, 'w) framework \<Rightarrow> nat \<Rightarrow> bool \<Rightarrow> int \<Rightarrow> ('g, 'w) tm_world \<Rightarrow> ('g, 'w) tm_world outcome" where
  "nugget_do F i bribe clock w =
     (if a_state (w_actors w ! i) = St_dead then Ret w
      else if \<not> bribe
      then obind (near_man F 3 i w) (\<lambda>near3. obind (near_man F 4 i w) (\<lambda>near4.
        if near3 then nugget_activate F i w
        else if near4 then Ret (on_obj i (g_setVisible F True) w)
        else Ret w))
      else let w = set_class i (GoldenNugget bribe (clock - 1)) w in
        Ret (if clock - 1 = 0 then set_state i St_dead w else w))"

definition sonar_activate :: "('g, 'w) framework \<Rightarrow> nat \<Rightarrow> ('g, 'w) tm_world \<Rightarrow> ('g, 'w) tm_world outcome" where
  "sonar_activate F i w = incKits (in_game (gw_addScore F 75) (in_game (gw_playSound F SOUND_GOT_GOODIE) (set_state i St_dead w)))"

definition sonar_do :: "('g, 'w) framework \<Rightarrow> nat \<Rightarrow> int \<Rightarrow> ('g, 'w) tm_world \<Rightarrow> ('g, 'w) tm_world outcome" where
  "sonar_do F i clock w =
     (let w = (if clock = 0 then set_state i St_dead w else w) in
      if a_state (w_actors w ! i) = St_dead then Ret w
      else obind (near_man F 3 i w) (\<lambda>near.
        if near then sonar_activate F i w
        else if a_state (w_actors w ! i) = St_temporary then Ret (set_class i (SonarKit (clock - 1)) w)
        else Ret w))"

subsection \<open>Protestor\<close>

definition the_protestor :: "('g, 'w) tm_world \<Rightarrow> nat \<Rightarrow> protestor" where
  "the_protestor w i = (case a_class (w_actors w ! i) of RegularProtestor p \<Rightarrow> p | _ \<Rightarrow> undefined)"

definition on_protestor :: "nat \<Rightarrow> (protestor \<Rightarrow> protestor) \<Rightarrow> ('g, 'w) tm_world \<Rightarrow> ('g, 'w) tm_world" where
  "on_protestor i f w = set_class i (RegularProtestor (f (the_protestor w i))) w"

definition shout_tick :: "protestor \<Rightarrow> protestor" where
  "shout_tick p = (if pr_shout p \<noteq> 0 then p\<lparr>pr_shout := pr_shout p - 1\<rparr> else p)"

definition shout :: "('g, 'w) framework \<Rightarrow> nat \<Rightarrow> ('g, 'w) tm_world \<Rightarrow> ('g, 'w) tm_world outcome" where
  "shout F i w =
     obind (annoyPlayer (in_game (gw_playSound F SOUND_PROTESTER_YELL) w)) (\<lambda>w. Ret (on_protestor i (\<lambda>p. p\<lparr>pr_shout := 15\<rparr>) w))"

definition attemptShout :: "('g, 'w) framework \<Rightarrow> nat \<Rightarrow> ('g, 'w) tm_world \<Rightarrow> ('g, 'w) tm_world outcome" where
  "attemptShout F i w =
     (if pr_shout (the_protestor w i) \<noteq> 0 then Ret w
      else obind (the_man w) (\<lambda>t.
        let dir = g_dir F (a_obj (w_actors w ! i)) in
        if dir = Dir_right \<and> actor_x F w i < g_x F (t_obj t) \<or> dir = Dir_left \<and> actor_x F w i > g_x F (t_obj t)
          \<or> dir = Dir_up \<and> actor_y F w i < g_y F (t_obj t) \<or> dir = Dir_down \<and> actor_y F w i > g_y F (t_obj t)
        then obind (shout F i w) (\<lambda>w. Ret (on_protestor i (\<lambda>p. p\<lparr>pr_shout := pr_shout p + 15\<rparr>) w))
        else Ret w))"

definition turn_and_go :: "('g, 'w) framework \<Rightarrow> nat \<Rightarrow> direction \<Rightarrow> int \<Rightarrow> int \<Rightarrow> ('g, 'w) tm_world \<Rightarrow> ('g, 'w) tm_world" where
  "turn_and_go F i dir nx ny w = on_obj i (g_moveTo F nx ny) (on_obj i (g_setDir F dir) w)"

definition moveTowardPlayer :: "('g, 'w) framework \<Rightarrow> nat \<Rightarrow> ('g, 'w) tm_world \<Rightarrow> ('g, 'w) tm_world outcome" where
  "moveTowardPlayer F i w =
     obind (the_man w) (\<lambda>t. let x = actor_x F w i; y = actor_y F w i; px = g_x F (t_obj t); py = g_y F (t_obj t) in
       Ret (if x < px then turn_and_go F i Dir_right (x + 1) y w
         else if x > px then turn_and_go F i Dir_left (x - 1) y w
         else if y < py then turn_and_go F i Dir_up x (y + 1) w
         else if y > py then turn_and_go F i Dir_down x (y - 1) w
         else w))"

definition sawPlayer :: "('g, 'w) framework \<Rightarrow> nat \<Rightarrow> ('g, 'w) tm_world \<Rightarrow> bool outcome" where
  "sawPlayer F i w =
     obind (the_man w) (\<lambda>t. clearPath F w (actor_x F w i) (actor_y F w i) (g_x F (t_obj t)) (g_y F (t_obj t)))"

definition way_clear :: "('g, 'w) framework \<Rightarrow> nat \<Rightarrow> direction \<Rightarrow> ('g, 'w) tm_world \<Rightarrow> bool outcome" where
  "way_clear F i dir w =
     (let x = actor_x F w i; y = actor_y F w i in
      case dir of
        Dir_right \<Rightarrow> clearPath F w x y (x + 1) y
      | Dir_left \<Rightarrow> clearPath F w x y (x - 1) y
      | Dir_up \<Rightarrow> clearPath F w x y x (y + 1)
      | Dir_down \<Rightarrow> clearPath F w x y x (y - 1)
      | Dir_other \<Rightarrow> Ret True)"

text \<open>The numbers drawn are 0, 1 or 2; the case of 3, downwards, is in the code and never taken.\<close>

partial_function (option) pickNewDirection :: "('g, 'w) framework \<Rightarrow> nat \<Rightarrow> ('g, 'w) tm_world \<Rightarrow> ('g, 'w) tm_world outcome option" where
  "pickNewDirection F i w =
     (let r = rand_mod (w_rand w) 3; w = w\<lparr>w_rand := rand_rest (w_rand w)\<rparr>;
          dir = (if r = 0 then Dir_right else if r = 1 then Dir_left else if r = 2 then Dir_up else Dir_down);
          w = on_obj i (g_setDir F dir) w in
      obind2 (Some (way_clear F i dir w)) (\<lambda>ok. if ok then Some (Ret w) else pickNewDirection F i w))"

declare pickNewDirection.simps [code]

definition moveOnce :: "('g, 'w) framework \<Rightarrow> nat \<Rightarrow> ('g, 'w) tm_world \<Rightarrow> ('g, 'w) tm_world \<times> bool" where
  "moveOnce F i w =
     (let x = actor_x F w i; y = actor_y F w i in
      case g_dir F (a_obj (w_actors w ! i)) of
        Dir_left \<Rightarrow> if x = 0 then (w, False) else (on_obj i (g_moveTo F (x - 1) y) w, True)
      | Dir_right \<Rightarrow> if x = 60 then (w, False) else (on_obj i (g_moveTo F (x + 1) y) w, True)
      | Dir_up \<Rightarrow> if y = 60 then (w, False) else (on_obj i (g_moveTo F x (y + 1)) w, True)
      | Dir_down \<Rightarrow> if y = 0 then (w, False) else (on_obj i (g_moveTo F x (y - 1)) w, True)
      | Dir_other \<Rightarrow> (w, False))"

definition turn_to :: "('g, 'w) framework \<Rightarrow> nat \<Rightarrow> direction \<Rightarrow> ('g, 'w) tm_world \<Rightarrow> ('g, 'w) tm_world" where
  "turn_to F i dir w = fst (moveOnce F i (on_obj i (g_setDir F dir) w))"

definition checkForTurn :: "('g, 'w) framework \<Rightarrow> nat \<Rightarrow> ('g, 'w) tm_world \<Rightarrow> ('g, 'w) tm_world outcome" where
  "checkForTurn F i w =
     (let dir = g_dir F (a_obj (w_actors w ! i));
          (d1, d2) = (if dir = Dir_right \<or> dir = Dir_left then (Dir_up, Dir_down) else (Dir_right, Dir_left)) in
      obind (way_clear F i d1 w) (\<lambda>c1.
        if c1 then Ret (turn_to F i d1 w)
        else obind (way_clear F i d2 w) (\<lambda>c2. Ret (if c2 then turn_to F i d2 w else w))))"

definition exit_step :: "('g, 'w) framework \<Rightarrow> nat \<Rightarrow> direction \<Rightarrow> int \<Rightarrow> int \<Rightarrow> ('g, 'w) tm_world \<Rightarrow> ('g, 'w) tm_world" where
  "exit_step F i dir nx ny w =
     (if g_dir F (a_obj (w_actors w ! i)) \<noteq> dir then on_obj i (g_setDir F dir) w else on_obj i (g_moveTo F nx ny) w)"

definition followExitPath :: "('g, 'w) framework \<Rightarrow> nat \<Rightarrow> char \<Rightarrow> ('g, 'w) tm_world \<Rightarrow> ('g, 'w) tm_world" where
  "followExitPath F i c w =
     (let x = actor_x F w i; y = actor_y F w i in
      if c = CHR ''W'' then exit_step F i Dir_left (x - 1) y w
      else if c = CHR ''E'' then exit_step F i Dir_right (x + 1) y w
      else if c = CHR ''N'' then exit_step F i Dir_up x (y + 1) w
      else if c = CHR ''S'' then exit_step F i Dir_down x (y - 1) w
      else w)"

text \<open>\<open>erase(0)\<close> removes all characters from position 0 on; \<open>front()\<close> of an empty string faults.\<close>

definition exit_do :: "('g, 'w) framework \<Rightarrow> nat \<Rightarrow> ('g, 'w) tm_world \<Rightarrow> ('g, 'w) tm_world outcome" where
  "exit_do F i w =
     (let w = on_protestor i shout_tick w in
      case pr_exitPath (the_protestor w i) of
        [] \<Rightarrow> SegFault
      | c # _ \<Rightarrow> Ret (followExitPath F i c (if c \<noteq> CHR 0x00 then on_protestor i (\<lambda>p. p\<lparr>pr_exitPath := []\<rparr>) w else w)))"

definition protestor_moves :: "('g, 'w) framework \<Rightarrow> nat \<Rightarrow> ('g, 'w) tm_world \<Rightarrow> ('g, 'w) tm_world outcome option" where
  "protestor_moves F i w =
     (case moveOnce F i w of (w, moved) \<Rightarrow> if moved then Some (Ret w) else pickNewDirection F i w)"

definition protestor_wanders :: "('g, 'w) framework \<Rightarrow> nat \<Rightarrow> ('g, 'w) tm_world \<Rightarrow> ('g, 'w) tm_world outcome option" where
  "protestor_wanders F i w =
     (let w = on_protestor i (\<lambda>p. p\<lparr>pr_squares := pr_squares p - 1\<rparr>) w in
      if pr_squares (the_protestor w i) \<le> 0
      then obind2 (pickNewDirection F i w) (\<lambda>w.
        let r = rand_mod (w_rand w) 52; w = w\<lparr>w_rand := rand_rest (w_rand w)\<rparr> in
        Some (Ret (fst (moveOnce F i (on_protestor i (\<lambda>p. p\<lparr>pr_squares := r + 8\<rparr>) w)))))
      else obind2 (Some (checkForTurn F i w)) (protestor_moves F i))"

definition protestor_do :: "('g, 'w) framework \<Rightarrow> nat \<Rightarrow> ('g, 'w) tm_world \<Rightarrow> ('g, 'w) tm_world outcome option" where
  "protestor_do F i w =
     (let w = on_protestor i shout_tick w;
          w = (if pr_ticks (the_protestor w i) \<le> 0 then set_state i St_searching w else w);
          st = a_state (w_actors w ! i) in
      if st = St_dead then Some (Ret w)
      else if st = St_resting then Some (Ret (on_protestor i (\<lambda>p. p\<lparr>pr_ticks := pr_ticks p - 1\<rparr>) w))
      else if st = St_exiting
      then if actor_x F w i = 60 \<and> actor_y F w i = 60 then protestor_moves F i (set_state i St_dead w)
        else Some (exit_do F i w)
      else obind2 (Some (near_man F 4 i w)) (\<lambda>near.
        if near then obind2 (Some (attemptShout F i w)) (protestor_moves F i)
        else obind2 (Some (sawPlayer F i w)) (\<lambda>seen.
          if seen then Some (moveTowardPlayer F i w) else protestor_wanders F i w)))"

subsection \<open>The virtual function of the objects\<close>

definition actor_do :: "('g, 'w) framework \<Rightarrow> nat \<Rightarrow> ('g, 'w) tm_world \<Rightarrow> ('g, 'w) tm_world outcome option" where
  "actor_do F i w =
     (case a_class (w_actors w ! i) of
        Boulder _ \<Rightarrow> boulder_do F i w
      | Barrel \<Rightarrow> Some (barrel_do F i w)
      | WaterRefill clock \<Rightarrow> Some (refill_do F i clock w)
      | WaterSquirt travel \<Rightarrow> squirt_do F i travel w
      | GoldenNugget bribe clock \<Rightarrow> Some (nugget_do F i bribe clock w)
      | SonarKit clock \<Rightarrow> Some (sonar_do F i clock w)
      | RegularProtestor _ \<Rightarrow> protestor_do F i w)"

subsection \<open>The player\<close>

datatype key = KEY_PRESS_ESCAPE | KEY_PRESS_SPACE | KEY_PRESS_LEFT | KEY_PRESS_RIGHT | KEY_PRESS_UP | KEY_PRESS_DOWN
  | KEY_PRESS_TAB | INVALID_KEY | Key_char char

definition set_man :: "'g tunnel_man \<Rightarrow> ('g, 'w) tm_world \<Rightarrow> ('g, 'w) tm_world" where
  "set_man t w = w\<lparr>w_man := Some t\<rparr>"

definition man_step :: "('g, 'w) framework \<Rightarrow> direction \<Rightarrow> bool \<Rightarrow> int \<Rightarrow> int \<Rightarrow> 'g tunnel_man \<Rightarrow> ('g, 'w) tm_world \<Rightarrow> ('g, 'w) tm_world" where
  "man_step F dir boundary nx ny t w =
     (if g_dir F (t_obj t) \<noteq> dir then set_man (t\<lparr>t_obj := g_setDir F dir (t_obj t)\<rparr>) w
      else if boundary \<or> blocked F w nx ny then w
      else set_man (t\<lparr>t_obj := g_moveTo F nx ny (t_obj t)\<rparr>) w)"

definition man_fires :: "('g, 'w) framework \<Rightarrow> 'g tunnel_man \<Rightarrow> ('g, 'w) tm_world \<Rightarrow> ('g, 'w) tm_world" where
  "man_fires F t w =
     (let x = g_x F (t_obj t); y = g_y F (t_obj t); dir = g_dir F (t_obj t);
          fire = (\<lambda>sx sy. set_man (t\<lparr>t_squirts := t_squirts t - 1\<rparr>) (add_actor (new_WaterSquirt F sx sy dir) w)) in
      if t_squirts t = 0 then w
      else in_game (gw_playSound F SOUND_PLAYER_SQUIRT)
        (case dir of
           Dir_right \<Rightarrow> fire (x + 4) y
         | Dir_left \<Rightarrow> fire (x - 4) y
         | Dir_up \<Rightarrow> fire x (y + 4)
         | Dir_down \<Rightarrow> fire x (y - 4)
         | Dir_other \<Rightarrow> w))"

definition man_key :: "('g, 'w) framework \<Rightarrow> key \<Rightarrow> 'g tunnel_man \<Rightarrow> ('g, 'w) tm_world \<Rightarrow> ('g, 'w) tm_world outcome" where
  "man_key F k t w =
     (let x = g_x F (t_obj t); y = g_y F (t_obj t) in
      case k of
        KEY_PRESS_ESCAPE \<Rightarrow> Ret (set_man (t\<lparr>t_dead := True\<rparr>) w)
      | KEY_PRESS_SPACE \<Rightarrow> Ret (man_fires F t w)
      | KEY_PRESS_LEFT \<Rightarrow> Ret (man_step F Dir_left (x = 0) (x - 1) y t w)
      | KEY_PRESS_RIGHT \<Rightarrow> Ret (man_step F Dir_right (x = 60) (x + 1) y t w)
      | KEY_PRESS_UP \<Rightarrow> Ret (man_step F Dir_up (y = 60) x (y + 1) t w)
      | KEY_PRESS_DOWN \<Rightarrow> Ret (man_step F Dir_down (y = 0) x (y - 1) t w)
      | KEY_PRESS_TAB \<Rightarrow>
          Ret (if t_nuggets t > 0
            then add_actor (new_GoldenNugget F x y) (set_man (t\<lparr>t_nuggets := t_nuggets t - 1\<rparr>) w) else w)
      | INVALID_KEY \<Rightarrow> Ret w
      | Key_char c \<Rightarrow>
          if c \<in> {CHR ''Z'', CHR ''z''} \<and> t_kits t > 0
          then obind (unveil F (set_man (t\<lparr>t_kits := t_kits t - 1\<rparr>) w)) (\<lambda>w. Ret (in_game (gw_playSound F SOUND_SONAR) w))
          else Ret w)"

definition man_do :: "('g, 'w) framework \<Rightarrow> key option \<Rightarrow> ('g, 'w) tm_world \<Rightarrow> ('g, 'w) tm_world outcome" where
  "man_do F ch w =
     obind (the_man w) (\<lambda>t.
       if t_dead t then Ret w
       else obind (digEarth F (g_x F (t_obj t)) (g_y F (t_obj t)) w) (\<lambda>w.
         case ch of None \<Rightarrow> Ret w | Some k \<Rightarrow> man_key F k t w))"

subsection \<open>New goodies and the display\<close>

fun any_earth :: "('g, 'w) tm_world \<Rightarrow> (int \<times> int) list \<Rightarrow> bool \<Rightarrow> bool outcome" where
  "any_earth w [] hasEarth = Ret hasEarth"
| "any_earth w ((i, k) # cs) hasEarth = obind (checkEarth w i k) (\<lambda>e. any_earth w cs (hasEarth \<or> e))"

fun refill_loop :: "('g, 'w) framework \<Rightarrow> nat \<Rightarrow> ('g, 'w) tm_world \<Rightarrow> ('g, 'w) tm_world outcome" where
  "refill_loop F 0 w = Ret w"
| "refill_loop F (Suc addWindow) w =
     (if addWindow = 0 then Ret w
      else let x = rand_mod (w_rand w) 59; w = w\<lparr>w_rand := rand_rest (w_rand w)\<rparr>;
               y = rand_mod (w_rand w) 56; w = w\<lparr>w_rand := rand_rest (w_rand w)\<rparr> in
        obind (any_earth w [(i, k). i \<leftarrow> [x..x + 4], k \<leftarrow> [y..y + 4]] False) (\<lambda>hasEarth.
          if hasEarth then refill_loop F addWindow w
          else Ret (add_actor (new_WaterRefill F (gw_level F (w_game w)) x y) w)))"

definition addGoodies :: "('g, 'w) framework \<Rightarrow> (nat \<Rightarrow> nat) \<Rightarrow> ('g, 'w) tm_world \<Rightarrow> ('g, 'w) tm_world outcome" where
  "addGoodies F seed w =
     (let n = gw_level F (w_game w) * 10 + 300 in
      if n = 0 then DivFault
      else let goodieProbA = c_mod (int (seed 0)) n; w = w\<lparr>w_rand := rand_rest seed\<rparr> in
        if goodieProbA = 1
        then let goodieProbB = rand_mod (w_rand w) 4; w = w\<lparr>w_rand := rand_rest (w_rand w)\<rparr> in
          if goodieProbB = 1 then Ret (add_actor (new_SonarKit F (gw_level F (w_game w))) w)
          else refill_loop F 5 w
        else Ret w)"

definition setw :: "nat \<Rightarrow> char \<Rightarrow> string \<Rightarrow> string" where
  "setw n fill s = replicate (n - length s) fill @ s"

definition formatDisplay :: "int \<Rightarrow> int \<Rightarrow> int \<Rightarrow> int \<Rightarrow> int \<Rightarrow> int \<Rightarrow> int \<Rightarrow> int \<Rightarrow> string" where
  "formatDisplay level lives health squirts gold barrelsLeft sonar score =
     (let sp = CHR '' ''; healthPct = (if health < 10 then c_mod (health * 10) 100 else 100) in
      setw 2 sp ''Lvl: '' @ fmt_d level @ setw 8 sp ''Lives: '' @ fmt_d lives @ setw 7 sp ''Hlth: '' @ fmt_d healthPct @ ''%'' @
      setw 6 sp ''Wtr: '' @ fmt_d squirts @ setw 6 sp ''Gld: '' @ fmt_d gold @ setw 11 sp ''Oil Left: '' @ fmt_d barrelsLeft @
      setw 8 sp ''Sonar: '' @ fmt_d sonar @ setw 6 sp ''Scr: '' @ setw 8 (CHR ''0'') (fmt_d score))"

definition setDisplayText :: "('g, 'w) framework \<Rightarrow> ('g, 'w) tm_world \<Rightarrow> ('g, 'w) tm_world outcome" where
  "setDisplayText F w =
     obind (the_man w) (\<lambda>t. let g = w_game w in
       Ret (in_game (gw_setText F (formatDisplay (gw_level F g) (gw_lives F g) (t_hitPoints t) (t_squirts t) (t_nuggets t)
         (w_barrels w) (t_kits t) (gw_score F g))) w))"

subsection \<open>A level\<close>

datatype game_status = GWSTATUS_CONTINUE_GAME | GWSTATUS_PLAYER_DIED | GWSTATUS_FINISHED_LEVEL

function erase_if :: "('a \<Rightarrow> bool) \<Rightarrow> nat \<Rightarrow> 'a list \<Rightarrow> 'a list" where
  "erase_if P k xs =
     (if k < length xs
      then if P (xs ! k) then erase_if P k (take k xs @ drop (Suc k) xs) else erase_if P (Suc k) xs
      else xs)"
  by auto
termination by (relation "measure (\<lambda>(_, k, xs). length xs - k)") auto

fun act_all :: "('g, 'w) framework \<Rightarrow> nat list \<Rightarrow> ('g, 'w) tm_world \<Rightarrow> ('g, 'w) tm_world outcome option" where
  "act_all F [] w = Some (Ret w)"
| "act_all F (i # is) w =
     obind2 (if a_state (w_actors w ! i) \<noteq> St_dead then actor_do F i w else Some (Ret w)) (act_all F is)"

definition tm_move ::
  "('g, 'w) framework \<Rightarrow> key option \<Rightarrow> (nat \<Rightarrow> nat) \<Rightarrow> ('g, 'w) tm_world \<Rightarrow> (game_status \<times> ('g, 'w) tm_world) outcome option" where
  "tm_move F ch seed w =
     obind2 (Some (the_man w)) (\<lambda>t.
       if t_state t = St_dead
       then Some (Ret (GWSTATUS_PLAYER_DIED, in_game (gw_decLives F) (in_game (gw_playSound F SOUND_PLAYER_GIVE_UP) w)))
       else obind2 (Some (man_do F ch w)) (\<lambda>w.
         if w_barrels w = 0 then Some (Ret (GWSTATUS_FINISHED_LEVEL, in_game (gw_playSound F SOUND_FINISHED_LEVEL) w))
         else obind2 (act_all F [0..<length (w_actors w)] w) (\<lambda>w.
           let w = w\<lparr>w_actors := erase_if (\<lambda>a. a_state a = St_dead) 0 (w_actors w)\<rparr> in
           obind2 (Some (addGoodies F seed w)) (\<lambda>w.
             obind2 (Some (setDisplayText F w)) (\<lambda>w. Some (Ret (GWSTATUS_CONTINUE_GAME, w)))))))"

definition fill_earth :: "(int \<Rightarrow> earth_ptr) \<Rightarrow> int \<Rightarrow> earth_ptr" where
  "fill_earth = fold (\<lambda>(i, j) g.
     let g = g(cell_at i j := Earth_valid) in
     if i = 59 then g(cell_at (i + 1) j := Earth_valid, cell_at (i + 2) j := Earth_valid, cell_at (i + 3) j := Earth_valid) else g)
     [(i, j). i \<leftarrow> [0..59], j \<leftarrow> [0..59]]"

partial_function (option) find_place ::
  "('g, 'w) framework \<Rightarrow> 'g actor list \<Rightarrow> bool \<Rightarrow> (nat \<Rightarrow> nat) \<Rightarrow> (int \<times> int \<times> (nat \<Rightarrow> nat)) option" where
  "find_place F actors high g =
     (let x = rand_mod g 60; g1 = rand_rest g; y = (if high then rand_mod g1 36 + 20 else rand_mod g1 56); g2 = rand_rest g1 in
      if list_ex (\<lambda>a. within_distance 6 x y (g_x F (a_obj a)) (g_y F (a_obj a))) actors \<or> 26 \<le> x \<and> x < 34
      then find_place F actors high g2 else Some (x, y, g2))"

declare find_place.simps [code]

fun place_actors ::
  "('g, 'w) framework \<Rightarrow> (nat \<Rightarrow> int) \<Rightarrow> int \<Rightarrow> int \<Rightarrow> int \<Rightarrow> int list \<Rightarrow> ('g, 'w) tm_world \<Rightarrow> ('g, 'w) tm_world outcome option" where
  "place_actors F junk B G L [] w = Some (Ret w)"
| "place_actors F junk B G L (i # is) w =
     (let N = B + G + L in
      Option.bind (find_place F (w_actors w) (i < N - B) (w_rand w)) (\<lambda>(x, y, g).
        let w = w\<lparr>w_rand := g\<rparr> in
        obind2 (Some (if i < N - (G + L) then digEarth F x y (add_actor (new_Boulder F (junk (nat i)) x y) w)
            else if i \<ge> N - (G + L) \<and> i < N - G then Ret (add_actor (new_Barrel F x y) w)
            else if i \<ge> N - G \<and> i < N then Ret (add_actor (new_world_nugget F (junk (nat i)) x y) w)
            else Ret w))
          (place_actors F junk B G L is)))"

definition num_boulders :: "int \<Rightarrow> int" where "num_boulders level = min (c_div level 2 + 2) 9"
definition num_nuggets :: "int \<Rightarrow> int" where "num_nuggets level = max (c_div (5 - level) 2) 2"
definition num_barrels :: "int \<Rightarrow> int" where "num_barrels level = min (2 + level) 21"

text \<open>\<open>junk\<close> is the memory of the clocks that the constructors do not initialise.\<close>

definition tm_init ::
  "('g, 'w) framework \<Rightarrow> (nat \<Rightarrow> int) \<Rightarrow> (nat \<Rightarrow> nat) \<Rightarrow> ('g, 'w) tm_world \<Rightarrow> (game_status \<times> ('g, 'w) tm_world) outcome option" where
  "tm_init F junk seed w =
     (if gw_lives F (w_game w) \<le> 0 then Some (Ret (GWSTATUS_PLAYER_DIED, w))
      else obind2 (Some (delete_cells Earth_null [(i, j). i \<leftarrow> [30..33], j \<leftarrow> [4..59]] (fill_earth (w_ground w)) 0)) (\<lambda>r.
        let level = gw_level F (w_game w); B = num_boulders level; G = num_nuggets level; L = num_barrels level;
            w = w\<lparr>w_man := Some (new_TunnelMan F), w_ground := fst r, w_barrels := L, w_rand := seed\<rparr> in
        obind2 (place_actors F junk B G L [0..B + G + L - 1] w) (\<lambda>w.
          let a = new_RegularProtestor F (junk (nat (B + G + L))) level (int (w_rand w 0)) in
          Some (Ret (GWSTATUS_CONTINUE_GAME, add_actor a (w\<lparr>w_rand := rand_rest (w_rand w)\<rparr>))))))"

definition tm_cleanUp :: "('g, 'w) tm_world \<Rightarrow> ('g, 'w) tm_world outcome" where
  "tm_cleanUp w =
     obind (the_man w) (\<lambda>_.
     obind (delete_cells Earth_dangling [(k, j). k \<leftarrow> [0..62], j \<leftarrow> [0..59]] (w_ground w) 0) (\<lambda>r.
       Ret (w\<lparr>w_man := None, w_actors := erase_if (\<lambda>_. True) 0 (w_actors w), w_ground := fst r\<rparr>)))"

definition delete_StudentWorld :: "('g, 'w) tm_world \<Rightarrow> ('g, 'w) tm_world outcome" where
  "delete_StudentWorld w =
     obind (the_man w) (\<lambda>_.
     obind (delete_cells Earth_null [(k, j). k \<leftarrow> [0..59], j \<leftarrow> [0..59]] (w_ground w) 0) (\<lambda>r.
       Ret (w\<lparr>w_man := None, w_actors := erase_if (\<lambda>_. True) 0 (w_actors w), w_ground := fst r\<rparr>)))"

text \<open>A new world, in uninitialised memory.\<close>

definition createStudentWorld :: "'w \<Rightarrow> (int \<Rightarrow> earth_ptr) \<Rightarrow> (int \<Rightarrow> char) \<Rightarrow> int \<Rightarrow> (nat \<Rightarrow> nat) \<Rightarrow> ('g, 'w) tm_world" where
  "createStudentWorld game ground maze barrels rand =
     \<lparr>w_game = game, w_man = None, w_actors = [], w_ground = ground, w_maze = maze, w_barrels = barrels, w_rand = rand\<rparr>"

end
