(* ===== verification/TunnelGameProps.thy ===== *)
theory TunnelGameProps
  imports TunnelGame
begin

text \<open>
  What the game of \<open>CS32/Project 4, Pt2\<close> does, for a framework whose objects remember what they are given:
  an invariant of all moves (oil that is left, the field, protestors that are never annoyed), keys after
  Escape, squirts at the right border and the exit path.
\<close>

subsection \<open>The framework\<close>

definition graph_ok :: "('g, 'w) framework \<Rightarrow> bool" where
  "graph_ok F \<longleftrightarrow>
     (\<forall>img x y d n. let g = g_new F img x y d n in g_id F g = img \<and> g_x F g = x \<and> g_y F g = y \<and> g_dir F g = d) \<and>
     (\<forall>x y g. let g' = g_moveTo F x y g in g_id F g' = g_id F g \<and> g_x F g' = x \<and> g_y F g' = y \<and> g_dir F g' = g_dir F g
        \<and> g_visible F g' = g_visible F g) \<and>
     (\<forall>d g. let g' = g_setDir F d g in g_id F g' = g_id F g \<and> g_x F g' = g_x F g \<and> g_y F g' = g_y F g \<and> g_dir F g' = d
        \<and> g_visible F g' = g_visible F g) \<and>
     (\<forall>b g. let g' = g_setVisible F b g in g_id F g' = g_id F g \<and> g_x F g' = g_x F g \<and> g_y F g' = g_y F g \<and> g_dir F g' = g_dir F g
        \<and> g_visible F g' = b)"

lemma graph_new: "graph_ok F \<Longrightarrow> g_id F (g_new F img x y d n) = img \<and> g_x F (g_new F img x y d n) = x \<and>
    g_y F (g_new F img x y d n) = y \<and> g_dir F (g_new F img x y d n) = d"
  by (simp add: graph_ok_def Let_def)

lemma graph_moveTo: "graph_ok F \<Longrightarrow> g_id F (g_moveTo F x y g) = g_id F g \<and> g_x F (g_moveTo F x y g) = x \<and>
    g_y F (g_moveTo F x y g) = y \<and> g_dir F (g_moveTo F x y g) = g_dir F g"
  by (simp add: graph_ok_def Let_def)

lemma graph_setDir: "graph_ok F \<Longrightarrow> g_id F (g_setDir F d g) = g_id F g \<and> g_x F (g_setDir F d g) = g_x F g \<and>
    g_y F (g_setDir F d g) = g_y F g \<and> g_dir F (g_setDir F d g) = d"
  by (simp add: graph_ok_def Let_def)

lemma graph_setVisible: "graph_ok F \<Longrightarrow> g_id F (g_setVisible F b g) = g_id F g \<and> g_x F (g_setVisible F b g) = g_x F g \<and>
    g_y F (g_setVisible F b g) = g_y F g \<and> g_dir F (g_setVisible F b g) = g_dir F g"
  by (simp add: graph_ok_def Let_def)

lemmas graph_laws = graph_new graph_moveTo graph_setDir graph_setVisible

text \<open>A framework that keeps exactly these values, and the level, the lives, the score and the text.\<close>

definition plain_framework :: "(image_id \<times> int \<times> int \<times> direction \<times> bool, int \<times> int \<times> int \<times> string) framework" where
  "plain_framework =
     \<lparr>g_new = (\<lambda>img x y d n. (img, x, y, d, False)), g_id = fst, g_x = (\<lambda>(_, x, _). x), g_y = (\<lambda>(_, _, y, _). y),
      g_moveTo = (\<lambda>x y (img, _, _, d, b). (img, x, y, d, b)), g_dir = (\<lambda>(_, _, _, d, _). d),
      g_setDir = (\<lambda>d (img, x, y, _, b). (img, x, y, d, b)), g_visible = (\<lambda>(_, _, _, _, b). b),
      g_setVisible = (\<lambda>b (img, x, y, d, _). (img, x, y, d, b)), gw_level = fst, gw_lives = (\<lambda>(_, l, _). l),
      gw_score = (\<lambda>(_, _, s, _). s), gw_decLives = (\<lambda>(v, l, s, t). (v, l - 1, s, t)),
      gw_addScore = (\<lambda>n (v, l, s, t). (v, l, s + n, t)), gw_playSound = (\<lambda>_ g. g),
      gw_setText = (\<lambda>t (v, l, s, _). (v, l, s, t))\<rparr>"

lemma plain_framework_ok: "graph_ok plain_framework"
  by (auto simp: graph_ok_def plain_framework_def Let_def split: prod.splits)

subsection \<open>What an object keeps\<close>

definition on_field :: "('g, 'w) framework \<Rightarrow> 'g \<Rightarrow> bool" where
  "on_field F g \<longleftrightarrow> 0 \<le> g_x F g \<and> g_x F g \<le> 60 \<and> 0 \<le> g_y F g \<and> g_y F g \<le> 60"

definition unharmed :: "protestor \<Rightarrow> bool" where
  "unharmed p \<longleftrightarrow> pr_hitPoints p = 5 \<and> \<not> pr_dead p \<and> pr_exitPath p = []"

definition actor_ok :: "('g, 'w) framework \<Rightarrow> 'g actor \<Rightarrow> bool" where
  "actor_ok F a \<longleftrightarrow> \<not> a_animate a \<and>
     (case a_class a of RegularProtestor p \<Rightarrow> unharmed p \<and> a_state a = St_searching \<and> on_field F (a_obj a) | _ \<Rightarrow> True)"

definition oil_left :: "'g actor \<Rightarrow> bool" where
  "oil_left a \<longleftrightarrow> a_class a = Barrel \<and> a_state a \<noteq> St_dead"

fun class_image :: "actor_class \<Rightarrow> image_id" where
  "class_image (Boulder _) = TID_BOULDER"
| "class_image Barrel = TID_BARREL"
| "class_image (WaterRefill _) = TID_WATER_POOL"
| "class_image (WaterSquirt _) = TID_WATER_SPURT"
| "class_image (GoldenNugget _ _) = TID_GOLD"
| "class_image (SonarKit _) = TID_SONAR"
| "class_image (RegularProtestor _) = TID_PROTESTER"

definition man_kept :: "'g tunnel_man \<Rightarrow> 'g tunnel_man \<Rightarrow> bool" where
  "man_kept t t' \<longleftrightarrow> t_obj t' = t_obj t \<and> (t_dead t \<longrightarrow> t_dead t') \<and>
     t_squirts t \<le> t_squirts t' \<and> t_kits t \<le> t_kits t' \<and> t_nuggets t \<le> t_nuggets t'"

definition acted :: "('g, 'w) framework \<Rightarrow> nat \<Rightarrow> ('g, 'w) tm_world \<Rightarrow> ('g, 'w) tm_world \<Rightarrow> bool" where
  "acted F i w w' \<longleftrightarrow> length (w_actors w') = length (w_actors w) \<and> (\<forall>j. j \<noteq> i \<longrightarrow> w_actors w' ! j = w_actors w ! j) \<and>
     actor_ok F (w_actors w' ! i) \<and> class_image (a_class (w_actors w' ! i)) = class_image (a_class (w_actors w ! i)) \<and>
     w_barrels w' + of_bool (oil_left (w_actors w ! i)) = w_barrels w + of_bool (oil_left (w_actors w' ! i)) \<and>
     (\<exists>t t'. w_man w = Some t \<and> w_man w' = Some t' \<and> man_kept t t')"

lemma man_kept_refl: "man_kept t t"
  by (simp add: man_kept_def)

lemma man_kept_trans: "man_kept t t' \<Longrightarrow> man_kept t' t'' \<Longrightarrow> man_kept t t''"
  by (auto simp: man_kept_def)

lemma acted_trans: "acted F i w w' \<Longrightarrow> acted F i w' w'' \<Longrightarrow> acted F i w w''"
  by (auto simp: acted_def intro: man_kept_trans)

text \<open>The state of the world before an object acts.\<close>

definition can_act :: "('g, 'w) framework \<Rightarrow> nat \<Rightarrow> ('g, 'w) tm_world \<Rightarrow> bool" where
  "can_act F i w \<longleftrightarrow> graph_ok F \<and> i < length (w_actors w) \<and> list_all (actor_ok F) (w_actors w) \<and>
     (\<exists>t. w_man w = Some t \<and> on_field F (t_obj t))"

lemma acted_can_act: "can_act F i w \<Longrightarrow> acted F i w w' \<Longrightarrow> can_act F i w'"
proof -
  assume c: "can_act F i w" and a: "acted F i w w'"
  have "actor_ok F (w_actors w' ! j)" if "j < length (w_actors w')" for j
    using c a that by (cases "j = i") (auto simp: can_act_def acted_def list_all_length)
  with c a show ?thesis by (auto simp: can_act_def acted_def list_all_length man_kept_def)
qed

lemma acted_refl: "can_act F i w \<Longrightarrow> acted F i w w"
  by (auto simp: acted_def can_act_def list_all_length man_kept_refl)

lemma acted_put:
  "can_act F i w \<Longrightarrow> actor_ok F a \<Longrightarrow> oil_left a = oil_left (w_actors w ! i) \<Longrightarrow>
    class_image (a_class a) = class_image (a_class (w_actors w ! i)) \<Longrightarrow> acted F i w (put_actor i a w)"
  by (auto simp: acted_def can_act_def put_actor_def nth_list_update man_kept_refl)

lemma acted_same:
  "can_act F i w \<Longrightarrow> w_actors w' = w_actors w \<Longrightarrow> w_man w' = w_man w \<Longrightarrow> w_barrels w' = w_barrels w \<Longrightarrow> acted F i w w'"
  by (auto simp: acted_def can_act_def list_all_length man_kept_refl)

lemma acted_in_game: "can_act F i w \<Longrightarrow> acted F i w (in_game f w)"
  by (rule acted_same) (simp_all add: in_game_def)

lemma acted_rand: "can_act F i w \<Longrightarrow> acted F i w (w\<lparr>w_rand := g\<rparr>)"
  by (rule acted_same) simp_all

lemma acted_man:
  "can_act F i w \<Longrightarrow> w_man w = Some t \<Longrightarrow> man_kept t t' \<Longrightarrow> acted F i w (w\<lparr>w_man := Some t'\<rparr>)"
  by (auto simp: acted_def can_act_def list_all_length)

lemma acted_on_man:
  assumes "can_act F i w" and "on_man f w = Ret w'" and "\<And>t. man_kept t (f t)"
  shows "acted F i w w'"
  using assms by (auto simp: on_man_def the_man_def can_act_def intro!: acted_man)

text \<open>Nothing in the list counts as animate, so nobody there is ever annoyed.\<close>

lemma nobody_crushed:
  "list_all (\<lambda>a. \<not> a_animate a) (w_actors w) \<Longrightarrow> \<forall>i \<in> set is. i < length (w_actors w) \<Longrightarrow> crush_actors F x y is w = Some w"
  by (induction "is") (auto simp: list_all_length)

lemma nobody_hit:
  "list_all (\<lambda>a. \<not> a_animate a) (w_actors w) \<Longrightarrow> \<forall>i \<in> set is. i < length (w_actors w) \<Longrightarrow> hit_actors F x y is w b = Some (w, b)"
  by (induction "is") (auto simp: list_all_length)

lemma can_act_not_animate: "can_act F i w \<Longrightarrow> list_all (\<lambda>a. \<not> a_animate a) (w_actors w)"
  by (auto simp: can_act_def list_all_iff actor_ok_def)

lemma hitBySquirt_nobody: "can_act F i w \<Longrightarrow> hitBySquirt F x y w = Some (w, False)"
  unfolding hitBySquirt_def by (rule nobody_hit) (auto dest: can_act_not_animate)

lemma crushedByRock_acted:
  assumes "can_act F i w" and "crushedByRock F x y w = Some (Ret w')"
  shows "acted F i w w'"
proof -
  obtain t where t: "w_man w = Some t" using assms(1) by (auto simp: can_act_def)
  let ?w = "if within_distance 3 (g_x F (t_obj t) + 2) (g_y F (t_obj t) + 2) (x + 2) (y + 2)
    then w\<lparr>w_man := Some (t\<lparr>t_state := St_dead\<rparr>)\<rparr> else w"
  have a: "acted F i w ?w" using assms(1) t by (auto intro!: acted_man acted_refl simp: man_kept_def)
  have "crush_actors F x y [0..<length (w_actors ?w)] ?w = Some ?w"
    by (rule nobody_crushed) (use can_act_not_animate [OF acted_can_act [OF assms(1) a]] in auto)
  then have "w' = ?w" using assms(2) t by (simp add: crushedByRock_def the_man_def Let_def del: if_split split del: if_split)
  with a show ?thesis by simp
qed


subsection \<open>Boulders, water and goodies\<close>

lemma at_put: "i < length (w_actors w) \<Longrightarrow> w_actors (put_actor i a w) ! i = a"
  by (simp add: put_actor_def)

lemma class_image_iff [simp]:
  "class_image c = TID_BARREL \<longleftrightarrow> c = Barrel" "class_image c = TID_PROTESTER \<longleftrightarrow> (\<exists>p. c = RegularProtestor p)"
  "class_image c = TID_BOULDER \<longleftrightarrow> (\<exists>n. c = Boulder n)"
  "TID_BARREL = class_image c \<longleftrightarrow> c = Barrel" "TID_PROTESTER = class_image c \<longleftrightarrow> (\<exists>p. c = RegularProtestor p)"
  by (cases c; simp)+

lemma obind2_Ret_iff: "obind2 m f = Some (Ret y) \<longleftrightarrow> (\<exists>x. m = Some (Ret x) \<and> f x = Some (Ret y))"
  "(case r of Ret y \<Rightarrow> f y | Exit c \<Rightarrow> Some (Exit c) | SegFault \<Rightarrow> Some SegFault | DivFault \<Rightarrow> Some DivFault
     | Abort \<Rightarrow> Some Abort | Killed k \<Rightarrow> Some (Killed k) | Hang \<Rightarrow> Some Hang) = Some (Ret y) \<longleftrightarrow> (\<exists>x. r = Ret x \<and> f x = Some (Ret y))"
  by (cases m; auto split: outcome.splits) (cases r; simp)

lemma acted_set_state:
  assumes "can_act F i w" and "class_image (a_class (w_actors w ! i)) \<notin> {TID_BARREL, TID_PROTESTER}"
  shows "acted F i w (set_state i st w)"
  unfolding set_state_def using assms
  by (intro acted_put) (auto simp: can_act_def list_all_length actor_ok_def oil_left_def split: actor_class.splits)

lemma acted_set_class:
  assumes "can_act F i w" and "class_image (a_class (w_actors w ! i)) \<notin> {TID_BARREL, TID_PROTESTER}"
    and "class_image c = class_image (a_class (w_actors w ! i))"
  shows "acted F i w (set_class i c w)"
proof -
  have c: "class_image c \<noteq> TID_BARREL" "class_image c \<noteq> TID_PROTESTER" using assms(2,3) by auto
  have "\<not> a_animate (w_actors w ! i)" using assms(1) by (auto simp: can_act_def list_all_length actor_ok_def)
  with c have "actor_ok F ((w_actors w ! i)\<lparr>a_class := c\<rparr>)" by (auto simp: actor_ok_def split: actor_class.splits)
  moreover have "a_class (w_actors w ! i) \<noteq> Barrel" "c \<noteq> Barrel" using assms(2) c by auto
  ultimately show ?thesis unfolding set_class_def using assms(3)
    by (intro acted_put assms(1)) (auto simp: oil_left_def)
qed

lemma acted_on_obj:
  assumes "can_act F i w" and "class_image (a_class (w_actors w ! i)) = TID_PROTESTER \<Longrightarrow> on_field F (f (a_obj (w_actors w ! i)))"
  shows "acted F i w (on_obj i f w)"
  unfolding on_obj_def using assms
  by (intro acted_put) (auto simp: can_act_def list_all_length actor_ok_def oil_left_def split: actor_class.splits)

lemma acted_image: "acted F i w w' \<Longrightarrow> class_image (a_class (w_actors w' ! i)) = class_image (a_class (w_actors w ! i))"
  by (simp add: acted_def)

text \<open>One more change of an object that is no protestor.\<close>

lemma acted_step:
  assumes "acted F i w w1" and "can_act F i w"
    and "can_act F i w1 \<Longrightarrow> class_image (a_class (w_actors w1 ! i)) = class_image (a_class (w_actors w ! i)) \<Longrightarrow> acted F i w1 w2"
  shows "acted F i w w2"
  using acted_trans [OF assms(1) assms(3)] acted_can_act [OF assms(2,1)] acted_image [OF assms(1)] by blast

lemma acted_then_in_game: "acted F i w w1 \<Longrightarrow> can_act F i w \<Longrightarrow> acted F i w (in_game f w1)"
  by (rule acted_step) (auto intro: acted_in_game)

lemma acted_then_set_state:
  "acted F i w w1 \<Longrightarrow> can_act F i w \<Longrightarrow> class_image (a_class (w_actors w ! i)) \<notin> {TID_BARREL, TID_PROTESTER} \<Longrightarrow>
    acted F i w (set_state i st w1)"
  by (erule acted_step) (auto intro!: acted_set_state)

lemma acted_then_on_man:
  "on_man f w1 = Ret w2 \<Longrightarrow> acted F i w w1 \<Longrightarrow> can_act F i w \<Longrightarrow> (\<And>t. man_kept t (f t)) \<Longrightarrow> acted F i w w2"
  by (erule acted_step) (auto intro: acted_on_man)

lemma boulder_acted:
  assumes can: "can_act F i w" and b: "class_image (a_class (w_actors w ! i)) = TID_BOULDER" and r: "boulder_do F i w = Some (Ret w')"
  shows "acted F i w w'"
proof (cases "a_state (w_actors w ! i) = St_dead")
  case False
  obtain w1 go where s: "boulder_stable F i w = Ret (w1, go)" using False r by (cases "boulder_stable F i w") (auto simp: boulder_do_def)
  have a1: "acted F i w w1"
  proof -
    have "acted F i w (set_class i (Boulder 30) (set_state i St_waiting w))"
      using can b acted_set_state [OF can, of St_waiting]
      by (intro acted_trans [OF acted_set_state acted_set_class]) (auto intro: acted_can_act dest!: acted_image)
    with s can show ?thesis by (auto simp: boulder_stable_def Let_def obind_Ret_iff acted_refl split: if_splits)
  qed
  note c1 = acted_can_act [OF can a1]
  have b1: "class_image (a_class (w_actors w1 ! i)) = TID_BOULDER" using acted_image [OF a1] b by simp
  let ?w2 = "boulder_waiting F i w1"
  have a2: "acted F i w1 ?w2"
    using c1 b1 by (auto simp: boulder_waiting_def acted_refl
      intro!: acted_set_class acted_trans [OF acted_set_state acted_in_game] acted_can_act [OF c1 acted_set_state] split: actor_state.splits actor_class.splits)
  note c2 = acted_can_act [OF c1 a2]
  have b2: "class_image (a_class (w_actors ?w2 ! i)) = TID_BOULDER" using acted_image [OF a2] b1 by simp
  show ?thesis
  proof (cases go)
    case True
    then have r2: "boulder_falling F i ?w2 = Some (Ret w')" using r s False by (simp add: boulder_do_def)
    have "acted F i ?w2 w'"
      using r2 c2 b2 by (auto simp: boulder_falling_def Let_def acted_refl obind2_Ret_iff
        intro!: acted_set_state dest!: crushedByRock_acted [OF c2] elim!: acted_step intro: acted_on_obj split: if_splits)
    then show ?thesis by (blast intro: acted_trans a1 a2)
  qed (use r s False a1 in \<open>simp add: boulder_do_def\<close>)
qed (use assms in \<open>simp add: boulder_do_def acted_refl\<close>)

lemma squirt_step_acted:
  assumes "can_act F i w" and "class_image (a_class (w_actors w ! i)) = TID_WATER_SPURT"
    and "squirt_step F i travel boundary nx ny w = Ret w'"
  shows "acted F i w w'"
proof -
  have "acted F i w (set_class i (WaterSquirt (travel - 1)) (on_obj i (g_moveTo F nx ny) w))"
  proof (rule acted_step [OF acted_on_obj])
  qed (use assms(1,2) in \<open>auto intro: acted_set_class\<close>)
  with assms show ?thesis by (auto simp: squirt_step_def obind_Ret_iff intro: acted_set_state split: if_splits)
qed

lemma squirt_acted:
  assumes "can_act F i w" and "class_image (a_class (w_actors w ! i)) = TID_WATER_SPURT" and "squirt_do F i travel w = Some (Ret w')"
  shows "acted F i w w'"
proof -
  have hit: "hitBySquirt F (actor_x F w i) (actor_x F w i) w = Some (w, False)" by (rule hitBySquirt_nobody [OF assms(1)])
  show ?thesis
  proof (cases "travel = 0")
    case True
    with assms(3) hit have "w' = set_state i St_dead w" by (simp add: squirt_do_def Let_def)
    then show ?thesis using assms(1,2) by (simp add: acted_set_state)
  next
    case False
    then show ?thesis using assms(3) hit acted_refl [OF assms(1)]
      by (cases "g_dir F (a_obj (w_actors w ! i))")
        (auto simp: squirt_do_def Let_def intro: squirt_step_acted [OF assms(1,2)])
  qed
qed

lemma near_man_Ret: "can_act F i w \<Longrightarrow> \<exists>b. near_man F d i w = Ret b"
  by (auto simp: near_man_def the_man_def can_act_def)

lemma refill_acted:
  assumes "can_act F i w" and "class_image (a_class (w_actors w ! i)) = TID_WATER_POOL" and "refill_do F i clock w = Ret w'"
  shows "acted F i w w'"
proof -
  let ?w = "if clock = 0 then set_state i St_dead w else w"
  have a: "acted F i w ?w" using assms(1,2) by (auto intro: acted_set_state acted_refl)
  have c: "can_act F i ?w" by (rule acted_can_act [OF assms(1) a])
  have im: "class_image (a_class (w_actors ?w ! i)) = TID_WATER_POOL" using acted_image [OF a] assms(2) by simp
  have act: "acted F i v v'" if "refill_activate F i v = Ret v'" "can_act F i v" "class_image (a_class (w_actors v ! i)) = TID_WATER_POOL" for v v'
  proof -
    note v = that
    obtain u where u: "on_man (\<lambda>t. t\<lparr>t_squirts := t_squirts t + 5\<rparr>) (in_game (gw_playSound F SOUND_GOT_GOODIE) v) = Ret u"
      "v' = set_state i St_dead (in_game (gw_addScore F 100) u)"
      using v(1) by (auto simp: refill_activate_def incSquirts_def obind_Ret_iff)
    show ?thesis unfolding u(2) using v(2,3)
      by (intro acted_then_set_state acted_then_in_game acted_then_on_man [OF u(1)] acted_refl) (auto simp: man_kept_def)
  qed
  have "acted F i ?w w'" using assms(3) c im
    by (auto simp: refill_do_def Let_def obind_Ret_iff intro: act acted_refl acted_set_class split: if_splits)
  then show ?thesis by (rule acted_trans [OF a])
qed

text \<open>A barrel that is collected is no longer counted as left.\<close>

lemma barrel_acted:
  assumes can: "can_act F i w" and b: "a_class (w_actors w ! i) = Barrel" and r: "barrel_do F i w = Ret w'"
  shows "acted F i w w'"
proof (cases "a_state (w_actors w ! i) = St_dead")
  case False
  have "acted F i w (barrel_activate F i w)"
    using can b False by (auto simp: acted_def barrel_activate_def decBarrelCount_def in_game_def set_state_def put_actor_def oil_left_def
      can_act_def list_all_length actor_ok_def man_kept_refl)
  with can b r False show ?thesis
    by (auto simp: barrel_do_def obind_Ret_iff acted_refl intro: acted_on_obj split: if_split_asm)
qed (use assms in \<open>simp add: barrel_do_def acted_refl\<close>)

lemma nugget_acted:
  assumes can: "can_act F i w" and b: "class_image (a_class (w_actors w ! i)) = TID_GOLD" and r: "nugget_do F i bribe clock w = Ret w'"
  shows "acted F i w w'"
proof -
  have activate: "acted F i w w'" if "nugget_activate F i w = Ret w'"
    using that can b unfolding nugget_activate_def incNuggets_def
    by (auto elim!: acted_then_on_man intro!: acted_then_in_game acted_set_state simp: man_kept_def)
  have clock: "acted F i w (set_class i (GoldenNugget bribe n) w)" for n using can b by (auto intro: acted_set_class)
  show ?thesis
    using r can b activate clock acted_then_set_state [OF clock can]
    by (auto simp: nugget_do_def Let_def obind_Ret_iff acted_refl intro: acted_on_obj split: if_split_asm)
qed

lemma sonar_acted:
  assumes can: "can_act F i w" and b: "class_image (a_class (w_actors w ! i)) = TID_SONAR" and r: "sonar_do F i clock w = Ret w'"
  shows "acted F i w w'"
proof -
  let ?w = "if clock = 0 then set_state i St_dead w else w"
  have a: "acted F i w ?w" using can b by (auto intro: acted_set_state acted_refl)
  have c: "can_act F i ?w" by (rule acted_can_act [OF can a])
  have im: "class_image (a_class (w_actors ?w ! i)) = TID_SONAR" using acted_image [OF a] b by simp
  have activate: "acted F i ?w w'" if "sonar_activate F i ?w = Ret w'"
    using that c im unfolding sonar_activate_def incKits_def
    by (elim acted_then_on_man) (auto intro!: acted_then_in_game acted_set_state simp: man_kept_def simp del: if_split split del: if_split)
  have "acted F i ?w w'" using r c im activate
    by (auto simp: sonar_do_def Let_def obind_Ret_iff intro: acted_refl acted_set_class split: if_split_asm)
  then show ?thesis by (rule acted_trans [OF a])
qed

subsection \<open>Protestors\<close>

definition protests :: "('g, 'w) framework \<Rightarrow> nat \<Rightarrow> ('g, 'w) tm_world \<Rightarrow> bool" where
  "protests F i w \<longleftrightarrow> can_act F i w \<and> class_image (a_class (w_actors w ! i)) = TID_PROTESTER"

lemma protests_D:
  assumes "protests F i w"
  shows "can_act F i w" "i < length (w_actors w)" "a_class (w_actors w ! i) = RegularProtestor (the_protestor w i)"
    "unharmed (the_protestor w i)" "a_state (w_actors w ! i) = St_searching" "on_field F (a_obj (w_actors w ! i))" "graph_ok F"
    "\<exists>t. w_man w = Some t \<and> on_field F (t_obj t)"
proof -
  have ok: "actor_ok F (w_actors w ! i)" using assms by (simp add: protests_def can_act_def list_all_length)
  obtain p where p: "a_class (w_actors w ! i) = RegularProtestor p" using assms by (auto simp: protests_def)
  show "can_act F i w" "i < length (w_actors w)" "a_class (w_actors w ! i) = RegularProtestor (the_protestor w i)"
    "unharmed (the_protestor w i)" "a_state (w_actors w ! i) = St_searching" "on_field F (a_obj (w_actors w ! i))" "graph_ok F"
    "\<exists>t. w_man w = Some t \<and> on_field F (t_obj t)"
    using assms ok p by (auto simp: protests_def can_act_def actor_ok_def the_protestor_def)
qed

lemma protests_acted: "protests F i w \<Longrightarrow> acted F i w w' \<Longrightarrow> protests F i w'"
  using acted_can_act [of F i w w'] acted_image [of F i w w'] by (auto simp: protests_def)

lemma acted_on_protestor:
  assumes "protests F i w" and "unharmed (f (the_protestor w i))"
  shows "acted F i w (on_protestor i f w)"
  unfolding on_protestor_def set_class_def using assms protests_D [OF assms(1)]
  by (intro acted_put) (auto simp: actor_ok_def oil_left_def can_act_def list_all_length)

lemma acted_searching: "protests F i w \<Longrightarrow> acted F i w (set_state i St_searching w)"
  unfolding set_state_def using protests_D [of F i w]
  by (intro acted_put) (auto simp: actor_ok_def oil_left_def can_act_def list_all_length)

lemma acted_moveOnce:
  assumes "protests F i w"
  shows "acted F i w (fst (moveOnce F i w))"
  using protests_D [OF assms]
  by (auto simp: moveOnce_def Let_def actor_x_def actor_y_def on_field_def graph_laws acted_refl intro!: acted_on_obj split: direction.splits)

lemma acted_setDir: "protests F i w \<Longrightarrow> acted F i w (on_obj i (g_setDir F d) w)"
  using protests_D [of F i w] by (auto simp: on_field_def graph_laws intro!: acted_on_obj)

lemma acted_turn_to: "protests F i w \<Longrightarrow> acted F i w (turn_to F i d w)"
  unfolding turn_to_def by (blast intro: acted_trans acted_setDir acted_moveOnce protests_acted)

lemma acted_pickNewDirection:
  assumes "pickNewDirection F i w = Some (Ret w')" and "protests F i w"
  shows "acted F i w w'"
proof -
  have "\<forall>w'. r = Ret w' \<longrightarrow> protests F i w \<longrightarrow> acted F i w w'" if "pickNewDirection F i w = Some r" for r
  proof (rule pickNewDirection.raw_induct [OF _ that], goal_cases)
    case (1 pick F i w r)
    show ?case
    proof (intro allI impI)
      fix w' assume r: "r = Ret w'" and p: "protests F i w"
      let ?w = "w\<lparr>w_rand := rand_rest (w_rand w)\<rparr>"
      have a: "acted F i w ?w" using protests_D(1) [OF p] by (rule acted_rand)
      have b: "acted F i w (on_obj i (g_setDir F d) ?w)" for d
        by (rule acted_trans [OF a acted_setDir [OF protests_acted [OF p a]]])
      obtain d where "on_obj i (g_setDir F d) ?w = w' \<or> pick F i (on_obj i (g_setDir F d) ?w) = Some (Ret w')"
        using 1(2) r by (auto simp: Let_def obind2_Ret_iff split: if_split_asm)
      then show "acted F i w w'"
        using b [of d] 1(1) protests_acted [OF p b [of d]] by (auto intro: acted_trans)
    qed
  qed
  with assms show ?thesis by blast
qed

lemma acted_protestor_moves:
  assumes "protests F i w" and "protestor_moves F i w = Some (Ret w')"
  shows "acted F i w w'"
proof -
  note m = acted_moveOnce [OF assms(1)]
  show ?thesis using assms(2) m acted_pickNewDirection [OF _ protests_acted [OF assms(1) m]]
    by (auto simp: protestor_moves_def intro: acted_trans split: prod.splits if_split_asm)
qed

lemma acted_checkForTurn:
  assumes "protests F i w" and "checkForTurn F i w = Ret w'"
  shows "acted F i w w'"
  using assms acted_turn_to [OF assms(1)] acted_refl [OF protests_D(1) [OF assms(1)]]
  by (auto simp: checkForTurn_def Let_def obind_Ret_iff split: if_split_asm)

lemma acted_annoyPlayer: "can_act F i w \<Longrightarrow> annoyPlayer w = Ret w' \<Longrightarrow> acted F i w w'"
  by (auto simp: annoyPlayer_def the_man_def can_act_def Let_def annoy_man_def man_kept_def intro!: acted_man)

lemma acted_shout:
  assumes p: "protests F i w" and s: "shout F i w = Ret w'"
  shows "acted F i w w'"
proof -
  obtain v where v: "annoyPlayer (in_game (gw_playSound F SOUND_PROTESTER_YELL) w) = Ret v"
    "w' = on_protestor i (\<lambda>p. p\<lparr>pr_shout := 15\<rparr>) v" using s by (auto simp: shout_def obind_Ret_iff)
  have a: "acted F i w (in_game (gw_playSound F SOUND_PROTESTER_YELL) w)" using protests_D(1) [OF p] by (rule acted_in_game)
  have b: "acted F i w v" using acted_trans [OF a acted_annoyPlayer [OF acted_can_act [OF protests_D(1) [OF p] a] v(1)]] .
  note pv = protests_acted [OF p b]
  have "acted F i v w'" unfolding v(2) using protests_D(4) [OF pv] by (intro acted_on_protestor [OF pv]) (simp add: unharmed_def)
  then show ?thesis by (rule acted_trans [OF b])
qed

lemma acted_attemptShout:
  assumes p: "protests F i w" and s: "attemptShout F i w = Ret w'"
  shows "acted F i w w'"
proof -
  have "acted F i w (on_protestor i (\<lambda>p. p\<lparr>pr_shout := pr_shout p + 15\<rparr>) v)" if "shout F i w = Ret v" for v
  proof -
    note a = acted_shout [OF p that]
    note pv = protests_acted [OF p a]
    show ?thesis by (rule acted_trans [OF a acted_on_protestor [OF pv]]) (use protests_D(4) [OF pv] in \<open>simp add: unharmed_def\<close>)
  qed
  then show ?thesis using s acted_refl [OF protests_D(1) [OF p]]
    by (auto simp: attemptShout_def Let_def obind_Ret_iff split: if_split_asm)
qed

lemma acted_turn_and_go:
  assumes p: "protests F i w" and "0 \<le> x" "x \<le> 60" "0 \<le> y" "y \<le> 60"
  shows "acted F i w (turn_and_go F i d x y w)"
proof -
  note a = acted_setDir [OF p, of d]
  note pv = protests_acted [OF p a]
  show ?thesis unfolding turn_and_go_def
    by (rule acted_trans [OF a acted_on_obj [OF protests_D(1) [OF pv]]]) (use assms protests_D(7) [OF p] in \<open>simp add: on_field_def graph_laws\<close>)
qed

lemma acted_moveTowardPlayer:
  assumes p: "protests F i w" and m: "moveTowardPlayer F i w = Ret w'"
  shows "acted F i w w'"
proof -
  obtain t where t: "w_man w = Some t" "on_field F (t_obj t)" using protests_D(8) [OF p] by blast
  have f: "on_field F (a_obj (w_actors w ! i))" by (rule protests_D(6) [OF p])
  show ?thesis using m t f acted_refl [OF protests_D(1) [OF p]]
    by (auto simp: moveTowardPlayer_def the_man_def Let_def actor_x_def actor_y_def on_field_def split: if_split_asm intro!: acted_turn_and_go [OF p])
qed

lemma acted_protestor_wanders:
  assumes p: "protests F i w" and r: "protestor_wanders F i w = Some (Ret w')"
  shows "acted F i w w'"
proof -
  let ?w = "on_protestor i (\<lambda>p. p\<lparr>pr_squares := pr_squares p - 1\<rparr>) w"
  have a: "acted F i w ?w" using protests_D(4) [OF p] by (intro acted_on_protestor [OF p]) (simp add: unharmed_def)
  note pa = protests_acted [OF p a]
  have "acted F i ?w w'"
  proof (cases "pr_squares (the_protestor ?w i) \<le> 0")
    case True
    then obtain v where v: "pickNewDirection F i ?w = Some (Ret v)"
      "w' = fst (moveOnce F i (on_protestor i (\<lambda>p. p\<lparr>pr_squares := rand_mod (w_rand v) 52 + 8\<rparr>) (v\<lparr>w_rand := rand_rest (w_rand v)\<rparr>)))"
      using r by (auto simp: protestor_wanders_def Let_def obind2_Ret_iff)
    note b = acted_pickNewDirection [OF v(1) pa]
    note pb = protests_acted [OF pa b]
    note c = acted_rand [OF protests_D(1) [OF pb], of "rand_rest (w_rand v)"]
    note pc = protests_acted [OF pb c]
    have d: "acted F i (v\<lparr>w_rand := rand_rest (w_rand v)\<rparr>)
      (on_protestor i (\<lambda>p. p\<lparr>pr_squares := rand_mod (w_rand v) 52 + 8\<rparr>) (v\<lparr>w_rand := rand_rest (w_rand v)\<rparr>))"
      using protests_D(4) [OF pc] by (intro acted_on_protestor [OF pc]) (simp add: unharmed_def)
    note pd = protests_acted [OF pc d]
    show ?thesis unfolding v(2) by (rule acted_trans [OF b acted_trans [OF c acted_trans [OF d acted_moveOnce [OF pd]]]])
  next
    case False
    then obtain v where v: "checkForTurn F i ?w = Ret v" "protestor_moves F i v = Some (Ret w')"
      using r by (auto simp: protestor_wanders_def Let_def obind2_Ret_iff)
    note b = acted_checkForTurn [OF pa v(1)]
    show ?thesis by (rule acted_trans [OF b acted_protestor_moves [OF protests_acted [OF pa b] v(2)]])
  qed
  then show ?thesis by (rule acted_trans [OF a])
qed

lemma protestor_acted:
  assumes can: "can_act F i w" and b: "class_image (a_class (w_actors w ! i)) = TID_PROTESTER" and r: "protestor_do F i w = Some (Ret w')"
  shows "acted F i w w'"
proof -
  have p: "protests F i w" using can b by (simp add: protests_def)
  let ?w1 = "on_protestor i shout_tick w"
  have a1: "acted F i w ?w1" using protests_D(4) [OF p] by (intro acted_on_protestor [OF p]) (simp add: unharmed_def shout_tick_def)
  note p1 = protests_acted [OF p a1]
  define w2 where "w2 = (if pr_ticks (the_protestor ?w1 i) \<le> 0 then set_state i St_searching ?w1 else ?w1)"
  have a2: "acted F i ?w1 w2" using acted_searching [OF p1] acted_refl [OF protests_D(1) [OF p1]] by (simp add: w2_def)
  note p2 = protests_acted [OF p1 a2]
  obtain near where near: "near_man F 4 i w2 = Ret near" using near_man_Ret [OF protests_D(1) [OF p2]] by blast
  have r2: "(if near then obind2 (Some (attemptShout F i w2)) (protestor_moves F i)
      else obind2 (Some (sawPlayer F i w2)) (\<lambda>seen. if seen then Some (moveTowardPlayer F i w2) else protestor_wanders F i w2)) = Some (Ret w')"
    using r near protests_D(5) [OF p2] by (simp add: protestor_do_def Let_def w2_def [symmetric] cong: if_cong)
  have "acted F i w2 w'"
  proof (cases near)
    case True
    then obtain v where v: "attemptShout F i w2 = Ret v" "protestor_moves F i v = Some (Ret w')" using r2 by (auto simp: obind2_Ret_iff)
    note b = acted_attemptShout [OF p2 v(1)]
    show ?thesis by (rule acted_trans [OF b acted_protestor_moves [OF protests_acted [OF p2 b] v(2)]])
  next
    case False
    then show ?thesis using r2 acted_moveTowardPlayer [OF p2] acted_protestor_wanders [OF p2]
      by (auto simp: obind2_Ret_iff split: if_split_asm)
  qed
  then show ?thesis by (rule acted_trans [OF a1 acted_trans [OF a2]])
qed

lemma actor_acted:
  assumes "can_act F i w" and "actor_do F i w = Some (Ret w')"
  shows "acted F i w w'"
  using assms
  by (cases "a_class (w_actors w ! i)")
    (auto simp: actor_do_def intro: boulder_acted barrel_acted refill_acted squirt_acted nugget_acted sonar_acted protestor_acted)

subsection \<open>The invariant of a level\<close>

text \<open>
  The counter of barrels is the number of those that are left, every protestor is as it started, the player is
  on the field and no supply is negative.
\<close>

definition man_ok :: "('g, 'w) framework \<Rightarrow> 'g tunnel_man \<Rightarrow> bool" where
  "man_ok F t \<longleftrightarrow> on_field F (t_obj t) \<and> 0 \<le> t_squirts t \<and> 0 \<le> t_kits t \<and> 0 \<le> t_nuggets t"

definition level_ok :: "('g, 'w) framework \<Rightarrow> ('g, 'w) tm_world \<Rightarrow> bool" where
  "level_ok F w \<longleftrightarrow> graph_ok F \<and> list_all (actor_ok F) (w_actors w) \<and>
     w_barrels w = int (length (filter oil_left (w_actors w))) \<and> (\<exists>t. w_man w = Some t \<and> man_ok F t)"

lemma level_ok_cong:
  "level_ok F w \<Longrightarrow> w_actors w' = w_actors w \<Longrightarrow> w_barrels w' = w_barrels w \<Longrightarrow> w_man w' = w_man w \<Longrightarrow> level_ok F w'"
  by (simp add: level_ok_def)

lemma level_ok_in_game: "level_ok F w \<Longrightarrow> level_ok F (in_game f w)"
  by (rule level_ok_cong) (simp_all add: in_game_def)

lemma level_ok_set_man: "level_ok F w \<Longrightarrow> man_ok F t \<Longrightarrow> level_ok F (set_man t w)"
  by (simp add: level_ok_def set_man_def)

lemma level_ok_add:
  "level_ok F w \<Longrightarrow> actor_ok F a \<Longrightarrow> a_class a \<noteq> Barrel \<Longrightarrow> level_ok F (add_actor a w)"
  by (simp add: level_ok_def add_actor_def oil_left_def)

lemma length_filter_update:
  "i < length xs \<Longrightarrow> length (filter P (xs[i := a])) + of_bool (P (xs ! i)) = length (filter P xs) + of_bool (P a)"
proof (induction xs arbitrary: i)
  case (Cons x xs)
  then show ?case by (cases i) auto
qed simp

lemma acted_level_ok:
  assumes ok: "level_ok F w" and i: "i < length (w_actors w)" and a: "acted F i w w'"
  shows "level_ok F w'"
proof -
  have can: "can_act F i w" using ok i by (auto simp: can_act_def level_ok_def man_ok_def)
  have e: "(w_actors w)[i := w_actors w' ! i] = w_actors w'"
    using a i by (auto simp: acted_def nth_list_update intro!: nth_equalityI)
  have "length (filter oil_left (w_actors w')) + of_bool (oil_left (w_actors w ! i)) =
      length (filter oil_left (w_actors w)) + of_bool (oil_left (w_actors w' ! i))"
    using length_filter_update [OF i, of oil_left "w_actors w' ! i"] unfolding e .
  then have "int (length (filter oil_left (w_actors w'))) + of_bool (oil_left (w_actors w ! i)) =
      int (length (filter oil_left (w_actors w))) + of_bool (oil_left (w_actors w' ! i))"
    by (cases "oil_left (w_actors w ! i)"; cases "oil_left (w_actors w' ! i)") simp_all
  then have "w_barrels w' = int (length (filter oil_left (w_actors w')))"
    using ok a by (simp add: level_ok_def acted_def)
  moreover have "\<exists>t. w_man w' = Some t \<and> man_ok F t"
    using ok a by (force simp: level_ok_def acted_def man_kept_def man_ok_def)
  ultimately show ?thesis using acted_can_act [OF can a] by (simp add: level_ok_def can_act_def)
qed

lemma act_all_level_ok:
  "act_all F is w = Some (Ret w') \<Longrightarrow> level_ok F w \<Longrightarrow> \<forall>i \<in> set is. i < length (w_actors w) \<Longrightarrow>
    level_ok F w' \<and> length (w_actors w') = length (w_actors w) \<and> (\<forall>j. j \<notin> set is \<longrightarrow> w_actors w' ! j = w_actors w ! j)"
proof (induction "is" arbitrary: w)
  case (Cons i "is")
  obtain v where v: "(if a_state (w_actors w ! i) \<noteq> St_dead then actor_do F i w else Some (Ret w)) = Some (Ret v)"
    "act_all F is v = Some (Ret w')" using Cons.prems(1) by (auto simp only: act_all.simps obind2_Ret_iff)
  have i: "i < length (w_actors w)" using Cons.prems(3) by simp
  have can: "can_act F i w" using Cons.prems(2) i by (auto simp: can_act_def level_ok_def man_ok_def)
  have a: "acted F i w v" using v(1) actor_acted [OF can] acted_refl [OF can] by (auto split: if_split_asm)
  have l: "length (w_actors v) = length (w_actors w)" "\<forall>j. j \<noteq> i \<longrightarrow> w_actors v ! j = w_actors w ! j"
    using a by (simp_all add: acted_def)
  from Cons.IH [OF v(2) acted_level_ok [OF Cons.prems(2) i a]] Cons.prems(3) l show ?case by auto
qed simp

lemma erase_if_eq: "erase_if P k xs = take k xs @ filter (\<lambda>x. \<not> P x) (drop k xs)"
proof (induction P k xs rule: erase_if.induct)
  case (1 P k xs)
  show ?case
  proof (cases "k < length xs")
    case True
    then have d: "drop k xs = xs ! k # drop (Suc k) xs" by (simp add: Cons_nth_drop_Suc)
    show ?thesis using 1 True
      by (subst erase_if.simps) (auto simp: d take_Suc_conv_app_nth min_def simp del: erase_if.simps)
  qed simp
qed

lemma digEarth_same:
  assumes "digEarth F x y w = Ret w'"
  shows "w_actors w' = w_actors w \<and> w_barrels w' = w_barrels w \<and> w_man w' = w_man w"
  using assms by (auto simp: digEarth_def obind_Ret_iff Let_def in_game_def split: if_split_asm)

lemma man_fires_ok:
  assumes "level_ok F w" and "w_man w = Some t"
  shows "level_ok F (man_fires F t w)"
proof -
  have "man_ok F t" using assms by (simp add: level_ok_def)
  then have t: "man_ok F (t\<lparr>t_squirts := t_squirts t - 1\<rparr>)" if "t_squirts t \<noteq> 0" using that by (simp add: man_ok_def)
  have "level_ok F (add_actor (new_WaterSquirt F x y d) w)" for x y d
    by (rule level_ok_add [OF assms(1)]) (simp_all add: new_WaterSquirt_def new_actor_def actor_ok_def Let_def)
  then show ?thesis using t assms(1)
    by (auto simp: man_fires_def Let_def intro!: level_ok_in_game level_ok_set_man split: direction.splits)
qed

lemma man_step_ok:
  assumes "level_ok F w" and "man_ok F t" and "boundary \<or> 0 \<le> x \<and> x \<le> 60 \<and> 0 \<le> y \<and> y \<le> 60"
  shows "level_ok F (man_step F d boundary x y t w)"
proof -
  have "graph_ok F" using assms(1) by (simp add: level_ok_def)
  with assms show ?thesis
    by (auto simp: man_step_def man_ok_def on_field_def graph_laws intro!: level_ok_set_man)
qed

lemma unveil_ok:
  assumes "level_ok F w" and "unveil F w = Ret w'"
  shows "level_ok F w'"
proof -
  obtain t where t: "w_man w = Some t" using assms(1) by (auto simp: level_ok_def)
  define f :: "'a actor \<Rightarrow> 'a actor" where "f = (\<lambda>a. if within_distance 12 (g_x F (t_obj t)) (g_y F (t_obj t)) (g_x F (a_obj a)) (g_y F (a_obj a))
        then a\<lparr>a_obj := g_setVisible F True (a_obj a)\<rparr> else a)"
  have g: "graph_ok F" using assms(1) by (simp add: level_ok_def)
  have f: "actor_ok F (f a) = actor_ok F a" "oil_left (f a) = oil_left a" for a
    using g by (auto simp: f_def actor_ok_def oil_left_def on_field_def graph_laws split: actor_class.splits)
  have "w' = w \<or> w' = w\<lparr>w_actors := map f (w_actors w)\<rparr>" using assms(2) t by (auto simp: unveil_def the_man_def f_def split: if_split_asm)
  then show ?thesis using assms(1) by (auto simp: level_ok_def list_all_iff f filter_map o_def)
qed

lemma man_key_ok:
  assumes ok: "level_ok F w" and t: "w_man w = Some t" and r: "man_key F k t w = Ret w'"
  shows "level_ok F w'"
proof -
  have m: "man_ok F t" using ok t by (simp add: level_ok_def)
  then have f: "0 \<le> g_x F (t_obj t)" "g_x F (t_obj t) \<le> 60" "0 \<le> g_y F (t_obj t)" "g_y F (t_obj t) \<le> 60"
    by (simp_all add: man_ok_def on_field_def)
  have nug: "level_ok F (add_actor (new_GoldenNugget F x y) (set_man (t\<lparr>t_nuggets := t_nuggets t - 1\<rparr>) w))" if "t_nuggets t > 0" for x y
    by (intro level_ok_add level_ok_set_man ok) (use m that in \<open>simp_all add: man_ok_def new_GoldenNugget_def new_actor_def actor_ok_def\<close>)
  show ?thesis
  proof (cases k)
    case (Key_char c)
    have "level_ok F (set_man (t\<lparr>t_kits := t_kits t - 1\<rparr>) w)" if "t_kits t > 0"
      using m that by (intro level_ok_set_man ok) (simp add: man_ok_def)
    then show ?thesis using r Key_char ok
      by (auto simp: man_key_def Let_def obind_Ret_iff intro!: level_ok_in_game intro: unveil_ok split: if_split_asm)
  qed (use r ok t m f nug in \<open>auto simp: man_key_def Let_def intro!: man_fires_ok man_step_ok level_ok_set_man split: if_split_asm;
    simp add: man_ok_def\<close>)+
qed

lemma man_do_ok:
  assumes ok: "level_ok F w" and r: "man_do F ch w = Ret w'"
  shows "level_ok F w'"
proof -
  obtain t where t: "w_man w = Some t" using ok by (auto simp: level_ok_def)
  show ?thesis
  proof (cases "t_dead t")
    case False
    then obtain v where v: "digEarth F (g_x F (t_obj t)) (g_y F (t_obj t)) w = Ret v"
      "(case ch of None \<Rightarrow> Ret v | Some k \<Rightarrow> man_key F k t v) = Ret w'"
      using r t by (auto simp: man_do_def the_man_def obind_Ret_iff)
    have "level_ok F v" "w_man v = Some t" using digEarth_same [OF v(1)] ok t by (auto intro: level_ok_cong)
    with v(2) show ?thesis by (auto intro: man_key_ok split: option.splits)
  qed (use r ok t in \<open>simp add: man_do_def the_man_def\<close>)
qed

lemma level_ok_rand: "level_ok F w \<Longrightarrow> level_ok F (w\<lparr>w_rand := g\<rparr>)"
  by (rule level_ok_cong) simp_all

lemma refill_loop_ok: "refill_loop F n w = Ret w' \<Longrightarrow> level_ok F w \<Longrightarrow> level_ok F w'"
proof (induction n arbitrary: w)
  case (Suc n)
  have new: "actor_ok F (new_WaterRefill F v x y)" "a_class (new_WaterRefill F v x y) \<noteq> Barrel" for v x y
    by (simp_all add: new_WaterRefill_def new_actor_def actor_ok_def)
  have l: "level_ok F (w\<lparr>w_rand := g\<rparr>)" for g using Suc.prems(2) by (rule level_ok_rand)
  show ?case using Suc.prems Suc.IH l
    by (auto simp: Let_def obind_Ret_iff intro: level_ok_add [OF _ new] split: if_split_asm)
qed simp

lemma oil_left_alive: "filter oil_left (filter (\<lambda>a. a_state a \<noteq> St_dead) xs) = filter oil_left xs"
  by (induction xs) (auto simp: oil_left_def)

lemma addGoodies_ok:
  assumes "addGoodies F seed w = Ret w'" and "level_ok F w"
  shows "level_ok F w'"
proof -
  have new: "actor_ok F (new_SonarKit F v)" "a_class (new_SonarKit F v) \<noteq> Barrel" for v
    by (simp_all add: new_SonarKit_def new_actor_def actor_ok_def)
  have l: "level_ok F (w\<lparr>w_rand := g\<rparr>)" for g using assms(2) by (rule level_ok_rand)
  show ?thesis using assms(1) l
    by (auto simp: addGoodies_def Let_def simp del: refill_loop.simps intro: level_ok_add [OF _ new] refill_loop_ok split: if_split_asm)
qed

text \<open>\<open>move\<close> keeps the invariant; it reports the end of the level exactly when no barrel is left.\<close>

lemma tm_move_ok:
  assumes ok: "level_ok F w" and r: "tm_move F ch seed w = Some (Ret (st, w'))"
  shows "level_ok F w'" and "st = GWSTATUS_FINISHED_LEVEL \<Longrightarrow> filter oil_left (w_actors w') = []"
    and "st = GWSTATUS_PLAYER_DIED \<Longrightarrow> \<exists>t. w_man w' = Some t \<and> t_state t = St_dead"
proof -
  obtain t where t: "w_man w = Some t" using ok by (auto simp: level_ok_def)
  have "level_ok F w' \<and> (st = GWSTATUS_FINISHED_LEVEL \<longrightarrow> filter oil_left (w_actors w') = []) \<and>
    (st = GWSTATUS_PLAYER_DIED \<longrightarrow> (\<exists>t. w_man w' = Some t \<and> t_state t = St_dead))"
  proof (cases "t_state t = St_dead")
    case True
    then have "st = GWSTATUS_PLAYER_DIED" "w' = in_game (gw_decLives F) (in_game (gw_playSound F SOUND_PLAYER_GIVE_UP) w)"
      using r t by (simp_all add: tm_move_def the_man_def)
    then show ?thesis using ok t True by (auto intro!: level_ok_in_game) (simp add: in_game_def)
  next
    case False
    obtain v where v: "man_do F ch w = Ret v" using r t False by (auto simp: tm_move_def the_man_def obind2_Ret_iff)
    note okv = man_do_ok [OF ok v]
    show ?thesis
    proof (cases "w_barrels v = 0")
      case True
      then have "st = GWSTATUS_FINISHED_LEVEL" "w' = in_game (gw_playSound F SOUND_FINISHED_LEVEL) v"
        using r t False v by (simp_all add: tm_move_def the_man_def)
      then show ?thesis using okv True by (auto intro: level_ok_in_game) (simp add: in_game_def level_ok_def)
    next
      case nb: False
      obtain u x y where u: "act_all F [0..<length (w_actors v)] v = Some (Ret u)"
        "addGoodies F seed (u\<lparr>w_actors := erase_if (\<lambda>a. a_state a = St_dead) 0 (w_actors u)\<rparr>) = Ret x"
        "setDisplayText F x = Ret y" "st = GWSTATUS_CONTINUE_GAME" "w' = y"
        using r t False v nb by (auto simp: tm_move_def the_man_def obind2_Ret_iff Let_def simp del: erase_if.simps)
      have "level_ok F u" using act_all_level_ok [OF u(1) okv] by simp
      then have "level_ok F (u\<lparr>w_actors := erase_if (\<lambda>a. a_state a = St_dead) 0 (w_actors u)\<rparr>)"
        by (auto simp: level_ok_def erase_if_eq list_all_iff oil_left_alive simp del: erase_if.simps filter_filter)
      then have "level_ok F x" by (rule addGoodies_ok [OF u(2)])
      moreover obtain f where "y = in_game f x" using u(3) by (auto simp: setDisplayText_def obind_Ret_iff Let_def)
      ultimately show ?thesis using u(4,5) by (auto intro: level_ok_in_game)
    qed
  qed
  then show "level_ok F w'" "st = GWSTATUS_FINISHED_LEVEL \<Longrightarrow> filter oil_left (w_actors w') = []"
    "st = GWSTATUS_PLAYER_DIED \<Longrightarrow> \<exists>t. w_man w' = Some t \<and> t_state t = St_dead" by blast+
qed

text \<open>The framework calls \<open>move\<close> as long as it says that the game goes on.\<close>

fun tm_run :: "('g, 'w) framework \<Rightarrow> (key option \<times> (nat \<Rightarrow> nat)) list \<Rightarrow> ('g, 'w) tm_world \<Rightarrow>
    (game_status \<times> ('g, 'w) tm_world) outcome option" where
  "tm_run F [] w = Some (Ret (GWSTATUS_CONTINUE_GAME, w))"
| "tm_run F ((ch, seed) # evs) w =
     obind2 (tm_move F ch seed w) (\<lambda>(st, w). if st = GWSTATUS_CONTINUE_GAME then tm_run F evs w else Some (Ret (st, w)))"

lemma tm_run_ok:
  "tm_run F evs w = Some (Ret (st, w')) \<Longrightarrow> level_ok F w \<Longrightarrow>
    level_ok F w' \<and> (st = GWSTATUS_FINISHED_LEVEL \<longrightarrow> filter oil_left (w_actors w') = [])"
proof (induction evs arbitrary: w)
  case (Cons e evs)
  obtain ch seed where e: "e = (ch, seed)" by (cases e)
  obtain st1 w1 where m: "tm_move F ch seed w = Some (Ret (st1, w1))"
    "(if st1 = GWSTATUS_CONTINUE_GAME then tm_run F evs w1 else Some (Ret (st1, w1))) = Some (Ret (st, w'))"
    using Cons.prems(1) e by (auto simp only: tm_run.simps obind2_Ret_iff split: prod.splits)
  from tm_move_ok(1,2) [OF Cons.prems(2) m(1)] m(2) Cons.IH show ?case by (auto split: if_split_asm)
qed simp

subsection \<open>A squirt at the right border\<close>

lemma act_all_append:
  "act_all F (is @ js) w = obind2 (act_all F is w) (act_all F js)"
proof (induction "is" arbitrary: w)
  case Nil
  show ?case by simp
next
  case (Cons i "is")
  show ?case
    by (cases "if a_state (w_actors w ! i) \<noteq> St_dead then actor_do F i w else Some (Ret w)")
      (simp_all add: Cons split: outcome.split)
qed

lemma squirt_outside:
  assumes ok: "level_ok F w" and t: "w_man w = Some t" "\<not> t_dead t" "t_squirts t \<noteq> 0" "g_dir F (t_obj t) = Dir_right"
    "g_x F (t_obj t) = 58 \<or> g_x F (t_obj t) = 59" and alive: "t_state t \<noteq> St_dead" and oil: "w_barrels w \<noteq> 0"
  shows "tm_move F (Some KEY_PRESS_SPACE) seed w \<noteq> Some (Ret r)"
proof
  assume r: "tm_move F (Some KEY_PRESS_SPACE) seed w = Some (Ret r)"
  have g: "graph_ok F" and m: "man_ok F t" using ok t(1) by (simp_all add: level_ok_def)
  let ?x = "g_x F (t_obj t) + 4" and ?y = "g_y F (t_obj t)"
  have pos: "0 \<le> ?y" "?y \<le> 60" "62 \<le> ?x" "?x \<le> 63" using m t(5) by (auto simp: man_ok_def on_field_def)
  define s where "s = new_WaterSquirt F ?x ?y Dir_right"
  have s: "a_state s = St_alive" "a_class s = WaterSquirt 4" "g_x F (a_obj s) = ?x" "g_y F (a_obj s) = ?y" "g_dir F (a_obj s) = Dir_right"
    using pos g by (simp_all add: s_def new_WaterSquirt_def new_actor_def Let_def graph_laws)
  obtain v where v: "man_do F (Some KEY_PRESS_SPACE) w = Ret v"
    using r t(1) alive by (auto simp: tm_move_def the_man_def obind2_Ret_iff)
  then obtain d where d: "digEarth F (g_x F (t_obj t)) (g_y F (t_obj t)) w = Ret d" "v = man_fires F t d"
    using t(1,2) by (auto simp: man_do_def the_man_def obind_Ret_iff man_key_def Let_def)
  have v': "w_actors v = w_actors w @ [s]" "w_barrels v = w_barrels w"
    using digEarth_same [OF d(1)] t(3,4) by (simp_all add: d(2) man_fires_def Let_def in_game_def set_man_def add_actor_def s_def)
  note okv = man_do_ok [OF ok v]
  let ?n = "length (w_actors w)"
  obtain u where u: "act_all F [0..<Suc ?n] v = Some (Ret u)"
    using r t(1) alive v oil v' by (auto simp: tm_move_def the_man_def obind2_Ret_iff simp del: upt_Suc)
  then obtain q where q: "act_all F [0..<?n] v = Some (Ret q)" "act_all F [?n] q = Some (Ret u)"
    by (auto simp: act_all_append obind2_Ret_iff)
  have okq: "level_ok F q \<and> length (w_actors q) = Suc ?n \<and> (\<forall>j. j \<notin> set [0..<?n] \<longrightarrow> w_actors q ! j = w_actors v ! j)"
    using act_all_level_ok [OF q(1) okv] v' by simp
  then have last: "w_actors q ! ?n = s" using v' by simp
  have can: "can_act F ?n q" using okq by (auto simp: can_act_def level_ok_def man_ok_def)
  have at: "actor_x F q ?n = ?x" "actor_y F q ?n = ?y" by (simp_all add: actor_x_def actor_y_def last s)
  have "checkEarth q (?x + 1) ?y = SegFault" using pos by (simp add: checkEarth_def earth_at_def cell_at_def)
  then have "squirt_do F ?n 4 q = Some SegFault"
    using pos by (simp add: squirt_do_def hitBySquirt_nobody [OF can] at last s Let_def squirt_step_def)
  then show False using q(2) by (simp add: last s actor_do_def)
qed

subsection \<open>The escape key\<close>

lemma act_all_man:
  "act_all F is w = Some (Ret w') \<Longrightarrow> level_ok F w \<Longrightarrow> \<forall>i \<in> set is. i < length (w_actors w) \<Longrightarrow>
    \<exists>t t'. w_man w = Some t \<and> w_man w' = Some t' \<and> man_kept t t'"
proof (induction "is" arbitrary: w)
  case (Cons i "is")
  obtain v where v: "(if a_state (w_actors w ! i) \<noteq> St_dead then actor_do F i w else Some (Ret w)) = Some (Ret v)"
    "act_all F is v = Some (Ret w')" using Cons.prems(1) by (auto simp only: act_all.simps obind2_Ret_iff)
  have i: "i < length (w_actors w)" using Cons.prems(3) by simp
  have can: "can_act F i w" using Cons.prems(2) i by (auto simp: can_act_def level_ok_def man_ok_def)
  have a: "acted F i w v" using v(1) actor_acted [OF can] acted_refl [OF can] by (auto split: if_split_asm)
  then have "length (w_actors v) = length (w_actors w)" by (simp add: acted_def)
  with Cons.IH [OF v(2) acted_level_ok [OF Cons.prems(2) i a]] Cons.prems(3) a show ?case
    by (auto simp: acted_def intro: man_kept_trans)
qed (auto simp: level_ok_def man_kept_refl)

lemma refill_loop_man: "refill_loop F n w = Ret w' \<Longrightarrow> w_man w' = w_man w"
proof (induction n arbitrary: w)
  case (Suc n)
  from Suc.prems show ?case by (auto simp: Let_def obind_Ret_iff add_actor_def dest!: Suc.IH split: if_split_asm)
qed simp

lemma addGoodies_man: "addGoodies F seed w = Ret w' \<Longrightarrow> w_man w' = w_man w"
  by (auto simp: addGoodies_def Let_def add_actor_def simp del: refill_loop.simps dest!: refill_loop_man split: if_split_asm)

lemma tm_move_dead:
  assumes ok: "level_ok F w" and t: "w_man w = Some t" "t_dead t"
  shows "tm_move F ch seed w = tm_move F None seed w"
    and "tm_move F ch seed w = Some (Ret (st, w')) \<Longrightarrow> \<exists>t'. w_man w' = Some t' \<and> t_dead t' \<and> t_obj t' = t_obj t"
proof -
  have m: "man_do F k w = Ret w" for k using t by (simp add: man_do_def the_man_def)
  show "tm_move F ch seed w = tm_move F None seed w" by (simp add: tm_move_def the_man_def t m)
  assume r: "tm_move F ch seed w = Some (Ret (st, w'))"
  show "\<exists>t'. w_man w' = Some t' \<and> t_dead t' \<and> t_obj t' = t_obj t"
  proof (cases "t_state t = St_dead \<or> w_barrels w = 0")
    case True
    then show ?thesis using r t m by (auto simp: tm_move_def the_man_def in_game_def split: if_split_asm)
  next
    case False
    then obtain u x y where u: "act_all F [0..<length (w_actors w)] w = Some (Ret u)"
      "addGoodies F seed (u\<lparr>w_actors := erase_if (\<lambda>a. a_state a = St_dead) 0 (w_actors u)\<rparr>) = Ret x"
      "setDisplayText F x = Ret y" "w' = y"
      using r t m by (auto simp: tm_move_def the_man_def obind2_Ret_iff Let_def simp del: erase_if.simps)
    have "w_man y = w_man u" using addGoodies_man [OF u(2)] u(3) by (auto simp: setDisplayText_def obind_Ret_iff Let_def in_game_def)
    then show ?thesis using act_all_man [OF u(1) ok] t u(4) by (auto simp: man_kept_def)
  qed
qed

lemma tm_run_dead:
  "level_ok F w \<Longrightarrow> w_man w = Some t \<Longrightarrow> t_dead t \<Longrightarrow>
    tm_run F evs w = tm_run F (map (\<lambda>(ch, seed). (None, seed)) evs) w \<and>
    (\<forall>st w'. tm_run F evs w = Some (Ret (st, w')) \<longrightarrow> (\<exists>t'. w_man w' = Some t' \<and> t_obj t' = t_obj t))"
proof (induction evs arbitrary: w t)
  case (Cons e evs)
  obtain ch seed where e: "e = (ch, seed)" by (cases e)
  note dead = tm_move_dead [OF Cons.prems]
  show ?case
  proof (cases "\<exists>st1 w1. tm_move F ch seed w = Some (Ret (st1, w1))")
    case True
    then obtain st1 w1 where m: "tm_move F ch seed w = Some (Ret (st1, w1))" by blast
    obtain t1 where t1: "w_man w1 = Some t1" "t_dead t1" "t_obj t1 = t_obj t" using dead(2) [OF m] by blast
    have m': "tm_move F None seed w = Some (Ret (st1, w1))" using m dead(1) [of ch seed] by simp
    show ?thesis using Cons.IH [OF tm_move_ok(1) [OF Cons.prems(1) m] t1(1,2)] t1 m m' e by auto
  next
    case False
    then have "tm_run F (e # evs) w \<noteq> Some (Ret r)" for r by (auto simp: e obind2_Ret_iff)
    moreover have "tm_run F (e # evs) w = tm_run F (map (\<lambda>(ch, seed). (None, seed)) (e # evs)) w"
      using False dead(1) [of ch seed] by (cases "tm_move F None seed w") (auto simp: e split: outcome.splits)
    ultimately show ?thesis by blast
  qed
qed simp

lemma escape_pressed:
  assumes ok: "level_ok F w" and r: "tm_move F (Some KEY_PRESS_ESCAPE) seed w = Some (Ret (GWSTATUS_CONTINUE_GAME, w'))"
  shows "level_ok F w' \<and> (\<exists>t t'. w_man w = Some t \<and> w_man w' = Some t' \<and> t_dead t' \<and> t_obj t' = t_obj t)"
proof -
  obtain t where t: "w_man w = Some t" using ok by (auto simp: level_ok_def)
  have alive: "t_state t \<noteq> St_dead" using r t by (auto simp: tm_move_def the_man_def)
  obtain v where v: "man_do F (Some KEY_PRESS_ESCAPE) w = Ret v" using r t alive by (auto simp: tm_move_def the_man_def obind2_Ret_iff)
  have tv: "\<exists>t'. w_man v = Some t' \<and> t_dead t' \<and> t_obj t' = t_obj t"
  proof (cases "t_dead t")
    case False
    then show ?thesis using v t by (auto simp: man_do_def the_man_def obind_Ret_iff man_key_def Let_def set_man_def)
  qed (use v t in \<open>simp add: man_do_def the_man_def\<close>)
  note okv = man_do_ok [OF ok v]
  obtain u x y where u: "act_all F [0..<length (w_actors v)] v = Some (Ret u)"
      "addGoodies F seed (u\<lparr>w_actors := erase_if (\<lambda>a. a_state a = St_dead) 0 (w_actors u)\<rparr>) = Ret x"
      "setDisplayText F x = Ret y" "w' = y"
    using r t v alive by (auto simp: tm_move_def the_man_def obind2_Ret_iff Let_def simp del: erase_if.simps split: if_split_asm)
  have "w_man y = w_man u" using addGoodies_man [OF u(2)] u(3) by (auto simp: setDisplayText_def obind_Ret_iff Let_def in_game_def)
  then show ?thesis using act_all_man [OF u(1) okv] t tv u(4) tm_move_ok(1) [OF ok r] by (auto simp: man_kept_def)
qed

subsection \<open>The exit path\<close>

text \<open>
  The search looks at cells in the columns and rows 0 to 59 only, and the exit is marked in column 60.
\<close>

lemma find_path_never:
  assumes "find_path dirs maze x y path False = Some (m, p, f)" and "\<forall>c \<in> {0..<3600}. maze c \<noteq> CHR ''Q''"
  shows "\<not> f"
proof -
  define P where "P = (\<lambda>(dirs :: (int \<times> int \<times> char) list) (maze :: int \<Rightarrow> char) (x :: int) (y :: int) (path :: string) found
      (r :: (int \<Rightarrow> char) \<times> string \<times> bool). found \<or> \<not> (\<forall>c \<in> {0..<3600}. maze c \<noteq> CHR ''Q'') \<or>
      \<not> snd (snd r) \<and> (\<forall>c \<in> {0..<3600}. fst r c \<noteq> CHR ''Q''))"
  have "P dirs maze x y path False (m, p, f)"
  proof (rule find_path.raw_induct [where P = P and xa = "(((((dirs, maze), x), y), path), False)", unfolded prod.case, OF _ assms(1)], goal_cases)
    case (1 find dirs maze x y path found r)
    note ih = 1(1)
    show ?case
    proof (cases "found \<or> \<not> (\<forall>c \<in> {0..<3600}. maze c \<noteq> CHR ''Q'')")
      case False
      then have nf: "\<not> found" and nq: "\<forall>c \<in> {0..<3600}. maze c \<noteq> CHR ''Q''" by auto
      show ?thesis
      proof (cases dirs)
        case Nil
        then show ?thesis using 1(2) nf nq by (auto simp: P_def)
      next
        case (Cons d rest)
        obtain dx dy dir where d: "d = (dx, dy, dir)" by (cases d)
        let ?n = "cell_at (x + dx) (y + dy)"
        have in_range: "?n \<in> {0..<3600}" if "0 \<le> x + dx" "0 \<le> y + dy" "x + dx < 60" "y + dy < 60"
          using that by (simp add: cell_at_def)
        consider "find rest maze x y path found = Some r"
          | m p f where "find path_dirs (maze(?n := CHR ''V'')) (x + dx) (y + dy) (path @ [dir]) found = Some (m, p, f)"
            "find rest (if f then m else m(?n := CHR ''.'')) x y p f = Some r"
        proof (cases "0 \<le> x + dx \<and> 0 \<le> y + dy \<and> x + dx < 60 \<and> y + dy < 60")
          case True
          then have "maze ?n \<noteq> CHR ''Q''" using in_range nq by blast
          then show ?thesis using 1(2) Cons d nf True that
            by (cases "maze ?n = CHR ''.''") (auto simp: Let_def bind_eq_Some_conv)
        qed (use 1(2) Cons d that in \<open>auto simp: Let_def\<close>)
        then show ?thesis
        proof cases
          case 1
          then have "P rest maze x y path found r" by (rule ih)
          then show ?thesis by (simp add: P_def)
        next
          case (2 m p f)
          have "P path_dirs (maze(?n := CHR ''V'')) (x + dx) (y + dy) (path @ [dir]) found (m, p, f)" by (rule ih [OF 2(1)])
          moreover have "\<forall>c \<in> {0..<3600}. (maze(?n := CHR ''V'')) c \<noteq> CHR ''Q''" using nq by simp
          ultimately have mf: "\<not> f" "\<forall>c \<in> {0..<3600}. m c \<noteq> CHR ''Q''" using nf by (simp_all add: P_def)
          have "P rest (if f then m else m(?n := CHR ''.'')) x y p f r" by (rule ih [OF 2(2)])
          moreover have "\<forall>c \<in> {0..<3600}. (m(?n := CHR ''.'')) c \<noteq> CHR ''Q''" using mf by simp
          ultimately show ?thesis using mf(1) nf nq by (simp add: P_def)
        qed
      qed
    qed (auto simp: P_def)
  qed
  with assms(2) show ?thesis by (simp add: P_def)
qed

lemma maze_exit: "\<forall>c \<in> {0..<3600}. w_maze (update_protestorMaze F w) c \<noteq> CHR ''Q''"
proof
  fix c :: int assume c: "c \<in> {0..<3600}"
  then have "c \<noteq> cell_at 60 59" by (simp add: cell_at_def)
  with c show "w_maze (update_protestorMaze F w) c \<noteq> CHR ''Q''" by (simp add: update_protestorMaze_def)
qed

text \<open>A protestor that is in neither the row nor the column of the player always sees the player.\<close>

lemma sawPlayer_unaligned:
  assumes "w_man w = Some t" and "actor_x F w i \<noteq> g_x F (t_obj t)" and "actor_y F w i \<noteq> g_y F (t_obj t)"
  shows "sawPlayer F i w = Ret True"
  using assms by (simp add: sawPlayer_def the_man_def clearPath_def path_cells_def)

text \<open>The destructor after \<open>cleanUp\<close> deletes the player a second time.\<close>

lemma delete_after_cleanUp: "tm_cleanUp w = Ret w' \<Longrightarrow> delete_StudentWorld w' = SegFault"
proof -
  assume "tm_cleanUp w = Ret w'"
  then have "w_man w' = None" unfolding tm_cleanUp_def obind_Ret_iff by auto
  then show ?thesis by (simp add: delete_StudentWorld_def the_man_def)
qed

end
