(* ===== verification/TunnelLevel.thy ===== *)
theory TunnelLevel
  imports TunnelGameProps
begin

text \<open>
  How a level of the game of \<open>CS32/Project 4, Pt2\<close> starts: the field of earth, the tunnel, and the objects
  placed at random, never close to each other.
\<close>

subsection \<open>The start of a level\<close>

lemma fold_fill: "fold (\<lambda>p g c. if c \<in> S p then v else g c) ps g = (\<lambda>c. if \<exists>p \<in> set ps. c \<in> S p then v else g c)"
  by (induction ps arbitrary: g) (auto simp: fun_eq_iff)

lemma fill_earth_eq: "fill_earth g = (\<lambda>c. if 0 \<le> c \<and> c < 63 * 60 then Earth_valid else g c)"
proof -
  define S :: "int \<times> int \<Rightarrow> int set" where
    "S = (\<lambda>(i, j). if i = 59 then {cell_at i j, cell_at (i + 1) j, cell_at (i + 2) j, cell_at (i + 3) j} else {cell_at i j})"
  define ps :: "(int \<times> int) list" where "ps = [(i, j). i \<leftarrow> [0..59], j \<leftarrow> [0..59]]"
  have mem: "(i, j) \<in> set ps \<longleftrightarrow> 0 \<le> i \<and> i \<le> 59 \<and> 0 \<le> j \<and> j \<le> 59" for i j
    by (auto simp: ps_def image_iff simp del: upto_rec_numeral)
  have "(\<lambda>(i, j) g. let g = g(cell_at i j := Earth_valid) in
     if i = 59 then g(cell_at (i + 1) j := Earth_valid, cell_at (i + 2) j := Earth_valid, cell_at (i + 3) j := Earth_valid) else g) =
    (\<lambda>p g c. if c \<in> S p then Earth_valid else g c)"
    by (simp add: fun_eq_iff S_def Let_def split_beta)
  then have "fill_earth g = fold (\<lambda>p g c. if c \<in> S p then Earth_valid else g c) ps g"
    unfolding fill_earth_def ps_def [symmetric] by simp
  also have "\<dots> = (\<lambda>c. if \<exists>p \<in> set ps. c \<in> S p then Earth_valid else g c)" by (rule fold_fill)
  finally have eq: "fill_earth g = (\<lambda>c. if \<exists>p \<in> set ps. c \<in> S p then Earth_valid else g c)" .
  have "(\<exists>p \<in> set ps. c \<in> S p) \<longleftrightarrow> 0 \<le> c \<and> c < 63 * 60" for c
  proof
    assume "0 \<le> c \<and> c < 63 * 60"
    then have m: "0 \<le> c div 60" "c div 60 \<le> 62" "0 \<le> c mod 60" "c mod 60 \<le> 59" "60 * (c div 60) + c mod 60 = c" by auto
    then obtain q r where q: "0 \<le> q" "q \<le> 62" "0 \<le> r" "r \<le> 59" "c = 60 * q + r" by metis
    show "\<exists>p \<in> set ps. c \<in> S p"
    proof (cases "q \<le> 59")
      case True
      then show ?thesis using q by (intro bexI [of _ "(q, r)"]) (auto simp: S_def mem cell_at_def)
    next
      case False
      then have "q = 60 \<or> q = 61 \<or> q = 62" using q by auto
      then show ?thesis using q by (intro bexI [of _ "(59, r)"]) (auto simp: S_def mem cell_at_def)
    qed
  qed (auto simp: S_def mem cell_at_def split: if_split_asm)
  then show ?thesis unfolding eq by simp
qed

lemma delete_cells_eq:
  "\<forall>(k, j) \<in> set cs. 0 \<le> cell_at k j \<and> cell_at k j < 63 * 60 \<and> g (cell_at k j) \<noteq> Earth_dangling \<Longrightarrow>
    \<exists>n'. delete_cells Earth_null cs g n = Ret (\<lambda>c. if c \<in> (\<lambda>(k, j). cell_at k j) ` set cs then Earth_null else g c, n')"
proof (induction cs arbitrary: g n)
  case (Cons p cs)
  obtain k j where p: "p = (k, j)" by (cases p)
  have at: "earth_at g k j = Ret (g (cell_at k j))" using Cons.prems p by (simp add: earth_at_def)
  show ?case
  proof (cases "g (cell_at k j)")
    case Earth_null
    obtain n' where "delete_cells Earth_null cs g n = Ret (\<lambda>c. if c \<in> (\<lambda>(k, j). cell_at k j) ` set cs then Earth_null else g c, n')"
      using Cons.IH [of g n] Cons.prems by auto
    then show ?thesis using p at Earth_null by (auto simp: fun_eq_iff)
  next
    case Earth_valid
    let ?g = "g(cell_at k j := Earth_null)"
    have ok: "\<forall>(k', j') \<in> set cs. 0 \<le> cell_at k' j' \<and> cell_at k' j' < 63 * 60 \<and> ?g (cell_at k' j') \<noteq> Earth_dangling"
      using Cons.prems by auto
    obtain n' where "delete_cells Earth_null cs ?g (n - 1) =
        Ret (\<lambda>c. if c \<in> (\<lambda>(k, j). cell_at k j) ` set cs then Earth_null else ?g c, n')"
      using Cons.IH [OF ok, of "n - 1"] by blast
    then show ?thesis using p at Earth_valid by (auto simp: fun_eq_iff)
  next
    case Earth_dangling
    then show ?thesis using Cons.prems p by simp
  qed
qed auto

lemma cell_at_inj:
  assumes b: "0 \<le> y" "y < 60" "0 \<le> y'" "y' < 60"
  shows "cell_at x y = cell_at x' y' \<longleftrightarrow> x = x' \<and> y = y'"
proof
  assume e: "cell_at x y = cell_at x' y'"
  have "(60 * x + y) div 60 = x" "(60 * x' + y') div 60 = x'" using b by simp_all
  with e show "x = x' \<and> y = y'" by (auto simp: cell_at_def)
qed simp

definition in_tunnel :: "int \<Rightarrow> int \<Rightarrow> bool" where
  "in_tunnel x y \<longleftrightarrow> 30 \<le> x \<and> x < 34 \<and> 4 \<le> y \<and> y < 60"

text \<open>The square of four by four cells that an object covers.\<close>

definition covers :: "('g, 'w) framework \<Rightarrow> 'g actor \<Rightarrow> int \<Rightarrow> int \<Rightarrow> bool" where
  "covers F a x y \<longleftrightarrow> g_x F (a_obj a) \<le> x \<and> x < g_x F (a_obj a) + 4 \<and> g_y F (a_obj a) \<le> y \<and> y < g_y F (a_obj a) + 4"

definition is_boulder :: "'g actor \<Rightarrow> bool" where
  "is_boulder a \<longleftrightarrow> class_image (a_class a) = TID_BOULDER"

definition earth_laid :: "('g, 'w) framework \<Rightarrow> ('g, 'w) tm_world \<Rightarrow> bool" where
  "earth_laid F w \<longleftrightarrow> (\<forall>x y. 0 \<le> x \<and> x < 63 \<and> 0 \<le> y \<and> y < 60 \<longrightarrow> w_ground w (cell_at x y) =
     (if in_tunnel x y \<or> (\<exists>a \<in> set (w_actors w). is_boulder a \<and> covers F a x y) then Earth_null else Earth_valid))"

text \<open>The object number \<open>i\<close> of a level with \<open>B\<close> boulders and \<open>L\<close> barrels, and where it may be.\<close>

definition placed :: "('g, 'w) framework \<Rightarrow> int \<Rightarrow> int \<Rightarrow> nat \<Rightarrow> 'g actor \<Rightarrow> bool" where
  "placed F B L i a \<longleftrightarrow>
     (if int i < B then is_boulder a \<and> a_state a = St_stable \<and> 20 \<le> g_y F (a_obj a)
      else if int i < B + L then a_class a = Barrel \<and> a_state a = St_alive
      else class_image (a_class a) = TID_GOLD \<and> a_state a = St_permanent) \<and> \<not> a_animate a \<and>
     0 \<le> g_x F (a_obj a) \<and> g_x F (a_obj a) < 60 \<and> \<not> (26 \<le> g_x F (a_obj a) \<and> g_x F (a_obj a) < 34) \<and>
     0 \<le> g_y F (a_obj a) \<and> g_y F (a_obj a) < 56"

definition far_apart :: "('g, 'w) framework \<Rightarrow> 'g actor \<Rightarrow> 'g actor \<Rightarrow> bool" where
  "far_apart F a b \<longleftrightarrow> \<not> within_distance 6 (g_x F (a_obj b)) (g_y F (a_obj b)) (g_x F (a_obj a)) (g_y F (a_obj a))"

lemma find_place_ok:
  assumes "find_place F as high g = Some (x, y, g')"
  shows "0 \<le> x \<and> x < 60 \<and> \<not> (26 \<le> x \<and> x < 34) \<and> 0 \<le> y \<and> y < 56 \<and> (high \<longrightarrow> 20 \<le> y) \<and>
    (\<forall>a \<in> set as. \<not> within_distance 6 x y (g_x F (a_obj a)) (g_y F (a_obj a)))"
proof -
  have "(\<lambda>(x, y, _). 0 \<le> x \<and> x < 60 \<and> \<not> (26 \<le> x \<and> x < 34) \<and> 0 \<le> y \<and> y < 56 \<and> (high \<longrightarrow> 20 \<le> y) \<and>
    (\<forall>a \<in> set as. \<not> within_distance 6 x y (g_x F (a_obj a)) (g_y F (a_obj a)))) (x, y, g')"
  proof (rule find_place.raw_induct [OF _ assms], goal_cases)
    case (1 find F as high g r)
    have r: "0 \<le> rand_mod g 60" "rand_mod g 60 < 60" "0 \<le> rand_mod h 36" "rand_mod h 36 < 36" "0 \<le> rand_mod h 56" "rand_mod h 56 < 56" for h
      by (simp_all add: rand_mod_def)
    show ?case
    proof (cases "list_ex (\<lambda>a. within_distance 6 (rand_mod g 60) (if high then rand_mod (rand_rest g) 36 + 20 else rand_mod (rand_rest g) 56)
        (g_x F (a_obj a)) (g_y F (a_obj a))) as \<or> 26 \<le> rand_mod g 60 \<and> rand_mod g 60 < 34")
      case True
      then have "find F as high (rand_rest (rand_rest g)) = Some r" using 1(2) by (simp add: Let_def)
      then show ?thesis by (rule 1(1))
    next
      case False
      then have "r = (rand_mod g 60, if high then rand_mod (rand_rest g) 36 + 20 else rand_mod (rand_rest g) 56, rand_rest (rand_rest g))"
        using 1(2) by (auto simp: Let_def)
      then show ?thesis using False r(1,2) r(3-6) [of "rand_rest g"] by (auto simp: list_ex_iff)
    qed
  qed
  then show ?thesis by simp
qed

definition laid_out :: "('g, 'w) framework \<Rightarrow> int \<Rightarrow> int \<Rightarrow> ('g, 'w) tm_world \<Rightarrow> bool" where
  "laid_out F B L w \<longleftrightarrow> (\<forall>i < length (w_actors w). placed F B L i (w_actors w ! i)) \<and>
     sorted_wrt (far_apart F) (w_actors w) \<and> earth_laid F w"

lemma laid_out_add:
  assumes "laid_out F B L w" and "placed F B L (length (w_actors w)) a" and "\<forall>b \<in> set (w_actors w). far_apart F b a"
    and "\<not> is_boulder a"
  shows "laid_out F B L (add_actor a w)"
  using assms by (auto simp: laid_out_def add_actor_def nth_append less_Suc_eq sorted_wrt_append earth_laid_def)

lemma boulder_dug:
  assumes l: "laid_out F B L w" and pos: "0 \<le> x" "x < 60" "0 \<le> y" "y < 56"
  defines "cs \<equiv> [(k, j). k \<leftarrow> [x..min 62 (x + 3)], j \<leftarrow> [y..min 59 (y + 3)]]"
  shows "\<exists>n. delete_cells Earth_null cs (w_ground w) 0 =
      Ret (\<lambda>c. if c \<in> (\<lambda>(k, j). cell_at k j) ` set cs then Earth_null else w_ground w c, n)"
proof -
  have "w_ground w (cell_at x y) \<noteq> Earth_dangling" if "0 \<le> x" "x < 63" "0 \<le> y" "y < 60" for x y
    using l that by (simp add: laid_out_def earth_laid_def)
  then have "\<forall>(k, j) \<in> set cs. 0 \<le> cell_at k j \<and> cell_at k j < 63 * 60 \<and> w_ground w (cell_at k j) \<noteq> Earth_dangling"
    using pos by (auto simp: cs_def cell_at_def [of _ "_ :: int"] split: if_split_asm)
  then show ?thesis by (rule delete_cells_eq)
qed

lemma digEarth_Ret:
  assumes "laid_out F B L w" and "0 \<le> x" "x < 60" "0 \<le> y" "y < 56"
  shows "\<exists>w'. digEarth F x y (add_actor a w) = Ret w'"
  using boulder_dug [OF assms] assms(5) by (auto simp: digEarth_def add_actor_def Let_def)

lemma laid_out_boulder:
  assumes l: "laid_out F B L w" and p: "placed F B L (length (w_actors w)) a" and f: "\<forall>b \<in> set (w_actors w). far_apart F b a"
    and b: "is_boulder a" and d: "digEarth F (g_x F (a_obj a)) (g_y F (a_obj a)) (add_actor a w) = Ret w'"
  shows "laid_out F B L w' \<and> w_actors w' = w_actors w @ [a]"
proof -
  let ?x = "g_x F (a_obj a)" and ?y = "g_y F (a_obj a)"
  let ?cs = "[(k, j). k \<leftarrow> [?x..min 62 (?x + 3)], j \<leftarrow> [?y..min 59 (?y + 3)]]"
  have pos: "0 \<le> ?x" "?x < 60" "0 \<le> ?y" "?y < 56" using p by (simp_all add: placed_def)
  have g: "w_ground w (cell_at x y) = (if in_tunnel x y \<or> (\<exists>a \<in> set (w_actors w). is_boulder a \<and> covers F a x y) then Earth_null else Earth_valid)"
    if "0 \<le> x" "x < 63" "0 \<le> y" "y < 60" for x y using l that by (simp add: laid_out_def earth_laid_def)
  obtain n where n: "delete_cells Earth_null ?cs (w_ground w) 0 =
      Ret (\<lambda>c. if c \<in> (\<lambda>(k, j). cell_at k j) ` set ?cs then Earth_null else w_ground w c, n)"
    using boulder_dug [OF l pos] by blast
  have w': "w_actors w' = w_actors w @ [a]" "w_ground w' = (\<lambda>c. if c \<in> (\<lambda>(k, j). cell_at k j) ` set ?cs then Earth_null else w_ground w c)"
    using d pos n by (auto simp: digEarth_def add_actor_def Let_def in_game_def split: if_split_asm)
  have cov: "cell_at x y \<in> (\<lambda>(k, j). cell_at k j) ` set ?cs \<longleftrightarrow> covers F a x y" if "0 \<le> x" "x < 63" "0 \<le> y" "y < 60" for x y
  proof
    assume "cell_at x y \<in> (\<lambda>(k, j). cell_at k j) ` set ?cs"
    then obtain k j where "(k, j) \<in> set ?cs" "cell_at x y = cell_at k j" by auto
    then show "covers F a x y" using that pos cell_at_inj [of y j x k] by (auto simp: covers_def)
  next
    assume "covers F a x y"
    then have "(x, y) \<in> set ?cs" using that pos by (auto simp: covers_def image_iff)
    then show "cell_at x y \<in> (\<lambda>(k, j). cell_at k j) ` set ?cs" by force
  qed
  have "earth_laid F w'" unfolding earth_laid_def w' using cov g b by auto
  then show ?thesis using l p f w'(1) by (auto simp: laid_out_def nth_append less_Suc_eq sorted_wrt_append)
qed

lemma num_counts:
  assumes "0 \<le> level"
  shows "2 \<le> num_boulders level" "2 \<le> num_nuggets level" "2 \<le> num_barrels level"
    "num_boulders level \<le> num_nuggets level + num_barrels level"
  using assms by (auto simp: num_boulders_def num_nuggets_def num_barrels_def c_div_nonneg)

lemma placed_new:
  assumes "graph_ok F" and "0 \<le> x" "x < 60" "\<not> (26 \<le> x \<and> x < 34)" "0 \<le> y" "y < 56"
  shows "int i < B \<Longrightarrow> 20 \<le> y \<Longrightarrow> placed F B L i (new_Boulder F c x y)"
    and "B \<le> int i \<Longrightarrow> int i < B + L \<Longrightarrow> placed F B L i (new_Barrel F x y)"
    and "B + L \<le> int i \<Longrightarrow> 0 \<le> L \<Longrightarrow> placed F B L i (new_world_nugget F c x y)"
  using assms by (auto simp: placed_def new_Boulder_def new_Barrel_def new_world_nugget_def new_actor_def hide_def is_boulder_def graph_laws)

lemma new_at:
  assumes "graph_ok F"
  shows "g_x F (a_obj (new_Boulder F c x y)) = x" "g_y F (a_obj (new_Boulder F c x y)) = y"
    "g_x F (a_obj (new_Barrel F x y)) = x" "g_y F (a_obj (new_Barrel F x y)) = y"
    "g_x F (a_obj (new_world_nugget F c x y)) = x" "g_y F (a_obj (new_world_nugget F c x y)) = y"
    "is_boulder (new_Boulder F c x y)" "\<not> is_boulder (new_Barrel F x y)" "\<not> is_boulder (new_world_nugget F c x y)"
  using assms by (simp_all add: new_Boulder_def new_Barrel_def new_world_nugget_def new_actor_def hide_def is_boulder_def graph_laws)

text \<open>One object is placed, with its earth dug away when it is a boulder.\<close>

lemma place_one:
  assumes g: "graph_ok F" and l: "laid_out F B L w" and k: "int (length (w_actors w)) = k" "k < B + G + L"
    and counts: "0 \<le> L" "0 \<le> G" "B \<le> G + L"
    and pos: "find_place F (w_actors w) (k < B + G + L - B) (w_rand w) = Some (x, y, rest)"
    and r: "(let w = w\<lparr>w_rand := rest\<rparr> in
        if k < B + G + L - (G + L) then digEarth F x y (add_actor (new_Boulder F c x y) w)
        else if k \<ge> B + G + L - (G + L) \<and> k < B + G + L - G then Ret (add_actor (new_Barrel F x y) w)
        else if k \<ge> B + G + L - G \<and> k < B + G + L then Ret (add_actor (new_world_nugget F c x y) w)
        else Ret w) = Ret v"
  shows "laid_out F B L v \<and> length (w_actors v) = Suc (length (w_actors w)) \<and> w_man v = w_man w \<and> w_barrels v = w_barrels w"
proof -
  note xy = find_place_ok [OF pos]
  have w: "laid_out F B L (w\<lparr>w_rand := rest\<rparr>)" using l by (simp add: laid_out_def earth_laid_def)
  have far: "\<forall>b \<in> set (w_actors w). far_apart F b a" if "g_x F (a_obj a) = x" "g_y F (a_obj a) = y" for a
    using xy that by (simp add: far_apart_def)
  consider "k < B" | "B \<le> k" "k < B + L" | "B + L \<le> k" by linarith
  then show ?thesis
  proof cases
    case 1
    then have d: "digEarth F x y (add_actor (new_Boulder F c x y) (w\<lparr>w_rand := rest\<rparr>)) = Ret v" using r by (simp add: Let_def)
    have "20 \<le> y" using xy 1 counts k by auto
    then have p: "placed F B L (length (w_actors w)) (new_Boulder F c x y)" using xy 1 k by (intro placed_new(1) [OF g]) auto
    have "laid_out F B L v \<and> w_actors v = w_actors w @ [new_Boulder F c x y]"
      using laid_out_boulder [OF w, of "new_Boulder F c x y" v] p far [of "new_Boulder F c x y"] d by (simp add: new_at [OF g])
    then show ?thesis using digEarth_same [OF d] by (simp add: add_actor_def)
  next
    case 2
    then have v: "v = add_actor (new_Barrel F x y) (w\<lparr>w_rand := rest\<rparr>)" using r by (simp add: Let_def)
    have "placed F B L (length (w_actors w)) (new_Barrel F x y)" using xy 2 k by (intro placed_new(2) [OF g]) auto
    then have "laid_out F B L v" unfolding v using far [of "new_Barrel F x y"]
      by (intro laid_out_add [OF w]) (simp_all add: new_at [OF g])
    then show ?thesis by (simp add: v add_actor_def)
  next
    case 3
    then have v: "v = add_actor (new_world_nugget F c x y) (w\<lparr>w_rand := rest\<rparr>)" using r k counts by (simp add: Let_def)
    have "placed F B L (length (w_actors w)) (new_world_nugget F c x y)" using xy 3 k counts by (intro placed_new(3) [OF g]) auto
    then have "laid_out F B L v" unfolding v using far [of "new_world_nugget F c x y"]
      by (intro laid_out_add [OF w]) (simp_all add: new_at [OF g])
    then show ?thesis by (simp add: v add_actor_def)
  qed
qed

lemma place_actors_ok:
  assumes g: "graph_ok F" and counts: "0 \<le> B" "0 \<le> L" "0 \<le> G" "B \<le> G + L"
  shows "int (length (w_actors w)) = k \<Longrightarrow> k \<le> B + G + L \<Longrightarrow> laid_out F B L w \<Longrightarrow>
    place_actors F junk B G L [k..B + G + L - 1] w = Some (Ret w') \<Longrightarrow>
    laid_out F B L w' \<and> int (length (w_actors w')) = B + G + L \<and> w_man w' = w_man w \<and> w_barrels w' = w_barrels w"
proof (induction "nat (B + G + L - k)" arbitrary: k w)
  case 0
  then show ?case by simp
next
  case (Suc n)
  then have k: "k < B + G + L" by simp
  then have upto: "[k..B + G + L - 1] = k # [k + 1..B + G + L - 1]" by (subst upto.simps) simp
  obtain x y rest where f: "find_place F (w_actors w) (k < B + G + L - B) (w_rand w) = Some (x, y, rest)"
    using Suc.prems(4) unfolding upto by (auto simp: Let_def bind_eq_Some_conv)
  obtain v where v: "(let w = w\<lparr>w_rand := rest\<rparr> in
        if k < B + G + L - (G + L) then digEarth F x y (add_actor (new_Boulder F (junk (nat k)) x y) w)
        else if k \<ge> B + G + L - (G + L) \<and> k < B + G + L - G then Ret (add_actor (new_Barrel F x y) w)
        else if k \<ge> B + G + L - G \<and> k < B + G + L then Ret (add_actor (new_world_nugget F (junk (nat k)) x y) w)
        else Ret w) = Ret v" "place_actors F junk B G L [k + 1..B + G + L - 1] v = Some (Ret w')"
    using Suc.prems(4) unfolding upto place_actors.simps Let_def f Option.bind.bind_lunit prod.case obind2_Ret_iff option.inject
    by blast
  note one = place_one [OF g Suc.prems(3,1) k counts(2-4) f v(1)]
  have "laid_out F B L w' \<and> int (length (w_actors w')) = B + G + L \<and> w_man w' = w_man v \<and> w_barrels w' = w_barrels v"
    using Suc.hyps(2) one Suc.prems(1) k by (intro Suc.hyps(1) [OF _ _ _ _ v(2)]) auto
  with one show ?case by simp
qed

lemma tunnel_dug:
  "\<exists>n. delete_cells Earth_null [(i, j). i \<leftarrow> [30..33], j \<leftarrow> [4..59]] (fill_earth g) 0 =
    Ret (\<lambda>c. if \<exists>x y. in_tunnel x y \<and> c = cell_at x y then Earth_null else fill_earth g c, n)"
proof -
  define cs :: "(int \<times> int) list" where "cs = [(i, j). i \<leftarrow> [30..33], j \<leftarrow> [4..59]]"
  have mem: "(i, j) \<in> set cs \<longleftrightarrow> in_tunnel i j" for i j
    by (auto simp: cs_def in_tunnel_def image_iff simp del: upto_rec_numeral)
  have ok: "\<forall>(k, j) \<in> set cs. 0 \<le> cell_at k j \<and> cell_at k j < 63 * 60 \<and> fill_earth g (cell_at k j) \<noteq> Earth_dangling"
  proof (intro ballI, clarify)
    fix k j assume "(k, j) \<in> set cs"
    then have "in_tunnel k j" by (simp only: mem)
    then show "0 \<le> cell_at k j \<and> cell_at k j < 63 * 60 \<and> fill_earth g (cell_at k j) \<noteq> Earth_dangling"
      by (auto simp: in_tunnel_def cell_at_def fill_earth_eq)
  qed
  have "c \<in> (\<lambda>(k, j). cell_at k j) ` set cs \<longleftrightarrow> (\<exists>x y. in_tunnel x y \<and> c = cell_at x y)" for c
    by (auto simp: image_iff mem split: prod.splits) (metis mem prod.collapse)
  with delete_cells_eq [OF ok, of 0] show ?thesis unfolding cs_def [symmetric] by simp
qed

lemma tunnel_ground:
  assumes "0 \<le> x" "x < 63" "0 \<le> y" "y < 60"
  shows "(if \<exists>x' y'. in_tunnel x' y' \<and> cell_at x y = cell_at x' y' then Earth_null else fill_earth g (cell_at x y)) =
    (if in_tunnel x y then Earth_null else Earth_valid)"
proof -
  have "(\<exists>x' y'. in_tunnel x' y' \<and> cell_at x y = cell_at x' y') \<longleftrightarrow> in_tunnel x y"
    using cell_at_inj [OF assms(3,4)] by (auto simp: in_tunnel_def)
  then show ?thesis using assms by (simp add: fill_earth_eq) (auto simp: cell_at_def)
qed

lemma tm_init_ok:
  assumes g: "graph_ok F" and lives: "0 < gw_lives F (w_game w0)" and lev: "0 \<le> level" "level = gw_level F (w_game w0)"
    and empty: "w_actors w0 = []" and r: "tm_init F junk seed w0 = Some (Ret (st, w))"
  defines "B \<equiv> num_boulders level" and "G \<equiv> num_nuggets level" and "L \<equiv> num_barrels level"
  shows "st = GWSTATUS_CONTINUE_GAME \<and> w_man w = Some (new_TunnelMan F) \<and> w_barrels w = L \<and>
    (\<exists>as c s. w_actors w = as @ [new_RegularProtestor F c level s] \<and> int (length as) = B + G + L \<and>
      (\<forall>i < length as. placed F B L i (as ! i)) \<and> sorted_wrt (far_apart F) as) \<and> earth_laid F w"
proof -
  note counts = num_counts [OF lev(1), folded B_def G_def L_def]
  define gr where "gr = (\<lambda>c. if \<exists>x y. in_tunnel x y \<and> c = cell_at x y then Earth_null else fill_earth (w_ground w0) c)"
  define w1 where "w1 = w0\<lparr>w_man := Some (new_TunnelMan F), w_ground := gr, w_barrels := L, w_rand := seed\<rparr>"
  obtain n where n: "delete_cells Earth_null [(i, j). i \<leftarrow> [30..33], j \<leftarrow> [4..59]] (fill_earth (w_ground w0)) 0 = Ret (gr, n)"
    using tunnel_dug [of "w_ground w0"] unfolding gr_def by blast
  obtain v where v: "place_actors F junk B G L [0..B + G + L - 1] w1 = Some (Ret v)"
    "w = add_actor (new_RegularProtestor F (junk (nat (B + G + L))) level (int (w_rand v 0))) (v\<lparr>w_rand := rand_rest (w_rand v)\<rparr>)"
    "st = GWSTATUS_CONTINUE_GAME"
  proof -
    have "\<not> gw_lives F (w_game w0) \<le> 0" using lives by simp
    then have "obind2 (place_actors F junk B G L [0..B + G + L - 1] w1) (\<lambda>w.
        Some (Ret (GWSTATUS_CONTINUE_GAME, add_actor (new_RegularProtestor F (junk (nat (B + G + L))) level (int (w_rand w 0)))
          (w\<lparr>w_rand := rand_rest (w_rand w)\<rparr>)))) = Some (Ret (st, w))"
      using r unfolding tm_init_def n w1_def B_def G_def L_def lev(2) by (simp add: Let_def del: upto_rec_numeral)
    then show ?thesis using that by (auto simp: obind2_Ret_iff)
  qed
  have "w_ground w1 (cell_at x y) = (if in_tunnel x y then Earth_null else Earth_valid)" if "0 \<le> x" "x < 63" "0 \<le> y" "y < 60" for x y
    using tunnel_ground [OF that] by (simp add: w1_def gr_def)
  then have l: "laid_out F B L w1" using empty by (simp add: laid_out_def earth_laid_def w1_def)
  have l': "laid_out F B L v \<and> int (length (w_actors v)) = B + G + L \<and> w_man v = w_man w1 \<and> w_barrels v = w_barrels w1"
    using counts empty by (intro place_actors_ok [OF g _ _ _ _ _ _ l v(1)]) (auto simp: w1_def)
  moreover have "\<not> is_boulder (new_RegularProtestor F c s t)" for c s t by (simp add: is_boulder_def new_RegularProtestor_def new_actor_def)
  moreover have e: "w_actors w = w_actors v @ [new_RegularProtestor F (junk (nat (B + G + L))) level (int (w_rand v 0))]"
    "w_man w = w_man v" "w_barrels w = w_barrels v" "w_ground w = w_ground v" by (simp_all add: v(2) add_actor_def)
  ultimately have "earth_laid F w" by (simp add: laid_out_def earth_laid_def)
  with l' v(3) e show ?thesis by (auto simp: laid_out_def w1_def)
qed

text \<open>The barrels among the objects are those that the counter says.\<close>

lemma placed_oil:
  assumes "int (length as) = B + G + L" and "\<forall>i < length as. placed F B L i (as ! i)" and "0 \<le> B" "0 \<le> L" "0 \<le> G"
  shows "int (length (filter oil_left as)) = L"
proof -
  have "oil_left (as ! i) \<longleftrightarrow> B \<le> int i \<and> int i < B + L" if "i < length as" for i
  proof -
    have p: "placed F B L i (as ! i)" using assms(2) that by simp
    then show ?thesis
      by (cases "int i < B"; cases "int i < B + L") (auto simp: placed_def oil_left_def is_boulder_def)
  qed
  then have "{i. i < length as \<and> oil_left (as ! i)} = {nat B..<nat (B + L)}"
    using assms by (auto simp: nat_le_iff zless_nat_eq_int_zless)
  then show ?thesis using assms(3,4) by (simp add: length_filter_conv_card nat_add_distrib)
qed

lemma tm_init_level_ok:
  assumes g: "graph_ok F" and lives: "0 < gw_lives F (w_game w0)" and lev: "0 \<le> gw_level F (w_game w0)"
    and empty: "w_actors w0 = []" and r: "tm_init F junk seed w0 = Some (Ret (st, w))"
  shows "level_ok F w"
proof -
  let ?l = "gw_level F (w_game w0)"
  note i = tm_init_ok [OF g lives lev refl empty r]
  obtain as c s where as: "w_actors w = as @ [new_RegularProtestor F c ?l s]" "int (length as) = num_boulders ?l + num_nuggets ?l + num_barrels ?l"
    "\<forall>i < length as. placed F (num_boulders ?l) (num_barrels ?l) i (as ! i)" using i by blast
  have "actor_ok F a" if "a \<in> set as" for a
  proof -
    obtain k where "k < length as" "a = as ! k" using \<open>a \<in> set as\<close> by (auto simp: in_set_conv_nth)
    then show ?thesis using as(3) by (fastforce simp: placed_def actor_ok_def is_boulder_def split: actor_class.splits if_split_asm)
  qed
  moreover have "actor_ok F (new_RegularProtestor F c ?l s)" using g
    by (simp add: new_RegularProtestor_def new_actor_def actor_ok_def unharmed_def on_field_def graph_laws)
  moreover have "\<not> oil_left (new_RegularProtestor F c ?l s)" by (simp add: new_RegularProtestor_def new_actor_def oil_left_def)
  moreover have "int (length (filter oil_left as)) = num_barrels ?l"
    using placed_oil [OF as(2,3)] num_counts [OF lev] by simp
  moreover have "man_ok F (new_TunnelMan F)" using g by (simp add: man_ok_def new_TunnelMan_def on_field_def graph_laws)
  ultimately show ?thesis using i g as(1) by (auto simp: level_ok_def list_all_iff)
qed

subsection \<open>A level that starts\<close>

text \<open>The position that the numbers \<open>2 i\<close> and \<open>2 i + 1\<close> of a seed give to object \<open>i\<close>.\<close>

definition drawn_x :: "(nat \<Rightarrow> nat) \<Rightarrow> nat \<Rightarrow> int" where
  "drawn_x seed i = int (seed (2 * i)) mod 60"

definition drawn_y :: "(nat \<Rightarrow> nat) \<Rightarrow> int \<Rightarrow> nat \<Rightarrow> int" where
  "drawn_y seed high i = (if int i < high then int (seed (2 * i + 1)) mod 36 + 20 else int (seed (2 * i + 1)) mod 56)"

definition good_draws :: "(nat \<Rightarrow> nat) \<Rightarrow> int \<Rightarrow> nat \<Rightarrow> bool" where
  "good_draws seed high n \<longleftrightarrow> (\<forall>i < n. \<not> (26 \<le> drawn_x seed i \<and> drawn_x seed i < 34) \<and>
     (\<forall>j < i. \<not> within_distance 6 (drawn_x seed i) (drawn_y seed high i) (drawn_x seed j) (drawn_y seed high j)))"

lemma place_actors_return:
  assumes g: "graph_ok F" and counts: "0 \<le> B" "0 \<le> L" "0 \<le> G" "B \<le> G + L" and good: "good_draws seed (G + L) (nat (B + G + L))"
  shows "int (length (w_actors w)) = k \<Longrightarrow> k \<le> B + G + L \<Longrightarrow> laid_out F B L w \<Longrightarrow>
    \<forall>i < length (w_actors w). g_x F (a_obj (w_actors w ! i)) = drawn_x seed i \<and> g_y F (a_obj (w_actors w ! i)) = drawn_y seed (G + L) i \<Longrightarrow>
    w_rand w = (\<lambda>j. seed (2 * length (w_actors w) + j)) \<Longrightarrow>
    \<exists>w'. place_actors F junk B G L [k..B + G + L - 1] w = Some (Ret w')"
proof (induction "nat (B + G + L - k)" arbitrary: k w)
  case 0
  then show ?case by simp
next
  case (Suc n)
  then have k: "k < B + G + L" by simp
  then have upto: "[k..B + G + L - 1] = k # [k + 1..B + G + L - 1]" by (subst upto.simps) simp
  let ?i = "length (w_actors w)"
  define x where "x = drawn_x seed ?i"
  define y where "y = drawn_y seed (G + L) ?i"
  define rest where "rest = rand_rest (rand_rest (w_rand w))"
  have i: "?i < nat (B + G + L)" using Suc.prems(1) k by simp
  have "\<not> list_ex (\<lambda>a. within_distance 6 x y (g_x F (a_obj a)) (g_y F (a_obj a))) (w_actors w)" "\<not> (26 \<le> x \<and> x < 34)"
    using good i Suc.prems(4) by (auto simp: good_draws_def x_def y_def list_ex_iff in_set_conv_nth)
  moreover have "rand_mod (w_rand w) 60 = x" "(if k < B + G + L - B then rand_mod (rand_rest (w_rand w)) 36 + 20 else rand_mod (rand_rest (w_rand w)) 56) = y"
    using Suc.prems(1,5) by (auto simp: rand_mod_def rand_rest_def x_def y_def drawn_x_def drawn_y_def)
  ultimately have f: "find_place F (w_actors w) (k < B + G + L - B) (w_rand w) = Some (x, y, rest)"
    by (subst find_place.simps) (auto simp: Let_def rest_def)
  note xy = find_place_ok [OF f]
  let ?w = "w\<lparr>w_rand := rest\<rparr>"
  let ?step = "let w = ?w in
        if k < B + G + L - (G + L) then digEarth F x y (add_actor (new_Boulder F (junk (nat k)) x y) w)
        else if k \<ge> B + G + L - (G + L) \<and> k < B + G + L - G then Ret (add_actor (new_Barrel F x y) w)
        else if k \<ge> B + G + L - G \<and> k < B + G + L then Ret (add_actor (new_world_nugget F (junk (nat k)) x y) w)
        else Ret w"
  have "\<exists>v a. ?step = Ret v \<and> w_actors v = w_actors w @ [a] \<and> g_x F (a_obj a) = x \<and> g_y F (a_obj a) = y \<and> w_rand v = rest"
  proof (cases "k < B")
    case True
    have "laid_out F B L ?w" using Suc.prems(3) by (simp add: laid_out_def earth_laid_def)
    then obtain v where v: "digEarth F x y (add_actor (new_Boulder F (junk (nat k)) x y) ?w) = Ret v"
      using digEarth_Ret [of F B L ?w x y] xy by blast
    then have "w_actors v = w_actors w @ [new_Boulder F (junk (nat k)) x y] \<and> w_rand v = rest"
      by (auto simp: digEarth_def obind_Ret_iff Let_def in_game_def add_actor_def split: if_split_asm)
    then show ?thesis using v True by (auto simp: Let_def new_at [OF g])
  next
    case False
    then show ?thesis using k by (auto simp: Let_def add_actor_def new_at [OF g])
  qed
  then obtain v a where v: "?step = Ret v" "w_actors v = w_actors w @ [a]" "g_x F (a_obj a) = x" "g_y F (a_obj a) = y" "w_rand v = rest"
    by blast
  note one = place_one [OF g Suc.prems(3,1) k counts(2-4) f v(1)]
  have "w_rand v = (\<lambda>j. seed (2 * length (w_actors v) + j))" using v(2,5) Suc.prems(5) by (simp add: rest_def rand_rest_def)
  then have "\<exists>w'. place_actors F junk B G L [k + 1..B + G + L - 1] v = Some (Ret w')"
    using Suc.hyps(2) one Suc.prems(1,4) k v(2-4)
    by (intro Suc.hyps(1)) (auto simp: nth_append less_Suc_eq x_def y_def)
  with v(1) show ?case unfolding upto place_actors.simps Let_def f by simp
qed

lemma tm_init_returns:
  assumes g: "graph_ok F" and lives: "0 < gw_lives F (w_game w0)" and lev: "0 \<le> gw_level F (w_game w0)" and empty: "w_actors w0 = []"
    and good: "good_draws seed (num_nuggets (gw_level F (w_game w0)) + num_barrels (gw_level F (w_game w0)))
      (nat (num_boulders (gw_level F (w_game w0)) + num_nuggets (gw_level F (w_game w0)) + num_barrels (gw_level F (w_game w0))))"
  shows "\<exists>w. tm_init F junk seed w0 = Some (Ret (GWSTATUS_CONTINUE_GAME, w))"
proof -
  let ?l = "gw_level F (w_game w0)"
  define B G L where "B = num_boulders ?l" and "G = num_nuggets ?l" and "L = num_barrels ?l"
  note counts = num_counts [OF lev, folded B_def G_def L_def]
  define gr where "gr = (\<lambda>c. if \<exists>x y. in_tunnel x y \<and> c = cell_at x y then Earth_null else fill_earth (w_ground w0) c)"
  define w1 where "w1 = w0\<lparr>w_man := Some (new_TunnelMan F), w_ground := gr, w_barrels := L, w_rand := seed\<rparr>"
  obtain n where n: "delete_cells Earth_null [(i, j). i \<leftarrow> [30..33], j \<leftarrow> [4..59]] (fill_earth (w_ground w0)) 0 = Ret (gr, n)"
    using tunnel_dug [of "w_ground w0"] unfolding gr_def by blast
  have l: "laid_out F B L w1" using empty tunnel_ground [where g = "w_ground w0"] by (simp add: laid_out_def earth_laid_def w1_def gr_def)
  have "\<exists>v. place_actors F junk B G L [0..B + G + L - 1] w1 = Some (Ret v)"
    by (rule place_actors_return [where seed = seed]) (use g counts empty good l in \<open>auto simp: w1_def B_def G_def L_def\<close>)
  then obtain v where v: "place_actors F junk B G L [0..B + G + L - 1] w1 = Some (Ret v)" by blast
  have "\<not> gw_lives F (w_game w0) \<le> 0" using lives by simp
  then show ?thesis using v unfolding tm_init_def n w1_def B_def G_def L_def by (simp add: Let_def del: upto_rec_numeral)
qed

end
