(* ===== verification/Examples.thy ===== *)
theory Examples
  imports Lab0 Lab1bServer Lab2Add Lab2List1 Lab3aProps Lab4b SmallPrograms Recursion Sensors WordTree StringArraysProps
    LinkedListProps AnagramsProps MazeProps RobotsProps BballRosterProps
    HttpServerProps DecryptProps TunnelLevel
begin

text \<open>
  Concrete inputs of the programs (a list of one element, a disk image, environments in
  which every call works) with the facts about them that the instances in the root theory
  share.
\<close>

definition heap1 :: heap where
  "heap1 = [0 \<mapsto> \<lparr>se_prev = 0, se_next = 0, se_key = None\<rparr>,
            1 \<mapsto> \<lparr>se_prev = 7, se_next = 9, se_key = Some ''k''\<rparr>]"

definition heap2 :: heap where
  "heap2 = [0 \<mapsto> \<lparr>se_prev = 1, se_next = 1, se_key = None\<rparr>,
            1 \<mapsto> \<lparr>se_prev = 0, se_next = 0, se_key = Some ''k''\<rparr>]"

definition par11 :: list_par where
  "par11 = \<lparr>p_lists = 1, p_iters = 1, p_threads = 1, p_sync = CHR ''m''\<rparr>"

definition run11 :: "nat \<Rightarrow> sl_op list_sys option" where
  "run11 n = list_play SortedList_code par11 (None # replicate n (Some 0)) (list_sys_init par11 (\<lambda>_. ''key'') (\<lambda>_. (0, 0)))"

definition par12 :: list_par where
  "par12 = \<lparr>p_lists = 1, p_iters = 1, p_threads = 2, p_sync = CHR ''n''\<rparr>"

definition entry_bytes :: "u8 list" where
  "entry_bytes = [2, 0, 0, 0, 0, 4, 1, 2, 46] @ replicate 255 0"

definition disk1 :: disk where
  "disk1 = \<lparr>d_bytes = replicate 1024 0 @ entry_bytes @ replicate 760 0, d_fail = \<lambda>_ _. False\<rparr>"

definition env0 :: l0_env where
  "env0 = \<lparr>may_read = \<lambda>_. True, may_creat = \<lambda>_. True, dup_ok = True, rd = \<lambda>_. Some 3, wr = \<lambda>_. Some 300\<rparr>"

definition sys0 :: l0_sys where
  "sys0 = \<lparr>files = [''a'' \<mapsto> ''some text''], l0_in = Inherited [], l0_out = Terminal, l0_tty = [], segfault_flag = False,
     catch_flag = False\<rparr>"

definition b_sys0 :: b_sys where
  "b_sys0 = b_sys_init (replicate 32 CHR ''x'') b_defaults"

definition a_env1 :: a_env where
  "a_env1 = \<lparr>e_fork = Some 7, e_isatty = True, e_tcget = True, e_tcset = True, e_reads = True, e_kill = True, e_malloc = True, e_wait = Some 256\<rparr>"

definition tty1 :: termios where
  "tty1 = \<lparr>c_iflag = 1, c_oflag = 5, c_lflag = 9\<rparr>"

definition fds1 :: fdtab where
  "fds1 = [0 \<mapsto> Tty, 1 \<mapsto> Tty, 2 \<mapsto> Tty]"

definition a_sys1 :: a_sys where
  "a_sys1 = (a_sys_init tty1 (fds1(4 \<mapsto> PipeWrite 0)) True ''/bin/bash'')\<lparr>a_pw := 4, a_cpid := 7\<rparr>"

definition c_env1 :: c_env where
  "c_env1 = \<lparr>ce_mem = \<lparr>cm_alloc = \<lambda>_. True, cm_junk = \<lambda>_. CHR 0x00\<rparr>, ce_open = \<lambda>_. True, ce_isatty = True, ce_tcget = True,
     ce_tcset = True, ce_socket = True, ce_connect = True, ce_peer = True, ce_stack = []\<rparr>"

definition buf1 :: "Lab1bClient.buffer" where
  "buf1 = \<lparr>bf_capacity = 16384, bf_load = 0, bf_avaliable = 16384, bf_data = replicate 16384 CHR 0x00\<rparr>"

definition zlib_id :: "unit zlib" where
  "zlib_id = \<lparr>z_inflateInit = Some (), z_deflateInit = Some (), z_inflate = \<lambda>_ x _. Some ((), length x, x),
     z_deflate = \<lambda>_ x _. Some ((), length x, x)\<rparr>"

definition c_sys1 :: "unit c_sys" where
  "c_sys1 = (c_sys_init tty1)\<lparr>log_flag := True, sent_buf := Some buf1, recv_buf := Some buf1\<rparr>"

definition v_env1 :: v_env where
  "v_env1 = \<lparr>ve_junk = [], ve_sock = True, ve_bind = True, ve_listen = True, ve_fork = Some 7, ve_reads = True, ve_kill = True,
     ve_peer = True, ve_send = True, ve_wait = Some 0\<rparr>"

definition v_sys1 :: "unit v_sys" where
  "v_sys1 = (v_sys_init (fds1(4 \<mapsto> PipeWrite 0)))\<lparr>v_pw := 4, v_cpid := 7\<rparr>"

definition maze1 :: "string list" where
  "maze1 = [''XXXX'', ''X..X'', ''XXXX'']"

definition grid1 :: grid where
  "grid1 = \<lparr>getRows = 2, getCols = 5, isWall = (\<lambda>r c. r = 2 \<and> c = 2)\<rparr>"

definition arena1 :: arena where
  "arena1 = \<lparr>m_rows = 3, m_cols = 3, m_player = Some \<lparr>p_row = 2, p_col = 2, p_age = 0, p_dead = False\<rparr>,
     m_robots = [\<lparr>r_row = 1, r_col = 1, r_health = 2\<rparr>, \<lparr>r_row = 1, r_col = 2, r_health = 1\<rparr>],
     m_history = \<lparr>h_rows = 3, h_cols = 3, h_grid = replicate 800 (CHR ''.'')\<rparr>\<rparr>"

definition rosters1 :: roster_mem where
  "rosters1 = \<lparr>nodes = [1 \<mapsto> \<lparr>n_first = ''Kobe'', n_last = ''Bryant'', n_value = ''24'', n_next = Some 2, n_previous = None\<rparr>,
       2 \<mapsto> \<lparr>n_first = ''Magic'', n_last = ''Johnson'', n_value = ''32'', n_next = None, n_previous = Some 1\<rparr>,
       3 \<mapsto> \<lparr>n_first = ''Magic'', n_last = ''Johnson'', n_value = ''15'', n_next = None, n_previous = None\<rparr>],
     next_node = 4, rosters = (\<lambda>_. \<lparr>r_head = None, r_tail = None\<rparr>)
       (Obj 0 := \<lparr>r_head = Some 1, r_tail = Some 2\<rparr>, Obj 2 := \<lparr>r_head = Some 3, r_tail = Some 3\<rparr>)\<rparr>"

definition players1 :: "object \<Rightarrow> entry list" where
  "players1 = (\<lambda>_. [])(Obj 0 := [((''Bryant'', ''Kobe''), ''24''), ((''Johnson'', ''Magic''), ''32'')],
     Obj 2 := [((''Johnson'', ''Magic''), ''15'')])"

definition layout1 :: string_layout where
  "layout1 = \<lparr>object_bytes = (\<lambda>s. char_of (2 * length s) # s @ [CHR 0x00]),
     object_value = (\<lambda>b. take (of_char (hd b) div 2) (tl b))\<rparr>"

definition web1 :: web_env where
  "web1 = \<lparr>web_directory = Some [''Notes.txt'', ''my page.html''], web_file = [''my page.html'' \<mapsto> ''<p>Hi</p>'']\<rparr>"

definition request1 :: web_event where
  "request1 = Accepted 4 (Some (request ''GET '' ''my%20page.HTML'' ''1.1'' ''Host: x'')) [] web1"

definition reply1 :: string where
  "reply1 = http_header (get_Extension ''my page.html'') 9 @ ''<p>Hi</p>''"

definition request2 :: web_event where
  "request2 = Accepted 4 (Some (''GET '' @ CHR ''/'' # ''img/logo.png HTTP/1.1'' @ CHR 0x0A # '''')) [] web1"

definition tm_seed :: "nat \<Rightarrow> nat" where
  "tm_seed k = (if k < 12 then [0, 0, 10, 0, 20, 0, 40, 0, 50, 0, 0, 30] ! k else 0)"

definition tm_world0 :: "(image_id \<times> int \<times> int \<times> direction \<times> bool, int \<times> int \<times> int \<times> string) tm_world" where
  "tm_world0 = createStudentWorld (0, 3, 0, []) (\<lambda>_. Earth_null) (\<lambda>_. CHR ''.'') 0 (\<lambda>_. 0)"

definition tm_man1 :: "(image_id \<times> int \<times> int \<times> direction \<times> bool) tunnel_man" where
  "tm_man1 = \<lparr>t_obj = (TID_PLAYER, 58, 30, Dir_right, True), t_state = St_alive, t_dead = False, t_hitPoints = 10,
    t_squirts = 500, t_kits = 1, t_nuggets = 0\<rparr>"

definition tm_world1 :: "(image_id \<times> int \<times> int \<times> direction \<times> bool, int \<times> int \<times> int \<times> string) tm_world" where
  "tm_world1 = \<lparr>w_game = (0, 3, 0, []), w_man = Some tm_man1, w_actors = [new_Barrel plain_framework 5 5],
    w_ground = (\<lambda>_. Earth_null), w_maze = (\<lambda>_. CHR ''.''), w_barrels = 1, w_rand = (\<lambda>_. 0)\<rparr>"

lemma heap1_slist: "slist heap1 0 []" "keyed heap1 1"
  by (simp_all add: slist_def dlist_def heap1_def keyed_def key_of_def)

lemma heap2_slist: "slist heap2 0 [1]"
  by (simp add: slist_def dlist_def heap2_def keyed_def key_of_def)

lemma run11_reach: "run11 n = Some s \<Longrightarrow> list_reach SortedList_code par11 (\<lambda>_. ''key'') s"
  unfolding run11_def by (erule list_play_reach) (rule list_reach.start)

lemma par11_ok: "good_keys par11 (\<lambda>_. ''key'')" "list_synchronised par11"
proof -
  have "get_key_hash 1 ''key'' = Ret 0" by code_simp
  then show "good_keys par11 (\<lambda>_. ''key'')" by (simp add: good_keys_def par11_def)
qed (simp add: par11_def list_synchronised_def)

lemma add_solo_run:
  "\<exists>s. add_reach (CHR ''m'') 1 1 s \<and> add_joined 1 s"
proof -
  have "map_option (\<lambda>s. created s = 1 \<and> at_loop (thr s 0) = 2) (add_play (CHR ''m'') 1 1 (None # replicate 14 (Some 0)) add_sys_init) = Some True"
    by code_simp
  then obtain s where s: "add_play (CHR ''m'') 1 1 (None # replicate 14 (Some 0)) add_sys_init = Some s" "created s = 1" "at_loop (thr s 0) = 2"
    by auto
  then show ?thesis using add_play_reach [OF s(1) add_reach.start] by (auto simp: add_joined_def)
qed

lemma disk1_pread: "pread disk1 sizeof_dir_entry 1024 = Some entry_bytes" "length entry_bytes = sizeof_dir_entry"
  by (simp_all add: pread_def disk1_def entry_bytes_def sizeof_dir_entry_def EXT2_NAME_LEN_def)

lemma disk1_entry: "de_rec_len (dir_entry_of entry_bytes) = 1024"
  by (simp add: entry_bytes_def dir_entry_of_def u16_at_def)

lemma fds1_ok: "std_open fds1" "no_pipe 0 fds1" "no_pipe 1 fds1"
  by (auto simp: fds1_def std_open_def no_pipe_def holds_def)

lemma fds1_pipe:
  "pipe_fd 0 fds1 = Some (3, 4, fds1(3 \<mapsto> PipeRead 0, 4 \<mapsto> PipeWrite 0))"
  "pipe_fd 1 (fds1(3 \<mapsto> PipeRead 0, 4 \<mapsto> PipeWrite 0)) =
     Some (5, 6, fds1(3 \<mapsto> PipeRead 0, 4 \<mapsto> PipeWrite 0, 5 \<mapsto> PipeRead 1, 6 \<mapsto> PipeWrite 1))"
proof -
  have f: "find_free t n (numeral k) = (if t n = None then Some n else find_free t (n + 1) (pred_numeral k))" for t n k
    by (simp add: numeral_eq_Suc)
  show "pipe_fd 0 fds1 = Some (3, 4, fds1(3 \<mapsto> PipeRead 0, 4 \<mapsto> PipeWrite 0))"
    by (simp add: pipe_fd_def free_fd_def OPEN_MAX_def f fds1_def)
  show "pipe_fd 1 (fds1(3 \<mapsto> PipeRead 0, 4 \<mapsto> PipeWrite 0)) =
     Some (5, 6, fds1(3 \<mapsto> PipeRead 0, 4 \<mapsto> PipeWrite 0, 5 \<mapsto> PipeRead 1, 6 \<mapsto> PipeWrite 1))"
    by (simp add: pipe_fd_def free_fd_def OPEN_MAX_def f fds1_def)
qed

lemma buf1_init: "init_buf (ce_mem c_env1) = Ret buf1"
  by (simp add: init_buf_def c_env1_def buf1_def CLIENT_READ_SIZE_def map_replicate_const)

lemma buf1_fresh: "fresh_buf buf1" "logged buf1 = []"
  using init_buf_fresh [OF buf1_init] by (simp_all add: c_env1_def)

lemma maze1_rows: "maze_at maze1 1 1 = Ret (CHR ''.'')" "maze_at maze1 1 2 = Ret (CHR ''.'')" "dots maze1 \<subseteq> {(1, 1), (1, 2)}"
proof -
  have row: "r = 0 \<or> r = 1 \<or> r = 2" if "0 \<le> r" "nat r < 3" for r :: int using that by linarith
  have col: "c = 0 \<or> c = 1 \<or> c = 2 \<or> c = 3 \<or> c = 4" if "0 \<le> c" "nat c \<le> 4" for c :: int using that by linarith
  show "dots maze1 \<subseteq> {(1, 1), (1, 2)}"
  proof
    fix q assume "q \<in> dots maze1"
    then obtain r c where q: "q = (r, c)" "maze_at maze1 r c = Ret (CHR ''.'')" by (cases q) (simp add: dots_def)
    then have r: "0 \<le> r" "nat r < 3" "0 \<le> c" "nat c \<le> length (maze1 ! nat r)"
      by (auto simp: maze_at_def maze1_def split: if_splits)
    note rr = row [OF r(1,2)]
    then have "length (maze1 ! nat r) = 4" by (auto simp: maze1_def)
    with r have "c = 0 \<or> c = 1 \<or> c = 2 \<or> c = 3 \<or> c = 4" by (intro col) simp_all
    with rr q(2) show "q \<in> {(1, 1), (1, 2)}"
      by (elim disjE) (simp_all add: q(1) maze_at_def maze1_def)
  qed
qed (simp_all add: maze_at_def maze1_def)

lemma maze1_inside: "inside maze1 (1, 1)" "inside maze1 (1, 2)"
  by (simp_all add: inside_def adjacent_def drop_crumb_def maze_at_def maze1_def)

lemma arena1_ok: "arena_ok arena1"
  by (simp add: arena_ok_def board_ok_def arena1_def hist_ok_def on_board_def robot_ok_def INITIAL_ROBOT_HEALTH_def MAXROWS_def
      MAXCOLS_def MAXROBOTS_def robotCount_def)

lemma arena1_player: "m_player arena1 = Some \<lparr>p_row = 2, p_col = 2, p_age = 0, p_dead = False\<rparr>"
  by (simp add: arena1_def)

lemma game1_starts: "\<exists>a g'. new_Game 3 3 2 (replicate 800 (CHR ''?'')) int = Some (Ret (a, g'))"
proof -
  obtain b where b: "new_Before 3 3 (replicate 800 (CHR ''?'')) = Ret b" using new_Before_ok [of "replicate 800 (CHR ''?'')" 3 3] by auto
  show ?thesis
    by (simp add: new_Game_def new_Arena_def b MAXROWS_def MAXCOLS_def MAXROBOTS_def addPlayer_def new_Player_def Let_def
        c_mod_nonneg place_robots.simps addRobot_def new_Robot_def robotCount_def)
qed

lemma rosters1_represents: "represents {Obj 0, Obj 2} rosters1 players1"
  unfolding represents_def layout_def
  by (intro exI [of _ "(\<lambda>_. [])(Obj 0 := [1, 2], Obj 2 := [3])"])
    (auto simp: rosters1_def players1_def head_of_def tail_of_def entry_of_def split: if_splits)

lemma players1_sorted: "key_sorted (players1 (Obj 0))" "key_sorted (players1 (Obj 2))"
  by (simp_all add: players1_def less_prod_def less_char_def)

lemma players1_at: "players1 (Obj 0) = [((''Bryant'', ''Kobe''), ''24''), ((''Johnson'', ''Magic''), ''32'')]"
    "players1 (Obj 2) = [((''Johnson'', ''Magic''), ''15'')]"
  by (simp_all add: players1_def)

lemma layout1_libcpp: "libcpp_layout layout1"
proof -
  have "of_char (char_of (2 * length s) :: char) div 2 = length s" if "length s \<le> 22" for s :: string
    using length_byte(1) [OF that] by simp
  then show ?thesis by (simp add: libcpp_layout_def layout1_def)
qed

lemma page_name: "map tolower ''my page.HTML'' = ''my page.html''" "map tolower ''my page.html'' = ''my page.html''"
  by code_simp+

lemma request1_served: "served request1 (4, reply1)"
proof -
  have "unescape ''my%20page.HTML'' = ''my page.HTML''" by simp
  moreover have "file_served web1 ''my page.HTML'' reply1"
    unfolding file_served_def page_name(1)
    by (intro exI [of _ "[''Notes.txt'', ''my page.html'']"] exI [of _ "''my page.html''"] exI [of _ "''<p>Hi</p>''"])
      (simp add: web1_def reply1_def short_name_def page_name del: list.map)
  moreover have "request_ok ''GET '' ''my%20page.HTML'' ''1.1''" by (simp add: request_ok_def)
  ultimately show ?thesis unfolding served_def request1_def
    by (intro exI [of _ "''GET ''"] exI [of _ "''my%20page.HTML''"] exI [of _ "''1.1''"] exI [of _ "''Host: x''"] exI [of _ "[]"]
        exI [of _ web1]) simp
qed

lemma plain_simps:
  "g_new plain_framework i x y d n = (i, x, y, d, False)" "g_x plain_framework (i, x, y, d, b) = x" "g_y plain_framework (i, x, y, d, b) = y"
  "g_dir plain_framework (i, x, y, d, b) = d" "g_visible plain_framework (i, x, y, d, b) = b" "g_setVisible plain_framework v (i, x, y, d, b) = (i, x, y, d, v)"
  "gw_level plain_framework (l, g) = l"
  by (simp_all add: plain_framework_def)

lemma tm_barrel1: "new_Barrel plain_framework 5 5 = \<lparr>a_obj = (TID_BARREL, 5, 5, Dir_right, False), a_state = St_alive, a_animate = False, a_class = Barrel\<rparr>"
  by (simp add: new_Barrel_def new_actor_def hide_def plain_simps)

lemma tm_world0_simps: "gw_lives plain_framework (w_game tm_world0) = 3" "gw_level plain_framework (w_game tm_world0) = 0" "w_actors tm_world0 = []"
  by (simp_all add: tm_world0_def createStudentWorld_def plain_framework_def)

lemma level0_counts: "num_boulders 0 = 2" "num_nuggets 0 = 2" "num_barrels 0 = 2"
  by (simp_all add: num_boulders_def num_nuggets_def num_barrels_def c_div_nonneg)

lemma tm_seed_good: "good_draws tm_seed 4 6"
proof -
  have d: "drawn_x tm_seed i = [0, 10, 20, 40, 50, 0] ! i \<and> drawn_y tm_seed 4 i = [20, 20, 20, 20, 0, 30] ! i" if "i < 6" for i
  proof -
    have "i = 0 \<or> i = 1 \<or> i = 2 \<or> i = 3 \<or> i = 4 \<or> i = 5" using that by auto
    then show ?thesis by (elim disjE) (simp_all add: drawn_x_def drawn_y_def tm_seed_def)
  qed
  show ?thesis unfolding good_draws_def
  proof (intro allI impI conjI)
    fix i :: nat assume i: "i < 6"
    then have "i = 0 \<or> i = 1 \<or> i = 2 \<or> i = 3 \<or> i = 4 \<or> i = 5" by auto
    then show "\<not> (26 \<le> drawn_x tm_seed i \<and> drawn_x tm_seed i < 34)" using d [OF i] by auto
    fix j assume j: "j < i"
    then have "j = 0 \<or> j = 1 \<or> j = 2 \<or> j = 3 \<or> j = 4" using i by auto
    moreover have "j < 6" using i j by simp
    ultimately show "\<not> within_distance 6 (drawn_x tm_seed i) (drawn_y tm_seed 4 i) (drawn_x tm_seed j) (drawn_y tm_seed 4 j)"
      using d [OF i] d [of j] \<open>i = 0 \<or> _\<close> j by (auto simp: within_distance_def)
  qed
qed

lemma tm_world1_ok: "level_ok plain_framework tm_world1"
  unfolding level_ok_def using plain_framework_ok
  by (simp add: tm_world1_def tm_barrel1 actor_ok_def oil_left_def man_ok_def on_field_def tm_man1_def plain_simps)

end
