(* ===== verification/Further.thy ===== *)
theory Further
  imports Examples
begin

text \<open>
  Further facts about the programs, each with an instance, beside those of the root theory.
\<close>

text \<open>
  signOrResign of BballRoster.cpp for the name of the last player of a roster returns true and
  leaves every roster, and so the player's value, unchanged.
\<close>

theorem last_player_not_resigned:
  assumes "represents L m C" and "ob \<in> L" and "key_sorted (C ob)" and "C ob \<noteq> []"
  shows "\<exists>m'. signOrResign m ob (snd (fst (last (C ob)))) (fst (fst (last (C ob)))) v = Some (Ret (m', True)) \<and> represents L m' C"
proof -
  let ?k = "fst (last (C ob))"
  have C: "C ob = butlast (C ob) @ [last (C ob)]" using assms(4) by simp
  have "distinct (map fst (butlast (C ob) @ [last (C ob)]))" using assms(3) C strict_sorted_iff by metis
  then have "map_of (butlast (C ob)) ?k = None" by (auto simp: map_of_eq_None_iff)
  moreover have "map_of (C ob) ?k \<noteq> None" using assms(4) by (auto simp: map_of_eq_None_iff)
  then have "sign_entry (?k, v) (C ob) = C ob" by (auto simp: sign_entry_def)
  ultimately show ?thesis using signOrResign_updates [OF assms, of "snd ?k" "fst ?k" v] by (simp add: fun_upd_idem)
qed

theorem last_player_not_resigned_witness:
  "\<exists>m'. signOrResign rosters1 (Obj 0) ''Magic'' ''Johnson'' ''1'' = Some (Ret (m', True)) \<and>
    represents {Obj 0, Obj 2} m' players1"
  using last_player_not_resigned [OF rosters1_represents _ players1_sorted(1), of "''1''"] by (simp add: players1_at)

text \<open>
  When the length of the crib's first word is not among the lengths of the first words of a
  longer ciphertext (one more than the crib has), decrypt reads behind the array of the crib's
  word lengths, whether or not a match follows.
\<close>

theorem decrypt_reads_outside:
  assumes "list_all plain_word ws" and "plain_gaps cs" and "list_all plain_word vs" and "plain_gaps ds" and "vs \<noteq> []"
    and "length (sentence vs ds) \<le> 80" and "length (sentence vs ds) \<le> length (sentence ws cs)"
    and "length vs < length ws" and "length (hd vs) \<notin> length ` set (take (Suc (length vs)) ws)"
  shows "decrypt j1 j2 (sentence ws cs) (sentence vs ds) = Some SegFault"
  using assms by (rule decrypt_outside)

theorem decrypt_reads_outside_witness:
  "decrypt (\<lambda>_. 0) (\<lambda>_. 0) ''b tx png'' ''cat'' = Some SegFault"
proof -
  have "list_all plain_word [''b'', ''tx'', ''png'']" "list_all plain_word [''cat'']" "plain_gaps ''  ''" by code_simp+
  then show ?thesis using decrypt_reads_outside [of "[''b'', ''tx'', ''png'']" "''  ''" "[''cat'']" "''  ''" "\<lambda>_. 0" "\<lambda>_. 0"] by simp
qed

text \<open>
  isCourseWellFormed of maze.cpp accepts exactly the texts that are sequences of segments,
  each a direction letter followed by at most two digits.
\<close>

theorem course_grammar:
  "isCourseWellFormed course \<longleftrightarrow> (\<exists>segs. (\<forall>s \<in> set segs. segment_ok s) \<and> course = course_text segs)"
  by (rule isCourseWellFormed_iff)

theorem course_grammar_witness: "isCourseWellFormed ''N2eE01''"
proof -
  have "(\<forall>s \<in> set [(CHR ''N'', ''2''), (CHR ''e'', []), (CHR ''E'', ''01'')]. segment_ok s) \<and>
      ''N2eE01'' = course_text [(CHR ''N'', ''2''), (CHR ''e'', []), (CHR ''E'', ''01'')]"
    by (simp add: segment_ok_def is_direction_def isdigit_def less_eq_char_def)
  then show ?thesis unfolding course_grammar by (rule exI)
qed

text \<open>
  When the first numbers rand() returns give positions that are allowed, init of the Project 4
  game returns.
\<close>

theorem level_can_start:
  assumes "graph_ok F" and "0 < gw_lives F (w_game w0)" and "level = gw_level F (w_game w0)" and "0 \<le> level" and "w_actors w0 = []"
    and "good_draws seed (num_nuggets level + num_barrels level) (nat (num_boulders level + num_nuggets level + num_barrels level))"
  shows "\<exists>w. tm_init F junk seed w0 = Some (Ret (GWSTATUS_CONTINUE_GAME, w))"
  using assms by (intro tm_init_returns) simp_all

theorem level_can_start_witness:
  "\<exists>w. tm_init plain_framework (\<lambda>_. 0) tm_seed tm_world0 = Some (Ret (GWSTATUS_CONTINUE_GAME, w))"
  by (rule level_can_start [OF plain_framework_ok, of _ 0]) (simp_all add: tm_world0_simps level0_counts tm_seed_good)

text \<open>
  Firing to the right from column 58 or 59 in the Project 4 game, with barrels left, never
  completes the move: the squirt's check for earth reads behind the field.
\<close>

theorem squirt_reads_outside:
  assumes "level_ok F w" and "w_man w = Some t" and "\<not> t_dead t" and "t_squirts t \<noteq> 0" and "g_dir F (t_obj t) = Dir_right"
    and "g_x F (t_obj t) = 58 \<or> g_x F (t_obj t) = 59" and "t_state t \<noteq> St_dead" and "w_barrels w \<noteq> 0"
  shows "tm_move F (Some KEY_PRESS_SPACE) seed w \<noteq> Some (Ret r)"
  using assms by (rule squirt_outside)

theorem squirt_reads_outside_witness: "tm_move plain_framework (Some KEY_PRESS_SPACE) (\<lambda>_. 0) tm_world1 \<noteq> Some (Ret r)"
  by (rule squirt_reads_outside [OF tm_world1_ok, of tm_man1]) (simp_all add: tm_world1_def tm_man1_def plain_simps)

text \<open>
  After Escape the Project 4 game goes on as if no key were pressed any more.
\<close>

theorem escape_ignores_keys:
  assumes "level_ok F w" and "tm_move F (Some KEY_PRESS_ESCAPE) seed w = Some (Ret (GWSTATUS_CONTINUE_GAME, w'))"
  shows "tm_run F evs w' = tm_run F (map (\<lambda>(ch, seed). (None, seed)) evs) w'"
  using escape_pressed [OF assms] tm_run_dead by blast

theorem escape_ignores_keys_witness:
  "\<exists>w'. tm_move plain_framework (Some KEY_PRESS_ESCAPE) (\<lambda>_. 0) tm_world1 = Some (Ret (GWSTATUS_CONTINUE_GAME, w')) \<and>
    tm_run plain_framework [(Some KEY_PRESS_LEFT, \<lambda>_. 0)] w' = tm_run plain_framework [(None, \<lambda>_. 0)] w'"
proof -
  let ?w = "set_man (tm_man1\<lparr>t_dead := True\<rparr>) tm_world1"
  define cs :: "(int \<times> int) list" where "cs = [(k, j). k \<leftarrow> [58..min 62 (58 + 3)], j \<leftarrow> [30..min 59 (30 + 3)]]"
  have "\<forall>(k, j) \<in> set cs. 0 \<le> cell_at k j \<and> cell_at k j < 63 * 60 \<and> (\<lambda>_ :: int. Earth_null) (cell_at k j) \<noteq> Earth_dangling"
    unfolding cs_def by (auto simp: cell_at_def simp del: upto_rec_numeral)
  from delete_cells_eq [OF this, of 0] obtain n where "delete_cells Earth_null cs (w_ground tm_world1) 0 = Ret (w_ground tm_world1, n)"
    by (auto simp: tm_world1_def)
  moreover have "in_game (gw_playSound plain_framework v) tm_world1 = tm_world1" for v
    by (simp add: in_game_def plain_framework_def)
  ultimately have "digEarth plain_framework 58 30 tm_world1 = Ret tm_world1"
    unfolding digEarth_def cs_def [symmetric] by (simp add: Let_def)
  moreover have "g_x plain_framework (t_obj tm_man1) = 58" "g_y plain_framework (t_obj tm_man1) = 30" "\<not> t_dead tm_man1" "t_state tm_man1 \<noteq> St_dead"
    by (simp_all add: tm_man1_def plain_simps)
  moreover have "w_man tm_world1 = Some tm_man1" by (simp add: tm_world1_def)
  ultimately have man: "man_do plain_framework (Some KEY_PRESS_ESCAPE) tm_world1 = Ret ?w" "t_state tm_man1 \<noteq> St_dead" "the_man tm_world1 = Ret tm_man1"
    by (simp_all add: man_do_def the_man_def man_key_def Let_def)
  have w: "w_actors ?w = [new_Barrel plain_framework 5 5]" "w_barrels ?w = 1" "w_man ?w = Some (tm_man1\<lparr>t_dead := True\<rparr>)" "w_game ?w = (0, 3, 0, [])"
    by (simp_all add: set_man_def tm_world1_def)
  have near: "near_man plain_framework d 0 ?w = Ret (within_distance d 5 5 58 30)" for d
    by (simp add: near_man_def the_man_def w actor_x_def actor_y_def tm_barrel1 plain_simps) (simp add: tm_man1_def plain_simps)
  have act: "act_all plain_framework [0..<length (w_actors ?w)] ?w = Some (Ret ?w)"
    by (simp add: w actor_do_def tm_barrel1 barrel_do_def near within_distance_def)
  have sweep: "?w\<lparr>w_actors := erase_if (\<lambda>a. a_state a = St_dead) 0 (w_actors ?w)\<rparr> = ?w"
    by (simp add: set_man_def tm_world1_def tm_barrel1 erase_if_eq del: erase_if.simps)
  have "addGoodies plain_framework (\<lambda>_. 0) ?w = Ret (?w\<lparr>w_rand := rand_rest (\<lambda>_. 0)\<rparr>)"
    by (simp add: addGoodies_def w plain_simps c_mod_def c_div_def Let_def)
  moreover have "\<exists>v. setDisplayText plain_framework (?w\<lparr>w_rand := rand_rest (\<lambda>_. 0)\<rparr>) = Ret v"
    by (simp add: setDisplayText_def the_man_def w Let_def)
  ultimately obtain w' where w: "tm_move plain_framework (Some KEY_PRESS_ESCAPE) (\<lambda>_. 0) tm_world1 = Some (Ret (GWSTATUS_CONTINUE_GAME, w'))"
    using man w(2) act sweep by (auto simp: tm_move_def Let_def simp del: erase_if.simps)
  from escape_ignores_keys [OF tm_world1_ok w, of "[(Some KEY_PRESS_LEFT, \<lambda>_. 0)]"] w show ?thesis by auto
qed

text \<open>
  The search for a protestor's exit path never finds the exit.
\<close>

theorem exit_never_found:
  assumes "find_path path_dirs (w_maze (update_protestorMaze F w)) x y path False = Some (m, p, f)"
  shows "\<not> f"
  using assms maze_exit by (rule find_path_never)

theorem exit_never_found_witness:
  "\<exists>m p f. find_path path_dirs (w_maze (update_protestorMaze plain_framework (tm_world0\<lparr>w_ground := \<lambda>_. Earth_valid\<rparr>))) 10 10 [] False = Some (m, p, f) \<and> \<not> f"
proof -
  let ?w = "tm_world0\<lparr>w_ground := \<lambda>_. Earth_valid\<rparr>"
  have "w_maze (update_protestorMaze plain_framework ?w) c = CHR ''X''" if "0 \<le> c" "c < 3600" for c
    using that by (simp add: update_protestorMaze_def cell_at_def)
  then have e: "find_path path_dirs (w_maze (update_protestorMaze plain_framework ?w)) 10 10 [] False =
      Some (w_maze (update_protestorMaze plain_framework ?w), [], False)"
    by (simp add: find_path.simps path_dirs_def cell_at_def)
  with exit_never_found [OF e] show ?thesis by blast
qed

text \<open>
  meld of array.cpp for two nonempty arrays returns the total size and puts the sorted
  elements of both into the result when both are in nondecreasing order and fit, and otherwise
  returns -1 and leaves the result alone.
\<close>

theorem meld_result:
  assumes "0 < n1" "n1 \<le> int (length a1)" and "0 < n2" "n2 \<le> int (length a2)" and "n1 + n2 \<le> int (length result)"
  shows "\<exists>rest. meld a1 n1 a2 n2 result maxi =
    (if n1 + n2 \<le> maxi \<and> sorted (take (nat n1) a1) \<and> sorted (take (nat n2) a2)
     then Ret (n1 + n2, sort (take (nat n1) a1 @ take (nat n2) a2) @ rest) else Ret (- 1, result))"
  using assms by (rule meld_sorts)

theorem meld_result_witness:
  "\<exists>rest. meld [''b'', ''d''] 2 [''a'', ''c''] 2 [[], [], [], []] 4 = Ret (4, [''a'', ''b'', ''c'', ''d''] @ rest)"
  using meld_result [of 2 "[''b'', ''d'']" 2 "[''a'', ''c'']" "[[], [], [], []]" 4] by simp

text \<open>
  After the words of any list have been added to an empty WordTree, distinctWords is the
  number of different words, totalWords the length of the list, and the printed lines are the
  different words in ascending order, each with the number of its occurrences.
\<close>

theorem words_counted:
  "distinctWords (add_all ws) = Ret (int (card (set ws))) \<and> totalWords (add_all ws) = int (length ws) \<and>
   printInOrder [] (add_all ws) =
     map (\<lambda>w. w @ '' '' @ fmt_d (int (count_list ws w))) (sorted_list_of_set (set ws))"
  by (intro conjI add_all_report)

text \<open>
  The program decrypt.cpp itself, on the two texts of its main, reads outside an array.
\<close>

theorem decrypt_main_outside: "decrypt_main j1 j2 = Some SegFault"
  by code_simp

text \<open>
  reverseList of LinkedList.cpp ends, leaves the same nodes with their values in reverse order
  and changes no other node.
\<close>

theorem list_reversed:
  assumes "holds_list m p as xs"
  shows "\<exists>m'. reverseList m p = Some (Ret m') \<and> holds_list m' p as (rev xs) \<and>
    fresh m' = fresh m \<and> (\<forall>a. a \<notin> set as \<longrightarrow> cells m' a = cells m a)"
  using reverseList_rev [of m p as] assms by (auto simp: holds_list_def)

theorem list_reversed_witness:
  "\<exists>m'. reverseList ll_main_heap (Some 4) = Some (Ret m') \<and> holds_list m' (Some 4) [4, 3, 2, 1] [''A'', ''B'', ''C'', ''D'']"
  using list_reversed [OF ll_main_heap_lists(1)] by auto

text \<open>
  Without synchronisation two threads with one iteration each can finish with the counter at
  -1.
\<close>

theorem add_race:
  "\<exists>s. add_reach (CHR ''n'') 1 2 s \<and> add_joined 2 s \<and> counter s = - 1"
proof -
  let ?sch = "[None, None] @ replicate 3 (Some 0) @ replicate 4 (Some 1) @ replicate 7 (Some 0) @ replicate 6 (Some 1)"
  have "map_option (\<lambda>s. created s = 2 \<and> at_loop (thr s 0) = 2 \<and> at_loop (thr s 1) = 2 \<and> counter s = - 1)
      (add_play (CHR ''n'') 1 2 ?sch add_sys_init) = Some True" by code_simp
  then obtain s where s: "add_play (CHR ''n'') 1 2 ?sch add_sys_init = Some s" "created s = 2" "at_loop (thr s 0) = 2"
    "at_loop (thr s 1) = 2" "counter s = - 1" by auto
  have "add_joined 2 s" using s by (auto simp: add_joined_def less_2_cases_iff)
  with s(5) add_play_reach [OF s(1) add_reach.start] show ?thesis by blast
qed

text \<open>
  The header of the web server's reply of a file of less than 2^31 - 257 bytes is shorter than
  256 bytes, so it is not cut and the reply fits its buffer.
\<close>

theorem web_reply_fits:
  assumes "int (length data) < 2 ^ 31 - 257"
  shows "length (http_header (get_Extension name) (int (length data))) < 256 \<and>
    http_reply (get_Extension name) data = Ret (http_header (get_Extension name) (int (length data)) @ data)"
  using http_header_fits [of "int (length data)" name] http_reply_eq [OF assms, of name] assms by simp_all

theorem web_reply_fits_witness:
  "http_reply (get_Extension ''a.png'') ''PNG'' = Ret (http_header ''image/png'' 3 @ ''PNG'')"
  using web_reply_fits [of "''PNG''" "''a.png''"] by (simp add: get_Extension_def find_in_def npos_def)

text \<open>
  For a file that is not in the directory the web server sends the file 404 Error Page, and
  exits when there is no such file.
\<close>

theorem web_missing_page:
  assumes "libcpp_layout lay" and "request_ok m name v" and "short_name (unescape name)" and "CHR ''.'' \<in> set (unescape name)"
    and "web_directory env = Some ds" and "\<forall>x \<in> set ds. short_name x \<and> map tolower x \<noteq> map tolower (unescape name)"
  shows "send_HTTP_Response lay env (request m name v rest) =
    Some (case web_file env ''404 Error Page'' of None \<Rightarrow> Exit 1 | Some data \<Rightarrow> http_reply ''text/html'' data)"
  using lookupFile_missing [OF assms(1) _ assms(3,4), of ds] assms(5,6) getFileName_eq [OF assms(2), of rest]
  by (simp add: send_HTTP_Response_def get_Extension_def split: option.splits)

theorem web_missing_page_witness:
  "send_HTTP_Response layout1 web1 (request ''GET '' ''b.gif'' ''1.1'' []) = Some (Exit 1)"
  by (subst web_missing_page [OF layout1_libcpp, of _ _ _ web1 "[''Notes.txt'', ''my page.html'']"])
    (simp_all add: request_ok_def short_name_def web1_def tolower_def less_eq_char_def)

text \<open>
  deleteItem of LinkedList.cpp on a nonempty list removes the first occurrence of a value that
  is in the list and dereferences the null pointer for a value that is not.
\<close>

theorem item_deleted:
  assumes "holds_list m p as xs" and "as \<noteq> []"
  shows "if v \<in> set xs
    then (\<exists>m' p' cs. deleteItem m p v = Some (Ret (m', p')) \<and> holds_list m' p' cs (remove1 v xs))
    else deleteItem m p v = Some SegFault"
  using deleteItem_present [of m p as xs v] deleteItem_absent [of m p as xs v] assms by simp

theorem item_deleted_witness:
  "(\<exists>m' p' cs. deleteItem ll_main_heap (Some 4) ''C'' = Some (Ret (m', p')) \<and> holds_list m' p' cs [''D'', ''B'', ''A'']) \<and>
   deleteItem ll_main_heap (Some 4) ''E'' = Some SegFault"
  using item_deleted [OF ll_main_heap_lists(1), of "''C''"] item_deleted [OF ll_main_heap_lists(1), of "''E''"] by simp

text \<open>
  swap of LinkedList.cpp exchanges the values of two nonempty lists that share no node, in
  order; the lists stay separate, the old nodes are freed and no node is leaked.
\<close>

theorem lists_swapped:
  assumes "mem_ok m" and "holds_list m p as xs" and "holds_list m q bs ys"
    and "set as \<inter> set bs = {}" and "xs \<noteq> []" and "ys \<noteq> []"
  shows "\<exists>m' p' q' cs ds. swap_lists m p q = Some (Ret (m', p', q')) \<and>
    holds_list m' p' cs ys \<and> holds_list m' q' ds xs \<and> set cs \<inter> set ds = {} \<and>
    dom (cells m') = dom (cells m) - set as - set bs \<union> set cs \<union> set ds"
  using assms by (rule swap_lists_exchange)

theorem lists_swapped_witness:
  "\<exists>m' p' q' cs ds. swap_lists ll_main_heap (Some 4) (Some 7) = Some (Ret (m', p', q')) \<and>
    holds_list m' p' cs [''Z'', ''Y'', ''X''] \<and> holds_list m' q' ds [''D'', ''C'', ''B'', ''A'']"
proof -
  from lists_swapped [OF ll_main_heap_ok ll_main_heap_lists] show ?thesis by fastforce
qed

text \<open>
  Without synchronisation two threads with one element each can end the program with exit code
  2, a corrupted list.
\<close>

theorem list_race:
  "\<exists>s. list_reach SortedList_code par12 (\<lambda>_. ''key'') s \<and> ls_end s = Some (Exit 2)"
proof -
  let ?sch = "[None, None] @ replicate 10 (Some 0) @ replicate 12 (Some 1) @ replicate 11 (Some 0)"
  let ?s0 = "list_sys_init par12 (\<lambda>_. ''key'') (\<lambda>_. (0, 0)) :: sl_op list_sys"
  have "map_option ls_end (list_play SortedList_code par12 ?sch ?s0) = Some (Some (Exit 2))" by code_simp
  then obtain s where "list_play SortedList_code par12 ?sch ?s0 = Some s" "ls_end s = Some (Exit 2)" by auto
  with list_play_reach [OF this(1) list_reach.start] show ?thesis by blast
qed

text \<open>
  renouncePlayer of BballRoster.cpp on sorted rosters ends without a fault, returns whether
  the name was there, and removes exactly that name.
\<close>

theorem roster_renounced:
  assumes "represents L m C" and "ob \<in> L" and "key_sorted (C ob)"
  shows "\<exists>m' es. renouncePlayer m ob f l = Some (Ret (m', map_of (C ob) (l, f) \<noteq> None)) \<and> represents L m' (C(ob := es)) \<and>
    key_sorted es \<and> map_of es = (map_of (C ob))((l, f) := None)"
proof -
  let ?p = "\<lambda>e. fst e \<noteq> (l, f)"
  have "map_of (filter ?p (C ob)) = (map_of (C ob))((l, f) := None)"
    by (auto simp: map_of_filter_keys [OF assms(3)] fun_eq_iff split: option.splits)
  with renouncePlayer_removes [OF assms, of f l] key_sorted_filter [OF assms(3), of ?p] show ?thesis by blast
qed

theorem roster_renounced_witness:
  "\<exists>m' es. renouncePlayer rosters1 (Obj 0) ''Kobe'' ''Bryant'' = Some (Ret (m', True)) \<and>
    map_of es (''Bryant'', ''Kobe'') = None \<and> represents {Obj 0, Obj 2} m' (players1(Obj 0 := es))"
proof -
  from roster_renounced [OF rosters1_represents _ players1_sorted(1), of "''Kobe''" "''Bryant''"]
  obtain m' es where "renouncePlayer rosters1 (Obj 0) ''Kobe'' ''Bryant'' = Some (Ret (m', True))"
    "represents {Obj 0, Obj 2} m' (players1(Obj 0 := es))"
    "map_of es = (map_of (players1 (Obj 0)))((''Bryant'', ''Kobe'') := None)" by (auto simp: players1_at)
  moreover from this(3) have "map_of es (''Bryant'', ''Kobe'') = None" by simp
  ultimately show ?thesis by blast
qed

text \<open>
  checkRoster of BballRoster.cpp puts exactly the players that match the pattern, in their
  order, into the result roster.
\<close>

theorem roster_searched:
  assumes "represents L m C" and "Temp \<notin> L" and "bbOne \<in> L" and "bbResult \<in> L" and "key_sorted (C bbOne)"
  shows "\<exists>m'. checkRoster m fs ls bbOne bbResult = Some (Ret m') \<and>
    represents L m' (C(bbResult := filter (\<lambda>e. (fs = ''*'' \<or> fs = snd (fst e)) \<and> (ls = ''*'' \<or> ls = fst (fst e))) (C bbOne)))"
proof -
  have "(if fs = ''*'' \<and> ls = ''*'' then C bbOne else filter (\<lambda>e. search_matches fs ls (snd (fst e)) (fst (fst e))) (C bbOne)) =
      filter (\<lambda>e. (fs = ''*'' \<or> fs = snd (fst e)) \<and> (ls = ''*'' \<or> ls = fst (fst e))) (C bbOne)"
    by (auto simp: search_matches_def filter_id_conv intro!: filter_cong)
  with checkRoster_filters [OF assms, of fs ls] show ?thesis by simp
qed

theorem roster_searched_witness:
  "\<exists>m'. checkRoster rosters1 ''*'' ''Johnson'' (Obj 0) (Obj 2) = Some (Ret m') \<and>
    represents {Obj 0, Obj 2} m' (players1(Obj 2 := [((''Johnson'', ''Magic''), ''32'')]))"
  using roster_searched [OF rosters1_represents, of "Obj 0" "Obj 2" "''*''" "''Johnson''"] players1_sorted
  by (simp add: players1_at)

text \<open>
  swapRoster of BballRoster.cpp exchanges the players of two rosters, also of a roster with
  itself, and leaks no node.
\<close>

theorem rosters_swapped:
  assumes "represents L m C" and "this \<in> L" and "other \<in> L" and "Temp \<notin> L"
  shows "\<exists>m'. swapRoster m this other = Some (Ret m') \<and> represents L m' (C(this := C other, other := C this))"
  using assms by (rule swapRoster_exchanges)

theorem rosters_swapped_witness:
  "\<exists>m'. swapRoster rosters1 (Obj 0) (Obj 2) = Some (Ret m') \<and>
    represents {Obj 0, Obj 2} m' (players1(Obj 0 := players1 (Obj 2), Obj 2 := players1 (Obj 0)))"
  using rosters_swapped [OF rosters1_represents, of "Obj 0" "Obj 2"] by simp

text \<open>
  joinRosters of BballRoster.cpp with an empty first roster makes the result empty, whatever
  the second roster holds, and returns true.
\<close>

theorem join_with_empty_roster:
  assumes "represents L m C" and "Temp \<notin> L" and "bbOne \<in> L" and "bbTwo \<in> L" and "bbJoined \<in> L" and "bbOne \<noteq> bbTwo"
    and "C bbOne = []"
  shows "\<exists>m'. joinRosters m bbOne bbTwo bbJoined = Some (Ret (m', True)) \<and> represents L m' (C(bbJoined := []))"
  using joinRosters_empty [OF assms(1-6)] assms(7) by auto

theorem join_with_empty_roster_witness:
  "\<exists>m'. joinRosters (new_roster (Obj 3) rosters1) (Obj 3) (Obj 0) (Obj 2) = Some (Ret (m', True)) \<and>
    represents {Obj 3, Obj 0, Obj 2} m' (players1(Obj 3 := [], Obj 2 := []))"
  using join_with_empty_roster [OF new_roster_represents [OF rosters1_represents, of "Obj 3"], of "Obj 3" "Obj 0" "Obj 2"] by simp

text \<open>
  contains of array.cpp decides for arrays of the given sizes whether the second is a
  subsequence of the first.
\<close>

theorem contains_subsequence:
  assumes "0 \<le> n1" and "0 \<le> n2" and "n1 \<le> int (length a1)" and "n2 \<le> int (length a2)"
  shows "contains a1 n1 a2 n2 = Ret (subseq (take (nat n2) a2) (take (nat n1) a1))"
  using assms by (rule contains_iff)

theorem contains_subsequence_witness:
  "contains [''a'', ''b'', ''c'', ''b''] 4 [''b'', ''b''] 2 = Ret True"
  using contains_subsequence [of 4 2 "[''a'', ''b'', ''c'', ''b'']" "[''b'', ''b'']"] by simp

text \<open>
  With a shell that reads, lab1a echoes text (no ^C or ^D) with CR and LF as CR LF and sends
  it to the shell with CR as LF.
\<close>

theorem lab1a_echo_forward:
  assumes "plain x" and "a_shell s" and "a_fds s (a_pw s) \<noteq> None" and "e_reads env"
  shows "kbd_chars env x s =
    (s\<lparr>a_out := a_out s @ echo_text x, a_to_shell := a_to_shell s @ shell_text x\<rparr>, Ret ())"
  using assms by (rule kbd_chars_shell)

theorem lab1a_echo_forward_witness:
  "kbd_chars a_env1 (''ls'' @ [cr_char]) a_sys1 =
    (a_sys1\<lparr>a_out := a_out a_sys1 @ echo_text (''ls'' @ [cr_char]),
            a_to_shell := a_to_shell a_sys1 @ shell_text (''ls'' @ [cr_char])\<rparr>, Ret ())"
  by (rule lab1a_echo_forward)
    (simp_all add: plain_def ctrl_C_def ctrl_D_def cr_char_def a_sys1_def a_sys_init_def a_env1_def)

text \<open>
  Assigning a WordTree to another one copies its words and counts and changes no other tree,
  but assigning a tree to itself empties it.
\<close>

theorem word_tree_assigned:
  assumes "\<forall>x. search_tree (objs x)"
  shows "words_of (assign_tree this rhs objs this) = (if rhs = this then [] else words_of (objs rhs)) \<and>
    (\<forall>x. x \<noteq> this \<longrightarrow> assign_tree this rhs objs x = objs x)"
  using assign_tree_words [OF assms] by blast

theorem word_tree_assigned_witness:
  "words_of (assign_tree (0::nat) 1 (\<lambda>x. if x = 1 then add_all [''b'', ''a'', ''b''] else Null) 0) =
     words_of (add_all [''b'', ''a'', ''b'']) \<and>
   words_of (assign_tree (1::nat) 1 (\<lambda>x. if x = 1 then add_all [''b'', ''a'', ''b''] else Null) 1) = []"
proof -
  let ?objs = "\<lambda>x::nat. if x = 1 then add_all [''b'', ''a'', ''b''] else Null"
  have "\<forall>x. search_tree (?objs x)" using search_tree_add_all [of "[''b'', ''a'', ''b'']"] by (simp add: search_tree_def)
  from word_tree_assigned [OF this, of 0 1] word_tree_assigned [OF this, of 1 1] show ?thesis by simp
qed

text \<open>
  A run of Part_1/lab2_list with --sync=m or --sync=s never ends with exit code 2.
\<close>

theorem list1_main_not_corrupted:
  assumes "list1_main argv alloc rand clk0 clk1 r" and "list1_get_opts argv = Ret c"
    and "l1_sync c = CHR ''m'' \<or> l1_sync c = CHR ''s''"
  shows "r \<noteq> Exit 2"
  using assms(1)
proof cases
  case bad_options
  then show ?thesis using assms(2) by auto
next
  case no_memory
  then show ?thesis by (auto simp: list1_allocate_def Let_def split: if_splits)
next
  case (ended c' t0 s r')
  then have "nat (l1_threads c) * nat (l1_iterations c) < 2 ^ 31"
    using assms(2) nat_mult_less_int32 [of "l1_threads c" "l1_iterations c"] by simp
  with ended show ?thesis using list1_reach_end [OF _ list1_good_keys] assms(2,3) by fastforce
next
  case (finished c' t0 s t1 r')
  then have "r' = Ret 0" using list1_final_check_ok [OF _ list1_good_keys] assms(2,3) by fastforce
  with finished show ?thesis by (auto simp: list1_report_def Let_def)
qed auto

theorem list1_main_not_corrupted_witness:
  "list1_main [''lab2_list'', ''--sync=s''] (\<lambda>_. True) (\<lambda>_. 0) (Some \<lparr>ts_sec = 0, ts_nsec = 0\<rparr>) None (Exit 1) \<and>
   (Exit 1 :: string outcome) \<noteq> Exit 2"
proof -
  let ?c = "list1_defaults\<lparr>l1_sync := CHR ''s''\<rparr>" and ?t = "\<lparr>ts_sec = 0, ts_nsec = 0\<rparr>"
  have opts: "list1_get_opts [''lab2_list'', ''--sync=s''] = Ret ?c"
    by (simp add: list1_get_opts_def getopt_eval list1_long_options_def list1_opt_def list1_sync_option_def list1_defaults_def Let_def)
  have al: "list1_allocate (\<lambda>_. True) ?c = Ret ()" by (simp add: list1_allocate_def list1_defaults_def Let_def)
  let ?s = "list1_sys_init 1 1 (list1_random_key (\<lambda>_. 0)) (\<lambda>_. (0, 0)) :: sl_op list1_sys"
  have "list1_step SortedList_code (CHR ''s'') 1 1 ?s (l1end (Exit 1) ?s)"
    by (rule list1_step.create_fails) (simp_all add: list1_sys_init_def)
  then have rch: "list1_reach SortedList_code (CHR ''s'') 1 1 (list1_random_key (\<lambda>_. 0)) (l1end (Exit 1) ?s)"
    using list1_reach.start list1_reach.step by blast
  have "list1_main [''lab2_list'', ''--sync=s''] (\<lambda>_. True) (\<lambda>_. 0) (Some ?t) None (obind (Exit 1 :: unit outcome) (\<lambda>_. Ret []))"
    by (rule list1_main.ended [OF opts al, where s = "l1end (Exit 1) ?s"])
      (use rch in \<open>simp_all add: list1_get_time_def list1_defaults_def l1end_def\<close>)
  then have m: "list1_main [''lab2_list'', ''--sync=s''] (\<lambda>_. True) (\<lambda>_. 0) (Some ?t) None (Exit 1)" by simp
  from list1_main_not_corrupted [OF m opts] m show ?thesis by (simp add: list1_defaults_def)
qed

text \<open>
  get_time of lab3a returns for every 32-bit time: the text is shorter than the 32 bytes of
  its buffer, so the assertion never fails.
\<close>

theorem get_time_fits:
  "get_time t = Ret (time_text (gmtime (unat t))) \<and> length (time_text (gmtime (unat t))) < 32"
  using get_time_Ret [of t] time_text_length [of "unat t"] by simp

text \<open>
  For a directory whose first block is a chain of entries with positive record lengths, the
  listing ends and consists of the entries of that block with an inode; the offset is not
  reset, so no further block is listed.
\<close>

theorem dir_first_block:
  assumes "b \<noteq> 0" and "dir_walk d bs (sint b) 0 es" and "length buf = sizeof_dir_entry"
  shows "dir_blocks d bs ino (b # blks) buf 0 = Some (dir_lines ino es, Ret ())"
  using assms by (rule dir_blocks_first)

theorem dir_first_block_witness:
  "dir_blocks disk1 1024 2 [1, 9] (replicate sizeof_dir_entry 0) 0 = Some (dir_lines 2 [(0, dir_entry_of entry_bytes)], Ret ())"
proof (rule dir_first_block)
  have "dir_walk disk1 1024 1 0 [(0, dir_entry_of entry_bytes)]"
    by (rule dir_walk.entry [OF _ _ disk1_pread(2) refl]) (auto simp: disk1_pread(1) disk1_entry intro: dir_walk.stop)
  then show "dir_walk disk1 1024 (sint (1 :: u32)) 0 [(0, dir_entry_of entry_bytes)]" by simp
qed simp_all

text \<open>
  Options written as --threads=n --iterations=m --yield --sync=y for positive 32-bit n and m
  and a valid y are read back as exactly these values.
\<close>

theorem add_get_opts_roundtrip:
  assumes "0 < n" and "n < 2 ^ 31" and "0 < m" and "m < 2 ^ 31" and "y \<in> {CHR ''m'', CHR ''s'', CHR ''c''}"
  shows "add_get_opts [prog, ''--threads='' @ fmt_d n, ''--iterations='' @ fmt_d m, ''--yield'', ''--sync='' @ [y]] =
    Ret \<lparr>ac_threads = n, ac_iterations = m, ac_yield = True, ac_sync = y\<rparr>"
proof -
  let ?opts = "[(0, fmt_d n), (1, fmt_d m), (2, []), (3, [y])]"
  have "getopt_scan add_short_options add_long_options [] (map (\<lambda>(i, v). render (add_long_options ! i) v) ?opts) =
    map (\<lambda>(i, v). long_event add_long_options i (case lo_arg (add_long_options ! i) of required_argument \<Rightarrow> Some v | no_argument \<Rightarrow> None)) ?opts"
    by (rule getopt_scan_render) (auto simp: good_table_def add_long_options_def)
  then have "add_get_opts [prog, ''--threads='' @ fmt_d n, ''--iterations='' @ fmt_d m, ''--yield'', ''--sync='' @ [y]] =
    add_opts (map (\<lambda>(i, v). long_event add_long_options i (case lo_arg (add_long_options ! i) of required_argument \<Rightarrow> Some v | no_argument \<Rightarrow> None)) ?opts) add_defaults"
    by (simp add: add_get_opts_def getopt_long_all_def render_def add_long_options_def)
  moreover have "strtol0 (fmt_d n) = n" "strtol0 (fmt_d m) = m" using assms by (auto intro!: strtol0_fmt_d)
  ultimately show ?thesis using assms
    by (auto simp: long_event_def add_long_options_def add_sync_option_def add_defaults_def)
qed

theorem add_get_opts_roundtrip_witness:
  "add_get_opts [''lab2_add'', ''--threads='' @ fmt_d 4, ''--iterations='' @ fmt_d 100, ''--yield'', ''--sync='' @ [CHR ''c'']] =
    Ret \<lparr>ac_threads = 4, ac_iterations = 100, ac_yield = True, ac_sync = CHR ''c''\<rparr>"
  by (rule add_get_opts_roundtrip) simp_all

text \<open>
  As long as the shell's output with translated line ends fits into the 65536 bytes of the
  pipe kerntosock, which nobody reads, the server sends every chunk untranslated; beyond that
  it blocks for ever.
\<close>

theorem server_output_blocks:
  assumes "\<not> v_compress s" and "ve_peer env" and "ve_send env" and "v_kern s \<le> PIPE_BUF_SIZE"
    and "list_all (\<lambda>y. length y \<le> SERVER_READ_SIZE) ys"
  shows "if v_kern s + length (crlf_text (concat ys)) \<le> PIPE_BUF_SIZE
    then \<exists>s'. server_loop env zl (map shell_output ys) s = (s', Ret ()) \<and> v_sent s' = v_sent s @ ys
    else snd (server_loop env zl (map shell_output ys) s) = Hang"
  using assms by (rule server_loop_output)

theorem server_output_blocks_witness:
  "snd (server_loop v_env1 zlib_id (map shell_output (replicate 5 (replicate 16000 CHR ''a''))) v_sys1) = Hang \<and>
   snd (server_loop v_env1 zlib_id (map shell_output [''abc'']) v_sys1) = Ret ()"
proof -
  let ?ys = "replicate 5 (replicate 16000 CHR ''a'')"
  have "length x \<le> length (crlf_text x)" for x by (induction x) (simp_all add: crlf_text_def)
  from this [of "concat ?ys"] have "80000 \<le> length (crlf_text (concat ?ys))"
    by (simp add: length_concat map_replicate_const sum_list_replicate)
  then have "snd (server_loop v_env1 zlib_id (map shell_output ?ys) v_sys1) = Hang"
    using server_output_blocks [of v_sys1 v_env1 ?ys zlib_id]
    by (simp add: v_sys1_def v_sys_init_def v_env1_def PIPE_BUF_SIZE_def SERVER_READ_SIZE_def list_all_iff del: map_replicate)
  moreover have "snd (server_loop v_env1 zlib_id (map shell_output [''abc'']) v_sys1) = Ret ()"
    using server_output_blocks [of v_sys1 v_env1 "[''abc'']" zlib_id]
    by (auto simp: v_sys1_def v_sys_init_def v_env1_def PIPE_BUF_SIZE_def SERVER_READ_SIZE_def crlf_text_def lf_char_def)
  ultimately show ?thesis by blast
qed

text \<open>
  When the count of the group is below the bits of the bitmap, the break ends only the loop
  over one byte: the entries reported are those of the counted bits and, again, all later
  bytes.
\<close>

theorem free_list_partial:
  assumes "8 * length bm < 2 ^ 31" and "0 \<le> cnt" and "cnt < 2 ^ 31"
  shows "free_entries bm cnt = map Suc (filter (\<lambda>k. \<not> bitmap_bit bm k \<and> seen cnt k) [0..<8 * length bm])"
  using assms by (rule free_entries_eq)

theorem free_list_partial_witness:
  "17 \<in> set (free_entries [0, 0, 0] 9) \<and> 10 \<notin> set (free_entries [0, 0, 0] 9)"
proof -
  have "free_entries [0, 0, 0] 9 = map Suc (filter (\<lambda>k. \<not> bitmap_bit [0, 0, 0] k \<and> seen 9 k) [0..<8 * length [0, 0, 0 :: u8]])"
    by (rule free_list_partial) simp_all
  then show ?thesis by (simp add: bitmap_bit_def seen_def image_iff) 
qed

text \<open>
  print_ind_blks reads 4 bytes of an indirect block instead of the block, so with zeroed
  memory behind them at most the first pointer of a single indirect block is reported.
\<close>

theorem indirect_first_pointer:
  assumes "pread d 4 (to_int32 (blk * bs)) = Some bytes" and "length bytes = 4" and "4 \<le> bs"
  shows "print_ind_blks d bs (\<lambda>_ _. 0) blk ino off 1 =
    (if u32_at bytes 0 = 0 then [] else [ind_line ino 1 off blk (u32_at bytes 0)], Ret ())"
  using assms by (rule print_ind_blks_first)

theorem indirect_first_pointer_witness:
  "print_ind_blks \<lparr>d_bytes = [5, 5, 5, 5, 6, 6, 6, 6], d_fail = \<lambda>_ _. False\<rparr> 8 (\<lambda>_ _. 0) 0 12 12 1 =
     ([ind_line 12 1 12 0 0x05050505], Ret ())"
  by (subst indirect_first_pointer [where bytes = "[5, 5, 5, 5]"]) (simp_all add: pread_def u32_at_def)

text \<open>
  When the client cannot connect, its exit handler, registered before the settings of the
  terminal are read, sets all flags of the terminal to 0 and the program exits with 1.
\<close>

theorem client_connect_fails:
  assumes "client_opt_handler env zl argv (c_sys_init tty) = Ret s" and "\<not> (ce_socket env \<and> ce_connect env)" and "ce_tcset env"
  shows "\<exists>s'. client_main env zl argv evs (c_sys_init tty) = (s', Exit 1) \<and> c_tty s' = \<lparr>c_iflag = 0, c_oflag = 0, c_lflag = 0\<rparr>"
proof -
  have ok: "client_opts_ok tty s" using client_opt_handler_ok [OF assms(1)] .
  obtain s' where "shutdown_client env 1 s = (s', Exit 1)" "c_tty s' = c_saved s"
    using shutdown_client_Exit [OF ok assms(3)] by blast
  with ok assms(1,2) show ?thesis
    by (intro exI [of _ s']) (auto simp: client_main_def connect_to_server_def client_opts_ok_def)
qed

theorem client_connect_fails_witness:
  "\<exists>s'. client_main (c_env1\<lparr>ce_connect := False\<rparr>) zlib_id [''lab1b-client'', ''--port=99''] [] (c_sys_init tty1) = (s', Exit 1) \<and>
     c_tty s' \<noteq> tty1"
proof -
  let ?env = "c_env1\<lparr>ce_connect := False\<rparr>"
  obtain s where "client_opt_handler ?env zlib_id [''lab1b-client'', ''--port=99''] (c_sys_init tty1) = Ret s"
    by (simp add: client_opt_handler_def getopt_eval client_long_options_def client_opt_def client_set_flag_def)
  from client_connect_fails [OF this, of "[]"] obtain s' where
    "client_main ?env zlib_id [''lab1b-client'', ''--port=99''] [] (c_sys_init tty1) = (s', Exit 1)"
    "c_tty s' = \<lparr>c_iflag = 0, c_oflag = 0, c_lflag = 0\<rparr>" by (auto simp: c_env1_def)
  then show ?thesis by (intro exI [of _ s']) (simp add: tty1_def)
qed

text \<open>
  lab0 with the same file as input and output empties the file and exits with 0.
\<close>

theorem lab0_same_file:
  assumes "files s p \<noteq> None" and "may_read env p" and "may_creat env p" and "dup_ok env" and "\<not> segfault_flag s"
  shows "\<exists>s'. l0_main env [prog, ''--input='' @ p, ''--output='' @ p] s = Some (s', Exit 0) \<and> files s' p = Some []"
proof -
  let ?s = "s\<lparr>files := (files s)(p \<mapsto> []), l0_in := FromFile p 0, l0_out := ToFile p 0\<rparr>"
  have "copy_loop env 0 ?s = Some (?s, Ret ())" by (rule copy_loop_nothing) (simp add: avail_def)
  then have "l0_main env [prog, ''--input='' @ p, ''--output='' @ p] s = Some (?s, Exit 0)"
    using assms by (subst l0_main_files) simp_all
  then show ?thesis by simp
qed

theorem lab0_same_file_witness:
  "\<exists>s'. l0_main env0 [''lab0'', ''--input='' @ ''a'', ''--output='' @ ''a''] sys0 = Some (s', Exit 0) \<and> files s' ''a'' = Some []"
  by (rule lab0_same_file) (simp_all add: env0_def sys0_def)

text \<open>
  lab0 --segfault dies of the segmentation fault, and together with --catch, in either order,
  it exits with 4.
\<close>

theorem lab0_segfault:
  "snd (the (l0_main env [prog, ''--segfault''] (s\<lparr>catch_flag := False\<rparr>))) = SegFault \<and>
   snd (the (l0_main env [prog, ''--catch'', ''--segfault''] s)) = Exit 4 \<and>
   snd (the (l0_main env [prog, ''--segfault'', ''--catch''] s)) = Exit 4"
  by (simp add: l0_main_def getopt_eval l0_long_options_def l0_opt_def l0_segfault_def l0_segfault_handler_def)

text \<open>
  addEmUp of recursion.cpp on nonnegative elements decides whether the target is a sum of some
  elements, where the cell behind the array is read and counts as one more element.
\<close>

theorem subset_sum_found:
  assumes "\<forall>x \<in> set xs. 0 \<le> x"
  shows "addEmUp (xs @ v # behind) (int (length xs)) target =
    Ret (0 \<le> target \<and> (target \<in> subset_sums xs \<or> 0 \<le> v \<and> target - v \<in> subset_sums xs))"
  using assms by (rule addEmUp_iff)

theorem subset_sum_found_witness: "addEmUp [2, 4, 8, 1] 3 7 = Ret True \<and> addEmUp [2, 4, 8, 100] 3 7 = Ret False"
  using subset_sum_found [of "[2, 4, 8]" 1 "[]" 7] subset_sum_found [of "[2, 4, 8]" 100 "[]" 7] by (simp add: image_Un)

text \<open>
  While the log buffer has room, raw text typed at the client is echoed, sent one character
  per packet with CR as LF, and appended to the log with line ends as spaces.
\<close>

theorem client_log_exact:
  assumes "\<not> compress_flag s" and "ce_peer env" and "log_flag s" and "sent_buf s = Some b" and "fresh_buf b"
    and "bf_load b + int (length x) \<le> CLIENT_READ_SIZE"
  shows "\<exists>b'. client_kbd_chars env zl n x s =
    (s\<lparr>sent_buf := Some b', c_out := c_out s @ echo_text x, c_sent := c_sent s @ map (\<lambda>c. [c]) (shell_text x)\<rparr>, Ret ()) \<and>
    fresh_buf b' \<and> logged b' = logged b @ log_text x"
  using assms by (rule client_raw_log)

theorem client_log_exact_witness:
  "\<exists>b'. sent_buf (fst (client_kbd_chars c_env1 zlib_id 3 (''ls'' @ [cr_char]) c_sys1)) = Some b' \<and> logged b' = ''ls ''"
  using client_log_exact [of c_sys1 c_env1 buf1 "''ls'' @ [cr_char]" zlib_id 3] buf1_fresh
  by (auto simp: c_sys1_def c_sys_init_def c_env1_def buf1_def CLIENT_READ_SIZE_def log_text_def sp_char_def cr_char_def lf_char_def)

text \<open>
  A directory entry whose record length is 0 makes the listing loop of lab3a run for ever.
\<close>

theorem dir_rec_len_zero:
  assumes "off < bs" and "pread d sizeof_dir_entry (to_int32 (to_int32 (idx * bs) + off)) = Some bytes"
    and "length bytes = sizeof_dir_entry" and "de_rec_len (dir_entry_of bytes) = 0" and "length buf = sizeof_dir_entry"
  shows "dir_scan d bs ino idx buf off = None"
  using assms by (rule dir_scan_stuck)

theorem dir_rec_len_zero_witness:
  "dir_scan \<lparr>d_bytes = replicate 2048 0, d_fail = \<lambda>_ _. False\<rparr> 1024 2 1 (replicate sizeof_dir_entry 0) 0 = None"
  by (rule dir_rec_len_zero [where bytes = "replicate sizeof_dir_entry 0"])
    (simp_all add: pread_def dir_entry_of_def u16_at_def le_nat_zeros sizeof_dir_entry_def EXT2_NAME_LEN_def)

text \<open>
  A dictionary file of 30001 entries is stored beyond the array of the anagram program.
\<close>

theorem dictionary_overflow:
  assumes "fin = [] \<or> fin = [CHR 0x0A]" and "\<forall>w \<in> set ws. word_ok w" and "length (entries ws fin) = 30001"
  shows "anagrams_main (Some (lines_of ws fin)) word = SegFault"
  using assms by (rule loadWords_overflow)

theorem dictionary_overflow_witness:
  "anagrams_main (Some (lines_of (replicate 30000 ''a'') [CHR 0x0A])) ''a'' = SegFault"
  by (rule dictionary_overflow) (simp_all add: word_ok_def isspace_def entries_def)

end
