(* ===== verification/Spec2Isabelle.thy ===== *)
theory Spec2Isabelle
  imports Further
begin

text \<open>
  \<^bold>\<open>The programs.\<close> The repository holds coursework; its C programs under \<open>src/CS111\<close> are
  independent of each other except where noted, and all are built from \<open>main\<close>, option handling
  with \<open>getopt_long\<close> and calls of the C library and the kernel:
  \<^item> \<open>project0/lab0.c\<close> copies standard input to standard output with redirections;
  \<^item> \<open>project1/project1a/lab1a.c\<close> is a terminal in character mode that passes its input to a
    shell through pipes;
  \<^item> \<open>project1/project1b/lab1b-client.c\<close> and \<open>lab1b-server.c\<close> are the same over a socket, with
    optional zlib compression and, in the client, a log;
  \<^item> \<open>project2/Part_1\<close> and \<open>Part_2\<close>: \<open>lab2_add.c\<close> lets threads update a counter, \<open>lab2_list.c\<close>
    lets threads use the circular lists of \<open>SortedList.c\<close>, unsynchronised, under mutexes or under
    spin locks; \<open>Part_2\<close> splits the list into sublists chosen by a hash;
  \<^item> \<open>project3/part_1/lab3a.c\<close> prints a summary of an ext2 image (\<open>ext2_fs.h\<close>);
  \<^item> \<open>project4/Part_2/lab4b.c\<close> reports temperatures under the control of commands and a button.
  The C++ programs under \<open>src/CS31\<close> and \<open>src/CS32\<close> are exercises of one to a dozen files each:
  \<^item> \<open>CS31/project3/maze.cpp\<close> drives a car through a grid along a course given as a text;
    \<open>CS31/project4/array.cpp\<close> has thirteen functions on arrays of strings;
    \<open>CS31/project5/decrypt.cpp\<close> deciphers a text of which some words are known;
  \<^item> \<open>CS32/Homework  1\<close> (\<open>LinkedList\<close>), \<open>CS32/Homework 3\<close> (sorting sensors), \<open>CS32/Homework 4\<close>
    (\<open>WordTree\<close>) and \<open>CS32/Project 3\<close> (recursion, a maze search, anagrams);
  \<^item> \<open>CS32/Project1\<close> is a game: robots chase a player in an arena; \<open>CS32/Project 2\<close> is a doubly
    linked, sorted roster of players; \<open>CS32/Project 4, Pt2\<close> is a game in a graphics framework that is not
    in the repository: a player digs for oil under falling boulders and among protestors.
  \<open>CS118/project_1/server.cpp\<close> is a web server for the files of one directory.

  \<^bold>\<open>Conventions.\<close> A piece of C code that can exit, fault, be killed or block is a function into
  the type \<open>outcome\<close> of \<open>Prelude\<close> (\<open>Ret\<close>, \<open>Exit\<close>, \<open>SegFault\<close>, \<open>DivFault\<close>, \<open>Abort\<close>, \<open>Killed\<close>,
  \<open>Hang\<close>); loops that may not end are \<open>partial_function (option)\<close>, \<open>None\<close> for a run without end.
  State is passed explicitly as a record; results of system calls, allocations, clock readings and
  uninitialised memory are arguments (records of the environment), so that every theorem holds for
  all of them. Integers are \<open>int\<close> with the conversions \<open>to_int32\<close>, \<open>to_int64\<close> written out, or
  words where the source has unsigned or on-disk data. Undefined behaviour such as a store outside
  an array is \<open>SegFault\<close>.

  \<^bold>\<open>Theories.\<close>
  \<^item> \<open>Prelude\<close>, \<open>CLib\<close>, \<open>Getopt\<close>: outcomes, machine integers; \<open>strcmp\<close>, \<open>strtol\<close>, \<open>printf\<close>
    conversions; \<open>getopt_long\<close> with the round trip of rendered options.
  \<^item> \<open>Fds\<close>: descriptor tables and the locale \<open>shell_starter\<close> (who sees the end of file when),
    interpreted by \<open>start_shell\<close> of \<open>lab1a.c\<close> and \<open>exec_prgm\<close> of \<open>lab1b-server.c\<close>.
  \<^item> \<open>Locks\<close>: mutex, spin lock and compare-and-swap, and the locale \<open>mutual_exclusion\<close>,
    interpreted by both locks.
  \<^item> \<open>Zlib\<close>: zlib as a parameter, the programs' loop around a call, and the hypothesis \<open>zlib_ok\<close>.
  \<^item> \<open>SortedList\<close>: the four operations on an explicit heap, the predicate \<open>slist\<close> of well-formed
    sorted lists, and what every operation does on them; the length is an \<open>int\<close> that wraps around
    (C1, C2, C3, C4, C37).
  \<^item> \<open>SortedListSteps\<close>: the same operations one memory access at a time, and the locale
    \<open>sorted_list_object\<close>, the contract the list programs rely on: an operation that alone owns its
    list ends with the promised result and needs nothing else of the heap (C11).
  \<^item> \<open>Lab2Add\<close>: threads as program counters, the step relation \<open>add_step\<close>, the invariant that
    relates the counter to the progress of the threads, progress of a thread that runs alone
    (C7, C8, C9).
  \<^item> \<open>Lab2List\<close>, \<open>Lab2ListInv\<close>: \<open>Part_2/lab2_list.c\<close>, over any list code; the invariant
    (ownership of each sublist by the holder of its lock) is proved in the locale
    \<open>sorted_list_object\<close> and used through its interpretation (C5, C6, C39).
  \<^item> \<open>Lab2List1\<close>: \<open>Part_1/lab2_list.c\<close> and its refinement to \<open>Part_2\<close> with one list (C10).
  \<^item> \<open>Ext2\<close>, \<open>Lab3a\<close>, \<open>Lab3aProps\<close>: the on-disk structures, the summary program and its
    bitmaps, the dates it prints, directories and indirect blocks (C35, C36).
  \<^item> \<open>Lab4b\<close>: commands, the character buffer, and main loop, sensor thread and button as events;
    what \<open>strtol\<close> reads behind an unterminated period is an argument
    (C12, C13, C14).
  \<^item> \<open>Lab0\<close> (C38), \<open>Lab1a\<close> (C17, C18), \<open>Lab1bClient\<close> and \<open>Lab1bServer\<close> (C15, C16, C40).
  \<^item> \<open>SmallPrograms\<close>: the exercises \<open>LinuxBox/memory-user.c\<close>, \<open>LinuxBox/null.c\<close>,
    \<open>project4/Part_1/hello_world.c\<close> and \<open>CS33/fork.c\<close>.
  \<^item> \<open>Recursion\<close>: the functions of \<open>CS32/Project 3/recursion.cpp\<close>, with the maze search as a
    depth-first search whose result is reachability (C19).
  \<^item> \<open>Sensors\<close>: \<open>sorts.cpp\<close>, the two comparisons as one linear order, insertion sort and sorting
    through pointers (C25).
  \<^item> \<open>WordTree\<close>: the search tree as a \<open>tree\<close> of words and counts; \<open>LinkedList\<close>, \<open>LinkedListProps\<close>: the
    list operations on an explicit heap, loops that follow pointers may run for ever, and what they
    do on well-formed lists (C28).
  \<^item> \<open>StringArrays\<close>, \<open>StringArraysProps\<close>: \<open>array.cpp\<close> on arrays whose accesses outside fault.
  \<^item> \<open>Streams\<close>: input streams with their state bits, \<open>>>\<close>, \<open>getline\<close> and \<open>ignore\<close>; \<open>Anagrams\<close>,
    \<open>AnagramsProps\<close>: the anagram program over such a stream (C20).
  \<^item> \<open>Maze\<close>, \<open>MazeProps\<close>: \<open>maze.cpp\<close> over an arbitrary grid (C21).
  \<^item> \<open>Robots\<close>, \<open>RobotsProps\<close>: the robot game, the validity of its arena as an invariant of every
    operation, what the player's look-ahead computes (C22, C23, C24).
  \<^item> \<open>BballRoster\<close>, \<open>BballRosterProps\<close>: the roster on an explicit heap with named objects;
    \<open>represents\<close> relates a memory to one sorted association list for each object, and every operation is
    shown to be a function on these lists (C26, C27).
  \<^item> \<open>HttpServer\<close>, \<open>HttpServerProps\<close>: the request line with the wrap-around of string positions, the
    search of the directory, the reply and the accept loop (C33, C34); the
    representation of a string in memory, which the code relies on, is a parameter, instantiated with
    the short strings of libc++.
  \<^item> \<open>Decrypt\<close>, \<open>DecryptProps\<close>: \<open>decrypt.cpp\<close> on arrays whose accesses outside fault; a crib that fits
    the start of the text is used as the key, and the search can read behind its array
    (C29).
  \<^item> \<open>TunnelWorld\<close>, \<open>TunnelGame\<close>: the objects and the world of \<open>CS32/Project 4, Pt2\<close>; the framework is a
    record of its functions, and \<open>graph_ok\<close> states that its objects keep what they are given;
    \<open>TunnelGameProps\<close>, \<open>TunnelLevel\<close>: \<open>acted\<close> says what one object may change, from which the
    invariant \<open>level_ok\<close> of all moves follows, and how a level starts
    (C30, C31, C32).
  \<^item> \<open>Examples\<close>: concrete inputs shared by the instances below; \<open>Further\<close>: more theorems about the
    programs, each with an instance.

  \<^bold>\<open>Bounds.\<close> Nothing is bounded artificially: event loops run over a finite but arbitrary
  sequence of rounds, threads interleave arbitrarily, \<open>OPEN_MAX\<close> (1024 descriptors) and the 65536
  bytes of a pipe are those of Linux. Numbers of list elements that do not fit an \<open>int\<close> are left
  out of \<open>list_main\<close> and \<open>list1_main\<close>; the lengths that \<open>SortedList_length\<close> counts, the ids of the
  sensors and the size of a web reply are kept in 32 bits. Loop indices and other counts of type
  \<open>int\<close> in the exercises in C++ (among them \<open>howManyPlayers\<close> of the roster and the indices in
  \<open>sorts.cpp\<close>) are unbounded, which is the same below \<open>2 ^ 31\<close> items.

  \<^bold>\<open>Not modelled.\<close> Texts of \<open>strerror\<close> and debugging notices; the child of \<open>lab1a.c\<close> after a
  failed \<open>execvp\<close>; a second connection of the server, whose first loop never returns; rounding of
  \<open>float\<close> in \<open>lab4b.c\<close> (the conversion is over the reals) and the sensor library; the overflow of
  \<open>blk_addr\<close> in \<open>lab3a.c\<close>; the byte written behind each 20-byte key in \<open>lab2_list.c\<close>; in the game of
  \<open>Project 4, Pt2\<close> an index of the earth outside a column of 60 but inside the array reads the next
  column, as the array lies in memory, and clocks do not overflow. In the
  C++ programs: prompts, escape sequences that clear the screen, timers; \<open>rand\<close>, \<open>std::sort\<close> and the
  grid of the maze are parameters. Not modelled at all: \<open>CS31/Project1\<close> and \<open>CS31/Project2\<close>, an earlier version of the game in \<open>CS32/Project 4, Pt1\<close>,
  backup copies of the programs, the vendored gperftools and everything that is not
  C or C++.
\<close>

section \<open>Lists, threads and locks\<close>

text \<open>
  C1: Inserting an element that is in no list into a well-formed list returns, keeps the list
  well-formed and in the order of the implementation (descending keys), adds exactly that
  element, changes no key and touches no node outside the list.
\<close>

theorem SortedList_insert_correct:
  assumes "slist h l xs" and "keyed h e" and "e \<notin> set (l # xs)"
  shows "\<exists>h' ys. SortedList_insert h l e = Some (Ret h') \<and> slist h' l ys \<and>
    set ys = insert e (set xs) \<and> (\<forall>x. key_of h' x = key_of h x) \<and>
    (\<forall>x. x \<notin> set (l # e # xs) \<longrightarrow> h' x = h x)"
  using slist_insert [OF assms] set_ins_addr [of h e xs] by metis

theorem SortedList_insert_correct_witness:
  "\<exists>h' ys. SortedList_insert heap1 0 1 = Some (Ret h') \<and> slist h' 0 ys \<and> set ys = {1}"
  using SortedList_insert_correct [OF heap1_slist] by auto

text \<open>
  C2: Deleting an element of a well-formed list returns 0, leaves a well-formed list of
  exactly the other elements and changes only the nodes that stay in the list.
\<close>

theorem SortedList_delete_correct:
  assumes "slist h l xs" and "e \<in> set xs"
  shows "\<exists>h' ys. SortedList_delete h e = Ret (0, h') \<and> slist h' l ys \<and> set ys = set xs - {e} \<and>
    (\<forall>x. key_of h' x = key_of h x) \<and> (\<forall>x. x \<notin> set (l # ys) \<longrightarrow> h' x = h x)"
  using assms by (rule slist_delete)

theorem SortedList_delete_correct_witness:
  "\<exists>h'. SortedList_delete heap2 1 = Ret (0, h') \<and> slist h' 0 []"
  using SortedList_delete_correct [OF heap2_slist, of 1] by auto

text \<open>
  C3: Looking up a key in a well-formed list returns: an element of the list with that key
  when there is one, and NULL only when no element has it.
\<close>

theorem SortedList_lookup_correct:
  assumes "slist h l xs" and "cstr k"
  shows "\<exists>r. SortedList_lookup h l k = Some (Ret r) \<and>
    (case r of None \<Rightarrow> \<forall>x \<in> set xs. key_of h x \<noteq> Some k | Some p \<Rightarrow> p \<in> set xs \<and> key_of h p = Some k)"
proof -
  have ky: "key_of h x = Some (key_at h x)" if "x \<in> set xs" for x
    using that assms(1) by (auto simp: slist_def dlist_def keyed_def key_at_def split: option.splits)
  show ?thesis unfolding lookup_slist [OF assms]
  proof (cases "List.find (\<lambda>x. key_at h x = k) xs")
    case None
    then show "\<exists>r. Some (Ret (List.find (\<lambda>x. key_at h x = k) xs)) = Some (Ret r) \<and>
        (case r of None \<Rightarrow> \<forall>x \<in> set xs. key_of h x \<noteq> Some k | Some p \<Rightarrow> p \<in> set xs \<and> key_of h p = Some k)"
      by (simp add: ky) (simp add: find_None_iff)
  next
    case (Some p)
    then have "p \<in> set xs \<and> key_at h p = k" by (auto simp: find_Some_iff)
    with Some show "\<exists>r. Some (Ret (List.find (\<lambda>x. key_at h x = k) xs)) = Some (Ret r) \<and>
        (case r of None \<Rightarrow> \<forall>x \<in> set xs. key_of h x \<noteq> Some k | Some p \<Rightarrow> p \<in> set xs \<and> key_of h p = Some k)"
      by (simp add: ky)
  qed
qed

theorem SortedList_lookup_correct_witness:
  "SortedList_lookup heap2 0 ''k'' = Some (Ret (Some 1))"
proof -
  have "key_of heap2 1 = Some ''k''" by (simp add: heap2_def key_of_def)
  with SortedList_lookup_correct [OF heap2_slist, of "''k''"] show ?thesis by (auto split: option.splits)
qed

text \<open>
  C4: SortedList_length returns n other than -1 exactly when the header starts a circle of
  distinct nodes whose next and prev pointers agree and n is the number of its elements as a
  32-bit int (the number itself below 2^31, wrapped around beyond); every corruption on the
  circle is therefore reported or never returned as a length.
\<close>

theorem SortedList_length_exact:
  "SortedList_length h l = Some (Ret n) \<and> n \<noteq> - 1 \<longleftrightarrow>
    (\<exists>xs. distinct (l # xs) \<and> linked h (l # xs @ [l]) \<and> n = to_int32 (int (length xs)) \<and> n \<noteq> - 1)"
  by (rule length_iff)

text \<open>
  C5: A run of Part_2/lab2_list with --sync=m or --sync=s and at least one list never ends
  with exit code 2 (corrupted list or segmentation fault in a thread), under every
  interleaving of the threads.
\<close>

theorem list_main_not_corrupted:
  assumes "list_main argv alloc rand clk0 clk1 r" and "list_get_opts argv = Ret c"
    and "lg_sync c = CHR ''m'' \<or> lg_sync c = CHR ''s''" and "0 < lg_lists c"
  shows "r \<noteq> Exit 2"
proof -
  have gk: "good_keys (par_of c) (random_key rand)"
    using assms(4) by (intro good_random_keys) (simp add: par_of_def)
  have sy: "list_synchronised (par_of c)" using assms(3) by (simp add: list_synchronised_def par_of_def)
  show ?thesis using assms(1)
  proof cases
    case bad_options
    then show ?thesis using assms(2) by auto
  next
    case no_memory
    then show ?thesis by (auto simp: list_allocate_def Let_def split: if_splits)
  next
    case (ended c' t0 s r')
    then have "n_elems (par_of c) < 2 ^ 31"
      using assms(2) nat_mult_less_int32 [of "lg_threads c" "lg_iterations c"] by (simp add: n_elems_def par_of_def)
    with ended show ?thesis using list_reach_end [OF _ gk sy] assms(2) by fastforce
  next
    case (finished c' t0 s t1 r')
    then have "r' = Ret 0" using list_final_check_ok [OF _ gk sy] assms(2) by fastforce
    with finished show ?thesis by (auto simp: list_report_def Let_def)
  qed auto
qed

theorem list_main_not_corrupted_witness:
  "list_main [''lab2_list'', ''--sync=m''] (\<lambda>_. True) (\<lambda>_. 0) (Some \<lparr>ts_sec = 0, ts_nsec = 0\<rparr>) None (Exit 1) \<and>
   (Exit 1 :: string outcome) \<noteq> Exit 2"
proof -
  let ?c = "list_defaults\<lparr>lg_sync := CHR ''m''\<rparr>" and ?t = "\<lparr>ts_sec = 0, ts_nsec = 0\<rparr>"
  have opts: "list_get_opts [''lab2_list'', ''--sync=m''] = Ret ?c"
    by (simp add: list_get_opts_def getopt_eval list_long_options_def list_opt_def list_sync_option_def list_defaults_def Let_def)
  have al: "list_allocate (\<lambda>_. True) ?c = Ret ()" by (simp add: list_allocate_def list_defaults_def Let_def)
  let ?s = "list_sys_init (par_of ?c) (random_key (\<lambda>_. 0)) (\<lambda>_. (0, 0)) :: sl_op list_sys"
  have "list_step SortedList_code (par_of ?c) ?s (lend (Exit 1) ?s)"
    by (rule list_step.create_fails) (simp_all add: list_sys_init_def par_of_def list_defaults_def)
  then have rch: "list_reach SortedList_code (par_of ?c) (random_key (\<lambda>_. 0)) (lend (Exit 1) ?s)"
    using list_reach.start list_reach.step by blast
  have "list_main [''lab2_list'', ''--sync=m''] (\<lambda>_. True) (\<lambda>_. 0) (Some ?t) None (obind (Exit 1 :: unit outcome) (\<lambda>_. Ret []))"
    by (rule list_main.ended [OF opts al _ _ rch]) (simp_all add: list_get_time_def list_defaults_def lend_def)
  then have m: "list_main [''lab2_list'', ''--sync=m''] (\<lambda>_. True) (\<lambda>_. 0) (Some ?t) None (Exit 1)" by simp
  from list_main_not_corrupted [OF m opts] m show ?thesis by (simp add: list_defaults_def)
qed

text \<open>
  C6: In every reachable state of a synchronised run, two threads inside the critical section
  of the same sublist are the same thread.
\<close>

theorem list_mutual_exclusion:
  assumes "list_reach SortedList_code p keys s" and "good_keys p keys" and "list_synchronised p" and "ls_end s = None"
    and "t < p_threads p" and "u < p_threads p" and "holds_lock (ls_thr s t)" and "holds_lock (ls_thr s u)"
    and "cur_list p keys (ls_thr s t) = cur_list p keys (ls_thr s u)"
  shows "t = u"
proof -
  let ?j = "cur_list p keys (ls_thr s u)"
  have inv: "list_inv SortedList_code sorted_list_at p keys s"
    using sl.list_reach_safe [OF assms(1-3)] assms(4) by (simp add: list_safe_def)
  have "lt_pc (ls_thr s u) \<noteq> LTest" using assms(8) by (auto simp: holds_lock_def)
  then have "?j < p_lists p" using cur_list_range list_invD(2) [OF inv] assms(2,6) by blast
  from list_invD(3) [OF inv this] show ?thesis
    by (rule lock_inv_unique) (use assms in \<open>auto simp: holders_def\<close>)
qed

theorem list_mutual_exclusion_witness:
  "\<exists>s. list_reach SortedList_code par11 (\<lambda>_. ''key'') s \<and> holds_lock (ls_thr s 0) \<and>
     (\<forall>u < p_threads par11. holds_lock (ls_thr s u) \<and>
        cur_list par11 (\<lambda>_. ''key'') (ls_thr s 0) = cur_list par11 (\<lambda>_. ''key'') (ls_thr s u) \<longrightarrow> 0 = u)"
proof -
  have "map_option (\<lambda>s. holds_lock (ls_thr s 0) \<and> ls_end s = None) (run11 5) = Some True" by code_simp
  then obtain s where s: "run11 5 = Some s" "holds_lock (ls_thr s 0)" "ls_end s = None" by auto
  note ex = list_mutual_exclusion [OF run11_reach [OF s(1)] par11_ok s(3)]
  have "0 < p_threads par11" by (simp add: par11_def)
  with ex s(2) run11_reach [OF s(1)] show ?thesis by blast
qed

text \<open>
  C7: When all threads of lab2_add have finished under a mutex, the spin lock or
  compare-and-swap, the counter is 0, under every interleaving.
\<close>

theorem add_counter_zero:
  assumes "add_reach sync n N s" and "synchronised sync" and "add_joined N s"
  shows "counter s = 0"
  using assms by (rule add_joined_counter)

theorem add_counter_zero_witness:
  "\<exists>s. add_reach (CHR ''m'') 1 1 s \<and> add_joined 1 s \<and> counter s = 0"
  using add_solo_run add_counter_zero [of "CHR ''m''" 1 1] by (fastforce simp: synchronised_def)

text \<open>
  C8: From every reachable state of a synchronised run of lab2_add there is a continuation in
  which all threads are created and finish: no deadlock can be reached.
\<close>

theorem add_can_finish:
  assumes "add_reach sync n N s" and "synchronised sync"
  shows "\<exists>s'. (add_step sync n N)\<^sup>*\<^sup>* s s' \<and> add_joined N s'"
  using assms by (rule can_finish)

theorem add_can_finish_witness:
  "\<exists>s'. (add_step (CHR ''s'') 5 3)\<^sup>*\<^sup>* add_sys_init s' \<and> add_joined 3 s'"
  using add_can_finish [OF add_reach.start, of "CHR ''s''"] by (simp add: synchronised_def)

text \<open>
  C9: Whenever a run of lab2_add with a synchronisation option prints its record, the record
  is the report for a counter of 0 and ends with ",0".
\<close>

theorem add_main_counter:
  assumes "add_main argv clk0 clk1 (Ret line)" and "add_get_opts argv = Ret c" and "synchronised (ac_sync c)"
  shows "\<exists>t0 t1 pre. clk0 = Some t0 \<and> clk1 = Some t1 \<and> add_report c t0 t1 0 = Ret line \<and> line = pre @ '',0'' @ [CHR 0x0A]"
  using assms(1)
proof cases
  case (finished c' t0 s)
  have c: "c' = c" using finished(2) assms(2) by simp
  obtain t1 where t1: "clk1 = Some t1" "add_report c t0 t1 (counter s) = Ret line"
    using finished(1) c by (auto simp: add_get_time_def split: option.splits)
  have "counter s = 0" using add_joined_counter [OF finished(4) _ finished(5)] assms(3) unfolding c by simp
  moreover have "fmt_d 0 = ''0''" by code_simp
  ultimately have "\<exists>pre. line = pre @ '',0'' @ [CHR 0x0A]"
    using t1(2) by (auto simp: add_report_def obind_Ret_iff Let_def split: if_splits)
  then show ?thesis using t1 finished(3) \<open>counter s = 0\<close> by (auto simp: add_get_time_def split: option.splits)
qed (use assms(2) in \<open>auto simp: obind_Ret_iff add_get_time_def\<close>)

theorem add_main_counter_witness:
  "\<exists>line pre. add_main [''lab2_add'', ''--sync=m''] (Some \<lparr>tv_sec = 0, tv_nsec = 0\<rparr>) (Some \<lparr>tv_sec = 0, tv_nsec = 9\<rparr>) (Ret line) \<and>
    line = pre @ '',0'' @ [CHR 0x0A]"
proof -
  let ?c = "add_defaults\<lparr>ac_sync := CHR ''m''\<rparr>" and ?t0 = "\<lparr>tv_sec = 0, tv_nsec = 0\<rparr>" and ?t1 = "\<lparr>tv_sec = 0, tv_nsec = 9\<rparr>"
  have opts: "add_get_opts [''lab2_add'', ''--sync=m''] = Ret ?c"
    by (simp add: add_get_opts_def getopt_eval add_long_options_def add_sync_option_def add_defaults_def)
  obtain s where s: "add_reach (CHR ''m'') 1 1 s" "add_joined 1 s" using add_solo_run by blast
  obtain line where l: "add_report ?c ?t0 ?t1 (counter s) = Ret line"
    by (simp add: add_report_def add_get_tag_def add_defaults_def Let_def)
  have "add_main [''lab2_add'', ''--sync=m''] (Some ?t0) (Some ?t1) (obind (add_get_time (Some ?t1)) (\<lambda>t1. add_report ?c ?t0 t1 (counter s)))"
    by (rule add_main.finished [OF opts]) (use s in \<open>simp_all add: add_get_time_def add_defaults_def\<close>)
  then have m: "add_main [''lab2_add'', ''--sync=m''] (Some ?t0) (Some ?t1) (Ret line)" using l by (simp add: add_get_time_def)
  from add_main_counter [OF m opts] have "\<exists>pre. line = pre @ '',0'' @ [CHR 0x0A]" by (auto simp: synchronised_def)
  with m show ?thesis by blast
qed

text \<open>
  C10: Every state that Part_1/lab2_list (one list, one mutex, one spin lock) can reach is,
  through the abstraction abs1, a state that Part_2/lab2_list with one sublist can reach.
\<close>

theorem list1_refines:
  assumes "list1_reach SortedList_code sync n N keys s"
  shows "list_reach SortedList_code (par1 sync n N) keys (abs1 s)"
  using sl.list1_reach_sim [OF assms] by blast

theorem list1_refines_witness:
  "list_reach SortedList_code (par1 (CHR ''m'') 2 3) (\<lambda>_. ''key'')
     (abs1 (list1_sys_init 2 3 (\<lambda>_. ''key'') (\<lambda>_. (0, 0))\<lparr>s1_created := 1\<rparr>))"
proof (rule list1_refines)
  let ?s = "list1_sys_init 2 3 (\<lambda>_. ''key'') (\<lambda>_. (0, 0)) :: sl_op list1_sys"
  have "list1_step SortedList_code (CHR ''m'') 2 3 ?s (?s\<lparr>s1_created := Suc (s1_created ?s)\<rparr>)"
    by (rule list1_step.create) (simp_all add: list1_sys_init_def)
  then have "list1_reach SortedList_code (CHR ''m'') 2 3 (\<lambda>_. ''key'') (?s\<lparr>s1_created := Suc (s1_created ?s)\<rparr>)"
    using list1_reach.start list1_reach.step by blast
  moreover have "s1_created ?s = 0" by (simp add: list1_sys_init_def)
  ultimately show "list1_reach SortedList_code (CHR ''m'') 2 3 (\<lambda>_. ''key'') (?s\<lparr>s1_created := 1\<rparr>)" by simp
qed

text \<open>
  C11: The insertion executed one memory access at a time ends after finitely many steps
  without a fault, and the part of the heap it owns is then the sorted list with the element
  added: the step-wise code meets the contract of the list.
\<close>

theorem SortedList_insert_steps:
  assumes "sorted_list_at (h |` insert l E) l E" and "dom h = insert e (insert l E)" and "e \<notin> insert l E" and "keyed h e"
  shows "op_ok sl_step (\<lambda>r h'. r = RUnit \<and> sorted_list_at h' l (insert e E)) (Inl (InsStart l e)) h"
  using sl.insert_law [OF assms] by (simp add: SortedList_code_def)

theorem SortedList_insert_steps_witness:
  "op_ok sl_step (\<lambda>r h'. r = RUnit \<and> sorted_list_at h' 0 {1}) (Inl (InsStart 0 1)) heap1"
proof -
  have "sorted_list_at (heap1 |` insert 0 {}) 0 {}"
    by (auto simp: sorted_list_at_def slist_def dlist_def heap1_def key_of_def restrict_map_def split: if_splits)
  moreover have "dom heap1 = insert 1 (insert 0 {})" by (auto simp: heap1_def)
  ultimately show ?thesis using SortedList_insert_steps [OF _ _ _ heap1_slist(2), of 0 "{}"] by simp
qed

section \<open>Temperature sensor\<close>

text \<open>
  C12: However read() cuts a text of command lines (fewer than 32 characters, no NUL, fewer
  than 8 characters behind PERIOD=) into chunks, the loop of lab4b executes exactly those
  lines in order, up to one that exits, and an exit runs the shutdown handler.
\<close>

theorem lab4b_commands:
  assumes "b_end s = None" and "\<forall>l \<in> set ls. command_line l" and "cmd_str_idx s = 0" and "length (cmd_str s) = CMD_SIZE"
    and "concat chunks = unlines ls"
  shows "let s' = fold (b_chunk t behind) chunks s in
    case exec_lines ls (b_ctl s) of
      (c, Ret _) \<Rightarrow> b_ctl s' = c \<and> b_end s' = None \<and> cmd_str_idx s' = 0
    | (c, Exit code) \<Rightarrow> b_ctl s' = shutdown t c \<and> b_end s' = Some (Ret code)
    | _ \<Rightarrow> False"
  using b_chunk_lines [OF assms(1-4), of t behind] unfolding b_chunk_chunks assms(5)
  by (auto simp: Let_def split: prod.splits outcome.splits)

theorem lab4b_commands_witness:
  "let s' = fold (b_chunk \<lparr>hour = 1, minute = 2, sec = 3\<rparr> ''?'') [''STO'', ''P'' @ [CHR 0x0A]] b_sys0 in
     \<not> report_flag (b_ctl s') \<and> b_end s' = None"
proof -
  have "exec_lines [''STOP''] (b_ctl b_sys0) = ((b_ctl b_sys0)\<lparr>report_flag := False\<rparr>, Ret ())"
    by (simp add: exec_line_def b_sys0_def b_sys_init_def b_defaults_def log_line_def Let_def)
  then show ?thesis
    using lab4b_commands [of b_sys0 "[''STOP'']" "[''STO'', ''P'' @ [CHR 0x0A]]" "\<lparr>hour = 1, minute = 2, sec = 3\<rparr>" "''?''"]
    by (simp add: b_sys0_def b_sys_init_def command_line_def CMD_SIZE_def unlines_def Let_def)
qed

text \<open>
  C13: In every run of lab4b the command buffer keeps its 32 bytes and, until the program
  ends, the scale is F or C and the period is not 0.
\<close>

theorem lab4b_invariant:
  assumes "b_setup can_open env t junk argv = Ret s" and "length junk = CMD_SIZE" and "b_run show_temp evs s = Some s'"
  shows "length (cmd_str s') = CMD_SIZE \<and> (b_end s' = None \<longrightarrow> (scale (b_ctl s') = CHR ''F'' \<or> scale (b_ctl s') = CHR ''C'') \<and> period (b_ctl s') \<noteq> 0)"
proof -
  obtain c where c: "b_get_opts can_open argv = Ret c" using assms(1) by (auto simp: b_setup_def obind_Ret_iff)
  then have "s = b_sys_init junk c \<or> s = b_exit t 1 (b_sys_init junk c)"
    using assms(1) by (auto simp: b_setup_def split: if_splits)
  then have "b_inv s" using b_get_opts_ok [OF c] assms(2) by (auto simp: b_inv_def b_sys_init_def b_exit_def)
  from b_run_inv [OF this assms(3)] show ?thesis by (simp add: b_inv_def ctl_ok_def)
qed

theorem lab4b_invariant_witness:
  "\<exists>s s'. b_setup (\<lambda>_. True) \<lparr>e_atexit = True, e_aio = True, e_gpio = True, e_fcntl = True, e_thread = True\<rparr>
      \<lparr>hour = 1, minute = 2, sec = 3\<rparr> (replicate 32 CHR ''x'') [''lab4b'', ''--period=5''] = Ret s \<and>
    b_run (\<lambda>_. ''20.0'') [Button, LoopExit \<lparr>hour = 1, minute = 2, sec = 3\<rparr>] s = Some s' \<and> length (cmd_str s') = CMD_SIZE"
proof -
  let ?env = "\<lparr>e_atexit = True, e_aio = True, e_gpio = True, e_fcntl = True, e_thread = True\<rparr>" and ?t = "\<lparr>hour = 1, minute = 2, sec = 3\<rparr>"
  have p: "strtol0 ''5'' = 5" by code_simp
  obtain s where s: "b_setup (\<lambda>_. True) ?env ?t (replicate 32 CHR ''x'') [''lab4b'', ''--period=5''] = Ret s" "b_end s = None" "b_pending s = []"
    using p by (simp add: b_setup_def b_get_opts_def getopt_eval b_long_options_def b_opt_def Let_def b_sys_init_def)
  obtain s' where s': "b_run (\<lambda>_. ''20.0'') [Button, LoopExit ?t] s = Some s'"
    using s(2,3) by (simp add: b_step_def)
  from lab4b_invariant [OF s(1) _ s'] s(1) s' show ?thesis by (auto simp: CMD_SIZE_def)
qed

text \<open>
  C14: In a run of lab4b whose input has no line of 32 or more characters, no byte is stored
  outside the command buffer.
\<close>

theorem lab4b_no_overflow:
  assumes "b_setup can_open env t junk argv = Ret s" and "length junk = CMD_SIZE" and "b_run show_temp evs s = Some s'"
    and "lines_fit (input_of evs)"
  shows "b_end s' \<noteq> Some SegFault"
proof -
  obtain c where c: "b_get_opts can_open argv = Ret c" using assms(1) by (auto simp: b_setup_def obind_Ret_iff)
  then have s: "s = b_sys_init junk c \<or> s = b_exit t 1 (b_sys_init junk c)"
    using assms(1) by (auto simp: b_setup_def split: if_splits)
  have "reader_ok [] s" "b_pending s = []"
    using s b_get_opts_ok [OF c] assms(2) by (auto simp: reader_ok_def b_inv_def b_sys_init_def b_exit_def)
  from b_run_reader [OF assms(3) this(1)] this(2) assms(4) show ?thesis by (auto simp: reader_ok_def)
qed

theorem lab4b_no_overflow_witness:
  "\<exists>s s'. b_setup (\<lambda>_. True) \<lparr>e_atexit = True, e_aio = True, e_gpio = True, e_fcntl = True, e_thread = True\<rparr>
      \<lparr>hour = 1, minute = 2, sec = 3\<rparr> (replicate 32 CHR ''x'') [''lab4b''] = Ret s \<and>
    b_run (\<lambda>_. ''20.0'') [Read ''ab'', NextChar \<lparr>hour = 1, minute = 2, sec = 3\<rparr> ''?''] s = Some s' \<and> b_end s' \<noteq> Some SegFault"
proof -
  let ?env = "\<lparr>e_atexit = True, e_aio = True, e_gpio = True, e_fcntl = True, e_thread = True\<rparr>" and ?t = "\<lparr>hour = 1, minute = 2, sec = 3\<rparr>"
  let ?evs = "[Read ''ab'', NextChar ?t ''?'']"
  obtain s where s: "b_setup (\<lambda>_. True) ?env ?t (replicate 32 CHR ''x'') [''lab4b''] = Ret s" "b_end s = None" "b_pending s = []" "run_flag s"
    by (simp add: b_setup_def b_get_opts_def getopt_eval b_sys_init_def)
  obtain s' where s': "b_run (\<lambda>_. ''20.0'') ?evs s = Some s'"
    using s(2-4) by (simp add: b_step_def BUF_SIZE_def)
  have "lines_fit (input_of ?evs)"
  proof -
    have "cur_len x \<le> length x" for x by (simp add: cur_len_def length_takeWhile_le [THEN order_trans])
    then have "cur_len (take n ''ab'') \<le> 2" for n by (rule order_trans) simp
    then have "cur_len (take n ''ab'') < 32" for n by (rule le_less_trans) simp
    then show ?thesis by (simp add: lines_fit_def CMD_SIZE_def)
  qed
  from lab4b_no_overflow [OF s(1) _ s' this] s(1) s' show ?thesis by (auto simp: CMD_SIZE_def)
qed

section \<open>Remote shell and terminal\<close>

text \<open>
  C15: Without compression and without --log, text typed at the connected client (no ^C or ^D,
  one key per read) is echoed with line ends as CR LF, and however TCP cuts the sent bytes
  into packets that fit the server's reads the server passes to a shell that reads exactly the
  text with every CR as LF.
\<close>

theorem remote_shell_raw:
  assumes "\<not> compress_flag s" and "\<not> log_flag s" and "ce_peer env"
    and "\<not> v_compress v" and "v_fds v (v_pw v) \<noteq> None" and "ve_reads env'" and "plain x"
    and "concat ps = concat (map (\<lambda>c. [c]) (shell_text x))" and "list_all (\<lambda>p. length p \<le> SERVER_READ_SIZE) ps"
  shows "client_loop env zl (map key_press x) s =
      (s\<lparr>c_out := c_out s @ echo_text x, c_sent := c_sent s @ map (\<lambda>c. [c]) (shell_text x)\<rparr>, Ret ()) \<and>
    server_loop env' zl (map sock_packet ps) v = (v\<lparr>v_to_shell := v_to_shell v @ shell_text x\<rparr>, Ret ())"
proof -
  have "concat ps = shell_text x" using assms(8) by simp
  then show ?thesis
    using client_loop_raw [OF assms(1,3,2)] server_loop_raw [OF assms(4-6) _ assms(9)] assms(7) by simp
qed

theorem remote_shell_raw_witness:
  "server_loop v_env1 zlib_id (map sock_packet [''l'', ''s'' @ [lf_char]]) v_sys1 =
     (v_sys1\<lparr>v_to_shell := v_to_shell v_sys1 @ shell_text (''ls'' @ [cr_char])\<rparr>, Ret ())"
  using remote_shell_raw [of "c_sys_init tty1" c_env1 v_sys1 v_env1 "''ls'' @ [cr_char]" "[''l'', ''s'' @ [lf_char]]" zlib_id]
  by (simp add: c_sys_init_def c_env1_def v_sys1_def v_sys_init_def v_env1_def plain_def ctrl_C_def ctrl_D_def cr_char_def lf_char_def
      shell_text_def SERVER_READ_SIZE_def)

text \<open>
  C16: With compression and without --log, for a zlib whose flushed output decompresses to its
  input, typed text (no ^C or ^D, one key per read, one packet per read) reaches the shell as
  the same text as without compression, and the two streams stay in step.
\<close>

theorem remote_shell_compressed:
  assumes "zlib_ok zl sync n (nat CLIENT_READ_SIZE)" and "0 < n"
    and "compress_flag s" and "\<not> log_flag s" and "ce_peer env" and "cz_out s = Some zc"
    and "v_compress v" and "vz_in v = Some zd" and "v_fds v (v_pw v) \<noteq> None" and "ve_reads env'"
    and "sync zc zd" and "plain x"
  shows "\<exists>ps zc' zd'. client_loop env zl (map key_press x) s =
      (s\<lparr>c_out := c_out s @ echo_text x, c_sent := c_sent s @ ps, cz_out := Some zc'\<rparr>, Ret ()) \<and>
    server_loop env' zl (map sock_packet ps) v = (v\<lparr>v_to_shell := v_to_shell v @ shell_text x, vz_in := Some zd'\<rparr>, Ret ()) \<and>
    sync zc' zd'"
  using assms by (rule client_server_zip)

theorem remote_shell_compressed_witness:
  "\<exists>ps s'. client_loop c_env1 zlib_id (map key_press ''ls'') ((c_sys_init tty1)\<lparr>compress_flag := True, cz_out := Some ()\<rparr>) = (s', Ret ()) \<and>
     c_sent s' = ps \<and> v_to_shell (fst (server_loop v_env1 zlib_id (map sock_packet ps) (v_sys1\<lparr>v_compress := True, vz_in := Some ()\<rparr>))) = ''ls''"
proof -
  have "zlib_ok zlib_id (\<lambda>_ _. True) 100 (nat CLIENT_READ_SIZE)"
    by (simp add: zlib_ok_def zlib_id_def CLIENT_READ_SIZE_def)
  from remote_shell_compressed [OF this, of "(c_sys_init tty1)\<lparr>compress_flag := True, cz_out := Some ()\<rparr>" c_env1 "()"
      "v_sys1\<lparr>v_compress := True, vz_in := Some ()\<rparr>" "()" v_env1 "''ls''"]
  show ?thesis
    by (auto simp: c_sys_init_def c_env1_def v_sys1_def v_sys_init_def v_env1_def plain_def ctrl_C_def ctrl_D_def shell_text_def cr_char_def)
qed

text \<open>
  C17: After start_shell the shell sees no end of file while the terminal process holds its
  pipe open, sees it as soon as that process closes its end (what ^D does), and the terminal
  process sees the end of file of the shell's output when the shell has ended: no copy of a
  write end is left open.
\<close>

theorem lab1a_pipes:
  assumes "std_open t" and "no_pipe 0 t" and "no_pipe 1 t" and "start_shell t = Ret s"
    and "close_fd (sh_write s) (sh_parent s) = Some t'"
  shows "at_eof (sh_in s) [t', sh_child s] \<and> \<not> at_eof (sh_in s) [sh_parent s, sh_child s] \<and> at_eof (sh_out s) [sh_parent s]"
  using lab1a.shell_sees_eof [OF assms] lab1a.shell_not_eof_before [OF assms(1-4)] lab1a.parent_sees_eof [OF assms(1-4)]
  by blast

theorem lab1a_pipes_witness:
  "\<exists>s t'. start_shell fds1 = Ret s \<and> close_fd (sh_write s) (sh_parent s) = Some t' \<and> at_eof (sh_in s) [t', sh_child s]"
proof -
  note sh = start_shell_Ret [OF fds1_ok fds1_pipe]
  obtain s where s: "start_shell fds1 = Ret s" "sh_write s = 4" "sh_parent s 4 = Some (PipeWrite 0)"
    using sh by (simp add: parent_table_def)
  then obtain t' where "close_fd (sh_write s) (sh_parent s) = Some t'" by (simp add: close_fd_def)
  with s(1) lab1a_pipes [OF fds1_ok s(1) this] show ?thesis by blast
qed

text \<open>
  C18: lab1a puts the terminal into its character mode, and whenever its loop ends with exit
  the terminal has the settings it had before, if tcsetattr and waitpid work.
\<close>

theorem lab1a_restores:
  assumes "a_setup env tty t argv = Ret s" and "e_tcset env" and "e_wait env \<noteq> None"
    and "echo_and_forward env evs s = (s', Exit c)"
  shows "a_tty s = set_term_attr tty \<and> a_tty s' = tty"
proof -
  have "a_saved s = tty \<and> a_tty s = set_term_attr tty"
    using assms(1) by (auto simp: a_setup_def obind_Ret_iff tty_config_def a_sys_init_def or_exit_def Let_def split: if_splits option.splits)
  with echo_and_forward_restores [OF assms(2-4)] show ?thesis by simp
qed

theorem lab1a_restores_witness:
  "\<exists>s s'. a_setup a_env1 tty1 fds1 [''lab1a''] = Ret s \<and>
     echo_and_forward a_env1 [\<lparr>pl_fail = False, kb_hup = True, kb_data = None, sh_data = None, sh_hup = False\<rparr>] s = (s', Exit 1) \<and>
     a_tty s' = tty1"
proof -
  obtain s where s: "a_setup a_env1 tty1 fds1 [''lab1a''] = Ret s" "\<not> a_shell s"
    by (simp add: a_setup_def a_get_opts_def getopt_eval tty_config_def a_env1_def a_sys_init_def Let_def)
  obtain s' where s': "echo_and_forward a_env1 [\<lparr>pl_fail = False, kb_hup = True, kb_data = None, sh_data = None, sh_hup = False\<rparr>] s = (s', Exit 1)"
    using s(2) by (simp add: poll_round_def a_shutdown_def)
  from lab1a_restores [OF s(1) _ _ s'] s s' show ?thesis by (auto simp: a_env1_def)
qed

section \<open>Programming exercises\<close>

text \<open>
  C19: canWeFinish of recursion.cpp, in a maze whose open cells are surrounded by cells of the
  array, ends without leaving the array and returns true exactly when the goal can be reached
  from the start through open cells, although the crumbs it drops stay in the maze.
\<close>

theorem maze_search:
  assumes "inside maze (sr, sc)" and "\<forall>q \<in> dots maze. inside maze q"
  shows "\<exists>m. canWeFinish maze nRows nCols sr sc er ec =
    Some (Ret (open_path (dots maze) (sr, sc) (er, ec), m))"
  using assms by (rule canWeFinish_exact)

theorem maze_search_witness:
  "\<exists>m. canWeFinish maze1 3 4 1 1 1 2 = Some (Ret (open_path (dots maze1) (1, 1) (1, 2), m))"
  by (rule maze_search [OF maze1_inside(1)]) (use maze1_rows(3) maze1_inside in blast)

text \<open>
  C20: The anagram program, for a dictionary file of at most 30000 entries separated by line
  ends and a nonempty word, ends and prints exactly the dictionary words that are permutations
  of the word, each once, or that there is none; of more than 20, the first 20 in the order in
  which its swaps produce them. The words are listed last found first.
\<close>

theorem anagrams_found:
  assumes "fin = [] \<or> fin = [CHR 0x0A]" and "\<forall>w \<in> set ws. word_ok w" and "length (entries ws fin) \<le> 30000"
    and "word \<noteq> []"
  shows "distinct (found_order word (set ws)) \<and> set (found_order word (set ws)) = {v \<in> set ws. mset v = mset word} \<and>
    anagrams_main (Some (lines_of ws fin)) word =
      Ret (if found_order word (set ws) = [] then [''No matches found'']
           else map (\<lambda>r. ''Matching word: '' @ r) (rev (take 20 (found_order word (set ws)))))"
  using anagrams_main_finds [OF assms] set_found_order [OF assms(4)] by (simp add: anagrams_def found_order_def)

theorem anagrams_found_witness:
  "anagrams_main (Some (lines_of [''tea'', ''eat'', ''at''] [CHR 0x0A])) ''ate'' = Ret [''Matching word: eat'', ''Matching word: tea'']"
proof -
  have "found_order ''ate'' (set [''tea'', ''eat'', ''at'']) = [''tea'', ''eat'']" by code_simp
  moreover have "\<forall>w \<in> set [''tea'', ''eat'', ''at'']. word_ok w" by (simp add: word_ok_def isspace_def)
  moreover have "length (entries [''tea'', ''eat'', ''at''] [CHR 0x0A]) \<le> 30000" by (simp add: entries_def)
  moreover have "''ate'' \<noteq> ([]::string)" by simp
  ultimately show ?thesis using anagrams_found [of "[CHR 0x0A]" "[''tea'', ''eat'', ''at'']" "''ate''"] by simp
qed

text \<open>
  C21: driveCourse of maze.cpp, for a course of segments with positive step counts between two
  free cells, drives segment by segment through free cells: it returns 0 at the goal, 1
  elsewhere and 3 when a segment is blocked, and nsteps is the number of steps driven up to
  there.
\<close>

theorem course_driven:
  assumes "isValidPosition g sr sc" and "isValidPosition g er ec" and "segs \<noteq> []"
    and "\<forall>s \<in> set segs. segment_ok s \<and> 0 < seg_steps (snd s)"
  shows "driveCourse g sr sc er ec (course_text segs) nsteps =
    (case follow g (sr, sc) segs 0 of (None, n) \<Rightarrow> (3, n) | (Some pos, n) \<Rightarrow> (if pos = (er, ec) then 0 else 1, n))"
  using assms by (rule driveCourse_follow)

theorem course_driven_witness:
  "driveCourse grid1 2 5 1 3 ''w2n'' 7 =
    (case follow grid1 (2, 5) [(CHR ''w'', ''2''), (CHR ''n'', [])] 0 of
       (None, n) \<Rightarrow> (3, n) | (Some pos, n) \<Rightarrow> (if pos = (1, 3) then 0 else 1, n))"
proof -
  have "stringtoInteger (CHR ''2'') = 2" by code_simp
  then show ?thesis
    using course_driven [of grid1 2 5 1 3 "[(CHR ''w'', ''2''), (CHR ''n'', [])]" 7]
    by (simp add: grid1_def isValidPosition_def segment_ok_def is_direction_def seg_steps_def isdigit_def less_eq_char_def)
qed

text \<open>
  C22: computeDanger of Player.cpp, for the live player's cell of a valid arena, is positive
  exactly when some choices of rand() let the robots' next move kill the player.
\<close>

theorem danger_means_death:
  assumes "board_ok a" and "m_player a = Some p" and "\<not> p_dead p"
  shows "computeDanger a (p_row p) (p_col p) > 0 \<longleftrightarrow>
    (\<exists>g. (\<forall>k. 0 \<le> g k) \<and> (\<exists>a' g'. moveRobots a g = Ret (False, a', g')))"
proof -
  have "on_board (m_rows a) (m_cols a) (p_row p) (p_col p)" using assms(1,2) by (simp add: board_ok_def)
  from danger_exact [OF assms(1) this] show ?thesis using assms(3) by (simp add: moveRobots_eq [OF assms(2)] Let_def)
qed

theorem danger_means_death_witness:
  "\<exists>g. (\<forall>k. 0 \<le> g k) \<and> (\<exists>a' g'. moveRobots arena1 g = Ret (False, a', g'))"
proof -
  have "computeDanger arena1 2 2 > 0" by (simp add: computeDanger_def nRobotsAt_def arena1_def)
  with danger_means_death [OF arena_board [OF arena1_ok] arena1_player] show ?thesis by simp
qed

text \<open>
  C23: When the player stands on a cell, or can step to one, that no robot can reach in its
  next move, the computer's chosen turn is played without a fault and the robots' move after
  it leaves the player alive.
\<close>

theorem computer_turn_safe:
  assumes "arena_ok a" and "m_player a = Some p" and "\<not> p_dead p" and "\<And>k. 0 \<le> g k"
    and "computeDanger a (step_row (m_rows a) (p_row p) dir) (step_col (m_cols a) (p_col p) dir) = 0"
  shows "\<exists>msg a' g' a'' g''. takeComputerChosenTurn a g = Ret (msg, a', g') \<and> moveRobots a' g' = Ret (True, a'', g'')"
  using assms by (rule computer_survives)

theorem computer_turn_safe_witness:
  "\<exists>msg a' g' a'' g''. takeComputerChosenTurn arena1 (\<lambda>k. int k) = Ret (msg, a', g') \<and> moveRobots a' g' = Ret (True, a'', g'')"
proof (rule computer_turn_safe [OF arena1_ok arena1_player])
  show "computeDanger arena1 (step_row (m_rows arena1) (p_row \<lparr>p_row = 2, p_col = 2, p_age = 0, p_dead = False\<rparr>) DOWN)
      (step_col (m_cols arena1) (p_col \<lparr>p_row = 2, p_col = 2, p_age = 0, p_dead = False\<rparr>) DOWN) = 0"
    by (simp add: computeDanger_def nRobotsAt_def arena1_def step_row_def step_col_def dir_defs)
qed simp_all

text \<open>
  C24: A game of at most 130 robots in an arena of 1 to 19 rows and 1 to 39 columns, once its
  construction ends, starts with that many robots on free cells, and however it is played, no
  access leaves an array or dereferences a null player, and the arena stays valid: player and
  robots on the board, robots with health.
\<close>

theorem robots_never_fault:
  assumes "new_Game nr nc n junk g = Some (Ret (a, g'))" and "length junk = 800" and "1 \<le> nr" "1 \<le> nc" "nr < 20" "nc < 40"
    and "n \<le> MAXROBOTS" and "\<And>k. 0 \<le> g k" and "play a g' f = Some r"
  shows "fresh_arena a (the (m_player a)) \<and> robotCount a = max 0 n \<and> (\<exists>s. r = Ret s \<and> arena_ok (g_arena s))"
proof -
  obtain p where "fresh_arena a p" "robotCount a = max 0 n" using new_Game_ok [OF assms(1-8)] by auto
  then show ?thesis using play_ok [OF _ _ assms(9)] by (simp add: fresh_arena_def)
qed

theorem robots_never_fault_witness:
  "\<exists>a g' s. new_Game 3 3 2 (replicate 800 (CHR ''?'')) int = Some (Ret (a, g')) \<and> robotCount a = 2 \<and>
    play a g' \<lparr>in_text = [CHR ''q'', CHR 0x0A], eofbit = False, failbit = False\<rparr> = Some (Ret s) \<and> arena_ok (g_arena s)"
proof -
  let ?f = "\<lparr>in_text = [CHR ''q'', CHR 0x0A], eofbit = False, failbit = False\<rparr>"
  obtain a g' where new: "new_Game 3 3 2 (replicate 800 (CHR ''?'')) int = Some (Ret (a, g'))" using game1_starts by blast
  obtain p where p: "fresh_arena a p" using new_Game_ok [OF new] by (auto simp: MAXROBOTS_def)
  have "fst (getline ?f []) = CHR ''q'' # []" by (simp add: getline_def)
  then obtain s where s: "play a g' ?f = Some (Ret s)" using play_quit [of a ?f "[]" g'] p by (auto simp: fresh_arena_def)
  have "robotCount a = max 0 2 \<and> (\<exists>s'. Ret s = Ret s' \<and> arena_ok (g_arena s'))"
    using robots_never_fault [OF new _ _ _ _ _ _ _ s] by (simp add: MAXROBOTS_def)
  with new s show ?thesis by auto
qed

text \<open>
  C25: For any shuffle of the ids of 1 to 2^31 - 1 sensors and any standard sort, the program
  sorts.cpp passes all its assertions, and its five reports (the standard sort and the
  insertion sort on the shuffled sensors and again on their result, and the sort through
  pointers on the shuffled sensors) show the same: the first of the one sorted arrangement of
  the sensors created.
\<close>

theorem sensors_agree:
  assumes "mset (random_shuffle (map int [0..<n])) = mset (map int [0..<n])"
    and "sorts_by stl_sort" and "sorts_by stl_sort_ptr" and "0 < n" and "n < 2 ^ 31"
  shows "\<exists>s. isSorted s \<and> length s = n \<and> mset (map sensor_id s) = mset (map int [0..<n]) \<and>
    mset s = mset (map (\<lambda>k. new_Sensor (rnd k) (random_shuffle (map int [0..<n]) ! k)) [0..<n]) \<and>
    sorts_main (Some n) random_shuffle stl_sort stl_sort_ptr rnd = Ret (replicate 5 (report s))"
  using assms by (rule sorts_main_agree)

theorem sensors_agree_witness:
  "\<exists>s. isSorted s \<and> length s = 7 \<and> mset (map sensor_id s) = mset (map int [0..<7]) \<and>
    mset s = mset (map (\<lambda>k. new_Sensor (\<lambda>j. int (j mod 3 + k)) (rev (map int [0..<7]) ! k)) [0..<7]) \<and>
    sorts_main (Some 7) rev insertion_sort insertion_sort (\<lambda>k j. int (j mod 3 + k)) = Ret (replicate 5 (report s))"
  by (rule sensors_agree) (simp_all add: insertion_sort_sorts_by)

text \<open>
  C26: signPlayer of BballRoster.cpp on a memory of sorted rosters ends without a fault,
  returns whether the name is new, and refines the update of a finite map: the roster stays a
  well-formed sorted list, holds the new value for a new name and is unchanged for an old one,
  and no other roster changes.
\<close>

theorem roster_signed:
  assumes "represents L m C" and "ob \<in> L" and "key_sorted (C ob)"
  shows "\<exists>m' es. signPlayer m ob f l v = Some (Ret (m', map_of (C ob) (l, f) = None)) \<and> represents L m' (C(ob := es)) \<and>
    key_sorted es \<and> map_of es = (if map_of (C ob) (l, f) = None then (map_of (C ob))((l, f) \<mapsto> v) else map_of (C ob))"
  using signPlayer_signs [OF assms, of f l v] key_sorted_sign_entry [OF assms(3), of "((l, f), v)"] map_of_sign_entry by blast

theorem roster_signed_witness:
  "\<exists>m' es. signPlayer rosters1 (Obj 0) ''Steve'' ''Nash'' ''10'' = Some (Ret (m', True)) \<and>
    map_of es (''Nash'', ''Steve'') = Some ''10'' \<and> represents {Obj 0, Obj 2} m' (players1(Obj 0 := es))"
proof -
  from roster_signed [OF rosters1_represents _ players1_sorted(1), of "''Steve''" "''Nash''" "''10''"]
  obtain m' es where "signPlayer rosters1 (Obj 0) ''Steve'' ''Nash'' ''10'' = Some (Ret (m', True))"
    "represents {Obj 0, Obj 2} m' (players1(Obj 0 := es))"
    "map_of es = (map_of (players1 (Obj 0)))((''Nash'', ''Steve'') \<mapsto> ''10'')" by (auto simp: players1_at)
  moreover from this(3) have "map_of es (''Nash'', ''Steve'') = Some ''10''" by simp
  ultimately show ?thesis by blast
qed

text \<open>
  C27: joinRosters of BballRoster.cpp for two different nonempty sorted rosters ends, puts the
  sorted merge of both into the third, which may be one of them, leaves out the names with
  different values and returns whether there are none; no node is leaked.
\<close>

theorem rosters_joined:
  assumes "represents L m C" and "Temp \<notin> L" and "bbOne \<in> L" and "bbTwo \<in> L" and "bbJoined \<in> L" and "bbOne \<noteq> bbTwo"
    and "C bbOne \<noteq> []" and "C bbTwo \<noteq> []" and "key_sorted (C bbOne)" and "key_sorted (C bbTwo)"
  shows "\<exists>m' es ok. joinRosters m bbOne bbTwo bbJoined = Some (Ret (m', ok)) \<and> represents L m' (C(bbJoined := es)) \<and>
    (ok \<longleftrightarrow> \<not> (\<exists>k x y. map_of (C bbOne) k = Some x \<and> map_of (C bbTwo) k = Some y \<and> x \<noteq> y)) \<and> key_sorted es \<and>
    map_of es = (\<lambda>k. case map_of (C bbOne) k of None \<Rightarrow> map_of (C bbTwo) k
      | Some x \<Rightarrow> (case map_of (C bbTwo) k of None \<Rightarrow> Some x | Some y \<Rightarrow> if x = y then Some x else None))"
proof -
  have "distinct (map fst (C bbOne))" using assms(9) strict_sorted_iff by blast
  then have "list_ex (clash (C bbTwo)) (C bbOne) \<longleftrightarrow>
      (\<exists>k x y. map_of (C bbOne) k = Some x \<and> map_of (C bbTwo) k = Some y \<and> x \<noteq> y)"
    by (auto simp: list_ex_iff clash_def split: option.splits) (metis fst_conv snd_conv map_of_SomeD option.distinct(1) option.inject)+
  with joinRosters_joins [OF assms(1-9)] joined_map [OF assms(9,10)] show ?thesis by blast
qed

theorem rosters_joined_witness:
  "\<exists>m' es. joinRosters rosters1 (Obj 0) (Obj 2) (Obj 2) = Some (Ret (m', False)) \<and>
    represents {Obj 0, Obj 2} m' (players1(Obj 2 := es)) \<and> map_of es (''Bryant'', ''Kobe'') = Some ''24''"
proof -
  have "map_of (players1 (Obj 0)) (''Johnson'', ''Magic'') = Some ''32''" "map_of (players1 (Obj 2)) (''Johnson'', ''Magic'') = Some ''15''"
    "map_of (players1 (Obj 0)) (''Bryant'', ''Kobe'') = Some ''24''" "map_of (players1 (Obj 2)) (''Bryant'', ''Kobe'') = None"
    "''32'' \<noteq> ''15''" "players1 (Obj 0) \<noteq> []" "players1 (Obj 2) \<noteq> []"
    by (simp_all add: players1_def)
  note facts = this
  from rosters_joined [OF rosters1_represents, of "Obj 0" "Obj 2" "Obj 2"] players1_sorted
  obtain m' es ok where r: "joinRosters rosters1 (Obj 0) (Obj 2) (Obj 2) = Some (Ret (m', ok))"
    "represents {Obj 0, Obj 2} m' (players1(Obj 2 := es))"
    "ok \<longleftrightarrow> \<not> (\<exists>k x y. map_of (players1 (Obj 0)) k = Some x \<and> map_of (players1 (Obj 2)) k = Some y \<and> x \<noteq> y)"
    "map_of es = (\<lambda>k. case map_of (players1 (Obj 0)) k of None \<Rightarrow> map_of (players1 (Obj 2)) k
      | Some x \<Rightarrow> (case map_of (players1 (Obj 2)) k of None \<Rightarrow> Some x | Some y \<Rightarrow> if x = y then Some x else None))"
    using facts(6,7) by auto
  have "\<not> ok" unfolding r(3) using facts(1,2,5) by blast
  with r(1,2) fun_cong [OF r(4), of "(''Bryant'', ''Kobe'')"] facts(3,4) show ?thesis by auto
qed

text \<open>
  C28: Appending a nonempty LinkedList to itself never ends: the loop meets each node it has
  just added.
\<close>

theorem self_append_never_ends:
  assumes "holds_list m p as xs" and "as \<noteq> []" and "mem_ok m"
  shows "append_list m p p = None"
  using assms by (rule append_self_diverges)

theorem self_append_never_ends_witness: "append_list ll_main_heap (Some 4) (Some 4) = None"
  by (rule self_append_never_ends [OF ll_main_heap_lists(1)]) (simp_all add: ll_main_heap_ok)

text \<open>
  C29: decrypt of decrypt.cpp, for a ciphertext and a crib made of words of at most 80
  letters, one character other than a letter, newline or NUL apart, the crib of at most 80
  characters, not longer than the text and fitting its first words in length and as a
  one-to-one substitution, ends without leaving an array, returns true and replaces every
  known letter by the crib's in upper case and every other letter by its lower case.
\<close>

theorem decrypt_key:
  assumes "list_all plain_word ws" and "plain_gaps cs" and "list_all plain_word vs" and "plain_gaps ds" and "vs \<noteq> []"
    and "map length vs = take (length vs) (map length ws)"
    and "length (sentence vs ds) \<le> 80" and "length (sentence vs ds) \<le> length (sentence ws cs)"
    and "one_to_one (concat (take (length vs) ws)) (concat vs)"
  shows "decrypt j1 j2 (sentence ws cs) (sentence vs ds) =
    Some (Ret (True, map (exchanged (concat (take (length vs) ws)) (map toupper (concat vs))) (sentence ws cs)))"
  using assms by (rule decrypt_matches)

theorem decrypt_key_witness:
  "decrypt (\<lambda>_. 0) (\<lambda>_. 0) ''gur png,naq'' ''the cat'' = Some (Ret (True, ''THE CAT,Aaq''))"
proof -
  have "one_to_one ''gurpng'' ''thecat''" unfolding one_to_one_def by code_simp
  moreover have "list_all plain_word [''gur'', ''png'', ''naq'']" "list_all plain_word [''the'', ''cat'']" "plain_gaps '' ,''" "plain_gaps '' ''" by code_simp+
  moreover have "map (exchanged ''gurpng'' ''THECAT'') ''gur png,naq'' = ''THE CAT,Aaq''" "map toupper ''thecat'' = ''THECAT''" by code_simp+
  ultimately show ?thesis using decrypt_key [of "[''gur'', ''png'', ''naq'']" "'' ,''" "[''the'', ''cat'']" "'' ''" "\<lambda>_. 0" "\<lambda>_. 0"] by simp
qed

text \<open>
  C30: When init of the Project 4 game returns, the level holds the boulders, barrels and
  nuggets its number asks for, in that order and more than 6 apart, none in the tunnel and
  boulders at height 20 or more, then one protestor; the player is new, and earth is
  everywhere except in the tunnel and under boulders.
\<close>

theorem level_layout:
  assumes "graph_ok F" and "0 < gw_lives F (w_game w0)" and "0 \<le> level" and "level = gw_level F (w_game w0)" and "w_actors w0 = []"
    and "tm_init F junk seed w0 = Some (Ret (st, w))"
  shows "st = GWSTATUS_CONTINUE_GAME \<and> w_man w = Some (new_TunnelMan F) \<and> w_barrels w = num_barrels level \<and>
    (\<exists>as c s. w_actors w = as @ [new_RegularProtestor F c level s] \<and>
      int (length as) = num_boulders level + num_nuggets level + num_barrels level \<and>
      (\<forall>i < length as. placed F (num_boulders level) (num_barrels level) i (as ! i)) \<and> sorted_wrt (far_apart F) as) \<and>
    earth_laid F w"
  using assms by (rule tm_init_ok)

theorem level_layout_witness:
  "\<exists>w. tm_init plain_framework (\<lambda>_. 0) tm_seed tm_world0 = Some (Ret (GWSTATUS_CONTINUE_GAME, w)) \<and> w_barrels w = 2 \<and>
    length (w_actors w) = 7 \<and> earth_laid plain_framework w"
proof -
  obtain w where w: "tm_init plain_framework (\<lambda>_. 0) tm_seed tm_world0 = Some (Ret (GWSTATUS_CONTINUE_GAME, w))"
    using tm_init_returns [OF plain_framework_ok, of tm_world0 tm_seed "\<lambda>_. 0"] by (auto simp: tm_world0_simps level0_counts tm_seed_good)
  with level_layout [OF plain_framework_ok _ _ _ _ w, of 0] show ?thesis by (auto simp: tm_world0_simps level0_counts)
qed

text \<open>
  C31: In every state of a level of the Project 4 game, whatever keys and random numbers come,
  the counter is the number of barrels left, player and protestors are on the field and no
  supply is negative; the level is reported finished only when no barrel is left.
\<close>

theorem oil_counted:
  assumes "graph_ok F" and "0 < gw_lives F (w_game w0)" and "0 \<le> gw_level F (w_game w0)" and "w_actors w0 = []"
    and "tm_init F junk seed w0 = Some (Ret (st0, w))" and "tm_run F evs w = Some (Ret (st, w'))"
  shows "level_ok F w' \<and> w_barrels w' = int (length (filter oil_left (w_actors w'))) \<and>
    (st = GWSTATUS_FINISHED_LEVEL \<longrightarrow> filter oil_left (w_actors w') = [])"
  using tm_run_ok [OF assms(6) tm_init_level_ok [OF assms(1-5)]] by (simp add: level_ok_def)

theorem oil_counted_witness:
  "\<exists>w. tm_init plain_framework (\<lambda>_. 0) tm_seed tm_world0 = Some (Ret (GWSTATUS_CONTINUE_GAME, w)) \<and> level_ok plain_framework w \<and>
    length (filter oil_left (w_actors w)) = 2"
proof -
  obtain w where w: "tm_init plain_framework (\<lambda>_. 0) tm_seed tm_world0 = Some (Ret (GWSTATUS_CONTINUE_GAME, w))"
    using tm_init_returns [OF plain_framework_ok, of tm_world0 tm_seed "\<lambda>_. 0"] by (auto simp: tm_world0_simps level0_counts tm_seed_good)
  have "w_barrels w = 2" using tm_init_ok [OF plain_framework_ok _ _ _ _ w, of 0] by (simp add: tm_world0_simps level0_counts)
  with oil_counted [OF plain_framework_ok _ _ _ w, of "[]" GWSTATUS_CONTINUE_GAME w] w show ?thesis by (auto simp: tm_world0_simps)
qed

text \<open>
  C32: In every state of a level of the Project 4 game every protestor still has its 5 hit
  points and keeps searching: neither squirts nor falling boulders ever annoy one.
\<close>

theorem protestors_unharmed:
  assumes "graph_ok F" and "0 < gw_lives F (w_game w0)" and "0 \<le> gw_level F (w_game w0)" and "w_actors w0 = []"
    and "tm_init F junk seed w0 = Some (Ret (st0, w))" and "tm_run F evs w = Some (Ret (st, w'))"
    and "a \<in> set (w_actors w')" and "a_class a = RegularProtestor p"
  shows "pr_hitPoints p = 5 \<and> \<not> pr_dead p \<and> a_state a = St_searching \<and> on_field F (a_obj a)"
proof -
  have "actor_ok F a" using tm_run_ok [OF assms(6) tm_init_level_ok [OF assms(1-5)]] assms(7) by (simp add: level_ok_def list_all_iff)
  then show ?thesis using assms(8) by (simp add: actor_ok_def unharmed_def)
qed

theorem protestors_unharmed_witness:
  "\<exists>w a p. tm_init plain_framework (\<lambda>_. 0) tm_seed tm_world0 = Some (Ret (GWSTATUS_CONTINUE_GAME, w)) \<and> a \<in> set (w_actors w) \<and>
    a_class a = RegularProtestor p \<and> pr_hitPoints p = 5"
proof -
  obtain w where w: "tm_init plain_framework (\<lambda>_. 0) tm_seed tm_world0 = Some (Ret (GWSTATUS_CONTINUE_GAME, w))"
    using tm_init_returns [OF plain_framework_ok, of tm_world0 tm_seed "\<lambda>_. 0"] by (auto simp: tm_world0_simps level0_counts tm_seed_good)
  obtain as c s where "w_actors w = as @ [new_RegularProtestor plain_framework c 0 s]"
    using tm_init_ok [OF plain_framework_ok _ _ _ _ w, of 0] by (auto simp: tm_world0_simps)
  then have a: "new_RegularProtestor plain_framework c 0 s \<in> set (w_actors w)" by simp
  obtain p where p: "a_class (new_RegularProtestor plain_framework c 0 s) = RegularProtestor p"
    by (simp add: new_RegularProtestor_def new_actor_def)
  from protestors_unharmed [OF plain_framework_ok _ _ _ w, of "[]" GWSTATUS_CONTINUE_GAME w _ p] a p w show ?thesis
    by (auto simp: tm_world0_simps)
qed

section \<open>Web server\<close>

text \<open>
  C33: The web server, with strings laid out as in libc++ and run in the directory it
  searches, answers any sequence of requests for files of the directory (of less than 2^31 -
  257 bytes; with short names with an extension, stored in lower case or on a file system that
  ignores case; asked for in any case, spaces as %20) in order with the header and the
  contents of the file, closes every connection and goes on.
\<close>

theorem web_requests_served:
  assumes "libcpp_layout lay" and "list_all2 served es rs"
  shows "web_main lay True True True es = Some (\<lparr>open_sockets = [], sent = rs\<rparr>, Ret ())"
  using accept_loop_serves [OF assms, of _ "[]"] by (simp add: web_main_def)

theorem web_requests_served_witness:
  "web_main layout1 True True True [request1, request1] =
    Some (\<lparr>open_sockets = [], sent = [(4, reply1), (4, reply1)]\<rparr>, Ret ())"
  by (rule web_requests_served [OF layout1_libcpp]) (simp add: request1_served)

text \<open>
  C34: After any such sequence, a client that closes its connection, or a request line in
  which the name has a slash among its first five characters or no slash follows the first,
  ends the server: by exit(1) or by an uncaught exception.
\<close>

theorem web_server_ends:
  assumes "libcpp_layout lay" and "list_all2 served es rs" and "ends_server e r"
  shows "\<exists>s. web_main lay True True True (es @ e # rest) = Some (s, r) \<and> sent s = rs"
proof -
  let ?s = "\<lparr>open_sockets = [], sent = []\<rparr>"
  obtain s where "accept_loop lay (?s\<lparr>sent := sent ?s @ rs\<rparr>) (e # rest) = Some (s, r)" "sent s = sent ?s @ rs"
    using accept_loop_ends [OF assms(3), of lay "?s\<lparr>sent := sent ?s @ rs\<rparr>" rest] by auto
  with accept_loop_serves [OF assms(1,2), of ?s "e # rest"] show ?thesis by (simp add: web_main_def)
qed

theorem web_server_ends_witness:
  "\<exists>s. web_main layout1 True True True [request1, request2, request1] = Some (s, Abort) \<and> sent s = [(4, reply1)]"
proof -
  have "ends_server request2 Abort" unfolding ends_server_def request2_def
    by (rule exI [of _ 4], rule exI [of _ "[]"], rule exI [of _ web1], rule conjI, simp, rule disjI2, rule exI [of _ "''GET ''"],
        rule exI [of _ "''img/logo.png HTTP/1.1''"], rule exI [of _ "[]"], simp)
  from web_server_ends [OF layout1_libcpp _ this, of "[request1]" "[(4, reply1)]" "[request1]"] show ?thesis
    by (simp add: request1_served)
qed

section \<open>File system summary\<close>

text \<open>
  C35: When the group has at least as many entries as the bitmap has bits, the two loops of
  lab3a report exactly the numbers (from 1) of the bits that are 0, in order.
\<close>

theorem free_list_exact:
  assumes "8 * int (length bm) \<le> cnt" and "cnt < 2 ^ 31"
  shows "free_entries bm cnt = map Suc (filter (\<lambda>k. \<not> bitmap_bit bm k) [0..<8 * length bm])"
  using assms by (rule free_entries_whole)

theorem free_list_exact_witness:
  "free_entries [0xFE, 0x7F] 16 = map Suc (filter (\<lambda>k. \<not> bitmap_bit [0xFE, 0x7F] k) [0..<8 * length [0xFE, 0x7F :: u8]])"
  by (rule free_list_exact) simp_all

text \<open>
  C36: get_time of lab3a gives for every 32-bit time the text month/day/year
  hour:minute:second, GMT, with two digits for each but the year, which is printed without its
  century and without padding, of the valid calendar date and time of day from which counting
  days, leap years included, back to 1 January 1970 gives the time again.
\<close>

theorem get_time_calendar:
  "\<exists>y mon day h m sec. 1970 \<le> y \<and> 1 \<le> mon \<and> mon \<le> 12 \<and> 1 \<le> day \<and> day \<le> month_days y (mon - 1) \<and>
     h < 24 \<and> m < 60 \<and> sec < 60 \<and>
     unat t = 86400 * (days_before_year y + days_before_month y (mon - 1) + (day - 1)) + 3600 * h + 60 * m + sec \<and>
     get_time t = Ret (calendar_text y mon day h m sec)"
  by (rule get_time_date)

section \<open>Round trips, copying and keys\<close>

text \<open>
  C37: Inserting a new element into a well-formed list and deleting it again gives back the
  list with the same elements in the same order: every node but the element itself, pointers
  and key, is as it was before.
\<close>

theorem SortedList_insert_delete:
  assumes "slist h l xs" and "keyed h e" and "e \<notin> set (l # xs)"
  shows "\<exists>h1 h2. SortedList_insert h l e = Some (Ret h1) \<and> SortedList_delete h1 e = Ret (0, h2) \<and> slist h2 l xs \<and>
    (\<forall>x. x \<noteq> e \<longrightarrow> h2 x = h x)"
proof -
  let ?ys = "takeWhile (\<lambda>x. key_at h e \<le> key_at h x) xs" and ?zs = "dropWhile (\<lambda>x. key_at h e \<le> key_at h x) xs"
  obtain h1 where h1: "SortedList_insert h l e = Some (Ret h1)" "slist h1 l (?ys @ e # ?zs)" "\<forall>x. key_of h1 x = key_of h x"
    "\<forall>x. x \<notin> set (l # e # xs) \<longrightarrow> h1 x = h x"
    using slist_insert [OF assms] by (auto simp: ins_addr_def)
  then obtain h2 where h2: "SortedList_delete h1 e = Ret (0, h2)" "dlist h2 l (?ys @ ?zs)" "\<forall>x. key_of h2 x = key_of h1 x"
    "\<forall>x. x \<notin> set (l # ?ys @ ?zs) \<longrightarrow> h2 x = h1 x"
    using delete_dlist unfolding slist_def by blast
  have sl: "slist h2 l xs" using h2(2,3) h1(3) assms(1) by (simp add: slist_def key_at_def)
  have "h2 x = h x" if "x \<noteq> e" for x
  proof (cases "x \<in> set (l # xs)")
    case True
    then show ?thesis using slist_same [OF assms(1) sl] h1(3) h2(3) by simp
  next
    case False
    moreover have "set (?ys @ ?zs) = set xs" by simp
    ultimately show ?thesis using that h1(4) h2(4) by auto
  qed
  with h1(1) h2(1) sl show ?thesis by blast
qed

theorem SortedList_insert_delete_witness:
  "\<exists>h1 h2. SortedList_insert heap1 0 1 = Some (Ret h1) \<and> SortedList_delete h1 1 = Ret (0, h2) \<and> slist h2 0 [] \<and>
    (\<forall>x. x \<noteq> 1 \<longrightarrow> h2 x = heap1 x)"
  using SortedList_insert_delete [OF heap1_slist] by simp

text \<open>
  C38: lab0 --input=p --output=q with two different files exits with 0, q then holds the
  contents of p, and no other file changes, whatever portions read() returns.
\<close>

theorem lab0_copies:
  assumes "p \<noteq> q" and "files s p = Some c" and "may_read env p" and "may_creat env q" and "dup_ok env"
    and "\<not> segfault_flag s" and "no_io_errors env"
  shows "\<exists>s'. l0_main env [prog, ''--input='' @ p, ''--output='' @ q] s = Some (s', Exit 0) \<and>
    files s' q = Some c \<and> (\<forall>f. f \<noteq> q \<longrightarrow> files s' f = files s f)"
proof -
  let ?s = "s\<lparr>files := (files s)(q \<mapsto> []), l0_in := FromFile p 0, l0_out := ToFile q 0\<rparr>"
  have "apart ?s" "at_end ?s" using assms(1) by (simp_all add: apart_def in_path_def out_path_def at_end_def)
  then obtain s' where s': "copy_loop env 0 ?s = Some (s', Ret ())" "out_content s' = out_content ?s @ avail ?s"
      "out_path s' = out_path ?s" "at_end s'"
    using copy_loop_copies assms(7) by blast
  have "out_content s' = c" using s'(2) assms(1,2) by (simp add: out_content_def avail_def)
  with s'(3,4) have "files s' q = Some c"
    by (auto simp: out_content_def out_path_def at_end_def split: l0_dst.splits)
  moreover have "files s' f = files s f" if "f \<noteq> q" for f
    using copy_loop_frame [OF s'(1), of f] that by (simp add: out_path_def)
  moreover have "l0_main env [prog, ''--input='' @ p, ''--output='' @ q] s = Some (s', Exit 0)"
    using assms s'(1) by (subst l0_main_files) simp_all
  ultimately show ?thesis by blast
qed

theorem lab0_copies_witness:
  "\<exists>s'. l0_main env0 [''lab0'', ''--input='' @ ''a'', ''--output='' @ ''b''] sys0 = Some (s', Exit 0) \<and> files s' ''b'' = Some ''some text''"
  using lab0_copies [of "''a''" "''b''" sys0 "''some text''" env0 "''lab0''"]
  by (auto simp: env0_def sys0_def no_io_errors_def L0_BUF_SIZE_def)

text \<open>
  C39: Every key generated by gen_random has 20 alphanumeric characters, and its hash is an
  index of one of the n lists.
\<close>

theorem random_key_list:
  assumes "0 < n"
  shows "length (random_key rand k) = 20 \<and> set (random_key rand k) \<subseteq> set alphanum \<and>
    (\<exists>j. get_key_hash n (random_key rand k) = Ret j \<and> 0 \<le> j \<and> j < n)"
proof -
  have "\<forall>c \<in> set (random_key rand k). 0 \<le> char_int c" using random_key_alphanum alphanum_chars by blast
  from get_key_hash_range [OF assms this] show ?thesis
    using random_key_alphanum by (simp add: key_len_def)
qed

theorem random_key_list_witness:
  "length (random_key (\<lambda>i. i) 3) = 20 \<and> (\<exists>j. get_key_hash 7 (random_key (\<lambda>i. i) 3) = Ret j \<and> 0 \<le> j \<and> j < 7)"
  using random_key_list [of 7 "\<lambda>i. i" 3] by simp

section \<open>Runs that go wrong\<close>

text \<open>
  C40: The client's count of free bytes is never decreased, so it never grows the buffer:
  typing the character that exceeds 16384 logged bytes writes outside the allocation.
\<close>

theorem client_log_overflow:
  assumes "\<not> compress_flag s" and "ce_peer env" and "log_flag s" and "sent_buf s = Some b" and "fresh_buf b"
    and "CLIENT_READ_SIZE < bf_load b + int (length x)"
  shows "snd (client_kbd_chars env zl n x s) = SegFault"
  using assms by (rule client_raw_overflow)

theorem client_log_overflow_witness:
  "snd (client_kbd_chars c_env1 zlib_id 1 (replicate 16385 CHR ''a'') c_sys1) = SegFault"
  by (rule client_log_overflow [OF _ _ _ _ buf1_fresh(1)])
    (simp_all add: c_sys1_def c_sys_init_def c_env1_def buf1_def CLIENT_READ_SIZE_def)

end
